(* ===== verification/Mesh_Prelude.thy ===== *)
theory Mesh_Prelude
  imports Main "HOL-Library.Word"
begin

text \<open>
  Shared ground of the development: addresses and the C allocator as the code sees it,
  null-terminated linked lists in a store, C characters as bytes, and the hint
  collections of the components.

  An address is an integer, \<open>NULL\<close> is 0. The allocator of the C library is modelled by
  the addresses it will hand out (\<open>pending\<close>, in order; an empty pending is an
  allocation failure and so is a NULL in it), the blocks that are live, and whether some
  \<^verbatim>\<open>free\<close> was called on an address that is not a live block. \<open>zeroed\<close> lists the
  ranges a \<^verbatim>\<open>memset\<close> to 0 has cleared, latest first.
\<close>

unbundle bit_operations_syntax

named_theorems pool_defs \<open>definitions of the pool component\<close>
named_theorems http_defs \<open>definitions of the parser's per-state handlers\<close>

section \<open>Machine types\<close>

type_synonym addr = int
type_synonym u8 = "8 word"
type_synonym u16 = "16 word"
type_synonym u32 = "32 word"
type_synonym u64 = "64 word"

abbreviation NULL :: addr where "NULL \<equiv> 0"

section \<open>The C allocator\<close>

record libc =
  pending :: "addr list"
  blocks :: "addr list"
  bad_free :: bool
  zeroed :: "(addr \<times> nat) list"

definition c_malloc :: "nat \<Rightarrow> 'a libc_scheme \<Rightarrow> addr \<times> 'a libc_scheme" where
  "c_malloc n w =
     (case pending w of
        [] \<Rightarrow> (NULL, w)
      | a # as \<Rightarrow>
          if a = NULL then (NULL, w\<lparr>pending := as\<rparr>)
          else (a, w\<lparr>pending := as, blocks := a # blocks w\<rparr>))"

definition c_free :: "addr \<Rightarrow> 'a libc_scheme \<Rightarrow> 'a libc_scheme" where
  "c_free a w =
     (if a = NULL then w
      else if a \<in> set (blocks w) then w\<lparr>blocks := remove1 a (blocks w)\<rparr>
      else w\<lparr>bad_free := True\<rparr>)"

definition c_memset0 :: "addr \<Rightarrow> nat \<Rightarrow> 'a libc_scheme \<Rightarrow> 'a libc_scheme" where
  "c_memset0 a n w = w\<lparr>zeroed := (a, n) # zeroed w\<rparr>"

lemma c_malloc_blocks:
  "c_malloc n w = (a, w') \<Longrightarrow>
     blocks w' = (if a = NULL then blocks w else a # blocks w) \<and> bad_free w' = bad_free w"
  by (auto simp: c_malloc_def split: list.splits if_splits)

lemma c_malloc_pending:
  "c_malloc n w = (a, w') \<Longrightarrow> set (pending w') \<subseteq> set (pending w) \<and> (a = NULL \<or> a \<in> set (pending w))"
  by (auto simp: c_malloc_def split: list.splits if_splits)

section \<open>Null-terminated linked lists in a store\<close>

text \<open>
  \<open>path nx p xs\<close>: following \<open>nx\<close> from \<open>p\<close> visits exactly the addresses
  \<open>xs\<close> and then reaches NULL.
\<close>

fun path :: "(addr \<Rightarrow> addr) \<Rightarrow> addr \<Rightarrow> addr list \<Rightarrow> bool" where
  "path nx p [] \<longleftrightarrow> p = NULL"
| "path nx p (x # xs) \<longleftrightarrow> p = x \<and> x \<noteq> NULL \<and> path nx (nx x) xs"

lemma path_NULL [simp]: "path nx NULL xs \<longleftrightarrow> xs = []"
  by (cases xs) auto

lemma path_not_NULL: "p \<noteq> NULL \<Longrightarrow> path nx p xs \<longleftrightarrow> (\<exists>ys. xs = p # ys \<and> path nx (nx p) ys)"
  by (cases xs) auto

lemma path_upd [simp]: "a \<notin> set xs \<Longrightarrow> path (nx(a := v)) p xs = path nx p xs"
  by (induction xs arbitrary: p) auto

lemma path_cong: "(\<And>x. x \<in> set xs \<Longrightarrow> nx x = nx' x) \<Longrightarrow> path nx p xs = path nx' p xs"
  by (induction xs arbitrary: p) auto

lemma path_no_NULL: "path nx p xs \<Longrightarrow> NULL \<notin> set xs"
  by (induction xs arbitrary: p) auto

lemma path_unique: "path nx p xs \<Longrightarrow> path nx p ys \<Longrightarrow> xs = ys"
proof (induction xs arbitrary: p ys)
  case Nil
  then show ?case by (cases ys) auto
next
  case (Cons x xs)
  then show ?case by (cases ys) auto
qed

text \<open>The first \<open>n\<close> nodes from \<open>p\<close>, the executable reading of a list of known length.\<close>

fun walk :: "(addr \<Rightarrow> addr) \<Rightarrow> addr \<Rightarrow> nat \<Rightarrow> addr list" where
  "walk nx p 0 = []"
| "walk nx p (Suc n) = p # walk nx (nx p) n"

lemma walk_path: "path nx p xs \<Longrightarrow> walk nx p (length xs) = xs"
  by (induction xs arbitrary: p) auto

section \<open>Unsigned counters\<close>

text \<open>An increment that cannot wrap, and a decrement that cannot, read as naturals.\<close>

lemma unat_inc:
  fixes x y :: "'a::len word"
  assumes "unat x < unat y"
  shows "unat (x + 1) = Suc (unat x)"
proof -
  have "x < y" using assms by (simp add: word_less_nat_alt)
  then have "x \<noteq> - 1" by (metis leD word_n1_ge)
  then have "1 + x \<noteq> 0" by (metis add.commute add_eq_0_iff)
  then show ?thesis by (simp add: unatSuc add.commute)
qed

lemma unat_lt32: "unat (x :: u32) < 2 ^ 32"
  using unsigned_less [of x, where 'a = nat] by simp

lemma unat_dec: "unat (x :: 'a::len word) \<noteq> 0 \<Longrightarrow> unat (x - 1) = unat x - 1"
  by (metis unat_0 unat_minus_one)

lemma sint_small:
  assumes "unat (x :: u32) < 2 ^ 31"
  shows "sint x = int (unat x)"
proof -
  have "sint x = signed_take_bit 31 (int (unat x))" by (simp add: sint_uint)
  moreover have "- (2 ^ 31) \<le> int (unat x)" "int (unat x) < 2 ^ 31"
    using assms by (auto simp del: of_nat_unat)
  ultimately show ?thesis by (simp only: signed_take_bit_int_eq_self)
qed

end
