(* ===== verification/Pool.thy ===== *)
theory Pool
  imports Mesh_Prelude
begin

text \<open>
  The resource pool (\<^verbatim>\<open>src/src/pool.c\<close>): two stacks of buckets linked through
  \<open>pb_next\<close>, one of buckets that hold an element (\<open>alloc_stack\<close>) and one of buckets
  that hold none (\<open>empty_stack\<close>), with 32-bit counters. The model keeps the linked lists
  as pointers into a store of buckets (\<open>bmem\<close>), the counters at their width and the
  callbacks as functions on the world \<open>'w\<close>, an extension of the C allocator's state.
  \<open>self\<close> is the address of the pool structure itself. Logging is left out.
\<close>

section \<open>Data\<close>

record PoolBucket =
  pb_data :: addr
  pb_flags :: u8
  pb_next :: addr

definition zero_bucket :: PoolBucket where
  "zero_bucket = \<lparr>pb_data = NULL, pb_flags = 0, pb_next = NULL\<rparr>"

definition POOL_BUCKET_PREALLOCATED :: u8 where
  "POOL_BUCKET_PREALLOCATED = 1"

text \<open>Sizes on a 64-bit target: a bucket is pointer, byte, pointer.\<close>

definition sizeof_PoolBucket :: int where "sizeof_PoolBucket = 24"
definition sizeof_Pool :: nat where "sizeof_Pool = 112"

record 'w Pool =
  max_buckets :: u32
  preallocated :: u32
  allocated :: u32
  alloc_stack_size :: u32
  alloc_stack :: addr
  empty_stack :: addr
  empty_stack_size :: u32
  data_buffer_size :: int
  data_buffer :: addr
  pb_buffer :: addr
  Alloc :: "('w \<Rightarrow> addr \<times> 'w) option"
  Init :: "addr \<Rightarrow> addr \<Rightarrow> 'w \<Rightarrow> int \<times> 'w"
  InitData :: addr
  Cleanup :: "(addr \<Rightarrow> 'w \<Rightarrow> 'w) option"
  Free :: "(addr \<Rightarrow> 'w \<Rightarrow> 'w) option"
  elt_size :: u32
  outstanding :: u32
  max_outstanding :: u32
  bmem :: "addr \<Rightarrow> PoolBucket"
  self :: addr

text \<open>The links of a store of buckets.\<close>

definition nexts :: "(addr \<Rightarrow> PoolBucket) \<Rightarrow> addr \<Rightarrow> addr" where
  "nexts h a = pb_next (h a)"

abbreviation bnext :: "'w Pool \<Rightarrow> addr \<Rightarrow> addr" where
  "bnext p \<equiv> nexts (bmem p)"

lemma nexts_upd [simp]: "nexts (h(x := b)) = (nexts h)(x := pb_next b)"
  by (auto simp: nexts_def)

lemma nexts_apply [simp]: "nexts h x = pb_next (h x)"
  by (simp add: nexts_def)

lemma nexts_eta [simp]: "path (\<lambda>a. pb_next (h a)) = path (nexts h)"
  by (simp add: nexts_def [abs_def])

section \<open>Operations\<close>

definition PoolMemset :: "u32 \<Rightarrow> addr \<Rightarrow> addr \<Rightarrow> 'a libc_scheme \<Rightarrow> int \<times> 'a libc_scheme" where
  "PoolMemset sz pitem initdata w = (1, c_memset0 pitem (unat sz) w)"

text \<open>\<open>delta\<close> is a signed pointer difference, compared with a C \<^verbatim>\<open>int\<close>.\<close>

definition PoolDataPreAllocated :: "'w Pool \<Rightarrow> addr \<Rightarrow> bool" where
  "PoolDataPreAllocated p data =
     (let delta = data - data_buffer p
      in \<not> (delta < 0 \<or> delta > data_buffer_size p))"

definition run_cleanup :: "'w Pool \<Rightarrow> addr \<Rightarrow> 'w \<Rightarrow> 'w" where
  "run_cleanup p d w = (case Cleanup p of Some f \<Rightarrow> f d w | None \<Rightarrow> w)"

definition run_free :: "('a libc_scheme) Pool \<Rightarrow> addr \<Rightarrow> 'a libc_scheme \<Rightarrow> 'a libc_scheme" where
  "run_free p d w = (case Free p of Some f \<Rightarrow> f d w | None \<Rightarrow> c_free d w)"

definition run_alloc :: "('a libc_scheme) Pool \<Rightarrow> 'a libc_scheme \<Rightarrow> addr \<times> 'a libc_scheme" where
  "run_alloc p w = (case Alloc p of Some f \<Rightarrow> f w | None \<Rightarrow> c_malloc (unat (elt_size p)) w)"

text \<open>The two loops of \<^verbatim>\<open>PoolFree\<close>; a cyclic stack would not return (\<open>None\<close>).\<close>

partial_function (option) free_alloc_stack ::
  "('a libc_scheme) Pool \<Rightarrow> 'a libc_scheme \<Rightarrow> (('a libc_scheme) Pool \<times> 'a libc_scheme) option" where
  "free_alloc_stack p w =
     (if alloc_stack p = NULL then Some (p, w)
      else
        let pb = alloc_stack p; b = bmem p pb;
            p1 = p\<lparr>alloc_stack := pb_next b\<rparr>;
            w1 = run_cleanup p1 (pb_data b) w;
            w2 = (if \<not> PoolDataPreAllocated p1 (pb_data b) then run_free p1 (pb_data b) w1 else w1);
            p2 = p1\<lparr>bmem := (bmem p1)(pb := b\<lparr>pb_data := NULL\<rparr>)\<rparr>;
            w3 = (if pb_flags b AND POOL_BUCKET_PREALLOCATED = 0 then c_free pb w2 else w2)
        in free_alloc_stack p2 w3)"

partial_function (option) free_empty_stack ::
  "('a libc_scheme) Pool \<Rightarrow> 'a libc_scheme \<Rightarrow> (('a libc_scheme) Pool \<times> 'a libc_scheme) option" where
  "free_empty_stack p w =
     (if empty_stack p = NULL then Some (p, w)
      else
        let pb = empty_stack p; b = bmem p pb;
            p1 = p\<lparr>empty_stack := pb_next b\<rparr>;
            (p2, w2) =
              (if pb_data b \<noteq> NULL then
                 let w1 = run_cleanup p1 (pb_data b) w
                 in (p1\<lparr>bmem := (bmem p1)(pb := b\<lparr>pb_data := NULL\<rparr>)\<rparr>,
                     if \<not> PoolDataPreAllocated p1 (pb_data b)
                     then run_free p1 (pb_data b) w1 else w1)
               else (p1, w));
            w3 = (if pb_flags b AND POOL_BUCKET_PREALLOCATED = 0 then c_free pb w2 else w2)
        in free_empty_stack p2 w3)"

definition PoolFree :: "('a libc_scheme) Pool option \<Rightarrow> 'a libc_scheme \<Rightarrow> 'a libc_scheme option" where
  "PoolFree po w =
     (case po of None \<Rightarrow> Some w
      | Some p \<Rightarrow>
          Option.bind (free_alloc_stack p w) (\<lambda>(p1, w1).
          Option.bind (free_empty_stack p1 w1) (\<lambda>(p2, w2).
            let w3 = (if pb_buffer p2 \<noteq> NULL then c_free (pb_buffer p2) w2 else w2);
                w4 = (if data_buffer p2 \<noteq> NULL then c_free (data_buffer p2) w3 else w3)
            in Some (c_free (self p2) w4))))"

text \<open>
  \<^verbatim>\<open>PoolInit\<close>, in the order of the code: the loop that puts the buckets of
  \<open>pb_buffer\<close> on the empty stack, one round of the preallocation loop for an unlimited
  pool and for a bounded one, the loop, and the function itself. The Boolean is False where
  the code jumps to \<^verbatim>\<open>error\<close>.
\<close>

fun fill_empty :: "nat \<Rightarrow> addr \<Rightarrow> 'w Pool \<Rightarrow> 'w Pool" where
  "fill_empty 0 pb p = p"
| "fill_empty (Suc n) pb p =
     fill_empty n (pb + sizeof_PoolBucket)
       (p\<lparr>bmem := (bmem p)(pb := (bmem p pb)\<lparr>pb_next := empty_stack p,
            pb_flags := pb_flags (bmem p pb) OR POOL_BUCKET_PREALLOCATED\<rparr>),
          empty_stack := pb,
          empty_stack_size := empty_stack_size p + 1\<rparr>)"

definition prealloc_unlimited ::
  "('a libc_scheme) Pool \<Rightarrow> 'a libc_scheme \<Rightarrow> bool \<times> ('a libc_scheme) Pool \<times> 'a libc_scheme" where
  "prealloc_unlimited p w =
     (let (pb, w1) = c_malloc (nat sizeof_PoolBucket) w
      in if pb = NULL then (False, p, w1)
         else
           let p1 = p\<lparr>bmem := (bmem p)(pb := zero_bucket)\<rparr>;
               (d, w2) = run_alloc p1 w1
           in if d = NULL then (False, p1, c_free pb w2)
              else
                let (r, w3) = Init p1 d (InitData p1) w2
                in if r \<noteq> 1
                   then (False, p1, c_free pb (run_free p1 d (run_cleanup p1 d w3)))
                   else (True,
                         p1\<lparr>allocated := allocated p1 + 1,
                            bmem := (bmem p1)(pb := zero_bucket\<lparr>pb_data := d, pb_next := alloc_stack p1\<rparr>),
                            alloc_stack := pb,
                            alloc_stack_size := alloc_stack_size p1 + 1\<rparr>,
                         w3))"

definition prealloc_bounded ::
  "u32 \<Rightarrow> ('a libc_scheme) Pool \<Rightarrow> 'a libc_scheme \<Rightarrow> bool \<times> ('a libc_scheme) Pool \<times> 'a libc_scheme" where
  "prealloc_bounded i p w =
     (let pb = empty_stack p
      in if pb = NULL then (False, p, w)
         else
           let d = data_buffer p + uint (i * elt_size p);
               b = (bmem p pb)\<lparr>pb_data := d\<rparr>;
               p1 = p\<lparr>bmem := (bmem p)(pb := b)\<rparr>;
               (r, w1) = Init p1 d (InitData p1) w
           in if r \<noteq> 1 then (False, p1, run_cleanup p1 d w1)
              else (True,
                    p1\<lparr>empty_stack := pb_next b,
                       empty_stack_size := empty_stack_size p1 - 1,
                       allocated := allocated p1 + 1,
                       bmem := (bmem p1)(pb := b\<lparr>pb_next := alloc_stack p1\<rparr>),
                       alloc_stack := pb,
                       alloc_stack_size := alloc_stack_size p1 + 1\<rparr>,
                    w1))"

fun prealloc_loop ::
  "nat \<Rightarrow> u32 \<Rightarrow> ('a libc_scheme) Pool \<Rightarrow> 'a libc_scheme \<Rightarrow> bool \<times> ('a libc_scheme) Pool \<times> 'a libc_scheme" where
  "prealloc_loop 0 i p w = (True, p, w)"
| "prealloc_loop (Suc n) i p w =
     (case (if max_buckets p = 0 then prealloc_unlimited p w else prealloc_bounded i p w) of
        (False, p1, w1) \<Rightarrow> (False, p1, w1)
      | (True, p1, w1) \<Rightarrow> prealloc_loop n (i + 1) p1 w1)"

definition new_Pool ::
  "addr \<Rightarrow> u32 \<Rightarrow> u32 \<Rightarrow> u32 \<Rightarrow> ('a libc_scheme \<Rightarrow> addr \<times> 'a libc_scheme) option \<Rightarrow>
   (addr \<Rightarrow> addr \<Rightarrow> 'a libc_scheme \<Rightarrow> int \<times> 'a libc_scheme) option \<Rightarrow> addr \<Rightarrow>
   (addr \<Rightarrow> 'a libc_scheme \<Rightarrow> 'a libc_scheme) option \<Rightarrow>
   (addr \<Rightarrow> 'a libc_scheme \<Rightarrow> 'a libc_scheme) option \<Rightarrow> ('a libc_scheme) Pool" where
  "new_Pool a sz prealloc_size esize al ini idata cl fr =
     \<lparr>max_buckets = sz, preallocated = prealloc_size, allocated = 0,
      alloc_stack_size = 0, alloc_stack = NULL, empty_stack = NULL, empty_stack_size = 0,
      data_buffer_size = sint (prealloc_size * esize), data_buffer = NULL, pb_buffer = NULL,
      Alloc = al,
      Init = (case ini of Some f \<Rightarrow> f | None \<Rightarrow> PoolMemset esize),
      InitData = (case ini of Some f \<Rightarrow> idata | None \<Rightarrow> a),
      Cleanup = cl, Free = fr, elt_size = esize, outstanding = 0, max_outstanding = 0,
      bmem = (\<lambda>_. zero_bucket), self = a\<rparr>"

definition PoolInit ::
  "u32 \<Rightarrow> u32 \<Rightarrow> u32 \<Rightarrow> ('a libc_scheme \<Rightarrow> addr \<times> 'a libc_scheme) option \<Rightarrow>
   (addr \<Rightarrow> addr \<Rightarrow> 'a libc_scheme \<Rightarrow> int \<times> 'a libc_scheme) option \<Rightarrow> addr \<Rightarrow>
   (addr \<Rightarrow> 'a libc_scheme \<Rightarrow> 'a libc_scheme) option \<Rightarrow>
   (addr \<Rightarrow> 'a libc_scheme \<Rightarrow> 'a libc_scheme) option \<Rightarrow> 'a libc_scheme \<Rightarrow>
   (('a libc_scheme) Pool option \<times> 'a libc_scheme) option" where
  "PoolInit sz prealloc_size esize al ini idata cl fr w =
     (if sz \<noteq> 0 \<and> prealloc_size > sz then Some (None, w)
      else if sz \<noteq> 0 \<and> esize = 0 then Some (None, w)
      else if esize \<noteq> 0 \<and> fr \<noteq> None then Some (None, w)
      else
        let (a, w1) = c_malloc sizeof_Pool w
        in if a = NULL then Some (None, w1)
           else
             let p0 = new_Pool a sz prealloc_size esize al ini idata cl fr;
                 error = (\<lambda>p w. map_option (\<lambda>w'. (None, w')) (PoolFree (Some p) w));
                 (pb, w2) = (if sz > 0 then c_malloc (unat sz * nat sizeof_PoolBucket) w1
                             else (NULL, w1))
             in if sz > 0 \<and> pb = NULL then error p0 w2
                else
                  let p1 = (if sz > 0 then fill_empty (unat sz) pb (p0\<lparr>pb_buffer := pb\<rparr>) else p0);
                      (db, w3) = (if sz > 0 then c_malloc (unat prealloc_size * unat esize) w2
                                  else (NULL, w2));
                      p2 = p1\<lparr>data_buffer := db\<rparr>
                  in if sz > 0 \<and> db = NULL then error p2 w3
                     else (case prealloc_loop (unat prealloc_size) 0 p2 w3 of
                             (True, p3, w4) \<Rightarrow> Some (Some p3, w4)
                           | (False, p3, w4) \<Rightarrow> error p3 w4))"

text \<open>Bookkeeping of one more element in use, shared by the two ways out of PoolGet.\<close>

definition count_out :: "'w Pool \<Rightarrow> 'w Pool" where
  "count_out p =
     (let n = outstanding p + 1
      in p\<lparr>outstanding := n,
           max_outstanding := (if n > max_outstanding p then n else max_outstanding p)\<rparr>)"

definition PoolGet ::
  "('a libc_scheme) Pool \<Rightarrow> 'a libc_scheme \<Rightarrow> addr \<times> ('a libc_scheme) Pool \<times> 'a libc_scheme" where
  "PoolGet p w =
     (let pb = alloc_stack p
      in if pb \<noteq> NULL then
           let b = bmem p pb;
               p1 = p\<lparr>alloc_stack := pb_next b,
                      alloc_stack_size := alloc_stack_size p - 1,
                      bmem := (bmem p)(pb := b\<lparr>pb_next := empty_stack p, pb_data := NULL\<rparr>),
                      empty_stack := pb,
                      empty_stack_size := empty_stack_size p + 1\<rparr>
           in (pb_data b, count_out p1, w)
         else if max_buckets p = 0 \<or> allocated p < max_buckets p then
           let (pitem, w1) = run_alloc p w
           in if pitem \<noteq> NULL then
                let (r, w2) = Init p pitem (InitData p) w1
                in if r \<noteq> 1 then (NULL, p, run_free p pitem (run_cleanup p pitem w2))
                   else (pitem, count_out (p\<lparr>allocated := allocated p + 1\<rparr>), w2)
              else (pitem, p, w1)
         else (NULL, p, w))"

definition PoolReturn ::
  "('a libc_scheme) Pool \<Rightarrow> addr \<Rightarrow> 'a libc_scheme \<Rightarrow> ('a libc_scheme) Pool \<times> 'a libc_scheme" where
  "PoolReturn p data w =
     (let pb = empty_stack p
      in if pb = NULL then
           let p1 = p\<lparr>allocated := allocated p - 1, outstanding := outstanding p - 1\<rparr>;
               w1 = run_cleanup p1 data w
           in (p1, if \<not> PoolDataPreAllocated p1 data then run_free p1 data w1 else w1)
         else
           let b = bmem p pb
           in (p\<lparr>empty_stack := pb_next b,
                 empty_stack_size := empty_stack_size p - 1,
                 bmem := (bmem p)(pb := b\<lparr>pb_next := alloc_stack p, pb_data := data\<rparr>),
                 alloc_stack := pb,
                 alloc_stack_size := alloc_stack_size p + 1,
                 outstanding := outstanding p - 1\<rparr>, w))"

end
