(* ===== verification/Pool_Inv.thy ===== *)
theory Pool_Inv
  imports Pool
begin

text \<open>
  The invariant of the pool, its preservation by PoolGet and PoolReturn, and the abstract
  pool (a stack of elements, a number of spare buckets and counters as naturals) that the
  pointer structure implements.
\<close>

section \<open>Invariant\<close>

text \<open>
  \<open>xs\<close> and \<open>ys\<close> are the buckets of the two stacks, top first. The first clause is
  the shape, the second the sizes, the third the elements, the last the counters.
\<close>

definition pool_shape :: "'w Pool \<Rightarrow> addr list \<Rightarrow> addr list \<Rightarrow> bool" where
  "pool_shape p xs ys \<longleftrightarrow>
     path (bnext p) (alloc_stack p) xs \<and> path (bnext p) (empty_stack p) ys \<and> distinct (xs @ ys)"

definition pool_wf :: "'w Pool \<Rightarrow> addr list \<Rightarrow> addr list \<Rightarrow> bool" where
  "pool_wf p xs ys \<longleftrightarrow>
     pool_shape p xs ys \<and>
     unat (alloc_stack_size p) = length xs \<and> unat (empty_stack_size p) = length ys \<and>
     length xs + length ys < 2 ^ 32 \<and>
     (\<forall>x \<in> set xs. pb_data (bmem p x) \<noteq> NULL) \<and> (\<forall>y \<in> set ys. pb_data (bmem p y) = NULL) \<and>
     unat (allocated p) = unat (outstanding p) + length xs \<and>
     unat (outstanding p) \<le> unat (max_outstanding p) \<and>
     (max_buckets p \<noteq> 0 \<longrightarrow>
        length xs + length ys = unat (max_buckets p) \<and> unat (allocated p) \<le> unat (max_buckets p))"

definition pool_inv :: "'w Pool \<Rightarrow> bool" where
  "pool_inv p \<longleftrightarrow> (\<exists>xs ys. pool_wf p xs ys)"

lemma pool_shape_alloc_Cons:
  "pool_shape p (x # xs) ys \<Longrightarrow>
     alloc_stack p = x \<and> x \<noteq> NULL \<and> x \<notin> set xs \<and> x \<notin> set ys \<and>
     path (bnext p) (pb_next (bmem p x)) xs \<and> path (bnext p) (empty_stack p) ys \<and> distinct (xs @ ys)"
  by (auto simp: pool_shape_def)

lemma pool_shape_empty_Cons:
  "pool_shape p xs (y # ys) \<Longrightarrow>
     empty_stack p = y \<and> y \<noteq> NULL \<and> y \<notin> set xs \<and> y \<notin> set ys \<and>
     path (bnext p) (pb_next (bmem p y)) ys \<and> path (bnext p) (alloc_stack p) xs \<and> distinct (xs @ ys)"
  by (auto simp: pool_shape_def)

lemma pool_shape_unique:
  "pool_shape p xs ys \<Longrightarrow> pool_shape p xs' ys' \<Longrightarrow> xs = xs' \<and> ys = ys'"
  by (auto simp: pool_shape_def dest: path_unique)

lemma pool_wf_unique: "pool_wf p xs ys \<Longrightarrow> pool_wf p xs' ys' \<Longrightarrow> xs = xs' \<and> ys = ys'"
  by (auto simp: pool_wf_def dest: pool_shape_unique)

lemma pool_wf_stacks:
  "pool_wf p xs ys \<Longrightarrow> (alloc_stack p = NULL \<longleftrightarrow> xs = []) \<and> (empty_stack p = NULL \<longleftrightarrow> ys = [])"
  by (cases xs; cases ys) (auto simp: pool_wf_def pool_shape_def)

section \<open>PoolGet and PoolReturn, branch by branch\<close>

lemma unat_inc_bound: "Suc (unat (x :: u32)) < 2 ^ 32 \<Longrightarrow> unat (x + 1) = Suc (unat x)"
  by (simp add: unat_word_ariths)

lemma count_out_simps [simp]:
  "max_buckets (count_out p) = max_buckets p" "allocated (count_out p) = allocated p"
  "alloc_stack_size (count_out p) = alloc_stack_size p" "alloc_stack (count_out p) = alloc_stack p"
  "empty_stack (count_out p) = empty_stack p" "empty_stack_size (count_out p) = empty_stack_size p"
  "bmem (count_out p) = bmem p" "outstanding (count_out p) = outstanding p + 1"
  "pool_shape (count_out p) = pool_shape p"
  by (auto simp: count_out_def Let_def pool_shape_def fun_eq_iff)

lemma count_out_max:
  "Suc (unat (outstanding p)) < 2 ^ 32 \<Longrightarrow>
   unat (max_outstanding (count_out p)) = max (unat (max_outstanding p)) (Suc (unat (outstanding p)))"
  by (simp add: count_out_def Let_def unat_inc_bound word_less_nat_alt max_def)

lemma PoolGet_pop:
  assumes wf: "pool_wf p (x # xs) ys" and get: "PoolGet p w = (d, p', w')"
  shows "d = pb_data (bmem p x)" "d \<noteq> NULL" "w' = w" "pool_wf p' xs (x # ys)"
    "unat (outstanding p') = Suc (unat (outstanding p))" "allocated p' = allocated p"
    "max_buckets p' = max_buckets p" "\<And>y. y \<noteq> x \<Longrightarrow> bmem p' y = bmem p y"
proof -
  let ?b = "bmem p x"
  let ?p1 = "p\<lparr>alloc_stack := pb_next ?b, alloc_stack_size := alloc_stack_size p - 1,
     bmem := (bmem p)(x := ?b\<lparr>pb_next := empty_stack p, pb_data := NULL\<rparr>),
     empty_stack := x, empty_stack_size := empty_stack_size p + 1\<rparr>"
  from wf have sh: "pool_shape p (x # xs) ys"
    and sz: "unat (alloc_stack_size p) = Suc (length xs)" "unat (empty_stack_size p) = length ys"
    and out: "unat (allocated p) = unat (outstanding p) + Suc (length xs)"
    and len: "Suc (length xs + length ys) < 2 ^ 32"
    by (auto simp: pool_wf_def)
  note s = pool_shape_alloc_Cons [OF sh]
  from get s have res: "d = pb_data ?b" "p' = count_out ?p1" "w' = w"
    by (auto simp: PoolGet_def Let_def)
  have o: "Suc (unat (outstanding p)) < 2 ^ 32"
    using out unat_lt32 [of "allocated p"] by simp
  have sh': "pool_shape ?p1 xs (x # ys)"
    using s by (auto simp: pool_shape_def)
  have "unat (alloc_stack_size p - 1) = length xs"
    using sz by (simp add: unat_dec)
  moreover have "unat (empty_stack_size p + 1) = Suc (length ys)"
    using sz len by (simp add: unat_inc_bound)
  ultimately show "pool_wf p' xs (x # ys)"
    using wf sh' s o count_out_max [of ?p1] unfolding pool_wf_def res
    by (auto simp: unat_inc_bound)
  show "d = pb_data (bmem p x)" "w' = w" by (fact res)+
  show "d \<noteq> NULL" using wf res by (simp add: pool_wf_def)
  show "unat (outstanding p') = Suc (unat (outstanding p))" "allocated p' = allocated p"
    "max_buckets p' = max_buckets p" "\<And>y. y \<noteq> x \<Longrightarrow> bmem p' y = bmem p y"
    using o by (simp_all add: res unat_inc_bound)
qed

lemma PoolGet_exhausted:
  assumes "pool_wf p [] ys" "max_buckets p \<noteq> 0" "\<not> allocated p < max_buckets p"
  shows "PoolGet p w = (NULL, p, w)"
  using assms pool_wf_stacks [OF assms(1)] by (simp add: PoolGet_def Let_def)

lemma PoolGet_fresh:
  assumes wf: "pool_wf p [] ys"
    and room: "max_buckets p = 0 \<or> allocated p < max_buckets p"
    and wrap: "max_buckets p = 0 \<Longrightarrow> Suc (unat (allocated p)) < 2 ^ 32"
    and get: "PoolGet p w = (d, p', w')"
  shows "pool_wf p' [] ys" "bmem p' = bmem p" "max_buckets p' = max_buckets p"
    "d = NULL \<Longrightarrow> p' = p"
    "d \<noteq> NULL \<Longrightarrow> unat (outstanding p') = Suc (unat (outstanding p))"
proof -
  have a: "alloc_stack p = NULL" using pool_wf_stacks [OF wf] by simp
  have cases: "d = NULL \<and> p' = p \<or> d \<noteq> NULL \<and> p' = count_out (p\<lparr>allocated := allocated p + 1\<rparr>)"
    using get a room by (auto simp: PoolGet_def split: prod.splits if_splits)
  have lt: "Suc (unat (allocated p)) < 2 ^ 32"
  proof (cases "max_buckets p = 0")
    case False
    then show ?thesis
      using room unat_lt32 [of "max_buckets p"] by (simp add: word_less_nat_alt)
  qed (rule wrap)
  from wf have ao: "unat (allocated p) = unat (outstanding p)" by (simp add: pool_wf_def)
  have o: "Suc (unat (outstanding p)) < 2 ^ 32" using lt ao by simp
  have le: "max_buckets p \<noteq> 0 \<longrightarrow> Suc (unat (outstanding p)) \<le> unat (max_buckets p)"
    using room ao by (auto simp: word_less_nat_alt)
  show "pool_wf p' [] ys"
  proof (cases "d = NULL")
    case False
    let ?p1 = "p\<lparr>allocated := allocated p + 1\<rparr>"
    have p': "p' = count_out ?p1" using cases False by simp
    have "pool_shape ?p1 [] ys" using wf by (simp add: pool_wf_def pool_shape_def)
    moreover have "unat (max_outstanding (count_out ?p1)) =
        max (unat (max_outstanding p)) (Suc (unat (outstanding p)))"
      using count_out_max [of ?p1] o by simp
    ultimately show ?thesis
      using wf le ao unfolding pool_wf_def p'
      by (simp add: unat_inc_bound [OF lt] unat_inc_bound [OF o])
  qed (use wf cases in simp)
  show "bmem p' = bmem p" "max_buckets p' = max_buckets p" "d = NULL \<Longrightarrow> p' = p"
    "d \<noteq> NULL \<Longrightarrow> unat (outstanding p') = Suc (unat (outstanding p))"
    using cases o by (auto simp: unat_inc_bound)
qed

lemma PoolReturn_push:
  assumes wf: "pool_wf p xs (y # ys)" and out: "outstanding p \<noteq> 0" and d: "d \<noteq> NULL"
    and ret: "PoolReturn p d w = (p', w')"
  shows "w' = w" "pool_wf p' (y # xs) ys" "pb_data (bmem p' y) = d"
    "Suc (unat (outstanding p')) = unat (outstanding p)" "allocated p' = allocated p"
    "max_buckets p' = max_buckets p" "\<And>x. x \<noteq> y \<Longrightarrow> bmem p' x = bmem p x"
proof -
  let ?b = "bmem p y"
  let ?p1 = "p\<lparr>empty_stack := pb_next ?b, empty_stack_size := empty_stack_size p - 1,
     bmem := (bmem p)(y := ?b\<lparr>pb_next := alloc_stack p, pb_data := d\<rparr>),
     alloc_stack := y, alloc_stack_size := alloc_stack_size p + 1,
     outstanding := outstanding p - 1\<rparr>"
  from wf have sh: "pool_shape p xs (y # ys)"
    and sz: "unat (alloc_stack_size p) = length xs" "unat (empty_stack_size p) = Suc (length ys)"
    and len: "Suc (length xs + length ys) < 2 ^ 32"
    by (auto simp: pool_wf_def)
  note s = pool_shape_empty_Cons [OF sh]
  from ret s have res: "p' = ?p1" "w' = w" by (auto simp: PoolReturn_def Let_def)
  have o: "Suc (unat (outstanding p - 1)) = unat (outstanding p)"
    using out by (metis Suc_pred' gr0I unat_dec unat_eq_zero)
  have "pool_shape ?p1 (y # xs) ys" using s by (auto simp: pool_shape_def)
  moreover have "unat (empty_stack_size p - 1) = length ys" using sz by (simp add: unat_dec)
  moreover have "unat (alloc_stack_size p + 1) = Suc (length xs)"
    using sz len by (simp add: unat_inc_bound)
  ultimately show "pool_wf p' (y # xs) ys"
    using wf s o d unfolding pool_wf_def res by auto
  show "w' = w" by (fact res)
  show "pb_data (bmem p' y) = d" "Suc (unat (outstanding p')) = unat (outstanding p)"
    "allocated p' = allocated p" "max_buckets p' = max_buckets p" "\<And>x. x \<noteq> y \<Longrightarrow> bmem p' x = bmem p x"
    using o by (simp_all add: res)
qed

text \<open>
  With no bucket left on the empty stack of a bounded pool, every bucket holds an element, so
  nothing is in use: the branch that just frees the element is for unlimited pools.
\<close>

lemma pool_wf_no_spare:
  assumes "pool_wf p xs []" "max_buckets p \<noteq> 0"
  shows "outstanding p = 0"
proof -
  have "unat (outstanding p) = 0" using assms by (auto simp: pool_wf_def)
  then show ?thesis by (simp add: unat_eq_zero)
qed

lemma PoolReturn_free:
  assumes wf: "pool_wf p xs []" and out: "outstanding p \<noteq> 0" and ret: "PoolReturn p d w = (p', w')"
  shows "pool_wf p' xs []" "Suc (unat (outstanding p')) = unat (outstanding p)" "bmem p' = bmem p"
    "max_buckets p = 0" "max_buckets p' = 0"
proof -
  show m: "max_buckets p = 0" using pool_wf_no_spare [OF wf] out by auto
  have e: "empty_stack p = NULL" using pool_wf_stacks [OF wf] by simp
  then have p': "p' = p\<lparr>allocated := allocated p - 1, outstanding := outstanding p - 1\<rparr>"
    using ret by (auto simp: PoolReturn_def Let_def)
  have o: "Suc (unat (outstanding p - 1)) = unat (outstanding p)"
    using out by (metis Suc_pred' gr0I unat_dec unat_eq_zero)
  have "unat (allocated p - 1) = unat (allocated p) - 1"
    using wf o by (intro unat_dec) (simp add: pool_wf_def)
  then show "pool_wf p' xs []" "Suc (unat (outstanding p')) = unat (outstanding p)" "bmem p' = bmem p"
    "max_buckets p' = 0"
    using wf o m by (auto simp: p' pool_wf_def pool_shape_def)
qed

end
