(* ===== verification/Pool_Spec.thy ===== *)
theory Pool_Spec
  imports Pool_Inv "HOL-Library.Multiset"
begin

text \<open>
  What the pool promises. The abstract pool is a stack of elements with natural-number
  counters; \<open>pool_abs\<close> reads it off the pointer structure, and PoolGet and PoolReturn
  are shown to refine its two operations. The locale \<open>resource_pool\<close> is the contract
  the connection handlers rely on (a pool whose elements are all preallocated); it is
  interpreted on the code's PoolGet and PoolReturn.
\<close>

section \<open>Abstract pool and refinement\<close>

record apool =
  ap_stack :: "addr list"
  ap_spare :: nat
  ap_out :: nat
  ap_cap :: nat

definition pool_abs :: "'w Pool \<Rightarrow> apool" where
  "pool_abs p =
     \<lparr>ap_stack = map (\<lambda>a. pb_data (bmem p a)) (walk (bnext p) (alloc_stack p) (unat (alloc_stack_size p))),
      ap_spare = unat (empty_stack_size p),
      ap_out = unat (outstanding p),
      ap_cap = unat (max_buckets p)\<rparr>"

text \<open>
  \<open>fresh\<close> is the element that is made when the stack is empty (NULL when that fails); a
  capacity of 0 is no limit.
\<close>

definition spec_get :: "addr \<Rightarrow> apool \<Rightarrow> addr \<times> apool" where
  "spec_get fresh a =
     (case ap_stack a of
        d # ds \<Rightarrow> (d, a\<lparr>ap_stack := ds, ap_spare := Suc (ap_spare a), ap_out := Suc (ap_out a)\<rparr>)
      | [] \<Rightarrow>
          if (ap_cap a = 0 \<or> ap_out a < ap_cap a) \<and> fresh \<noteq> NULL
          then (fresh, a\<lparr>ap_out := Suc (ap_out a)\<rparr>)
          else (NULL, a))"

definition spec_put :: "addr \<Rightarrow> apool \<Rightarrow> apool" where
  "spec_put d a =
     (if ap_spare a = 0 then a\<lparr>ap_out := ap_out a - 1\<rparr>
      else a\<lparr>ap_stack := d # ap_stack a, ap_spare := ap_spare a - 1, ap_out := ap_out a - 1\<rparr>)"

lemma pool_abs_wf:
  assumes "pool_wf p xs ys"
  shows "pool_abs p =
     \<lparr>ap_stack = map (\<lambda>a. pb_data (bmem p a)) xs, ap_spare = length ys,
      ap_out = unat (outstanding p), ap_cap = unat (max_buckets p)\<rparr>"
proof -
  have "path (bnext p) (alloc_stack p) xs" "unat (alloc_stack_size p) = length xs"
    "unat (empty_stack_size p) = length ys"
    using assms by (auto simp: pool_wf_def pool_shape_def)
  then show ?thesis by (simp add: pool_abs_def walk_path)
qed

text \<open>An unlimited pool must not have handed out \<open>2\<^sup>3\<^sup>2 - 1\<close> elements already.\<close>

definition counters_room :: "'w Pool \<Rightarrow> bool" where
  "counters_room p \<longleftrightarrow> (max_buckets p = 0 \<longrightarrow> Suc (unat (allocated p)) < 2 ^ 32)"

lemma PoolGet_refines:
  assumes inv: "pool_inv p" and room: "counters_room p" and get: "PoolGet p w = (d, p', w')"
  shows "pool_inv p' \<and> spec_get d (pool_abs p) = (d, pool_abs p')"
proof -
  obtain xs ys where wf: "pool_wf p xs ys" using inv by (auto simp: pool_inv_def)
  show ?thesis
  proof (cases xs)
    case (Cons x zs)
    note wf = wf [unfolded Cons]
    note pop = PoolGet_pop [OF wf get]
    have "x \<notin> set zs" using wf by (auto simp: pool_wf_def pool_shape_def)
    then have "map (\<lambda>a. pb_data (bmem p' a)) zs = map (\<lambda>a. pb_data (bmem p a)) zs"
      by (auto intro!: arg_cong [OF pop(8)])
    then show ?thesis
      using pop pool_abs_wf [OF wf] pool_abs_wf [OF pop(4)]
      by (auto simp: pool_inv_def spec_get_def)
  next
    case Nil
    note wf = wf [unfolded Nil]
    have ao: "unat (allocated p) = unat (outstanding p)" using wf by (simp add: pool_wf_def)
    show ?thesis
    proof (cases "max_buckets p = 0 \<or> allocated p < max_buckets p")
      case True
      note fresh = PoolGet_fresh [OF wf True _ get]
      have "max_buckets p = 0 \<Longrightarrow> Suc (unat (allocated p)) < 2 ^ 32"
        using room by (simp add: counters_room_def)
      then show ?thesis
        using fresh True ao pool_abs_wf [OF wf] pool_abs_wf [OF fresh(1)]
        by (auto simp: pool_inv_def spec_get_def word_less_nat_alt unat_eq_zero)
    next
      case False
      then have "d = NULL" "p' = p"
        using PoolGet_exhausted [OF wf, of w] get by auto
      then show ?thesis
        using False ao inv pool_abs_wf [OF wf]
        by (auto simp: spec_get_def word_less_nat_alt unat_eq_zero)
    qed
  qed
qed

lemma PoolReturn_refines:
  assumes inv: "pool_inv p" and out: "outstanding p \<noteq> 0" and d: "d \<noteq> NULL"
    and ret: "PoolReturn p d w = (p', w')"
  shows "pool_inv p' \<and> pool_abs p' = spec_put d (pool_abs p)"
proof -
  obtain xs ys where wf: "pool_wf p xs ys" using inv by (auto simp: pool_inv_def)
  show ?thesis
  proof (cases ys)
    case (Cons y zs)
    note wf = wf [unfolded Cons]
    note push = PoolReturn_push [OF wf out d ret]
    have "y \<notin> set xs" using wf by (auto simp: pool_wf_def pool_shape_def)
    then have "map (\<lambda>a. pb_data (bmem p' a)) xs = map (\<lambda>a. pb_data (bmem p a)) xs"
      by (auto intro!: arg_cong [OF push(7)])
    then show ?thesis
      using push pool_abs_wf [OF wf] pool_abs_wf [OF push(2)]
      by (auto simp: pool_inv_def spec_put_def)
  next
    case Nil
    note wf = wf [unfolded Nil]
    note free = PoolReturn_free [OF wf out ret]
    show ?thesis
      using free pool_abs_wf [OF wf] pool_abs_wf [OF free(1)]
      by (auto simp: pool_inv_def spec_put_def)
  qed
qed

section \<open>The contract of a preallocated pool\<close>

locale resource_pool =
  fixes get :: "'p \<Rightarrow> 'w \<Rightarrow> addr \<times> 'p \<times> 'w"
    and put :: "'p \<Rightarrow> addr \<Rightarrow> 'w \<Rightarrow> 'p \<times> 'w"
    and items :: "'p \<Rightarrow> addr list"
    and in_use :: "'p \<Rightarrow> nat"
    and inv :: "'p \<Rightarrow> bool"
  assumes get_item: "inv p \<Longrightarrow> items p = d # ds \<Longrightarrow>
      \<exists>p'. get p w = (d, p', w) \<and> inv p' \<and> items p' = ds \<and> in_use p' = Suc (in_use p)"
    and get_none: "inv p \<Longrightarrow> items p = [] \<Longrightarrow> get p w = (NULL, p, w)"
    and put_item: "inv p \<Longrightarrow> 0 < in_use p \<Longrightarrow> d \<noteq> NULL \<Longrightarrow>
      \<exists>p'. put p d w = (p', w) \<and> inv p' \<and> items p' = d # items p \<and> Suc (in_use p') = in_use p"
    and item_not_NULL: "inv p \<Longrightarrow> d \<in> set (items p) \<Longrightarrow> d \<noteq> NULL"

text \<open>
  A client takes elements and gives back only elements it holds. \<open>pool_client\<close> is one
  call, with the list of what the client holds.
\<close>

datatype pool_call = Take | Give addr

fun pool_client ::
  "('p \<Rightarrow> 'w \<Rightarrow> addr \<times> 'p \<times> 'w) \<Rightarrow> ('p \<Rightarrow> addr \<Rightarrow> 'w \<Rightarrow> 'p \<times> 'w) \<Rightarrow>
   pool_call \<Rightarrow> 'p \<times> 'w \<times> addr list \<Rightarrow> 'p \<times> 'w \<times> addr list" where
  "pool_client get put Take (p, w, held) =
     (let (d, p', w') = get p w in (p', w', if d = NULL then held else d # held))"
| "pool_client get put (Give d) (p, w, held) =
     (if d \<in> set held then (let (p', w') = put p d w in (p', w', remove1 d held))
      else (p, w, held))"

context resource_pool
begin

definition client_ok :: "addr multiset \<Rightarrow> 'p \<times> 'w \<times> addr list \<Rightarrow> bool" where
  "client_ok M s \<longleftrightarrow>
     (case s of (p, w, held) \<Rightarrow>
        inv p \<and> mset (items p) + mset held = M \<and> length held = in_use p \<and> NULL \<notin> set held)"

lemma client_ok_step:
  assumes "client_ok M s"
  shows "client_ok M (pool_client get put c s)"
proof -
  obtain p w held where s: "s = (p, w, held)" by (cases s)
  have ok: "inv p" "mset (items p) + mset held = M" "length held = in_use p" "NULL \<notin> set held"
    using assms s by (auto simp: client_ok_def)
  show ?thesis
  proof (cases c)
    case Take
    show ?thesis
    proof (cases "items p")
      case Nil
      then show ?thesis using ok get_none by (simp add: s Take client_ok_def)
    next
      case (Cons d ds)
      obtain p' where "get p w = (d, p', w)" "inv p'" "items p' = ds" "in_use p' = Suc (in_use p)"
        using get_item [OF ok(1) Cons] by blast
      then show ?thesis
        using ok Cons item_not_NULL [OF ok(1)] by (auto simp: s Take client_ok_def)
    qed
  next
    case (Give d)
    show ?thesis
    proof (cases "d \<in> set held")
      case True
      have "0 < in_use p" using ok(3) length_pos_if_in_set [OF True] by simp
      moreover have "d \<noteq> NULL" using ok(4) True by auto
      ultimately obtain p' where "put p d w = (p', w)" "inv p'" "items p' = d # items p"
        "Suc (in_use p') = in_use p"
        using put_item [OF ok(1)] by blast
      then show ?thesis
        using ok True by (auto simp: s Give client_ok_def length_remove1 intro: notin_set_remove1)
    qed (use assms s Give in simp)
  qed
qed

lemma client_ok_run: "client_ok M s \<Longrightarrow> client_ok M (fold (pool_client get put) cs s)"
  proof (induction cs arbitrary: s)
  case (Cons c cs)
  show ?case using Cons.IH [OF client_ok_step [OF Cons.prems]] by simp
qed simp

text \<open>No element is ever in two hands, nor both in a hand and in the pool.\<close>

lemma client_no_alias:
  assumes "inv p" "distinct (items p)" "in_use p = 0"
    and "fold (pool_client get put) cs (p, w, []) = (p', w', held)"
  shows "inv p' \<and> distinct (held @ items p') \<and> set held \<union> set (items p') = set (items p) \<and>
    length held = in_use p'"
proof -
  have "client_ok (mset (items p)) (p', w', held)"
    using client_ok_run [of "mset (items p)" "(p, w, [])" cs] assms by (simp add: client_ok_def)
  then have eq: "mset (held @ items p') = mset (items p)"
    and "inv p'" "length held = in_use p'"
    by (auto simp: client_ok_def add.commute)
  have "distinct (held @ items p') = distinct (items p)" "set (held @ items p') = set (items p)"
    using eq by (metis mset_eq_imp_distinct_iff, metis mset_eq_setD)
  then show ?thesis using assms(2) \<open>inv p'\<close> \<open>length held = in_use p'\<close> by auto
qed

end

text \<open>
  The pools of the agents are created with as many preallocated elements as buckets, so
  \<open>allocated\<close> is at the limit from the start and PoolGet never allocates.
\<close>

definition fixed_pool :: "'w Pool \<Rightarrow> bool" where
  "fixed_pool p \<longleftrightarrow> pool_inv p \<and> max_buckets p \<noteq> 0 \<and> allocated p = max_buckets p"

interpretation fixed: resource_pool PoolGet PoolReturn "ap_stack \<circ> pool_abs" "ap_out \<circ> pool_abs" fixed_pool
proof unfold_locales
  fix p :: "('a libc_scheme) Pool" and w d ds
  assume inv: "fixed_pool p" and it: "(ap_stack \<circ> pool_abs) p = d # ds"
  obtain xs ys where wf: "pool_wf p xs ys" using inv by (auto simp: fixed_pool_def pool_inv_def)
  then obtain x zs where xs: "xs = x # zs" using it pool_abs_wf [OF wf] by (cases xs) auto
  obtain d' p' w' where get: "PoolGet p w = (d', p', w')" by (metis prod_cases3)
  note pop = PoolGet_pop [OF wf [unfolded xs] get]
  have "counters_room p" using inv by (simp add: counters_room_def fixed_pool_def)
  then have sg: "(d', pool_abs p') = spec_get d' (pool_abs p)" and "pool_inv p'"
    using PoolGet_refines [OF _ _ get] inv by (auto simp: fixed_pool_def)
  have "d' = d" "pool_abs p' = (pool_abs p)\<lparr>ap_stack := ds,
      ap_spare := Suc (ap_spare (pool_abs p)), ap_out := Suc (ap_out (pool_abs p))\<rparr>"
    using sg it by (simp_all add: spec_get_def)
  then show "\<exists>p'. PoolGet p w = (d, p', w) \<and> fixed_pool p' \<and> (ap_stack \<circ> pool_abs) p' = ds \<and>
      (ap_out \<circ> pool_abs) p' = Suc ((ap_out \<circ> pool_abs) p)"
    using get pop(3,6,7) inv \<open>pool_inv p'\<close> by (simp add: fixed_pool_def)
next
  fix p :: "('a libc_scheme) Pool" and w
  assume inv: "fixed_pool p" and it: "(ap_stack \<circ> pool_abs) p = []"
  obtain xs ys where wf: "pool_wf p xs ys" using inv by (auto simp: fixed_pool_def pool_inv_def)
  then have "xs = []" using it pool_abs_wf [OF wf] by simp
  then show "PoolGet p w = (NULL, p, w)"
    using PoolGet_exhausted [of p ys w] wf inv by (simp add: fixed_pool_def)
next
  fix p :: "('a libc_scheme) Pool" and w d
  assume inv: "fixed_pool p" and out: "0 < (ap_out \<circ> pool_abs) p" and d: "d \<noteq> NULL"
  obtain xs ys where wf: "pool_wf p xs ys" using inv by (auto simp: fixed_pool_def pool_inv_def)
  have o: "outstanding p \<noteq> 0" using out by (auto simp: pool_abs_def)
  then obtain y zs where ys: "ys = y # zs"
    using pool_wf_no_spare [of p xs] wf inv by (cases ys) (auto simp: fixed_pool_def)
  obtain p' w' where ret: "PoolReturn p d w = (p', w')" by fastforce
  note push = PoolReturn_push [OF wf [unfolded ys] o d ret]
  have "pool_inv p' \<and> pool_abs p' = spec_put d (pool_abs p)"
    using PoolReturn_refines [OF _ o d ret] inv by (simp add: fixed_pool_def)
  then show "\<exists>p'. PoolReturn p d w = (p', w) \<and> fixed_pool p' \<and>
      (ap_stack \<circ> pool_abs) p' = d # (ap_stack \<circ> pool_abs) p \<and>
      Suc ((ap_out \<circ> pool_abs) p') = (ap_out \<circ> pool_abs) p"
    using push ret inv pool_abs_wf [OF wf] ys o
    by (auto simp: fixed_pool_def spec_put_def unat_eq_zero)
next
  fix p :: "('a libc_scheme) Pool" and d
  assume inv: "fixed_pool p" and "d \<in> set ((ap_stack \<circ> pool_abs) p)"
  then obtain xs ys where wf: "pool_wf p xs ys" by (auto simp: fixed_pool_def pool_inv_def)
  then show "d \<noteq> NULL"
    using pool_abs_wf [OF wf] \<open>d \<in> set ((ap_stack \<circ> pool_abs) p)\<close> by (auto simp: pool_wf_def)
qed

section \<open>What the agents use\<close>

abbreviation pool_items :: "'w Pool \<Rightarrow> addr list" where "pool_items p \<equiv> ap_stack (pool_abs p)"
abbreviation pool_used :: "'w Pool \<Rightarrow> nat" where "pool_used p \<equiv> ap_out (pool_abs p)"

lemma pool_get_cases:
  assumes "fixed_pool p"
  obtains "pool_items p = []" "PoolGet p w = (NULL, p, w)"
  | d ds p' where "pool_items p = d # ds" "d \<noteq> NULL" "PoolGet p w = (d, p', w)" "fixed_pool p'"
      "pool_items p' = ds" "pool_used p' = Suc (pool_used p)"
proof (cases "pool_items p")
  case Nil
  then show thesis using that(1) fixed.get_none [OF assms, of w] by simp
next
  case (Cons d ds)
  then show thesis
    using that(2) fixed.get_item [OF assms, of d ds w] fixed.item_not_NULL [OF assms, of d] by force
qed

lemma pool_put:
  assumes "fixed_pool p" "0 < pool_used p" "d \<noteq> NULL"
  obtains p' where "PoolReturn p d w = (p', w)" "fixed_pool p'" "pool_items p' = d # pool_items p"
    "Suc (pool_used p') = pool_used p"
  using fixed.put_item [OF assms(1) _ assms(3), of w] assms(2) by auto

end
