(* ===== verification/Pool_Life.thy ===== *)
theory Pool_Life
  imports Pool_Spec
begin

text \<open>
  The life of a pool: what PoolInit builds, that PoolFree returns, and that the two
  together neither leak a block nor free one twice.
\<close>

section \<open>PoolFree\<close>

text \<open>What PoolFree does to the world for one bucket of the alloc stack.\<close>

definition release_bucket :: "('a libc_scheme) Pool \<Rightarrow> addr \<Rightarrow> 'a libc_scheme \<Rightarrow> 'a libc_scheme" where
  "release_bucket p x w =
     (let d = pb_data (bmem p x);
          w1 = run_cleanup p d w;
          w2 = (if \<not> PoolDataPreAllocated p d then run_free p d w1 else w1)
      in if pb_flags (bmem p x) AND POOL_BUCKET_PREALLOCATED = 0 then c_free x w2 else w2)"

definition release_spare :: "('a libc_scheme) Pool \<Rightarrow> addr \<Rightarrow> 'a libc_scheme \<Rightarrow> 'a libc_scheme" where
  "release_spare p y w =
     (let d = pb_data (bmem p y);
          w1 = run_cleanup p d w;
          w2 = (if d = NULL then w
                else if \<not> PoolDataPreAllocated p d then run_free p d w1 else w1)
      in if pb_flags (bmem p y) AND POOL_BUCKET_PREALLOCATED = 0 then c_free y w2 else w2)"

text \<open>The fields the loops leave alone, and what they keep of the buckets.\<close>

definition same_frame :: "'w Pool \<Rightarrow> 'w Pool \<Rightarrow> bool" where
  "same_frame p q \<longleftrightarrow>
     Cleanup q = Cleanup p \<and> Free q = Free p \<and> data_buffer q = data_buffer p \<and>
     data_buffer_size q = data_buffer_size p \<and> pb_buffer q = pb_buffer p \<and> self q = self p \<and>
     bnext q = bnext p \<and> pb_flags \<circ> bmem q = pb_flags \<circ> bmem p"

lemma same_frame_refl [simp]: "same_frame p p"
  by (simp add: same_frame_def)

lemma same_frame_trans: "same_frame p q \<Longrightarrow> same_frame q r \<Longrightarrow> same_frame p r"
  by (simp add: same_frame_def)

lemma same_frame_run:
  assumes "same_frame p q"
  shows "run_cleanup q = run_cleanup p" "run_free q = run_free p"
    "PoolDataPreAllocated q = PoolDataPreAllocated p"
  using assms
  by (auto simp: same_frame_def run_cleanup_def run_free_def PoolDataPreAllocated_def Let_def fun_eq_iff)

lemma same_frame_flags: "same_frame p q \<Longrightarrow> pb_flags (bmem q x) = pb_flags (bmem p x)"
  by (metis comp_apply same_frame_def)

lemma release_cong:
  assumes "same_frame p q" "pb_data (bmem q x) = pb_data (bmem p x)"
  shows "release_bucket q x = release_bucket p x" "release_spare q x = release_spare p x"
  using assms by (simp_all add: release_bucket_def release_spare_def same_frame_run same_frame_flags fun_eq_iff Let_def)

lemma free_alloc_stack_run:
  assumes "path (bnext p) (alloc_stack p) xs" "distinct xs"
  shows "\<exists>p'. free_alloc_stack p w = Some (p', fold (release_bucket p) xs w) \<and> same_frame p p' \<and>
    empty_stack p' = empty_stack p \<and> (\<forall>y. y \<notin> set xs \<longrightarrow> bmem p' y = bmem p y)"
  using assms
proof (induction xs arbitrary: p w)
  case Nil
  then show ?case by (subst free_alloc_stack.simps) auto
next
  case (Cons x xs)
  let ?p = "p\<lparr>alloc_stack := pb_next (bmem p x), bmem := (bmem p)(x := (bmem p x)\<lparr>pb_data := NULL\<rparr>)\<rparr>"
  have x: "alloc_stack p = x" "x \<noteq> NULL" "x \<notin> set xs" "distinct xs"
    and path: "path (bnext p) (pb_next (bmem p x)) xs"
    using Cons.prems by simp_all
  have fr: "same_frame p ?p" by (auto simp: same_frame_def fun_eq_iff)
  then have "path (bnext ?p) (alloc_stack ?p) xs" using path by (simp add: same_frame_def)
  from Cons.IH [OF this x(4), of "release_bucket p x w"] obtain p' where
    IH: "free_alloc_stack ?p (release_bucket p x w) = Some (p', fold (release_bucket ?p) xs (release_bucket p x w))"
    "same_frame ?p p'" "empty_stack p' = empty_stack ?p" "\<forall>y. y \<notin> set xs \<longrightarrow> bmem p' y = bmem ?p y"
    by blast
  have "fold (release_bucket ?p) xs (release_bucket p x w) = fold (release_bucket p) (x # xs) w"
    using x(3) by (auto intro!: fold_cong release_cong(1) [OF fr])
  moreover have "free_alloc_stack p w = free_alloc_stack ?p (release_bucket p x w)"
    using x by (subst free_alloc_stack.simps)
      (simp add: Let_def release_bucket_def run_cleanup_def run_free_def PoolDataPreAllocated_def)
  ultimately show ?case using IH same_frame_trans [OF fr IH(2)] x by auto
qed

lemma free_empty_stack_run:
  assumes "path (bnext p) (empty_stack p) ys" "distinct ys"
  shows "\<exists>p'. free_empty_stack p w = Some (p', fold (release_spare p) ys w) \<and> same_frame p p'"
  using assms
proof (induction ys arbitrary: p w)
  case Nil
  then show ?case by (subst free_empty_stack.simps) auto
next
  case (Cons y ys)
  let ?q = "p\<lparr>empty_stack := pb_next (bmem p y)\<rparr>"
  let ?p = "if pb_data (bmem p y) = NULL then ?q
     else ?q\<lparr>bmem := (bmem p)(y := (bmem p y)\<lparr>pb_data := NULL\<rparr>)\<rparr>"
  have y: "empty_stack p = y" "y \<noteq> NULL" "y \<notin> set ys" "distinct ys"
    and path: "path (bnext p) (pb_next (bmem p y)) ys"
    using Cons.prems by simp_all
  have fr: "same_frame p ?p" by (auto simp: same_frame_def fun_eq_iff)
  then have "path (bnext ?p) (empty_stack ?p) ys" using path by (simp add: same_frame_def)
  from Cons.IH [OF this y(4), of "release_spare p y w"] obtain p' where
    IH: "free_empty_stack ?p (release_spare p y w) = Some (p', fold (release_spare ?p) ys (release_spare p y w))"
    "same_frame ?p p'"
    by blast
  have "fold (release_spare ?p) ys (release_spare p y w) = fold (release_spare p) (y # ys) w"
  proof -
    have "release_spare ?p x = release_spare p x" if "x \<in> set ys" for x
      by (rule release_cong(2) [OF fr]) (use y(3) that in auto)
    then show ?thesis by (auto intro: fold_cong)
  qed
  moreover have "free_empty_stack p w = free_empty_stack ?p (release_spare p y w)"
    using y by (subst free_empty_stack.simps)
      (auto simp: Let_def release_spare_def run_cleanup_def run_free_def PoolDataPreAllocated_def)
  ultimately show ?case using IH same_frame_trans [OF fr IH(2)] by auto
qed

definition free_opt :: "addr \<Rightarrow> 'a libc_scheme \<Rightarrow> 'a libc_scheme" where
  "free_opt a w = (if a \<noteq> NULL then c_free a w else w)"

lemma free_opt_eq [simp]: "free_opt a = c_free a"
  by (auto simp: free_opt_def c_free_def)

lemma PoolFree_run:
  assumes "pool_shape p xs ys"
  shows "PoolFree (Some p) w = Some (fold c_free [pb_buffer p, data_buffer p, self p]
    (fold (release_spare p) ys (fold (release_bucket p) xs w)))"
proof -
  have paths: "path (bnext p) (alloc_stack p) xs" "path (bnext p) (empty_stack p) ys"
    and dist: "distinct xs" "distinct ys" "set xs \<inter> set ys = {}"
    using assms by (auto simp: pool_shape_def)
  obtain p1 where p1: "free_alloc_stack p w = Some (p1, fold (release_bucket p) xs w)"
    "same_frame p p1" "empty_stack p1 = empty_stack p" "\<forall>y. y \<notin> set xs \<longrightarrow> bmem p1 y = bmem p y"
    using free_alloc_stack_run [OF paths(1) dist(1)] by blast
  have "path (bnext p1) (empty_stack p1) ys" using paths(2) p1 by (simp add: same_frame_def)
  then obtain p2 where p2: "free_empty_stack p1 (fold (release_bucket p) xs w) =
      Some (p2, fold (release_spare p1) ys (fold (release_bucket p) xs w))" "same_frame p1 p2"
    using free_empty_stack_run dist(2) by blast
  have "fold (release_spare p1) ys u = fold (release_spare p) ys u" for u
    using dist(3) p1(4) by (intro fold_cong release_cong(2) [OF p1(2)] refl) auto
  then show ?thesis
    using p1 p2 by (auto simp: PoolFree_def same_frame_def Let_def c_free_def)
qed

section \<open>No leak, no double free\<close>

text \<open>
  The allocator's state a free changes. A cleanup callback is benign when it leaves that
  state alone (those of the agents only close a socket).
\<close>

definition heap_of :: "'a libc_scheme \<Rightarrow> addr list \<times> bool" where
  "heap_of w = (blocks w, bad_free w)"

definition benign_cleanup :: "('a libc_scheme) Pool \<Rightarrow> bool" where
  "benign_cleanup p \<longleftrightarrow> Free p = None \<and> (\<forall>d w. heap_of (run_cleanup p d w) = heap_of w)"

fun hfree :: "addr \<Rightarrow> addr list \<times> bool \<Rightarrow> addr list \<times> bool" where
  "hfree a (bs, bad) =
     (if a = NULL then (bs, bad) else if a \<in> set bs then (remove1 a bs, bad) else (bs, True))"

lemma heap_of_c_free: "heap_of (c_free a w) = hfree a (heap_of w)"
  by (simp add: heap_of_def c_free_def)

lemma heap_of_fold_c_free: "heap_of (fold c_free as w) = fold hfree as (heap_of w)"
  by (induction as arbitrary: w) (simp_all add: heap_of_c_free)

lemma hfree_all:
  assumes "distinct as" "NULL \<notin> set as" "set as \<subseteq> set bs"
  shows "\<exists>bs'. fold hfree as (bs, bad) = (bs', bad) \<and> mset bs' = mset bs - mset as"
  using assms
proof (induction as arbitrary: bs)
  case (Cons a as)
  have "set as \<subseteq> set (remove1 a bs)"
  proof
    fix x assume "x \<in> set as"
    then have "x \<noteq> a" "x \<in> set bs" using Cons.prems by auto
    then show "x \<in> set (remove1 a bs)" by simp
  qed
  then obtain bs' where bs': "fold hfree as (remove1 a bs, bad) = (bs', bad)"
    "mset bs' = mset (remove1 a bs) - mset as"
    using Cons.IH [of "remove1 a bs"] Cons.prems by auto
  have "mset (remove1 a bs) - mset as = mset bs - mset (a # as)" by simp
  then show ?case using bs' Cons.prems by auto
qed simp

text \<open>The blocks a pool owns, in the order PoolFree gives them back.\<close>

definition bucket_frees :: "'w Pool \<Rightarrow> addr \<Rightarrow> addr list" where
  "bucket_frees p x =
     (if PoolDataPreAllocated p (pb_data (bmem p x)) \<or> pb_data (bmem p x) = NULL then []
      else [pb_data (bmem p x)]) @
     (if pb_flags (bmem p x) AND POOL_BUCKET_PREALLOCATED = 0 then [x] else [])"

definition pool_owned :: "'w Pool \<Rightarrow> addr list \<Rightarrow> addr list \<Rightarrow> addr list" where
  "pool_owned p xs ys =
     concat (map (bucket_frees p) (xs @ ys)) @ [pb_buffer p, data_buffer p, self p]"

lemma release_bucket_heap:
  assumes "benign_cleanup p" "pb_data (bmem p x) \<noteq> NULL"
  shows "heap_of (release_bucket p x w) = fold hfree (bucket_frees p x) (heap_of w)"
  using assms
  by (auto simp: release_bucket_def bucket_frees_def benign_cleanup_def run_free_def
      heap_of_c_free Let_def)

lemma release_spare_heap:
  assumes "benign_cleanup p" "pb_data (bmem p y) = NULL"
  shows "heap_of (release_spare p y w) = fold hfree (bucket_frees p y) (heap_of w)"
  using assms
  by (auto simp: release_spare_def bucket_frees_def benign_cleanup_def heap_of_c_free Let_def)

lemma fold_release_heap:
  assumes "\<And>x w. x \<in> set xs \<Longrightarrow> heap_of (f x w) = fold hfree (g x) (heap_of w)"
  shows "heap_of (fold f xs w) = fold hfree (concat (map g xs)) (heap_of w)"
  using assms by (induction xs arbitrary: w) auto

lemma PoolFree_heap:
  assumes wf: "pool_wf p xs ys" and cl: "benign_cleanup p"
  shows "\<exists>w'. PoolFree (Some p) w = Some w' \<and> heap_of w' = fold hfree (pool_owned p xs ys) (heap_of w)"
proof -
  have sh: "pool_shape p xs ys" using wf by (simp add: pool_wf_def)
  have "heap_of (fold (release_bucket p) xs w) = fold hfree (concat (map (bucket_frees p) xs)) (heap_of w)"
    for w :: "'a libc_scheme"
    using wf by (intro fold_release_heap release_bucket_heap [OF cl]) (auto simp: pool_wf_def)
  moreover have "heap_of (fold (release_spare p) ys w) = fold hfree (concat (map (bucket_frees p) ys)) (heap_of w)"
    for w :: "'a libc_scheme"
    using wf by (intro fold_release_heap release_spare_heap [OF cl]) (auto simp: pool_wf_def)
  ultimately show ?thesis
    by (simp add: PoolFree_run [OF sh] pool_owned_def heap_of_c_free)
qed

section \<open>PoolInit of a bounded pool\<close>

definition bucket_addrs :: "nat \<Rightarrow> addr \<Rightarrow> addr list" where
  "bucket_addrs n pb = map (\<lambda>i. pb + sizeof_PoolBucket * int i) [0..<n]"

lemma bucket_addrs_Suc: "bucket_addrs (Suc n) pb = pb # bucket_addrs n (pb + sizeof_PoolBucket)"
  by (simp add: bucket_addrs_def sizeof_PoolBucket_def upt_conv_Cons map_Suc_upt [symmetric]
      del: upt_Suc)

lemma bucket_addrs_simps [simp]:
  "bucket_addrs 0 pb = []" "length (bucket_addrs n pb) = n" "distinct (bucket_addrs n pb)"
  "a \<in> set (bucket_addrs n pb) \<Longrightarrow> pb \<le> a"
  by (auto simp: bucket_addrs_def sizeof_PoolBucket_def distinct_map inj_on_def)

definition filled :: "nat \<Rightarrow> addr \<Rightarrow> 'w Pool \<Rightarrow> addr list \<Rightarrow> 'w Pool \<Rightarrow> bool" where
  "filled n pb p ys q \<longleftrightarrow>
     path (bnext q) (empty_stack q) (rev (bucket_addrs n pb) @ ys) \<and>
     empty_stack_size q = empty_stack_size p + of_nat n \<and>
     (\<forall>a. pb_data (bmem q a) = pb_data (bmem p a)) \<and>
     (\<forall>a \<in> set (bucket_addrs n pb). pb_flags (bmem q a) AND POOL_BUCKET_PREALLOCATED \<noteq> 0) \<and>
     (\<forall>a. a < pb \<longrightarrow> bmem q a = bmem p a) \<and>
     q = p\<lparr>bmem := bmem q, empty_stack := empty_stack q, empty_stack_size := empty_stack_size q\<rparr>"

lemma POOL_BUCKET_PREALLOCATED_not_0 [simp]: "POOL_BUCKET_PREALLOCATED \<noteq> 0"
  by (simp add: POOL_BUCKET_PREALLOCATED_def)

lemma fill_empty_run:
  assumes "path (bnext p) (empty_stack p) ys" "0 < pb" "\<forall>y \<in> set ys. y < pb"
  shows "filled n pb p ys (fill_empty n pb p)"
  using assms
proof (induction n arbitrary: pb p ys)
  case 0
  then show ?case by (simp add: filled_def)
next
  case (Suc n)
  let ?p = "p\<lparr>bmem := (bmem p)(pb := (bmem p pb)\<lparr>pb_next := empty_stack p,
            pb_flags := pb_flags (bmem p pb) OR POOL_BUCKET_PREALLOCATED\<rparr>),
          empty_stack := pb,
          empty_stack_size := empty_stack_size p + 1\<rparr>"
  let ?pb = "pb + sizeof_PoolBucket" 
  have pb: "0 < ?pb" "pb < ?pb" using Suc.prems(2) by (simp_all add: sizeof_PoolBucket_def)
  have lt: "\<forall>y \<in> set (pb # ys). y < ?pb"
    using Suc.prems(3) pb(2) by fastforce
  have "pb \<notin> set ys" using Suc.prems(3) by blast
  then have path: "path (bnext ?p) (empty_stack ?p) (pb # ys)"
    using Suc.prems by simp
  obtain q where q: "fill_empty (Suc n) pb p = q" by blast
  have "filled n ?pb ?p (pb # ys) q"
    using Suc.IH [OF path pb(1) lt] q by simp
  then have IH: "path (bnext q) (empty_stack q) (rev (bucket_addrs n ?pb) @ pb # ys)"
    "empty_stack_size q = empty_stack_size ?p + of_nat n"
    "\<forall>a. pb_data (bmem q a) = pb_data (bmem ?p a)"
    "\<forall>a \<in> set (bucket_addrs n ?pb). pb_flags (bmem q a) AND POOL_BUCKET_PREALLOCATED \<noteq> 0"
    "\<forall>a. a < ?pb \<longrightarrow> bmem q a = bmem ?p a"
    and frame: "q = ?p\<lparr>bmem := bmem q, empty_stack := empty_stack q, empty_stack_size := empty_stack_size q\<rparr>"
    unfolding filled_def by blast+
  have "pb_flags (bmem q pb) AND POOL_BUCKET_PREALLOCATED \<noteq> 0"
    using IH(5) pb(2) by simp
  moreover have "q = p\<lparr>bmem := bmem q, empty_stack := empty_stack q, empty_stack_size := empty_stack_size q\<rparr>"
    by (subst frame) simp
  ultimately show ?case
    unfolding q unfolding filled_def bucket_addrs_Suc using IH pb(2) by auto
qed

text \<open>One round of the preallocation loop moves the top spare bucket to the alloc stack.\<close>

definition prealloc_moved :: "u32 \<Rightarrow> addr \<Rightarrow> 'w Pool \<Rightarrow> 'w Pool" where
  "prealloc_moved i y p =
     p\<lparr>empty_stack := pb_next (bmem p y), empty_stack_size := empty_stack_size p - 1,
       allocated := allocated p + 1,
       bmem := (bmem p)(y := (bmem p y)\<lparr>pb_data := data_buffer p + uint (i * elt_size p),
         pb_next := alloc_stack p\<rparr>),
       alloc_stack := y, alloc_stack_size := alloc_stack_size p + 1\<rparr>"

lemma prealloc_bounded_cases:
  assumes "pool_shape p xs (y # ys)" "prealloc_bounded i p w = (ok, q, w')"
  shows "if ok then q = prealloc_moved i y p \<and> pool_shape q (y # xs) ys
    else pool_shape q xs (y # ys) \<and> self q = self p"
  using assms pool_shape_empty_Cons [OF assms(1)]
  by (auto simp: prealloc_bounded_def prealloc_moved_def pool_shape_def Let_def
      split: prod.splits if_splits)

lemma prealloc_loop_shape:
  assumes "pool_shape p xs ys" "n \<le> length ys" "max_buckets p \<noteq> 0"
    and "prealloc_loop n i p w = (ok, q, w')"
  shows "\<exists>xs' ys'. pool_shape q xs' ys'"
  using assms
proof (induction n arbitrary: i p w xs ys)
  case (Suc n)
  then obtain y zs where ys: "ys = y # zs" by (cases ys) auto
  obtain ok1 p1 w1 where r: "prealloc_bounded i p w = (ok1, p1, w1)" by (metis prod_cases3)
  note c = prealloc_bounded_cases [OF Suc.prems(1) [unfolded ys] r]
  show ?case
  proof (cases ok1)
    case True
    then have "pool_shape p1 (y # xs) zs" "max_buckets p1 = max_buckets p"
      using c by (auto simp: prealloc_moved_def)
    then show ?thesis
      using Suc.IH [of p1 "y # xs" zs] Suc.prems(2-4) r ys True by auto
  qed (use c Suc.prems r in auto)
qed auto

definition preallocd :: "nat \<Rightarrow> u32 \<Rightarrow> 'w Pool \<Rightarrow> addr list \<Rightarrow> addr list \<Rightarrow> 'w Pool \<Rightarrow> bool" where
  "preallocd n i p xs ys q \<longleftrightarrow>
     pool_shape q (rev (take n ys) @ xs) (drop n ys) \<and>
     (\<forall>k < n. pb_data (bmem q (ys ! k)) = data_buffer p + uint ((i + of_nat k) * elt_size p)) \<and>
     (\<forall>a. a \<notin> set (take n ys) \<longrightarrow> pb_data (bmem q a) = pb_data (bmem p a)) \<and>
     (\<forall>a. pb_flags (bmem q a) = pb_flags (bmem p a)) \<and>
     q = p\<lparr>bmem := bmem q, alloc_stack := alloc_stack q, empty_stack := empty_stack q,
           alloc_stack_size := alloc_stack_size p + of_nat n,
           empty_stack_size := empty_stack_size p - of_nat n, allocated := allocated p + of_nat n\<rparr>"

lemma prealloc_loop_run:
  assumes "pool_shape p xs ys" "n \<le> length ys" "max_buckets p \<noteq> 0"
    and "prealloc_loop n i p w = (True, q, w')"
  shows "preallocd n i p xs ys q"
  using assms
proof (induction n arbitrary: i p w xs ys)
  case 0
  then show ?case by (simp add: preallocd_def)
next
  case (Suc n)
  then obtain y zs where ys: "ys = y # zs" by (cases ys) auto
  obtain ok1 p1 w1 where r: "prealloc_bounded i p w = (ok1, p1, w1)" by (metis prod_cases3)
  have ok1 using Suc.prems(3,4) r by (cases ok1) auto
  then have c: "p1 = prealloc_moved i y p \<and> pool_shape p1 (y # xs) zs"
    using prealloc_bounded_cases [OF Suc.prems(1) [unfolded ys] r] by argo
  have p1: "p1 = prealloc_moved i y p" using c by blast
  have sh: "pool_shape p1 (y # xs) zs" using c by blast
  have fields: "max_buckets p1 = max_buckets p" "data_buffer p1 = data_buffer p" "elt_size p1 = elt_size p"
    by (simp_all add: p1 prealloc_moved_def)
  have "prealloc_loop n (i + 1) p1 w1 = (True, q, w')"
    using Suc.prems(3,4) r \<open>ok1\<close> by simp
  then have IH: "preallocd n (i + 1) p1 (y # xs) zs q"
    using Suc.IH [OF sh] Suc.prems(2,3) fields ys by simp
  have y: "y \<notin> set zs" using Suc.prems(1) ys by (auto simp: pool_shape_def)
  then have "y \<notin> set (take n zs)" by (meson in_set_takeD)
  have shape: "pool_shape q (rev (take (Suc n) ys) @ xs) (drop (Suc n) ys)"
    using IH by (simp add: preallocd_def ys)
  have data: "pb_data (bmem q (ys ! k)) = data_buffer p + uint ((i + of_nat k) * elt_size p)"
    if "k < Suc n" for k
  proof (cases k)
    case 0
    then show ?thesis
      using IH \<open>y \<notin> set (take n zs)\<close> by (simp add: preallocd_def ys p1 prealloc_moved_def)
  next
    case (Suc l)
    then show ?thesis
      using IH that fields by (simp add: preallocd_def ys add.assoc)
  qed
  have rest: "pb_data (bmem q a) = pb_data (bmem p a)" if "a \<notin> set (take (Suc n) ys)" for a
    using IH that by (simp add: preallocd_def ys p1 prealloc_moved_def)
  have flags: "pb_flags (bmem q a) = pb_flags (bmem p a)" for a
    using IH by (simp add: preallocd_def p1 prealloc_moved_def)
  have frame: "q = p1\<lparr>bmem := bmem q, alloc_stack := alloc_stack q, empty_stack := empty_stack q,
      alloc_stack_size := alloc_stack_size p1 + of_nat n,
      empty_stack_size := empty_stack_size p1 - of_nat n, allocated := allocated p1 + of_nat n\<rparr>"
    using IH unfolding preallocd_def by blast
  have "q = p\<lparr>bmem := bmem q, alloc_stack := alloc_stack q, empty_stack := empty_stack q,
      alloc_stack_size := alloc_stack_size p + of_nat (Suc n),
      empty_stack_size := empty_stack_size p - of_nat (Suc n), allocated := allocated p + of_nat (Suc n)\<rparr>"
    by (subst frame) (simp add: p1 prealloc_moved_def algebra_simps)
  then show ?case using shape data rest flags by (simp add: preallocd_def)
qed

text \<open>
  The allocator hands out positive, pairwise different addresses that are not live.
\<close>

definition good_alloc :: "'a libc_scheme \<Rightarrow> bool" where
  "good_alloc w \<longleftrightarrow> (\<forall>a \<in> set (pending w). 0 \<le> a) \<and>
     distinct (filter (\<lambda>a. a \<noteq> NULL) (pending w) @ blocks w)"

lemma good_alloc_malloc:
  assumes "good_alloc w" "c_malloc n w = (a, w')"
  shows "good_alloc w'" "a \<noteq> NULL \<Longrightarrow> 0 < a \<and> a \<notin> set (blocks w) \<and> a \<notin> set (pending w')"
  using assms
  by (auto simp: good_alloc_def c_malloc_def split: list.splits if_splits)

text \<open>What a bounded pool is built from, up to the preallocation loop.\<close>

lemma PoolInit_bounded_steps:
  assumes "sz \<noteq> 0" and ga: "good_alloc w"
    and init: "PoolInit sz pre esz al ini idata cl fr w = Some (Some p, w')"
  obtains a w1 pb w2 db w3 p2 where
    "c_malloc sizeof_Pool w = (a, w1)" "a \<noteq> NULL"
    "c_malloc (unat sz * nat sizeof_PoolBucket) w1 = (pb, w2)" "0 < pb"
    "c_malloc (unat pre * unat esz) w2 = (db, w3)" "0 < db"
    "p2 = fill_empty (unat sz) pb ((new_Pool a sz pre esz al ini idata cl fr)\<lparr>pb_buffer := pb\<rparr>)"
    "prealloc_loop (unat pre) 0 (p2\<lparr>data_buffer := db\<rparr>) w3 = (True, p, w')"
    "pre \<le> sz" "esz \<noteq> 0" "fr = None"
proof -
  have args: "\<not> sz < pre" "esz \<noteq> 0" "fr = None"
    using init \<open>sz \<noteq> 0\<close> by (auto simp: PoolInit_def split: if_splits)
  obtain a w1 where a: "c_malloc sizeof_Pool w = (a, w1)" by fastforce
  obtain pb w2 where pb: "c_malloc (unat sz * nat sizeof_PoolBucket) w1 = (pb, w2)" by fastforce
  obtain db w3 where db: "c_malloc (unat pre * unat esz) w2 = (db, w3)" by fastforce
  let ?p2 = "fill_empty (unat sz) pb ((new_Pool a sz pre esz al ini idata cl fr)\<lparr>pb_buffer := pb\<rparr>)"
  obtain ok p3 w4 where loop: "prealloc_loop (unat pre) 0 (?p2\<lparr>data_buffer := db\<rparr>) w3 = (ok, p3, w4)"
    by (metis prod_cases3)
  have pos: "0 < sz" using \<open>sz \<noteq> 0\<close> by (simp add: word_gt_0)
  have "a \<noteq> NULL" "pb \<noteq> NULL" "db \<noteq> NULL" "ok" "p3 = p" "w4 = w'"
    using init args pos a pb db loop
    by (auto simp: PoolInit_def Let_def split: if_splits bool.splits)
  moreover have w1: "good_alloc w1" and w2: "good_alloc w2"
    using good_alloc_malloc(1) ga a pb by blast+
  moreover have "pb \<noteq> NULL \<Longrightarrow> 0 < pb" "db \<noteq> NULL \<Longrightarrow> 0 < db"
    using good_alloc_malloc(2) [OF w1 pb] good_alloc_malloc(2) [OF w2 db] by simp_all
  ultimately show thesis
    using that [of a w1 pb w2 db w3 ?p2] a pb db loop args by simp
qed


text \<open>The stack a bounded pool starts with: the last element on top.\<close>

definition initial_items :: "addr \<Rightarrow> nat \<Rightarrow> nat \<Rightarrow> addr list" where
  "initial_items db n esz = map (\<lambda>k. db + int (k * esz)) (rev [0..<n])"

lemma initial_items_simps [simp]:
  "length (initial_items db n esz) = n"
  "0 < db \<Longrightarrow> d \<in> set (initial_items db n esz) \<Longrightarrow> 0 < d"
  by (auto simp: initial_items_def intro: add_pos_nonneg)

lemma initial_items_distinct: "0 < esz \<Longrightarrow> distinct (initial_items db n esz)"
  by (auto simp: initial_items_def distinct_map inj_on_def)

lemma uint_offset:
  fixes n e :: u32
  assumes "k < unat n" "unat n * unat e < 2 ^ 31"
  shows "uint ((of_nat k :: u32) * e) = int (k * unat e)"
proof -
  have "k * unat e \<le> unat n * unat e" using assms(1) by simp
  moreover have "(2::nat) ^ 31 < 2 ^ 32" by simp
  ultimately have lt: "k * unat e < 2 ^ 32" using assms(2) by linarith
  have "k < 2 ^ 32" using assms(1) unat_lt32 [of n] by linarith
  then have "unat (of_nat k * e) = k * unat e"
    using lt by (simp add: unat_word_ariths unat_of_nat take_bit_nat_eq_self)
  then show ?thesis by (metis uint_nat)
qed

text \<open>What PoolInit has built when the preallocation loop is through.\<close>

definition built :: "'w Pool \<Rightarrow> addr \<Rightarrow> 'w Pool \<Rightarrow> bool" where
  "built q db p \<longleftrightarrow>
     (let n = unat (preallocated q); m = unat (max_buckets q); e = unat (elt_size q);
          ys = rev (bucket_addrs m (pb_buffer p))
      in pool_wf p (rev (take n ys)) (drop n ys) \<and>
         pool_abs p = \<lparr>ap_stack = initial_items db n e, ap_spare = m - n, ap_out = 0, ap_cap = m\<rparr> \<and>
         data_buffer p = db \<and> self p = self q \<and> max_buckets p = max_buckets q \<and>
         allocated p = preallocated q \<and> Cleanup p = Cleanup q \<and> Free p = Free q \<and>
         data_buffer_size p = sint (preallocated q * elt_size q) \<and>
         (\<forall>y \<in> set ys. pb_flags (bmem p y) AND POOL_BUCKET_PREALLOCATED \<noteq> 0))"

lemma built_by_loop:
  fixes al idata
  assumes q: "q = new_Pool a sz pre esz al ini idata cl fr"
    and pos: "0 < pb" "0 < db" and pre: "pre \<le> sz" "sz \<noteq> 0" "unat pre * unat esz < 2 ^ 31"
    and p2: "p2 = fill_empty (unat sz) pb (q\<lparr>pb_buffer := pb\<rparr>)"
    and loop: "prealloc_loop (unat pre) 0 (p2\<lparr>data_buffer := db\<rparr>) w = (True, p, w')"
  shows "built q db p \<and> pb_buffer p = pb"
proof -
  let ?q = "q\<lparr>pb_buffer := pb\<rparr>" and ?n = "unat pre" and ?ys = "rev (bucket_addrs (unat sz) pb)"
  have F: "filled (unat sz) pb ?q [] p2"
    unfolding p2 using pos by (intro fill_empty_run) (auto simp: q new_Pool_def)
  then have path: "path (bnext p2) (empty_stack p2) ?ys"
    and es: "empty_stack_size p2 = sz"
    and data: "\<forall>x. pb_data (bmem p2 x) = NULL"
    and flags: "\<forall>x \<in> set ?ys. pb_flags (bmem p2 x) AND POOL_BUCKET_PREALLOCATED \<noteq> 0"
    unfolding filled_def by (simp_all add: q new_Pool_def zero_bucket_def)
  have fr: "p2 = ?q\<lparr>bmem := bmem p2, empty_stack := empty_stack p2, empty_stack_size := empty_stack_size p2\<rparr>"
    using F unfolding filled_def by blast
  note fld = arg_cong [OF fr, of alloc_stack] arg_cong [OF fr, of max_buckets]
    arg_cong [OF fr, of elt_size] arg_cong [OF fr, of alloc_stack_size] arg_cong [OF fr, of allocated]
    arg_cong [OF fr, of outstanding] arg_cong [OF fr, of max_outstanding]
    arg_cong [OF fr, of Cleanup] arg_cong [OF fr, of Free] arg_cong [OF fr, of data_buffer_size]
    arg_cong [OF fr, of self] arg_cong [OF fr, of pb_buffer]
  have p2f: "alloc_stack p2 = NULL" "max_buckets p2 = sz" "elt_size p2 = esz" "alloc_stack_size p2 = 0"
    "allocated p2 = 0" "outstanding p2 = 0" "max_outstanding p2 = 0" "Cleanup p2 = cl" "Free p2 = fr"
    "data_buffer_size p2 = sint (pre * esz)" "self p2 = a" "pb_buffer p2 = pb"
    using fld by (simp_all add: q new_Pool_def)
  have n: "?n \<le> length ?ys" using pre(1) by (simp add: word_le_nat_alt)
  have sh: "pool_shape (p2\<lparr>data_buffer := db\<rparr>) [] ?ys"
    using path p2f by (simp add: pool_shape_def)
  have pl: "preallocd ?n 0 (p2\<lparr>data_buffer := db\<rparr>) [] ?ys p"
    using prealloc_loop_run [OF sh n _ loop] p2f pre(2) by simp
  then have shape: "pool_shape p (rev (take ?n ?ys)) (drop ?n ?ys)"
    and pdata: "\<forall>k < ?n. pb_data (bmem p (?ys ! k)) = db + uint (of_nat k * esz)"
    and pnull: "\<forall>x. x \<notin> set (take ?n ?ys) \<longrightarrow> pb_data (bmem p x) = NULL"
    and pflags: "\<forall>x. pb_flags (bmem p x) = pb_flags (bmem p2 x)"
    and pfr: "p = p2\<lparr>data_buffer := db, bmem := bmem p, alloc_stack := alloc_stack p,
       empty_stack := empty_stack p, alloc_stack_size := of_nat ?n,
       empty_stack_size := sz - of_nat ?n, allocated := of_nat ?n\<rparr>"
    unfolding preallocd_def using data p2f es by simp_all
  note pfld = arg_cong [OF pfr, of max_buckets]
    arg_cong [OF pfr, of elt_size] arg_cong [OF pfr, of alloc_stack_size] arg_cong [OF pfr, of allocated]
    arg_cong [OF pfr, of outstanding] arg_cong [OF pfr, of max_outstanding]
    arg_cong [OF pfr, of Cleanup] arg_cong [OF pfr, of Free] arg_cong [OF pfr, of data_buffer_size]
    arg_cong [OF pfr, of self] arg_cong [OF pfr, of pb_buffer] arg_cong [OF pfr, of data_buffer]
    arg_cong [OF pfr, of empty_stack_size]
  have pf: "max_buckets p = sz" "elt_size p = esz" "alloc_stack_size p = pre"
    "allocated p = pre" "outstanding p = 0" "max_outstanding p = 0" "Cleanup p = cl" "Free p = fr"
    "data_buffer_size p = sint (pre * esz)" "self p = a" "pb_buffer p = pb" "data_buffer p = db"
    "empty_stack_size p = sz - pre"
    using pfld p2f by simp_all
  have items: "map (\<lambda>x. pb_data (bmem p x)) (take ?n ?ys) = map (\<lambda>k. db + int (k * unat esz)) [0..<?n]"
    using pdata pre(3) n by (auto intro!: nth_equalityI simp: uint_offset)
  have abs: "map (\<lambda>x. pb_data (bmem p x)) (rev (take ?n ?ys)) = initial_items db ?n (unat esz)"
    using arg_cong [OF items, of rev] by (simp add: initial_items_def rev_map)
  have some: "\<forall>x \<in> set (rev (take ?n ?ys)). pb_data (bmem p x) \<noteq> NULL"
  proof
    fix x assume "x \<in> set (rev (take ?n ?ys))"
    then have "pb_data (bmem p x) \<in> set (initial_items db ?n (unat esz))"
      unfolding abs [symmetric] by (metis image_eqI set_map)
    then show "pb_data (bmem p x) \<noteq> NULL" using initial_items_simps(2) [OF pos(2)] by fastforce
  qed
  have "distinct (take ?n ?ys @ drop ?n ?ys)" by (simp del: take_rev drop_rev)
  then have none: "\<forall>x \<in> set (drop ?n ?ys). pb_data (bmem p x) = NULL"
    using pnull unfolding distinct_append by blast
  have sizes: "unat (sz - pre) = unat sz - ?n" using pre(1) by (simp add: unat_sub)
  have wf: "pool_wf p (rev (take ?n ?ys)) (drop ?n ?ys)"
    unfolding pool_wf_def using shape some none pf sizes n unat_lt32 [of sz]
    by (simp del: take_rev drop_rev)
  have pabs: "pool_abs p = \<lparr>ap_stack = initial_items db ?n (unat esz), ap_spare = unat sz - ?n,
      ap_out = 0, ap_cap = unat sz\<rparr>"
    using pool_abs_wf [OF wf] abs pf by (simp del: take_rev drop_rev)
  have qf: "preallocated q = pre" "max_buckets q = sz" "elt_size q = esz" "self q = a"
    "Cleanup q = cl" "Free q = fr"
    by (simp_all add: q new_Pool_def)
  show ?thesis
    unfolding built_def Let_def qf pf using wf pabs flags pflags by simp
qed

end
