(* ===== verification/Pool_Props.thy ===== *)
theory Pool_Props
  imports Pool_Life
begin

text \<open>
  The properties of the resource pool, and their witnesses on a pool of three 16-byte
  elements created by PoolInit.
\<close>

section \<open>Success of PoolInit\<close>

definition init_succeeds :: "('a libc_scheme) Pool \<Rightarrow> bool" where
  "init_succeeds p \<longleftrightarrow> (\<forall>d i w. fst (Init p d i w) = 1)"

lemma prealloc_loop_succeeds:
  assumes "pool_shape p xs ys" "n \<le> length ys" "max_buckets p \<noteq> 0" "init_succeeds p"
  shows "\<exists>q w'. prealloc_loop n i p w = (True, q, w')"
  using assms
proof (induction n arbitrary: i p w xs ys)
  case (Suc n)
  then obtain y zs where ys: "ys = y # zs" by (cases ys) auto
  obtain ok1 p1 w1 where r: "prealloc_bounded i p w = (ok1, p1, w1)" by (metis prod_cases3)
  have y: "empty_stack p = y" "y \<noteq> NULL"
    using pool_shape_empty_Cons [OF Suc.prems(1) [unfolded ys]] by simp_all
  have "ok1"
  proof (rule ccontr)
    assume "\<not> ok1"
    then have "\<exists>d i w. fst (Init p d i w) \<noteq> 1"
      using r y by (auto simp: prealloc_bounded_def Let_def split: prod.splits if_splits)
        (metis fst_conv)
    then show False using Suc.prems(4) by (simp add: init_succeeds_def)
  qed
  then have c: "p1 = prealloc_moved i y p \<and> pool_shape p1 (y # xs) zs"
    using prealloc_bounded_cases [OF Suc.prems(1) [unfolded ys] r] by argo
  have "max_buckets p1 \<noteq> 0" "init_succeeds p1"
    using c Suc.prems(3,4) by (simp_all add: prealloc_moved_def init_succeeds_def)
  then show ?case
    using Suc.IH [OF conjunct2 [OF c], of "i + 1" w1] Suc.prems(2,3) r ys \<open>ok1\<close> by simp
qed simp

text \<open>The arguments of a bounded pool the code accepts, and an allocator with three blocks left.\<close>

definition pool_args_ok :: "u32 \<Rightarrow> u32 \<Rightarrow> u32 \<Rightarrow> bool" where
  "pool_args_ok sz pre esz \<longleftrightarrow> sz \<noteq> 0 \<and> pre \<le> sz \<and> esz \<noteq> 0 \<and> unat pre * unat esz < 2 ^ 31"

definition three_blocks :: "'a libc_scheme \<Rightarrow> bool" where
  "three_blocks w \<longleftrightarrow> good_alloc w \<and> 3 \<le> length (pending w) \<and> NULL \<notin> set (take 3 (pending w))"

lemma three_blocksE:
  assumes "three_blocks w"
  obtains a pb db rest where "pending w = a # pb # db # rest"
    "0 < a" "0 < pb" "0 < db"
proof -
  obtain a pb db rest where p: "pending w = a # pb # db # rest"
    using assms by (auto simp: three_blocks_def numeral_3_eq_3 Suc_le_length_iff)
  then have "a \<noteq> NULL" "pb \<noteq> NULL" "db \<noteq> NULL" "0 \<le> a" "0 \<le> pb" "0 \<le> db"
    using assms by (auto simp: three_blocks_def good_alloc_def numeral_3_eq_3)
  then show thesis using that p by simp
qed

lemma PoolInit_builds:
  assumes args: "pool_args_ok sz pre esz" and blk: "three_blocks w"
    and ok: "\<And>a. init_succeeds (new_Pool a sz pre esz al ini idata cl None)"
  obtains p w' a pb db rest where
    "PoolInit sz pre esz al ini idata cl None w = Some (Some p, w')"
    "built (new_Pool a sz pre esz al ini idata cl None) db p" "pb_buffer p = pb"
    "pending w = a # pb # db # rest" "0 < a" "0 < pb" "0 < db"
    "prealloc_loop (unat pre) 0
       ((fill_empty (unat sz) pb ((new_Pool a sz pre esz al ini idata cl None)\<lparr>pb_buffer := pb\<rparr>))\<lparr>data_buffer := db\<rparr>)
       (w\<lparr>pending := rest, blocks := db # pb # a # blocks w\<rparr>) = (True, p, w')"
proof -
  obtain a pb db rest where p: "pending w = a # pb # db # rest" and pos: "0 < a" "0 < pb" "0 < db"
    using three_blocksE [OF blk] by blast
  let ?q = "new_Pool a sz pre esz al ini idata cl None"
  let ?p2 = "fill_empty (unat sz) pb (?q\<lparr>pb_buffer := pb\<rparr>)"
  let ?w = "w\<lparr>pending := rest, blocks := db # pb # a # blocks w\<rparr>"
  have A: "sz \<noteq> 0" "pre \<le> sz" "esz \<noteq> 0" "unat pre * unat esz < 2 ^ 31"
    using args by (auto simp: pool_args_ok_def)
  have F: "filled (unat sz) pb (?q\<lparr>pb_buffer := pb\<rparr>) [] ?p2"
    using pos by (intro fill_empty_run) (auto simp: new_Pool_def)
  have fr: "?p2 = (?q\<lparr>pb_buffer := pb\<rparr>)\<lparr>bmem := bmem ?p2, empty_stack := empty_stack ?p2,
      empty_stack_size := empty_stack_size ?p2\<rparr>"
    using F unfolding filled_def by blast
  have "Init ?p2 = Init ?q" "max_buckets ?p2 = sz" "alloc_stack ?p2 = NULL"
    using arg_cong [OF fr, of Init] arg_cong [OF fr, of max_buckets] arg_cong [OF fr, of alloc_stack]
    by (simp_all add: new_Pool_def)
  then have ini2: "init_succeeds (?p2\<lparr>data_buffer := db\<rparr>)" "max_buckets (?p2\<lparr>data_buffer := db\<rparr>) \<noteq> 0"
    and sh: "pool_shape (?p2\<lparr>data_buffer := db\<rparr>) [] (rev (bucket_addrs (unat sz) pb))"
    using ok [of a] A F by (simp_all add: init_succeeds_def pool_shape_def filled_def)
  obtain p w' where loop: "prealloc_loop (unat pre) 0 (?p2\<lparr>data_buffer := db\<rparr>) ?w = (True, p, w')"
    using prealloc_loop_succeeds [OF sh _ ini2(2,1), of "unat pre" 0 ?w] A(2)
    by (auto simp: word_le_nat_alt)
  have "0 < sz" "\<not> sz < pre" using A(1,2) by (simp_all add: word_gt_0)
  then have init: "PoolInit sz pre esz al ini idata cl None w = Some (Some p, w')"
    using p pos loop A(1,3) by (simp add: PoolInit_def c_malloc_def Let_def)
  show thesis
    using that [OF init _ _ p pos loop] built_by_loop [OF refl pos(2,3) A(2,1,4) refl loop] by blast
qed


section \<open>What a client leaves of a pool\<close>

text \<open>PoolGet and PoolReturn only move buckets between the stacks.\<close>

definition same_static :: "'w Pool \<Rightarrow> 'w Pool \<Rightarrow> bool" where
  "same_static p q \<longleftrightarrow>
     Cleanup q = Cleanup p \<and> Free q = Free p \<and> data_buffer q = data_buffer p \<and>
     data_buffer_size q = data_buffer_size p \<and> pb_buffer q = pb_buffer p \<and> self q = self p \<and>
     max_buckets q = max_buckets p \<and> (\<forall>a. pb_flags (bmem q a) = pb_flags (bmem p a))"

definition cells :: "'w Pool \<Rightarrow> addr set \<Rightarrow> bool" where
  "cells p B \<longleftrightarrow> (\<exists>xs ys. pool_wf p xs ys \<and> set xs \<union> set ys = B)"

lemma cellsI: "pool_wf p xs ys \<Longrightarrow> set xs \<union> set ys = B \<Longrightarrow> cells p B"
  by (auto simp: cells_def)

lemma same_static_refl [simp]: "same_static p p"
  by (simp add: same_static_def)

lemma same_static_trans: "same_static p q \<Longrightarrow> same_static q r \<Longrightarrow> same_static p r"
  by (simp add: same_static_def)

lemma PoolGet_static: "PoolGet p w = (d, p', w') \<Longrightarrow> same_static p p'"
  by (auto simp: PoolGet_def same_static_def count_out_def Let_def split: if_splits prod.splits)

lemma PoolReturn_static: "PoolReturn p d w = (p', w') \<Longrightarrow> same_static p p'"
  by (auto simp: PoolReturn_def same_static_def Let_def split: if_splits)

lemma PoolGet_cells:
  assumes inv: "fixed_pool p" and B: "cells p B" and get: "PoolGet p w = (d, p', w')"
  shows "cells p' B" "w' = w"
proof -
  obtain xs ys where wf: "pool_wf p xs ys" and set: "set xs \<union> set ys = B"
    using B by (auto simp: cells_def)
  have "cells p' B \<and> w' = w"
  proof (cases xs)
    case Nil
    then have "p' = p \<and> w' = w"
      using PoolGet_exhausted [of p ys w] wf get inv by (simp add: fixed_pool_def)
    then show ?thesis using B by simp
  next
    case (Cons x zs)
    show ?thesis
      using PoolGet_pop(3) [OF wf [unfolded Cons] get] cellsI [OF PoolGet_pop(4) [OF wf [unfolded Cons] get]]
        set Cons by auto
  qed
  then show "cells p' B" "w' = w" by simp_all
qed

lemma PoolReturn_cells:
  assumes inv: "fixed_pool p" and B: "cells p B" and out: "outstanding p \<noteq> 0" and d: "d \<noteq> NULL"
    and ret: "PoolReturn p d w = (p', w')"
  shows "cells p' B" "w' = w"
proof -
  obtain xs ys where wf: "pool_wf p xs ys" and set: "set xs \<union> set ys = B"
    using B by (auto simp: cells_def)
  obtain y zs where ys: "ys = y # zs"
    using pool_wf_no_spare [of p xs] wf inv out by (cases ys) (auto simp: fixed_pool_def)
  show "cells p' B"
    using cellsI [OF PoolReturn_push(2) [OF wf [unfolded ys] out d ret]] set ys by auto
  show "w' = w" using PoolReturn_push(1) [OF wf [unfolded ys] out d ret] .
qed

lemma client_frame:
  assumes "fixed_pool p" "cells p B" "length held = unat (outstanding p)" "NULL \<notin> set held"
    and "\<forall>d \<in> set ((ap_stack \<circ> pool_abs) p). d \<noteq> NULL"
    and "fold (pool_client PoolGet PoolReturn) cs (p, w, held) = (p', w', held')"
  shows "cells p' B \<and> same_static p p' \<and> w' = w"
  using assms
proof (induction cs arbitrary: p w held)
  case (Cons c cs)
  obtain p1 w1 held1 where c: "pool_client PoolGet PoolReturn c (p, w, held) = (p1, w1, held1)"
    by (metis prod_cases3)
  have "fixed.client_ok (mset ((ap_stack \<circ> pool_abs) p) + mset held) (p, w, held)"
    using Cons.prems by (simp add: fixed.client_ok_def pool_abs_def)
  then have "fixed.client_ok (mset ((ap_stack \<circ> pool_abs) p) + mset held) (p1, w1, held1)"
    using fixed.client_ok_step c by metis
  then have ok: "fixed_pool p1" "length held1 = unat (outstanding p1)" "NULL \<notin> set held1"
    by (simp_all add: fixed.client_ok_def pool_abs_def)
  have "cells p1 B \<and> same_static p p1 \<and> w1 = w"
  proof (cases c)
    case Take
    obtain d q u where get: "PoolGet p w = (d, q, u)" by (metis prod_cases3)
    then show ?thesis
      using PoolGet_cells [OF Cons.prems(1,2) get] PoolGet_static [OF get] c Take by simp
  next
    case (Give d)
    obtain q u where ret: "PoolReturn p d w = (q, u)" by fastforce
    show ?thesis
    proof (cases "d \<in> set held")
      case True
      then have "outstanding p \<noteq> 0" "d \<noteq> NULL"
        using Cons.prems(3,4) length_pos_if_in_set [OF True] by (auto simp: unat_eq_zero)
      then show ?thesis
        using PoolReturn_cells [OF Cons.prems(1,2) _ _ ret] PoolReturn_static [OF ret] c ret Give True by simp
    qed (use c Give Cons.prems(2) in simp)
  qed
  moreover have "\<forall>d \<in> set ((ap_stack \<circ> pool_abs) p1). d \<noteq> NULL"
    using fixed.item_not_NULL [OF ok(1)] by blast
  ultimately have "cells p' B \<and> same_static p1 p' \<and> w' = w1"
    using Cons.IH [of p1 held1 w1] ok Cons.prems(6) c by simp
  then show ?case
    using \<open>cells p1 B \<and> same_static p p1 \<and> w1 = w\<close> same_static_trans by blast
qed simp


section \<open>Freeing a pool\<close>

lemma PoolFree_fixed:
  assumes wf: "pool_wf p xs ys" and cl: "benign_cleanup p"
    and fl: "\<forall>x \<in> set xs \<union> set ys. pb_flags (bmem p x) AND POOL_BUCKET_PREALLOCATED \<noteq> 0"
    and data: "\<forall>d \<in> set (ap_stack (pool_abs p)). PoolDataPreAllocated p d"
  shows "\<exists>w'. PoolFree (Some p) w = Some w' \<and>
    heap_of w' = fold hfree [pb_buffer p, data_buffer p, self p] (heap_of w)"
proof -
  have "pb_data (bmem p x) \<in> set (ap_stack (pool_abs p))" if "x \<in> set xs" for x
    using that pool_abs_wf [OF wf] by simp
  then have "bucket_frees p x = []" if "x \<in> set xs \<union> set ys" for x
    using that fl data wf by (auto simp: bucket_frees_def pool_wf_def)
  then have own: "pool_owned p xs ys = [pb_buffer p, data_buffer p, self p]"
    by (simp add: pool_owned_def concat_eq_Nil_conv)
  show ?thesis using PoolFree_heap [OF wf cl, of w] unfolding own by blast
qed

lemma initial_items_inside:
  fixes pre esz :: u32
  assumes "d \<in> set (initial_items db (unat pre) (unat esz))" "unat pre * unat esz < 2 ^ 31"
    and "data_buffer p = db" "data_buffer_size p = sint (pre * esz)"
  shows "PoolDataPreAllocated p d"
proof -
  obtain k where k: "k < unat pre" "d = db + int (k * unat esz)"
    using assms(1) by (auto simp: initial_items_def)
  have lt: "unat (pre * esz) = unat pre * unat esz"
    using assms(2) by (simp add: unat_word_ariths take_bit_nat_eq_self)
  then have "sint (pre * esz) = int (unat pre * unat esz)"
    using assms(2) by (simp add: sint_small)
  moreover have "int (k * unat esz) \<le> int (unat pre * unat esz)"
    unfolding of_nat_le_iff using k(1) by simp
  moreover have "0 \<le> int (k * unat esz)" by (rule of_nat_0_le_iff)
  ultimately show ?thesis
    unfolding PoolDataPreAllocated_def Let_def k(2) assms(3,4) by linarith
qed


section \<open>PoolInit returns\<close>

lemma PoolInit_returns_bounded:
  assumes "sz \<noteq> 0" "good_alloc w"
  shows "\<exists>r. PoolInit sz pre esz al ini idata cl fr w = Some r"
proof (cases "sz < pre \<or> esz = 0 \<or> fr \<noteq> None")
  case True
  then show ?thesis using assms(1) by (auto simp: PoolInit_def)
next
  case False
  then have args: "\<not> sz < pre" "esz \<noteq> 0" "fr = None" "0 < sz"
    using assms(1) by (auto simp: word_gt_0)
  obtain a w1 where a: "c_malloc sizeof_Pool w = (a, w1)" by fastforce
  obtain pb w2 where pb: "c_malloc (unat sz * nat sizeof_PoolBucket) w1 = (pb, w2)" by fastforce
  obtain db w3 where db: "c_malloc (unat pre * unat esz) w2 = (db, w3)" by fastforce
  let ?q = "new_Pool a sz pre esz al ini idata cl fr"
  let ?p2 = "fill_empty (unat sz) pb (?q\<lparr>pb_buffer := pb\<rparr>)"
  obtain ok p3 w4 where loop: "prealloc_loop (unat pre) 0 (?p2\<lparr>data_buffer := db\<rparr>) w3 = (ok, p3, w4)"
    by (metis prod_cases3)
  have ret: "\<exists>w'. PoolFree (Some p) u = Some w'" if "pool_shape p xs ys" for p xs ys u
    using PoolFree_run [OF that] by blast
  consider "a = NULL" | "a \<noteq> NULL" "pb = NULL" | "a \<noteq> NULL" "pb \<noteq> NULL" by blast
  then show ?thesis
  proof cases
    case 2
    have "pool_shape ?q [] []" by (simp add: pool_shape_def new_Pool_def)
    then show ?thesis
      using ret [of ?q "[]" "[]" w2] 2 args a pb by (auto simp: PoolInit_def Let_def)
  next
    case 3
    have pos: "0 < pb" using good_alloc_malloc [OF good_alloc_malloc(1) [OF assms(2) a] pb] 3 by simp
    have F: "filled (unat sz) pb (?q\<lparr>pb_buffer := pb\<rparr>) [] ?p2"
      using pos by (intro fill_empty_run) (auto simp: new_Pool_def)
    have fr: "?p2 = (?q\<lparr>pb_buffer := pb\<rparr>)\<lparr>bmem := bmem ?p2, empty_stack := empty_stack ?p2,
        empty_stack_size := empty_stack_size ?p2\<rparr>"
      using F unfolding filled_def by blast
    have mb: "max_buckets ?p2 = sz" and al: "alloc_stack ?p2 = NULL"
      using arg_cong [OF fr, of max_buckets] arg_cong [OF fr, of alloc_stack]
      by (simp_all add: new_Pool_def)
    then have sh: "pool_shape (?p2\<lparr>data_buffer := db\<rparr>) [] (rev (bucket_addrs (unat sz) pb))"
      using F by (simp add: pool_shape_def filled_def)
    have n: "unat pre \<le> length (rev (bucket_addrs (unat sz) pb))"
      using args(1) by (simp add: word_le_nat_alt [symmetric])
    have "max_buckets (?p2\<lparr>data_buffer := db\<rparr>) \<noteq> 0" using mb assms(1) by simp
    then obtain xs ys where "pool_shape p3 xs ys"
      using prealloc_loop_shape [OF sh n _ loop] by blast
    then obtain w5 where "PoolFree (Some p3) w4 = Some w5" using ret by blast
    moreover obtain w6 where "PoolFree (Some (?p2\<lparr>data_buffer := db\<rparr>)) w3 = Some w6"
      using ret [OF sh] by blast
    ultimately show ?thesis
      using 3 args a pb db loop by (cases ok) (auto simp: PoolInit_def Let_def)
  qed (use args a in \<open>simp add: PoolInit_def\<close>)
qed

section \<open>The life of a pool\<close>

text \<open>The initialiser and the cleanup of the elements leave the allocator alone.\<close>

definition init_benign :: "('a libc_scheme) Pool \<Rightarrow> bool" where
  "init_benign p \<longleftrightarrow> (\<forall>d i w. heap_of (snd (Init p d i w)) = heap_of w)"

lemma prealloc_loop_heap:
  assumes "max_buckets p \<noteq> 0" "init_benign p" "prealloc_loop n i p w = (True, q, w')"
  shows "heap_of w' = heap_of w"
  using assms
proof (induction n arbitrary: i p w)
  case (Suc n)
  obtain ok1 p1 w1 where r: "prealloc_bounded i p w = (ok1, p1, w1)" by (metis prod_cases3)
  then have ok1 using Suc.prems by (cases ok1) auto
  then have "w1 = snd (Init p (data_buffer p + uint (i * elt_size p)) (InitData p) w)"
    and p1: "max_buckets p1 = max_buckets p" "Init p1 = Init p"
    using r by (auto simp: prealloc_bounded_def Let_def split: prod.splits if_splits)
  then have "heap_of w1 = heap_of w" using Suc.prems(2) by (simp add: init_benign_def)
  then show ?case
    using Suc.IH [of p1 "i + 1" w1] Suc.prems r p1 \<open>ok1\<close> by (simp add: init_benign_def)
qed simp

lemma fill_empty_frame:
  "Init (fill_empty n pb p) = Init p \<and> max_buckets (fill_empty n pb p) = max_buckets p"
  by (induction n arbitrary: pb p) simp_all

lemma three_blocks_free:
  assumes "three_blocks w" "pending w = a # pb # db # rest"
  shows "\<exists>bs. fold hfree [pb, db, a] (db # pb # a # blocks w, bad) = (bs, bad) \<and> mset bs = mset (blocks w)"
proof -
  have "distinct [a, pb, db]" "NULL \<notin> {a, pb, db}"
    using assms by (auto simp: three_blocks_def good_alloc_def numeral_3_eq_3 split: if_splits)
  then show ?thesis by auto
qed

section \<open>Properties\<close>

text \<open>
  C3: A pool that PoolInit builds with as many elements as buckets never hands one element to
  two holders: after any sequence of calls by a client that gives back only what it holds, the
  held elements are pairwise different slots of the data buffer, the code's counter of
  outstanding elements is their number, and the next PoolGet fails exactly when all the slots
  are held.
\<close>

theorem pool_no_sharing:
  assumes "pool_args_ok sz sz esz" "three_blocks w"
    and "\<And>a. init_succeeds (new_Pool a sz sz esz al ini idata cl None)"
  shows "\<exists>p w'. PoolInit sz sz esz al ini idata cl None w = Some (Some p, w') \<and>
    (\<forall>cs. case fold (pool_client PoolGet PoolReturn) cs (p, w', []) of (p2, w2, held) \<Rightarrow>
       distinct held \<and> set held \<subseteq> set (initial_items (data_buffer p) (unat sz) (unat esz)) \<and>
       unat (outstanding p2) = length held \<and>
       (fst (PoolGet p2 w2) = NULL \<longleftrightarrow> length held = unat sz))"
proof -
  obtain p w' a pb db where p: "PoolInit sz sz esz al ini idata cl None w = Some (Some p, w')"
    "built (new_Pool a sz sz esz al ini idata cl None) db p" "0 < db"
    using PoolInit_builds [OF assms] by metis
  let ?it = "initial_items db (unat sz) (unat esz)"
  have fx: "fixed_pool p" and abs: "(ap_stack \<circ> pool_abs) p = ?it" "(ap_out \<circ> pool_abs) p = 0"
    and db: "data_buffer p = db"
    using p(2) assms(1)
    by (auto simp: built_def new_Pool_def fixed_pool_def pool_inv_def pool_args_ok_def Let_def)
  have "0 < unat esz" using assms(1) by (simp add: pool_args_ok_def unat_gt_0)
  note dist = initial_items_distinct [OF this, of db "unat sz"]
  have "distinct held \<and> set held \<subseteq> set ?it \<and> unat (outstanding p2) = length held \<and>
      (fst (PoolGet p2 w2) = NULL \<longleftrightarrow> length held = unat sz)"
    if run: "fold (pool_client PoolGet PoolReturn) cs (p, w', []) = (p2, w2, held)" for cs p2 w2 held
  proof -
    note na = fixed.client_no_alias [OF fx _ abs(2) run, unfolded abs(1), OF dist]
    have "length (held @ (ap_stack \<circ> pool_abs) p2) = length ?it"
      using na dist by (metis distinct_card set_append)
    then have len: "(ap_stack \<circ> pool_abs) p2 = [] \<longleftrightarrow> length held = unat sz" by auto
    have "fst (PoolGet p2 w2) = NULL \<longleftrightarrow> (ap_stack \<circ> pool_abs) p2 = []"
    proof (cases "(ap_stack \<circ> pool_abs) p2")
      case Nil
      then show ?thesis using fixed.get_none na by fastforce
    next
      case (Cons d ds)
      then have "d \<noteq> NULL" using fixed.item_not_NULL na by (metis list.set_intros(1))
      then show ?thesis using fixed.get_item [OF _ Cons, of w2] na Cons by fastforce
    qed
    then show ?thesis using na len by (auto simp: pool_abs_def)
  qed
  then show ?thesis using p(1) db by (auto split: prod.splits)
qed

text \<open>
  C32: PoolGet refines the abstract pool: it pops the stack, makes a fresh element only below the
  limit, and otherwise returns NULL and changes nothing; the structural invariant is kept.
\<close>

theorem PoolGet_correct:
  assumes "pool_inv p" "counters_room p" "PoolGet p w = (d, p', w')"
  shows "pool_inv p' \<and> spec_get d (pool_abs p) = (d, pool_abs p')"
  using PoolGet_refines [OF assms] .

text \<open>
  PoolReturn refines the abstract pool: with a spare bucket the element goes on top of the
  stack, without one it is released and the counters drop; the structural invariant is kept.
\<close>

theorem PoolReturn_correct:
  assumes "pool_inv p" "outstanding p \<noteq> 0" "d \<noteq> NULL" "PoolReturn p d w = (p', w')"
  shows "pool_inv p' \<and> pool_abs p' = spec_put d (pool_abs p)"
  using PoolReturn_refines [OF assms] .

text \<open>
  PoolInit of a bounded pool with accepted arguments succeeds when the allocator has three
  blocks and the element initialiser succeeds, and the pool it returns is well formed with the
  elements of the data buffer stacked last slot first and the other buckets spare.
\<close>

theorem PoolInit_correct:
  assumes "pool_args_ok sz pre esz" "three_blocks w"
    and "\<And>a. init_succeeds (new_Pool a sz pre esz al ini idata cl None)"
  shows "\<exists>p w'. PoolInit sz pre esz al ini idata cl None w = Some (Some p, w') \<and> pool_inv p \<and>
    allocated p = pre \<and>
    pool_abs p = \<lparr>ap_stack = initial_items (data_buffer p) (unat pre) (unat esz),
      ap_spare = unat sz - unat pre, ap_out = 0, ap_cap = unat sz\<rparr>"
proof -
  obtain p w' a pb db where "PoolInit sz pre esz al ini idata cl None w = Some (Some p, w')"
    "built (new_Pool a sz pre esz al ini idata cl None) db p"
    using PoolInit_builds [OF assms] by metis
  then show ?thesis by (auto simp: built_def new_Pool_def pool_inv_def Let_def)
qed

text \<open>
  PoolInit of a bounded pool always returns, whatever the callbacks and the allocator do,
  also on every error path (where it frees the pool it was building).
\<close>

theorem PoolInit_returns:
  assumes "sz \<noteq> 0" "good_alloc w"
  shows "PoolInit sz pre esz al ini idata cl fr w \<noteq> None"
  using PoolInit_returns_bounded [OF assms] by auto


text \<open>
  Creating a pool with as many elements as buckets, any sequence of client calls on it and freeing it leaks nothing and frees
  nothing twice: PoolFree returns and leaves exactly the blocks that were live before PoolInit,
  even while the client still holds elements.
\<close>

theorem pool_life_no_leak:
  assumes "pool_args_ok sz sz esz" "three_blocks w"
    and "\<And>a. init_succeeds (new_Pool a sz sz esz al ini idata cl None)"
    and "\<And>a. init_benign (new_Pool a sz sz esz al ini idata cl None)"
    and "\<And>a. benign_cleanup (new_Pool a sz sz esz al ini idata cl None)"
  shows "\<exists>p w1. PoolInit sz sz esz al ini idata cl None w = Some (Some p, w1) \<and>
    (case fold (pool_client PoolGet PoolReturn) cs (p, w1, []) of (p2, w2, held) \<Rightarrow>
       \<exists>w3. PoolFree (Some p2) w2 = Some w3 \<and> mset (blocks w3) = mset (blocks w) \<and>
         bad_free w3 = bad_free w)"
proof -
  obtain p w1 a pb db rest where p: "PoolInit sz sz esz al ini idata cl None w = Some (Some p, w1)"
    and bu: "built (new_Pool a sz sz esz al ini idata cl None) db p" and pbp: "pb_buffer p = pb"
    and pend: "pending w = a # pb # db # rest"
    and loop: "prealloc_loop (unat sz) 0 ((fill_empty (unat sz) pb
       ((new_Pool a sz sz esz al ini idata cl None)\<lparr>pb_buffer := pb\<rparr>))\<lparr>data_buffer := db\<rparr>)
       (w\<lparr>pending := rest, blocks := db # pb # a # blocks w\<rparr>) = (True, p, w1)"
    using PoolInit_builds [OF assms(1-3)] by metis
  let ?it = "initial_items db (unat sz) (unat esz)"
  let ?B = "set (bucket_addrs (unat sz) pb)"
  have args: "sz \<noteq> 0" "unat sz * unat esz < 2 ^ 31" using assms(1) by (auto simp: pool_args_ok_def)
  have hw1: "heap_of w1 = (db # pb # a # blocks w, bad_free w)"
    using prealloc_loop_heap [OF _ _ loop] assms(4) args(1)
    by (simp add: fill_empty_frame init_benign_def new_Pool_def) (simp add: heap_of_def)
  have wf: "pool_wf p (bucket_addrs (unat sz) pb) []" and abs: "ap_stack (pool_abs p) = ?it"
    and out: "unat (outstanding p) = 0"
    and pf: "data_buffer p = db" "self p = a" "max_buckets p = sz" "allocated p = sz" "Cleanup p = cl"
      "Free p = None" "data_buffer_size p = sint (sz * esz)"
      "\<forall>y \<in> ?B. pb_flags (bmem p y) AND POOL_BUCKET_PREALLOCATED \<noteq> 0"
    using bu pbp by (auto simp: built_def new_Pool_def Let_def pool_abs_def)
  have fx: "fixed_pool p" using wf pf args(1) by (auto simp: fixed_pool_def pool_inv_def)
  have "0 < unat esz" using assms(1) by (simp add: pool_args_ok_def unat_gt_0)
  note dist = initial_items_distinct [OF this, of db "unat sz"]
  obtain p2 w2 held where run: "fold (pool_client PoolGet PoolReturn) cs (p, w1, []) = (p2, w2, held)"
    by (metis prod_cases3)
  have "cells p ?B" using cellsI [OF wf] by simp
  then have fr: "cells p2 ?B" "same_static p p2" "w2 = w1"
    using client_frame [OF fx _ _ _ _ run] out fixed.item_not_NULL [OF fx] by auto
  have "(ap_stack \<circ> pool_abs) p = ?it" "(ap_out \<circ> pool_abs) p = 0"
    using abs out by (simp_all add: pool_abs_def)
  then have "set ((ap_stack \<circ> pool_abs) p2) \<subseteq> set ?it"
    using fixed.client_no_alias [OF fx _ _ run] dist by (metis Un_upper2)
  then have inside: "\<forall>d \<in> set (ap_stack (pool_abs p2)). PoolDataPreAllocated p2 d"
    using initial_items_inside [OF _ args(2)] fr(2) pf by (auto simp: same_static_def)
  obtain xs ys where wf2: "pool_wf p2 xs ys" and B: "set xs \<union> set ys = ?B"
    using fr(1) by (auto simp: cells_def)
  have cl2: "benign_cleanup p2"
    using assms(5) [of a] fr(2) pf by (simp add: benign_cleanup_def run_cleanup_def same_static_def new_Pool_def)
  have fl2: "\<forall>x \<in> set xs \<union> set ys. pb_flags (bmem p2 x) AND POOL_BUCKET_PREALLOCATED \<noteq> 0"
    using pf(8) fr(2) unfolding B by (simp add: same_static_def)
  obtain w3 where w3: "PoolFree (Some p2) w2 = Some w3"
    "heap_of w3 = fold hfree [pb, db, a] (heap_of w1)"
    using PoolFree_fixed [OF wf2 cl2 fl2 inside, of w2] fr(2,3) pf pbp by (auto simp: same_static_def)
  obtain bs where "fold hfree [pb, db, a] (heap_of w1) = (bs, bad_free w)" "mset bs = mset (blocks w)"
    using three_blocks_free [OF assms(2) pend, of "bad_free w"] unfolding hw1 by blast
  then have "mset (blocks w3) = mset (blocks w) \<and> bad_free w3 = bad_free w"
    using w3(2) by (simp only: heap_of_def prod.inject)
  then show ?thesis using p run w3(1) by auto
qed

text \<open>
  An element given back is the next one handed out: PoolReturn with a spare bucket followed
  by PoolGet yields the same element and the abstract pool from before.
\<close>

theorem PoolReturn_PoolGet:
  assumes "pool_inv p" "outstanding p \<noteq> 0" "d \<noteq> NULL" "empty_stack p \<noteq> NULL"
    and "PoolReturn p d w = (p1, w1)" "PoolGet p1 w1 = (d2, p2, w2)"
  shows "d2 = d \<and> w2 = w \<and> pool_abs p2 = pool_abs p"
proof -
  obtain xs ys where wf: "pool_wf p xs ys" using assms(1) by (auto simp: pool_inv_def)
  then obtain y zs where ys: "ys = y # zs" using pool_wf_stacks assms(4) by (cases ys) auto
  note push = PoolReturn_push [OF wf [unfolded ys] assms(2,3,5)]
  note pop = PoolGet_pop [OF push(2) assms(6)]
  have "y \<notin> set xs" using wf ys by (auto simp: pool_wf_def pool_shape_def)
  moreover have "bmem p2 x = bmem p x" if "x \<noteq> y" for x
    using pop(8) push(7) that by simp
  ultimately have "map (\<lambda>a. pb_data (bmem p2 a)) xs = map (\<lambda>a. pb_data (bmem p a)) xs"
    by (metis (mono_tags, lifting) map_cong)
  then show ?thesis
    using pop(1,3,5,7) push(1,3,4,6) pool_abs_wf [OF pop(4)] pool_abs_wf [OF wf] ys by simp
qed


section \<open>Witnesses\<close>

definition demo_heap :: libc where
  "demo_heap = \<lparr>pending = [1000, 2000, 3000, 4000], blocks = [500], bad_free = False, zeroed = []\<rparr>"

text \<open>A pool of two elements with one of them in use.\<close>

definition demo_pool :: "libc Pool" where
  "demo_pool = (new_Pool 1000 2 2 16 None None 0 None None)
     \<lparr>allocated := 2, alloc_stack_size := 1, alloc_stack := 2024, empty_stack := 2000,
      empty_stack_size := 1, data_buffer := 3000, pb_buffer := 2000, outstanding := 1,
      max_outstanding := 1,
      bmem := (\<lambda>_. zero_bucket)(2000 := \<lparr>pb_data = 0, pb_flags = 1, pb_next = 0\<rparr>,
                                2024 := \<lparr>pb_data = 3000, pb_flags = 1, pb_next = 0\<rparr>)\<rparr>"

lemma demo_args:
  "pool_args_ok 3 3 16" "three_blocks demo_heap" "good_alloc demo_heap"
  "init_succeeds (new_Pool a 3 3 16 None None 0 None None :: libc Pool)"
  "init_benign (new_Pool a 3 3 16 None None 0 None None :: libc Pool)"
  "benign_cleanup (new_Pool a 3 3 16 None None 0 None None :: libc Pool)"
  by (simp_all add: pool_args_ok_def three_blocks_def good_alloc_def demo_heap_def init_succeeds_def
      init_benign_def benign_cleanup_def new_Pool_def PoolMemset_def c_memset0_def heap_of_def
      run_cleanup_def)

lemma demo_pool_inv: "pool_inv demo_pool" "counters_room demo_pool" "outstanding demo_pool \<noteq> 0"
  "empty_stack demo_pool \<noteq> NULL"
proof -
  have "pool_wf demo_pool [2024] [2000]"
    by (simp add: pool_wf_def pool_shape_def demo_pool_def new_Pool_def)
  then show "pool_inv demo_pool" by (auto simp: pool_inv_def)
qed (simp_all add: demo_pool_def new_Pool_def counters_room_def)

lemma pool_no_sharing_witness:
  "\<exists>p w'. PoolInit 3 3 16 None None 0 None None demo_heap = Some (Some p, w') \<and>
    (case fold (pool_client PoolGet PoolReturn) [Take, Take, Give 3016, Take] (p, w', []) of
       (p2, w2, held) \<Rightarrow> distinct held \<and> unat (outstanding p2) = length held)"
proof -
  obtain p w' where p: "PoolInit 3 3 16 None None 0 None None demo_heap = Some (Some p, w')"
    and "\<forall>cs. case fold (pool_client PoolGet PoolReturn) cs (p, w', []) of
       (p2, w2, held) \<Rightarrow> distinct held \<and>
       set held \<subseteq> set (initial_items (data_buffer p) (unat (3::u32)) (unat (16::u32))) \<and>
       unat (outstanding p2) = length held \<and> (fst (PoolGet p2 w2) = NULL \<longleftrightarrow> length held = unat (3::u32))"
    using pool_no_sharing [OF demo_args(1,2,4)] by blast
  from p spec [OF this(2), of "[Take, Take, Give 3016, Take]"] show ?thesis
    by (auto split: prod.splits)
qed

lemma PoolGet_correct_witness:
  "let (d, p', w') = PoolGet demo_pool demo_heap
   in d = 3000 \<and> pool_inv p' \<and> spec_get d (pool_abs demo_pool) = (d, pool_abs p')"
proof -
  obtain d p' w' where get: "PoolGet demo_pool demo_heap = (d, p', w')" by (metis prod_cases3)
  then have "d = 3000" by (simp add: PoolGet_def demo_pool_def new_Pool_def Let_def)
  then show ?thesis using PoolGet_correct [OF demo_pool_inv(1,2) get] get by simp
qed

lemma PoolReturn_correct_witness:
  "let (p', w') = PoolReturn demo_pool 3016 demo_heap
   in pool_inv p' \<and> pool_abs p' = spec_put 3016 (pool_abs demo_pool)"
proof -
  obtain p' w' where ret: "PoolReturn demo_pool 3016 demo_heap = (p', w')" by fastforce
  then show ?thesis using PoolReturn_correct [OF demo_pool_inv(1,3) _ ret] by simp
qed

lemma PoolInit_correct_witness:
  "\<exists>p w'. PoolInit 3 3 16 None None 0 None None demo_heap = Some (Some p, w') \<and>
    ap_stack (pool_abs p) = initial_items (data_buffer p) 3 16"
  using PoolInit_correct [OF demo_args(1,2,4)] by auto

lemma PoolInit_returns_witness:
  "PoolInit 3 3 16 None (Some (\<lambda>d i w. (0, w))) 0 None None demo_heap \<noteq> None"
  using PoolInit_returns [OF _ demo_args(3)] by simp

lemma pool_life_no_leak_witness:
  "\<exists>p w1. PoolInit 3 3 16 None None 0 None None demo_heap = Some (Some p, w1) \<and>
    (case fold (pool_client PoolGet PoolReturn) [Take, Take] (p, w1, []) of (p2, w2, held) \<Rightarrow>
       \<exists>w3. PoolFree (Some p2) w2 = Some w3 \<and> mset (blocks w3) = {#500#} \<and> \<not> bad_free w3)"
  using pool_life_no_leak [OF demo_args(1,2,4,5,6), of "[Take, Take]"] by (simp add: demo_heap_def)

lemma PoolReturn_PoolGet_witness:
  "let (p1, w1) = PoolReturn demo_pool 3016 demo_heap; (d2, p2, w2) = PoolGet p1 w1
   in d2 = 3016 \<and> w2 = demo_heap \<and> pool_abs p2 = pool_abs demo_pool"
proof -
  obtain p1 w1 where ret: "PoolReturn demo_pool 3016 demo_heap = (p1, w1)" by fastforce
  obtain d2 p2 w2 where get: "PoolGet p1 w1 = (d2, p2, w2)" by (metis prod_cases3)
  show ?thesis using PoolReturn_PoolGet [OF demo_pool_inv(1,3) _ demo_pool_inv(4) ret get] ret get by simp
qed

end
