(* ===== verification/Pool_Blocks.thy ===== *)
theory Pool_Blocks
  imports Pool_Props
begin

text \<open>
  The memory of a bounded pool that is preallocated in part: PoolGet takes an element from the C
  allocator when the stack is empty and the limit is not reached. Where such an element is when the pool
  is freed decides whether its block is given back.
\<close>

section \<open>What the callbacks leave alone\<close>

text \<open>The initialiser does not touch the allocator.\<close>

definition init_quiet :: "('a libc_scheme) Pool \<Rightarrow> bool" where
  "init_quiet p \<longleftrightarrow> (\<forall>d i w. heap_of (snd (Init p d i w)) = heap_of w \<and> pending (snd (Init p d i w)) = pending w)"

lemma init_quiet_benign: "init_quiet p \<Longrightarrow> init_benign p"
  by (simp add: init_quiet_def init_benign_def)

lemma good_alloc_same: "heap_of w' = heap_of w \<Longrightarrow> pending w' = pending w \<Longrightarrow> good_alloc w' = good_alloc w"
  by (simp add: good_alloc_def heap_of_def)

definition callbacks :: "('a libc_scheme) Pool \<Rightarrow> bool" where
  "callbacks p \<longleftrightarrow> Alloc p = None \<and> init_succeeds p \<and> init_quiet p \<and> benign_cleanup p"

lemma callbacks_same:
  "callbacks p \<Longrightarrow> Alloc q = Alloc p \<Longrightarrow> Init q = Init p \<Longrightarrow> Cleanup q = Cleanup p \<Longrightarrow> Free q = Free p \<Longrightarrow> callbacks q"
  by (simp add: callbacks_def init_succeeds_def init_quiet_def benign_cleanup_def run_cleanup_def)

lemma PoolGet_callbacks: "PoolGet p w = (d, p', w') \<Longrightarrow> callbacks p \<Longrightarrow> callbacks p'"
  by (erule callbacks_same) (auto simp: PoolGet_def count_out_def Let_def split: if_splits prod.splits)

lemma PoolReturn_callbacks: "PoolReturn p d w = (p', w') \<Longrightarrow> callbacks p \<Longrightarrow> callbacks p'"
  by (erule callbacks_same) (auto simp: PoolReturn_def Let_def split: if_splits)

lemma filled_callbacks:
  "Alloc (fill_empty n b p) = Alloc p \<and> Init (fill_empty n b p) = Init p \<and> Cleanup (fill_empty n b p) = Cleanup p \<and>
   Free (fill_empty n b p) = Free p"
  by (induction n arbitrary: b p) simp_all

lemma prealloc_loop_pending:
  assumes "max_buckets p \<noteq> 0" "callbacks p" "prealloc_loop n i p w = (True, q, w')"
  shows "heap_of w' = heap_of w \<and> pending w' = pending w \<and> callbacks q"
  using assms
proof (induction n arbitrary: i p w)
  case (Suc n)
  obtain ok1 p1 w1 where r: "prealloc_bounded i p w = (ok1, p1, w1)" by (metis prod_cases3)
  then have ok1 using Suc.prems by (cases ok1) auto
  then have "w1 = snd (Init p (data_buffer p + uint (i * elt_size p)) (InitData p) w)"
    and p1: "max_buckets p1 = max_buckets p" "Alloc p1 = Alloc p" "Init p1 = Init p" "Cleanup p1 = Cleanup p" "Free p1 = Free p"
    using r by (auto simp: prealloc_bounded_def Let_def split: prod.splits if_splits)
  then have "heap_of w1 = heap_of w" "pending w1 = pending w" "callbacks p1"
    using Suc.prems(2) callbacks_same [OF Suc.prems(2) p1(2-5)] by (simp_all add: callbacks_def init_quiet_def)
  then show ?case using Suc.IH [of p1 "i + 1" w1] Suc.prems r p1(1) \<open>ok1\<close> by simp
qed simp

section \<open>The blocks of a pool in use\<close>

text \<open>
  \<open>taken base I p w held\<close>: \<open>base\<close> are the blocks that were live when the client began, \<open>I\<close> the
  preallocated elements, \<open>held\<close> what the client holds. The elements in the pool and in the hands of
  the client are those of \<open>I\<close> and one for every block PoolGet has taken from the allocator since.
\<close>

definition outside :: "'w Pool \<Rightarrow> addr list \<Rightarrow> addr list" where
  "outside p ds = filter (\<lambda>d. \<not> PoolDataPreAllocated p d) ds"

definition taken :: "addr multiset \<Rightarrow> addr list \<Rightarrow> ('a libc_scheme) Pool \<Rightarrow> 'a libc_scheme \<Rightarrow> addr list \<Rightarrow> bool" where
  "taken base I p w held \<longleftrightarrow>
     good_alloc w \<and> length held = unat (outstanding p) \<and> NULL \<notin> set held \<and>
     (\<exists>dyn. mset (pool_items p) + mset held = mset I + mset dyn \<and> mset (blocks w) = base + mset dyn \<and>
        (\<forall>d \<in> set dyn. \<not> PoolDataPreAllocated p d)) \<and>
     (\<forall>d \<in> set (pending w). d = NULL \<or> \<not> PoolDataPreAllocated p d)"

lemma PoolGet_world:
  assumes "alloc_stack p = NULL" "callbacks p" "good_alloc w" "PoolGet p w = (d, p', w')"
  shows "good_alloc w'" "set (pending w') \<subseteq> set (pending w)" "bad_free w' = bad_free w"
    "blocks w' = (if d = NULL then blocks w else d # blocks w)" "d \<noteq> NULL \<Longrightarrow> d \<in> set (pending w)"
proof -
  obtain x w1 where m: "c_malloc (unat (elt_size p)) w = (x, w1)" by fastforce
  obtain r w2 where i: "Init p x (InitData p) w1 = (r, w2)" by fastforce
  have al: "run_alloc p w = (x, w1)" using m assms(2) by (simp add: run_alloc_def callbacks_def)
  have r: "r = 1" "heap_of w2 = heap_of w1" "pending w2 = pending w1"
    using assms(2) i unfolding callbacks_def init_succeeds_def init_quiet_def by (metis fst_conv, metis snd_conv, metis snd_conv)
  have "d = NULL \<and> (w' = w \<or> x = NULL \<and> w' = w1) \<or> d \<noteq> NULL \<and> d = x \<and> w' = w2"
    using assms(1,4) al i r(1) by (auto simp: PoolGet_def Let_def split: if_splits)
  then show "good_alloc w'" "set (pending w') \<subseteq> set (pending w)" "bad_free w' = bad_free w"
    "blocks w' = (if d = NULL then blocks w else d # blocks w)" "d \<noteq> NULL \<Longrightarrow> d \<in> set (pending w)"
    using assms(3) good_alloc_malloc(1) [OF assms(3) m] good_alloc_same [OF r(2,3)] c_malloc_pending [OF m] c_malloc_blocks [OF m] r(2,3)
    by (auto simp: heap_of_def)
qed

lemma PoolData_static: "same_static p q \<Longrightarrow> PoolDataPreAllocated q = PoolDataPreAllocated p"
  by (simp add: same_static_def PoolDataPreAllocated_def fun_eq_iff)

lemma taken_get:
  assumes wf: "pool_wf p xs ys" "max_buckets p \<noteq> 0" and cb: "callbacks p" and T: "taken base I p w held"
    and get: "PoolGet p w = (d, p', w')"
  shows "taken base I p' w' (if d = NULL then held else d # held) \<and> bad_free w' = bad_free w \<and> cells p' (set xs \<union> set ys)"
proof -
  have stat: "PoolDataPreAllocated p' = PoolDataPreAllocated p" by (rule PoolData_static [OF PoolGet_static [OF get]])
  obtain dyn where t: "good_alloc w" "length held = unat (outstanding p)" "NULL \<notin> set held"
    "mset (pool_items p) + mset held = mset I + mset dyn" "mset (blocks w) = base + mset dyn"
    "\<forall>x \<in> set dyn. \<not> PoolDataPreAllocated p x" "\<forall>x \<in> set (pending w). x = NULL \<or> \<not> PoolDataPreAllocated p x"
    using T by (auto simp: taken_def)
  have "pool_inv p" "counters_room p" using wf by (auto simp: pool_inv_def counters_room_def)
  then have sg: "spec_get d (pool_abs p) = (d, pool_abs p')" using PoolGet_refines [OF _ _ get] by simp
  show ?thesis
  proof (cases xs)
    case (Cons x zs)
    note pop = PoolGet_pop [OF wf(1) [unfolded Cons] get]
    have it: "pool_items p = pb_data (bmem p x) # map (\<lambda>a. pb_data (bmem p a)) zs" using pool_abs_wf [OF wf(1)] Cons by simp
    have "d = pb_data (bmem p x) \<and> pool_items p' = map (\<lambda>a. pb_data (bmem p a)) zs"
      using sg [symmetric] by (simp add: spec_get_def it)
    then have "pool_items p = d # pool_items p'" using it by simp
    then have "mset (pool_items p') + mset (d # held) = mset I + mset dyn" using t(4) by simp
    then have "taken base I p' w' (d # held)"
      unfolding taken_def stat pop(3) using t pop(2,5) by auto
    then show ?thesis using pop(2,3) cellsI [OF pop(4)] Cons by auto
  next
    case Nil
    have a: "alloc_stack p = NULL" using pool_wf_stacks [OF wf(1)] Nil by simp
    have it: "pool_items p = []" using pool_abs_wf [OF wf(1)] Nil by simp
    then have items: "pool_items p = []" "pool_items p' = []"
      using sg [symmetric] by (simp_all add: spec_get_def it split: if_splits)
    note world = PoolGet_world [OF a cb t(1) get]
    have cells: "pool_wf p' [] ys \<and> (d = NULL \<longrightarrow> p' = p) \<and> (d \<noteq> NULL \<longrightarrow> unat (outstanding p') = Suc (unat (outstanding p)))"
    proof (cases "allocated p < max_buckets p")
      case True
      then show ?thesis using PoolGet_fresh [OF wf(1) [unfolded Nil] _ _ get] wf(2) by blast
    next
      case False
      then show ?thesis using PoolGet_exhausted [OF wf(1) [unfolded Nil] wf(2)] get wf(1) Nil by simp
    qed
    have pend: "\<forall>x \<in> set (pending w'). x = NULL \<or> \<not> PoolDataPreAllocated p x" using t(7) world(2) by blast
    have "taken base I p' w' (if d = NULL then held else d # held)"
    proof (cases "d = NULL")
      case True
      then show ?thesis unfolding taken_def stat using t world pend cells items by auto
    next
      case False
      have "mset (pool_items p') + mset (d # held) = mset I + mset (d # dyn)" "mset (blocks w') = base + mset (d # dyn)"
        "\<forall>x \<in> set (d # dyn). \<not> PoolDataPreAllocated p x"
        using t(4-7) items world(4,5) False by auto
      then have "\<exists>dyn. mset (pool_items p') + mset (d # held) = mset I + mset dyn \<and> mset (blocks w') = base + mset dyn \<and>
          (\<forall>x \<in> set dyn. \<not> PoolDataPreAllocated p x)"
        by blast
      then show ?thesis unfolding taken_def stat using t(2,3) world(1) pend cells False by simp
    qed
    moreover have "cells p' (set xs \<union> set ys)" by (rule cellsI [of _ "[]" ys]) (use cells Nil in auto)
    ultimately show ?thesis using world(3) by simp
  qed
qed

lemma taken_put:
  assumes wf: "pool_wf p xs ys" "max_buckets p \<noteq> 0" and T: "taken base I p w held" and d: "d \<in> set held"
    and ret: "PoolReturn p d w = (p', w')"
  shows "taken base I p' w' (remove1 d held) \<and> w' = w \<and> cells p' (set xs \<union> set ys)"
proof -
  have stat: "PoolDataPreAllocated p' = PoolDataPreAllocated p" by (rule PoolData_static [OF PoolReturn_static [OF ret]])
  have t: "length held = unat (outstanding p)" "NULL \<notin> set held" using T by (simp_all add: taken_def)
  have out: "outstanding p \<noteq> 0" "d \<noteq> NULL" using t length_pos_if_in_set [OF d] d by (auto simp: unat_eq_zero)
  then obtain y zs where ys: "ys = y # zs" using pool_wf_no_spare [of p xs] wf by (cases ys) auto
  note push = PoolReturn_push [OF wf(1) [unfolded ys] out ret]
  have "pool_inv p" using wf by (auto simp: pool_inv_def)
  then have "pool_items p' = d # pool_items p"
    using PoolReturn_refines [OF _ out ret] pool_abs_wf [OF wf(1)] ys by (simp add: spec_put_def)
  then have "mset (pool_items p') + mset (remove1 d held) = mset (pool_items p) + mset held" using d by simp
  moreover have "length (remove1 d held) = unat (outstanding p')" using d t(1) push(4) by (simp add: length_remove1)
  moreover have "NULL \<notin> set (remove1 d held)" using t(2) by (meson notin_set_remove1)
  ultimately have "taken base I p' w' (remove1 d held)" using T unfolding taken_def stat push(1) by simp
  moreover have "cells p' (set xs \<union> set ys)" using cellsI [OF push(2)] ys by auto
  ultimately show ?thesis using push(1) by simp
qed

lemma taken_run:
  assumes "cells p B" "max_buckets p \<noteq> 0" "callbacks p" "taken base I p w held"
    and "fold (pool_client PoolGet PoolReturn) cs (p, w, held) = (p', w', held')"
  shows "cells p' B \<and> callbacks p' \<and> same_static p p' \<and> taken base I p' w' held' \<and> bad_free w' = bad_free w"
  using assms
proof (induction cs arbitrary: p w held)
  case (Cons c cs)
  obtain p1 w1 held1 where c: "pool_client PoolGet PoolReturn c (p, w, held) = (p1, w1, held1)" by (metis prod_cases3)
  obtain xs ys where wf: "pool_wf p xs ys" and B: "set xs \<union> set ys = B" using Cons.prems(1) by (auto simp: cells_def)
  have "cells p1 B \<and> callbacks p1 \<and> same_static p p1 \<and> taken base I p1 w1 held1 \<and> bad_free w1 = bad_free w"
  proof (cases c)
    case Take
    obtain d q u where get: "PoolGet p w = (d, q, u)" by (metis prod_cases3)
    then show ?thesis
      using taken_get [OF wf Cons.prems(2-4) get] PoolGet_static [OF get] PoolGet_callbacks [OF get Cons.prems(3)] c Take B by auto
  next
    case (Give d)
    obtain q u where ret: "PoolReturn p d w = (q, u)" by fastforce
    show ?thesis
    proof (cases "d \<in> set held")
      case True
      then show ?thesis
        using taken_put [OF wf Cons.prems(2,4) True ret] PoolReturn_static [OF ret] PoolReturn_callbacks [OF ret Cons.prems(3)] c ret Give B
        by auto
    qed (use c Give Cons.prems in simp)
  qed
  then have 1: "cells p1 B" "callbacks p1" "same_static p p1" "taken base I p1 w1 held1" "bad_free w1 = bad_free w" by blast+
  then have "max_buckets p1 \<noteq> 0" using Cons.prems(2) by (simp add: same_static_def)
  moreover have "fold (pool_client PoolGet PoolReturn) cs (p1, w1, held1) = (p', w', held')" using Cons.prems(5) c by simp
  ultimately show ?case using Cons.IH [OF 1(1) _ 1(2,4)] 1(3,5) same_static_trans by metis
qed simp

section \<open>Freeing the pool\<close>

lemma pool_owned_outside:
  assumes wf: "pool_wf p xs ys" and fl: "\<forall>x \<in> set xs \<union> set ys. pb_flags (bmem p x) AND POOL_BUCKET_PREALLOCATED \<noteq> 0"
  shows "pool_owned p xs ys = outside p (pool_items p) @ [pb_buffer p, data_buffer p, self p]"
proof -
  have data: "\<forall>x \<in> set xs. pb_data (bmem p x) \<noteq> NULL" "\<forall>y \<in> set ys. pb_data (bmem p y) = NULL" using wf by (simp_all add: pool_wf_def)
  have "concat (map (bucket_frees p) xs) = outside p (map (\<lambda>x. pb_data (bmem p x)) xs)"
    using data(1) fl by (induction xs) (auto simp: bucket_frees_def outside_def)
  moreover have "concat (map (bucket_frees p) ys) = []" using data(2) fl by (auto simp: bucket_frees_def)
  ultimately show ?thesis using pool_abs_wf [OF wf] by (simp add: pool_owned_def)
qed

lemma taken_free:
  assumes wf: "pool_wf p xs ys" and cb: "callbacks p" and T: "taken (mset own + M) I p w held"
    and fl: "\<forall>x \<in> set xs \<union> set ys. pb_flags (bmem p x) AND POOL_BUCKET_PREALLOCATED \<noteq> 0"
    and own: "own = [pb_buffer p, data_buffer p, self p]" "NULL \<notin> set own" and I: "\<forall>d \<in> set I. PoolDataPreAllocated p d"
  shows "\<exists>w'. PoolFree (Some p) w = Some w' \<and> mset (blocks w') = M + mset (outside p held) \<and> bad_free w' = bad_free w"
proof -
  let ?as = "outside p (pool_items p) @ own"
  obtain dyn where t: "good_alloc w" "mset (pool_items p) + mset held = mset I + mset dyn" "mset (blocks w) = mset own + M + mset dyn"
    "\<forall>d \<in> set dyn. \<not> PoolDataPreAllocated p d"
    using T by (auto simp: taken_def)
  have "filter_mset (\<lambda>d. \<not> PoolDataPreAllocated p d) (mset (pool_items p) + mset held) = mset dyn"
  proof -
    have "filter_mset (\<lambda>d. \<not> PoolDataPreAllocated p d) (mset I) = {#}" using I by (simp flip: mset_filter)
    moreover have "filter_mset (\<lambda>d. \<not> PoolDataPreAllocated p d) (mset dyn) = mset dyn"
      using t(4) by (metis filter_True mset_filter)
    ultimately show ?thesis unfolding t(2) by simp
  qed
  then have dyn: "mset (outside p (pool_items p)) + mset (outside p held) = mset dyn" by (simp add: outside_def)
  obtain m where m: "mset m = M" using ex_mset by blast
  have eq: "mset (?as @ m @ outside p held) = mset (blocks w)" using t(3) dyn m by (simp add: ac_simps)
  have "distinct (blocks w)" using t(1) by (simp add: good_alloc_def)
  then have "distinct (?as @ m @ outside p held)" using mset_eq_imp_distinct_iff [OF eq] by blast
  then have dist: "distinct ?as" by (metis distinct_append)
  have sub: "set ?as \<subseteq> set (blocks w)" using mset_eq_setD [OF eq] by auto
  have "NULL \<notin> set (pool_items p)" using wf pool_abs_wf [OF wf] by (auto simp: pool_wf_def)
  then have nn: "NULL \<notin> set ?as" using own(2) by (auto simp: outside_def)
  obtain bs where bs: "fold hfree ?as (blocks w, bad_free w) = (bs, bad_free w)" "mset bs = mset (blocks w) - mset ?as"
    using hfree_all [OF dist nn sub] by blast
  have "mset bs = M + mset (outside p held)" unfolding bs(2) eq [symmetric] mset_append m by simp
  moreover obtain w' where "PoolFree (Some p) w = Some w'" "heap_of w' = fold hfree (pool_owned p xs ys) (heap_of w)"
    using PoolFree_heap [OF wf, of w] cb by (auto simp: callbacks_def)
  ultimately show ?thesis using bs(1) unfolding pool_owned_outside [OF wf fl] own(1) [symmetric] by (auto simp: heap_of_def)
qed

lemma taken_count:
  assumes wf: "pool_wf p xs ys" "max_buckets p \<noteq> 0" and T: "taken base I p w held" and I: "\<forall>d \<in> set I. PoolDataPreAllocated p d"
  shows "length (outside p held) \<le> unat (max_buckets p) - length I"
proof -
  obtain dyn where t: "length held = unat (outstanding p)" "mset (pool_items p) + mset held = mset I + mset dyn"
    "\<forall>d \<in> set dyn. \<not> PoolDataPreAllocated p d"
    using T by (auto simp: taken_def)
  have "length (pool_items p) + length held = length I + length dyn" using arg_cong [OF t(2), of size] by simp
  moreover have "length (pool_items p) = length xs" "length xs + unat (outstanding p) \<le> unat (max_buckets p)"
    using pool_abs_wf [OF wf(1)] wf by (auto simp: pool_wf_def)
  moreover have "length (outside p held) \<le> length dyn"
  proof -
    have "mset (outside p held) \<subseteq># filter_mset (\<lambda>d. \<not> PoolDataPreAllocated p d) (mset I + mset dyn)"
      unfolding t(2) [symmetric] by (simp add: outside_def)
    also have "\<dots> = filter_mset (\<lambda>d. \<not> PoolDataPreAllocated p d) (mset dyn)" using I by (simp flip: mset_filter)
    finally have "size (mset (outside p held)) \<le> size (filter_mset (\<lambda>d. \<not> PoolDataPreAllocated p d) (mset dyn))"
      by (rule size_mset_mono)
    then show ?thesis using size_filter_mset_lesseq [of "\<lambda>d. \<not> PoolDataPreAllocated p d" "mset dyn"] by simp
  qed
  ultimately show ?thesis using t(1) by linarith
qed

lemma buffer_inside:
  fixes pre esz :: u32
  assumes "unat pre * unat esz < 2 ^ 31" "data_buffer_size p = sint (pre * esz)"
  shows "PoolDataPreAllocated p d \<longleftrightarrow> data_buffer p \<le> d \<and> d \<le> data_buffer p + int (unat pre * unat esz)"
proof -
  have "unat (pre * esz) = unat pre * unat esz" using assms(1) by (simp add: unat_word_ariths take_bit_nat_eq_self)
  then have "sint (pre * esz) = int (unat pre * unat esz)" using assms(1) by (simp add: sint_small)
  then show ?thesis unfolding PoolDataPreAllocated_def Let_def assms(2) by linarith
qed

section \<open>Properties\<close>

text \<open>
  C4: The memory of a bounded pool, preallocated in full or in part, over its whole life. PoolInit
  succeeds; then a client makes any sequence of calls, giving back only what it holds; then the pool is
  freed. PoolFree returns and frees no block twice. Of the blocks PoolInit and PoolGet have
  taken from the allocator it leaves exactly those of the elements that the client still holds and that
  lie outside the preallocated buffer; there are at most as many of them as elements were not
  preallocated. So nothing is leaked, even while elements are held, by a pool that
  is preallocated in full, as every pool of the agents is; in a pool preallocated in part an element that PoolGet
  has allocated is lost when the pool is freed before the element is given back. (The later blocks of the
  allocator must not touch the buffer: \<^verbatim>\<open>PoolDataPreAllocated\<close> counts the address right
  behind the buffer as inside.)
\<close>

theorem pool_life_blocks:
  assumes "pool_args_ok sz pre esz" "good_alloc w" "pending w = a # pb # db # rest" "NULL \<notin> {a, pb, db}"
    and "\<forall>d \<in> set rest. d = NULL \<or> d < db \<or> db + int (unat pre * unat esz) < d"
    and "\<And>q. callbacks (new_Pool q sz pre esz None ini idata cl None)"
  shows "\<exists>p w1. PoolInit sz pre esz None ini idata cl None w = Some (Some p, w1) \<and>
    (case fold (pool_client PoolGet PoolReturn) cs (p, w1, []) of (p2, w2, held) \<Rightarrow>
       \<exists>w3. PoolFree (Some p2) w2 = Some w3 \<and> bad_free w3 = bad_free w \<and>
         mset (blocks w3) = mset (blocks w) + mset (outside p held) \<and>
         length (outside p held) \<le> unat sz - unat pre \<and>
         (\<forall>d. d \<in> set (outside p held) \<longleftrightarrow> d \<in> set held \<and> (d < db \<or> db + int (unat pre * unat esz) < d)))"
proof -
  have blk: "three_blocks w" using assms(2-4) by (simp add: three_blocks_def numeral_3_eq_3)
  have succ: "init_succeeds (new_Pool q sz pre esz None ini idata cl None)" for q using assms(6) by (simp add: callbacks_def)
  let ?q = "new_Pool a sz pre esz None ini idata cl None"
  obtain p w1 a' pb' db' rest' where P: "PoolInit sz pre esz None ini idata cl None w = Some (Some p, w1)"
    "built (new_Pool a' sz pre esz None ini idata cl None) db' p" "pb_buffer p = pb'" "pending w = a' # pb' # db' # rest'"
    "0 < a'" "0 < pb'" "0 < db'"
    "prealloc_loop (unat pre) 0
       ((fill_empty (unat sz) pb' ((new_Pool a' sz pre esz None ini idata cl None)\<lparr>pb_buffer := pb'\<rparr>))\<lparr>data_buffer := db'\<rparr>)
       (w\<lparr>pending := rest', blocks := db' # pb' # a' # blocks w\<rparr>) = (True, p, w1)"
    by (rule PoolInit_builds [OF assms(1) blk succ])
  have eq: "a' = a" "pb' = pb" "db' = db" "rest' = rest" using P(4) assms(3) by simp_all
  note p = P(1) and bu = P(2) [unfolded eq] and pbp = P(3) [unfolded eq] and loop = P(8) [unfolded eq]
  have args: "sz \<noteq> 0" "pre \<le> sz" "unat pre * unat esz < 2 ^ 31" using assms(1) by (auto simp: pool_args_ok_def)
  let ?I = "initial_items db (unat pre) (unat esz)" and ?B = "set (bucket_addrs (unat sz) pb)"
  let ?w = "w\<lparr>pending := rest, blocks := db # pb # a # blocks w\<rparr>" and ?own = "[pb, db, a]"
  have wf: "pool_wf p (rev (take (unat pre) (rev (bucket_addrs (unat sz) pb)))) (drop (unat pre) (rev (bucket_addrs (unat sz) pb)))"
    and abs: "pool_items p = ?I" "pool_used p = 0"
    and pf: "data_buffer p = db" "self p = a" "max_buckets p = sz" "data_buffer_size p = sint (pre * esz)"
      "\<forall>y \<in> ?B. pb_flags (bmem p y) AND POOL_BUCKET_PREALLOCATED \<noteq> 0"
    using bu pbp by (auto simp: built_def new_Pool_def Let_def)
  have cells: "cells p ?B"
    by (rule cellsI [OF wf]) (metis append_take_drop_id set_append set_rev)
  have "callbacks ((fill_empty (unat sz) pb (?q\<lparr>pb_buffer := pb\<rparr>))\<lparr>data_buffer := db\<rparr>)"
    by (rule callbacks_same [OF assms(6) [of a]]) (simp_all add: filled_callbacks)
  then have w1: "heap_of w1 = heap_of ?w" "pending w1 = rest" "callbacks p"
    using prealloc_loop_pending [OF _ _ loop] args(1) by (simp_all add: fill_empty_frame new_Pool_def)
  have in_I: "\<forall>d \<in> set ?I. PoolDataPreAllocated p d" using initial_items_inside [OF _ args(3) pf(1,4)] by blast
  note inside = buffer_inside [OF args(3) pf(4), unfolded pf(1)]
  have "good_alloc w1"
    using good_alloc_same [of w1 ?w] w1(1,2) assms(2-4) by (auto simp: good_alloc_def)
  moreover have "\<forall>d \<in> set (pending w1). d = NULL \<or> \<not> PoolDataPreAllocated p d"
    using assms(5) unfolding w1(2) inside by fastforce
  moreover have "blocks w1 = db # pb # a # blocks w" "bad_free w1 = bad_free w" using w1(1) by (simp_all add: heap_of_def)
  ultimately have T: "taken (mset ?own + mset (blocks w)) ?I p w1 []" and bad: "bad_free w1 = bad_free w"
    using abs by (auto simp: taken_def pool_abs_def intro!: exI [of _ "[]"])
  obtain p2 w2 held where run: "fold (pool_client PoolGet PoolReturn) cs (p, w1, []) = (p2, w2, held)" by (metis prod_cases3)
  have mb: "max_buckets p \<noteq> 0" using args(1) pf(3) by simp
  have r: "cells p2 ?B" "callbacks p2" "same_static p p2" "taken (mset ?own + mset (blocks w)) ?I p2 w2 held" "bad_free w2 = bad_free w1"
    using taken_run [OF cells mb w1(3) T run] by blast+
  obtain xs ys where wf2: "pool_wf p2 xs ys" "set xs \<union> set ys = ?B" using r(1) by (auto simp: cells_def)
  have st: "PoolDataPreAllocated p2 = PoolDataPreAllocated p" by (rule PoolData_static [OF r(3)])
  have fl2: "\<forall>x \<in> set xs \<union> set ys. pb_flags (bmem p2 x) AND POOL_BUCKET_PREALLOCATED \<noteq> 0"
    using pf(5) r(3) unfolding wf2(2) by (simp add: same_static_def)
  have own: "?own = [pb_buffer p2, data_buffer p2, self p2]" "NULL \<notin> set ?own" and mb2: "max_buckets p2 = sz"
    using r(3) pbp pf assms(4) by (auto simp: same_static_def)
  obtain w3 where "PoolFree (Some p2) w2 = Some w3" "mset (blocks w3) = mset (blocks w) + mset (outside p2 held)" "bad_free w3 = bad_free w2"
    using taken_free [OF wf2(1) r(2,4) fl2 own] in_I unfolding st by blast
  moreover have "outside p2 held = outside p held" unfolding outside_def st ..
  moreover have "length (outside p2 held) \<le> unat sz - unat pre"
    using taken_count [OF wf2(1) _ r(4)] in_I args(1) unfolding st mb2 by simp
  moreover have "d \<in> set (outside p held) \<longleftrightarrow> d \<in> set held \<and> (d < db \<or> db + int (unat pre * unat esz) < d)" for d
    unfolding outside_def inside by auto
  ultimately show ?thesis using p run r(5) bad by auto
qed

text \<open>
  A pool of two 16-byte elements, one of them preallocated: the client takes both, gives the first back
  and keeps the second, which stays behind when the pool is freed.
\<close>

definition kept :: "addr list" where
  "kept = (case PoolInit 2 1 16 None None 0 None None demo_heap of
     Some (Some p, w1) \<Rightarrow> outside p (snd (snd (fold (pool_client PoolGet PoolReturn) [Take, Take, Give 3000] (p, w1, []))))
   | _ \<Rightarrow> [])"

lemma kept_second: "kept = [4000]"
  by code_simp

lemma pool_life_blocks_witness:
  "\<exists>p w1. PoolInit 2 1 16 None None 0 None None demo_heap = Some (Some p, w1) \<and>
    (case fold (pool_client PoolGet PoolReturn) [Take, Take, Give 3000] (p, w1, []) of (p2, w2, held) \<Rightarrow>
       \<exists>w3. PoolFree (Some p2) w2 = Some w3 \<and> \<not> bad_free w3 \<and> mset (blocks w3) = {#500, 4000#})"
proof -
  have "pool_args_ok 2 1 16" "good_alloc demo_heap" "pending demo_heap = [1000, 2000, 3000, 4000]"
    by (simp_all add: pool_args_ok_def good_alloc_def demo_heap_def)
  moreover have "callbacks (new_Pool q 2 1 16 None None 0 None None :: libc Pool)" for q
    by (simp add: callbacks_def init_succeeds_def init_quiet_def benign_cleanup_def new_Pool_def PoolMemset_def c_memset0_def
        heap_of_def run_cleanup_def)
  ultimately obtain p w1 where p: "PoolInit 2 1 16 None None 0 None None demo_heap = Some (Some p, w1)"
    and life: "case fold (pool_client PoolGet PoolReturn) [Take, Take, Give 3000] (p, w1, []) of (p2, w2, held) \<Rightarrow>
       \<exists>w3. PoolFree (Some p2) w2 = Some w3 \<and> bad_free w3 = bad_free demo_heap \<and>
         mset (blocks w3) = mset (blocks demo_heap) + mset (outside p held)"
    using pool_life_blocks [of 2 1 16 demo_heap 1000 2000 3000 "[4000]" None 0 None "[Take, Take, Give 3000]"]
    by (fastforce split: prod.splits)
  obtain p2 w2 held where run: "fold (pool_client PoolGet PoolReturn) [Take, Take, Give 3000] (p, w1, []) = (p2, w2, held)"
    by (metis prod_cases3)
  have "outside p held = [4000]" using kept_second run unfolding kept_def p by simp
  then have "\<exists>w3. PoolFree (Some p2) w2 = Some w3 \<and> \<not> bad_free w3 \<and> mset (blocks w3) = {#500, 4000#}"
    using life unfolding run by (auto simp: demo_heap_def)
  then show ?thesis
    by (intro exI [of _ p] exI [of _ w1] conjI p) (simp only: run prod.case)
qed

end
