(* ===== verification/Http_Types.thy ===== *)
theory Http_Types
  imports Mesh_Prelude
begin

text \<open>
  Data of the HTTP parser (\<^verbatim>\<open>src/src/http_parser.h\<close> and the head of
  \<^verbatim>\<open>http_parser.c\<close>): the enumerations, the parser structure with its fields at
  their width, the character tables and the character classes, all for the strict mode the
  program is built with. A byte is a value of type char, which has exactly the 256 bytes.
\<close>

section \<open>Enumerations\<close>

datatype pstate =
    s_dead
  | s_start_req_or_res | s_res_or_resp_H | s_start_res
  | s_res_H | s_res_HT | s_res_HTT | s_res_HTTP
  | s_res_http_major | s_res_http_dot | s_res_http_minor | s_res_http_end
  | s_res_first_status_code | s_res_status_code | s_res_status_start | s_res_status
  | s_res_line_almost_done
  | s_start_req
  | s_req_method | s_req_spaces_before_url
  | s_req_schema | s_req_schema_slash | s_req_schema_slash_slash
  | s_req_server_start | s_req_server | s_req_server_with_at
  | s_req_path | s_req_query_string_start | s_req_query_string
  | s_req_fragment_start | s_req_fragment
  | s_req_http_start | s_req_http_H | s_req_http_HT | s_req_http_HTT | s_req_http_HTTP
  | s_req_http_major | s_req_http_dot | s_req_http_minor | s_req_http_end
  | s_req_line_almost_done
  | s_header_field_start | s_header_field
  | s_header_value_discard_ws | s_header_value_discard_ws_almost_done
  | s_header_value_discard_lws | s_header_value_start | s_header_value | s_header_value_lws
  | s_header_almost_done
  | s_chunk_size_start | s_chunk_size | s_chunk_parameters | s_chunk_size_almost_done
  | s_headers_almost_done | s_headers_done
  | s_chunk_data | s_chunk_data_almost_done | s_chunk_data_done
  | s_body_identity | s_body_identity_eof
  | s_message_done

text \<open>
  The header states are those up to \<open>s_headers_done\<close> in the order of the enumeration;
  the six behind it are the body states.
\<close>

definition PARSING_HEADER :: "pstate \<Rightarrow> bool" where
  "PARSING_HEADER s \<longleftrightarrow>
     s \<notin> {s_chunk_data, s_chunk_data_almost_done, s_chunk_data_done,
           s_body_identity, s_body_identity_eof, s_message_done}"

datatype header_states =
    h_general | h_C | h_CO | h_CON
  | h_matching_connection | h_matching_proxy_connection | h_matching_content_length
  | h_matching_transfer_encoding | h_matching_upgrade
  | h_connection | h_content_length | h_content_length_num | h_content_length_ws
  | h_transfer_encoding | h_upgrade
  | h_matching_transfer_encoding_chunked | h_matching_connection_token_start
  | h_matching_connection_keep_alive | h_matching_connection_close
  | h_matching_connection_upgrade | h_matching_connection_token
  | h_transfer_encoding_chunked | h_connection_keep_alive | h_connection_close
  | h_connection_upgrade

datatype http_method =
    HTTP_DELETE | HTTP_GET | HTTP_HEAD | HTTP_POST | HTTP_PUT | HTTP_CONNECT | HTTP_OPTIONS
  | HTTP_TRACE | HTTP_COPY | HTTP_LOCK | HTTP_MKCOL | HTTP_MOVE | HTTP_PROPFIND
  | HTTP_PROPPATCH | HTTP_SEARCH | HTTP_UNLOCK | HTTP_BIND | HTTP_REBIND | HTTP_UNBIND
  | HTTP_ACL | HTTP_REPORT | HTTP_MKACTIVITY | HTTP_CHECKOUT | HTTP_MERGE | HTTP_MSEARCH
  | HTTP_NOTIFY | HTTP_SUBSCRIBE | HTTP_UNSUBSCRIBE | HTTP_PATCH | HTTP_PURGE
  | HTTP_MKCALENDAR | HTTP_LINK | HTTP_UNLINK | HTTP_SOURCE

text \<open>\<^verbatim>\<open>method_strings\<close>, as a function of the method.\<close>

primrec http_method_str :: "http_method \<Rightarrow> string" where
  "http_method_str HTTP_DELETE = ''DELETE''"
| "http_method_str HTTP_GET = ''GET''"
| "http_method_str HTTP_HEAD = ''HEAD''"
| "http_method_str HTTP_POST = ''POST''"
| "http_method_str HTTP_PUT = ''PUT''"
| "http_method_str HTTP_CONNECT = ''CONNECT''"
| "http_method_str HTTP_OPTIONS = ''OPTIONS''"
| "http_method_str HTTP_TRACE = ''TRACE''"
| "http_method_str HTTP_COPY = ''COPY''"
| "http_method_str HTTP_LOCK = ''LOCK''"
| "http_method_str HTTP_MKCOL = ''MKCOL''"
| "http_method_str HTTP_MOVE = ''MOVE''"
| "http_method_str HTTP_PROPFIND = ''PROPFIND''"
| "http_method_str HTTP_PROPPATCH = ''PROPPATCH''"
| "http_method_str HTTP_SEARCH = ''SEARCH''"
| "http_method_str HTTP_UNLOCK = ''UNLOCK''"
| "http_method_str HTTP_BIND = ''BIND''"
| "http_method_str HTTP_REBIND = ''REBIND''"
| "http_method_str HTTP_UNBIND = ''UNBIND''"
| "http_method_str HTTP_ACL = ''ACL''"
| "http_method_str HTTP_REPORT = ''REPORT''"
| "http_method_str HTTP_MKACTIVITY = ''MKACTIVITY''"
| "http_method_str HTTP_CHECKOUT = ''CHECKOUT''"
| "http_method_str HTTP_MERGE = ''MERGE''"
| "http_method_str HTTP_MSEARCH = ''M-SEARCH''"
| "http_method_str HTTP_NOTIFY = ''NOTIFY''"
| "http_method_str HTTP_SUBSCRIBE = ''SUBSCRIBE''"
| "http_method_str HTTP_UNSUBSCRIBE = ''UNSUBSCRIBE''"
| "http_method_str HTTP_PATCH = ''PATCH''"
| "http_method_str HTTP_PURGE = ''PURGE''"
| "http_method_str HTTP_MKCALENDAR = ''MKCALENDAR''"
| "http_method_str HTTP_LINK = ''LINK''"
| "http_method_str HTTP_UNLINK = ''UNLINK''"
| "http_method_str HTTP_SOURCE = ''SOURCE''"

datatype http_parser_type = HTTP_REQUEST | HTTP_RESPONSE | HTTP_BOTH

datatype http_errno =
    HPE_OK
  | HPE_CB_message_begin | HPE_CB_url | HPE_CB_header_field | HPE_CB_header_value
  | HPE_CB_headers_complete | HPE_CB_body | HPE_CB_message_complete | HPE_CB_status
  | HPE_CB_chunk_header | HPE_CB_chunk_complete
  | HPE_INVALID_EOF_STATE | HPE_HEADER_OVERFLOW | HPE_CLOSED_CONNECTION | HPE_INVALID_VERSION
  | HPE_INVALID_STATUS | HPE_INVALID_METHOD | HPE_INVALID_URL | HPE_INVALID_HOST
  | HPE_INVALID_PORT | HPE_INVALID_PATH | HPE_INVALID_QUERY_STRING | HPE_INVALID_FRAGMENT
  | HPE_LF_EXPECTED | HPE_INVALID_HEADER_TOKEN | HPE_INVALID_CONTENT_LENGTH
  | HPE_UNEXPECTED_CONTENT_LENGTH | HPE_INVALID_CHUNK_SIZE | HPE_INVALID_CONSTANT
  | HPE_INVALID_INTERNAL_STATE | HPE_STRICT | HPE_PAUSED | HPE_UNKNOWN

definition F_CHUNKED :: u8 where "F_CHUNKED = push_bit 0 1"
definition F_CONNECTION_KEEP_ALIVE :: u8 where "F_CONNECTION_KEEP_ALIVE = push_bit 1 1"
definition F_CONNECTION_CLOSE :: u8 where "F_CONNECTION_CLOSE = push_bit 2 1"
definition F_CONNECTION_UPGRADE :: u8 where "F_CONNECTION_UPGRADE = push_bit 3 1"
definition F_TRAILING :: u8 where "F_TRAILING = push_bit 4 1"
definition F_UPGRADE :: u8 where "F_UPGRADE = push_bit 5 1"
definition F_SKIPBODY :: u8 where "F_SKIPBODY = push_bit 6 1"
definition F_CONTENTLENGTH :: u8 where "F_CONTENTLENGTH = push_bit 7 1"

lemmas flag_defs = F_CHUNKED_def F_CONNECTION_KEEP_ALIVE_def F_CONNECTION_CLOSE_def
  F_CONNECTION_UPGRADE_def F_TRAILING_def F_UPGRADE_def F_SKIPBODY_def F_CONTENTLENGTH_def

section \<open>The parser structure\<close>

text \<open>
  The public \<^verbatim>\<open>data\<close> pointer is the state of the callbacks, kept beside the parser.
\<close>

record http_parser =
  ptype :: http_parser_type
  flags :: u8
  state :: pstate
  header_state :: header_states
  index :: "7 word"
  lenient_http_headers :: bool
  nread :: u32
  content_length :: u64
  http_major :: u16
  http_minor :: u16
  status_code :: u16
  hmethod :: http_method
  http_errno :: http_errno
  upgrade :: bool

definition HTTP_MAX_HEADER_SIZE :: nat where "HTTP_MAX_HEADER_SIZE = 80 * 1024"
definition ULLONG_MAX :: u64 where "ULLONG_MAX = - 1"

definition flag_set :: "http_parser \<Rightarrow> u8 \<Rightarrow> bool" where
  "flag_set q f \<longleftrightarrow> flags q AND f \<noteq> 0"

definition add_flag :: "u8 \<Rightarrow> http_parser \<Rightarrow> http_parser" where
  "add_flag f q = q\<lparr>flags := flags q OR f\<rparr>"

definition http_parser_init :: "http_parser_type \<Rightarrow> http_parser" where
  "http_parser_init t =
     \<lparr>ptype = t, flags = 0,
      state = (if t = HTTP_REQUEST then s_start_req
               else if t = HTTP_RESPONSE then s_start_res else s_start_req_or_res),
      header_state = h_general, index = 0, lenient_http_headers = False, nread = 0,
      content_length = 0, http_major = 0, http_minor = 0, status_code = 0,
      hmethod = HTTP_DELETE, http_errno = HPE_OK, upgrade = False\<rparr>"

text \<open>None is the failed assertion of pausing a parser that is in error.\<close>

definition http_parser_pause :: "http_parser \<Rightarrow> bool \<Rightarrow> http_parser option" where
  "http_parser_pause q paused =
     (if http_errno q = HPE_OK \<or> http_errno q = HPE_PAUSED
      then Some (q\<lparr>http_errno := (if paused then HPE_PAUSED else HPE_OK)\<rparr>)
      else None)"

definition http_body_is_final :: "http_parser \<Rightarrow> bool" where
  "http_body_is_final q \<longleftrightarrow> state q = s_message_done"

definition http_parser_version :: u64 where
  "http_parser_version = (2 * 0x10000) OR (8 * 0x00100) OR (1 * 0x00001)"

definition http_message_needs_eof :: "http_parser \<Rightarrow> bool" where
  "http_message_needs_eof q =
     (if ptype q = HTTP_REQUEST then False
      else if status_code q div 100 = 1 \<or> status_code q = 204 \<or> status_code q = 304
              \<or> flag_set q F_SKIPBODY then False
      else if flag_set q F_CHUNKED \<or> content_length q \<noteq> ULLONG_MAX then False
      else True)"

definition http_should_keep_alive :: "http_parser \<Rightarrow> bool" where
  "http_should_keep_alive q =
     (if http_major q > 0 \<and> http_minor q > 0 then
        (if flag_set q F_CONNECTION_CLOSE then False else \<not> http_message_needs_eof q)
      else
        (if \<not> flag_set q F_CONNECTION_KEEP_ALIVE then False else \<not> http_message_needs_eof q))"

definition start_state :: "http_parser \<Rightarrow> pstate" where
  "start_state q = (if ptype q = HTTP_REQUEST then s_start_req else s_start_res)"

definition NEW_MESSAGE :: "http_parser \<Rightarrow> pstate" where
  "NEW_MESSAGE q = (if http_should_keep_alive q then start_state q else s_dead)"

section \<open>Characters\<close>

abbreviation NUL :: char where "NUL \<equiv> CHR 0x00"
abbreviation TAB :: char where "TAB \<equiv> CHR 0x09"
abbreviation LF :: char where "LF \<equiv> CHR 0x0A"
abbreviation FF :: char where "FF \<equiv> CHR 0x0C"
abbreviation CR :: char where "CR \<equiv> CHR 0x0D"
abbreviation SP :: char where "SP \<equiv> CHR '' ''"

abbreviation ord :: "char \<Rightarrow> nat" where "ord c \<equiv> of_char c"

text \<open>Reading a C string literal, the terminator included.\<close>

definition cstr_at :: "string \<Rightarrow> nat \<Rightarrow> char" where
  "cstr_at s i = (if i < length s then s ! i else NUL)"

text \<open>The 256 entries of \<^verbatim>\<open>tokens\<close>; those not written out in the code are 0.\<close>

definition tokens_table :: string where
  "tokens_table =
     replicate 33 NUL @ ''!'' @ [NUL] @ ''#$%&'' @ [CHR 0x27] @ [NUL, NUL] @ ''*+'' @ [NUL] @ ''-.'' @ [NUL] @
     ''0123456789'' @ replicate 7 NUL @ ''abcdefghijklmnopqrstuvwxyz'' @ replicate 3 NUL @
     ''^_'' @ [CHR 0x60] @ ''abcdefghijklmnopqrstuvwxyz'' @ [NUL] @ ''|'' @ [NUL] @ ''~'' @ [NUL] @
     replicate 128 NUL"

definition TOKEN :: "char \<Rightarrow> char" where
  "TOKEN c = tokens_table ! ord c"

text \<open>
  \<^verbatim>\<open>unhex\<close> has 256 entries of which the code writes out 128; C sets the others to 0,
  not to -1.
\<close>

definition unhex_table :: "int list" where
  "unhex_table =
     replicate 48 (-1) @ [0, 1, 2, 3, 4, 5, 6, 7, 8, 9] @ replicate 7 (-1) @
     [10, 11, 12, 13, 14, 15] @ replicate 26 (-1) @ [10, 11, 12, 13, 14, 15] @
     replicate 25 (-1) @ replicate 128 0"

definition unhex :: "char \<Rightarrow> int" where
  "unhex c = unhex_table ! ord c"

definition normal_url_char :: "nat list" where
  "normal_url_char =
     [0, 0, 0, 0, 246, 255, 255, 127, 255, 255, 255, 255, 255, 255, 255, 127] @ replicate 16 0"

definition BIT_AT :: "nat list \<Rightarrow> nat \<Rightarrow> bool" where
  "BIT_AT a i = bit (a ! (i div 8)) (i mod 8)"

primrec LOWER :: "char \<Rightarrow> char" where
  "LOWER (Char b0 b1 b2 b3 b4 b5 b6 b7) = Char b0 b1 b2 b3 b4 True b6 b7"

definition IS_ALPHA :: "char \<Rightarrow> bool" where
  "IS_ALPHA c \<longleftrightarrow> ord (LOWER c) \<ge> ord (CHR ''a'') \<and> ord (LOWER c) \<le> ord (CHR ''z'')"

definition IS_NUM :: "char \<Rightarrow> bool" where
  "IS_NUM c \<longleftrightarrow> ord c \<ge> ord (CHR ''0'') \<and> ord c \<le> ord (CHR ''9'')"

definition IS_ALPHANUM :: "char \<Rightarrow> bool" where
  "IS_ALPHANUM c \<longleftrightarrow> IS_ALPHA c \<or> IS_NUM c"

definition IS_HEX :: "char \<Rightarrow> bool" where
  "IS_HEX c \<longleftrightarrow> IS_NUM c \<or> (ord (LOWER c) \<ge> ord (CHR ''a'') \<and> ord (LOWER c) \<le> ord (CHR ''f''))"

definition IS_MARK :: "char \<Rightarrow> bool" where
  "IS_MARK c \<longleftrightarrow> c \<in> set ''-_.!~*()'' \<or> c = CHR 0x27"

definition IS_USERINFO_CHAR :: "char \<Rightarrow> bool" where
  "IS_USERINFO_CHAR c \<longleftrightarrow> IS_ALPHANUM c \<or> IS_MARK c \<or> c \<in> set ''%;:&=+$,''"

definition IS_URL_CHAR :: "char \<Rightarrow> bool" where
  "IS_URL_CHAR c \<longleftrightarrow> BIT_AT normal_url_char (ord c)"

definition IS_HOST_CHAR :: "char \<Rightarrow> bool" where
  "IS_HOST_CHAR c \<longleftrightarrow> IS_ALPHANUM c \<or> c = CHR ''.'' \<or> c = CHR ''-''"

definition IS_HEADER_CHAR :: "char \<Rightarrow> bool" where
  "IS_HEADER_CHAR c \<longleftrightarrow> c = CR \<or> c = LF \<or> c = TAB \<or> (ord c > 31 \<and> ord c \<noteq> 127)"

lemmas char_class_defs = IS_ALPHA_def IS_NUM_def IS_ALPHANUM_def IS_HEX_def IS_MARK_def
  IS_USERINFO_CHAR_def IS_URL_CHAR_def IS_HOST_CHAR_def IS_HEADER_CHAR_def

section \<open>What the tables hold\<close>

text \<open>Over all 256 bytes: the token characters, their lower case, and the hexadecimal digits.\<close>

lemma TOKEN_NUL_iff:
  "TOKEN c = NUL \<longleftrightarrow>
     ord c \<le> 32 \<or> ord c \<ge> 127 \<or> ord c \<in> {34, 92} \<or> c \<in> set ''()<>@,;:/[]?={}''"
proof -
  have "\<forall>c. TOKEN c = NUL \<longleftrightarrow>
     ord c \<le> 32 \<or> ord c \<ge> 127 \<or> ord c \<in> {34, 92} \<or> c \<in> set ''()<>@,;:/[]?={}''"
    by code_simp
  then show ?thesis by blast
qed

lemma unhex_range: "- 1 \<le> unhex c \<and> unhex c \<le> 15"
proof -
  have "\<forall>c. - 1 \<le> unhex c \<and> unhex c \<le> 15" by code_simp
  then show ?thesis by blast
qed

lemma unhex_invalid_iff: "unhex c = - 1 \<longleftrightarrow> ord c < 128 \<and> \<not> IS_HEX c"
proof -
  have "\<forall>c. unhex c = - 1 \<longleftrightarrow> ord c < 128 \<and> \<not> IS_HEX c" by code_simp
  then show ?thesis by blast
qed

end
