(* ===== verification/Http_Url.thy ===== *)
theory Http_Url
  imports Http_Types
begin

text \<open>
  The URL parser of \<^verbatim>\<open>http_parser.c\<close>: the character automaton that
  \<^verbatim>\<open>http_parser_execute\<close> uses too, the host automaton, and
  \<^verbatim>\<open>http_parser_parse_url\<close> with its 16-bit offsets and lengths.
\<close>

section \<open>The URL automaton\<close>

definition parse_url_server :: "char \<Rightarrow> pstate" where
  "parse_url_server ch =
     (if ch = CHR ''/'' then s_req_path
      else if ch = CHR ''?'' then s_req_query_string_start
      else if ch = CHR ''@'' then s_req_server_with_at
      else if IS_USERINFO_CHAR ch \<or> ch = CHR ''['' \<or> ch = CHR '']'' then s_req_server
      else s_dead)"

definition parse_url_char :: "pstate \<Rightarrow> char \<Rightarrow> pstate" where
  "parse_url_char s ch =
     (if ch = SP \<or> ch = CR \<or> ch = LF then s_dead
      else if ch = TAB \<or> ch = FF then s_dead
      else if s = s_req_spaces_before_url then
        (if ch = CHR ''/'' \<or> ch = CHR ''*'' then s_req_path
         else if IS_ALPHA ch then s_req_schema else s_dead)
      else if s = s_req_schema then
        (if IS_ALPHA ch then s
         else if ch = CHR '':'' then s_req_schema_slash else s_dead)
      else if s = s_req_schema_slash then
        (if ch = CHR ''/'' then s_req_schema_slash_slash else s_dead)
      else if s = s_req_schema_slash_slash then
        (if ch = CHR ''/'' then s_req_server_start else s_dead)
      else if s = s_req_server_with_at then
        (if ch = CHR ''@'' then s_dead else parse_url_server ch)
      else if s = s_req_server_start \<or> s = s_req_server then parse_url_server ch
      else if s = s_req_path then
        (if IS_URL_CHAR ch then s
         else if ch = CHR ''?'' then s_req_query_string_start
         else if ch = CHR ''#'' then s_req_fragment_start else s_dead)
      else if s = s_req_query_string_start \<or> s = s_req_query_string then
        (if IS_URL_CHAR ch then s_req_query_string
         else if ch = CHR ''?'' then s_req_query_string
         else if ch = CHR ''#'' then s_req_fragment_start else s_dead)
      else if s = s_req_fragment_start then
        (if IS_URL_CHAR ch then s_req_fragment
         else if ch = CHR ''?'' then s_req_fragment
         else if ch = CHR ''#'' then s else s_dead)
      else if s = s_req_fragment then
        (if IS_URL_CHAR ch then s
         else if ch = CHR ''?'' \<or> ch = CHR ''#'' then s else s_dead)
      else s_dead)"

text \<open>The states a URL is read in, once its first character is read.\<close>

definition url_state :: "pstate \<Rightarrow> bool" where
  "url_state s \<longleftrightarrow>
     s \<in> {s_req_schema, s_req_schema_slash, s_req_schema_slash_slash, s_req_server_start,
           s_req_server, s_req_server_with_at, s_req_path, s_req_query_string_start,
           s_req_query_string, s_req_fragment_start, s_req_fragment}"

definition url_result :: "pstate \<Rightarrow> bool" where
  "url_result s \<longleftrightarrow> s = s_dead \<or> url_state s"

lemma url_result_if: "(b \<Longrightarrow> url_result s) \<Longrightarrow> (\<not> b \<Longrightarrow> url_result t) \<Longrightarrow> url_result (if b then s else t)"
  by simp

lemma parse_url_char_range: "parse_url_char s ch = s_dead \<or> url_state (parse_url_char s ch)"
proof -
  have server: "url_result (parse_url_server c)" for c
    unfolding parse_url_server_def by (intro url_result_if; simp add: url_result_def url_state_def)
  have "url_result (parse_url_char s ch)"
    unfolding parse_url_char_def
    by (intro url_result_if server; simp add: url_result_def url_state_def)
  then show ?thesis by (simp add: url_result_def)
qed

section \<open>The host automaton\<close>

datatype http_host_state =
    s_http_host_dead
  | s_http_userinfo_start | s_http_userinfo
  | s_http_host_start | s_http_host_v6_start | s_http_host | s_http_host_v6 | s_http_host_v6_end
  | s_http_host_v6_zone_start | s_http_host_v6_zone
  | s_http_host_port_start | s_http_host_port

definition http_parse_host_char :: "http_host_state \<Rightarrow> char \<Rightarrow> http_host_state" where
  "http_parse_host_char s ch =
     (if s = s_http_userinfo \<or> s = s_http_userinfo_start then
        (if ch = CHR ''@'' then s_http_host_start
         else if IS_USERINFO_CHAR ch then s_http_userinfo else s_http_host_dead)
      else if s = s_http_host_start then
        (if ch = CHR ''['' then s_http_host_v6_start
         else if IS_HOST_CHAR ch then s_http_host else s_http_host_dead)
      else if s = s_http_host \<and> IS_HOST_CHAR ch then s_http_host
      else if s = s_http_host \<or> s = s_http_host_v6_end then
        (if ch = CHR '':'' then s_http_host_port_start else s_http_host_dead)
      else if s = s_http_host_v6 \<and> ch = CHR '']'' then s_http_host_v6_end
      else if s = s_http_host_v6 \<or> s = s_http_host_v6_start then
        (if IS_HEX ch \<or> ch = CHR '':'' \<or> ch = CHR ''.'' then s_http_host_v6
         else if s = s_http_host_v6 \<and> ch = CHR ''%'' then s_http_host_v6_zone_start
         else s_http_host_dead)
      else if s = s_http_host_v6_zone \<and> ch = CHR '']'' then s_http_host_v6_end
      else if s = s_http_host_v6_zone \<or> s = s_http_host_v6_zone_start then
        (if IS_ALPHANUM ch \<or> ch \<in> set ''%.-_~'' then s_http_host_v6_zone else s_http_host_dead)
      else if s = s_http_host_port \<or> s = s_http_host_port_start then
        (if IS_NUM ch then s_http_host_port else s_http_host_dead)
      else s_http_host_dead)"

section \<open>The URL structure\<close>

datatype url_field = UF_SCHEMA | UF_HOST | UF_PORT | UF_PATH | UF_QUERY | UF_FRAGMENT | UF_USERINFO | UF_MAX

primrec uf_num :: "url_field \<Rightarrow> nat" where
  "uf_num UF_SCHEMA = 0" | "uf_num UF_HOST = 1" | "uf_num UF_PORT = 2" | "uf_num UF_PATH = 3"
| "uf_num UF_QUERY = 4" | "uf_num UF_FRAGMENT = 5" | "uf_num UF_USERINFO = 6" | "uf_num UF_MAX = 7"

record http_parser_url =
  field_set :: u16
  port :: u16
  field_off :: "url_field \<Rightarrow> u16"
  field_len :: "url_field \<Rightarrow> u16"

definition http_parser_url_init :: http_parser_url where
  "http_parser_url_init = \<lparr>field_set = 0, port = 0, field_off = (\<lambda>_. 0), field_len = (\<lambda>_. 0)\<rparr>"

definition uf_bit :: "url_field \<Rightarrow> u16" where
  "uf_bit f = push_bit (uf_num f) 1"

definition has_field :: "http_parser_url \<Rightarrow> url_field \<Rightarrow> bool" where
  "has_field u f \<longleftrightarrow> field_set u AND uf_bit f \<noteq> 0"

definition set_off :: "url_field \<Rightarrow> nat \<Rightarrow> http_parser_url \<Rightarrow> http_parser_url" where
  "set_off f p u = u\<lparr>field_off := (field_off u)(f := of_nat p)\<rparr>"

definition set_len :: "url_field \<Rightarrow> u16 \<Rightarrow> http_parser_url \<Rightarrow> http_parser_url" where
  "set_len f n u = u\<lparr>field_len := (field_len u)(f := n)\<rparr>"

definition inc_len :: "url_field \<Rightarrow> http_parser_url \<Rightarrow> http_parser_url" where
  "inc_len f u = set_len f (field_len u f + 1) u"

definition set_field :: "url_field \<Rightarrow> http_parser_url \<Rightarrow> http_parser_url" where
  "set_field f u = u\<lparr>field_set := field_set u OR uf_bit f\<rparr>"

section \<open>Parsing a host\<close>

text \<open>The second switch of \<^verbatim>\<open>http_parse_host\<close>: what the new state does to the fields.\<close>

definition host_field :: "http_host_state \<Rightarrow> http_host_state \<Rightarrow> nat \<Rightarrow> http_parser_url \<Rightarrow> http_parser_url" where
  "host_field s new_s p u =
     (if new_s = s_http_host then
        inc_len UF_HOST (if s \<noteq> s_http_host then set_off UF_HOST p u else u)
      else if new_s = s_http_host_v6 then
        inc_len UF_HOST (if s \<noteq> s_http_host_v6 then set_off UF_HOST p u else u)
      else if new_s = s_http_host_v6_zone_start \<or> new_s = s_http_host_v6_zone then inc_len UF_HOST u
      else if new_s = s_http_host_port then
        inc_len UF_PORT
          (if s \<noteq> s_http_host_port then set_field UF_PORT (set_len UF_PORT 0 (set_off UF_PORT p u)) else u)
      else if new_s = s_http_userinfo then
        inc_len UF_USERINFO
          (if s \<noteq> s_http_userinfo
           then set_field UF_USERINFO (set_len UF_USERINFO 0 (set_off UF_USERINFO p u)) else u)
      else u)"

text \<open>
  The loop from offset \<open>p\<close> to \<open>stop\<close>: None is a read outside the buffer, and the state is
  \<open>s_http_host_dead\<close> where the code returns 1 from inside it.
\<close>

function host_loop ::
  "string \<Rightarrow> nat \<Rightarrow> nat \<Rightarrow> http_host_state \<Rightarrow> http_parser_url \<Rightarrow> (http_host_state \<times> http_parser_url) option" where
  "host_loop buf stop p s u =
     (if stop \<le> p then Some (s, u)
      else if length buf \<le> p then None
      else
        let new_s = http_parse_host_char s (buf ! p)
        in if new_s = s_http_host_dead then Some (new_s, u)
           else host_loop buf stop (p + 1) new_s (host_field s new_s p u))"
  by auto
termination by (relation "measure (\<lambda>(buf, stop, p, s, u). stop - p)") auto

declare host_loop.simps [simp del]

definition host_end_ok :: "http_host_state \<Rightarrow> bool" where
  "host_end_ok s \<longleftrightarrow>
     s \<notin> {s_http_host_dead, s_http_host_start, s_http_host_v6_start, s_http_host_v6,
           s_http_host_v6_zone_start, s_http_host_v6_zone, s_http_host_port_start,
           s_http_userinfo, s_http_userinfo_start}"

text \<open>The Boolean is True where the code returns 0.\<close>

definition http_parse_host :: "string \<Rightarrow> http_parser_url \<Rightarrow> bool \<Rightarrow> (bool \<times> http_parser_url) option" where
  "http_parse_host buf u found_at =
     (if \<not> has_field u UF_HOST then None
      else
        let off = unat (field_off u UF_HOST); stop = off + unat (field_len u UF_HOST)
        in map_option (\<lambda>(s, u1). (host_end_ok s, u1))
             (host_loop buf stop off (if found_at then s_http_userinfo_start else s_http_host_start)
               (set_len UF_HOST 0 u)))"

section \<open>Parsing a URL\<close>

text \<open>
  The switch on the new state: the field a character belongs to, None for a delimiter. The
  outer option is the failed assertion on an unexpected state.
\<close>

definition url_field_of :: "pstate \<Rightarrow> url_field option option" where
  "url_field_of s =
     (if s \<in> {s_req_schema_slash, s_req_schema_slash_slash, s_req_server_start,
              s_req_query_string_start, s_req_fragment_start} then Some None
      else if s = s_req_schema then Some (Some UF_SCHEMA)
      else if s = s_req_server_with_at \<or> s = s_req_server then Some (Some UF_HOST)
      else if s = s_req_path then Some (Some UF_PATH)
      else if s = s_req_query_string then Some (Some UF_QUERY)
      else if s = s_req_fragment then Some (Some UF_FRAGMENT)
      else None)"

definition url_field_step :: "url_field \<Rightarrow> url_field \<Rightarrow> nat \<Rightarrow> http_parser_url \<Rightarrow> http_parser_url" where
  "url_field_step uf old_uf p u =
     (if uf = old_uf then inc_len uf u else set_field uf (set_len uf 1 (set_off uf p u)))"

datatype url_scan = Scanned http_parser_url bool | Rejected http_parser_url | Unexpected

fun url_loop :: "string \<Rightarrow> nat \<Rightarrow> pstate \<Rightarrow> url_field \<Rightarrow> bool \<Rightarrow> http_parser_url \<Rightarrow> url_scan" where
  "url_loop [] p s old_uf found_at u = Scanned u found_at"
| "url_loop (ch # buf) p s old_uf found_at u =
     (let s1 = parse_url_char s ch
      in if s1 = s_dead then Rejected u
         else case url_field_of s1 of
             None \<Rightarrow> Unexpected
           | Some None \<Rightarrow> url_loop buf (p + 1) s1 old_uf found_at u
           | Some (Some uf) \<Rightarrow>
               url_loop buf (p + 1) s1 uf (found_at \<or> s1 = s_req_server_with_at)
                 (url_field_step uf old_uf p u))"

text \<open>\<^verbatim>\<open>char\<close> is signed: a byte from 128 on is a negative number.\<close>

definition schar :: "char \<Rightarrow> int" where
  "schar ch = (if ord ch < 128 then int (ord ch) else int (ord ch) - 256)"

fun port_loop :: "string \<Rightarrow> u64 \<Rightarrow> u64 option" where
  "port_loop [] v = Some v"
| "port_loop (ch # ds) v =
     (let v1 = v * 10 + of_int (schar ch - schar CHR ''0'')
      in if v1 > 0xffff then None else port_loop ds v1)"

definition url_port :: "string \<Rightarrow> http_parser_url \<Rightarrow> (bool \<times> http_parser_url) option" where
  "url_port buf u =
     (if has_field u UF_PORT then
        let off = unat (field_off u UF_PORT); len = unat (field_len u UF_PORT)
        in if length buf < off + len then None
           else (case port_loop (take len (drop off buf)) 0 of
                   None \<Rightarrow> Some (False, u)
                 | Some v \<Rightarrow> Some (True, u\<lparr>port := ucast v\<rparr>))
      else Some (True, u))"

definition http_parser_parse_url ::
  "string \<Rightarrow> bool \<Rightarrow> http_parser_url \<Rightarrow> (bool \<times> http_parser_url) option" where
  "http_parser_parse_url buf is_connect u =
     (let u0 = u\<lparr>port := 0, field_set := 0\<rparr>;
          s = (if is_connect then s_req_server_start else s_req_spaces_before_url);
          connect_and_port = (\<lambda>u1.
            if is_connect \<and> field_set u1 \<noteq> uf_bit UF_HOST OR uf_bit UF_PORT then Some (False, u1)
            else url_port buf u1)
      in case url_loop buf 0 s UF_MAX False u0 of
           Unexpected \<Rightarrow> None
         | Rejected u1 \<Rightarrow> Some (False, u1)
         | Scanned u1 found_at \<Rightarrow>
             if has_field u1 UF_SCHEMA \<and> \<not> has_field u1 UF_HOST then Some (False, u1)
             else if has_field u1 UF_HOST then
               (case http_parse_host buf u1 found_at of
                  None \<Rightarrow> None
                | Some (ok, u2) \<Rightarrow> if \<not> ok then Some (False, u2) else connect_and_port u2)
             else connect_and_port u1)"

end
