(* ===== verification/Http_Exec.thy ===== *)
theory Http_Exec
  imports Http_Url
begin

text \<open>
  The machinery of \<^verbatim>\<open>http_parser_execute\<close>: its local variables, its macros and the
  way one case of its switch ends. The cases follow in \<open>Http_Start\<close>,
  \<open>Http_Header\<close> and \<open>Http_Body\<close>, the loop in \<open>Http_Loop\<close>.

  A callback reads the parser and may change the user's state, return an error code and pause
  the parser with \<^verbatim>\<open>http_parser_pause\<close>; it cannot write the fields the header file
  declares private or read-only. Positions are offsets from \<^verbatim>\<open>data\<close>.
\<close>

section \<open>Callbacks and local variables\<close>

text \<open>
  An error code, whether the parser was paused, and the user's state. A data callback gets the
  offset of its bytes in the buffer, for the pointer the code passes, and the bytes themselves.
\<close>

type_synonym 'u http_cb = "http_parser \<Rightarrow> 'u \<Rightarrow> int \<times> bool \<times> 'u"
type_synonym 'u http_data_cb = "nat \<Rightarrow> string \<Rightarrow> 'u http_cb"

record 'u http_parser_settings =
  on_message_begin :: "'u http_cb option"
  on_url :: "'u http_data_cb option"
  on_status :: "'u http_data_cb option"
  on_header_field :: "'u http_data_cb option"
  on_header_value :: "'u http_data_cb option"
  on_headers_complete :: "'u http_cb option"
  on_body :: "'u http_data_cb option"
  on_message_complete :: "'u http_cb option"
  on_chunk_header :: "'u http_cb option"
  on_chunk_complete :: "'u http_cb option"

definition http_parser_settings_init :: "'u http_parser_settings" where
  "http_parser_settings_init =
     \<lparr>on_message_begin = None, on_url = None, on_status = None, on_header_field = None,
      on_header_value = None, on_headers_complete = None, on_body = None,
      on_message_complete = None, on_chunk_header = None, on_chunk_complete = None\<rparr>"

text \<open>The name \<^verbatim>\<open>FOR\<close> of the callback macros.\<close>

datatype data_cb = CB_header_field | CB_header_value | CB_url | CB_body | CB_status
datatype notify_cb = CB_message_begin | CB_message_complete | CB_chunk_header | CB_chunk_complete

primrec data_handler :: "'u http_parser_settings \<Rightarrow> data_cb \<Rightarrow> 'u http_data_cb option" where
  "data_handler S CB_header_field = on_header_field S"
| "data_handler S CB_header_value = on_header_value S"
| "data_handler S CB_url = on_url S"
| "data_handler S CB_body = on_body S"
| "data_handler S CB_status = on_status S"

primrec data_errno :: "data_cb \<Rightarrow> http_errno" where
  "data_errno CB_header_field = HPE_CB_header_field"
| "data_errno CB_header_value = HPE_CB_header_value"
| "data_errno CB_url = HPE_CB_url"
| "data_errno CB_body = HPE_CB_body"
| "data_errno CB_status = HPE_CB_status"

primrec notify_handler :: "'u http_parser_settings \<Rightarrow> notify_cb \<Rightarrow> 'u http_cb option" where
  "notify_handler S CB_message_begin = on_message_begin S"
| "notify_handler S CB_message_complete = on_message_complete S"
| "notify_handler S CB_chunk_header = on_chunk_header S"
| "notify_handler S CB_chunk_complete = on_chunk_complete S"

primrec notify_errno :: "notify_cb \<Rightarrow> http_errno" where
  "notify_errno CB_message_begin = HPE_CB_message_begin"
| "notify_errno CB_message_complete = HPE_CB_message_complete"
| "notify_errno CB_chunk_header = HPE_CB_chunk_header"
| "notify_errno CB_chunk_complete = HPE_CB_chunk_complete"

text \<open>
  The locals: \<open>cur\<close> is \<^verbatim>\<open>p_state\<close>, \<open>pos\<close> is \<^verbatim>\<open>p - data\<close>,
  \<open>chr\<close> is \<^verbatim>\<open>ch\<close>, \<open>marks\<close> holds the five \<^verbatim>\<open>_mark\<close> pointers.
\<close>

record 'u cfg =
  hp :: http_parser
  usr :: 'u
  cur :: pstate
  pos :: nat
  chr :: char
  marks :: "data_cb \<Rightarrow> nat option"

text \<open>
  How a case ends: \<open>Next\<close> leaves the switch (the loop goes on at \<open>pos + 1\<close>),
  \<open>Again\<close> is \<^verbatim>\<open>REEXECUTE\<close>, \<open>Err\<close> is \<^verbatim>\<open>goto error\<close>, \<open>Ret\<close>
  returns, and \<open>Abort\<close> is a failed assertion or a read outside the buffer.
\<close>

datatype 'u res = Next "'u cfg" | Again "'u cfg" | Err "'u cfg" | Ret nat "'u cfg" | Abort

section \<open>Macros\<close>

definition upd :: "(http_parser \<Rightarrow> http_parser) \<Rightarrow> 'u cfg \<Rightarrow> 'u cfg" where
  "upd f c = c\<lparr>hp := f (hp c)\<rparr>"

definition SET_ERRNO :: "http_errno \<Rightarrow> 'u cfg \<Rightarrow> 'u cfg" where
  "SET_ERRNO e = upd (\<lambda>q. q\<lparr>http_errno := e\<rparr>)"

definition UPDATE_STATE :: "pstate \<Rightarrow> 'u cfg \<Rightarrow> 'u cfg" where
  "UPDATE_STATE s c = c\<lparr>cur := s\<rparr>"

definition set_header_state :: "header_states \<Rightarrow> 'u cfg \<Rightarrow> 'u cfg" where
  "set_header_state h = upd (\<lambda>q. q\<lparr>header_state := h\<rparr>)"

definition save_state :: "'u cfg \<Rightarrow> 'u cfg" where
  "save_state c = upd (\<lambda>q. q\<lparr>state := cur c\<rparr>) c"

definition RETURN :: "nat \<Rightarrow> 'u cfg \<Rightarrow> 'u res" where
  "RETURN n c = Ret n (save_state c)"

definition fail :: "http_errno \<Rightarrow> 'u cfg \<Rightarrow> 'u res" where
  "fail e c = Err (SET_ERRNO e c)"

definition STRICT_CHECK :: "bool \<Rightarrow> 'u cfg \<Rightarrow> ('u cfg \<Rightarrow> 'u res) \<Rightarrow> 'u res" where
  "STRICT_CHECK cond c k = (if cond then fail HPE_STRICT c else k c)"

definition COUNT_HEADER_SIZE :: "nat \<Rightarrow> 'u cfg \<Rightarrow> ('u cfg \<Rightarrow> 'u res) \<Rightarrow> 'u res" where
  "COUNT_HEADER_SIZE v c k =
     (let c1 = upd (\<lambda>q. q\<lparr>nread := nread q + of_nat v\<rparr>) c
      in if unat (nread (hp c1)) > HTTP_MAX_HEADER_SIZE then fail HPE_HEADER_OVERFLOW c1 else k c1)"

definition MARK :: "data_cb \<Rightarrow> 'u cfg \<Rightarrow> 'u cfg" where
  "MARK m c = (if marks c m = None then c\<lparr>marks := (marks c)(m := Some (pos c))\<rparr> else c)"

definition clear_mark :: "data_cb \<Rightarrow> 'u cfg \<Rightarrow> 'u cfg" where
  "clear_mark m c = c\<lparr>marks := (marks c)(m := None)\<rparr>"

text \<open>
  The part the two callback macros share: save the state, run the callback, note its error,
  read the state back.
\<close>

definition run_callback :: "'u http_cb \<Rightarrow> http_errno \<Rightarrow> 'u cfg \<Rightarrow> 'u cfg" where
  "run_callback f e c =
     (let c1 = save_state c;
          (r, paused, u) = f (hp c1) (usr c1);
          q1 = (if paused then (case http_parser_pause (hp c1) True of Some q \<Rightarrow> q | None \<Rightarrow> hp c1)
                else hp c1);
          q2 = (if r \<noteq> 0 then q1\<lparr>http_errno := e\<rparr> else q1)
      in c1\<lparr>hp := q2, usr := u, cur := state q2\<rparr>)"

definition CALLBACK_NOTIFY_ER ::
  "'u http_parser_settings \<Rightarrow> notify_cb \<Rightarrow> nat \<Rightarrow> 'u cfg \<Rightarrow> ('u cfg \<Rightarrow> 'u res) \<Rightarrow> 'u res" where
  "CALLBACK_NOTIFY_ER S n er c k =
     (if http_errno (hp c) \<noteq> HPE_OK then Abort
      else case notify_handler S n of
          None \<Rightarrow> k c
        | Some f \<Rightarrow>
            let c1 = run_callback f (notify_errno n) c
            in if http_errno (hp c1) \<noteq> HPE_OK then Ret er c1 else k c1)"

definition CALLBACK_NOTIFY ::
  "'u http_parser_settings \<Rightarrow> notify_cb \<Rightarrow> 'u cfg \<Rightarrow> ('u cfg \<Rightarrow> 'u res) \<Rightarrow> 'u res" where
  "CALLBACK_NOTIFY S n c = CALLBACK_NOTIFY_ER S n (pos c + 1) c"

definition CALLBACK_NOTIFY_NOADVANCE ::
  "'u http_parser_settings \<Rightarrow> notify_cb \<Rightarrow> 'u cfg \<Rightarrow> ('u cfg \<Rightarrow> 'u res) \<Rightarrow> 'u res" where
  "CALLBACK_NOTIFY_NOADVANCE S n c = CALLBACK_NOTIFY_ER S n (pos c) c"

text \<open>
  \<open>stop\<close> is the mark plus \<^verbatim>\<open>LEN\<close>; handing out bytes outside the buffer is Abort.
\<close>

definition CALLBACK_DATA_LEN ::
  "'u http_parser_settings \<Rightarrow> string \<Rightarrow> data_cb \<Rightarrow> nat \<Rightarrow> nat \<Rightarrow> 'u cfg \<Rightarrow> ('u cfg \<Rightarrow> 'u res) \<Rightarrow> 'u res" where
  "CALLBACK_DATA_LEN S data m stop er c k =
     (if http_errno (hp c) \<noteq> HPE_OK then Abort
      else case marks c m of
          None \<Rightarrow> k c
        | Some at \<Rightarrow>
            (case data_handler S m of
               None \<Rightarrow> k (clear_mark m c)
             | Some f \<Rightarrow>
                 if stop < at \<or> length data < stop then Abort
                 else
                   let c1 = run_callback (f at (take (stop - at) (drop at data))) (data_errno m) c
                   in if http_errno (hp c1) \<noteq> HPE_OK then Ret er c1 else k (clear_mark m c1)))"

definition CALLBACK_DATA ::
  "'u http_parser_settings \<Rightarrow> string \<Rightarrow> data_cb \<Rightarrow> 'u cfg \<Rightarrow> ('u cfg \<Rightarrow> 'u res) \<Rightarrow> 'u res" where
  "CALLBACK_DATA S data m c = CALLBACK_DATA_LEN S data m (pos c) (pos c + 1) c"

definition CALLBACK_DATA_NOADVANCE ::
  "'u http_parser_settings \<Rightarrow> string \<Rightarrow> data_cb \<Rightarrow> 'u cfg \<Rightarrow> ('u cfg \<Rightarrow> 'u res) \<Rightarrow> 'u res" where
  "CALLBACK_DATA_NOADVANCE S data m c = CALLBACK_DATA_LEN S data m (pos c) (pos c) c"

definition ASSERT :: "bool \<Rightarrow> 'u res \<Rightarrow> 'u res" where
  "ASSERT b r = (if b then r else Abort)"

text \<open>\<^verbatim>\<open>ch - '0'\<close> of a digit.\<close>

definition digit :: "char \<Rightarrow> nat" where
  "digit ch = ord ch - ord CHR ''0''"

lemmas macro_defs = upd_def SET_ERRNO_def UPDATE_STATE_def set_header_state_def save_state_def
  RETURN_def fail_def STRICT_CHECK_def COUNT_HEADER_SIZE_def MARK_def clear_mark_def
  run_callback_def CALLBACK_NOTIFY_ER_def CALLBACK_NOTIFY_def CALLBACK_NOTIFY_NOADVANCE_def
  CALLBACK_DATA_LEN_def CALLBACK_DATA_def CALLBACK_DATA_NOADVANCE_def ASSERT_def

text \<open>The number a string of digits stands for, read after the number \<open>n\<close>.\<close>

definition decimal :: "nat \<Rightarrow> string \<Rightarrow> nat" where
  "decimal n ds = foldl (\<lambda>n ch. 10 * n + digit ch) n ds"

lemma decimal_simps [simp]:
  "decimal n [] = n" "decimal n (ch # ds) = decimal (10 * n + digit ch) ds"
  by (simp_all add: decimal_def)

lemma decimal_ge: "n \<le> decimal n ds"
proof (induction ds arbitrary: n)
  case (Cons ch ds)
  have "n \<le> 10 * n + digit ch" by simp
  also have "\<dots> \<le> decimal n (ch # ds)" using Cons.IH [of "10 * n + digit ch"] by simp
  finally show ?case .
qed simp

lemma digit_le: "IS_NUM ch \<Longrightarrow> digit ch \<le> 9"
  by (auto simp: IS_NUM_def digit_def)

end
