(* ===== verification/Http_Start.thy ===== *)
theory Http_Start
  imports Http_Exec
begin

text \<open>
  The cases of the switch for the start of a message: the response's status line, the request's
  method, URL and version. One definition per case or group of cases that share their code.
\<close>

section \<open>Start and response line\<close>

definition case_dead :: "'u cfg \<Rightarrow> 'u res" where
  "case_dead c =
     (if chr c = CR \<or> chr c = LF then Next c else fail HPE_CLOSED_CONNECTION c)"

definition reset_message :: "http_parser \<Rightarrow> http_parser" where
  "reset_message q = q\<lparr>flags := 0, content_length := ULLONG_MAX\<rparr>"

definition case_start_req_or_res :: "'u http_parser_settings \<Rightarrow> 'u cfg \<Rightarrow> 'u res" where
  "case_start_req_or_res S c =
     (if chr c = CR \<or> chr c = LF then Next c
      else
        let c1 = upd reset_message c
        in if chr c = CHR ''H''
           then CALLBACK_NOTIFY S CB_message_begin (UPDATE_STATE s_res_or_resp_H c1) Next
           else Again (UPDATE_STATE s_start_req (upd (\<lambda>q. q\<lparr>ptype := HTTP_REQUEST\<rparr>) c1)))"

definition case_res_or_resp_H :: "'u cfg \<Rightarrow> 'u res" where
  "case_res_or_resp_H c =
     (if chr c = CHR ''T'' then Next (UPDATE_STATE s_res_HT (upd (\<lambda>q. q\<lparr>ptype := HTTP_RESPONSE\<rparr>) c))
      else if chr c \<noteq> CHR ''E'' then fail HPE_INVALID_CONSTANT c
      else Next (UPDATE_STATE s_req_method
             (upd (\<lambda>q. q\<lparr>ptype := HTTP_REQUEST, hmethod := HTTP_HEAD, index := 2\<rparr>) c)))"

definition case_start_res :: "'u http_parser_settings \<Rightarrow> 'u cfg \<Rightarrow> 'u res" where
  "case_start_res S c =
     (let c1 = upd reset_message c
      in if chr c = CHR ''H'' then CALLBACK_NOTIFY S CB_message_begin (UPDATE_STATE s_res_H c1) Next
         else if chr c = CR \<or> chr c = LF then CALLBACK_NOTIFY S CB_message_begin c1 Next
         else fail HPE_INVALID_CONSTANT c1)"

text \<open>The cases that check one letter of \<^verbatim>\<open>HTTP/\<close>, in a request and in a response.\<close>

definition case_expect :: "char \<Rightarrow> pstate \<Rightarrow> 'u cfg \<Rightarrow> 'u res" where
  "case_expect ch s c = STRICT_CHECK (chr c \<noteq> ch) c (\<lambda>c. Next (UPDATE_STATE s c))"

definition case_http_major :: "pstate \<Rightarrow> 'u cfg \<Rightarrow> 'u res" where
  "case_http_major s c =
     (if \<not> IS_NUM (chr c) then fail HPE_INVALID_VERSION c
      else Next (UPDATE_STATE s (upd (\<lambda>q. q\<lparr>http_major := of_nat (digit (chr c))\<rparr>) c)))"

definition case_http_dot :: "pstate \<Rightarrow> 'u cfg \<Rightarrow> 'u res" where
  "case_http_dot s c =
     (if chr c \<noteq> CHR ''.'' then fail HPE_INVALID_VERSION c else Next (UPDATE_STATE s c))"

definition case_http_minor :: "pstate \<Rightarrow> 'u cfg \<Rightarrow> 'u res" where
  "case_http_minor s c =
     (if \<not> IS_NUM (chr c) then fail HPE_INVALID_VERSION c
      else Next (UPDATE_STATE s (upd (\<lambda>q. q\<lparr>http_minor := of_nat (digit (chr c))\<rparr>) c)))"

definition case_res_http_end :: "'u cfg \<Rightarrow> 'u res" where
  "case_res_http_end c =
     (if chr c \<noteq> SP then fail HPE_INVALID_VERSION c else Next (UPDATE_STATE s_res_first_status_code c))"

definition case_res_first_status_code :: "'u cfg \<Rightarrow> 'u res" where
  "case_res_first_status_code c =
     (if \<not> IS_NUM (chr c) then
        (if chr c = SP then Next c else fail HPE_INVALID_STATUS c)
      else Next (UPDATE_STATE s_res_status_code
             (upd (\<lambda>q. q\<lparr>status_code := of_nat (digit (chr c))\<rparr>) c)))"

definition case_res_status_code :: "'u cfg \<Rightarrow> 'u res" where
  "case_res_status_code c =
     (if \<not> IS_NUM (chr c) then
        (if chr c = SP then Next (UPDATE_STATE s_res_status_start c)
         else if chr c = CR \<or> chr c = LF then Again (UPDATE_STATE s_res_status_start c)
         else fail HPE_INVALID_STATUS c)
      else
        let c1 = upd (\<lambda>q. q\<lparr>status_code := status_code q * 10 + of_nat (digit (chr c))\<rparr>) c
        in if status_code (hp c1) > 999 then fail HPE_INVALID_STATUS c1 else Next c1)"

definition case_res_status_start :: "'u cfg \<Rightarrow> 'u res" where
  "case_res_status_start c =
     (let c1 = upd (\<lambda>q. q\<lparr>index := 0\<rparr>) (UPDATE_STATE s_res_status (MARK CB_status c))
      in if chr c = CR \<or> chr c = LF then Again c1 else Next c1)"

definition case_res_status :: "'u http_parser_settings \<Rightarrow> string \<Rightarrow> 'u cfg \<Rightarrow> 'u res" where
  "case_res_status S data c =
     (if chr c = CR then CALLBACK_DATA S data CB_status (UPDATE_STATE s_res_line_almost_done c) Next
      else if chr c = LF then CALLBACK_DATA S data CB_status (UPDATE_STATE s_header_field_start c) Next
      else Next c)"

section \<open>Request line\<close>

definition method_of_first :: "char \<Rightarrow> http_method option" where
  "method_of_first ch = map_of
     [(CHR ''A'', HTTP_ACL), (CHR ''B'', HTTP_BIND), (CHR ''C'', HTTP_CONNECT),
      (CHR ''D'', HTTP_DELETE), (CHR ''G'', HTTP_GET), (CHR ''H'', HTTP_HEAD),
      (CHR ''L'', HTTP_LOCK), (CHR ''M'', HTTP_MKCOL), (CHR ''N'', HTTP_NOTIFY),
      (CHR ''O'', HTTP_OPTIONS), (CHR ''P'', HTTP_POST), (CHR ''R'', HTTP_REPORT),
      (CHR ''S'', HTTP_SUBSCRIBE), (CHR ''T'', HTTP_TRACE), (CHR ''U'', HTTP_UNLOCK)] ch"

definition case_start_req :: "'u http_parser_settings \<Rightarrow> 'u cfg \<Rightarrow> 'u res" where
  "case_start_req S c =
     (if chr c = CR \<or> chr c = LF then Next c
      else
        let c1 = upd reset_message c
        in if \<not> IS_ALPHA (chr c) then fail HPE_INVALID_METHOD c1
           else
             let c2 = upd (\<lambda>q. q\<lparr>hmethod := HTTP_DELETE, index := 1\<rparr>) c1
             in (case method_of_first (chr c) of
                   None \<Rightarrow> fail HPE_INVALID_METHOD c2
                 | Some m \<Rightarrow>
                     CALLBACK_NOTIFY S CB_message_begin
                       (UPDATE_STATE s_req_method (upd (\<lambda>q. q\<lparr>hmethod := m\<rparr>) c2)) Next))"

text \<open>
  The inner switch of \<^verbatim>\<open>s_req_method\<close>: the method read so far turns into another one
  at a letter where they part.
\<close>

definition method_switch :: "http_method \<Rightarrow> nat \<Rightarrow> char \<Rightarrow> http_method option" where
  "method_switch m i ch = map_of
     [((HTTP_POST, 1, CHR ''U''), HTTP_PUT), ((HTTP_POST, 1, CHR ''A''), HTTP_PATCH),
      ((HTTP_POST, 1, CHR ''R''), HTTP_PROPFIND), ((HTTP_PUT, 2, CHR ''R''), HTTP_PURGE),
      ((HTTP_CONNECT, 1, CHR ''H''), HTTP_CHECKOUT), ((HTTP_CONNECT, 2, CHR ''P''), HTTP_COPY),
      ((HTTP_MKCOL, 1, CHR ''O''), HTTP_MOVE), ((HTTP_MKCOL, 1, CHR ''E''), HTTP_MERGE),
      ((HTTP_MKCOL, 1, CHR ''-''), HTTP_MSEARCH), ((HTTP_MKCOL, 2, CHR ''A''), HTTP_MKACTIVITY),
      ((HTTP_MKCOL, 3, CHR ''A''), HTTP_MKCALENDAR), ((HTTP_SUBSCRIBE, 1, CHR ''E''), HTTP_SEARCH),
      ((HTTP_SUBSCRIBE, 1, CHR ''O''), HTTP_SOURCE), ((HTTP_REPORT, 2, CHR ''B''), HTTP_REBIND),
      ((HTTP_PROPFIND, 4, CHR ''P''), HTTP_PROPPATCH), ((HTTP_LOCK, 1, CHR ''I''), HTTP_LINK),
      ((HTTP_UNLOCK, 2, CHR ''S''), HTTP_UNSUBSCRIBE), ((HTTP_UNLOCK, 2, CHR ''B''), HTTP_UNBIND),
      ((HTTP_UNLOCK, 3, CHR ''I''), HTTP_UNLINK)] (m, i, ch)"

text \<open>An index behind the terminator of the method's string would be a read outside it.\<close>

definition case_req_method :: "'u cfg \<Rightarrow> 'u res" where
  "case_req_method c =
     (if chr c = NUL then fail HPE_INVALID_METHOD c
      else
        let m = hmethod (hp c); i = unat (index (hp c)); matcher = http_method_str m;
            inc = upd (\<lambda>q. q\<lparr>index := index q + 1\<rparr>)
        in ASSERT (i \<le> length matcher)
           (if chr c = SP \<and> cstr_at matcher i = NUL
            then Next (inc (UPDATE_STATE s_req_spaces_before_url c))
            else if chr c = cstr_at matcher i then Next (inc c)
            else if (ord (chr c) \<ge> ord CHR ''A'' \<and> ord (chr c) \<le> ord CHR ''Z'') \<or> chr c = CHR ''-'' then
              (case method_switch m i (chr c) of
                 None \<Rightarrow> fail HPE_INVALID_METHOD c
               | Some m' \<Rightarrow> Next (inc (upd (\<lambda>q. q\<lparr>hmethod := m'\<rparr>) c)))
            else fail HPE_INVALID_METHOD c))"

text \<open>The state after one URL character, or the error.\<close>

definition url_step :: "'u cfg \<Rightarrow> 'u res" where
  "url_step c =
     (let c1 = UPDATE_STATE (parse_url_char (cur c) (chr c)) c
      in if cur c1 = s_dead then fail HPE_INVALID_URL c1 else Next c1)"

definition case_req_spaces_before_url :: "'u cfg \<Rightarrow> 'u res" where
  "case_req_spaces_before_url c =
     (if chr c = SP then Next c
      else
        let c1 = MARK CB_url c;
            c2 = (if hmethod (hp c1) = HTTP_CONNECT then UPDATE_STATE s_req_server_start c1 else c1)
        in url_step c2)"

definition case_req_schema :: "'u cfg \<Rightarrow> 'u res" where
  "case_req_schema c =
     (if chr c = SP \<or> chr c = CR \<or> chr c = LF then fail HPE_INVALID_URL c else url_step c)"

definition case_req_url :: "'u http_parser_settings \<Rightarrow> string \<Rightarrow> 'u cfg \<Rightarrow> 'u res" where
  "case_req_url S data c =
     (if chr c = SP then CALLBACK_DATA S data CB_url (UPDATE_STATE s_req_http_start c) Next
      else if chr c = CR \<or> chr c = LF then
        CALLBACK_DATA S data CB_url
          (UPDATE_STATE (if chr c = CR then s_req_line_almost_done else s_header_field_start)
             (upd (\<lambda>q. q\<lparr>http_major := 0, http_minor := 9\<rparr>) c)) Next
      else url_step c)"

definition case_req_http_start :: "'u cfg \<Rightarrow> 'u res" where
  "case_req_http_start c =
     (if chr c = CHR ''H'' then Next (UPDATE_STATE s_req_http_H c)
      else if chr c = SP then Next c else fail HPE_INVALID_CONSTANT c)"

definition case_req_http_end :: "'u cfg \<Rightarrow> 'u res" where
  "case_req_http_end c =
     (if chr c = CR then Next (UPDATE_STATE s_req_line_almost_done c)
      else if chr c = LF then Next (UPDATE_STATE s_header_field_start c)
      else fail HPE_INVALID_VERSION c)"

definition case_req_line_almost_done :: "'u cfg \<Rightarrow> 'u res" where
  "case_req_line_almost_done c =
     (if chr c \<noteq> LF then fail HPE_LF_EXPECTED c else Next (UPDATE_STATE s_header_field_start c))"

end
