(* ===== verification/Http_Header.thy ===== *)
theory Http_Header
  imports Http_Exec
begin

text \<open>
  The cases of the switch for the header fields and their values, with the two inner loops over
  the bytes of a name and of a value.
\<close>

section \<open>Field names\<close>

definition field_start_state :: "char \<Rightarrow> header_states" where
  "field_start_state c =
     (if c = CHR ''c'' then h_C
      else if c = CHR ''p'' then h_matching_proxy_connection
      else if c = CHR ''t'' then h_matching_transfer_encoding
      else if c = CHR ''u'' then h_matching_upgrade
      else h_general)"

definition case_header_field_start :: "'u cfg \<Rightarrow> 'u res" where
  "case_header_field_start c =
     (if chr c = CR then Next (UPDATE_STATE s_headers_almost_done c)
      else if chr c = LF then Again (UPDATE_STATE s_headers_almost_done c)
      else
        let t = TOKEN (chr c)
        in if t = NUL then fail HPE_INVALID_HEADER_TOKEN c
           else Next (set_header_state (field_start_state t)
                  (UPDATE_STATE s_header_field (upd (\<lambda>q. q\<lparr>index := 0\<rparr>) (MARK CB_header_field c)))))"

text \<open>One more letter of a known name: \<open>done\<close> at its last letter.\<close>

definition match_name :: "string \<Rightarrow> header_states \<Rightarrow> char \<Rightarrow> http_parser \<Rightarrow> http_parser" where
  "match_name name done c q =
     (let q1 = q\<lparr>index := index q + 1\<rparr>; i = unat (index q1)
      in if i > length name \<or> c \<noteq> cstr_at name i then q1\<lparr>header_state := h_general\<rparr>
         else if i = length name - 1 then q1\<lparr>header_state := done\<rparr>
         else q1)"

definition match_prefix :: "bool \<Rightarrow> header_states \<Rightarrow> http_parser \<Rightarrow> http_parser" where
  "match_prefix ok next q = q\<lparr>index := index q + 1, header_state := (if ok then next else h_general)\<rparr>"

text \<open>The switch inside the loop over a name; None is its failed assertion.\<close>

definition hf_step :: "char \<Rightarrow> char \<Rightarrow> http_parser \<Rightarrow> http_parser option" where
  "hf_step ch c q =
     (case header_state q of
        h_general \<Rightarrow> Some q
      | h_C \<Rightarrow> Some (match_prefix (c = CHR ''o'') h_CO q)
      | h_CO \<Rightarrow> Some (match_prefix (c = CHR ''n'') h_CON q)
      | h_CON \<Rightarrow> Some (match_prefix (c = CHR ''n'' \<or> c = CHR ''t'')
                   (if c = CHR ''n'' then h_matching_connection else h_matching_content_length) q)
      | h_matching_connection \<Rightarrow> Some (match_name ''connection'' h_connection c q)
      | h_matching_proxy_connection \<Rightarrow> Some (match_name ''proxy-connection'' h_connection c q)
      | h_matching_content_length \<Rightarrow> Some (match_name ''content-length'' h_content_length c q)
      | h_matching_transfer_encoding \<Rightarrow> Some (match_name ''transfer-encoding'' h_transfer_encoding c q)
      | h_matching_upgrade \<Rightarrow> Some (match_name ''upgrade'' h_upgrade c q)
      | h_connection \<Rightarrow> Some (if ch \<noteq> SP then q\<lparr>header_state := h_general\<rparr> else q)
      | h_content_length \<Rightarrow> Some (if ch \<noteq> SP then q\<lparr>header_state := h_general\<rparr> else q)
      | h_transfer_encoding \<Rightarrow> Some (if ch \<noteq> SP then q\<lparr>header_state := h_general\<rparr> else q)
      | h_upgrade \<Rightarrow> Some (if ch \<noteq> SP then q\<lparr>header_state := h_general\<rparr> else q)
      | _ \<Rightarrow> None)"

function hf_loop :: "string \<Rightarrow> 'u cfg \<Rightarrow> 'u cfg option" where
  "hf_loop data c =
     (if length data \<le> pos c then Some c
      else
        let ch = data ! pos c; t = TOKEN ch
        in if t = NUL then Some (c\<lparr>chr := ch\<rparr>)
           else (case hf_step ch t (hp c) of
                   None \<Rightarrow> None
                 | Some q \<Rightarrow> hf_loop data (c\<lparr>chr := ch, hp := q, pos := pos c + 1\<rparr>)))"
  by auto
termination by (relation "measure (\<lambda>(data, c). length data - pos c)") auto

declare hf_loop.simps [simp del]

definition case_header_field :: "'u http_parser_settings \<Rightarrow> string \<Rightarrow> 'u cfg \<Rightarrow> 'u res" where
  "case_header_field S data c =
     (case hf_loop data c of
        None \<Rightarrow> Abort
      | Some c1 \<Rightarrow>
          COUNT_HEADER_SIZE (pos c1 - pos c) c1 (\<lambda>c2.
            if length data \<le> pos c2 then Next (c2\<lparr>pos := pos c2 - 1\<rparr>)
            else if chr c2 = CHR '':'' then
              CALLBACK_DATA S data CB_header_field (UPDATE_STATE s_header_value_discard_ws c2) Next
            else fail HPE_INVALID_HEADER_TOKEN c2))"

section \<open>Field values\<close>

definition case_header_value_start :: "'u cfg \<Rightarrow> 'u res" where
  "case_header_value_start c =
     (let c1 = upd (\<lambda>q. q\<lparr>index := 0\<rparr>) (UPDATE_STATE s_header_value (MARK CB_header_value c));
          l = LOWER (chr c)
      in case header_state (hp c) of
           h_upgrade \<Rightarrow> Next (set_header_state h_general (upd (add_flag F_UPGRADE) c1))
         | h_transfer_encoding \<Rightarrow>
             Next (set_header_state
               (if l = CHR ''c'' then h_matching_transfer_encoding_chunked else h_general) c1)
         | h_content_length \<Rightarrow>
             (if \<not> IS_NUM (chr c) then fail HPE_INVALID_CONTENT_LENGTH c1
              else if flag_set (hp c1) F_CONTENTLENGTH then fail HPE_UNEXPECTED_CONTENT_LENGTH c1
              else Next (set_header_state h_content_length_num
                     (upd (\<lambda>q. q\<lparr>content_length := of_nat (digit (chr c))\<rparr>)
                       (upd (add_flag F_CONTENTLENGTH) c1))))
         | h_connection \<Rightarrow>
             Next (set_header_state
               (if l = CHR ''k'' then h_matching_connection_keep_alive
                else if l = CHR ''c'' then h_matching_connection_close
                else if l = CHR ''u'' then h_matching_connection_upgrade
                else h_matching_connection_token) c1)
         | h_matching_connection_token_start \<Rightarrow> Next c1
         | _ \<Rightarrow> Next (set_header_state h_general c1))"

definition case_header_value_discard_ws :: "'u cfg \<Rightarrow> 'u res" where
  "case_header_value_discard_ws c =
     (if chr c = SP \<or> chr c = TAB then Next c
      else if chr c = CR then Next (UPDATE_STATE s_header_value_discard_ws_almost_done c)
      else if chr c = LF then Next (UPDATE_STATE s_header_value_discard_lws c)
      else case_header_value_start c)"

text \<open>\<^verbatim>\<open>memchr(data + p, ch, n)\<close>, as an offset.\<close>

fun c_memchr :: "string \<Rightarrow> nat \<Rightarrow> char \<Rightarrow> nat \<Rightarrow> nat option" where
  "c_memchr data p ch 0 = None"
| "c_memchr data p ch (Suc n) = (if data ! p = ch then Some p else c_memchr data (Suc p) ch n)"

text \<open>Where the skip over a general value stops: the first CR or LF, or the end.\<close>

definition skip_to :: "string \<Rightarrow> nat \<Rightarrow> nat" where
  "skip_to data p =
     (let limit = min (length data - p) HTTP_MAX_HEADER_SIZE
      in case (c_memchr data p CR limit, c_memchr data p LF limit) of
           (Some p_cr, Some p_lf) \<Rightarrow> if p_cr \<ge> p_lf then p_lf else p_cr
         | (Some p_cr, None) \<Rightarrow> p_cr
         | (None, Some p_lf) \<Rightarrow> p_lf
         | (None, None) \<Rightarrow> length data)"

definition match_value ::
  "string \<Rightarrow> header_states \<Rightarrow> header_states \<Rightarrow> char \<Rightarrow> header_states \<Rightarrow> 'u cfg \<Rightarrow> header_states \<times> 'u cfg" where
  "match_value name done miss l h c =
     (let c1 = upd (\<lambda>q. q\<lparr>index := index q + 1\<rparr>) c; i = unat (index (hp c1))
      in if i > length name \<or> l \<noteq> cstr_at name i then (miss, c1)
         else if i = length name - 1 then (done, c1)
         else (h, c1))"

definition length_digit :: "header_states \<Rightarrow> 'u cfg \<Rightarrow> (header_states \<times> 'u cfg) + 'u res" where
  "length_digit h c =
     (if chr c = SP then Inl (h_content_length_ws, c)
      else if \<not> IS_NUM (chr c) then
        Inr (fail HPE_INVALID_CONTENT_LENGTH (set_header_state h c))
      else
        let t = content_length (hp c) * 10 + of_nat (digit (chr c))
        in if (ULLONG_MAX - 10) div 10 < content_length (hp c)
           then Inr (fail HPE_INVALID_CONTENT_LENGTH (set_header_state h c))
           else Inl (h, upd (\<lambda>q. q\<lparr>content_length := t\<rparr>) c))"

definition connection_flag :: "header_states \<Rightarrow> http_parser \<Rightarrow> http_parser" where
  "connection_flag h =
     (if h = h_connection_keep_alive then add_flag F_CONNECTION_KEEP_ALIVE
      else if h = h_connection_close then add_flag F_CONNECTION_CLOSE
      else if h = h_connection_upgrade then add_flag F_CONNECTION_UPGRADE
      else id)"

definition connection_end ::
  "header_states \<Rightarrow> 'u cfg \<Rightarrow> header_states \<times> 'u cfg" where
  "connection_end h c =
     (if chr c = CHR '','' then
        (h_matching_connection_token_start,
         upd (\<lambda>q. q\<lparr>index := 0\<rparr>) (upd (connection_flag h) c))
      else if chr c \<noteq> SP then (h_matching_connection_token, c)
      else (h, c))"

text \<open>
  The switch inside the loop over a value: the new local header state and configuration, or the
  way out.
\<close>

definition hv_step :: "string \<Rightarrow> header_states \<Rightarrow> 'u cfg \<Rightarrow> (header_states \<times> 'u cfg) + 'u res" where
  "hv_step data h c =
     (let l = LOWER (chr c)
      in case h of
           h_general \<Rightarrow> Inl (h, c\<lparr>pos := skip_to data (pos c) - 1\<rparr>)
         | h_connection \<Rightarrow> Inr Abort
         | h_transfer_encoding \<Rightarrow> Inr Abort
         | h_content_length \<Rightarrow>
             (if chr c = SP then Inl (h, c) else length_digit h_content_length_num c)
         | h_content_length_num \<Rightarrow> length_digit h c
         | h_content_length_ws \<Rightarrow>
             (if chr c = SP then Inl (h, c)
              else Inr (fail HPE_INVALID_CONTENT_LENGTH (set_header_state h c)))
         | h_matching_transfer_encoding_chunked \<Rightarrow>
             Inl (match_value ''chunked'' h_transfer_encoding_chunked h_general l h c)
         | h_matching_connection_token_start \<Rightarrow>
             Inl (if l = CHR ''k'' then h_matching_connection_keep_alive
                  else if l = CHR ''c'' then h_matching_connection_close
                  else if l = CHR ''u'' then h_matching_connection_upgrade
                  else if TOKEN l \<noteq> NUL then h_matching_connection_token
                  else if l = SP \<or> l = TAB then h
                  else h_general, c)
         | h_matching_connection_keep_alive \<Rightarrow>
             Inl (match_value ''keep-alive'' h_connection_keep_alive h_matching_connection_token l h c)
         | h_matching_connection_close \<Rightarrow>
             Inl (match_value ''close'' h_connection_close h_matching_connection_token l h c)
         | h_matching_connection_upgrade \<Rightarrow>
             Inl (match_value ''upgrade'' h_connection_upgrade h_matching_connection_token l h c)
         | h_matching_connection_token \<Rightarrow>
             Inl (if chr c = CHR '','' then
                    (h_matching_connection_token_start, upd (\<lambda>q. q\<lparr>index := 0\<rparr>) c)
                  else (h, c))
         | h_transfer_encoding_chunked \<Rightarrow> Inl (if chr c \<noteq> SP then h_general else h, c)
         | h_connection_keep_alive \<Rightarrow> Inl (connection_end h c)
         | h_connection_close \<Rightarrow> Inl (connection_end h c)
         | h_connection_upgrade \<Rightarrow> Inl (connection_end h c)
         | _ \<Rightarrow> Inl (h_general, UPDATE_STATE s_header_value c))"

text \<open>Behind the loop: keep the local header state and count what was read.\<close>

definition hv_after :: "string \<Rightarrow> nat \<Rightarrow> header_states \<Rightarrow> 'u cfg \<Rightarrow> 'u res" where
  "hv_after data start h c =
     COUNT_HEADER_SIZE (pos c - start) (set_header_state h c) (\<lambda>c1.
       if length data \<le> pos c1 then Next (c1\<lparr>pos := pos c1 - 1\<rparr>) else Next c1)"

lemma c_memchr_Some: "c_memchr data p ch n = Some i \<Longrightarrow> p \<le> i \<and> i < p + n \<and> data ! i = ch"
  by (induction data p ch n rule: c_memchr.induct) (auto split: if_splits)

lemma skip_to_gt:
  assumes "p < length data" "data ! p \<noteq> CR" "data ! p \<noteq> LF"
  shows "p < skip_to data p" "skip_to data p \<le> length data"
proof -
  have "p < i \<and> i \<le> length data"
    if "c_memchr data p ch (min (length data - p) HTTP_MAX_HEADER_SIZE) = Some i" "ch = CR \<or> ch = LF" for i ch
    using c_memchr_Some [OF that(1)] that(2) assms by (cases "i = p") auto
  then have "p < skip_to data p \<and> skip_to data p \<le> length data"
    using assms(1) by (auto simp: skip_to_def Let_def split: option.splits)
  then show "p < skip_to data p" "skip_to data p \<le> length data" by auto
qed

lemma upd_pos [simp]: "pos (upd f c) = pos c" "pos (UPDATE_STATE s c) = pos c"
  "pos (set_header_state h c) = pos c"
  by (simp_all add: upd_def UPDATE_STATE_def set_header_state_def)

lemma hv_step_pos:
  assumes "hv_step data h c = Inl (h', c')" "pos c < length data" "data ! pos c \<noteq> CR" "data ! pos c \<noteq> LF"
  shows "pos c \<le> pos c' \<and> pos c' < length data"
  using assms skip_to_gt [OF assms(2-4)]
  by (cases h)
    (auto simp: hv_step_def Let_def match_value_def length_digit_def connection_end_def split: if_splits)

function hv_loop ::
  "'u http_parser_settings \<Rightarrow> string \<Rightarrow> bool \<Rightarrow> nat \<Rightarrow> header_states \<Rightarrow> 'u cfg \<Rightarrow> 'u res" where
  "hv_loop S data lenient start h c =
     (if length data \<le> pos c then hv_after data start h c
      else
        let ch = data ! pos c; c1 = c\<lparr>chr := ch\<rparr>
        in if ch = CR then
             CALLBACK_DATA S data CB_header_value
               (set_header_state h (UPDATE_STATE s_header_almost_done c1)) (hv_after data start h)
           else if ch = LF then
             COUNT_HEADER_SIZE (pos c - start) (UPDATE_STATE s_header_almost_done c1) (\<lambda>c2.
               CALLBACK_DATA_NOADVANCE S data CB_header_value (set_header_state h c2) Again)
           else if \<not> lenient \<and> \<not> IS_HEADER_CHAR ch then fail HPE_INVALID_HEADER_TOKEN c1
           else (case hv_step data h c1 of
                   Inr r \<Rightarrow> r
                 | Inl (h', c2) \<Rightarrow> hv_loop S data lenient start h' (c2\<lparr>pos := pos c2 + 1\<rparr>)))"
  by auto
termination
proof (relation "measure (\<lambda>(S, data, lenient, start, h, c). length data - pos c)", goal_cases)
  case (2 S data lenient start h c x xa x1 x1a x2)
  then show ?case using hv_step_pos [of data h "c\<lparr>chr := data ! pos c\<rparr>"] by force
qed simp

declare hv_loop.simps [simp del]

definition case_header_value :: "'u http_parser_settings \<Rightarrow> string \<Rightarrow> bool \<Rightarrow> 'u cfg \<Rightarrow> 'u res" where
  "case_header_value S data lenient c = hv_loop S data lenient (pos c) (header_state (hp c)) c"

definition case_header_almost_done :: "'u cfg \<Rightarrow> 'u res" where
  "case_header_almost_done c =
     (if chr c \<noteq> LF then fail HPE_LF_EXPECTED c else Next (UPDATE_STATE s_header_value_lws c))"

text \<open>What the value of a header that has been read in full says about the message.\<close>

definition finish_header :: "http_parser \<Rightarrow> http_parser" where
  "finish_header q =
     (case header_state q of
        h_connection_keep_alive \<Rightarrow> add_flag F_CONNECTION_KEEP_ALIVE q
      | h_connection_close \<Rightarrow> add_flag F_CONNECTION_CLOSE q
      | h_transfer_encoding_chunked \<Rightarrow> add_flag F_CHUNKED q
      | h_connection_upgrade \<Rightarrow> add_flag F_CONNECTION_UPGRADE q
      | _ \<Rightarrow> q)"

definition case_header_value_lws :: "'u cfg \<Rightarrow> 'u res" where
  "case_header_value_lws c =
     (if chr c = SP \<or> chr c = TAB then Again (UPDATE_STATE s_header_value_start c)
      else Again (UPDATE_STATE s_header_field_start (upd finish_header c)))"

definition case_header_value_discard_lws :: "'u http_parser_settings \<Rightarrow> string \<Rightarrow> 'u cfg \<Rightarrow> 'u res" where
  "case_header_value_discard_lws S data c =
     (if chr c = SP \<or> chr c = TAB then Next (UPDATE_STATE s_header_value_discard_ws c)
      else CALLBACK_DATA_NOADVANCE S data CB_header_value
             (UPDATE_STATE s_header_field_start (MARK CB_header_value (upd finish_header c))) Again)"

end
