(* ===== verification/Http_Body.thy ===== *)
theory Http_Body
  imports Http_Exec
begin

text \<open>
  The cases of the switch behind the headers: what kind of body follows, the body of a known
  length, the body up to the end of the stream, and the chunks.
\<close>

section \<open>End of the headers\<close>

definition decide_upgrade :: "http_parser \<Rightarrow> http_parser" where
  "decide_upgrade q =
     q\<lparr>upgrade :=
        (if flag_set q F_UPGRADE \<and> flag_set q F_CONNECTION_UPGRADE
         then ptype q = HTTP_REQUEST \<or> status_code q = 101
         else hmethod q = HTTP_CONNECT)\<rparr>"

text \<open>
  \<^verbatim>\<open>on_headers_complete\<close> is called without the callback macro: the parser it sees still
  holds the state saved last.
\<close>

definition headers_complete_tail :: "'u cfg \<Rightarrow> 'u res" where
  "headers_complete_tail c =
     (if http_errno (hp c) \<noteq> HPE_OK then RETURN (pos c) c else Again c)"

definition headers_complete :: "'u http_parser_settings \<Rightarrow> 'u cfg \<Rightarrow> 'u res" where
  "headers_complete S c =
     (case on_headers_complete S of
        None \<Rightarrow> headers_complete_tail c
      | Some f \<Rightarrow>
          let (r, paused, u) = f (hp c) (usr c);
              q = (if paused then (case http_parser_pause (hp c) True of Some q \<Rightarrow> q | None \<Rightarrow> hp c)
                   else hp c);
              c1 = c\<lparr>hp := q, usr := u\<rparr>
          in if r = 0 then headers_complete_tail c1
             else if r = 2 then
               headers_complete_tail (upd (add_flag F_SKIPBODY) (upd (\<lambda>q. q\<lparr>upgrade := True\<rparr>) c1))
             else if r = 1 then headers_complete_tail (upd (add_flag F_SKIPBODY) c1)
             else RETURN (pos c1) (SET_ERRNO HPE_CB_headers_complete c1))"

definition case_headers_almost_done :: "'u http_parser_settings \<Rightarrow> 'u cfg \<Rightarrow> 'u res" where
  "case_headers_almost_done S c =
     STRICT_CHECK (chr c \<noteq> LF) c (\<lambda>c.
       if flag_set (hp c) F_TRAILING then
         CALLBACK_NOTIFY_NOADVANCE S CB_chunk_complete (UPDATE_STATE s_message_done c) Again
       else if flag_set (hp c) F_CHUNKED \<and> flag_set (hp c) F_CONTENTLENGTH then
         fail HPE_UNEXPECTED_CONTENT_LENGTH c
       else headers_complete S (upd decide_upgrade (UPDATE_STATE s_headers_done c)))"

definition new_message :: "'u cfg \<Rightarrow> 'u cfg" where
  "new_message c = UPDATE_STATE (NEW_MESSAGE (hp c)) c"

definition has_body :: "http_parser \<Rightarrow> bool" where
  "has_body q \<longleftrightarrow> flag_set q F_CHUNKED \<or> (content_length q > 0 \<and> content_length q \<noteq> ULLONG_MAX)"

definition case_headers_done :: "'u http_parser_settings \<Rightarrow> 'u cfg \<Rightarrow> 'u res" where
  "case_headers_done S c =
     STRICT_CHECK (chr c \<noteq> LF) c (\<lambda>c.
       let c1 = upd (\<lambda>q. q\<lparr>nread := 0\<rparr>) c; q = hp c1
       in if upgrade q \<and> (hmethod q = HTTP_CONNECT \<or> flag_set q F_SKIPBODY \<or> \<not> has_body q) then
            CALLBACK_NOTIFY S CB_message_complete (new_message c1) (\<lambda>c2. RETURN (pos c2 + 1) c2)
          else if flag_set q F_SKIPBODY then
            CALLBACK_NOTIFY S CB_message_complete (new_message c1) Next
          else if flag_set q F_CHUNKED then Next (UPDATE_STATE s_chunk_size_start c1)
          else if content_length q = 0 then
            CALLBACK_NOTIFY S CB_message_complete (new_message c1) Next
          else if content_length q \<noteq> ULLONG_MAX then Next (UPDATE_STATE s_body_identity c1)
          else if \<not> http_message_needs_eof q then
            CALLBACK_NOTIFY S CB_message_complete (new_message c1) Next
          else Next (UPDATE_STATE s_body_identity_eof c1))"

section \<open>Bodies\<close>

text \<open>How many of the bytes at hand belong to the body or the chunk.\<close>

definition to_read :: "string \<Rightarrow> 'u cfg \<Rightarrow> nat" where
  "to_read data c = min (unat (content_length (hp c))) (length data - pos c)"

definition consume :: "string \<Rightarrow> 'u cfg \<Rightarrow> 'u cfg" where
  "consume data c =
     (let n = to_read data c; c1 = MARK CB_body c;
          c2 = upd (\<lambda>q. q\<lparr>content_length := content_length q - of_nat n\<rparr>) c1
      in c2\<lparr>pos := pos c2 + n - 1\<rparr>)"

definition case_body_identity :: "'u http_parser_settings \<Rightarrow> string \<Rightarrow> 'u cfg \<Rightarrow> 'u res" where
  "case_body_identity S data c =
     ASSERT (content_length (hp c) \<noteq> 0 \<and> content_length (hp c) \<noteq> ULLONG_MAX)
       (let c1 = consume data c
        in if content_length (hp c1) = 0 then
             CALLBACK_DATA_LEN S data CB_body (pos c1 + 1) (pos c1) (UPDATE_STATE s_message_done c1) Again
           else Next c1)"

definition case_body_identity_eof :: "string \<Rightarrow> 'u cfg \<Rightarrow> 'u res" where
  "case_body_identity_eof data c = Next ((MARK CB_body c)\<lparr>pos := length data - 1\<rparr>)"

definition case_message_done :: "'u http_parser_settings \<Rightarrow> 'u cfg \<Rightarrow> 'u res" where
  "case_message_done S c =
     CALLBACK_NOTIFY S CB_message_complete (new_message c) (\<lambda>c1.
       if upgrade (hp c1) then RETURN (pos c1 + 1) c1 else Next c1)"

section \<open>Chunks\<close>

definition case_chunk_size_start :: "'u cfg \<Rightarrow> 'u res" where
  "case_chunk_size_start c =
     ASSERT (nread (hp c) = 1) (ASSERT (flag_set (hp c) F_CHUNKED)
       (let v = unhex (chr c)
        in if v = - 1 then fail HPE_INVALID_CHUNK_SIZE c
           else Next (UPDATE_STATE s_chunk_size (upd (\<lambda>q. q\<lparr>content_length := of_int v\<rparr>) c))))"

definition case_chunk_size :: "'u cfg \<Rightarrow> 'u res" where
  "case_chunk_size c =
     ASSERT (flag_set (hp c) F_CHUNKED)
       (if chr c = CR then Next (UPDATE_STATE s_chunk_size_almost_done c)
        else
          let v = unhex (chr c)
          in if v = - 1 then
               (if chr c = CHR '';'' \<or> chr c = SP then Next (UPDATE_STATE s_chunk_parameters c)
                else fail HPE_INVALID_CHUNK_SIZE c)
             else
               let t = content_length (hp c) * 16 + of_int v
               in if (ULLONG_MAX - 16) div 16 < content_length (hp c)
                  then fail HPE_INVALID_CONTENT_LENGTH c
                  else Next (upd (\<lambda>q. q\<lparr>content_length := t\<rparr>) c))"

definition case_chunk_parameters :: "'u cfg \<Rightarrow> 'u res" where
  "case_chunk_parameters c =
     ASSERT (flag_set (hp c) F_CHUNKED)
       (if chr c = CR then Next (UPDATE_STATE s_chunk_size_almost_done c) else Next c)"

definition case_chunk_size_almost_done :: "'u http_parser_settings \<Rightarrow> 'u cfg \<Rightarrow> 'u res" where
  "case_chunk_size_almost_done S c =
     ASSERT (flag_set (hp c) F_CHUNKED)
       (STRICT_CHECK (chr c \<noteq> LF) c (\<lambda>c.
          let c1 = upd (\<lambda>q. q\<lparr>nread := 0\<rparr>) c;
              c2 = (if content_length (hp c1) = 0
                    then UPDATE_STATE s_header_field_start (upd (add_flag F_TRAILING) c1)
                    else UPDATE_STATE s_chunk_data c1)
          in CALLBACK_NOTIFY S CB_chunk_header c2 Next))"

definition case_chunk_data :: "string \<Rightarrow> 'u cfg \<Rightarrow> 'u res" where
  "case_chunk_data data c =
     ASSERT (flag_set (hp c) F_CHUNKED)
       (ASSERT (content_length (hp c) \<noteq> 0 \<and> content_length (hp c) \<noteq> ULLONG_MAX)
         (let c1 = consume data c
          in if content_length (hp c1) = 0 then Next (UPDATE_STATE s_chunk_data_almost_done c1)
             else Next c1))"

definition case_chunk_data_almost_done :: "'u http_parser_settings \<Rightarrow> string \<Rightarrow> 'u cfg \<Rightarrow> 'u res" where
  "case_chunk_data_almost_done S data c =
     ASSERT (flag_set (hp c) F_CHUNKED) (ASSERT (content_length (hp c) = 0)
       (STRICT_CHECK (chr c \<noteq> CR) c (\<lambda>c.
          CALLBACK_DATA S data CB_body (UPDATE_STATE s_chunk_data_done c) Next)))"

definition case_chunk_data_done :: "'u http_parser_settings \<Rightarrow> 'u cfg \<Rightarrow> 'u res" where
  "case_chunk_data_done S c =
     ASSERT (flag_set (hp c) F_CHUNKED)
       (STRICT_CHECK (chr c \<noteq> LF) c (\<lambda>c.
          CALLBACK_NOTIFY S CB_chunk_complete
            (UPDATE_STATE s_chunk_size_start (upd (\<lambda>q. q\<lparr>nread := 0\<rparr>) c)) Next))"

end
