(* ===== verification/Http_Switch.thy ===== *)
theory Http_Switch
  imports Http_Start Http_Header Http_Body
begin

text \<open>
  The switch of \<^verbatim>\<open>http_parser_execute\<close> over the state.
\<close>

definition http_switch :: "'u http_parser_settings \<Rightarrow> string \<Rightarrow> bool \<Rightarrow> 'u cfg \<Rightarrow> 'u res" where
  "http_switch S data lenient c =
     (case cur c of
        s_dead \<Rightarrow> case_dead c
      | s_start_req_or_res \<Rightarrow> case_start_req_or_res S c
      | s_res_or_resp_H \<Rightarrow> case_res_or_resp_H c
      | s_start_res \<Rightarrow> case_start_res S c
      | s_res_H \<Rightarrow> case_expect CHR ''T'' s_res_HT c
      | s_res_HT \<Rightarrow> case_expect CHR ''T'' s_res_HTT c
      | s_res_HTT \<Rightarrow> case_expect CHR ''P'' s_res_HTTP c
      | s_res_HTTP \<Rightarrow> case_expect CHR ''/'' s_res_http_major c
      | s_res_http_major \<Rightarrow> case_http_major s_res_http_dot c
      | s_res_http_dot \<Rightarrow> case_http_dot s_res_http_minor c
      | s_res_http_minor \<Rightarrow> case_http_minor s_res_http_end c
      | s_res_http_end \<Rightarrow> case_res_http_end c
      | s_res_first_status_code \<Rightarrow> case_res_first_status_code c
      | s_res_status_code \<Rightarrow> case_res_status_code c
      | s_res_status_start \<Rightarrow> case_res_status_start c
      | s_res_status \<Rightarrow> case_res_status S data c
      | s_res_line_almost_done \<Rightarrow> case_expect LF s_header_field_start c
      | s_start_req \<Rightarrow> case_start_req S c
      | s_req_method \<Rightarrow> case_req_method c
      | s_req_spaces_before_url \<Rightarrow> case_req_spaces_before_url c
      | s_req_schema \<Rightarrow> case_req_schema c
      | s_req_schema_slash \<Rightarrow> case_req_schema c
      | s_req_schema_slash_slash \<Rightarrow> case_req_schema c
      | s_req_server_start \<Rightarrow> case_req_schema c
      | s_req_server \<Rightarrow> case_req_url S data c
      | s_req_server_with_at \<Rightarrow> case_req_url S data c
      | s_req_path \<Rightarrow> case_req_url S data c
      | s_req_query_string_start \<Rightarrow> case_req_url S data c
      | s_req_query_string \<Rightarrow> case_req_url S data c
      | s_req_fragment_start \<Rightarrow> case_req_url S data c
      | s_req_fragment \<Rightarrow> case_req_url S data c
      | s_req_http_start \<Rightarrow> case_req_http_start c
      | s_req_http_H \<Rightarrow> case_expect CHR ''T'' s_req_http_HT c
      | s_req_http_HT \<Rightarrow> case_expect CHR ''T'' s_req_http_HTT c
      | s_req_http_HTT \<Rightarrow> case_expect CHR ''P'' s_req_http_HTTP c
      | s_req_http_HTTP \<Rightarrow> case_expect CHR ''/'' s_req_http_major c
      | s_req_http_major \<Rightarrow> case_http_major s_req_http_dot c
      | s_req_http_dot \<Rightarrow> case_http_dot s_req_http_minor c
      | s_req_http_minor \<Rightarrow> case_http_minor s_req_http_end c
      | s_req_http_end \<Rightarrow> case_req_http_end c
      | s_req_line_almost_done \<Rightarrow> case_req_line_almost_done c
      | s_header_field_start \<Rightarrow> case_header_field_start c
      | s_header_field \<Rightarrow> case_header_field S data c
      | s_header_value_discard_ws \<Rightarrow> case_header_value_discard_ws c
      | s_header_value_discard_ws_almost_done \<Rightarrow> case_expect LF s_header_value_discard_lws c
      | s_header_value_discard_lws \<Rightarrow> case_header_value_discard_lws S data c
      | s_header_value_start \<Rightarrow> case_header_value_start c
      | s_header_value \<Rightarrow> case_header_value S data lenient c
      | s_header_value_lws \<Rightarrow> case_header_value_lws c
      | s_header_almost_done \<Rightarrow> case_header_almost_done c
      | s_chunk_size_start \<Rightarrow> case_chunk_size_start c
      | s_chunk_size \<Rightarrow> case_chunk_size c
      | s_chunk_parameters \<Rightarrow> case_chunk_parameters c
      | s_chunk_size_almost_done \<Rightarrow> case_chunk_size_almost_done S c
      | s_headers_almost_done \<Rightarrow> case_headers_almost_done S c
      | s_headers_done \<Rightarrow> case_headers_done S c
      | s_chunk_data \<Rightarrow> case_chunk_data data c
      | s_chunk_data_almost_done \<Rightarrow> case_chunk_data_almost_done S data c
      | s_chunk_data_done \<Rightarrow> case_chunk_data_done S c
      | s_body_identity \<Rightarrow> case_body_identity S data c
      | s_body_identity_eof \<Rightarrow> case_body_identity_eof data c
      | s_message_done \<Rightarrow> case_message_done S c)"

end
