(* ===== verification/Http_Rules.thy ===== *)
theory Http_Rules
  imports Http_Switch
begin

text \<open>
  Proof rules for the macros: what a callback may change, and one rule per macro that reduces a
  property of the way a case ends to the property of its continuations.
\<close>

definition same_parser :: "http_parser \<Rightarrow> http_parser \<Rightarrow> bool" where
  "same_parser q q' \<longleftrightarrow> q'\<lparr>state := state q, http_errno := http_errno q\<rparr> = q"

lemma same_parserD:
  assumes "same_parser q q'"
  shows "ptype q' = ptype q" "flags q' = flags q" "header_state q' = header_state q"
    "index q' = index q" "lenient_http_headers q' = lenient_http_headers q" "nread q' = nread q"
    "content_length q' = content_length q" "http_major q' = http_major q"
    "http_minor q' = http_minor q" "status_code q' = status_code q" "hmethod q' = hmethod q"
    "upgrade q' = upgrade q"
proof -
  note eq = assms [unfolded same_parser_def, symmetric]
  show "ptype q' = ptype q" "flags q' = flags q" "header_state q' = header_state q"
    "index q' = index q" "lenient_http_headers q' = lenient_http_headers q" "nread q' = nread q"
    "content_length q' = content_length q" "http_major q' = http_major q"
    "http_minor q' = http_minor q" "status_code q' = status_code q" "hmethod q' = hmethod q"
    "upgrade q' = upgrade q"
    by (subst eq; simp)+
qed

text \<open>What a callback leaves as it was: all but the saved state, the error code and the user's state.\<close>

definition cb_step :: "'u cfg \<Rightarrow> 'u cfg \<Rightarrow> bool" where
  "cb_step c c' \<longleftrightarrow>
     cur c' = cur c \<and> pos c' = pos c \<and> chr c' = chr c \<and> marks c' = marks c \<and>
     ptype (hp c') = ptype (hp c) \<and> flags (hp c') = flags (hp c) \<and>
     header_state (hp c') = header_state (hp c) \<and> index (hp c') = index (hp c) \<and>
     lenient_http_headers (hp c') = lenient_http_headers (hp c) \<and> nread (hp c') = nread (hp c) \<and>
     content_length (hp c') = content_length (hp c) \<and> http_major (hp c') = http_major (hp c) \<and>
     http_minor (hp c') = http_minor (hp c) \<and> status_code (hp c') = status_code (hp c) \<and>
     hmethod (hp c') = hmethod (hp c) \<and> upgrade (hp c') = upgrade (hp c)"

lemma cb_step_refl [simp]: "cb_step c c"
  by (simp add: cb_step_def)

lemma run_callback_step: "cb_step c (run_callback f e c)" "state (hp (run_callback f e c)) = cur c"
proof -
  obtain r b u where f: "f (hp (save_state c)) (usr (save_state c)) = (r, b, u)" by (metis prod_cases3)
  have "same_parser (hp c) (hp (run_callback f e c))"
    using f by (auto simp: run_callback_def save_state_def upd_def http_parser_pause_def Let_def
        same_parser_def split: option.splits if_splits)
  moreover have st: "state (hp (run_callback f e c)) = cur c"
    using f by (auto simp: run_callback_def save_state_def upd_def http_parser_pause_def Let_def
        split: option.splits if_splits)
  moreover have "pos (run_callback f e c) = pos c" "chr (run_callback f e c) = chr c"
    "marks (run_callback f e c) = marks c" "cur (run_callback f e c) = state (hp (run_callback f e c))"
    using f by (simp_all add: run_callback_def save_state_def upd_def Let_def)
  ultimately show "cb_step c (run_callback f e c)" "state (hp (run_callback f e c)) = cur c"
    by (auto simp: cb_step_def dest: same_parserD)
qed

text \<open>Rules for the macros, for any property of the way a case ends.\<close>

lemma fail_rule: "Q (Err (SET_ERRNO e c)) \<Longrightarrow> Q (fail e c)"
  by (simp add: fail_def)

lemma RETURN_rule: "Q (Ret n (save_state c)) \<Longrightarrow> Q (RETURN n c)"
  by (simp add: RETURN_def)

lemma STRICT_CHECK_rule:
  "(cond \<Longrightarrow> Q (Err (SET_ERRNO HPE_STRICT c))) \<Longrightarrow> (\<not> cond \<Longrightarrow> Q (k c)) \<Longrightarrow> Q (STRICT_CHECK cond c k)"
  by (simp add: STRICT_CHECK_def fail_def)

lemma if_rule: "(b \<Longrightarrow> Q x) \<Longrightarrow> (\<not> b \<Longrightarrow> Q y) \<Longrightarrow> Q (if b then x else y)"
  by simp

lemma Let_rule: "Q (f x) \<Longrightarrow> Q (let y = x in f y)"
  by simp

lemma COUNT_HEADER_SIZE_rule:
  assumes "\<And>c1. c1 = upd (\<lambda>q. q\<lparr>nread := nread q + of_nat v\<rparr>) c \<Longrightarrow>
      HTTP_MAX_HEADER_SIZE < unat (nread (hp c1)) \<Longrightarrow> Q (Err (SET_ERRNO HPE_HEADER_OVERFLOW c1))"
    and "\<And>c1. c1 = upd (\<lambda>q. q\<lparr>nread := nread q + of_nat v\<rparr>) c \<Longrightarrow>
      unat (nread (hp c1)) \<le> HTTP_MAX_HEADER_SIZE \<Longrightarrow> Q (k c1)"
  shows "Q (COUNT_HEADER_SIZE v c k)"
  using assms by (simp add: COUNT_HEADER_SIZE_def fail_def Let_def)

lemma NOTIFY_rule:
  assumes "http_errno (hp c) \<noteq> HPE_OK \<Longrightarrow> Q Abort"
    and "\<And>c'. cb_step c c' \<Longrightarrow> http_errno (hp c') = HPE_OK \<Longrightarrow>
      state (hp c') = cur c \<or> c' = c \<Longrightarrow> Q (k c')"
    and "\<And>c'. cb_step c c' \<Longrightarrow> http_errno (hp c') \<noteq> HPE_OK \<Longrightarrow> state (hp c') = cur c \<Longrightarrow> Q (Ret er c')"
  shows "Q (CALLBACK_NOTIFY_ER S n er c k)"
  using assms run_callback_step [where c = c]
  by (auto simp: CALLBACK_NOTIFY_ER_def Let_def split: option.split)

lemma DATA_rule:
  assumes "http_errno (hp c) \<noteq> HPE_OK \<Longrightarrow> Q Abort"
    and "\<And>at. marks c m = Some at \<Longrightarrow> stop < at \<or> length data < stop \<Longrightarrow> Q Abort"
    and "\<And>c'. cb_step c c' \<Longrightarrow> http_errno (hp c') = HPE_OK \<Longrightarrow> Q (k (clear_mark m c'))"
    and "\<And>c'. cb_step c c' \<Longrightarrow> http_errno (hp c') \<noteq> HPE_OK \<Longrightarrow> state (hp c') = cur c \<Longrightarrow> Q (Ret er c')"
  shows "Q (CALLBACK_DATA_LEN S data m stop er c k)"
proof -
  have "Q (k c)" if "marks c m = None" "http_errno (hp c) = HPE_OK"
  proof -
    have "clear_mark m c = c" using that(1) by (cases c) (auto simp: clear_mark_def fun_eq_iff)
    then show ?thesis using assms(3) [of c] that by simp
  qed
  then show ?thesis
    using assms run_callback_step [where c = c]
    by (auto simp: CALLBACK_DATA_LEN_def Let_def split: option.split)
qed

lemma ASSERT_rule: "(\<not> b \<Longrightarrow> Q Abort) \<Longrightarrow> (b \<Longrightarrow> Q r) \<Longrightarrow> Q (ASSERT b r)"
  by (simp add: ASSERT_def)

lemma option_rule:
  "(x = None \<Longrightarrow> Q y) \<Longrightarrow> (\<And>z. x = Some z \<Longrightarrow> Q (f z)) \<Longrightarrow> Q (case x of None \<Rightarrow> y | Some z \<Rightarrow> f z)"
  by (cases x) auto

lemmas macro_rules = option_rule fail_rule RETURN_rule STRICT_CHECK_rule if_rule Let_rule COUNT_HEADER_SIZE_rule
  NOTIFY_rule DATA_rule ASSERT_rule


section \<open>Every case moves on\<close>

text \<open>
  The order in which \<^verbatim>\<open>REEXECUTE\<close> visits states: it always goes down.
\<close>

definition rank :: "pstate \<Rightarrow> nat" where
  "rank s =
     (if s = s_header_value_lws \<or> s = s_header_value_discard_lws then 4
      else if s = s_header_field_start then 3
      else if s = s_headers_almost_done \<or> s = s_res_status_code then 2
      else if s = s_start_req_or_res \<or> s = s_res_status_start \<or> s = s_header_value
        \<or> s = s_body_identity then 1
      else 0)"

definition progress :: "string \<Rightarrow> nat \<Rightarrow> nat \<Rightarrow> 'u res \<Rightarrow> bool" where
  "progress data p n r =
     (case r of Next c \<Rightarrow> p < length data \<longrightarrow> p \<le> pos c
      | Again c \<Rightarrow> (p < length data \<longrightarrow> p \<le> pos c \<and> pos c < length data) \<and> rank (cur c) < n
      | _ \<Rightarrow> True)"

lemmas progress_rules = macro_rules [where Q = "progress data p n" for data p n]

lemma progress_simps [simp]:
  "progress data p n (Next c) \<longleftrightarrow> (p < length data \<longrightarrow> p \<le> pos c)"
  "progress data p n (Again c) \<longleftrightarrow>
     (p < length data \<longrightarrow> p \<le> pos c \<and> pos c < length data) \<and> rank (cur c) < n"
  "progress data p n (Err c)" "progress data p n (Ret i c)" "progress data p n Abort"
  by (simp_all add: progress_def)

lemmas cfg_simps = upd_def UPDATE_STATE_def set_header_state_def save_state_def MARK_def clear_mark_def
  SET_ERRNO_def new_message_def

lemma progress_start:
  shows
    "progress data (pos c) 0 (case_dead c)"
    "progress data (pos c) 1 (case_start_req_or_res S c)"
    "progress data (pos c) 0 (case_res_or_resp_H c)"
    "progress data (pos c) 0 (case_start_res S c)"
    "progress data (pos c) 0 (case_expect ch s c)"
    "progress data (pos c) 0 (case_http_major s c)"
    "progress data (pos c) 0 (case_http_dot s c)"
    "progress data (pos c) 0 (case_http_minor s c)"
    "progress data (pos c) 0 (case_res_http_end c)"
    "progress data (pos c) 0 (case_res_first_status_code c)"
    "progress data (pos c) 2 (case_res_status_code c)"
    "progress data (pos c) 1 (case_res_status_start c)"
    "progress data (pos c) 0 (case_res_status S data c)"
  unfolding case_dead_def case_start_req_or_res_def case_res_or_resp_H_def case_start_res_def
    case_expect_def case_http_major_def case_http_dot_def case_http_minor_def case_res_http_end_def
    case_res_first_status_code_def case_res_status_code_def case_res_status_start_def
    case_res_status_def CALLBACK_NOTIFY_def CALLBACK_DATA_def
  by (intro progress_rules; simp add: cfg_simps rank_def cb_step_def)+

lemma progress_url_step: "p \<le> pos c \<Longrightarrow> progress data p n (url_step c)"
  unfolding url_step_def by (intro progress_rules; simp add: cfg_simps)

lemma progress_request:
  shows
    "progress data (pos c) 0 (case_start_req S c)"
    "progress data (pos c) 0 (case_req_method c)"
    "progress data (pos c) 0 (case_req_spaces_before_url c)"
    "progress data (pos c) 0 (case_req_schema c)"
    "progress data (pos c) 0 (case_req_url S data c)"
    "progress data (pos c) 0 (case_req_http_start c)"
    "progress data (pos c) 0 (case_req_http_end c)"
    "progress data (pos c) 0 (case_req_line_almost_done c)"
proof -
  show "progress data (pos c) 0 (case_start_req S c)"
    unfolding case_start_req_def CALLBACK_NOTIFY_def
    by (intro progress_rules; simp add: cfg_simps cb_step_def)
  show "progress data (pos c) 0 (case_req_method c)"
    unfolding case_req_method_def Let_def
    by (intro progress_rules; simp add: cfg_simps)
  show "progress data (pos c) 0 (case_req_spaces_before_url c)"
    unfolding case_req_spaces_before_url_def
    by (intro progress_rules progress_url_step; simp add: cfg_simps)
  show "progress data (pos c) 0 (case_req_schema c)" "progress data (pos c) 0 (case_req_url S data c)"
    "progress data (pos c) 0 (case_req_http_start c)" "progress data (pos c) 0 (case_req_http_end c)"
    "progress data (pos c) 0 (case_req_line_almost_done c)"
    unfolding case_req_schema_def case_req_url_def case_req_http_start_def case_req_http_end_def
      case_req_line_almost_done_def CALLBACK_DATA_def
    by (intro progress_rules progress_url_step; simp add: cfg_simps cb_step_def)+
qed

lemma hf_loop_pos: "hf_loop data c = Some c' \<Longrightarrow> pos c \<le> pos c' \<and> (pos c \<le> length data \<longrightarrow> pos c' \<le> length data)"
proof (induction data c rule: hf_loop.induct)
  case (1 data c)
  show ?case
  proof (cases "length data \<le> pos c \<or> TOKEN (data ! pos c) = NUL")
    case True
    then show ?thesis using 1(2) by (subst (asm) hf_loop.simps) (auto split: if_splits)
  next
    case False
    obtain q where q: "hf_step (data ! pos c) (TOKEN (data ! pos c)) (hp c) = Some q"
      using 1(2) False by (subst (asm) hf_loop.simps) (auto simp: Let_def split: option.splits)
    let ?c = "c\<lparr>chr := data ! pos c, hp := q, pos := pos c + 1\<rparr>"
    have "hf_loop data ?c = Some c'"
      using 1(2) False q by (subst (asm) hf_loop.simps) (simp add: Let_def)
    then show ?thesis using 1(1) [OF _ refl refl _ q] False by simp
  qed
qed

lemma hv_after_progress:
  assumes "p \<le> pos c"
  shows "progress data p n (hv_after data start h c)"
  using assms unfolding hv_after_def by (intro progress_rules; auto simp: cfg_simps)

lemma hv_step_Inr: "hv_step data h c = Inr r \<Longrightarrow> r = Abort \<or> (\<exists>c'. r = Err c')"
  by (cases h) (auto simp: hv_step_def Let_def length_digit_def fail_def split: if_splits)

lemma hv_loop_progress:
  "p \<le> pos c \<Longrightarrow> progress data p 1 (hv_loop S data lenient start h c)"
proof (induction S data lenient start h c rule: hv_loop.induct)
  case (1 S data lenient start h c)
  let ?c = "c\<lparr>chr := data ! pos c\<rparr>"
  show ?case
  proof (cases "length data \<le> pos c")
    case True
    then show ?thesis using 1(2) by (subst hv_loop.simps) (auto intro: hv_after_progress)
  next
    case False
    have step: "progress data p 1 (case hv_step data h ?c of Inr r \<Rightarrow> r
        | Inl (h', c2) \<Rightarrow> hv_loop S data lenient start h' (c2\<lparr>pos := pos c2 + 1\<rparr>))"
      if "data ! pos c \<noteq> CR" "data ! pos c \<noteq> LF" "\<not> (\<not> lenient \<and> \<not> IS_HEADER_CHAR (data ! pos c))"
    proof (cases "hv_step data h ?c")
      case (Inl a)
      obtain h' c2 where a: "a = (h', c2)" by (cases a)
      have "pos c \<le> pos c2" using hv_step_pos [of data h ?c h' c2] Inl a False that by simp
      then show ?thesis using 1(1) [OF False refl refl that Inl a [symmetric]] 1(2) Inl a by simp
    next
      case (Inr r)
      then show ?thesis using hv_step_Inr by fastforce
    qed
    show ?thesis
      using False 1(2) step
      by (subst hv_loop.simps, unfold CALLBACK_DATA_def CALLBACK_DATA_NOADVANCE_def)
        (simp only: if_False, intro progress_rules hv_after_progress;
         simp add: cfg_simps cb_step_def rank_def)
  qed
qed

lemma progress_value_start: "progress data (pos c) 0 (case_header_value_start c)"
  unfolding case_header_value_start_def
  by (cases "header_state (hp c)"; simp add: Let_def fail_def cfg_simps)

lemma progress_header:
  shows
    "progress data (pos c) 3 (case_header_field_start c)"
    "progress data (pos c) 0 (case_header_field S data c)"
    "progress data (pos c) 0 (case_header_value_start c)"
    "progress data (pos c) 0 (case_header_value_discard_ws c)"
    "progress data (pos c) 1 (case_header_value S data lenient c)"
    "progress data (pos c) 0 (case_header_almost_done c)"
    "progress data (pos c) 4 (case_header_value_lws c)"
    "progress data (pos c) 4 (case_header_value_discard_lws S data c)"
proof -
  show "progress data (pos c) 0 (case_header_field S data c)"
  proof (cases "hf_loop data c")
    case (Some c1)
    then have "pos c \<le> pos c1" using hf_loop_pos by blast
    then show ?thesis
      using Some unfolding case_header_field_def CALLBACK_DATA_def
      by (simp only: option.case) (intro progress_rules; auto simp: cfg_simps cb_step_def)
  qed (simp add: case_header_field_def)
  show "progress data (pos c) 3 (case_header_field_start c)"
    "progress data (pos c) 0 (case_header_almost_done c)"
    "progress data (pos c) 4 (case_header_value_lws c)"
    "progress data (pos c) 4 (case_header_value_discard_lws S data c)"
    unfolding case_header_field_start_def case_header_almost_done_def case_header_value_lws_def
      case_header_value_discard_lws_def CALLBACK_DATA_NOADVANCE_def
    by (intro progress_rules; simp add: cfg_simps cb_step_def rank_def)+
  show "progress data (pos c) 0 (case_header_value_start c)"
    "progress data (pos c) 0 (case_header_value_discard_ws c)"
    unfolding case_header_value_discard_ws_def
    by (intro progress_rules progress_value_start; simp add: cfg_simps)+
  show "progress data (pos c) 1 (case_header_value S data lenient c)"
    unfolding case_header_value_def using hv_loop_progress by blast
qed

lemma consume_pos:
  assumes "pos c < length data" "content_length (hp c) \<noteq> 0"
  shows "pos c \<le> pos (consume data c) \<and> pos (consume data c) < length data"
    "pos (consume data c) + 1 = pos c + to_read data c"
proof -
  have "0 < to_read data c" "to_read data c \<le> length data - pos c"
    using assms by (simp_all add: to_read_def unat_gt_0)
  then show "pos c \<le> pos (consume data c) \<and> pos (consume data c) < length data"
    "pos (consume data c) + 1 = pos c + to_read data c"
    using assms(1) by (auto simp: consume_def Let_def cfg_simps)
qed

lemma progress_headers_complete_tail:
  "p = pos c \<Longrightarrow> rank (cur c) < n \<Longrightarrow> progress data p n (headers_complete_tail c)"
  by (simp add: headers_complete_tail_def RETURN_def)

lemma progress_headers_complete:
  assumes "rank (cur c) < n"
  shows "progress data (pos c) n (headers_complete S c)"
proof (cases "on_headers_complete S")
  case None
  then show ?thesis using assms by (simp add: headers_complete_def progress_headers_complete_tail)
next
  case (Some f)
  obtain r b u where "f (hp c) (usr c) = (r, b, u)" by (metis prod_cases3)
  then show ?thesis
    using Some assms
    by (auto simp: headers_complete_def Let_def RETURN_def cfg_simps intro!: progress_headers_complete_tail)
qed

lemma progress_body:
  shows
    "progress data (pos c) 2 (case_headers_almost_done S c)"
    "progress data (pos c) 0 (case_headers_done S c)"
    "progress data (pos c) 1 (case_body_identity S data c)"
    "progress data (pos c) 0 (case_body_identity_eof data c)"
    "progress data (pos c) 0 (case_message_done S c)"
    "progress data (pos c) 0 (case_chunk_size_start c)"
    "progress data (pos c) 0 (case_chunk_size c)"
    "progress data (pos c) 0 (case_chunk_parameters c)"
    "progress data (pos c) 0 (case_chunk_size_almost_done S c)"
    "progress data (pos c) 0 (case_chunk_data data c)"
    "progress data (pos c) 0 (case_chunk_data_almost_done S data c)"
    "progress data (pos c) 0 (case_chunk_data_done S c)"
proof -
  have "progress data (pos c) 2 (headers_complete S (upd decide_upgrade (UPDATE_STATE s_headers_done c)))"
    using progress_headers_complete [where c = "upd decide_upgrade (UPDATE_STATE s_headers_done c)" and n = 2]
    by (simp add: cfg_simps rank_def)
  then show "progress data (pos c) 2 (case_headers_almost_done S c)"
    unfolding case_headers_almost_done_def CALLBACK_NOTIFY_NOADVANCE_def
    by (intro progress_rules) (simp_all add: cfg_simps cb_step_def rank_def)
  show "progress data (pos c) 1 (case_body_identity S data c)"
    "progress data (pos c) 0 (case_chunk_data data c)"
    unfolding case_body_identity_def case_chunk_data_def
    by (intro progress_rules; use consume_pos [of c data] in \<open>simp add: cfg_simps cb_step_def rank_def\<close>)+
  show "progress data (pos c) 0 (case_body_identity_eof data c)"
    by (auto simp: case_body_identity_eof_def)
  show "progress data (pos c) 0 (case_headers_done S c)"
    "progress data (pos c) 0 (case_message_done S c)"
    "progress data (pos c) 0 (case_chunk_size_start c)"
    "progress data (pos c) 0 (case_chunk_size c)"
    "progress data (pos c) 0 (case_chunk_parameters c)"
    "progress data (pos c) 0 (case_chunk_size_almost_done S c)"
    "progress data (pos c) 0 (case_chunk_data_almost_done S data c)"
    "progress data (pos c) 0 (case_chunk_data_done S c)"
    unfolding case_headers_done_def case_message_done_def
      case_chunk_size_start_def case_chunk_size_def case_chunk_parameters_def
      case_chunk_size_almost_done_def case_chunk_data_almost_done_def case_chunk_data_done_def
      CALLBACK_NOTIFY_def CALLBACK_DATA_def
    by (intro progress_rules; simp add: cfg_simps cb_step_def)+
qed

lemma http_switch_progress: "progress data (pos c) (rank (cur c)) (http_switch S data lenient c)"
  using progress_start progress_request progress_header progress_body
  unfolding http_switch_def by (cases "cur c") (simp_all add: rank_def)

end
