(* ===== verification/Http_Loop.thy ===== *)
theory Http_Loop
  imports Http_Rules
begin

text \<open>
  The loop of \<^verbatim>\<open>http_parser_execute\<close> over the bytes with its \<^verbatim>\<open>reexecute\<close> label,
  and the code before and behind it. The function is total: a chain of
  \<^verbatim>\<open>REEXECUTE\<close> goes down in \<open>rank\<close> and every round consumes a byte.
\<close>

function reexecute :: "'u http_parser_settings \<Rightarrow> string \<Rightarrow> bool \<Rightarrow> 'u cfg \<Rightarrow> 'u res" where
  "reexecute S data lenient c =
     (case http_switch S data lenient c of Again c' \<Rightarrow> reexecute S data lenient c' | r \<Rightarrow> r)"
  by auto
termination
proof (relation "measure (\<lambda>(S, data, lenient, c). rank (cur c))", goal_cases)
  case (2 S data lenient c c')
  then show ?case using http_switch_progress [of data c S lenient] by simp
qed simp

declare reexecute.simps [simp del]

definition count_byte :: "'u cfg \<Rightarrow> 'u res" where
  "count_byte c = (if PARSING_HEADER (cur c) then COUNT_HEADER_SIZE 1 c Next else Next c)"

text \<open>One round of the loop up to its increment.\<close>

definition one_byte :: "'u http_parser_settings \<Rightarrow> string \<Rightarrow> bool \<Rightarrow> 'u cfg \<Rightarrow> 'u res" where
  "one_byte S data lenient c =
     (case count_byte (c\<lparr>chr := data ! pos c\<rparr>) of Next c1 \<Rightarrow> reexecute S data lenient c1 | r \<Rightarrow> r)"

lemma reexecute_progress: "progress data p n (Again c) \<Longrightarrow> progress data p 0 (reexecute S data lenient c)"
proof (induction S data lenient c arbitrary: n rule: reexecute.induct)
  case (1 S data lenient c)
  have sw: "progress data (pos c) (rank (cur c)) (http_switch S data lenient c)"
    by (rule http_switch_progress)
  show ?case
  proof (cases "http_switch S data lenient c")
    case (Again c')
    have "progress data p (rank (cur c)) (Again c')" using sw Again 1(2) by auto
    from 1(1) [OF Again this] show ?thesis using Again by (subst reexecute.simps) simp
  next
    case (Next c')
    then show ?thesis using sw 1(2) by (subst reexecute.simps) auto
  qed (subst reexecute.simps, simp)+
qed

lemma one_byte_progress:
  assumes "pos c < length data"
  shows "progress data (pos c) 0 (one_byte S data lenient c)"
proof (cases "count_byte (c\<lparr>chr := data ! pos c\<rparr>)")
  case (Next c1)
  then have "pos c1 = pos c"
    by (auto simp: count_byte_def COUNT_HEADER_SIZE_def fail_def Let_def upd_def split: if_splits)
  then have "progress data (pos c) (Suc (rank (cur c1))) (Again c1)" using assms by simp
  then show ?thesis using reexecute_progress Next by (simp add: one_byte_def) blast
next
  case (Again c1)
  then show ?thesis
    by (auto simp: count_byte_def COUNT_HEADER_SIZE_def fail_def Let_def split: if_splits)
qed (simp_all add: one_byte_def)

function exec_loop :: "'u http_parser_settings \<Rightarrow> string \<Rightarrow> bool \<Rightarrow> 'u cfg \<Rightarrow> 'u res" where
  "exec_loop S data lenient c =
     (if length data \<le> pos c then Next c
      else case one_byte S data lenient c of
          Next c1 \<Rightarrow> exec_loop S data lenient (c1\<lparr>pos := pos c1 + 1\<rparr>)
        | r \<Rightarrow> r)"
  by auto
termination
proof (relation "measure (\<lambda>(S, data, lenient, c). length data - pos c)", goal_cases)
  case (2 S data lenient c c1)
  then show ?case using one_byte_progress [of c data S lenient] by simp
qed simp

declare exec_loop.simps [simp del]

definition marks_set :: "'u cfg \<Rightarrow> nat" where
  "marks_set c = length (filter (\<lambda>m. marks c m \<noteq> None)
     [CB_header_field, CB_header_value, CB_url, CB_body, CB_status])"

text \<open>Behind the loop: at most one mark is left, and its bytes are handed out.\<close>

definition exec_end :: "'u http_parser_settings \<Rightarrow> string \<Rightarrow> 'u cfg \<Rightarrow> 'u res" where
  "exec_end S data c =
     ASSERT (marks_set c \<le> 1)
       (CALLBACK_DATA_NOADVANCE S data CB_header_field c (\<lambda>c.
        CALLBACK_DATA_NOADVANCE S data CB_header_value c (\<lambda>c.
        CALLBACK_DATA_NOADVANCE S data CB_url c (\<lambda>c.
        CALLBACK_DATA_NOADVANCE S data CB_body c (\<lambda>c.
        CALLBACK_DATA_NOADVANCE S data CB_status c (RETURN (length data)))))))"

definition initial_marks :: "pstate \<Rightarrow> data_cb \<Rightarrow> nat option" where
  "initial_marks s m =
     (if m = CB_header_field \<and> s = s_header_field then Some 0
      else if m = CB_header_value \<and> s = s_header_value then Some 0
      else if m = CB_url \<and> url_state s then Some 0
      else if m = CB_status \<and> s = s_res_status then Some 0
      else None)"

text \<open>The switch on an empty buffer, which tells the parser that the stream has ended.\<close>

definition exec_eof :: "'u http_parser_settings \<Rightarrow> 'u cfg \<Rightarrow> 'u res" where
  "exec_eof S c =
     (if cur c = s_body_identity_eof then
        CALLBACK_NOTIFY_NOADVANCE S CB_message_complete c (Ret 0)
      else if cur c \<in> {s_dead, s_start_req_or_res, s_start_res, s_start_req} then Ret 0 c
      else Ret 1 (SET_ERRNO HPE_INVALID_EOF_STATE c))"

definition exec_start :: "http_parser \<Rightarrow> 'u \<Rightarrow> 'u cfg" where
  "exec_start q u =
     \<lparr>hp = q, usr = u, cur = state q, pos = 0, chr = NUL, marks = (\<lambda>_. None)\<rparr>"

definition execute_res :: "'u http_parser_settings \<Rightarrow> string \<Rightarrow> http_parser \<Rightarrow> 'u \<Rightarrow> 'u res" where
  "execute_res S data q u =
     (let c = exec_start q u
      in if http_errno q \<noteq> HPE_OK then Ret 0 c
         else if data = [] then exec_eof S c
         else (case exec_loop S data (lenient_http_headers q) (c\<lparr>marks := initial_marks (state q)\<rparr>) of
                 Next c1 \<Rightarrow> exec_end S data c1
               | r \<Rightarrow> r))"

text \<open>
  The value of a call: the bytes parsed, the parser and the user's state; None is a failed
  assertion.
\<close>

definition http_parser_execute ::
  "'u http_parser_settings \<Rightarrow> string \<Rightarrow> http_parser \<Rightarrow> 'u \<Rightarrow> (nat \<times> http_parser \<times> 'u) option" where
  "http_parser_execute S data q u =
     (case execute_res S data q u of
        Ret n c \<Rightarrow> Some (n, hp c, usr c)
      | Err c \<Rightarrow>
          let c1 = (if http_errno (hp c) = HPE_OK then SET_ERRNO HPE_UNKNOWN c else c)
          in Some (pos c1, hp (save_state c1), usr c1)
      | _ \<Rightarrow> None)"

end
