(* ===== verification/Http_Safe.thy ===== *)
theory Http_Safe
  imports Http_Loop
begin

text \<open>
  The invariant of the parser and its proof, case by case: no assertion of the code can fail, no
  byte outside the buffer is read or handed to a callback, and what is left in the parser lets
  the next call go on.
\<close>

section \<open>The invariant\<close>

definition chunk_state :: "pstate \<Rightarrow> bool" where
  "chunk_state s \<longleftrightarrow>
     s \<in> {s_chunk_size_start, s_chunk_size, s_chunk_parameters, s_chunk_size_almost_done,
           s_chunk_data, s_chunk_data_almost_done, s_chunk_data_done}"

definition field_hstate :: "header_states \<Rightarrow> bool" where
  "field_hstate h \<longleftrightarrow>
     h \<in> {h_general, h_C, h_CO, h_CON, h_matching_connection, h_matching_proxy_connection,
           h_matching_content_length, h_matching_transfer_encoding, h_matching_upgrade,
           h_connection, h_content_length, h_transfer_encoding, h_upgrade}"

text \<open>
  \<open>n\<close> is what \<open>nread\<close> must be at the start of a chunk size: 0 between two bytes, 1 while
  the byte is looked at.
\<close>

definition state_ok :: "nat \<Rightarrow> pstate \<Rightarrow> http_parser \<Rightarrow> bool" where
  "state_ok n s q \<longleftrightarrow>
     unat (nread q) \<le> HTTP_MAX_HEADER_SIZE \<and>
     (chunk_state s \<longrightarrow> flag_set q F_CHUNKED) \<and>
     (s = s_chunk_size_start \<longrightarrow> unat (nread q) = n) \<and>
     (s = s_chunk_size \<or> s = s_chunk_parameters \<or> s = s_chunk_size_almost_done \<longrightarrow>
        content_length q \<noteq> ULLONG_MAX) \<and>
     (s = s_body_identity \<or> s = s_chunk_data \<longrightarrow>
        content_length q \<noteq> 0 \<and> content_length q \<noteq> ULLONG_MAX) \<and>
     (s = s_chunk_data_almost_done \<longrightarrow> content_length q = 0) \<and>
     (s = s_header_field \<longrightarrow> field_hstate (header_state q)) \<and>
     (s = s_header_value \<longrightarrow> header_state q \<noteq> h_connection \<and> header_state q \<noteq> h_transfer_encoding) \<and>
     (s = s_req_method \<longrightarrow> unat (index q) \<le> length (http_method_str (hmethod q)))"

text \<open>The states in which the bytes since a mark are still being collected.\<close>

primrec mark_state :: "data_cb \<Rightarrow> pstate \<Rightarrow> bool" where
  "mark_state CB_header_field s \<longleftrightarrow> s = s_header_field"
| "mark_state CB_header_value s \<longleftrightarrow> s = s_header_value"
| "mark_state CB_url s \<longleftrightarrow> url_state s"
| "mark_state CB_body s \<longleftrightarrow>
     s = s_body_identity \<or> s = s_body_identity_eof \<or> s = s_chunk_data \<or> s = s_chunk_data_almost_done"
| "mark_state CB_status s \<longleftrightarrow> s = s_res_status"

definition marks_ok :: "'u cfg \<Rightarrow> bool" where
  "marks_ok c \<longleftrightarrow> (\<forall>m at. marks c m = Some at \<longrightarrow> mark_state m (cur c) \<and> at \<le> pos c)"

definition cfg_ok :: "nat \<Rightarrow> 'u cfg \<Rightarrow> bool" where
  "cfg_ok n c \<longleftrightarrow> http_errno (hp c) = HPE_OK \<and> state_ok n (cur c) (hp c) \<and> marks_ok c"

definition safe :: "string \<Rightarrow> 'u res \<Rightarrow> bool" where
  "safe data r =
     (case r of
        Next c \<Rightarrow> cfg_ok 0 c \<and> pos c < length data
      | Again c \<Rightarrow> cfg_ok 1 c \<and> pos c < length data
      | Err c \<Rightarrow> http_errno (hp c) \<noteq> HPE_OK \<and> http_errno (hp c) \<noteq> HPE_PAUSED \<and> pos c \<le> length data
      | Ret n c \<Rightarrow> n \<le> length data \<and> state_ok 0 (state (hp c)) (hp c) \<and>
          (http_errno (hp c) = HPE_OK \<longrightarrow> n = length data \<or> upgrade (hp c))
      | Abort \<Rightarrow> False)"

lemma safe_simps [simp]:
  "safe data (Next c) \<longleftrightarrow> cfg_ok 0 c \<and> pos c < length data"
  "safe data (Again c) \<longleftrightarrow> cfg_ok 1 c \<and> pos c < length data"
  "safe data (Err c) \<longleftrightarrow>
     http_errno (hp c) \<noteq> HPE_OK \<and> http_errno (hp c) \<noteq> HPE_PAUSED \<and> pos c \<le> length data"
  "safe data (Ret n c) \<longleftrightarrow> n \<le> length data \<and> state_ok 0 (state (hp c)) (hp c) \<and>
     (http_errno (hp c) = HPE_OK \<longrightarrow> n = length data \<or> upgrade (hp c))"
  "\<not> safe data Abort"
  by (simp_all add: safe_def)

lemmas safe_rules = macro_rules [where Q = "safe data" for data]

lemmas safe_defs = cfg_ok_def state_ok_def chunk_state_def marks_ok_def

text \<open>Where no mark may be set, none is.\<close>

lemma no_marks:
  assumes "marks_ok c" "\<And>m. \<not> mark_state m (cur c)"
  shows "marks c = (\<lambda>_. None)"
proof
  fix m show "marks c m = None"
    using assms by (cases "marks c m") (auto simp: marks_ok_def)
qed

lemma mark_state_cases:
  "(\<forall>m. P m) \<longleftrightarrow> P CB_header_field \<and> P CB_header_value \<and> P CB_url \<and> P CB_body \<and> P CB_status"
  by (metis data_cb.exhaust)

lemma reset_message_simps [simp]:
  "http_errno (reset_message q) = http_errno q" "nread (reset_message q) = nread q"
  by (simp_all add: reset_message_def)

text \<open>States that ask for nothing: no mark and no condition on the parser.\<close>

definition plain :: "pstate \<Rightarrow> bool" where
  "plain s \<longleftrightarrow> \<not> chunk_state s \<and> \<not> url_state s \<and>
     s \<notin> {s_body_identity, s_body_identity_eof, s_header_field, s_header_value, s_req_method, s_res_status}"

lemma plain_ok:
  assumes "plain (cur c)"
  shows "cfg_ok n c \<longleftrightarrow> http_errno (hp c) = HPE_OK \<and> unat (nread (hp c)) \<le> HTTP_MAX_HEADER_SIZE \<and>
    marks c = (\<lambda>_. None)"
proof -
  have "\<not> mark_state m (cur c)" for m using assms by (cases m) (auto simp: plain_def chunk_state_def)
  then have "marks_ok c \<longleftrightarrow> marks c = (\<lambda>_. None)" using no_marks by (auto simp: marks_ok_def)
  moreover have "state_ok n (cur c) (hp c) \<longleftrightarrow> unat (nread (hp c)) \<le> HTTP_MAX_HEADER_SIZE"
    using assms by (auto simp: state_ok_def plain_def chunk_state_def)
  ultimately show ?thesis by (auto simp: cfg_ok_def)
qed

lemma plain_state_ok:
  "plain s \<Longrightarrow> state_ok n s q \<longleftrightarrow> unat (nread q) \<le> HTTP_MAX_HEADER_SIZE"
  by (auto simp: state_ok_def plain_def chunk_state_def)

lemma plain_states [simp]:
  "plain s_dead" "plain s_start_req_or_res" "plain s_res_or_resp_H" "plain s_start_res"
  "plain s_res_H" "plain s_res_HT" "plain s_res_HTT" "plain s_res_HTTP" "plain s_res_http_major"
  "plain s_res_http_dot" "plain s_res_http_minor" "plain s_res_http_end"
  "plain s_res_first_status_code" "plain s_res_status_code" "plain s_res_status_start"
  "plain s_res_line_almost_done" "plain s_start_req" "plain s_req_spaces_before_url"
  "plain s_req_http_start" "plain s_req_http_H" "plain s_req_http_HT" "plain s_req_http_HTT"
  "plain s_req_http_HTTP" "plain s_req_http_major" "plain s_req_http_dot" "plain s_req_http_minor"
  "plain s_req_http_end" "plain s_req_line_almost_done" "plain s_header_field_start"
  "plain s_header_value_discard_ws" "plain s_header_value_discard_ws_almost_done"
  "plain s_header_value_discard_lws" "plain s_header_value_start" "plain s_header_value_lws"
  "plain s_header_almost_done" "plain s_headers_almost_done" "plain s_headers_done"
  "plain s_message_done"
  by (simp_all add: plain_def chunk_state_def url_state_def)

section \<open>Start of a message\<close>

text \<open>Cases that neither mark nor call back, between plain states.\<close>

lemma safe_plain:
  assumes "cfg_ok 1 c" "pos c < length data" "plain (cur c)"
  shows "safe data (case_dead c)" "plain s \<Longrightarrow> safe data (case_expect ch s c)"
    "plain s \<Longrightarrow> safe data (case_http_major s c)" "plain s \<Longrightarrow> safe data (case_http_dot s c)"
    "plain s \<Longrightarrow> safe data (case_http_minor s c)" "safe data (case_res_http_end c)"
    "safe data (case_res_first_status_code c)" "safe data (case_res_status_code c)"
    "safe data (case_req_http_start c)" "safe data (case_req_http_end c)"
    "safe data (case_req_line_almost_done c)" "safe data (case_header_almost_done c)"
  unfolding case_dead_def case_expect_def case_http_major_def case_http_dot_def case_http_minor_def
    case_res_http_end_def case_res_first_status_code_def case_res_status_code_def
    case_req_http_start_def case_req_http_end_def case_req_line_almost_done_def
    case_header_almost_done_def
  by (intro safe_rules; use assms plain_ok [OF assms(3), of 1] in \<open>simp add: plain_ok cfg_simps\<close>)+

lemma marks_only:
  "marks c = (\<lambda>_. None) \<Longrightarrow> pos c = p \<Longrightarrow>
     marks_ok (c\<lparr>cur := s, marks := (\<lambda>_. None)(m \<mapsto> p)\<rparr>) \<longleftrightarrow> mark_state m s"
  by (auto simp: marks_ok_def)

lemma safe_start:
  assumes "cfg_ok 1 c" "pos c < length data" "plain (cur c)"
  shows "safe data (case_start_req_or_res S c)" "safe data (case_res_or_resp_H c)"
    "safe data (case_start_res S c)" "safe data (case_start_req S c)"
    "safe data (case_res_status_start c)"
proof -
  have ok: "http_errno (hp c) = HPE_OK" "unat (nread (hp c)) \<le> HTTP_MAX_HEADER_SIZE"
    "marks c = (\<lambda>_. None)"
    using assms plain_ok by auto
  show "safe data (case_start_req_or_res S c)" "safe data (case_start_res S c)"
    unfolding case_start_req_or_res_def case_start_res_def CALLBACK_NOTIFY_def
    by (intro safe_rules; use assms ok in \<open>simp add: plain_ok plain_state_ok cfg_simps cb_step_def\<close>)+
  have meth: "state_ok n s_req_method q" if "unat (nread q) \<le> HTTP_MAX_HEADER_SIZE" "unat (index q) \<le> 2" for n q
  proof -
    have "2 \<le> length (http_method_str (hmethod q))" by (cases "hmethod q") simp_all
    then show ?thesis using that by (simp add: state_ok_def chunk_state_def)
  qed
  show "safe data (case_res_or_resp_H c)"
    unfolding case_res_or_resp_H_def
    by (intro safe_rules; use assms ok in \<open>simp add: plain_ok plain_state_ok meth cfg_simps cfg_ok_def marks_ok_def\<close>)
  show "safe data (case_start_req S c)"
    unfolding case_start_req_def CALLBACK_NOTIFY_def
    by (intro safe_rules; use assms ok in
        \<open>simp add: plain_ok plain_state_ok meth cfg_simps cfg_ok_def marks_ok_def cb_step_def\<close>)
  show "safe data (case_res_status_start c)"
    unfolding case_res_status_start_def
    by (intro safe_rules; use assms ok in \<open>simp add: cfg_simps cfg_ok_def marks_ok_def state_ok_def chunk_state_def\<close>)
qed

text \<open>The switch on the method only ever leaves a method that agrees with what was read.\<close>

lemma method_switch_cases:
  assumes "method_switch m i ch = Some m'"
  shows "i < length (http_method_str m') \<and> take i (http_method_str m') = take i (http_method_str m) \<and>
    http_method_str m' ! i = ch \<and> i < length (http_method_str m)"
proof -
  have "((m, i, ch), m') \<in> set
     [((HTTP_POST, 1, CHR ''U''), HTTP_PUT), ((HTTP_POST, 1, CHR ''A''), HTTP_PATCH),
      ((HTTP_POST, 1, CHR ''R''), HTTP_PROPFIND), ((HTTP_PUT, 2, CHR ''R''), HTTP_PURGE),
      ((HTTP_CONNECT, 1, CHR ''H''), HTTP_CHECKOUT), ((HTTP_CONNECT, 2, CHR ''P''), HTTP_COPY),
      ((HTTP_MKCOL, 1, CHR ''O''), HTTP_MOVE), ((HTTP_MKCOL, 1, CHR ''E''), HTTP_MERGE),
      ((HTTP_MKCOL, 1, CHR ''-''), HTTP_MSEARCH), ((HTTP_MKCOL, 2, CHR ''A''), HTTP_MKACTIVITY),
      ((HTTP_MKCOL, 3, CHR ''A''), HTTP_MKCALENDAR), ((HTTP_SUBSCRIBE, 1, CHR ''E''), HTTP_SEARCH),
      ((HTTP_SUBSCRIBE, 1, CHR ''O''), HTTP_SOURCE), ((HTTP_REPORT, 2, CHR ''B''), HTTP_REBIND),
      ((HTTP_PROPFIND, 4, CHR ''P''), HTTP_PROPPATCH), ((HTTP_LOCK, 1, CHR ''I''), HTTP_LINK),
      ((HTTP_UNLOCK, 2, CHR ''S''), HTTP_UNSUBSCRIBE), ((HTTP_UNLOCK, 2, CHR ''B''), HTTP_UNBIND),
      ((HTTP_UNLOCK, 3, CHR ''I''), HTTP_UNLINK)]"
    using map_of_SomeD [OF assms [unfolded method_switch_def]] .
  then show ?thesis by (simp only: list.set insert_iff empty_iff prod.inject) (elim disjE; simp add: take_Cons')
qed

lemma index_inc: "unat (i :: 7 word) < length (http_method_str m) \<Longrightarrow> unat (i + 1) = Suc (unat i)"
proof -
  have "length (http_method_str m) \<le> 11" by (cases m) simp_all
  moreover assume "unat i < length (http_method_str m)"
  ultimately have "Suc (unat i) < 2 ^ 7" by simp
  then show ?thesis by (simp add: unat_word_ariths)
qed

lemma safe_req_method:
  assumes "cfg_ok 1 c" "pos c < length data" "cur c = s_req_method"
  shows "safe data (case_req_method c)"
proof -
  let ?m = "hmethod (hp c)" and ?i = "unat (index (hp c))"
  have ok: "http_errno (hp c) = HPE_OK" "unat (nread (hp c)) \<le> HTTP_MAX_HEADER_SIZE"
    "?i \<le> length (http_method_str ?m)" "marks c = (\<lambda>_. None)"
    using assms no_marks [of c] mark_state_cases [of "\<lambda>m. \<not> mark_state m (cur c)"]
    by (auto simp: cfg_ok_def state_ok_def url_state_def)
  have next1: "unat (index (hp c) + 1) \<le> length (http_method_str m')"
    if "?i < length (http_method_str m')" for m'
    using index_inc [OF that] that by simp
  have ok': "cfg_ok 0 (c\<lparr>hp := (hp c)\<lparr>index := index (hp c) + 1\<rparr>\<rparr>)"
    if "chr c \<noteq> NUL" "chr c = cstr_at (http_method_str ?m) ?i"
    using that ok next1 [of ?m] assms
    by (auto simp: cfg_ok_def state_ok_def chunk_state_def marks_ok_def cstr_at_def split: if_splits)
  have ok'': "cfg_ok 0 (c\<lparr>hp := (hp c)\<lparr>hmethod := m', index := index (hp c) + 1\<rparr>\<rparr>)"
    if "method_switch ?m ?i (chr c) = Some m'" for m'
    using ok next1 method_switch_cases [OF that] assms
    by (auto simp: cfg_ok_def state_ok_def chunk_state_def marks_ok_def)
  show ?thesis
    unfolding case_req_method_def Let_def
    by (intro safe_rules; use ok ok' ok'' assms in \<open>simp add: cfg_simps plain_ok\<close>)
qed

lemma url_state_ok:
  assumes "url_state s"
  shows "state_ok n s q \<longleftrightarrow> unat (nread q) \<le> HTTP_MAX_HEADER_SIZE" "s \<noteq> s_dead"
  using assms by (auto simp: state_ok_def chunk_state_def url_state_def)

definition only_mark :: "data_cb \<Rightarrow> 'u cfg \<Rightarrow> bool" where
  "only_mark m c \<longleftrightarrow> (\<forall>m' at. marks c m' = Some at \<longrightarrow> m' = m \<and> at \<le> pos c)"

lemma url_cfg_ok:
  assumes "url_state (cur c)"
  shows "cfg_ok n c \<longleftrightarrow> http_errno (hp c) = HPE_OK \<and> unat (nread (hp c)) \<le> HTTP_MAX_HEADER_SIZE \<and>
    only_mark CB_url c"
proof -
  have "mark_state m (cur c) \<longleftrightarrow> m = CB_url" for m
    using assms by (cases m) (auto simp: url_state_def)
  then show ?thesis
    using url_state_ok [OF assms] by (auto simp: cfg_ok_def marks_ok_def only_mark_def)
qed

lemma safe_url_step:
  assumes "http_errno (hp c) = HPE_OK" "unat (nread (hp c)) \<le> HTTP_MAX_HEADER_SIZE" "only_mark CB_url c"
    "pos c < length data"
  shows "safe data (url_step c)"
proof -
  let ?c = "c\<lparr>cur := parse_url_char (cur c) (chr c)\<rparr>"
  have "only_mark CB_url ?c" using assms(3) by (simp add: only_mark_def)
  then show ?thesis
    using assms parse_url_char_range [of "cur c" "chr c"] url_cfg_ok [of ?c 0]
    by (simp add: url_step_def cfg_simps fail_def Let_def) blast
qed

lemma safe_request:
  assumes "cfg_ok 1 c" "pos c < length data"
  shows "cur c = s_req_spaces_before_url \<Longrightarrow> safe data (case_req_spaces_before_url c)"
    "url_state (cur c) \<Longrightarrow> safe data (case_req_schema c)"
    "url_state (cur c) \<Longrightarrow> safe data (case_req_url S data c)"
proof -
  show "safe data (case_req_spaces_before_url c)" if "cur c = s_req_spaces_before_url"
    unfolding case_req_spaces_before_url_def
    by (intro safe_rules safe_url_step; use assms that plain_ok [of c 1] in
        \<open>simp add: cfg_simps plain_ok only_mark_def\<close>)
  assume "url_state (cur c)"
  then have ok: "http_errno (hp c) = HPE_OK" "unat (nread (hp c)) \<le> HTTP_MAX_HEADER_SIZE" "only_mark CB_url c"
    using url_cfg_ok assms by auto
  have "(marks c)(CB_url := None) = (\<lambda>_. None)"
  proof
    fix m show "((marks c)(CB_url := None)) m = None"
      using ok(3) by (cases "marks c m") (auto simp: only_mark_def)
  qed
  moreover have "marks c CB_url = Some at \<Longrightarrow> at \<le> pos c" for at using ok(3) by (simp add: only_mark_def)
  ultimately show "safe data (case_req_url S data c)"
    unfolding case_req_url_def CALLBACK_DATA_def
    by (intro safe_rules safe_url_step; use assms(2) ok in
        \<open>force simp: cfg_simps plain_ok plain_state_ok cb_step_def\<close>)
  show "safe data (case_req_schema c)"
    unfolding case_req_schema_def
    by (intro safe_rules safe_url_step; use assms(2) ok in \<open>simp add: cfg_simps\<close>)
qed

section \<open>Headers\<close>

text \<open>States that collect bytes for one kind of data: that mark may be set, no other.\<close>

lemma only_mark_iff:
  assumes "\<And>m'. mark_state m' (cur c) \<longleftrightarrow> m' = m"
  shows "cfg_ok n c \<longleftrightarrow> http_errno (hp c) = HPE_OK \<and> state_ok n (cur c) (hp c) \<and> only_mark m c"
  using assms by (auto simp: cfg_ok_def marks_ok_def only_mark_def)

lemma only_mark_clear: "only_mark m c \<Longrightarrow> (marks c)(m := None) = (\<lambda>_. None)"
proof
  fix m' assume "only_mark m c"
  then show "((marks c)(m := None)) m' = None"
    by (cases "marks c m'") (auto simp: only_mark_def)
qed

lemma only_markD: "only_mark m c \<Longrightarrow> marks c m = Some at \<Longrightarrow> at \<le> pos c"
  by (simp add: only_mark_def)

lemma only_mark_mono: "only_mark m c \<Longrightarrow> marks c' = marks c \<Longrightarrow> pos c \<le> pos c' \<Longrightarrow> only_mark m c'"
  by (fastforce simp: only_mark_def)

lemma mark_states [simp]:
  "mark_state m s_header_field \<longleftrightarrow> m = CB_header_field"
  "mark_state m s_header_value \<longleftrightarrow> m = CB_header_value"
  "mark_state m s_res_status \<longleftrightarrow> m = CB_status"
  "mark_state m s_body_identity \<longleftrightarrow> m = CB_body"
  "mark_state m s_body_identity_eof \<longleftrightarrow> m = CB_body"
  "mark_state m s_chunk_data \<longleftrightarrow> m = CB_body"
  "mark_state m s_chunk_data_almost_done \<longleftrightarrow> m = CB_body"
  by (cases m; simp add: url_state_def)+

lemma safe_res_status:
  assumes "cfg_ok 1 c" "pos c < length data" "cur c = s_res_status"
  shows "safe data (case_res_status S data c)"
proof -
  have ok: "http_errno (hp c) = HPE_OK" "unat (nread (hp c)) \<le> HTTP_MAX_HEADER_SIZE" "only_mark CB_status c"
    and ok0: "cfg_ok 0 c"
    using assms only_mark_iff [of c CB_status] by (auto simp: state_ok_def chunk_state_def)
  show ?thesis
    unfolding case_res_status_def CALLBACK_DATA_def
    by (intro safe_rules; use assms(2) ok ok0 only_mark_clear [OF ok(3)] only_markD [OF ok(3)] in
        \<open>force simp: cfg_simps plain_ok plain_state_ok cb_step_def\<close>)
qed

lemma safe_header_field_start:
  assumes "cfg_ok 1 c" "pos c < length data" "cur c = s_header_field_start"
  shows "safe data (case_header_field_start c)"
proof -
  have ok: "http_errno (hp c) = HPE_OK" "unat (nread (hp c)) \<le> HTTP_MAX_HEADER_SIZE" "marks c = (\<lambda>_. None)"
    using assms plain_ok [of c 1] by auto
  have "field_hstate (field_start_state ch)" for ch
    by (auto simp: field_start_state_def field_hstate_def)
  then show ?thesis
    unfolding case_header_field_start_def
    by (intro safe_rules; use assms ok in
        \<open>simp add: cfg_simps plain_ok only_mark_iff [where m = CB_header_field] only_mark_def state_ok_def chunk_state_def\<close>)
qed

lemma hf_step_ok:
  assumes "field_hstate (header_state q)"
  shows "\<exists>q'. hf_step ch c q = Some q' \<and> field_hstate (header_state q') \<and> http_errno q' = http_errno q \<and>
    nread q' = nread q"
  using assms
  by (cases "header_state q")
    (auto simp: hf_step_def field_hstate_def match_name_def match_prefix_def Let_def)

lemma hf_loop_ok:
  assumes "field_hstate (header_state (hp c))" "pos c \<le> length data"
  shows "\<exists>c'. hf_loop data c = Some c' \<and> field_hstate (header_state (hp c')) \<and>
    http_errno (hp c') = http_errno (hp c) \<and> nread (hp c') = nread (hp c) \<and>
    pos c \<le> pos c' \<and> pos c' \<le> length data \<and> cur c' = cur c \<and> marks c' = marks c"
  using assms
proof (induction data c rule: hf_loop.induct)
  case (1 data c)
  show ?case
  proof (cases "length data \<le> pos c \<or> TOKEN (data ! pos c) = NUL")
    case True
    then show ?thesis using 1(2,3) by (subst hf_loop.simps) (auto simp: Let_def)
  next
    case False
    obtain q where q: "hf_step (data ! pos c) (TOKEN (data ! pos c)) (hp c) = Some q"
      "field_hstate (header_state q)" "http_errno q = http_errno (hp c)" "nread q = nread (hp c)"
      using hf_step_ok [OF 1(2)] by blast
    let ?c = "c\<lparr>chr := data ! pos c, hp := q, pos := pos c + 1\<rparr>"
    have "hf_loop data c = hf_loop data ?c"
      using False q by (subst hf_loop.simps) (simp add: Let_def)
    moreover obtain c' where "hf_loop data ?c = Some c'" "field_hstate (header_state (hp c'))"
      "http_errno (hp c') = http_errno q" "nread (hp c') = nread q"
      "pos c + 1 \<le> pos c'" "pos c' \<le> length data" "cur c' = cur c" "marks c' = marks c"
      using 1(1) [OF _ refl refl _ q(1)] False q by auto
    ultimately show ?thesis using q by auto
  qed
qed

lemma safe_header_field:
  assumes "cfg_ok 1 c" "pos c < length data" "cur c = s_header_field"
  shows "safe data (case_header_field S data c)"
proof -
  have ok: "http_errno (hp c) = HPE_OK" "unat (nread (hp c)) \<le> HTTP_MAX_HEADER_SIZE" "only_mark CB_header_field c"
    "field_hstate (header_state (hp c))"
    using assms only_mark_iff [of c CB_header_field] by (auto simp: state_ok_def chunk_state_def)
  obtain c1 where c1: "hf_loop data c = Some c1" "field_hstate (header_state (hp c1))"
    "http_errno (hp c1) = HPE_OK" "nread (hp c1) = nread (hp c)"
    "pos c \<le> pos c1" "pos c1 \<le> length data" "cur c1 = s_header_field" "marks c1 = marks c"
    using hf_loop_ok [OF ok(4), of data] assms ok by auto
  have om: "only_mark CB_header_field c1" using ok(3) c1 by (fastforce simp: only_mark_def)
  have om1: "only_mark CB_header_field (c1\<lparr>hp := q, pos := pos c1 - 1\<rparr>)" if "length data \<le> pos c1" for q
    using ok(3) c1 assms(2) that by (fastforce simp: only_mark_def)
  show ?thesis
    unfolding case_header_field_def c1 option.case CALLBACK_DATA_def
    by (intro safe_rules; use assms(2) c1 only_mark_clear [OF om] only_markD [OF om] om1 in
        \<open>force simp: cfg_simps plain_ok plain_state_ok cb_step_def only_mark_iff [where m = CB_header_field]
           state_ok_def chunk_state_def\<close>)
qed

lemma flag_set_add [simp]: "flag_set (add_flag f q) g \<longleftrightarrow> flag_set q g \<or> f AND g \<noteq> 0"
proof -
  have "(x OR f) AND g = 0 \<longleftrightarrow> x AND g = 0 \<and> f AND g = 0" for x :: u8
    by (auto simp: bit_eq_iff bit_simps)
  then show ?thesis by (auto simp: flag_set_def add_flag_def)
qed

lemma add_flag_simps [simp]:
  "http_errno (add_flag f q) = http_errno q" "nread (add_flag f q) = nread q"
  "header_state (add_flag f q) = header_state q" "content_length (add_flag f q) = content_length q"
  "state (add_flag f q) = state q" "upgrade (add_flag f q) = upgrade q" "ptype (add_flag f q) = ptype q"
  "hmethod (add_flag f q) = hmethod q" "status_code (add_flag f q) = status_code q"
  "index (add_flag f q) = index q"
  by (simp_all add: add_flag_def)

definition value_hstate :: "header_states \<Rightarrow> bool" where
  "value_hstate h \<longleftrightarrow> h \<noteq> h_connection \<and> h \<noteq> h_transfer_encoding"

lemma value_cfg_ok:
  "cur c = s_header_value \<Longrightarrow> cfg_ok n c \<longleftrightarrow> http_errno (hp c) = HPE_OK \<and>
     unat (nread (hp c)) \<le> HTTP_MAX_HEADER_SIZE \<and> value_hstate (header_state (hp c)) \<and> only_mark CB_header_value c"
  by (auto simp: only_mark_iff [where m = CB_header_value] state_ok_def chunk_state_def value_hstate_def)

lemma safe_value_start:
  assumes "cfg_ok 1 c" "pos c < length data" "plain (cur c)"
  shows "safe data (case_header_value_start c)" "safe data (case_header_value_discard_ws c)"
proof -
  have ok: "http_errno (hp c) = HPE_OK" "unat (nread (hp c)) \<le> HTTP_MAX_HEADER_SIZE" "marks c = (\<lambda>_. None)"
    using assms plain_ok by auto
  show st: "safe data (case_header_value_start c)"
    unfolding case_header_value_start_def Let_def
    by (cases "header_state (hp c)"; simp only: header_states.case; (intro safe_rules)?;
        use assms ok in \<open>simp add: cfg_simps value_cfg_ok only_mark_def value_hstate_def\<close>)
  show "safe data (case_header_value_discard_ws c)"
    unfolding case_header_value_discard_ws_def
    by (intro safe_rules st; use assms ok in \<open>simp add: cfg_simps plain_ok\<close>)
qed

text \<open>What the switch over a value's byte keeps.\<close>

definition value_ok :: "string \<Rightarrow> header_states \<Rightarrow> 'u cfg \<Rightarrow> bool" where
  "value_ok data h c \<longleftrightarrow> http_errno (hp c) = HPE_OK \<and> unat (nread (hp c)) \<le> HTTP_MAX_HEADER_SIZE \<and>
     value_hstate h \<and> only_mark CB_header_value c \<and> cur c = s_header_value \<and> pos c \<le> length data"

lemma connection_flag_simps [simp]:
  "http_errno (connection_flag h q) = http_errno q" "nread (connection_flag h q) = nread q"
  by (simp_all add: connection_flag_def)

lemma hv_step_ok:
  assumes "value_ok data h c" "pos c < length data" "data ! pos c \<noteq> CR" "data ! pos c \<noteq> LF"
  shows "case hv_step data h c of Inr r \<Rightarrow> safe data r
    | Inl (h', c') \<Rightarrow> value_ok data h' (c'\<lparr>pos := pos c' + 1\<rparr>)"
proof -
  have skip: "pos c \<le> skip_to data (pos c) - 1" "skip_to data (pos c) - 1 < length data"
    using skip_to_gt [OF assms(2-4)] by auto
  show ?thesis
    using assms(1,2) skip
    by (cases h) (auto simp: hv_step_def Let_def value_ok_def value_hstate_def match_value_def length_digit_def
        connection_end_def fail_def cfg_simps elim: only_mark_mono)
qed

lemma hv_step_marks: "hv_step data h c = Inl (h', c') \<Longrightarrow> marks c' = marks c"
  by (cases h) (auto simp: hv_step_def Let_def match_value_def length_digit_def connection_end_def cfg_simps
      split: if_splits)

lemma safe_hv_after_end:
  assumes "value_ok data h c" "length data \<le> pos c" "data \<noteq> []"
    and "\<And>at. marks c CB_header_value = Some at \<Longrightarrow> at < length data"
  shows "safe data (hv_after data start h c)"
proof -
  have pos: "pos c = length data" using assms by (auto simp: value_ok_def)
  have "only_mark CB_header_value (c\<lparr>hp := q, pos := length data - 1\<rparr>)" for q
    using assms(1,4) by (fastforce simp: value_ok_def only_mark_def)
  then show ?thesis
    using assms pos unfolding hv_after_def
    by (intro safe_rules; simp add: value_ok_def cfg_simps value_cfg_ok)
qed

lemma safe_hv_after_cr:
  assumes "plain (cur c)" "marks c = (\<lambda>_. None)" "http_errno (hp c) = HPE_OK" "pos c < length data"
  shows "safe data (hv_after data start h c)"
  using assms unfolding hv_after_def by (intro safe_rules; simp add: cfg_simps plain_ok)

lemma safe_hv_loop:
  assumes "value_ok data h c" "data \<noteq> []"
    and "\<And>at. marks c CB_header_value = Some at \<Longrightarrow> at < length data"
  shows "safe data (hv_loop S data lenient start h c)"
  using assms
proof (induction S data lenient start h c rule: hv_loop.induct)
  case (1 S data lenient start h c)
  let ?c = "c\<lparr>chr := data ! pos c\<rparr>"
  have ok: "http_errno (hp c) = HPE_OK" "unat (nread (hp c)) \<le> HTTP_MAX_HEADER_SIZE"
    "only_mark CB_header_value c"
    using 1(2) by (simp_all add: value_ok_def)
  note mark = only_mark_clear [OF ok(3)] only_markD [OF ok(3)]
  show ?case
  proof (cases "length data \<le> pos c")
    case True
    then show ?thesis using safe_hv_after_end [OF 1(2) True 1(3,4)] by (subst hv_loop.simps) simp
  next
    case False
    have step: "safe data (case hv_step data h ?c of Inr r \<Rightarrow> r
        | Inl (h', c2) \<Rightarrow> hv_loop S data lenient start h' (c2\<lparr>pos := pos c2 + 1\<rparr>))"
      if "data ! pos c \<noteq> CR" "data ! pos c \<noteq> LF" "\<not> (\<not> lenient \<and> \<not> IS_HEADER_CHAR (data ! pos c))"
    proof -
      have "value_ok data h ?c" using 1(2) by (simp add: value_ok_def only_mark_def)
      note so = hv_step_ok [OF this] False that
      show ?thesis
      proof (cases "hv_step data h ?c")
        case (Inl a)
        obtain h' c2 where a: "a = (h', c2)" by (cases a)
        have "value_ok data h' (c2\<lparr>pos := pos c2 + 1\<rparr>)" "marks c2 = marks c"
          using so Inl a hv_step_marks by fastforce+
        then show ?thesis using 1(1) [OF False refl refl that Inl a [symmetric]] 1(3,4) Inl a by simp
      next
        case (Inr r)
        then show ?thesis using so by simp
      qed
    qed
    have cr: "safe data (CALLBACK_DATA S data CB_header_value
        (set_header_state h (UPDATE_STATE s_header_almost_done ?c)) (hv_after data start h))"
      unfolding CALLBACK_DATA_def
      by (intro safe_rules safe_hv_after_cr; use False ok mark in
          \<open>force simp: cfg_simps cb_step_def plain_state_ok\<close>)
    have lf: "safe data (COUNT_HEADER_SIZE (pos c - start) (UPDATE_STATE s_header_almost_done ?c) (\<lambda>c2.
        CALLBACK_DATA_NOADVANCE S data CB_header_value (set_header_state h c2) Again))"
      unfolding CALLBACK_DATA_NOADVANCE_def
      by (intro safe_rules; use False ok mark in
          \<open>force simp: cfg_simps cb_step_def plain_state_ok plain_ok\<close>)
    show ?thesis
      unfolding hv_loop.simps [of S data lenient start h c] Let_def
      by (intro if_rule [where Q = "safe data"]; use False step cr lf in \<open>simp add: fail_def SET_ERRNO_def upd_def\<close>)
  qed
qed

lemma safe_header_value:
  assumes "cfg_ok 1 c" "pos c < length data" "cur c = s_header_value"
  shows "safe data (case_header_value S data lenient c)"
proof -
  have "only_mark CB_header_value c" "value_ok data (header_state (hp c)) c"
    using assms value_cfg_ok [of c 1] by (auto simp: value_ok_def)
  then show ?thesis
    unfolding case_header_value_def
    by (intro safe_hv_loop) (use assms(2) in \<open>auto dest: only_markD\<close>)
qed

lemma finish_header_simps [simp]:
  "http_errno (finish_header q) = http_errno q" "nread (finish_header q) = nread q"
  by (cases "header_state q"; simp add: finish_header_def)+

lemma safe_header_lws:
  assumes "cfg_ok 1 c" "pos c < length data" "plain (cur c)"
  shows "safe data (case_header_value_lws c)" "safe data (case_header_value_discard_lws S data c)"
proof -
  have ok: "http_errno (hp c) = HPE_OK" "unat (nread (hp c)) \<le> HTTP_MAX_HEADER_SIZE" "marks c = (\<lambda>_. None)"
    using assms plain_ok by auto
  show "safe data (case_header_value_lws c)" "safe data (case_header_value_discard_lws S data c)"
    unfolding case_header_value_lws_def case_header_value_discard_lws_def CALLBACK_DATA_NOADVANCE_def
    by (intro safe_rules; use assms ok in \<open>simp add: cfg_simps plain_ok plain_state_ok cb_step_def\<close>)+
qed

section \<open>Bodies and chunks\<close>

lemma decide_upgrade_simps [simp]:
  "http_errno (decide_upgrade q) = http_errno q" "nread (decide_upgrade q) = nread q"
  by (simp_all add: decide_upgrade_def)

lemma NEW_MESSAGE_plain [simp]: "plain (NEW_MESSAGE q)"
  by (simp add: NEW_MESSAGE_def start_state_def)

lemma safe_headers_complete:
  assumes "pos c < length data" "http_errno (hp c) = HPE_OK"
    "unat (nread (hp c)) \<le> HTTP_MAX_HEADER_SIZE" "marks c = (\<lambda>_. None)" "cur c = s_headers_done"
  shows "safe data (headers_complete S c)"
proof -
  have tail: "safe data (headers_complete_tail c')"
    if "pos c' = pos c" "unat (nread (hp c')) \<le> HTTP_MAX_HEADER_SIZE" "marks c' = (\<lambda>_. None)"
      "cur c' = s_headers_done" for c' :: "'a cfg"
    using that assms(1) by (simp add: headers_complete_tail_def RETURN_def cfg_simps plain_ok plain_state_ok)
  show ?thesis
  proof (cases "on_headers_complete S")
    case None
    then show ?thesis using assms tail by (simp add: headers_complete_def)
  next
    case (Some f)
    obtain r b u where "f (hp c) (usr c) = (r, b, u)" by (metis prod_cases3)
    then show ?thesis
      using Some assms
      by (auto simp: headers_complete_def Let_def RETURN_def cfg_simps http_parser_pause_def plain_state_ok
          intro!: tail)
  qed
qed

lemma safe_headers_end:
  assumes "cfg_ok 1 c" "pos c < length data" "plain (cur c)"
  shows "safe data (case_headers_almost_done S c)" "safe data (case_headers_done S c)"
    "safe data (case_message_done S c)"
proof -
  have ok: "http_errno (hp c) = HPE_OK" "unat (nread (hp c)) \<le> HTTP_MAX_HEADER_SIZE" "marks c = (\<lambda>_. None)"
    using assms plain_ok by auto
  show "safe data (case_headers_almost_done S c)"
    unfolding case_headers_almost_done_def CALLBACK_NOTIFY_NOADVANCE_def
    by (intro safe_rules safe_headers_complete; use assms(2) ok in
        \<open>simp add: cfg_simps plain_ok plain_state_ok cb_step_def\<close>)
  show "safe data (case_message_done S c)"
    unfolding case_message_done_def CALLBACK_NOTIFY_def
    by (intro safe_rules; use assms(2) ok in \<open>simp add: cfg_simps plain_ok plain_state_ok cb_step_def\<close>)
  have flag: "flag_set (q\<lparr>nread := v\<rparr>) f \<longleftrightarrow> flag_set q f" for q v f by (simp add: flag_set_def)
  have body: "cfg_ok 0 (c\<lparr>hp := (hp c)\<lparr>nread := 0\<rparr>, cur := s_chunk_size_start\<rparr>)"
    if "flag_set (hp c) F_CHUNKED"
    using that ok by (simp add: cfg_ok_def state_ok_def chunk_state_def marks_ok_def flag)
  have body': "cfg_ok 0 (c\<lparr>hp := (hp c)\<lparr>nread := 0\<rparr>, cur := s\<rparr>)"
    if "s = s_body_identity_eof \<or> s = s_body_identity \<and> content_length (hp c) \<noteq> 0 \<and> content_length (hp c) \<noteq> ULLONG_MAX" for s
    using that ok by (auto simp: cfg_ok_def state_ok_def chunk_state_def marks_ok_def)
  show "safe data (case_headers_done S c)"
    unfolding case_headers_done_def CALLBACK_NOTIFY_def
    by (intro safe_rules; use assms(2) ok body body' in
        \<open>simp add: cfg_simps plain_ok plain_state_ok cb_step_def flag\<close>)
qed

lemma only_mark_MARK:
  "only_mark m c \<Longrightarrow> pos c \<le> pos c' \<Longrightarrow> marks c' = marks (MARK m c) \<Longrightarrow> only_mark m c'"
  unfolding only_mark_def MARK_def by (auto split: if_splits) (meson order_trans)

lemma consume_facts:
  assumes "pos c < length data" "content_length (hp c) \<noteq> 0" "only_mark CB_body c"
  shows "http_errno (hp (consume data c)) = http_errno (hp c)" "nread (hp (consume data c)) = nread (hp c)"
    "flags (hp (consume data c)) = flags (hp c)" "cur (consume data c) = cur c"
    "unat (content_length (hp (consume data c))) = unat (content_length (hp c)) - to_read data c"
    "only_mark CB_body (consume data c)"
proof -
  show "http_errno (hp (consume data c)) = http_errno (hp c)" "nread (hp (consume data c)) = nread (hp c)"
    "flags (hp (consume data c)) = flags (hp c)" "cur (consume data c) = cur c"
    by (simp_all add: consume_def Let_def cfg_simps)
  have le: "to_read data c \<le> unat (content_length (hp c))" by (simp add: to_read_def)
  then have "unat (of_nat (to_read data c) :: u64) = to_read data c"
    by (metis le_unat_uoi)
  then show "unat (content_length (hp (consume data c))) = unat (content_length (hp c)) - to_read data c"
    using le by (simp add: consume_def Let_def cfg_simps unat_sub word_le_nat_alt)
  have "pos c \<le> pos (consume data c)" using consume_pos assms by blast
  then show "only_mark CB_body (consume data c)"
    by (rule only_mark_MARK [OF assms(3)]) (simp add: consume_def Let_def upd_def)
qed

lemma body_cfg_ok:
  assumes "cur c \<in> {s_body_identity, s_body_identity_eof, s_chunk_data, s_chunk_data_almost_done}"
  shows "cfg_ok n c \<longleftrightarrow> http_errno (hp c) = HPE_OK \<and> state_ok n (cur c) (hp c) \<and> only_mark CB_body c"
  using assms by (intro only_mark_iff) auto

lemma safe_body:
  assumes "cfg_ok 1 c" "pos c < length data"
  shows "cur c = s_body_identity \<Longrightarrow> safe data (case_body_identity S data c)"
    "cur c = s_body_identity_eof \<Longrightarrow> safe data (case_body_identity_eof data c)"
    "cur c = s_chunk_data \<Longrightarrow> safe data (case_chunk_data data c)"
    "cur c = s_chunk_data_almost_done \<Longrightarrow> safe data (case_chunk_data_almost_done S data c)"
proof -
  have less: "unat y - n < unat (ULLONG_MAX)" if "y \<noteq> ULLONG_MAX" "n \<le> unat y" for y n
  proof -
    have "unat y \<noteq> unat ULLONG_MAX" using that(1) by (simp add: word_unat_eq_iff)
    moreover have "unat y \<le> unat ULLONG_MAX" by (simp add: ULLONG_MAX_def word_le_nat_alt [symmetric])
    ultimately show ?thesis by linarith
  qed
  have max: "y \<noteq> ULLONG_MAX" if "unat y < unat ULLONG_MAX" for y using that by auto
  have read: "to_read data c \<le> unat (content_length (hp c))" by (simp add: to_read_def)
  show "safe data (case_body_identity S data c)" if "cur c = s_body_identity"
  proof -
    have ok: "http_errno (hp c) = HPE_OK" "unat (nread (hp c)) \<le> HTTP_MAX_HEADER_SIZE" "only_mark CB_body c"
      "content_length (hp c) \<noteq> 0" "content_length (hp c) \<noteq> ULLONG_MAX"
      using assms(1) that body_cfg_ok [of c] by (simp_all add: state_ok_def)
    note f = consume_facts [OF assms(2) ok(4,3)] consume_pos [OF assms(2) ok(4)]
    have ne: "content_length (hp (consume data c)) \<noteq> ULLONG_MAX"
      using max less [OF ok(5) read] f(5) by simp
    note m = only_mark_clear [OF f(6)] only_markD [OF f(6)]
    show ?thesis
      unfolding case_body_identity_def
      by (intro safe_rules; use ok f(1-8) ne m that in
          \<open>force simp: cfg_simps cb_step_def plain_ok plain_state_ok body_cfg_ok state_ok_def chunk_state_def\<close>)
  qed
  show "safe data (case_body_identity_eof data c)" if "cur c = s_body_identity_eof"
  proof -
    have ok: "http_errno (hp c) = HPE_OK" "unat (nread (hp c)) \<le> HTTP_MAX_HEADER_SIZE" "only_mark CB_body c"
      using assms(1) that body_cfg_ok [of c] by (simp_all add: state_ok_def)
    have "only_mark CB_body ((MARK CB_body c)\<lparr>pos := length data - 1\<rparr>)"
      using assms(2) by (intro only_mark_MARK [OF ok(3)]) auto
    then show ?thesis
      using that ok assms(2) unfolding case_body_identity_eof_def
      by (auto simp: body_cfg_ok state_ok_def chunk_state_def cfg_simps)
  qed
  show "safe data (case_chunk_data data c)" if "cur c = s_chunk_data"
  proof -
    have ok: "http_errno (hp c) = HPE_OK" "unat (nread (hp c)) \<le> HTTP_MAX_HEADER_SIZE" "only_mark CB_body c"
      "content_length (hp c) \<noteq> 0" "content_length (hp c) \<noteq> ULLONG_MAX" "flag_set (hp c) F_CHUNKED"
      using assms(1) that body_cfg_ok [of c] by (simp_all add: state_ok_def chunk_state_def)
    note f = consume_facts [OF assms(2) ok(4,3)] consume_pos [OF assms(2) ok(4)]
    have ne: "content_length (hp (consume data c)) \<noteq> ULLONG_MAX"
      using max less [OF ok(5) read] f(5) by simp
    have om: "only_mark CB_body ((consume data c)\<lparr>cur := s_chunk_data_almost_done\<rparr>)"
      using f(6) by (simp add: only_mark_def)
    show ?thesis
      unfolding case_chunk_data_def
      by (intro safe_rules; use ok f(1-8) ne om that in
          \<open>force simp: cfg_simps body_cfg_ok state_ok_def chunk_state_def flag_set_def\<close>)
  qed
  show "safe data (case_chunk_data_almost_done S data c)" if "cur c = s_chunk_data_almost_done"
  proof -
    have ok: "http_errno (hp c) = HPE_OK" "unat (nread (hp c)) \<le> HTTP_MAX_HEADER_SIZE" "only_mark CB_body c"
      "content_length (hp c) = 0" "flag_set (hp c) F_CHUNKED"
      using assms(1) that body_cfg_ok [of c] by (simp_all add: state_ok_def chunk_state_def)
    note m = only_mark_clear [OF ok(3)] only_markD [OF ok(3)]
    show ?thesis
      unfolding case_chunk_data_almost_done_def CALLBACK_DATA_def
      by (intro safe_rules; use ok assms(2) m in
          \<open>force simp: cfg_simps cb_step_def cfg_ok_def marks_ok_def state_ok_def chunk_state_def flag_set_def\<close>)
  qed
qed

lemma of_int_unhex:
  assumes "unhex ch \<noteq> - 1"
  shows "unat (of_int (unhex ch) :: u64) = nat (unhex ch)" "nat (unhex ch) \<le> 15"
proof -
  have "0 \<le> unhex ch" "unhex ch \<le> 15" using assms unhex_range [of ch] by auto
  then show "nat (unhex ch) \<le> 15" "unat (of_int (unhex ch) :: u64) = nat (unhex ch)"
    by (simp_all add: unat_eq_nat_uint uint_word_of_int_eq take_bit_int_eq_self)
qed

lemma unat_ULLONG_MAX: "unat ULLONG_MAX = 2 ^ 64 - 1"
  by (simp add: ULLONG_MAX_def unsigned_minus_1_eq_mask mask_eq_exp_minus_1)

text \<open>The guard of the code keeps the chunk size below the value that stands for no length.\<close>

lemma chunk_size_guard:
  assumes "\<not> (ULLONG_MAX - 16) div 16 < n" "unhex ch \<noteq> - 1"
  shows "unat (n * 16 + of_int (unhex ch)) = unat n * 16 + nat (unhex ch)"
    "n * 16 + of_int (unhex ch) \<noteq> ULLONG_MAX"
proof -
  have "unat ((ULLONG_MAX - 16) div 16) = (2 ^ 64 - 17) div 16"
    by (simp add: ULLONG_MAX_def unat_div)
  then have n: "unat n \<le> (2 ^ 64 - 17) div 16"
    using assms(1) by (simp add: word_less_nat_alt not_less)
  then have "unat n * 16 + nat (unhex ch) < 2 ^ 64 - 1" using of_int_unhex(2) [OF assms(2)] by simp
  moreover from this show eq: "unat (n * 16 + of_int (unhex ch)) = unat n * 16 + nat (unhex ch)"
    using of_int_unhex [OF assms(2)] by (simp add: unat_word_ariths)
  ultimately show "n * 16 + of_int (unhex ch) \<noteq> ULLONG_MAX" using unat_ULLONG_MAX by auto
qed

lemma safe_chunk:
  assumes "cfg_ok 1 c" "pos c < length data"
  shows "cur c = s_chunk_size_start \<Longrightarrow> safe data (case_chunk_size_start c)"
    "cur c = s_chunk_size \<Longrightarrow> safe data (case_chunk_size c)"
    "cur c = s_chunk_parameters \<Longrightarrow> safe data (case_chunk_parameters c)"
    "cur c = s_chunk_size_almost_done \<Longrightarrow> safe data (case_chunk_size_almost_done S c)"
    "cur c = s_chunk_data_done \<Longrightarrow> safe data (case_chunk_data_done S c)"
proof -
  have ok: "http_errno (hp c) = HPE_OK" "unat (nread (hp c)) \<le> HTTP_MAX_HEADER_SIZE"
    "state_ok 1 (cur c) (hp c)"
    using assms(1) by (simp_all add: cfg_ok_def state_ok_def)
  have m: "marks c = (\<lambda>_. None)" if "chunk_state (cur c)" "cur c \<noteq> s_chunk_data" "cur c \<noteq> s_chunk_data_almost_done"
    using no_marks [of c] assms(1) that mark_state_cases [of "\<lambda>m. \<not> mark_state m (cur c)"]
    by (auto simp: cfg_ok_def chunk_state_def url_state_def)
  have flag: "flag_set (q\<lparr>nread := v\<rparr>) f \<longleftrightarrow> flag_set q f" "flag_set (q\<lparr>content_length := l\<rparr>) f \<longleftrightarrow> flag_set q f"
    for q v f l by (simp_all add: flag_set_def)
  have small: "(of_int (unhex ch) :: u64) \<noteq> ULLONG_MAX" if "unhex ch \<noteq> - 1" for ch
    using of_int_unhex [OF that] unat_ULLONG_MAX by auto
  show "safe data (case_chunk_size_start c)" if "cur c = s_chunk_size_start"
  proof -
    have "unat (nread (hp c)) = unat (1 :: u32)" using ok(3) that by (simp add: state_ok_def)
    then have "nread (hp c) = 1" by (simp only: word_unat_eq_iff)
    then show ?thesis
      unfolding case_chunk_size_start_def
      by (intro safe_rules; use that ok assms m small in
          \<open>simp add: cfg_simps cfg_ok_def state_ok_def chunk_state_def marks_ok_def flag\<close>)
  qed
  show "safe data (case_chunk_size c)" if "cur c = s_chunk_size"
    unfolding case_chunk_size_def
    by (intro safe_rules; use that ok assms m chunk_size_guard in
        \<open>simp add: cfg_simps cfg_ok_def state_ok_def chunk_state_def marks_ok_def flag\<close>)
  show "safe data (case_chunk_parameters c)" if "cur c = s_chunk_parameters"
    unfolding case_chunk_parameters_def
    by (intro safe_rules; use that ok assms m in
        \<open>simp add: cfg_simps cfg_ok_def state_ok_def chunk_state_def marks_ok_def flag\<close>)
  show "safe data (case_chunk_size_almost_done S c)" if "cur c = s_chunk_size_almost_done"
    unfolding case_chunk_size_almost_done_def CALLBACK_NOTIFY_def
    by (intro safe_rules; use that ok assms m in
        \<open>simp add: cfg_simps cfg_ok_def state_ok_def chunk_state_def marks_ok_def flag cb_step_def flag_set_def split: if_splits\<close>)
  show "safe data (case_chunk_data_done S c)" if "cur c = s_chunk_data_done"
    unfolding case_chunk_data_done_def CALLBACK_NOTIFY_def
    by (intro safe_rules; use that ok assms m in
        \<open>simp add: cfg_simps cfg_ok_def state_ok_def chunk_state_def marks_ok_def flag cb_step_def flag_set_def\<close>)
qed

section \<open>The whole call\<close>

lemma http_switch_safe:
  assumes "cfg_ok 1 c" "pos c < length data"
  shows "safe data (http_switch S data lenient c)"
  using safe_plain [OF assms] safe_start [OF assms] safe_request [OF assms] safe_req_method [OF assms]
    safe_res_status [OF assms] safe_header_field_start [OF assms] safe_header_field [OF assms]
    safe_value_start [OF assms] safe_header_value [OF assms] safe_header_lws [OF assms]
    safe_headers_end [OF assms] safe_body [OF assms] safe_chunk [OF assms]
  unfolding http_switch_def
  by (cases "cur c"; simp only: pstate.case plain_states; simp add: url_state_def)

lemma reexecute_safe:
  "cfg_ok 1 c \<Longrightarrow> pos c < length data \<Longrightarrow> safe data (reexecute S data lenient c)"
proof (induction S data lenient c rule: reexecute.induct)
  case (1 S data lenient c)
  have sw: "safe data (http_switch S data lenient c)" by (rule http_switch_safe [OF 1(2,3)])
  show ?case
  proof (cases "http_switch S data lenient c")
    case (Again c')
    then show ?thesis using 1(1) [OF Again] sw by (subst reexecute.simps) simp
  qed (use sw in \<open>subst reexecute.simps, simp\<close>)+
qed

lemma reexecute_not_Again: "reexecute S data lenient c \<noteq> Again c'"
proof (induction S data lenient c rule: reexecute.induct)
  case (1 S data lenient c)
  then show ?case by (subst reexecute.simps) (auto split: res.split)
qed

lemma count_byte_ok:
  assumes "cfg_ok 0 c" "pos c < length data"
  shows "case count_byte c of Next c1 \<Rightarrow> cfg_ok 1 c1 \<and> pos c1 = pos c | r \<Rightarrow> safe data r"
proof (cases "PARSING_HEADER (cur c)")
  case True
  let ?c = "c\<lparr>hp := (hp c)\<lparr>nread := nread (hp c) + 1\<rparr>\<rparr>"
  have flag: "flag_set (q\<lparr>nread := v\<rparr>) f \<longleftrightarrow> flag_set q f" for q v f by (simp add: flag_set_def)
  have "cfg_ok 1 ?c" if "unat (nread (hp c) + 1) \<le> HTTP_MAX_HEADER_SIZE"
  proof -
    have "unat (nread (hp c) + 1) = 1" if "unat (nread (hp c)) = 0"
      using that by (simp add: unat_eq_zero)
    then show ?thesis
      using assms(1) that by (simp add: cfg_ok_def state_ok_def marks_ok_def flag)
  qed
  then show ?thesis
    using True assms(2)
    by (auto simp: count_byte_def COUNT_HEADER_SIZE_def fail_def Let_def cfg_simps not_less)
next
  case False
  then have "cur c \<noteq> s_chunk_size_start" by (auto simp: PARSING_HEADER_def)
  then show ?thesis using False assms by (auto simp: count_byte_def cfg_ok_def state_ok_def)
qed

lemma one_byte_safe:
  assumes "cfg_ok 0 c" "pos c < length data"
  shows "safe data (one_byte S data lenient c)" "one_byte S data lenient c \<noteq> Again c'"
proof -
  have "cfg_ok 0 (c\<lparr>chr := data ! pos c\<rparr>)" using assms(1) by (simp add: cfg_ok_def marks_ok_def)
  note cb = count_byte_ok [OF this, of data]
  then show "safe data (one_byte S data lenient c)"
    using cb assms(2) unfolding one_byte_def
    by (cases "count_byte (c\<lparr>chr := data ! pos c\<rparr>)") (auto intro: reexecute_safe)
  show "one_byte S data lenient c \<noteq> Again c'"
    unfolding one_byte_def count_byte_def COUNT_HEADER_SIZE_def fail_def Let_def
    by (auto simp: reexecute_not_Again split: if_splits)
qed

lemma exec_loop_safe:
  "cfg_ok 0 c \<Longrightarrow> pos c \<le> length data \<Longrightarrow>
     case exec_loop S data lenient c of Next c1 \<Rightarrow> cfg_ok 0 c1 \<and> pos c1 = length data
       | Again c1 \<Rightarrow> False | r \<Rightarrow> safe data r"
proof (induction S data lenient c rule: exec_loop.induct)
  case (1 S data lenient c)
  show ?case
  proof (cases "length data \<le> pos c")
    case True
    then show ?thesis using 1(2,3) by (subst exec_loop.simps) simp
  next
    case False
    have ob: "safe data (one_byte S data lenient c)" "one_byte S data lenient c \<noteq> Again c'" for c'
      using one_byte_safe 1(2) False by (simp_all add: not_le)
    show ?thesis
    proof (cases "one_byte S data lenient c")
      case (Next c1)
      then have "cfg_ok 0 c1" "pos c1 < length data" using ob by simp_all
      moreover from this have "cfg_ok 0 (c1\<lparr>pos := pos c1 + 1\<rparr>)"
        by (auto simp: cfg_ok_def marks_ok_def intro: le_SucI)
      ultimately show ?thesis using 1(1) [OF False Next] False Next by (subst exec_loop.simps) simp
    qed (use ob False in \<open>subst exec_loop.simps, simp\<close>)+
  qed
qed

text \<open>At most one mark is left when the bytes run out.\<close>

lemma mark_state_unique: "mark_state m s \<Longrightarrow> mark_state m' s \<Longrightarrow> m = m'"
  by (cases m; cases m') (auto simp: url_state_def)

lemma marks_ok_single:
  assumes "marks_ok c"
  shows "\<exists>m. \<forall>m'. m' \<noteq> m \<longrightarrow> marks c m' = None"
proof (cases "marks c = (\<lambda>_. None)")
  case False
  then obtain m at where "marks c m = Some at" by (auto simp: fun_eq_iff)
  then have "marks c m' = None" if "m' \<noteq> m" for m'
    using assms that mark_state_unique [of m "cur c" m'] by (cases "marks c m'") (auto simp: marks_ok_def)
  then show ?thesis by blast
qed simp

lemma marks_set_le_1:
  assumes "marks_ok c"
  shows "marks_set c \<le> 1"
proof -
  obtain m where m: "\<And>m'. m' \<noteq> m \<Longrightarrow> marks c m' = None" using marks_ok_single [OF assms] by blast
  show ?thesis using m by (cases m) (auto simp: marks_set_def)
qed

lemma safe_RETURN_end:
  assumes "state_ok 0 (cur c) (hp c)"
  shows "safe data (RETURN (length data) c)"
  using assms by (simp add: RETURN_def cfg_simps state_ok_def flag_set_def)

text \<open>A run of the data callbacks keeps this, and so does the next one.\<close>

definition end_ok :: "string \<Rightarrow> 'u cfg \<Rightarrow> bool" where
  "end_ok data c \<longleftrightarrow> http_errno (hp c) = HPE_OK \<and> state_ok 0 (cur c) (hp c) \<and>
     pos c = length data \<and> (\<forall>m at. marks c m = Some at \<longrightarrow> at \<le> length data)"

lemma state_ok_cb_step: "cb_step c c' \<Longrightarrow> state_ok n s (hp c') = state_ok n s (hp c)"
  by (simp add: cb_step_def state_ok_def flag_set_def)

lemma safe_data_end:
  assumes "end_ok data c" "\<And>c'. end_ok data c' \<Longrightarrow> safe data (k c')"
  shows "safe data (CALLBACK_DATA_NOADVANCE S data m c k)"
  unfolding CALLBACK_DATA_NOADVANCE_def
proof (rule DATA_rule [where Q = "safe data"])
  fix c' :: "'a cfg"
  assume cb: "cb_step c c'"
  note st = state_ok_cb_step [OF cb]
  {
    assume "http_errno (hp c') = HPE_OK"
    then have "end_ok data (clear_mark m c')"
      using assms(1) cb st by (auto simp: end_ok_def cb_step_def clear_mark_def)
    then show "safe data (k (clear_mark m c'))" by (rule assms(2))
  }
  assume "http_errno (hp c') \<noteq> HPE_OK" "state (hp c') = cur c"
  then show "safe data (Ret (pos c) c')"
    using assms(1) st by (simp add: end_ok_def)
qed (use assms(1) in \<open>fastforce simp: end_ok_def\<close>)+

lemma exec_end_safe:
  assumes "cfg_ok 0 c" "pos c = length data"
  shows "safe data (exec_end S data c)"
proof -
  have "marks_set c \<le> 1" using assms marks_set_le_1 by (auto simp: cfg_ok_def)
  moreover have "end_ok data c" using assms by (auto simp: end_ok_def cfg_ok_def marks_ok_def)
  ultimately show ?thesis
    unfolding exec_end_def ASSERT_def
    by (simp only: if_True) (intro safe_data_end safe_RETURN_end; simp add: end_ok_def)
qed

text \<open>The code behind the loop always returns.\<close>

definition returned :: "'u res \<Rightarrow> bool" where
  "returned r \<longleftrightarrow> (case r of Ret n c \<Rightarrow> True | Abort \<Rightarrow> True | _ \<Rightarrow> False)"

lemma exec_end_returned: "returned (exec_end S data c)"
  unfolding exec_end_def CALLBACK_DATA_NOADVANCE_def
  by (intro ASSERT_rule [where Q = returned] DATA_rule [where Q = returned];
      simp add: returned_def RETURN_def)

text \<open>What a parser must satisfy between two calls.\<close>

definition parser_wf :: "http_parser \<Rightarrow> bool" where
  "parser_wf q \<longleftrightarrow> (http_errno q = HPE_OK \<or> http_errno q = HPE_PAUSED \<longrightarrow> state_ok 0 (state q) q)"

lemma execute_res_safe:
  assumes "parser_wf q"
  shows "case execute_res S data q u of
      Err c \<Rightarrow> http_errno (hp c) \<noteq> HPE_OK \<and> http_errno (hp c) \<noteq> HPE_PAUSED \<and> pos c \<le> length data
    | Ret n c \<Rightarrow> parser_wf (hp c) \<and>
        (if http_errno q \<noteq> HPE_OK then n = 0 \<and> hp c = q
         else if http_errno (hp c) = HPE_OK then n = length data \<or> upgrade (hp c) \<and> n \<le> length data
         else n \<le> length data \<or> n = 1 \<and> data = [] \<and> http_errno (hp c) = HPE_INVALID_EOF_STATE)
    | _ \<Rightarrow> False"
proof (cases "http_errno q = HPE_OK")
  case False
  then show ?thesis using assms by (simp add: execute_res_def Let_def exec_start_def)
next
  case True
  then have st: "state_ok 0 (state q) q" using assms by (simp add: parser_wf_def)
  let ?c = "exec_start q u"
  show ?thesis
  proof (cases "data = []")
    case True
    define P where "P r \<longleftrightarrow> (case r of Ret n c \<Rightarrow> n = 0 \<and> parser_wf (hp c) | _ \<Rightarrow> False)" for r :: "'a res"
    have eof: "P (CALLBACK_NOTIFY_ER S CB_message_complete (pos ?c) ?c (Ret 0))"
    proof (rule NOTIFY_rule [where Q = P])
      fix c' assume cb: "cb_step ?c c'"
      then have st': "state_ok 0 (state q) (hp c')"
        using state_ok_cb_step [OF cb] st by (simp add: exec_start_def)
      show "P (Ret 0 c')" if "state (hp c') = cur ?c \<or> c' = ?c"
        using that st' by (auto simp: P_def parser_wf_def exec_start_def)
      show "P (Ret (pos ?c) c')" if "state (hp c') = cur ?c"
        using that st' by (auto simp: P_def parser_wf_def exec_start_def)
    qed (use \<open>http_errno q = HPE_OK\<close> in \<open>simp add: exec_start_def\<close>)
    then show ?thesis
      using True \<open>http_errno q = HPE_OK\<close> assms
      by (auto simp: execute_res_def exec_eof_def CALLBACK_NOTIFY_NOADVANCE_def P_def Let_def
          SET_ERRNO_def upd_def parser_wf_def exec_start_def split: res.splits)
  next
    case False
    let ?c1 = "?c\<lparr>marks := initial_marks (state q)\<rparr>"
    have "cfg_ok 0 ?c1"
      using st \<open>http_errno q = HPE_OK\<close>
      by (auto simp: cfg_ok_def marks_ok_def exec_start_def initial_marks_def split: if_splits)
    then have lp: "case exec_loop S data (lenient_http_headers q) ?c1 of
        Next c1 \<Rightarrow> cfg_ok 0 c1 \<and> pos c1 = length data | Again c1 \<Rightarrow> False | r \<Rightarrow> safe data r"
      by (intro exec_loop_safe) (auto simp: exec_start_def)
    have "safe data (execute_res S data q u) \<and>
        (case execute_res S data q u of Next c \<Rightarrow> False | Again c \<Rightarrow> False | _ \<Rightarrow> True)"
    proof (cases "exec_loop S data (lenient_http_headers q) ?c1")
      case (Next c1)
      then have "execute_res S data q u = exec_end S data c1"
        using False \<open>http_errno q = HPE_OK\<close> by (simp add: execute_res_def Let_def)
      then show ?thesis
        using exec_end_safe [of c1 data S] exec_end_returned [of S data c1] lp Next
        by (auto simp: returned_def split: res.splits)
    qed (use lp False \<open>http_errno q = HPE_OK\<close> in \<open>simp_all add: execute_res_def Let_def\<close>)
    then show ?thesis
      using \<open>http_errno q = HPE_OK\<close> by (auto simp: parser_wf_def split: res.splits)
  qed
qed

end
