(* ===== verification/Http_Props.thy ===== *)
theory Http_Props
  imports Http_Safe
begin

text \<open>
  The properties of the HTTP parser, with their witnesses evaluated on short inputs.
\<close>

section \<open>Evaluation\<close>

text \<open>The equations that run the parser on a concrete input.\<close>

lemmas exec_eval = http_parser_execute_def execute_res_def exec_start_def exec_loop.simps one_byte_def
  count_byte_def PARSING_HEADER_def HTTP_MAX_HEADER_SIZE_def reexecute.simps http_switch_def macro_defs
  initial_marks_def url_state_def exec_end_def marks_set_def exec_eof_def

lemmas start_eval = case_dead_def case_start_req_def case_start_res_def case_start_req_or_res_def
  reset_message_def method_of_first_def IS_ALPHA_def case_req_method_def cstr_at_def method_switch_def

lemma c_memchr_numeral [simp]:
  "c_memchr data p ch (numeral n) = (if data ! p = ch then Some p else c_memchr data (Suc p) ch (pred_numeral n))"
  by (simp add: numeral_eq_Suc)

lemmas header_eval = case_header_value_def hv_loop.simps hv_after_def hv_step_def skip_to_def
  case_header_almost_done_def IS_HEADER_CHAR_def

section \<open>Safety\<close>

text \<open>
  The user's state of a list of buffers fed to one parser, as the agents do with what they read
  from a socket.
\<close>

fun feed_all :: "'u http_parser_settings \<Rightarrow> string list \<Rightarrow> http_parser \<Rightarrow> 'u \<Rightarrow> (http_parser \<times> 'u) option" where
  "feed_all S [] q u = Some (q, u)"
| "feed_all S (d # ds) q u =
     (case http_parser_execute S d q u of
        None \<Rightarrow> None
      | Some (n, q', u') \<Rightarrow> feed_all S ds q' u')"

lemma http_parser_init_wf: "parser_wf (http_parser_init t)"
  by (simp add: parser_wf_def plain_state_ok http_parser_init_def)

lemma execute_safe:
  assumes "parser_wf q"
  shows "\<exists>n q' u'. http_parser_execute S data q u = Some (n, q', u') \<and> parser_wf q' \<and>
    (if http_errno q \<noteq> HPE_OK then n = 0 \<and> q' = q
     else if http_errno q' = HPE_OK then n = length data \<or> upgrade q' \<and> n \<le> length data
     else n \<le> length data \<or> n = 1 \<and> data = [] \<and> http_errno q' = HPE_INVALID_EOF_STATE)"
proof (cases "execute_res S data q u")
  case (Ret n c)
  then show ?thesis using execute_res_safe [OF assms, where S = S and data = data and u = u] by (auto simp: http_parser_execute_def split: if_splits)
next
  case (Err c)
  have "http_errno q = HPE_OK"
  proof (rule ccontr)
    assume "http_errno q \<noteq> HPE_OK"
    then show False using Err by (simp add: execute_res_def Let_def)
  qed
  then show ?thesis
    using execute_res_safe [OF assms, where S = S and data = data and u = u] Err
    by (simp add: http_parser_execute_def Let_def save_state_def upd_def parser_wf_def)
qed (use execute_res_safe [OF assms, where S = S and data = data and u = u] in \<open>simp_all\<close>)

lemma feed_all_safe: "parser_wf q \<Longrightarrow> \<exists>q' u'. feed_all S ds q u = Some (q', u') \<and> parser_wf q'"
proof (induction ds arbitrary: q u)
  case (Cons d ds)
  obtain n q' u' where e: "http_parser_execute S d q u = Some (n, q', u')" "parser_wf q'"
    using execute_safe [OF Cons.prems, where S = S and data = d and u = u] by blast
  show ?case using Cons.IH [OF e(2)] e(1) by simp
qed simp

text \<open>
  C1: Whatever bytes arrive, in buffers of any size, and whatever the callbacks answer, a parser
  that starts from http_parser_init never runs into a failed assertion and never reads or hands
  out a byte outside the buffer; the invariant that carries this holds after every buffer.
\<close>

theorem http_parser_never_aborts:
  "\<exists>q u'. feed_all S ds (http_parser_init t) u = Some (q, u') \<and> parser_wf q"
  by (rule feed_all_safe [OF http_parser_init_wf])

text \<open>
  C25: http_parser_execute reports how far it got: without an error it has consumed the whole
  buffer unless it stopped for an upgrade, it never reports more than the buffer (but for the one
  byte it answers an unexpected end of the stream with), a parser in error stays as it is, and the
  header bytes counted never exceed the limit of 80 KiB.
\<close>

theorem http_parser_execute_nparsed:
  assumes "parser_wf q"
  shows "\<exists>n q' u'. http_parser_execute S data q u = Some (n, q', u') \<and> parser_wf q' \<and>
    (http_errno q \<noteq> HPE_OK \<longrightarrow> n = 0 \<and> q' = q) \<and>
    (http_errno q' = HPE_OK \<longrightarrow> unat (nread q') \<le> 80 * 1024 \<and> n \<le> length data \<and>
       (\<not> upgrade q' \<longrightarrow> n = length data)) \<and>
    (n \<le> length data \<or> n = 1 \<and> data = [] \<and> http_errno q' = HPE_INVALID_EOF_STATE)"
proof -
  obtain n q' u' where e: "http_parser_execute S data q u = Some (n, q', u')" "parser_wf q'"
    "if http_errno q \<noteq> HPE_OK then n = 0 \<and> q' = q
     else if http_errno q' = HPE_OK then n = length data \<or> upgrade q' \<and> n \<le> length data
     else n \<le> length data \<or> n = 1 \<and> data = [] \<and> http_errno q' = HPE_INVALID_EOF_STATE"
    using execute_safe [OF assms, where S = S and data = data and u = u] by blast
  have "unat (nread q') \<le> 80 * 1024" if "http_errno q' = HPE_OK"
    using e(2) that by (simp add: parser_wf_def state_ok_def HTTP_MAX_HEADER_SIZE_def)
  then show ?thesis using e by (auto split: if_splits)
qed

lemma http_parser_execute_nparsed_witness:
  "parser_wf (http_parser_init HTTP_REQUEST) \<and>
   (\<exists>n q' u'. http_parser_execute (http_parser_settings_init :: unit http_parser_settings) ''GET ''
      (http_parser_init HTTP_REQUEST) () = Some (n, q', u') \<and> parser_wf q' \<and> n \<le> 4)"
  using http_parser_execute_nparsed [OF http_parser_init_wf [of HTTP_REQUEST],
      where S = "http_parser_settings_init :: unit http_parser_settings" and data = "''GET ''" and u = "()"] http_parser_init_wf
  by auto

section \<open>The end of a connection\<close>

lemma exec_loop_dead:
  assumes "cur c = s_dead" "http_errno (hp c) = HPE_OK" "i < length data" "pos c \<le> i"
    and "data ! i \<noteq> CR" "data ! i \<noteq> LF"
    and "\<And>j. pos c \<le> j \<Longrightarrow> j < i \<Longrightarrow> data ! j = CR \<or> data ! j = LF"
    and "unat (nread (hp c)) + (i - pos c) < HTTP_MAX_HEADER_SIZE"
  shows "\<exists>c'. exec_loop S data lenient c = Err c' \<and> http_errno (hp c') = HPE_CLOSED_CONNECTION \<and>
    pos c' = i \<and> usr c' = usr c"
  using assms
proof (induction S data lenient c rule: exec_loop.induct)
  case (1 S data lenient c)
  let ?c = "c\<lparr>chr := data ! pos c, hp := (hp c)\<lparr>nread := nread (hp c) + 1\<rparr>\<rparr>"
  have "Suc (unat (nread (hp c))) < 2 ^ 32" using 1(9) by (simp add: HTTP_MAX_HEADER_SIZE_def)
  then have inc: "unat (nread (hp c) + 1) = Suc (unat (nread (hp c)))" by (simp add: unat_word_ariths)
  have small: "\<not> HTTP_MAX_HEADER_SIZE < unat (nread (hp c) + 1)" using 1(9) inc by linarith
  then have ob: "one_byte S data lenient c = reexecute S data lenient ?c"
    using 1(2) by (simp add: one_byte_def count_byte_def PARSING_HEADER_def COUNT_HEADER_SIZE_def upd_def Let_def)
  show ?case
  proof (cases "pos c = i")
    case True
    then have "one_byte S data lenient c = fail HPE_CLOSED_CONNECTION ?c"
      using 1(2,6,7) ob by (simp add: reexecute.simps http_switch_def case_dead_def fail_def)
    then show ?thesis
      using True 1(4) by (subst exec_loop.simps) (simp add: fail_def SET_ERRNO_def upd_def)
  next
    case False
    then have "data ! pos c = CR \<or> data ! pos c = LF" using 1(5,8) by auto
    then have nx: "one_byte S data lenient c = Next ?c"
      using 1(2) ob by (auto simp: reexecute.simps http_switch_def case_dead_def)
    have lt: "\<not> length data \<le> pos c" using 1(4,5) by simp
    have "exec_loop S data lenient c = exec_loop S data lenient (?c\<lparr>pos := pos ?c + 1\<rparr>)"
      using lt nx by (subst exec_loop.simps) simp
    then show ?thesis using 1(1) [OF lt nx] 1(2-9) False inc by simp
  qed
qed

text \<open>
  After a message that closes the connection (state s_dead) only line breaks are accepted: the
  first other byte, within the header limit, stops the parser there with HPE_CLOSED_CONNECTION and
  no callback has run.
\<close>

theorem http_dead_rejects:
  assumes "state q = s_dead" "http_errno q = HPE_OK" "i < length data"
    and "data ! i \<noteq> CR" "data ! i \<noteq> LF" "\<And>j. j < i \<Longrightarrow> data ! j = CR \<or> data ! j = LF"
    and "unat (nread q) + i < 80 * 1024"
  shows "\<exists>q'. http_parser_execute S data q u = Some (i, q', u) \<and> http_errno q' = HPE_CLOSED_CONNECTION"
proof -
  let ?c = "(exec_start q u)\<lparr>marks := initial_marks (state q)\<rparr>"
  have "\<exists>c'. exec_loop S data (lenient_http_headers q) ?c = Err c' \<and>
      http_errno (hp c') = HPE_CLOSED_CONNECTION \<and> pos c' = i \<and> usr c' = usr ?c"
    using assms by (intro exec_loop_dead) (auto simp: exec_start_def HTTP_MAX_HEADER_SIZE_def)
  moreover have "data \<noteq> []" using assms(3) by auto
  ultimately show ?thesis
    using assms(2)
    by (auto simp: http_parser_execute_def execute_res_def Let_def exec_start_def save_state_def upd_def)
qed

lemma http_dead_rejects_witness:
  "\<exists>q'. http_parser_execute (http_parser_settings_init :: unit http_parser_settings) (CR # LF # ''GET'')
      ((http_parser_init HTTP_REQUEST)\<lparr>state := s_dead\<rparr>) () = Some (2, q', ()) \<and>
    http_errno q' = HPE_CLOSED_CONNECTION"
  by (rule http_dead_rejects) (auto simp: http_parser_init_def less_Suc_eq numeral_2_eq_2)

section \<open>Bodies of a known length\<close>

text \<open>A user that keeps the bytes of the body and is not told of the end of the message.\<close>

definition keeps_body :: "string http_parser_settings \<Rightarrow> bool" where
  "keeps_body S \<longleftrightarrow> on_body S = Some (\<lambda>at s q u. (0, False, u @ s)) \<and> on_message_complete S = None"

lemma run_callback_ok:
  "f (hp (save_state c)) (usr c) = (0, False, u) \<Longrightarrow> run_callback f e c = (save_state c)\<lparr>usr := u\<rparr>"
  by (simp add: run_callback_def Let_def save_state_def upd_def)

lemma execute_body_part_call:
  assumes S: "on_body S = Some f" "\<And>q. f 0 data q u = (0, False, u1)" "on_message_complete S = None" and q: "state q = s_body_identity" "http_errno q = HPE_OK" "content_length q \<noteq> ULLONG_MAX"
    and len: "data \<noteq> []" "length data < unat (content_length q)"
  shows "http_parser_execute S data q u =
    Some (length data, q\<lparr>content_length := content_length q - of_nat (length data)\<rparr>, u1)"
proof -
  let ?c = "(exec_start q u)\<lparr>marks := initial_marks (state q)\<rparr>"
  let ?n = "of_nat (length data) :: u64"
  have cl0: "content_length q \<noteq> 0" using len by auto
  have n: "unat ?n = length data"
    using len(2) by (metis le_unat_uoi less_imp_le)
  have "unat (content_length q - ?n) = unat (content_length q) - length data"
    using n len(2) by (simp add: unat_sub word_le_nat_alt)
  then have cl: "content_length q - ?n \<noteq> 0" using len(2) by auto
  have marks0: "initial_marks s_body_identity = (\<lambda>_. None)"
    by (auto simp: initial_marks_def url_state_def fun_eq_iff)
  have pos: "0 < length data" using len(1) by simp
  let ?c1 = "?c\<lparr>chr := data ! 0, marks := (\<lambda>_. None)(CB_body \<mapsto> 0),
      hp := q\<lparr>content_length := content_length q - ?n\<rparr>, pos := length data - 1\<rparr>"
  have "one_byte S data (lenient_http_headers q) ?c = Next ?c1"
    using q cl0 cl len marks0
    by (simp add: one_byte_def count_byte_def PARSING_HEADER_def exec_start_def reexecute.simps http_switch_def
        case_body_identity_def ASSERT_def consume_def to_read_def MARK_def upd_def Let_def min_def)
  then have "exec_loop S data (lenient_http_headers q) ?c = exec_loop S data (lenient_http_headers q) (?c1\<lparr>pos := pos ?c1 + 1\<rparr>)"
    using pos by (subst exec_loop.simps) (simp add: exec_start_def)
  also have "\<dots> = Next (?c1\<lparr>pos := length data\<rparr>)"
    using pos by (subst exec_loop.simps) simp
  finally have loop: "exec_loop S data (lenient_http_headers q) ?c = Next (?c1\<lparr>pos := length data\<rparr>)" .
  have "exec_end S data (?c1\<lparr>pos := length data\<rparr>) =
      RETURN (length data) (clear_mark CB_body ((save_state (?c1\<lparr>pos := length data\<rparr>))\<lparr>usr := u1\<rparr>))"
    using S q
    by (simp add: exec_end_def marks_set_def ASSERT_def CALLBACK_DATA_NOADVANCE_def CALLBACK_DATA_LEN_def
        run_callback_ok save_state_def upd_def exec_start_def Let_def clear_mark_def)
  then show ?thesis
    using loop q(2) len(1) q(1)
    by (simp add: http_parser_execute_def execute_res_def Let_def RETURN_def save_state_def upd_def
        clear_mark_def exec_start_def)
qed

lemma execute_body_part:
  assumes "keeps_body S" "state q = s_body_identity" "http_errno q = HPE_OK" "content_length q \<noteq> ULLONG_MAX"
    "data \<noteq> []" "length data < unat (content_length q)"
  shows "http_parser_execute S data q u =
    Some (length data, q\<lparr>content_length := content_length q - of_nat (length data)\<rparr>, u @ data)"
  using assms by (intro execute_body_part_call) (simp_all add: keeps_body_def)

lemma execute_body_last_call:
  assumes S: "on_body S = Some f" "\<And>q. f 0 data q u = (0, False, u1)" "on_message_complete S = None" and q: "state q = s_body_identity" "http_errno q = HPE_OK" "content_length q \<noteq> ULLONG_MAX"
    and len: "data \<noteq> []" "length data = unat (content_length q)" and up: "\<not> upgrade q"
  shows "http_parser_execute S data q u =
    Some (length data, q\<lparr>content_length := 0, state := NEW_MESSAGE (q\<lparr>content_length := 0, state := s_message_done\<rparr>)\<rparr>, u1)"
proof -
  let ?c = "(exec_start q u)\<lparr>marks := initial_marks (state q)\<rparr>"
  have cl0: "content_length q \<noteq> 0" using len by auto
  have n: "of_nat (length data) = content_length q" using len(2) by simp
  have marks0: "initial_marks s_body_identity = (\<lambda>_. None)"
    by (auto simp: initial_marks_def url_state_def fun_eq_iff)
  have pos: "0 < length data" using len(1) by simp
  let ?q = "q\<lparr>content_length := 0, state := s_message_done\<rparr>"
  let ?c1 = "?c\<lparr>chr := data ! 0, marks := (\<lambda>_. None), hp := ?q,
      cur := NEW_MESSAGE ?q, pos := length data - 1, usr := u1\<rparr>"
  have "one_byte S data (lenient_http_headers q) ?c = Next ?c1"
    using q cl0 len S up n marks0 pos
    by (simp add: one_byte_def count_byte_def PARSING_HEADER_def exec_start_def reexecute.simps http_switch_def
        case_body_identity_def ASSERT_def consume_def to_read_def MARK_def upd_def Let_def UPDATE_STATE_def
        CALLBACK_DATA_LEN_def run_callback_ok save_state_def clear_mark_def case_message_done_def
        CALLBACK_NOTIFY_def CALLBACK_NOTIFY_ER_def new_message_def)
  then have "exec_loop S data (lenient_http_headers q) ?c = exec_loop S data (lenient_http_headers q) (?c1\<lparr>pos := pos ?c1 + 1\<rparr>)"
    using pos by (subst exec_loop.simps) (simp add: exec_start_def)
  also have "\<dots> = Next (?c1\<lparr>pos := length data\<rparr>)"
    using pos by (subst exec_loop.simps) simp
  finally have loop: "exec_loop S data (lenient_http_headers q) ?c = Next (?c1\<lparr>pos := length data\<rparr>)" .
  have "exec_end S data (?c1\<lparr>pos := length data\<rparr>) = RETURN (length data) (?c1\<lparr>pos := length data\<rparr>)"
    using q
    by (simp add: exec_end_def marks_set_def ASSERT_def CALLBACK_DATA_NOADVANCE_def CALLBACK_DATA_LEN_def)
  then show ?thesis
    using loop q(2) len(1)
    by (simp add: http_parser_execute_def execute_res_def Let_def RETURN_def save_state_def upd_def exec_start_def)
qed

lemma execute_body_last:
  assumes "keeps_body S" "state q = s_body_identity" "http_errno q = HPE_OK" "content_length q \<noteq> ULLONG_MAX"
    "data \<noteq> []" "length data = unat (content_length q)" "\<not> upgrade q"
  shows "http_parser_execute S data q u =
    Some (length data, q\<lparr>content_length := 0, state := NEW_MESSAGE (q\<lparr>content_length := 0, state := s_message_done\<rparr>)\<rparr>, u @ data)"
  using assms by (intro execute_body_last_call) (simp_all add: keeps_body_def)

text \<open>A callback that refuses the last piece stops the parser one byte before the end.\<close>

lemma execute_body_refused:
  assumes S: "on_body S = Some f" "\<And>q. f 0 data q u = (r, False, u1)" "r \<noteq> 0"
    and q: "state q = s_body_identity" "http_errno q = HPE_OK" "content_length q \<noteq> ULLONG_MAX"
    and len: "data \<noteq> []" "length data = unat (content_length q)"
  shows "http_parser_execute S data q u =
    Some (length data - 1, q\<lparr>content_length := 0, state := s_message_done, http_errno := HPE_CB_body\<rparr>, u1)"
proof -
  let ?c = "(exec_start q u)\<lparr>marks := initial_marks (state q)\<rparr>"
  have cl0: "content_length q \<noteq> 0" using len by auto
  have n: "of_nat (length data) = content_length q" using len(2) by simp
  have marks0: "initial_marks s_body_identity = (\<lambda>_. None)"
    by (auto simp: initial_marks_def url_state_def fun_eq_iff)
  have pos: "0 < length data" using len(1) by simp
  let ?q = "q\<lparr>content_length := 0, state := s_message_done, http_errno := HPE_CB_body\<rparr>"
  let ?c1 = "?c\<lparr>chr := data ! 0, marks := (\<lambda>_. None)(CB_body := Some 0), hp := ?q,
      cur := s_message_done, pos := length data - 1, usr := u1\<rparr>"
  have "one_byte S data (lenient_http_headers q) ?c = Ret (length data - 1) ?c1"
    using q cl0 len S n marks0 pos
    by (simp add: one_byte_def count_byte_def PARSING_HEADER_def exec_start_def reexecute.simps http_switch_def
        case_body_identity_def ASSERT_def consume_def to_read_def MARK_def upd_def Let_def UPDATE_STATE_def
        CALLBACK_DATA_LEN_def run_callback_def save_state_def)
  then have "exec_loop S data (lenient_http_headers q) ?c = Ret (length data - 1) ?c1"
    using pos by (subst exec_loop.simps) (simp add: exec_start_def)
  then show ?thesis
    using q(2) len(1)
    by (simp add: http_parser_execute_def execute_res_def Let_def exec_start_def)
qed

lemma feed_body:
  assumes "keeps_body S" "state q = s_body_identity" "http_errno q = HPE_OK" "content_length q \<noteq> ULLONG_MAX"
    "\<not> upgrade q" "[] \<notin> set ds" "length (concat ds) = unat (content_length q)" "ds \<noteq> []"
  shows "\<exists>q'. feed_all S ds q u = Some (q', u @ concat ds) \<and> http_errno q' = HPE_OK \<and>
    state q' = NEW_MESSAGE (q\<lparr>content_length := 0, state := s_message_done\<rparr>)"
  using assms
proof (induction ds arbitrary: q u)
  case (Cons d ds)
  show ?case
  proof (cases "ds = []")
    case True
    then show ?thesis
      using execute_body_last [OF Cons.prems(1-4) _ _ Cons.prems(5), of d u] Cons.prems by auto
  next
    case False
    then have "0 < length (concat ds)" using Cons.prems(6) by (cases ds) auto
    moreover have "length d + length (concat ds) = unat (content_length q)" using Cons.prems(7) by simp
    ultimately have lt: "length d < unat (content_length q)" by linarith
    let ?q = "q\<lparr>content_length := content_length q - of_nat (length d)\<rparr>"
    have n: "unat (of_nat (length d) :: u64) = length d" using lt by (metis le_unat_uoi less_imp_le)
    have cl: "unat (content_length ?q) = length (concat ds)"
      using n lt Cons.prems(7) by (simp add: unat_sub word_le_nat_alt)
    have "content_length ?q \<noteq> ULLONG_MAX"
    proof
      assume "content_length ?q = ULLONG_MAX"
      then have "unat (content_length ?q) = unat ULLONG_MAX" by simp
      moreover have "0 < length d" "length d + length (concat ds) = unat (content_length q)"
        using Cons.prems(6,7) by auto
      ultimately have "unat ULLONG_MAX < unat (content_length q)" using cl by linarith
      then show False by (simp add: ULLONG_MAX_def word_less_nat_alt [symmetric])
    qed
    moreover have "http_parser_execute S d q u = Some (length d, ?q, u @ d)"
      using execute_body_part [OF Cons.prems(1-4) _ lt, of u] Cons.prems(6) by auto
    ultimately show ?thesis
      using Cons.IH [of ?q "u @ d"] Cons.prems cl False by simp
  qed
qed simp

text \<open>
  C2: A body of a known length is handed to the user exactly: however the body is cut into
  buffers, the pieces given to on_body concatenate to its bytes, and with its last byte the parser
  is at the start of the next message.
\<close>

theorem http_body_reassembled:
  assumes "keeps_body S" "state q = s_body_identity" "http_errno q = HPE_OK" "\<not> upgrade q"
    and "ds \<noteq> []" "[] \<notin> set ds" "length (concat ds) = unat (content_length q)" "content_length q \<noteq> ULLONG_MAX"
  shows "\<exists>q'. feed_all S ds q [] = Some (q', concat ds) \<and> http_errno q' = HPE_OK \<and>
    state q' = (if http_should_keep_alive (q\<lparr>content_length := 0\<rparr>) then start_state q else s_dead)"
proof -
  have "http_should_keep_alive (q\<lparr>content_length := 0, state := s_message_done\<rparr>) =
      http_should_keep_alive (q\<lparr>content_length := 0\<rparr>)"
    by (simp add: http_should_keep_alive_def http_message_needs_eof_def flag_set_def)
  then have "NEW_MESSAGE (q\<lparr>content_length := 0, state := s_message_done\<rparr>) =
      (if http_should_keep_alive (q\<lparr>content_length := 0\<rparr>) then start_state q else s_dead)"
    by (simp only: NEW_MESSAGE_def start_state_def) simp
  then show ?thesis
    using feed_body [OF assms(1-3,8,4,6,7,5), of "[]"] by auto
qed

lemma http_body_reassembled_witness:
  "\<exists>q'. feed_all ((http_parser_settings_init :: string http_parser_settings)\<lparr>on_body := Some (\<lambda>at s q u. (0, False, u @ s))\<rparr>)
      [''he'', ''llo''] ((http_parser_init HTTP_REQUEST)\<lparr>state := s_body_identity, content_length := 5\<rparr>) [] =
      Some (q', ''hello'') \<and> state q' = s_dead"
  using http_body_reassembled [of "(http_parser_settings_init :: string http_parser_settings)\<lparr>on_body := Some (\<lambda>at s q u. (0, False, u @ s))\<rparr>"
      "(http_parser_init HTTP_REQUEST)\<lparr>state := s_body_identity, content_length := 5\<rparr>" "[''he'', ''llo'']"]
  by (auto simp: keeps_body_def http_parser_settings_init_def http_parser_init_def ULLONG_MAX_def
      http_should_keep_alive_def flag_set_def)

section \<open>Content-Length\<close>

text \<open>The largest value the guard of the code lets through.\<close>

definition max_length :: nat where "max_length = 18446744073709551609"

lemma length_guard:
  assumes "IS_NUM ch"
  shows "(ULLONG_MAX - 10) div 10 < n \<longleftrightarrow> max_length < 10 * unat n + digit ch"
    "\<not> (ULLONG_MAX - 10) div 10 < n \<Longrightarrow> unat (n * 10 + of_nat (digit ch)) = 10 * unat n + digit ch"
proof -
  have g: "unat ((ULLONG_MAX - 10) div 10) = 1844674407370955160"
    by (simp add: ULLONG_MAX_def unat_div)
  show "(ULLONG_MAX - 10) div 10 < n \<longleftrightarrow> max_length < 10 * unat n + digit ch"
    using digit_le [OF assms] by (auto simp: word_less_nat_alt g max_length_def)
  assume "\<not> (ULLONG_MAX - 10) div 10 < n"
  then have "unat n \<le> 1844674407370955160" using g by (simp add: word_less_nat_alt not_less)
  then show "unat (n * 10 + of_nat (digit ch)) = 10 * unat n + digit ch"
    using digit_le [OF assms] by (simp add: unat_word_ariths unat_of_nat mult.commute)
qed

text \<open>The configuration behind the digits: only these three things have changed.\<close>

definition after_digits :: "string \<Rightarrow> 'u cfg \<Rightarrow> 'u cfg" where
  "after_digits ds c =
     c\<lparr>chr := last ds, pos := pos c + length ds,
       hp := (hp c)\<lparr>content_length := of_nat (decimal (unat (content_length (hp c))) ds)\<rparr>\<rparr>"

lemma hv_loop_digits:
  assumes "\<forall>ch \<in> set ds. IS_NUM ch" "ds \<noteq> []" "pos c + length ds \<le> length data"
    and "take (length ds) (drop (pos c) data) = ds"
  shows "if decimal (unat (content_length (hp c))) ds \<le> max_length
    then hv_loop S data lenient start h_content_length_num c =
      hv_loop S data lenient start h_content_length_num (after_digits ds c)
    else \<exists>c'. hv_loop S data lenient start h_content_length_num c = Err c' \<and> http_errno (hp c') = HPE_INVALID_CONTENT_LENGTH"
  using assms
proof (induction ds arbitrary: c)
  case (Cons ch ds)
  have num: "IS_NUM ch" and lt: "pos c < length data" using Cons.prems by simp_all
  have ch: "data ! pos c = ch" and rest: "take (length ds) (drop (Suc (pos c)) data) = ds"
    using Cons.prems(4) lt by (simp_all add: Cons_nth_drop_Suc [symmetric])
  have cls: "ch \<noteq> CR" "ch \<noteq> LF" "ch \<noteq> SP" "IS_HEADER_CHAR ch"
    using num by (auto simp: IS_NUM_def IS_HEADER_CHAR_def)
  let ?n = "content_length (hp c)"
  let ?c = "c\<lparr>chr := ch, hp := (hp c)\<lparr>content_length := ?n * 10 + of_nat (digit ch)\<rparr>, pos := Suc (pos c)\<rparr>"
  show ?case
  proof (cases "(ULLONG_MAX - 10) div 10 < ?n")
    case True
    then have "max_length < decimal (unat ?n) (ch # ds)"
      using length_guard(1) [OF num, of ?n] decimal_ge [of "10 * unat ?n + digit ch" ds] by simp
    moreover have "\<exists>c'. hv_loop S data lenient start h_content_length_num c = Err c' \<and>
        http_errno (hp c') = HPE_INVALID_CONTENT_LENGTH"
      using True lt ch cls num
      by (subst hv_loop.simps) (simp add: Let_def hv_step_def length_digit_def fail_def SET_ERRNO_def upd_def)
    ultimately show ?thesis by simp
  next
    case False
    have eq: "hv_loop S data lenient start h_content_length_num c = hv_loop S data lenient start h_content_length_num ?c"
      using False lt ch cls num
      by (subst hv_loop.simps) (simp add: Let_def hv_step_def length_digit_def upd_def)
    have n: "unat (content_length (hp ?c)) = 10 * unat ?n + digit ch"
      using length_guard(2) [OF num False] by simp
    have le: "10 * unat ?n + digit ch \<le> max_length" using False length_guard(1) [OF num, of ?n] by simp
    show ?thesis
    proof (cases "ds = []")
      case True
      have "?n * 10 + of_nat (digit ch) = of_nat (10 * unat ?n + digit ch)" by (simp add: mult.commute)
      then have "?c = after_digits (ch # ds) c" using True by (simp add: after_digits_def)
      then show ?thesis using le True unfolding eq by simp
    next
      case False
      have "after_digits ds ?c = after_digits (ch # ds) c"
        using False n by (simp add: after_digits_def)
      then show ?thesis using Cons.IH [of ?c] Cons.prems rest False unfolding eq n by simp
    qed
  qed
qed simp

text \<open>
  C24: The digits of a Content-Length header are read exactly: if their decimal value is at most
  18446744073709551609 the loop goes on behind them with content_length being that value and
  nothing else of the parser changed, and a larger value is refused with
  HPE_INVALID_CONTENT_LENGTH; it never wraps around.
\<close>

theorem content_length_exact:
  assumes "\<forall>ch \<in> set ds. IS_NUM ch" "ds \<noteq> []" "pos c + length ds \<le> length data"
    and "take (length ds) (drop (pos c) data) = ds"
  shows "if decimal (unat (content_length (hp c))) ds \<le> 18446744073709551609
    then hv_loop S data lenient start h_content_length_num c =
      hv_loop S data lenient start h_content_length_num (after_digits ds c)
    else \<exists>c'. hv_loop S data lenient start h_content_length_num c = Err c' \<and> http_errno (hp c') = HPE_INVALID_CONTENT_LENGTH"
  using hv_loop_digits [OF assms, where S = S and lenient = lenient and start = start]
  by (simp add: max_length_def)

lemma content_length_exact_witness:
  "\<exists>c'. hv_loop (http_parser_settings_init :: unit http_parser_settings) ''42'' False 0 h_content_length_num
     (exec_start (http_parser_init HTTP_REQUEST) ()) =
     hv_loop http_parser_settings_init ''42'' False 0 h_content_length_num c' \<and>
     content_length (hp c') = 42 \<and> pos c' = 2"
  using content_length_exact [of "''42''" "exec_start (http_parser_init HTTP_REQUEST) ()" "''42''"
      "http_parser_settings_init :: unit http_parser_settings" False 0]
  by (intro exI [of _ "after_digits ''42'' (exec_start (http_parser_init HTTP_REQUEST) ())"])
    (simp add: exec_start_def http_parser_init_def IS_NUM_def digit_def after_digits_def)

section \<open>Methods\<close>

text \<open>The method and index while a name is read, as a fold over its letters.\<close>

fun method_fold :: "http_method \<Rightarrow> nat \<Rightarrow> string \<Rightarrow> http_method option" where
  "method_fold m i [] = Some m"
| "method_fold m i (ch # w) =
     (if ch = cstr_at (http_method_str m) i then method_fold m (Suc i) w
      else case method_switch m i ch of None \<Rightarrow> None | Some m' \<Rightarrow> method_fold m' (Suc i) w)"

definition method_letter :: "char \<Rightarrow> bool" where
  "method_letter ch \<longleftrightarrow> ord CHR ''A'' \<le> ord ch \<and> ord ch \<le> ord CHR ''Z'' \<or> ch = CHR ''-''"

lemma method_fold_complete:
  "\<exists>ch w m0. http_method_str m = ch # w \<and> method_of_first ch = Some m0 \<and> method_fold m0 1 w = Some m \<and>
     IS_ALPHA ch \<and> ch \<noteq> CR \<and> ch \<noteq> LF \<and> (\<forall>x \<in> set w. method_letter x) \<and> length w \<le> 10"
  by (cases m) (simp_all add: method_of_first_def cstr_at_def method_switch_def IS_ALPHA_def method_letter_def)

text \<open>One byte of a header, counted.\<close>

definition counted :: "char \<Rightarrow> 'u cfg \<Rightarrow> 'u cfg" where
  "counted ch c = c\<lparr>chr := ch, hp := (hp c)\<lparr>nread := nread (hp c) + 1\<rparr>\<rparr>"

lemma unat_nread_inc: "unat (nread q) < HTTP_MAX_HEADER_SIZE \<Longrightarrow> unat (nread q + 1) = Suc (unat (nread q))"
  by (simp add: HTTP_MAX_HEADER_SIZE_def unat_word_ariths)

lemma exec_loop_header:
  assumes "PARSING_HEADER (cur c)" "unat (nread (hp c)) < HTTP_MAX_HEADER_SIZE" "pos c < length data"
    and "http_switch S data lenient (counted (data ! pos c) c) = Next c1"
  shows "exec_loop S data lenient c = exec_loop S data lenient (c1\<lparr>pos := Suc (pos c1)\<rparr>)"
proof -
  have "\<not> HTTP_MAX_HEADER_SIZE < unat (nread (hp c) + 1)" using unat_nread_inc [OF assms(2)] assms(2) by simp
  then have "one_byte S data lenient c = Next c1"
    using assms(1,4) by (simp add: one_byte_def count_byte_def COUNT_HEADER_SIZE_def upd_def Let_def
        reexecute.simps counted_def)
  then show ?thesis using assms(3) by (subst exec_loop.simps) simp
qed

definition in_method :: "http_method \<Rightarrow> nat \<Rightarrow> nat \<Rightarrow> 'u cfg \<Rightarrow> bool" where
  "in_method m i p c \<longleftrightarrow> cur c = s_req_method \<and> hmethod (hp c) = m \<and> unat (index (hp c)) = i \<and> pos c = p \<and>
     http_errno (hp c) = HPE_OK \<and> marks c = (\<lambda>_. None)"

lemma exec_loop_method:
  assumes "method_fold m i w = Some m'" "in_method m i (pos c) c" "\<forall>x \<in> set w. method_letter x"
    and "pos c + length w \<le> length data" "take (length w) (drop (pos c) data) = w"
    and "unat (nread (hp c)) + length w < HTTP_MAX_HEADER_SIZE" "i + length w < 100" "i \<le> length (http_method_str m)"
  shows "\<exists>c'. exec_loop S data lenient c = exec_loop S data lenient c' \<and> in_method m' (i + length w) (pos c + length w) c' \<and>
    usr c' = usr c \<and> unat (nread (hp c')) = unat (nread (hp c)) + length w \<and> upgrade (hp c') = upgrade (hp c)"
  using assms
proof (induction w arbitrary: m i c)
  case (Cons ch w)
  have lt: "pos c < length data" and ch: "data ! pos c = ch"
    and rest: "take (length w) (drop (Suc (pos c)) data) = w"
    using Cons.prems(4,5) by (auto simp: Cons_nth_drop_Suc [symmetric])
  have st: "cur c = s_req_method" "hmethod (hp c) = m" "unat (index (hp c)) = i"
    using Cons.prems(2) by (simp_all add: in_method_def)
  have cls: "ch \<noteq> NUL" "ch \<noteq> SP" "(ord CHR ''A'' \<le> ord ch \<and> ord ch \<le> ord CHR ''Z'') \<or> ch = CHR ''-''"
    using Cons.prems(3) by (auto simp: method_letter_def)
  have inc: "unat (index (hp c) + 1) = Suc i"
    using Cons.prems(7) st(3) by (simp add: unat_word_ariths)
  obtain m1 where m1: "method_fold m1 (Suc i) w = Some m'" "Suc i \<le> length (http_method_str m1)"
    "case_req_method (counted ch c) =
       Next (counted ch (c\<lparr>hp := (hp c)\<lparr>hmethod := m1, index := index (hp c) + 1\<rparr>\<rparr>))"
  proof (cases "ch = cstr_at (http_method_str m) i")
    case True
    moreover have "hp c\<lparr>hmethod := m\<rparr> = hp c" using st(2) by simp
    moreover have "Suc i \<le> length (http_method_str m)" using True cls(1) Cons.prems(8) by (auto simp: cstr_at_def split: if_splits)
    ultimately show ?thesis
      using that [of m] Cons.prems(1,8) cls st
      by (simp add: case_req_method_def counted_def Let_def ASSERT_def upd_def)
  next
    case False
    then obtain m1 where "method_switch m i ch = Some m1" "method_fold m1 (Suc i) w = Some m'"
      using Cons.prems(1) by (auto split: option.splits)
    then show ?thesis
      using that [of m1] False Cons.prems(8) cls st method_switch_cases [of m i ch m1]
      by (simp add: case_req_method_def counted_def Let_def ASSERT_def upd_def)
  qed
  let ?c1 = "counted ch (c\<lparr>hp := (hp c)\<lparr>hmethod := m1, index := index (hp c) + 1\<rparr>\<rparr>)"
  let ?c2 = "?c1\<lparr>pos := Suc (pos ?c1)\<rparr>"
  have nr: "unat (nread (hp c)) < HTTP_MAX_HEADER_SIZE" using Cons.prems(6) by simp
  have "exec_loop S data lenient c = exec_loop S data lenient ?c2"
    using nr lt ch m1(3) st(1)
    by (intro exec_loop_header) (simp_all add: http_switch_def PARSING_HEADER_def counted_def)
  moreover have "in_method m1 (Suc i) (pos ?c2) ?c2" "unat (nread (hp ?c2)) = Suc (unat (nread (hp c)))"
    "pos ?c2 = Suc (pos c)" "usr ?c2 = usr c" "upgrade (hp ?c2) = upgrade (hp c)"
    using Cons.prems(2) inc unat_nread_inc [OF nr] by (simp_all add: in_method_def counted_def)
  ultimately show ?case
    using Cons.IH [OF m1(1), of ?c2] Cons.prems(3-7) rest m1(2) by auto
qed auto

text \<open>
  C23: Every method of the table is recognised: from a fresh request parser, the bytes of its name
  and a space are consumed without an error and leave the parser waiting for the URL with that
  method (the shared prefixes of the 34 names are told apart by the code's table of switches).
\<close>

theorem http_method_recognised:
  assumes "on_message_begin S = None"
  shows "\<exists>q'. http_parser_execute S (http_method_str m @ [SP]) (http_parser_init HTTP_REQUEST) u =
      Some (length (http_method_str m) + 1, q', u) \<and>
    state q' = s_req_spaces_before_url \<and> hmethod q' = m \<and> http_errno q' = HPE_OK"
proof -
  obtain ch w m0 where w: "http_method_str m = ch # w" "method_of_first ch = Some m0"
    "method_fold m0 1 w = Some m" "IS_ALPHA ch" "ch \<noteq> CR" "ch \<noteq> LF" "\<forall>x \<in> set w. method_letter x" "length w \<le> 10"
    using method_fold_complete [of m] by blast
  let ?data = "ch # w @ [SP]" and ?q = "http_parser_init HTTP_REQUEST"
  let ?c = "(exec_start ?q u)\<lparr>marks := initial_marks (state ?q)\<rparr>"
  let ?c1 = "(counted ch ?c)\<lparr>hp := (reset_message (hp (counted ch ?c)))\<lparr>hmethod := m0, index := 1\<rparr>, cur := s_req_method\<rparr>"
  let ?c2 = "?c1\<lparr>pos := Suc (pos ?c1)\<rparr>"
  have f: "cur ?c = s_start_req" "pos ?c = 0" "nread (hp ?c) = 0" "http_errno (hp ?c) = HPE_OK"
    "marks ?c = (\<lambda>_. None)"
    by (auto simp: exec_start_def http_parser_init_def initial_marks_def url_state_def fun_eq_iff)
  have "case_start_req S (counted ch ?c) = Next ?c1"
    using w(2,4-6) f assms
    by (simp add: case_start_req_def counted_def upd_def Let_def CALLBACK_NOTIFY_def CALLBACK_NOTIFY_ER_def
        UPDATE_STATE_def reset_message_def)
  then have "exec_loop S ?data False ?c = exec_loop S ?data False ?c2"
    using f by (intro exec_loop_header)
      (simp_all add: PARSING_HEADER_def HTTP_MAX_HEADER_SIZE_def http_switch_def counted_def)
  moreover have "in_method m0 1 (pos ?c2) ?c2"
    using f by (simp add: in_method_def counted_def reset_message_def)
  then obtain c3 where c3: "exec_loop S ?data False ?c2 = exec_loop S ?data False c3"
    "in_method m (1 + length w) (1 + length w) c3" "usr c3 = u" "unat (nread (hp c3)) = 1 + length w"
    using exec_loop_method [OF w(3), of ?c2 ?data S False] w(7,8) f
    by (auto simp: HTTP_MAX_HEADER_SIZE_def counted_def reset_message_def exec_start_def)
      (use w(2) in \<open>auto simp: method_of_first_def map_of_SomeD split: if_splits\<close>)
  ultimately have loop1: "exec_loop S ?data False ?c = exec_loop S ?data False c3" by simp
  let ?c4 = "(counted SP c3)\<lparr>cur := s_req_spaces_before_url,
      hp := (hp (counted SP c3))\<lparr>index := index (hp c3) + 1\<rparr>\<rparr>"
  have st: "cur c3 = s_req_method" "hmethod (hp c3) = m" "unat (index (hp c3)) = Suc (length w)" "pos c3 = Suc (length w)"
    "http_errno (hp c3) = HPE_OK" "marks c3 = (\<lambda>_. None)"
    using c3(2) by (simp_all add: in_method_def)
  have "case_req_method (counted SP c3) = Next ?c4"
    using st w(1) by (simp add: case_req_method_def counted_def Let_def ASSERT_def upd_def UPDATE_STATE_def cstr_at_def)
  then have "exec_loop S ?data False c3 = exec_loop S ?data False (?c4\<lparr>pos := Suc (pos ?c4)\<rparr>)"
    using st c3(4) w(8) by (intro exec_loop_header)
      (simp_all add: PARSING_HEADER_def HTTP_MAX_HEADER_SIZE_def http_switch_def counted_def nth_append)
  also have "\<dots> = Next (?c4\<lparr>pos := Suc (pos ?c4)\<rparr>)"
    using st by (subst exec_loop.simps) (simp add: counted_def)
  finally have loop: "exec_loop S ?data False ?c = Next (?c4\<lparr>pos := Suc (pos ?c4)\<rparr>)" using loop1 by simp
  have "exec_end S ?data (?c4\<lparr>pos := Suc (pos ?c4)\<rparr>) = RETURN (length ?data) (?c4\<lparr>pos := Suc (pos ?c4)\<rparr>)"
    using st by (simp add: exec_end_def marks_set_def ASSERT_def CALLBACK_DATA_NOADVANCE_def
        CALLBACK_DATA_LEN_def counted_def)
  then show ?thesis
    using loop st c3(3) w(1) unfolding w(1)
    by (simp add: http_parser_execute_def execute_res_def Let_def http_parser_init_def RETURN_def save_state_def
        upd_def counted_def)
qed

lemma http_method_recognised_witness:
  "\<exists>q'. http_parser_execute (http_parser_settings_init :: unit http_parser_settings) ''M-SEARCH ''
      (http_parser_init HTTP_REQUEST) () = Some (9, q', ()) \<and> hmethod q' = HTTP_MSEARCH"
  using http_method_recognised [of "http_parser_settings_init :: unit http_parser_settings" HTTP_MSEARCH "()"]
  by (auto simp: http_parser_settings_init_def)

section \<open>Chunk sizes\<close>

definition hex_value :: "char \<Rightarrow> nat" where
  "hex_value ch = (if IS_NUM ch then ord ch - ord CHR ''0'' else ord (LOWER ch) - ord CHR ''a'' + 10)"

lemma unhex_cases:
  "unhex ch = (if IS_HEX ch then int (hex_value ch) else if 128 \<le> ord ch then 0 else - 1)"
proof -
  have "\<forall>ch. unhex ch = (if IS_HEX ch then int (hex_value ch) else if 128 \<le> ord ch then 0 else - 1)"
    by code_simp
  then show ?thesis by blast
qed

text \<open>
  One byte of a chunk size: a hexadecimal digit multiplies the size by 16 and adds its value,
  exactly, or is refused when the size would come within 16 of the maximum; CR, a semicolon and a
  space end the size; any other byte below 128 is refused; and a byte from 128 on is taken for the
  digit 0, because the table leaves it to the zero C fills up with.
\<close>

theorem chunk_size_byte:
  assumes "flag_set (hp c) F_CHUNKED" "chr c \<noteq> CR"
  shows "case_chunk_size c =
    (if IS_HEX (chr c) \<or> 128 \<le> ord (chr c) then
       (if 16 * unat (content_length (hp c)) + (if IS_HEX (chr c) then hex_value (chr c) else 0) < 2 ^ 64 - 16
        then Next (c\<lparr>hp := (hp c)\<lparr>content_length :=
               of_nat (16 * unat (content_length (hp c)) + (if IS_HEX (chr c) then hex_value (chr c) else 0))\<rparr>\<rparr>)
        else fail HPE_INVALID_CONTENT_LENGTH c)
     else if chr c = CHR '';'' \<or> chr c = SP then Next (UPDATE_STATE s_chunk_parameters c)
     else fail HPE_INVALID_CHUNK_SIZE c)"
proof -
  let ?n = "content_length (hp c)"
  let ?v = "if IS_HEX (chr c) then hex_value (chr c) else 0"
  have g: "unat ((ULLONG_MAX - 16) div 16) = (2 ^ 64 - 17) div 16" by (simp add: ULLONG_MAX_def unat_div)
  show ?thesis
  proof (cases "IS_HEX (chr c) \<or> 128 \<le> ord (chr c)")
    case True
    then have u: "unhex (chr c) = int ?v" and ne: "unhex (chr c) \<noteq> - 1"
      using unhex_cases [of "chr c"] by auto
    have v: "?v \<le> 15" using unhex_range [of "chr c"] u by simp
    have guard: "(ULLONG_MAX - 16) div 16 < ?n \<longleftrightarrow> \<not> 16 * unat ?n + ?v < 2 ^ 64 - 16"
    proof -
      have "(2 ^ 64 - 17) div 16 < n \<longleftrightarrow> \<not> 16 * n + v < 2 ^ 64 - 16" if "v \<le> 15" for n v :: nat
        using that by auto
      then show ?thesis using v by (simp only: word_less_nat_alt g)
    qed
    have "?n * 16 + of_int (int ?v) = of_nat (16 * unat ?n + ?v)" by (simp add: mult.commute)
    then show ?thesis
      using assms True guard ne unfolding case_chunk_size_def u
      by (simp add: ASSERT_def Let_def upd_def)
  next
    case False
    then have "unhex (chr c) = - 1" using unhex_cases [of "chr c"] by simp
    then show ?thesis using assms False by (auto simp: case_chunk_size_def ASSERT_def Let_def)
  qed
qed

lemma chunk_size_byte_witness:
  "\<exists>c'. case_chunk_size ((exec_start (add_flag F_CHUNKED (http_parser_init HTTP_REQUEST)) ())\<lparr>chr := CHR 0xFF\<rparr>) = Next c' \<and>
     content_length (hp c') = 0"
  by (subst chunk_size_byte)
    (simp_all add: exec_start_def http_parser_init_def flag_set_def add_flag_def F_CHUNKED_def
      IS_HEX_def IS_NUM_def)

section \<open>A difference between buffers\<close>

text \<open>
  What the parser accepts in a header value depends on how the bytes are cut into buffers: a
  control character that is refused when it begins a buffer is skipped unseen when it arrives in
  one buffer with the byte before it.
\<close>

theorem header_value_depends_on_buffers:
  "let S = http_parser_settings_init :: unit http_parser_settings;
       q = (http_parser_init HTTP_REQUEST)\<lparr>state := s_header_value\<rparr>
   in map_option (http_errno \<circ> fst) (feed_all S [[CHR ''a'', CHR 0x01]] q ()) = Some HPE_OK \<and>
      map_option (http_errno \<circ> fst) (feed_all S [[CHR ''a''], [CHR 0x01]] q ()) = Some HPE_INVALID_HEADER_TOKEN"
  by (simp add: Let_def http_parser_settings_init_def http_parser_init_def exec_eval header_eval)

end
