(* ===== verification/Http_Request.thy ===== *)
theory Http_Request
  imports Http_Props
begin

text \<open>
  The head of a request, piece by piece: each piece of text takes the parser from one state to the
  next. Here the request line and the names of the headers; \<open>Http_Message\<close> has the rest.
\<close>

section \<open>Pieces of a text\<close>

text \<open>Only the callback for bodies is set, as in the provider agent.\<close>

definition body_only :: "'u http_data_cb \<Rightarrow> 'u http_parser_settings" where
  "body_only f = http_parser_settings_init\<lparr>on_body := Some f\<rparr>"

lemma body_only_simps [simp]:
  "on_message_begin (body_only f) = None" "on_url (body_only f) = None" "on_status (body_only f) = None"
  "on_header_field (body_only f) = None" "on_header_value (body_only f) = None" "on_headers_complete (body_only f) = None"
  "on_body (body_only f) = Some f" "on_message_complete (body_only f) = None" "on_chunk_header (body_only f) = None"
  "on_chunk_complete (body_only f) = None"
  by (simp_all add: body_only_def http_parser_settings_init_def)

text \<open>
  The loop between two bytes of the headers: every byte so far has been counted, no mark is set, and
  \<open>rest\<close> is still to come.
\<close>

definition reading :: "string \<Rightarrow> 'u \<Rightarrow> (pstate \<Rightarrow> http_parser \<Rightarrow> bool) \<Rightarrow> string \<Rightarrow> 'u cfg \<Rightarrow> bool" where
  "reading data u P rest c \<longleftrightarrow> P (cur c) (hp c) \<and> http_errno (hp c) = HPE_OK \<and> usr c = u \<and> pos c \<le> length data \<and>
     drop (pos c) data = rest \<and> unat (nread (hp c)) = pos c \<and> marks c = (\<lambda>_. None)"

definition piece :: "'u http_data_cb \<Rightarrow> (pstate \<Rightarrow> http_parser \<Rightarrow> bool) \<Rightarrow> string \<Rightarrow> (pstate \<Rightarrow> http_parser \<Rightarrow> bool) \<Rightarrow> bool" where
  "piece f P s Q \<longleftrightarrow> (\<forall>data u rest c. reading data u P (s @ rest) c \<longrightarrow> pos c + length s \<le> HTTP_MAX_HEADER_SIZE \<longrightarrow>
     (\<exists>c'. exec_loop (body_only f) data False c = exec_loop (body_only f) data False c' \<and> reading data u Q rest c'))"

lemma reading_pos: "reading data u P rest c \<Longrightarrow> pos c = length data - length rest \<and> length rest \<le> length data"
  by (auto simp: reading_def)

lemma piece_append:
  fixes f :: "'u http_data_cb"
  shows "piece f P s Q \<Longrightarrow> piece f Q t R \<Longrightarrow> piece f P (s @ t) R"
proof -
  assume 1: "piece f P s Q" and 2: "piece f Q t R"
  show ?thesis unfolding piece_def
  proof (intro allI impI)
    fix data rest and u :: 'u and c :: "'u cfg" assume r: "reading data u P ((s @ t) @ rest) c" and n: "pos c + length (s @ t) \<le> HTTP_MAX_HEADER_SIZE"
    obtain c1 where c1: "exec_loop (body_only f) data False c = exec_loop (body_only f) data False c1" "reading data u Q (t @ rest) c1"
      using 1 r n unfolding piece_def by (metis append.assoc le_add1 length_append order_trans add_left_mono)
    have "pos c1 = pos c + length s" using reading_pos [OF r] reading_pos [OF c1(2)] by simp
    then show "\<exists>c'. exec_loop (body_only f) data False c = exec_loop (body_only f) data False c' \<and> reading data u R rest c'"
      using 2 c1 n unfolding piece_def by (metis add.assoc length_append)
  qed
qed

lemma piece_Nil: "(\<And>s q. P s q \<Longrightarrow> Q s q) \<Longrightarrow> piece f P [] Q"
  by (auto simp: piece_def reading_def)

lemma piece_mono: "piece f P s Q \<Longrightarrow> (\<And>s q. P' s q \<Longrightarrow> P s q) \<Longrightarrow> (\<And>s q. Q s q \<Longrightarrow> Q' s q) \<Longrightarrow> piece f P' s Q'"
  using piece_append [OF piece_append [OF piece_Nil [of P' P f], of s Q] piece_Nil [of Q Q' f]] by simp

text \<open>One byte, with the label \<^verbatim>\<open>reexecute\<close>.\<close>

lemma exec_loop_byte:
  assumes "PARSING_HEADER (cur c)" "unat (nread (hp c)) < HTTP_MAX_HEADER_SIZE" "pos c < length data"
    and "reexecute S data lenient (counted (data ! pos c) c) = Next c1"
  shows "exec_loop S data lenient c = exec_loop S data lenient (c1\<lparr>pos := Suc (pos c1)\<rparr>)"
proof -
  have "\<not> HTTP_MAX_HEADER_SIZE < unat (nread (hp c) + 1)" using unat_nread_inc [OF assms(2)] assms(2) by simp
  then have "one_byte S data lenient c = Next c1"
    using assms(1,4) by (simp add: one_byte_def count_byte_def COUNT_HEADER_SIZE_def upd_def Let_def counted_def)
  then show ?thesis using assms(3) by (subst exec_loop.simps) simp
qed

lemma reading_nth: "reading data u P (ch # rest) c \<Longrightarrow> pos c < length data \<and> data ! pos c = ch \<and> drop (Suc (pos c)) data = rest"
  by (auto simp: reading_def) (metis drop_eq_Nil leI list.distinct(1), metis nth_via_drop, metis drop_Suc tl_drop list.sel(3))

lemma piece_char:
  fixes f :: "'u http_data_cb"
  assumes hdr: "\<And>s q. P s q \<Longrightarrow> PARSING_HEADER s"
    and sw: "\<And>data c. P (cur c) (hp c) \<Longrightarrow> http_errno (hp c) = HPE_OK \<Longrightarrow> marks c = (\<lambda>_. None) \<Longrightarrow> chr c = ch \<Longrightarrow>
      reexecute (body_only f) data False c = Next (c\<lparr>hp := g (hp c), cur := st'\<rparr>)"
    and inc: "\<And>s q n. P s q \<Longrightarrow> P s (q\<lparr>nread := n\<rparr>)"
    and post: "\<And>s q. P s q \<Longrightarrow> Q st' (g q)" and g: "\<And>q. nread (g q) = nread q" "\<And>q. http_errno (g q) = http_errno q"
  shows "piece f P [ch] Q"
  unfolding piece_def
proof (intro allI impI)
  fix data rest and u :: 'u and c :: "'u cfg" assume r: "reading data u P ([ch] @ rest) c" and n: "pos c + length [ch] \<le> HTTP_MAX_HEADER_SIZE"
  have p: "pos c < length data" "data ! pos c = ch" "drop (Suc (pos c)) data = rest"
    using reading_nth [of data u P ch rest c] r by auto
  have f: "P (cur c) (hp c)" "http_errno (hp c) = HPE_OK" "usr c = u" "unat (nread (hp c)) = pos c" "marks c = (\<lambda>_. None)"
    using r by (simp_all add: reading_def)
  let ?c = "counted ch c"
  let ?c1 = "?c\<lparr>hp := g (hp ?c), cur := st'\<rparr>"
  have "reexecute (body_only f) data False ?c = Next ?c1" by (rule sw) (use f inc in \<open>simp_all add: counted_def\<close>)
  then have "exec_loop (body_only f) data False c = exec_loop (body_only f) data False (?c1\<lparr>pos := Suc (pos ?c1)\<rparr>)"
    using f n p hdr by (intro exec_loop_byte) simp_all
  moreover have "unat (nread (hp c) + 1) = Suc (pos c)" using unat_nread_inc [of "hp c"] f(4) n by simp
  then have "reading data u Q rest (?c1\<lparr>pos := Suc (pos ?c1)\<rparr>)"
    using f p post [OF inc [OF f(1)]] g by (simp add: reading_def counted_def)
  ultimately show "\<exists>c'. exec_loop (body_only f) data False c = exec_loop (body_only f) data False c' \<and> reading data u Q rest c'" by blast
qed

section \<open>The request line\<close>

definition msg :: "http_method \<Rightarrow> u8 \<Rightarrow> u64 \<Rightarrow> http_parser \<Rightarrow> bool" where
  "msg m fl cl q \<longleftrightarrow> hmethod q = m \<and> flags q = fl \<and> content_length q = cl \<and> ptype q = HTTP_REQUEST"

definition within :: "pstate \<Rightarrow> http_method \<Rightarrow> pstate \<Rightarrow> http_parser \<Rightarrow> bool" where
  "within st m s q \<longleftrightarrow> s = st \<and> msg m 0 ULLONG_MAX q"

definition in_name :: "http_method \<Rightarrow> nat \<Rightarrow> pstate \<Rightarrow> http_parser \<Rightarrow> bool" where
  "in_name m i s q \<longleftrightarrow> s = s_req_method \<and> msg m 0 ULLONG_MAX q \<and> unat (index q) = i"

definition fresh_request :: "pstate \<Rightarrow> http_parser \<Rightarrow> bool" where
  "fresh_request s q \<longleftrightarrow> s = s_start_req \<and> ptype q = HTTP_REQUEST"

lemmas step_defs = reexecute.simps http_switch_def upd_def UPDATE_STATE_def

lemma piece_letter:
  fixes f :: "'u http_data_cb"
  assumes fold: "method_fold m i (ch # w) = Some m'" and ch: "method_letter ch" and i: "i < 99" "i \<le> length (http_method_str m)"
  obtains m1 where "method_fold m1 (Suc i) w = Some m'" "Suc i \<le> length (http_method_str m1)" "piece f (in_name m i) [ch] (in_name m1 (Suc i))"
proof -
  have cls: "ch \<noteq> NUL" "ch \<noteq> SP" "(ord CHR ''A'' \<le> ord ch \<and> ord ch \<le> ord CHR ''Z'') \<or> ch = CHR ''-''"
    using ch by (auto simp: method_letter_def)
  have inc: "unat (index q + 1) = Suc i" if "unat (index q) = i" for q
    using i(1) that by (simp add: unat_word_ariths)
  show thesis
  proof (cases "ch = cstr_at (http_method_str m) i")
    case True
    have "piece f (in_name m i) [ch] (in_name m (Suc i))"
      by (rule piece_char [where g = "\<lambda>q. q\<lparr>index := index q + 1\<rparr>" and st' = s_req_method])
        (use True cls i(2) inc in \<open>auto simp: in_name_def msg_def PARSING_HEADER_def step_defs case_req_method_def ASSERT_def Let_def\<close>)
    moreover have "Suc i \<le> length (http_method_str m)" using True cls(1) i(2) by (auto simp: cstr_at_def split: if_splits)
    ultimately show ?thesis using that [of m] True fold by simp
  next
    case False
    then obtain m1 where m1: "method_switch m i ch = Some m1" "method_fold m1 (Suc i) w = Some m'"
      using fold by (auto split: option.splits)
    have "piece f (in_name m i) [ch] (in_name m1 (Suc i))"
      by (rule piece_char [where g = "\<lambda>q. q\<lparr>hmethod := m1, index := index q + 1\<rparr>" and st' = s_req_method])
        (use False cls i(2) inc m1(1) in \<open>auto simp: in_name_def msg_def PARSING_HEADER_def step_defs case_req_method_def ASSERT_def Let_def\<close>)
    then show ?thesis using that m1 method_switch_cases [of m i ch m1] i(2) by simp
  qed
qed

lemma piece_letters:
  fixes f :: "'u http_data_cb"
  shows "method_fold m i w = Some m' \<Longrightarrow> \<forall>x \<in> set w. method_letter x \<Longrightarrow> i + length w < 100 \<Longrightarrow> i \<le> length (http_method_str m) \<Longrightarrow>
    piece f (in_name m i) w (in_name m' (i + length w))"
proof (induction w arbitrary: m i)
  case Nil
  then show ?case by (simp add: piece_Nil)
next
  case (Cons ch w)
  obtain m1 where m1: "method_fold m1 (Suc i) w = Some m'" "Suc i \<le> length (http_method_str m1)"
    "piece f (in_name m i) [ch] (in_name m1 (Suc i))"
    by (rule piece_letter [OF Cons.prems(1), of f]) (use Cons.prems in simp_all)
  have "piece f (in_name m1 (Suc i)) w (in_name m' (Suc i + length w))" using Cons.IH [OF m1(1)] Cons.prems m1(2) by simp
  then show ?case using piece_append [OF m1(3)] by simp
qed

lemma piece_method: "piece f fresh_request (http_method_str m @ [SP]) (within s_req_spaces_before_url m)"
proof -
  obtain ch w m0 where w: "http_method_str m = ch # w" "method_of_first ch = Some m0"
    "method_fold m0 1 w = Some m" "IS_ALPHA ch" "ch \<noteq> CR" "ch \<noteq> LF" "\<forall>x \<in> set w. method_letter x" "length w \<le> 10"
    using method_fold_complete [of m] by blast
  have "piece f fresh_request [ch] (in_name m0 1)"
    by (rule piece_char [where g = "\<lambda>q. (reset_message q)\<lparr>hmethod := m0, index := 1\<rparr>" and st' = s_req_method])
      (use w in \<open>auto simp: fresh_request_def in_name_def msg_def PARSING_HEADER_def step_defs case_req_method_def Let_def
         case_start_req_def CALLBACK_NOTIFY_def CALLBACK_NOTIFY_ER_def reset_message_def\<close>)
  moreover have "1 \<le> length (http_method_str m0)"
    using w(2) by (auto simp: method_of_first_def map_of_SomeD split: if_splits)
  then have "piece f (in_name m0 1) w (in_name m (1 + length w))" using piece_letters [OF w(3,7), of f] w(8) by simp
  moreover have "piece f (in_name m (1 + length w)) [SP] (within s_req_spaces_before_url m)"
    by (rule piece_char [where g = "\<lambda>q. q\<lparr>index := index q + 1\<rparr>" and st' = s_req_spaces_before_url])
      (use w(1) in \<open>auto simp: in_name_def within_def msg_def PARSING_HEADER_def step_defs case_req_method_def ASSERT_def Let_def cstr_at_def\<close>)
  ultimately have "piece f fresh_request ([ch] @ w @ [SP]) (within s_req_spaces_before_url m)" by (blast intro: piece_append)
  then show ?thesis using w(1) by simp
qed

text \<open>The version and the end of the line.\<close>

definition CRLF :: string where "CRLF = [CR, LF]"

text \<open>In the headers: the state, and what the message is so far.\<close>

definition headed :: "http_method \<Rightarrow> u8 \<Rightarrow> u64 \<Rightarrow> http_parser \<Rightarrow> bool" where
  "headed m fl cl q \<longleftrightarrow> msg m fl cl q \<and> http_major q = 1 \<and> http_minor q = 1"

definition at_line :: "http_method \<Rightarrow> u8 \<Rightarrow> u64 \<Rightarrow> pstate \<Rightarrow> http_parser \<Rightarrow> bool" where
  "at_line m fl cl s q \<longleftrightarrow> headed m fl cl q \<and>
     (s = s_header_field_start \<or> s = s_header_value_lws \<and> header_state q \<in> {h_general, h_content_length_num})"

lemma piece_version: "piece f (within s_req_http_start m) (''HTTP/1.1'' @ CRLF) (at_line m 0 ULLONG_MAX)"
proof -
  note d = within_def msg_def headed_def at_line_def PARSING_HEADER_def step_defs STRICT_CHECK_def case_expect_def
  let ?v = "\<lambda>st s q. within st m s q \<and> http_major q = 1" let ?w = "\<lambda>st s q. s = st \<and> headed m 0 ULLONG_MAX q"
  have "piece f (within s_req_http_start m) [CHR ''H''] (within s_req_http_H m)"
    "piece f (within s_req_http_H m) [CHR ''T''] (within s_req_http_HT m)"
    "piece f (within s_req_http_HT m) [CHR ''T''] (within s_req_http_HTT m)"
    "piece f (within s_req_http_HTT m) [CHR ''P''] (within s_req_http_HTTP m)"
    "piece f (within s_req_http_HTTP m) [CHR ''/''] (within s_req_http_major m)"
    "piece f (?v s_req_http_dot) [CHR ''.''] (?v s_req_http_minor)"
    "piece f (?w s_req_http_end) [CR] (?w s_req_line_almost_done)"
    "piece f (?w s_req_line_almost_done) [LF] (?w s_header_field_start)"
    by (rule piece_char [where g = "\<lambda>q. q"];
        auto simp: d case_req_http_start_def case_http_dot_def case_req_http_end_def case_req_line_almost_done_def)+
  moreover have "piece f (within s_req_http_major m) [CHR ''1''] (?v s_req_http_dot)"
    by (rule piece_char [where g = "\<lambda>q. q\<lparr>http_major := 1\<rparr>" and st' = s_req_http_dot])
      (auto simp: d case_http_major_def IS_NUM_def digit_def)
  moreover have "piece f (?v s_req_http_minor) [CHR ''1''] (?w s_req_http_end)"
    by (rule piece_char [where g = "\<lambda>q. q\<lparr>http_minor := 1\<rparr>" and st' = s_req_http_end])
      (auto simp: d case_http_minor_def IS_NUM_def digit_def)
  ultimately have "piece f (within s_req_http_start m) ([CHR ''H''] @ [CHR ''T''] @ [CHR ''T''] @ [CHR ''P''] @ [CHR ''/''] @ [CHR ''1''] @
      [CHR ''.''] @ [CHR ''1''] @ [CR] @ [LF]) (?w s_header_field_start)"
    by (blast intro: piece_append)
  then have "piece f (within s_req_http_start m) (''HTTP/1.1'' @ CRLF) (?w s_header_field_start)" by (simp add: CRLF_def)
  then show ?thesis by (rule piece_mono) (simp_all add: at_line_def)
qed

text \<open>The URL: a path without query.\<close>

lemma url_char_not_end: "IS_URL_CHAR c \<Longrightarrow> c \<noteq> SP \<and> c \<noteq> CR \<and> c \<noteq> LF \<and> c \<noteq> TAB \<and> c \<noteq> FF"
proof -
  have "\<not> IS_URL_CHAR SP" "\<not> IS_URL_CHAR CR" "\<not> IS_URL_CHAR LF" "\<not> IS_URL_CHAR TAB" "\<not> IS_URL_CHAR FF"
    by (simp_all add: IS_URL_CHAR_def BIT_AT_def normal_url_char_def bit_numeral_rec)
  then show "IS_URL_CHAR c \<Longrightarrow> c \<noteq> SP \<and> c \<noteq> CR \<and> c \<noteq> LF \<and> c \<noteq> TAB \<and> c \<noteq> FF" by auto
qed

lemma exec_loop_path:
  fixes c :: "'u cfg"
  assumes "cur c = s_req_path" "marks c = (\<lambda>_. None)(CB_url := Some a)" "http_errno (hp c) = HPE_OK" "P (hp c)"
    and "pos c \<le> length data" "drop (pos c) data = cs @ SP # rest" "\<forall>x \<in> set cs. IS_URL_CHAR x"
    and "unat (nread (hp c)) = pos c" "pos c + length cs < HTTP_MAX_HEADER_SIZE" and P: "\<And>q n. P q \<Longrightarrow> P (q\<lparr>nread := n\<rparr>)"
  shows "\<exists>c'. exec_loop (body_only f) data False c = exec_loop (body_only f) data False c' \<and>
    reading data (usr c) (\<lambda>s q. s = s_req_http_start \<and> P q) rest c'"
  using assms(1-9)
proof (induction cs arbitrary: c)
  case Nil
  have p: "pos c < length data" "data ! pos c = SP" "drop (Suc (pos c)) data = rest"
    using Nil.prems(6) by (metis append_Nil drop_eq_Nil leI list.distinct(1), metis append_Nil nth_via_drop, metis append_Nil drop_Suc tl_drop list.sel(3))
  let ?c = "counted SP c"
  let ?c1 = "?c\<lparr>cur := s_req_http_start, marks := (\<lambda>_. None)\<rparr>"
  have mk: "marks c CB_url = Some a" "(marks c)(CB_url := None) = (\<lambda>_. None)" using Nil.prems(2) by auto
  have "case_req_url (body_only f) data ?c = Next ?c1"
    using Nil.prems(3) mk
    by (simp add: case_req_url_def CALLBACK_DATA_def CALLBACK_DATA_LEN_def UPDATE_STATE_def clear_mark_def counted_def)
  then have "exec_loop (body_only f) data False c = exec_loop (body_only f) data False (?c1\<lparr>pos := Suc (pos ?c1)\<rparr>)"
    using Nil.prems p by (intro exec_loop_byte) (simp_all add: PARSING_HEADER_def reexecute.simps http_switch_def counted_def)
  moreover have "reading data (usr c) (\<lambda>s q. s = s_req_http_start \<and> P q) rest (?c1\<lparr>pos := Suc (pos ?c1)\<rparr>)"
    using Nil.prems p P [OF Nil.prems(4)] unat_nread_inc [of "hp c"] by (simp add: reading_def counted_def)
  ultimately show ?case by blast
next
  case (Cons x cs)
  have p: "pos c < length data" "data ! pos c = x" "drop (Suc (pos c)) data = cs @ SP # rest"
    using Cons.prems(6) by (metis append_Cons drop_eq_Nil leI list.distinct(1), metis append_Cons nth_via_drop, metis append_Cons drop_Suc tl_drop list.sel(3))
  have x: "IS_URL_CHAR x" "x \<noteq> SP" "x \<noteq> CR" "x \<noteq> LF" "x \<noteq> TAB" "x \<noteq> FF" using Cons.prems(7) url_char_not_end by auto
  let ?c = "counted x c"
  let ?c2 = "?c\<lparr>pos := Suc (pos ?c)\<rparr>"
  have "case_req_url (body_only f) data ?c = Next ?c"
    using x Cons.prems(1) by (simp add: case_req_url_def url_step_def parse_url_char_def Let_def UPDATE_STATE_def counted_def)
  then have "exec_loop (body_only f) data False c = exec_loop (body_only f) data False ?c2"
    using Cons.prems p by (intro exec_loop_byte) (simp_all add: PARSING_HEADER_def reexecute.simps http_switch_def counted_def)
  moreover have "\<exists>c'. exec_loop (body_only f) data False ?c2 = exec_loop (body_only f) data False c' \<and>
      reading data (usr ?c2) (\<lambda>s q. s = s_req_http_start \<and> P q) rest c'"
    by (rule Cons.IH) (use Cons.prems p P [OF Cons.prems(4)] unat_nread_inc [of "hp c"] in \<open>simp_all add: counted_def\<close>)
  ultimately show ?case by (simp add: counted_def)
qed

lemma piece_url:
  fixes f :: "'u http_data_cb"
  assumes m: "m \<noteq> HTTP_CONNECT" and cs: "\<forall>x \<in> set cs. IS_URL_CHAR x"
  shows "piece f (within s_req_spaces_before_url m) (CHR ''/'' # cs @ [SP]) (within s_req_http_start m)"
  unfolding piece_def
proof (intro allI impI)
  fix data rest and u :: 'u and c :: "'u cfg"
  assume r: "reading data u (within s_req_spaces_before_url m) ((CHR ''/'' # cs @ [SP]) @ rest) c"
    and n: "pos c + length (CHR ''/'' # cs @ [SP]) \<le> HTTP_MAX_HEADER_SIZE"
  have p: "pos c < length data" "data ! pos c = CHR ''/''" "drop (Suc (pos c)) data = cs @ SP # rest"
    using reading_nth [of data u "within s_req_spaces_before_url m" "CHR ''/''" "cs @ SP # rest" c] r by auto
  have f: "cur c = s_req_spaces_before_url" "msg m 0 ULLONG_MAX (hp c)" "http_errno (hp c) = HPE_OK" "usr c = u"
    "unat (nread (hp c)) = pos c" "marks c = (\<lambda>_. None)"
    using r by (simp_all add: reading_def within_def)
  let ?c = "counted (CHR ''/'') c"
  let ?c1 = "?c\<lparr>cur := s_req_path, marks := (\<lambda>_. None)(CB_url := Some (pos c))\<rparr>"
  let ?c2 = "?c1\<lparr>pos := Suc (pos ?c1)\<rparr>"
  have "case_req_spaces_before_url ?c = Next ?c1"
    using f m by (simp add: case_req_spaces_before_url_def url_step_def parse_url_char_def Let_def UPDATE_STATE_def counted_def MARK_def msg_def)
  then have "exec_loop (body_only f) data False c = exec_loop (body_only f) data False ?c2"
    using f p n by (intro exec_loop_byte) (simp_all add: PARSING_HEADER_def reexecute.simps http_switch_def counted_def)
  moreover have "\<exists>c'. exec_loop (body_only f) data False ?c2 = exec_loop (body_only f) data False c' \<and>
      reading data (usr ?c2) (\<lambda>s q. s = s_req_http_start \<and> msg m 0 ULLONG_MAX q) rest c'"
    by (rule exec_loop_path [where cs = cs]) (use f p n cs unat_nread_inc [of "hp c"] in \<open>simp_all add: counted_def msg_def\<close>)
  ultimately show "\<exists>c'. exec_loop (body_only f) data False c = exec_loop (body_only f) data False c' \<and>
      reading data u (within s_req_http_start m) rest c'"
    using f(4) by (simp add: counted_def within_def [abs_def])
qed

section \<open>Header names\<close>

text \<open>The loop over a name as a fold over its bytes.\<close>

fun hf_fold :: "string \<Rightarrow> http_parser \<Rightarrow> http_parser option" where
  "hf_fold [] q = Some q"
| "hf_fold (ch # w) q = Option.bind (hf_step ch (TOKEN ch) q) (hf_fold w)"

lemma drop_Cons_nth: "drop p data = x # xs \<Longrightarrow> p < length data \<and> data ! p = x \<and> drop (Suc p) data = xs"
  by (metis drop_eq_Nil leI list.distinct(1) nth_via_drop drop_Suc tl_drop list.sel(3))

lemma TOKEN_colon: "TOKEN (CHR '':'') = NUL"
  by (simp add: TOKEN_NUL_iff)

lemma hf_loop_fold:
  "drop (pos c) data = w @ CHR '':'' # rest \<Longrightarrow> \<forall>x \<in> set w. TOKEN x \<noteq> NUL \<Longrightarrow> hf_fold w (hp c) = Some q \<Longrightarrow>
     hf_loop data c = Some (c\<lparr>chr := CHR '':'', hp := q, pos := pos c + length w\<rparr>)"
proof (induction w arbitrary: c)
  case Nil
  then show ?case using drop_Cons_nth [of "pos c" data "CHR '':''" rest] TOKEN_colon
    by (subst hf_loop.simps) (simp add: Let_def)
next
  case (Cons x w)
  have p: "pos c < length data" "data ! pos c = x" "drop (Suc (pos c)) data = w @ CHR '':'' # rest"
    using drop_Cons_nth [of "pos c" data x "w @ CHR '':'' # rest"] Cons.prems(1) by simp_all
  obtain q1 where q1: "hf_step x (TOKEN x) (hp c) = Some q1" "hf_fold w q1 = Some q"
    using Cons.prems(3) by (auto simp: bind_eq_Some_conv)
  then show ?case using Cons.IH [of "c\<lparr>chr := x, hp := q1, pos := Suc (pos c)\<rparr>"] Cons.prems(2) p
    by (subst hf_loop.simps) (simp add: Let_def)
qed

text \<open>Only the index and the header state change.\<close>

definition same_but_name :: "http_parser \<Rightarrow> http_parser \<Rightarrow> bool" where
  "same_but_name q q' \<longleftrightarrow> q' = q\<lparr>index := index q', header_state := header_state q'\<rparr>"

text \<open>What the header state says of the letters read so far, in lower case.\<close>

definition partial_name :: "string \<Rightarrow> nat \<Rightarrow> string \<Rightarrow> http_parser \<Rightarrow> bool" where
  "partial_name name k p q \<longleftrightarrow> (let i = unat (index q) in k \<le> i \<and> Suc i < length name \<and> p = take (Suc i) name)"

definition name_inv :: "string \<Rightarrow> http_parser \<Rightarrow> bool" where
  "name_inv p q \<longleftrightarrow>
     (case header_state q of
        h_general \<Rightarrow> True
      | h_C \<Rightarrow> p = ''c'' \<and> index q = 0
      | h_CO \<Rightarrow> p = ''co'' \<and> index q = 1
      | h_CON \<Rightarrow> p = ''con'' \<and> index q = 2
      | h_matching_connection \<Rightarrow> partial_name ''connection'' 3 p q
      | h_matching_proxy_connection \<Rightarrow> partial_name ''proxy-connection'' 0 p q
      | h_matching_content_length \<Rightarrow> partial_name ''content-length'' 3 p q
      | h_matching_transfer_encoding \<Rightarrow> partial_name ''transfer-encoding'' 0 p q
      | h_matching_upgrade \<Rightarrow> partial_name ''upgrade'' 0 p q
      | h_connection \<Rightarrow> p = ''connection'' \<or> p = ''proxy-connection''
      | h_content_length \<Rightarrow> p = ''content-length''
      | h_transfer_encoding \<Rightarrow> p = ''transfer-encoding''
      | h_upgrade \<Rightarrow> p = ''upgrade''
      | _ \<Rightarrow> False)"

lemma match_name_cases:
  assumes "partial_name name k p q" "length name < 100" "c \<noteq> NUL"
  shows "match_name name done c q = q\<lparr>index := index q + 1, header_state := h_general\<rparr> \<or>
    match_name name done c q = q\<lparr>index := index q + 1, header_state := done\<rparr> \<and> p @ [c] = name \<or>
    match_name name done c q = q\<lparr>index := index q + 1\<rparr> \<and> partial_name name k (p @ [c]) (q\<lparr>index := index q + 1\<rparr>)"
proof -
  define i where "i = unat (index q)"
  have i: "k \<le> i" "Suc i < length name" "p = take (Suc i) name" using assms(1) by (simp_all add: partial_name_def i_def Let_def)
  have n: "unat (index q + 1) = Suc i" using i(2) assms(2) by (simp add: unat_word_ariths i_def)
  show ?thesis
  proof (cases "c = name ! Suc i")
    case True
    then have "p @ [c] = take (Suc (Suc i)) name" using i by (simp add: take_Suc_conv_app_nth)
    then show ?thesis using n i True by (auto simp: match_name_def Let_def cstr_at_def partial_name_def)
  next
    case False
    then show ?thesis using n i by (simp add: match_name_def Let_def cstr_at_def)
  qed
qed

lemma TOKEN_not_NUL:
  assumes "TOKEN ch \<noteq> NUL"
  shows "ch \<noteq> SP" "ch \<noteq> TAB" "ch \<noteq> CR" "ch \<noteq> LF" "ch \<noteq> CHR '':''"
proof -
  have "TOKEN SP = NUL" "TOKEN TAB = NUL" "TOKEN CR = NUL" "TOKEN LF = NUL" "TOKEN (CHR '':'') = NUL"
    by (simp_all add: TOKEN_NUL_iff)
  then show "ch \<noteq> SP" "ch \<noteq> TAB" "ch \<noteq> CR" "ch \<noteq> LF" "ch \<noteq> CHR '':''" using assms by metis+
qed

lemma same_but_name_upd [simp]:
  "same_but_name q (q\<lparr>index := i, header_state := h\<rparr>)" "same_but_name q (q\<lparr>index := i\<rparr>)" "same_but_name q (q\<lparr>header_state := h\<rparr>)"
  "same_but_name q q"
  by (simp_all add: same_but_name_def)

lemma same_but_name_trans: "same_but_name q q' \<Longrightarrow> same_but_name q' q'' \<Longrightarrow> same_but_name q q''"
  by (cases q; cases q'; cases q'') (simp add: same_but_name_def)

lemma name_matched:
  assumes "partial_name name k p q" "length name < 100" "c \<noteq> NUL"
    and "\<And>q'. header_state q' = header_state q \<Longrightarrow> partial_name name k (p @ [c]) q' \<Longrightarrow> name_inv (p @ [c]) q'"
    and "\<And>q'. header_state q' = d \<Longrightarrow> p @ [c] = name \<Longrightarrow> name_inv (p @ [c]) q'"
  shows "name_inv (p @ [c]) (match_name name d c q) \<and> same_but_name q (match_name name d c q)"
  using match_name_cases [OF assms(1-3), of d] assms(4,5) by (auto simp: name_inv_def)

lemma name_step:
  assumes inv: "name_inv p q" and ch: "TOKEN ch \<noteq> NUL"
  shows "\<exists>q'. hf_step ch (TOKEN ch) q = Some q' \<and> name_inv (p @ [TOKEN ch]) q' \<and> same_but_name q q'"
proof -
  have sp: "ch \<noteq> SP" using TOKEN_not_NUL [OF ch] by blast
  show ?thesis
  proof (cases "header_state q")
    case h_matching_connection
    then show ?thesis using inv by (simp add: hf_step_def) (rule name_matched [OF _ _ ch]; simp add: name_inv_def)
  next
    case h_matching_proxy_connection
    then show ?thesis using inv by (simp add: hf_step_def) (rule name_matched [OF _ _ ch]; simp add: name_inv_def)
  next
    case h_matching_content_length
    then show ?thesis using inv by (simp add: hf_step_def) (rule name_matched [OF _ _ ch]; simp add: name_inv_def)
  next
    case h_matching_transfer_encoding
    then show ?thesis using inv by (simp add: hf_step_def) (rule name_matched [OF _ _ ch]; simp add: name_inv_def)
  next
    case h_matching_upgrade
    then show ?thesis using inv by (simp add: hf_step_def) (rule name_matched [OF _ _ ch]; simp add: name_inv_def)
  qed (use inv sp in \<open>simp_all add: name_inv_def hf_step_def match_prefix_def partial_name_def Let_def\<close>)
qed

lemma hf_fold_inv:
  "name_inv p q \<Longrightarrow> \<forall>x \<in> set w. TOKEN x \<noteq> NUL \<Longrightarrow>
     \<exists>q'. hf_fold w q = Some q' \<and> name_inv (p @ map TOKEN w) q' \<and> same_but_name q q'"
proof (induction w arbitrary: p q)
  case Nil
  then show ?case by (simp add: same_but_name_def)
next
  case (Cons ch w)
  then obtain q1 where q1: "hf_step ch (TOKEN ch) q = Some q1" "name_inv (p @ [TOKEN ch]) q1" "same_but_name q q1"
    using name_step [of p q ch] by auto
  then show ?case using Cons.IH [OF q1(2)] Cons.prems same_but_name_trans [OF q1(3)] by auto
qed

definition known_names :: "string list" where
  "known_names = [''connection'', ''proxy-connection'', ''content-length'', ''transfer-encoding'', ''upgrade'']"

lemma name_inv_start: "name_inv [t] (q\<lparr>index := 0, header_state := field_start_state t\<rparr>)"
  by (auto simp: name_inv_def field_start_state_def partial_name_def)

lemma other_name_state:
  assumes "name_inv p q" "p \<notin> set known_names"
  shows "header_state q \<notin> {h_connection, h_content_length, h_transfer_encoding, h_upgrade} \<and> header_state q \<noteq> h_matching_connection_token_start"
  using assms by (auto simp: name_inv_def known_names_def)

text \<open>The letters of \<^verbatim>\<open>Content-Length\<close>, in any case, are followed to the end.\<close>

lemma match_name_hit:
  assumes "unat (index q) = i" "i < 100" "length name = n" "Suc i < n" "c = name ! Suc i"
  shows "match_name name d c q = (if Suc (Suc i) = n then q\<lparr>index := index q + 1, header_state := d\<rparr> else q\<lparr>index := index q + 1\<rparr>)"
    "unat (index q + 1) = Suc i"
proof -
  show n: "unat (index q + 1) = Suc i" using assms(1,2) by (simp add: unat_word_ariths)
  show "match_name name d c q = (if Suc (Suc i) = n then q\<lparr>index := index q + 1, header_state := d\<rparr> else q\<lparr>index := index q + 1\<rparr>)"
    using assms n by (auto simp: match_name_def Let_def cstr_at_def)
qed

lemma hf_fold_length_tail:
  assumes "header_state q = h_matching_content_length" "unat (index q) = i" "map TOKEN w = drop (Suc i) ''content-length''" "w \<noteq> []"
  shows "\<exists>q'. hf_fold w q = Some q' \<and> same_but_name q q' \<and> header_state q' = h_content_length"
  using assms
proof (induction w arbitrary: q i)
  case (Cons ch w)
  have i: "Suc i < 14" using Cons.prems(3) by (cases "Suc i < 14") auto
  have d: "drop (Suc i) ''content-length'' = ''content-length'' ! Suc i # drop (Suc (Suc i)) ''content-length''"
    by (rule Cons_nth_drop_Suc [symmetric]) (use i in simp)
  have t: "TOKEN ch = ''content-length'' ! Suc i" "map TOKEN w = drop (Suc (Suc i)) ''content-length''" using Cons.prems(3) d by simp_all
  have hit: "match_name ''content-length'' h_content_length (TOKEN ch) q =
      (if Suc (Suc i) = 14 then q\<lparr>index := index q + 1, header_state := h_content_length\<rparr> else q\<lparr>index := index q + 1\<rparr>)"
    "unat (index q + 1) = Suc i"
    by (rule match_name_hit [OF Cons.prems(2), where name = "''content-length''" and n = 14]; use i t(1) in simp)+
  show ?case
  proof (cases "w = []")
    case True
    then have "Suc (Suc i) = 14" using t(2) i by simp
    then show ?thesis using hit Cons.prems(1) True by (simp add: hf_step_def)
  next
    case False
    then have "Suc (Suc i) \<noteq> 14" using t(2) by auto
    then have "hf_step ch (TOKEN ch) q = Some (q\<lparr>index := index q + 1\<rparr>)" using hit Cons.prems(1) by (simp add: hf_step_def)
    moreover obtain q' where "hf_fold w (q\<lparr>index := index q + 1\<rparr>) = Some q'" "same_but_name (q\<lparr>index := index q + 1\<rparr>) q'"
      "header_state q' = h_content_length"
      using Cons.IH [of "q\<lparr>index := index q + 1\<rparr>" "Suc i"] hit(2) t(2) False Cons.prems(1) by auto
    ultimately show ?thesis using same_but_name_trans [OF same_but_name_upd(2)] by auto
  qed
qed simp

lemma hf_fold_length:
  assumes "map TOKEN (ch # w) = ''content-length''" "index q = 0" "header_state q = field_start_state (TOKEN ch)"
  shows "\<exists>q'. hf_fold w q = Some q' \<and> same_but_name q q' \<and> header_state q' = h_content_length"
proof -
  obtain a b c v where w: "w = a # b # c # v" "TOKEN a = CHR ''o''" "TOKEN b = CHR ''n''" "TOKEN c = CHR ''t''" "map TOKEN v = ''ent-length''"
    "TOKEN ch = CHR ''c''"
    using assms(1) by auto
  let ?q = "q\<lparr>index := 3, header_state := h_matching_content_length\<rparr>"
  have "hf_fold w q = hf_fold v ?q" using w assms(2,3) by (simp add: hf_step_def match_prefix_def field_start_state_def)
  moreover have "\<exists>q'. hf_fold v ?q = Some q' \<and> same_but_name ?q q' \<and> header_state q' = h_content_length"
    by (rule hf_fold_length_tail [where i = 3]) (use w(5) in auto)
  ultimately show ?thesis using same_but_name_trans [OF same_but_name_upd(1)] by auto
qed

end
