(* ===== verification/Http_Message.thy ===== *)
theory Http_Message
  imports Http_Request
begin

text \<open>
  A whole request in one buffer: the header lines, the length, the empty line and the body.
\<close>

section \<open>Header lines\<close>

lemma drop_after: "drop p data = xs @ ys \<Longrightarrow> drop (p + length xs) data = ys"
  by (metis add.commute append_eq_conv_conj drop_drop)

lemma unat_nread_add: "unat (nread q) + n \<le> HTTP_MAX_HEADER_SIZE \<Longrightarrow> unat (nread q + of_nat n) = unat (nread q) + n"
  by (simp add: HTTP_MAX_HEADER_SIZE_def unat_word_ariths unat_of_nat)

lemma piece_name:
  fixes f :: "'u http_data_cb"
  assumes tok: "\<forall>x \<in> set (ch # w). TOKEN x \<noteq> NUL"
    and H: "\<And>q. index q = 0 \<Longrightarrow> header_state q = field_start_state (TOKEN ch) \<Longrightarrow>
      \<exists>q'. hf_fold w q = Some q' \<and> same_but_name q q' \<and> H (header_state q')"
  shows "piece f (at_line m fl cl) (ch # w @ '':'') (\<lambda>s q. s = s_header_value_discard_ws \<and> headed m fl cl q \<and> H (header_state q))"
  unfolding piece_def
proof (intro allI impI)
  fix data rest and u :: 'u and c :: "'u cfg"
  assume r: "reading data u (at_line m fl cl) ((ch # w @ '':'') @ rest) c" and n: "pos c + length (ch # w @ '':'') \<le> HTTP_MAX_HEADER_SIZE"
  have p: "pos c < length data" "data ! pos c = ch" "drop (Suc (pos c)) data = w @ CHR '':'' # rest"
    using reading_nth [of data u "at_line m fl cl" ch "w @ CHR '':'' # rest" c] r by auto
  have f: "at_line m fl cl (cur c) (hp c)" "http_errno (hp c) = HPE_OK" "usr c = u" "unat (nread (hp c)) = pos c" "marks c = (\<lambda>_. None)"
    using r by (simp_all add: reading_def)
  have ch: "TOKEN ch \<noteq> NUL" "ch \<noteq> SP" "ch \<noteq> TAB" "ch \<noteq> CR" "ch \<noteq> LF" using tok TOKEN_not_NUL [of ch] by simp_all
  let ?c = "counted ch c"
  define q1 where "q1 = (hp ?c)\<lparr>index := 0, header_state := field_start_state (TOKEN ch)\<rparr>"
  define c1 where "c1 = ?c\<lparr>hp := q1, cur := s_header_field, marks := (\<lambda>_. None)(CB_header_field := Some (pos c))\<rparr>"
  have start: "case_header_field_start (?c\<lparr>cur := s_header_field_start\<rparr>) = Next c1"
    using ch f(5) by (simp add: case_header_field_start_def Let_def UPDATE_STATE_def upd_def set_header_state_def MARK_def counted_def c1_def q1_def)
  have fin: "finish_header (hp ?c) = hp ?c" if "cur c = s_header_value_lws"
    using f(1) that by (auto simp: at_line_def finish_header_def counted_def)
  have "reexecute (body_only f) data False ?c = Next c1"
  proof (cases "cur c = s_header_value_lws")
    case True
    then show ?thesis using start fin ch
      by (simp add: reexecute.simps http_switch_def case_header_value_lws_def UPDATE_STATE_def upd_def counted_def)
  next
    case False
    then have s: "cur ?c = s_header_field_start" "?c\<lparr>cur := s_header_field_start\<rparr> = ?c" using f(1) by (auto simp: at_line_def counted_def)
    have "case_header_field_start ?c = Next c1" using start by (simp only: s)
    then show ?thesis using s(1) by (simp add: reexecute.simps http_switch_def)
  qed
  moreover have "PARSING_HEADER (cur c)" using f(1) by (auto simp: at_line_def PARSING_HEADER_def)
  ultimately have 1: "exec_loop (body_only f) data False c = exec_loop (body_only f) data False (c1\<lparr>pos := Suc (pos c1)\<rparr>)"
    using f p n by (intro exec_loop_byte) simp_all
  define c2 where "c2 = c1\<lparr>pos := Suc (pos c1)\<rparr>"
  obtain ch2 where ch2: "pos c2 < length data" "data ! pos c2 = ch2"
    using p(3) drop_Cons_nth [of "Suc (pos c)" data _ _] by (cases w) (auto simp: c2_def c1_def counted_def)
  have h: "index (hp (counted ch2 c2)) = 0" "header_state (hp (counted ch2 c2)) = field_start_state (TOKEN ch)"
    by (simp_all add: c2_def c1_def q1_def counted_def)
  obtain q' where q': "hf_fold w (hp (counted ch2 c2)) = Some q'" "same_but_name (hp (counted ch2 c2)) q'" "H (header_state q')"
    using H [OF h] by blast
  have loop: "hf_loop data (counted ch2 c2) = Some ((counted ch2 c2)\<lparr>chr := CHR '':'', hp := q', pos := pos (counted ch2 c2) + length w\<rparr>)"
    by (rule hf_loop_fold [where rest = rest]) (use p(3) tok q' in \<open>simp_all add: c2_def c1_def counted_def\<close>)
  have nr: "unat (nread (hp c2)) = Suc (pos c)" "unat (nread (hp c2) + 1) = Suc (Suc (pos c))"
    using f(4) n unat_nread_inc [of "hp c"] unat_nread_inc [of "hp c2"] by (simp_all add: c2_def c1_def q1_def counted_def)
  have nq: "nread q' = nread (hp c2) + 1" "http_errno q' = HPE_OK" "headed m fl cl q'"
    using q'(2) f(1,2) by (cases q'; auto simp: same_but_name_def counted_def c2_def c1_def q1_def at_line_def headed_def msg_def)+
  have na: "unat (nread q' + of_nat (length w)) = Suc (Suc (pos c)) + length w"
    using unat_nread_add [of q' "length w"] nq(1) nr(2) n by simp
  have len: "Suc (pos c) + length w < length data" "drop (Suc (Suc (pos c) + length w)) data = rest"
    using drop_Cons_nth [of "Suc (pos c) + length w" data "CHR '':''" rest] drop_after [OF p(3)] by simp_all
  define c3 where "c3 = (counted ch2 c2)\<lparr>chr := CHR '':'', hp := q'\<lparr>nread := nread q' + of_nat (length w)\<rparr>, cur := s_header_value_discard_ws,
    pos := pos (counted ch2 c2) + length w, marks := (\<lambda>_. None)\<rparr>"
  have "case_header_field (body_only f) data (counted ch2 c2) = Next c3"
    using loop na n len nq
    by (simp add: case_header_field_def COUNT_HEADER_SIZE_def Let_def CALLBACK_DATA_def CALLBACK_DATA_LEN_def clear_mark_def UPDATE_STATE_def
        upd_def c3_def) (simp add: counted_def c2_def c1_def clear_mark_def)
  then have "reexecute (body_only f) data False (counted ch2 c2) = Next c3"
    by (simp add: reexecute.simps http_switch_def c2_def c1_def counted_def)
  then have "exec_loop (body_only f) data False c2 = exec_loop (body_only f) data False (c3\<lparr>pos := Suc (pos c3)\<rparr>)"
    using ch2 nr(1) n by (intro exec_loop_byte) (simp_all add: PARSING_HEADER_def c2_def c1_def)
  moreover have "reading data u (\<lambda>s q. s = s_header_value_discard_ws \<and> headed m fl cl q \<and> H (header_state q)) rest (c3\<lparr>pos := Suc (pos c3)\<rparr>)"
    using len na nq q'(3) f(3) by (simp add: reading_def c3_def counted_def c2_def c1_def headed_def msg_def)
  ultimately show "\<exists>c'. exec_loop (body_only f) data False c = exec_loop (body_only f) data False c' \<and>
      reading data u (\<lambda>s q. s = s_header_value_discard_ws \<and> headed m fl cl q \<and> H (header_state q)) rest c'"
    using 1 by (auto simp: c2_def)
qed

section \<open>Header values\<close>

text \<open>The loop over a value at its CR.\<close>

lemma hv_at_CR:
  assumes "pos c < length data" "data ! pos c = CR" "http_errno (hp c) = HPE_OK" "marks c = (\<lambda>_. None)(CB_header_value := Some a)"
    and "unat (nread (hp c)) + (pos c - start) \<le> HTTP_MAX_HEADER_SIZE"
  shows "hv_loop (body_only f) data False start h c = Next (c\<lparr>chr := CR, cur := s_header_almost_done, marks := (\<lambda>_. None),
      hp := (hp c)\<lparr>header_state := h, nread := nread (hp c) + of_nat (pos c - start)\<rparr>\<rparr>)"
proof -
  have n: "unat (nread (hp c) + of_nat (pos c - start)) \<le> HTTP_MAX_HEADER_SIZE" using unat_nread_add [OF assms(5)] assms(5) by simp
  have m: "((\<lambda>_. None)(CB_header_value := Some a))(CB_header_value := None) = (\<lambda>_. None)" by auto
  show ?thesis using assms(1-4) n
    by (subst hv_loop.simps) (simp add: Let_def CALLBACK_DATA_def CALLBACK_DATA_LEN_def clear_mark_def m set_header_state_def UPDATE_STATE_def
        upd_def hv_after_def COUNT_HEADER_SIZE_def)
qed

lemma piece_value:
  fixes f :: "'u http_data_cb"
  assumes v0: "v0 \<noteq> SP" "v0 \<noteq> TAB" "v0 \<noteq> CR" "v0 \<noteq> LF"
    and start: "\<And>c :: 'u cfg. P (hp c) \<Longrightarrow> chr c = v0 \<Longrightarrow> marks c = (\<lambda>_. None) \<Longrightarrow>
      \<exists>q. case_header_value_start c = Next (c\<lparr>hp := q, cur := s_header_value, marks := (\<lambda>_. None)(CB_header_value := Some (pos c))\<rparr>) \<and>
        nread q = nread (hp c) \<and> http_errno q = http_errno (hp c) \<and> Q q"
    and run: "\<And>data rest start (c :: 'u cfg). Q (hp c) \<Longrightarrow> drop (pos c) data = vs @ CR # rest \<Longrightarrow> length vs < HTTP_MAX_HEADER_SIZE \<Longrightarrow>
      \<exists>h ch q. hv_loop (body_only f) data False start (header_state (hp c)) c =
          hv_loop (body_only f) data False start h (c\<lparr>chr := ch, pos := pos c + length vs, hp := q\<rparr>) \<and>
        nread q = nread (hp c) \<and> http_errno q = http_errno (hp c) \<and> R (q\<lparr>header_state := h\<rparr>)"
    and inc: "\<And>q n. P q \<Longrightarrow> P (q\<lparr>nread := n\<rparr>)" "\<And>q n. Q q \<Longrightarrow> Q (q\<lparr>nread := n\<rparr>)" "\<And>q n. R q \<Longrightarrow> R (q\<lparr>nread := n\<rparr>)"
  shows "piece f (\<lambda>s q. s = s_header_value_discard_ws \<and> P q) (v0 # vs @ [CR]) (\<lambda>s q. s = s_header_almost_done \<and> R q)"
  unfolding piece_def
proof (intro allI impI)
  fix data rest and u :: 'u and c :: "'u cfg"
  assume r: "reading data u (\<lambda>s q. s = s_header_value_discard_ws \<and> P q) ((v0 # vs @ [CR]) @ rest) c"
    and n: "pos c + length (v0 # vs @ [CR]) \<le> HTTP_MAX_HEADER_SIZE"
  have p: "pos c < length data" "data ! pos c = v0" "drop (Suc (pos c)) data = vs @ CR # rest"
    using reading_nth [of data u _ v0 "vs @ CR # rest" c] r by auto
  have f: "cur c = s_header_value_discard_ws" "P (hp c)" "http_errno (hp c) = HPE_OK" "usr c = u" "unat (nread (hp c)) = pos c" "marks c = (\<lambda>_. None)"
    using r by (simp_all add: reading_def)
  let ?m = "(\<lambda>_. None)(CB_header_value := Some (pos c))"
  obtain q where q: "case_header_value_start (counted v0 c) = Next ((counted v0 c)\<lparr>hp := q, cur := s_header_value, marks := ?m\<rparr>)"
    "nread q = nread (hp c) + 1" "http_errno q = HPE_OK" "Q q"
    using start [of "counted v0 c"] f inc(1) by (auto simp: counted_def)
  define c2 where "c2 = (counted v0 c)\<lparr>hp := q, cur := s_header_value, marks := ?m, pos := Suc (pos c)\<rparr>"
  have "exec_loop (body_only f) data False c = exec_loop (body_only f) data False
      (((counted v0 c)\<lparr>hp := q, cur := s_header_value, marks := ?m\<rparr>)\<lparr>pos := Suc (pos ((counted v0 c)\<lparr>hp := q, cur := s_header_value, marks := ?m\<rparr>))\<rparr>)"
    using q(1) f p n v0
    by (intro exec_loop_byte) (simp_all add: PARSING_HEADER_def reexecute.simps http_switch_def case_header_value_discard_ws_def counted_def)
  then have 1: "exec_loop (body_only f) data False c = exec_loop (body_only f) data False c2" by (simp add: c2_def counted_def)
  have nr: "unat (nread (hp c2)) = Suc (pos c)" using f(5) n unat_nread_inc [of "hp c"] q(2) by (simp add: c2_def)
  obtain b where b: "pos c2 < length data" "data ! pos c2 = b"
    using drop_Cons_nth [of "Suc (pos c)" data _ _] p(3) by (cases vs) (auto simp: c2_def)
  define c3 where "c3 = counted b c2"
  have nr3: "unat (nread (hp c3)) = Suc (Suc (pos c))" using nr n unat_nread_inc [of "hp c2"] by (simp add: c3_def counted_def)
  obtain h ch q' where l: "hv_loop (body_only f) data False (pos c3) (header_state (hp c3)) c3 =
      hv_loop (body_only f) data False (pos c3) h (c3\<lparr>chr := ch, pos := pos c3 + length vs, hp := q'\<rparr>)"
    "nread q' = nread (hp c3)" "http_errno q' = http_errno (hp c3)" "R (q'\<lparr>header_state := h\<rparr>)"
    using run [of c3 data rest "pos c3"] inc(2) [OF q(4)] p(3) n by (auto simp: c3_def counted_def c2_def)
  have at: "Suc (pos c) + length vs < length data" "data ! (Suc (pos c) + length vs) = CR" "drop (Suc (Suc (pos c) + length vs)) data = rest"
    using drop_Cons_nth [of "Suc (pos c) + length vs" data CR rest] drop_after [OF p(3)] by simp_all
  define c4 where "c4 = c3\<lparr>chr := CR, cur := s_header_almost_done, marks := (\<lambda>_. None), pos := pos c3 + length vs,
      hp := q'\<lparr>header_state := h, nread := nread q' + of_nat (length vs)\<rparr>\<rparr>"
  have na: "unat (nread q' + of_nat (length vs)) = Suc (Suc (pos c)) + length vs"
    using unat_nread_add [of q' "length vs"] l(2) nr3 n by simp
  have e: "http_errno q' = HPE_OK" "pos c3 = Suc (pos c)" "marks c3 = ?m" using l(3) q(3) by (simp_all add: c3_def counted_def c2_def)
  have "hv_loop (body_only f) data False (pos c3) h (c3\<lparr>chr := ch, pos := pos c3 + length vs, hp := q'\<rparr>) = Next c4"
    using at e l(2) nr3 n by (subst hv_at_CR [where a = "pos c"]) (simp_all add: c4_def)
  then have "reexecute (body_only f) data False (counted b c2) = Next c4"
    using l(1) by (simp add: reexecute.simps http_switch_def case_header_value_def c3_def) (simp add: counted_def c2_def case_header_value_def)
  then have "exec_loop (body_only f) data False c2 = exec_loop (body_only f) data False (c4\<lparr>pos := Suc (pos c4)\<rparr>)"
    using b nr n by (intro exec_loop_byte) (simp_all add: PARSING_HEADER_def c2_def)
  moreover have "reading data u (\<lambda>s q. s = s_header_almost_done \<and> R q) rest (c4\<lparr>pos := Suc (pos c4)\<rparr>)"
    using at na e inc(3) [OF l(4)] f(4) by (simp add: reading_def c4_def) (simp add: c3_def counted_def c2_def)
  ultimately show "\<exists>c'. exec_loop (body_only f) data False c = exec_loop (body_only f) data False c' \<and>
      reading data u (\<lambda>s q. s = s_header_almost_done \<and> R q) rest c'"
    using 1 by auto
qed

lemma c_memchr_hit:
  "p + k < length data \<Longrightarrow> k < n \<Longrightarrow> data ! (p + k) = ch \<Longrightarrow> ch \<notin> set (take k (drop p data)) \<Longrightarrow> c_memchr data p ch n = Some (p + k)"
proof (induction k arbitrary: p n)
  case 0
  then show ?case by (cases n) simp_all
next
  case (Suc k)
  then obtain n' where n: "n = Suc n'" by (cases n) simp_all
  have "take (Suc k) (drop p data) = data ! p # take k (drop (Suc p) data)"
    using Suc.prems(1) by (simp add: Cons_nth_drop_Suc [symmetric])
  then show ?case using Suc.IH [of "Suc p" n'] Suc.prems n by auto
qed

lemma skip_to_CR:
  assumes d: "drop p data = vs @ CR # rest" and vs: "CR \<notin> set vs" "LF \<notin> set vs" "length vs < HTTP_MAX_HEADER_SIZE"
  shows "skip_to data p = p + length vs"
proof -
  have at: "p + length vs < length data" "data ! (p + length vs) = CR"
    using drop_Cons_nth [OF drop_after [OF d]] by simp_all
  have tk: "take (length vs) (drop p data) = vs" using d by simp
  let ?n = "min (length data - p) HTTP_MAX_HEADER_SIZE"
  have cr: "c_memchr data p CR ?n = Some (p + length vs)"
    by (rule c_memchr_hit) (use at tk vs in simp_all)
  have "p + length vs < j" if j: "c_memchr data p LF ?n = Some j" for j
  proof (rule ccontr)
    assume "\<not> p + length vs < j"
    then have "j = p + length vs \<or> (p \<le> j \<and> j - p < length vs)" using c_memchr_Some [OF j] by linarith
    moreover have "data ! j = vs ! (j - p)" if "p \<le> j" "j - p < length vs"
      using that nth_drop [of p data "j - p"] d at(1) by (simp add: nth_append)
    ultimately show False using c_memchr_Some [OF j] at(2) vs(2) by (auto simp: set_conv_nth)
  qed
  then show ?thesis using cr by (force simp: skip_to_def Let_def split: option.splits)
qed

lemma hv_loop_general:
  assumes d: "drop (pos c) data = vs @ CR # rest" and vs: "CR \<notin> set vs" "LF \<notin> set vs" "\<forall>x \<in> set vs. IS_HEADER_CHAR x" "length vs < HTTP_MAX_HEADER_SIZE"
  shows "\<exists>ch. hv_loop S data lenient start h_general c = hv_loop S data lenient start h_general (c\<lparr>chr := ch, pos := pos c + length vs\<rparr>)"
proof (cases vs)
  case Nil
  then show ?thesis by (intro exI [of _ "chr c"]) simp
next
  case (Cons x xs)
  then have "pos c < length data" "data ! pos c = x" using drop_Cons_nth [of "pos c" data x "xs @ CR # rest"] d by simp_all
  then show ?thesis using vs Cons skip_to_CR [OF d vs(1,2,4)]
    by (intro exI [of _ x], subst hv_loop.simps) (auto simp: Let_def hv_step_def)
qed

text \<open>A header the parser only reads over.\<close>

definition plain_header :: "string \<times> string \<Rightarrow> bool" where
  "plain_header = (\<lambda>(n, v). n \<noteq> [] \<and> (\<forall>x \<in> set n. TOKEN x \<noteq> NUL) \<and> map TOKEN n \<notin> set known_names \<and>
     v \<noteq> [] \<and> hd v \<noteq> SP \<and> hd v \<noteq> TAB \<and> (\<forall>x \<in> set v. IS_HEADER_CHAR x \<and> x \<noteq> CR \<and> x \<noteq> LF))"

definition header_line :: "string \<times> string \<Rightarrow> string" where
  "header_line = (\<lambda>(n, v). n @ '': '' @ v @ CRLF)"

lemma piece_blank:
  assumes "\<And>q n. P q \<Longrightarrow> P (q\<lparr>nread := n\<rparr>)"
  shows "piece f (\<lambda>s q. s = s_header_value_discard_ws \<and> P q) [SP] (\<lambda>s q. s = s_header_value_discard_ws \<and> P q)"
  by (rule piece_char [where g = "\<lambda>q. q" and st' = s_header_value_discard_ws])
    (use assms in \<open>auto simp: PARSING_HEADER_def step_defs case_header_value_discard_ws_def\<close>)

lemma piece_line_end:
  assumes "\<And>q n. P q \<Longrightarrow> P (q\<lparr>nread := n\<rparr>)"
  shows "piece f (\<lambda>s q. s = s_header_almost_done \<and> P q) [LF] (\<lambda>s q. s = s_header_value_lws \<and> P q)"
  by (rule piece_char [where g = "\<lambda>q. q" and st' = s_header_value_lws])
    (use assms in \<open>auto simp: PARSING_HEADER_def step_defs case_header_almost_done_def\<close>)

lemma headed_upd [simp]:
  "headed m fl cl (q\<lparr>nread := n\<rparr>) = headed m fl cl q" "headed m fl cl (q\<lparr>index := i\<rparr>) = headed m fl cl q"
  "headed m fl cl (q\<lparr>header_state := h\<rparr>) = headed m fl cl q"
  by (simp_all add: headed_def msg_def)

lemma piece_plain:
  fixes f :: "'u http_data_cb"
  assumes "plain_header h"
  shows "piece f (at_line m fl cl) (header_line h) (at_line m fl cl)"
proof -
  obtain ch w v0 vs where h: "h = (ch # w, v0 # vs)" "\<forall>x \<in> set (ch # w). TOKEN x \<noteq> NUL" "map TOKEN (ch # w) \<notin> set known_names"
    "v0 \<noteq> SP" "v0 \<noteq> TAB" "v0 \<noteq> CR" "v0 \<noteq> LF" "CR \<notin> set vs" "LF \<notin> set vs" "\<forall>x \<in> set vs. IS_HEADER_CHAR x"
    using assms by (cases h; cases "fst h"; cases "snd h") (auto simp: plain_header_def)
  let ?H = "\<lambda>s. s \<notin> {h_connection, h_content_length, h_transfer_encoding, h_upgrade} \<and> s \<noteq> h_matching_connection_token_start"
  let ?P = "\<lambda>q. headed m fl cl q \<and> ?H (header_state q)" let ?R = "\<lambda>q. headed m fl cl q \<and> header_state q = h_general"
  have name: "piece f (at_line m fl cl) (ch # w @ '':'') (\<lambda>s q. s = s_header_value_discard_ws \<and> ?P q)"
  proof (rule piece_name [OF h(2)])
    fix q :: http_parser assume q: "index q = 0" "header_state q = field_start_state (TOKEN ch)"
    then have "q = q\<lparr>index := 0, header_state := field_start_state (TOKEN ch)\<rparr>" by simp
    then have "name_inv [TOKEN ch] q" using name_inv_start by metis
    then obtain q' where "hf_fold w q = Some q'" "name_inv (map TOKEN (ch # w)) q'" "same_but_name q q'"
      using hf_fold_inv [of "[TOKEN ch]" q w] h(2) by auto
    then show "\<exists>q'. hf_fold w q = Some q' \<and> same_but_name q q' \<and> ?H (header_state q')"
      using other_name_state [OF _ h(3)] by blast
  qed
  have val: "piece f (\<lambda>s q. s = s_header_value_discard_ws \<and> ?P q) (v0 # vs @ [CR]) (\<lambda>s q. s = s_header_almost_done \<and> ?R q)"
  proof (rule piece_value [where Q = ?R])
    fix c :: "'u cfg" assume c: "?P (hp c)" "marks c = (\<lambda>_. None)"
    show "\<exists>q. case_header_value_start c = Next (c\<lparr>hp := q, cur := s_header_value, marks := (\<lambda>_. None)(CB_header_value := Some (pos c))\<rparr>) \<and>
        nread q = nread (hp c) \<and> http_errno q = http_errno (hp c) \<and> ?R q"
      using c by (intro exI [of _ "(hp c)\<lparr>index := 0, header_state := h_general\<rparr>"])
        (auto simp: case_header_value_start_def Let_def MARK_def upd_def UPDATE_STATE_def set_header_state_def split: header_states.splits)
  next
    fix data rest start and c :: "'u cfg"
    assume c: "?R (hp c)" "drop (pos c) data = vs @ CR # rest" "length vs < HTTP_MAX_HEADER_SIZE"
    obtain x where "hv_loop (body_only f) data False start h_general c =
        hv_loop (body_only f) data False start h_general (c\<lparr>chr := x, pos := pos c + length vs\<rparr>)"
      using hv_loop_general [OF c(2) h(8-10) c(3)] by blast
    then show "\<exists>h ch q. hv_loop (body_only f) data False start (header_state (hp c)) c =
          hv_loop (body_only f) data False start h (c\<lparr>chr := ch, pos := pos c + length vs, hp := q\<rparr>) \<and>
        nread q = nread (hp c) \<and> http_errno q = http_errno (hp c) \<and> ?R (q\<lparr>header_state := h\<rparr>)"
      using c(1) by (intro exI [of _ h_general] exI [of _ x] exI [of _ "hp c"]) simp
  qed (use h(4-7) in simp_all)
  have "piece f (at_line m fl cl) ((ch # w @ '':'') @ [SP] @ (v0 # vs @ [CR]) @ [LF]) (\<lambda>s q. s = s_header_value_lws \<and> ?R q)"
    by (intro piece_append [OF name] piece_append [OF piece_blank] piece_append [OF val] piece_line_end) simp_all
  then have "piece f (at_line m fl cl) (header_line h) (\<lambda>s q. s = s_header_value_lws \<and> ?R q)"
    by (simp add: h(1) header_line_def CRLF_def)
  then show ?thesis by (rule piece_mono) (simp_all add: at_line_def)
qed

text \<open>The length of the body, with the name in any capitals.\<close>

definition length_line :: "string \<Rightarrow> string \<Rightarrow> string" where
  "length_line n ds = n @ '': '' @ ds @ CRLF"

definition is_length :: "string \<Rightarrow> bool" where
  "is_length ds \<longleftrightarrow> ds \<noteq> [] \<and> (\<forall>ch \<in> set ds. IS_NUM ch) \<and> decimal 0 ds \<le> max_length"

lemma piece_length:
  fixes f :: "'u http_data_cb"
  assumes n: "map TOKEN n = ''content-length''" and ds: "is_length ds"
  shows "piece f (at_line m 0 ULLONG_MAX) (length_line n ds) (at_line m F_CONTENTLENGTH (of_nat (decimal 0 ds)))"
proof -
  obtain ch w where nw: "n = ch # w" using n by (cases n) simp_all
  obtain d vs where d: "ds = d # vs" "IS_NUM d" "\<forall>x \<in> set vs. IS_NUM x" "decimal (digit d) vs \<le> max_length"
    using ds by (cases ds) (auto simp: is_length_def)
  have nn: "d \<noteq> SP" "d \<noteq> TAB" "d \<noteq> CR" "d \<noteq> LF" using d(2) by (auto simp: IS_NUM_def)
  have dig: "unat (of_nat (digit d) :: u64) = digit d" using digit_le [OF d(2)] by (simp add: unat_of_nat)
  have tok: "\<forall>x \<in> set (ch # w). TOKEN x \<noteq> NUL"
  proof
    fix x assume "x \<in> set (ch # w)"
    then have "TOKEN x \<in> set ''content-length''" using n nw by (metis image_eqI set_map)
    then show "TOKEN x \<noteq> NUL" by auto
  qed
  let ?P = "\<lambda>q. headed m 0 ULLONG_MAX q \<and> header_state q = h_content_length"
  let ?Q = "\<lambda>q. headed m F_CONTENTLENGTH (of_nat (digit d)) q \<and> header_state q = h_content_length_num"
  let ?R = "\<lambda>q. headed m F_CONTENTLENGTH (of_nat (decimal 0 ds)) q \<and> header_state q = h_content_length_num"
  have name: "piece f (at_line m 0 ULLONG_MAX) (ch # w @ '':'') (\<lambda>s q. s = s_header_value_discard_ws \<and> ?P q)"
    by (rule piece_name [OF tok, where H = "\<lambda>s. s = h_content_length"]) (use hf_fold_length n nw in simp)
  have val: "piece f (\<lambda>s q. s = s_header_value_discard_ws \<and> ?P q) (d # vs @ [CR]) (\<lambda>s q. s = s_header_almost_done \<and> ?R q)"
  proof (rule piece_value [where Q = ?Q])
    fix c :: "'u cfg" assume c: "?P (hp c)" "chr c = d" "marks c = (\<lambda>_. None)"
    let ?q = "(add_flag F_CONTENTLENGTH (hp c))\<lparr>index := 0, header_state := h_content_length_num, content_length := of_nat (digit d)\<rparr>"
    show "\<exists>q. case_header_value_start c = Next (c\<lparr>hp := q, cur := s_header_value, marks := (\<lambda>_. None)(CB_header_value := Some (pos c))\<rparr>) \<and>
        nread q = nread (hp c) \<and> http_errno q = http_errno (hp c) \<and> ?Q q"
      using c d(2) by (intro exI [of _ ?q])
        (auto simp: case_header_value_start_def Let_def MARK_def upd_def UPDATE_STATE_def set_header_state_def headed_def msg_def
           add_flag_def flag_set_def http_parser_init_def)
  next
    fix data rest start and c :: "'u cfg"
    assume c: "?Q (hp c)" "drop (pos c) data = vs @ CR # rest"
    have cl: "unat (content_length (hp c)) = digit d" using c(1) dig by (simp add: headed_def msg_def)
    have room: "pos c + length vs \<le> length data" "take (length vs) (drop (pos c) data) = vs"
      using drop_Cons_nth [OF drop_after [OF c(2)]] c(2) by simp_all
    let ?q = "(hp c)\<lparr>content_length := of_nat (decimal (digit d) vs)\<rparr>"
    have "\<exists>x. hv_loop (body_only f) data False start h_content_length_num c =
        hv_loop (body_only f) data False start h_content_length_num (c\<lparr>chr := x, pos := pos c + length vs, hp := ?q\<rparr>)"
    proof (cases "vs = []")
      case True
      then have "c = c\<lparr>chr := chr c, pos := pos c + length vs, hp := ?q\<rparr>" using c(1) by (simp add: headed_def msg_def)
      then show ?thesis by metis
    next
      case False
      then show ?thesis using hv_loop_digits [OF d(3) False room, of "body_only f" False start] d(4) cl
        by (auto simp: after_digits_def)
    qed
    then show "\<exists>h ch q. hv_loop (body_only f) data False start (header_state (hp c)) c =
          hv_loop (body_only f) data False start h (c\<lparr>chr := ch, pos := pos c + length vs, hp := q\<rparr>) \<and>
        nread q = nread (hp c) \<and> http_errno q = http_errno (hp c) \<and> ?R (q\<lparr>header_state := h\<rparr>)"
      using c(1) d(1) by (intro exI [of _ h_content_length_num]) (auto intro!: exI [of _ ?q] simp: headed_def msg_def)
  qed (use nn in simp_all)
  have "piece f (at_line m 0 ULLONG_MAX) ((ch # w @ '':'') @ [SP] @ (d # vs @ [CR]) @ [LF]) (\<lambda>s q. s = s_header_value_lws \<and> ?R q)"
    by (intro piece_append [OF name] piece_append [OF piece_blank] piece_append [OF val] piece_line_end) simp_all
  then have "piece f (at_line m 0 ULLONG_MAX) (length_line n ds) (\<lambda>s q. s = s_header_value_lws \<and> ?R q)"
    by (simp add: nw d(1) length_line_def CRLF_def)
  then show ?thesis by (rule piece_mono) (simp_all add: at_line_def)
qed

section \<open>The end of the headers and the body\<close>

lemma piece_end: "piece f (at_line m fl cl) [CR] (\<lambda>s q. s = s_headers_almost_done \<and> headed m fl cl q)"
  by (rule piece_char [where g = "\<lambda>q. q" and st' = s_headers_almost_done])
    (auto simp: at_line_def PARSING_HEADER_def step_defs case_header_value_lws_def case_header_field_start_def finish_header_def)

text \<open>Behind the empty line: nothing counted, no mark, and the body to come.\<close>

lemma headers_end:
  assumes r: "reading data u (\<lambda>s q. s = s_headers_almost_done \<and> headed m F_CONTENTLENGTH cl q) (LF # body) c"
    and m: "m \<noteq> HTTP_CONNECT" and cl: "cl \<noteq> 0" "cl \<noteq> ULLONG_MAX" and n: "pos c < HTTP_MAX_HEADER_SIZE"
  shows "exec_loop (body_only f) data False c = exec_loop (body_only f) data False
    (c\<lparr>chr := LF, hp := (hp c)\<lparr>nread := 0, upgrade := False\<rparr>, cur := s_body_identity, pos := Suc (pos c)\<rparr>)"
proof -
  have p: "pos c < length data" "data ! pos c = LF" using reading_nth [OF r] by simp_all
  have f: "cur c = s_headers_almost_done" "http_errno (hp c) = HPE_OK" "unat (nread (hp c)) = pos c" "hmethod (hp c) = m"
    "flags (hp c) = F_CONTENTLENGTH" "content_length (hp c) = cl"
    using r by (simp_all add: reading_def headed_def msg_def)
  have fl: "F_CONTENTLENGTH AND F_CHUNKED = 0" "F_CONTENTLENGTH AND F_TRAILING = 0" "F_CONTENTLENGTH AND F_UPGRADE = 0"
    "F_CONTENTLENGTH AND F_SKIPBODY = 0"
    by (simp_all add: flag_defs)
  let ?c1 = "(counted LF c)\<lparr>hp := (hp c)\<lparr>nread := 0, upgrade := False\<rparr>, cur := s_body_identity\<rparr>"
  have "reexecute (body_only f) data False (counted LF c) = Next ?c1"
    using f fl cl m
    by (simp add: reexecute.simps http_switch_def case_headers_almost_done_def STRICT_CHECK_def counted_def flag_set_def headers_complete_def
        headers_complete_tail_def UPDATE_STATE_def upd_def decide_upgrade_def case_headers_done_def Let_def)
  then have "exec_loop (body_only f) data False c = exec_loop (body_only f) data False (?c1\<lparr>pos := Suc (pos ?c1)\<rparr>)"
    using p f n by (intro exec_loop_byte) (simp_all add: PARSING_HEADER_def)
  then show ?thesis by (simp add: counted_def)
qed

text \<open>A body that lies in the buffer as a whole, wherever it starts.\<close>

lemma exec_loop_body:
  assumes c: "cur c = s_body_identity" "http_errno (hp c) = HPE_OK" "marks c = (\<lambda>_. None)" "\<not> upgrade (hp c)"
    and cl: "content_length (hp c) = of_nat (length body)" "unat (of_nat (length body) :: u64) = length body" "content_length (hp c) \<noteq> ULLONG_MAX"
    and data: "drop (pos c) data = body" "body \<noteq> []" and f: "\<And>q. f (pos c) body q (usr c) = (0, False, u1)"
  shows "exec_loop (body_only f) data False c = Next (c\<lparr>chr := hd body,
    hp := (hp c)\<lparr>content_length := 0, state := s_message_done\<rparr>,
    cur := NEW_MESSAGE ((hp c)\<lparr>content_length := 0, state := s_message_done\<rparr>), usr := u1, pos := length data\<rparr>)"
proof -
  let ?q = "(hp c)\<lparr>content_length := 0, state := s_message_done\<rparr>"
  have p: "pos c < length data" "length data - pos c = length body" "data ! pos c = hd body"
    using data by (auto simp: hd_drop_conv_nth)
  have b: "0 < length body" "(of_nat (length body) :: u64) \<noteq> 0" using data(2) cl(2) by auto
  have tk: "take (length body) (drop (pos c) data) = body" using data(1) by simp
  let ?c1 = "c\<lparr>chr := hd body, hp := ?q, cur := NEW_MESSAGE ?q, pos := length data - 1, usr := u1\<rparr>"
  have "one_byte (body_only f) data False c = Next ?c1"
    using c cl p b tk f
    by (simp add: one_byte_def count_byte_def PARSING_HEADER_def reexecute.simps http_switch_def
        case_body_identity_def ASSERT_def consume_def to_read_def MARK_def upd_def Let_def UPDATE_STATE_def
        CALLBACK_DATA_LEN_def run_callback_ok save_state_def clear_mark_def case_message_done_def
        CALLBACK_NOTIFY_def CALLBACK_NOTIFY_ER_def new_message_def)
  then have "exec_loop (body_only f) data False c = exec_loop (body_only f) data False (?c1\<lparr>pos := Suc (pos ?c1)\<rparr>)"
    using p by (subst exec_loop.simps) simp
  moreover have "Suc (pos ?c1) = length data" using p(1) by simp
  ultimately show ?thesis by (simp add: exec_loop.simps [of _ _ _ "_\<lparr>pos := length data\<rparr>"])
qed

section \<open>A whole request\<close>

text \<open>The text before the body: the lines before the length, the length, the lines behind it.\<close>

definition request_head ::
  "http_method \<Rightarrow> string \<Rightarrow> (string \<times> string) list \<Rightarrow> string \<times> string \<Rightarrow> (string \<times> string) list \<Rightarrow> string" where
  "request_head m cs hs l hs' =
     (http_method_str m @ [SP]) @ (CHR ''/'' # cs @ [SP]) @ (''HTTP/1.1'' @ CRLF) @
     concat (map header_line hs) @ length_line (fst l) (snd l) @ concat (map header_line hs') @ CRLF"

definition good_request ::
  "http_method \<Rightarrow> string \<Rightarrow> (string \<times> string) list \<Rightarrow> string \<times> string \<Rightarrow> (string \<times> string) list \<Rightarrow> string \<Rightarrow> bool" where
  "good_request m cs hs l hs' body \<longleftrightarrow> m \<noteq> HTTP_CONNECT \<and> (\<forall>x \<in> set cs. IS_URL_CHAR x) \<and> (\<forall>h \<in> set hs \<union> set hs'. plain_header h) \<and>
     map TOKEN (fst l) = ''content-length'' \<and> is_length (snd l) \<and> decimal 0 (snd l) = length body \<and> body \<noteq> [] \<and>
     length (request_head m cs hs l hs') \<le> HTTP_MAX_HEADER_SIZE"

lemma piece_plains: "\<forall>h \<in> set hs. plain_header h \<Longrightarrow> piece f (at_line m fl cl) (concat (map header_line hs)) (at_line m fl cl)"
  by (induction hs) (auto intro: piece_Nil piece_append piece_plain)

lemma piece_head:
  assumes "good_request m cs hs l hs' body"
  shows "piece f fresh_request (butlast (request_head m cs hs l hs'))
    (\<lambda>s q. s = s_headers_almost_done \<and> headed m F_CONTENTLENGTH (of_nat (length body)) q)"
proof -
  let ?t = "(http_method_str m @ [SP]) @ (CHR ''/'' # cs @ [SP]) @ (''HTTP/1.1'' @ CRLF) @
     concat (map header_line hs) @ length_line (fst l) (snd l) @ concat (map header_line hs') @ [CR]"
  have g: "m \<noteq> HTTP_CONNECT" "\<forall>x \<in> set cs. IS_URL_CHAR x" "\<forall>h \<in> set hs. plain_header h" "\<forall>h \<in> set hs'. plain_header h"
    "map TOKEN (fst l) = ''content-length''" "is_length (snd l)" "decimal 0 (snd l) = length body"
    using assms by (auto simp: good_request_def)
  have "request_head m cs hs l hs' = ?t @ [LF]" by (simp add: request_head_def CRLF_def)
  then have "butlast (request_head m cs hs l hs') = ?t" by (simp only: butlast_snoc)
  moreover have "piece f fresh_request ?t (\<lambda>s q. s = s_headers_almost_done \<and> headed m F_CONTENTLENGTH (of_nat (decimal 0 (snd l))) q)"
    by (rule piece_append [OF piece_method piece_append [OF piece_url [OF g(1,2)] piece_append [OF piece_version
          piece_append [OF piece_plains [OF g(3)] piece_append [OF piece_length [OF g(5,6)] piece_append [OF piece_plains [OF g(4)] piece_end]]]]]])
  ultimately show ?thesis using g(7) by simp
qed

lemma request_parsed:
  fixes f :: "'u http_data_cb"
  assumes g: "good_request m cs hs l hs' body" and f: "\<And>q. f (length (request_head m cs hs l hs')) body q u = (0, False, u1)"
  shows "\<exists>q. http_parser_execute (body_only f) (request_head m cs hs l hs' @ body) (http_parser_init HTTP_REQUEST) u =
    Some (length (request_head m cs hs l hs' @ body), q, u1) \<and> state q = s_start_req \<and> http_errno q = HPE_OK \<and> hmethod q = m"
proof -
  define t where "t = request_head m cs hs l hs'"
  define data where "data = t @ body"
  define c where "c = (exec_start (http_parser_init HTTP_REQUEST) u)\<lparr>marks := initial_marks (state (http_parser_init HTTP_REQUEST))\<rparr>"
  have "last t = LF" "t \<noteq> []" by (simp_all add: t_def request_head_def CRLF_def)
  then have t: "t = butlast t @ [LF]" "0 < length t" by (metis append_butlast_last_id, simp)
  have gd: "m \<noteq> HTTP_CONNECT" "length t \<le> HTTP_MAX_HEADER_SIZE" "body \<noteq> []" "length body \<le> max_length"
    using g by (auto simp: good_request_def t_def is_length_def)
  have n: "unat (of_nat (length body) :: u64) = length body" using gd(4) by (simp add: max_length_def unat_of_nat)
  have cl: "(of_nat (length body) :: u64) \<noteq> 0" "(of_nat (length body) :: u64) \<noteq> ULLONG_MAX"
    using n gd(3,4) by (auto simp: max_length_def ULLONG_MAX_def unsigned_minus_1_eq_mask mask_eq_exp_minus_1)
  have "data = (butlast t @ [LF]) @ body" unfolding data_def using t(1) by metis
  then have "reading data u fresh_request (butlast t @ LF # body) c"
    by (simp add: reading_def c_def exec_start_def http_parser_init_def fresh_request_def initial_marks_def url_state_def fun_eq_iff)
  moreover have "pos c + length (butlast t) \<le> HTTP_MAX_HEADER_SIZE" using gd(2) t(2) by (simp add: c_def exec_start_def)
  ultimately obtain c1 where c1: "exec_loop (body_only f) data False c = exec_loop (body_only f) data False c1"
    "reading data u (\<lambda>s q. s = s_headers_almost_done \<and> headed m F_CONTENTLENGTH (of_nat (length body)) q) (LF # body) c1"
    using piece_head [OF g, of f] unfolding piece_def t_def [symmetric] by blast
  have p1: "pos c1 = length (butlast t)" "drop (Suc (pos c1)) data = body" using reading_pos [OF c1(2)] reading_nth [OF c1(2)] t(2)
    by (simp_all add: data_def)
  define c2 where "c2 = c1\<lparr>chr := LF, hp := (hp c1)\<lparr>nread := 0, upgrade := False\<rparr>, cur := s_body_identity, pos := Suc (pos c1)\<rparr>"
  define q where "q = (hp c2)\<lparr>content_length := 0, state := s_message_done\<rparr>"
  define c3 where "c3 = c2\<lparr>chr := hd body, hp := q, cur := NEW_MESSAGE q, usr := u1, pos := length data\<rparr>"
  have h: "http_errno (hp c1) = HPE_OK" "usr c1 = u" "marks c1 = (\<lambda>_. None)" "headed m F_CONTENTLENGTH (of_nat (length body)) (hp c1)"
    using c1(2) by (simp_all add: reading_def)
  have "exec_loop (body_only f) data False c1 = exec_loop (body_only f) data False c2"
    unfolding c2_def by (rule headers_end [OF c1(2) gd(1) cl]) (use p1(1) gd(2) t(2) length_butlast [of t] in linarith)
  also have "\<dots> = Next c3"
    unfolding c3_def q_def
    by (rule exec_loop_body [where body = body]) (use h n cl gd(3) p1 f t(2) in \<open>simp_all add: c2_def headed_def msg_def t_def\<close>)
  finally have loop: "exec_loop (body_only f) data False c = Next c3" using c1(1) by simp
  have q: "http_errno q = HPE_OK" "hmethod q = m" "NEW_MESSAGE q = s_start_req"
    using h by (simp_all add: q_def c2_def headed_def msg_def NEW_MESSAGE_def start_state_def http_should_keep_alive_def
      http_message_needs_eof_def flag_set_def flag_defs)
  have "exec_end (body_only f) data c3 = RETURN (length data) c3"
    using q h(3) by (simp add: exec_end_def marks_set_def ASSERT_def CALLBACK_DATA_NOADVANCE_def CALLBACK_DATA_LEN_def c3_def c2_def)
  then have "http_parser_execute (body_only f) data (http_parser_init HTTP_REQUEST) u = Some (length data, q\<lparr>state := s_start_req\<rparr>, u1)"
    using loop q gd(3)
    by (simp add: http_parser_execute_def execute_res_def Let_def c_def [symmetric] RETURN_def save_state_def upd_def)
      (simp add: data_def http_parser_init_def c3_def)
  then show ?thesis using q by (simp add: data_def t_def)
qed

text \<open>
  C22: A whole request in one buffer is parsed to its end: for every method but CONNECT, any path, any
  headers the parser only reads over, before and behind a Content-Length in any capitals, and any body
  of that length, the one callback gets exactly the body, at the offset where the head ends, every
  byte is consumed, and the parser waits for the next request.
\<close>

theorem whole_request_parsed:
  fixes f :: "'u http_data_cb"
  assumes "good_request m cs hs l hs' body" and "\<And>q. f (length (request_head m cs hs l hs')) body q u = (0, False, u1)"
  shows "\<exists>q. http_parser_execute (body_only f) (request_head m cs hs l hs' @ body) (http_parser_init HTTP_REQUEST) u =
    Some (length (request_head m cs hs l hs' @ body), q, u1) \<and> state q = s_start_req \<and> http_errno q = HPE_OK \<and> hmethod q = m"
  by (rule request_parsed [where f = f, OF assms(1)]) (rule assms(2))

text \<open>A POST with a Host before the length and an Accept behind it.\<close>

definition demo_before :: "(string \<times> string) list" where
  "demo_before = [(''Host'', ''provider:30000'')]"

definition demo_behind :: "(string \<times> string) list" where
  "demo_behind = [(''Accept'', ''*/*'')]"

definition demo_head :: "string \<Rightarrow> string" where
  "demo_head ds = request_head HTTP_POST [] demo_before (''Content-length'', ds) demo_behind"

lemma demo_good:
  assumes "is_length ds" "decimal 0 ds = length body" "body \<noteq> []" "length ds \<le> 20"
  shows "good_request HTTP_POST [] demo_before (''Content-length'', ds) demo_behind body" "length (demo_head ds) \<le> 100"
proof -
  have h: "\<forall>h \<in> set demo_before \<union> set demo_behind. plain_header h" "map TOKEN ''Content-length'' = ''content-length''"
    by code_simp+
  show len: "length (demo_head ds) \<le> 100"
    using assms(4) by (simp add: demo_head_def request_head_def demo_before_def demo_behind_def header_line_def length_line_def CRLF_def)
  then show "good_request HTTP_POST [] demo_before (''Content-length'', ds) demo_behind body"
    using assms h by (simp add: good_request_def demo_head_def HTTP_MAX_HEADER_SIZE_def)
qed

lemma whole_request_parsed_witness:
  "\<exists>q n. http_parser_execute (body_only (\<lambda>off s q u. (0, False, u @ s))) (demo_head ''3'' @ ''a=b'') (http_parser_init HTTP_REQUEST) [] =
     Some (n, q, ''a=b'')"
proof -
  have "is_length ''3''" by (simp add: is_length_def IS_NUM_def digit_def max_length_def)
  then have g: "good_request HTTP_POST [] demo_before (''Content-length'', ''3'') demo_behind ''a=b''"
    by (rule demo_good(1)) (simp_all add: digit_def)
  show ?thesis using whole_request_parsed [OF g, of "\<lambda>off s q u. (0, False, u @ s)" "[]"] by (auto simp: demo_head_def)
qed

end
