(* ===== verification/Http_Chunk.thy ===== *)
theory Http_Chunk
  imports Http_Message
begin

text \<open>
  The line that opens a chunk: its hexadecimal size is read exactly, or refused before it could wrap
  around.
\<close>

section \<open>The digits\<close>

text \<open>The number a string of hexadecimal digits stands for, read after the number \<open>n\<close>.\<close>

definition hex_number :: "nat \<Rightarrow> string \<Rightarrow> nat" where
  "hex_number n ds = foldl (\<lambda>n ch. 16 * n + hex_value ch) n ds"

lemma hex_number_simps [simp]:
  "hex_number n [] = n" "hex_number n (ch # ds) = hex_number (16 * n + hex_value ch) ds"
  by (simp_all add: hex_number_def)

lemma hex_number_ge: "n \<le> hex_number n ds"
proof (induction ds arbitrary: n)
  case (Cons ch ds)
  have "n \<le> 16 * n + hex_value ch" by simp
  also have "\<dots> \<le> hex_number n (ch # ds)" using Cons.IH [of "16 * n + hex_value ch"] by simp
  finally show ?case .
qed simp

text \<open>The largest size that is accepted is below this bound, so that it never is the number of all ones.\<close>

definition chunk_limit :: nat where "chunk_limit = 2 ^ 64 - 16"

definition sizing :: "nat \<Rightarrow> pstate \<Rightarrow> http_parser \<Rightarrow> bool" where
  "sizing n s q \<longleftrightarrow> s = s_chunk_size \<and> flag_set q F_CHUNKED \<and> content_length q = of_nat n \<and> n < chunk_limit"

definition sized :: "pstate \<Rightarrow> nat \<Rightarrow> pstate \<Rightarrow> http_parser \<Rightarrow> bool" where
  "sized s0 n s q \<longleftrightarrow> s = s0 \<and> flag_set q F_CHUNKED \<and> content_length q = of_nat n \<and> n < chunk_limit"

lemma hex_digit: "IS_HEX ch \<Longrightarrow> unhex ch = int (hex_value ch) \<and> ch \<noteq> CR \<and> hex_value ch \<le> 15"
  using unhex_cases [of ch] unhex_range [of ch] by (auto simp: IS_HEX_def IS_NUM_def)

lemma unat_chunk: "n < chunk_limit \<Longrightarrow> unat (of_nat n :: u64) = n"
  by (simp add: chunk_limit_def unat_of_nat)

lemma size_guard:
  assumes "n < chunk_limit" "v \<le> 15"
  shows "(ULLONG_MAX - 16) div 16 < (of_nat n :: u64) \<longleftrightarrow> \<not> 16 * n + v < chunk_limit"
proof -
  have g: "unat ((ULLONG_MAX - 16) div 16) = (2 ^ 64 - 17) div 16" by (simp add: ULLONG_MAX_def unat_div)
  have "(2 ^ 64 - 17) div 16 < n \<longleftrightarrow> \<not> 16 * n + v < 2 ^ 64 - 16" using assms(2) by auto
  then show ?thesis unfolding word_less_nat_alt g unat_chunk [OF assms(1)] by (simp only: chunk_limit_def)
qed

text \<open>One digit behind the first: taken, or refused.\<close>

lemma chunk_digit:
  assumes "sizing n (cur c) (hp c)" "IS_HEX (chr c)" "http_errno (hp c) = HPE_OK"
  shows "reexecute S data lenient c =
    (if 16 * n + hex_value (chr c) < chunk_limit
     then Next (c\<lparr>hp := (hp c)\<lparr>content_length := of_nat (16 * n + hex_value (chr c))\<rparr>\<rparr>)
     else Err (SET_ERRNO HPE_INVALID_CONTENT_LENGTH c))"
proof -
  have s: "cur c = s_chunk_size" "flag_set (hp c) F_CHUNKED" "content_length (hp c) = of_nat n" "n < chunk_limit"
    using assms(1) by (simp_all add: sizing_def)
  note h = hex_digit [OF assms(2)]
  have "(of_nat n :: u64) * 16 + of_int (int (hex_value (chr c))) = of_nat (16 * n + hex_value (chr c))" by (simp add: mult.commute)
  then show ?thesis
    using s h size_guard [of n "hex_value (chr c)"] assms(3)
    by (simp add: reexecute.simps http_switch_def case_chunk_size_def ASSERT_def Let_def upd_def fail_def)
qed

lemma piece_digit:
  fixes f :: "'u http_data_cb"
  assumes "IS_HEX ch" "16 * n + hex_value ch < chunk_limit"
  shows "piece f (sizing n) [ch] (sizing (16 * n + hex_value ch))"
proof (rule piece_char [where g = "\<lambda>q. q\<lparr>content_length := of_nat (16 * n + hex_value ch)\<rparr>" and st' = s_chunk_size])
  fix data and c :: "'u cfg"
  assume c: "sizing n (cur c) (hp c)" "http_errno (hp c) = HPE_OK" "chr c = ch"
  then have "cur c = s_chunk_size" by (simp add: sizing_def)
  then show "reexecute (body_only f) data False c =
      Next (c\<lparr>hp := (hp c)\<lparr>content_length := of_nat (16 * n + hex_value ch)\<rparr>, cur := s_chunk_size\<rparr>)"
    using chunk_digit [OF c(1) _ c(2), of "body_only f" data False] assms c(3) by (cases c) simp
qed (use assms(2) in \<open>auto simp: sizing_def PARSING_HEADER_def flag_set_def\<close>)

lemma piece_digits:
  "\<forall>d \<in> set ds. IS_HEX d \<Longrightarrow> hex_number n ds < chunk_limit \<Longrightarrow> piece f (sizing n) ds (sizing (hex_number n ds))"
proof (induction ds arbitrary: n)
  case Nil
  then show ?case by (simp add: piece_Nil)
next
  case (Cons d ds)
  have "16 * n + hex_value d < chunk_limit" using Cons.prems(2) hex_number_ge [of "16 * n + hex_value d" ds] by simp
  then have "piece f (sizing n) [d] (sizing (16 * n + hex_value d))"
    using Cons.prems(1) by (intro piece_digit) auto
  from piece_append [OF this Cons.IH] show ?case using Cons.prems by simp
qed

lemma piece_size_end: "piece f (sizing n) [CR] (sized s_chunk_size_almost_done n)"
  by (rule piece_char [where g = "\<lambda>q. q" and st' = s_chunk_size_almost_done])
    (auto simp: sizing_def sized_def PARSING_HEADER_def flag_set_def reexecute.simps http_switch_def case_chunk_size_def
      ASSERT_def UPDATE_STATE_def)

text \<open>The first digit, which the parser takes in a state of its own.\<close>

lemma first_digit:
  fixes c :: "'u cfg"
  assumes c: "cur c = s_chunk_size_start" "flag_set (hp c) F_CHUNKED" "nread (hp c) = 0" "http_errno (hp c) = HPE_OK" "pos c = 0"
      "marks c = (\<lambda>_. None)" "usr c = u"
    and d: "IS_HEX d" and data: "data = d # rest"
  shows "\<exists>c'. exec_loop (body_only f) data False c = exec_loop (body_only f) data False c' \<and>
    reading data u (sizing (hex_value d)) rest c'"
proof -
  note h = hex_digit [OF d]
  let ?c1 = "(counted d c)\<lparr>hp := (hp (counted d c))\<lparr>content_length := of_nat (hex_value d)\<rparr>, cur := s_chunk_size\<rparr>"
  have "reexecute (body_only f) data False (counted d c) = Next ?c1"
    using c h by (simp add: reexecute.simps http_switch_def case_chunk_size_start_def ASSERT_def Let_def counted_def upd_def
        UPDATE_STATE_def flag_set_def)
  then have "exec_loop (body_only f) data False c = exec_loop (body_only f) data False (?c1\<lparr>pos := Suc (pos ?c1)\<rparr>)"
    using c data by (intro exec_loop_byte) (simp_all add: PARSING_HEADER_def HTTP_MAX_HEADER_SIZE_def)
  moreover have "reading data u (sizing (hex_value d)) rest (?c1\<lparr>pos := Suc (pos ?c1)\<rparr>)"
    using c h data by (simp add: reading_def counted_def sizing_def flag_set_def chunk_limit_def)
  ultimately show ?thesis by blast
qed

text \<open>A digit that would make the size too large ends the parsing with an error.\<close>

lemma digit_refused:
  fixes c :: "'u cfg"
  assumes r: "reading data u (sizing n) (d # rest) c" and d: "IS_HEX d" "\<not> 16 * n + hex_value d < chunk_limit"
    and n: "pos c < HTTP_MAX_HEADER_SIZE"
  shows "\<exists>c'. exec_loop (body_only f) data False c = Err c' \<and> http_errno (hp c') = HPE_INVALID_CONTENT_LENGTH \<and>
    pos c' = pos c \<and> usr c' = u"
proof -
  have p: "pos c < length data" "data ! pos c = d" using reading_nth [OF r] by simp_all
  have f: "sizing n (cur c) (hp c)" "http_errno (hp c) = HPE_OK" "unat (nread (hp c)) = pos c" "usr c = u"
    using r by (simp_all add: reading_def)
  have cur: "cur c = s_chunk_size" using f(1) by (simp add: sizing_def)
  have "sizing n (cur (counted d c)) (hp (counted d c))" using f(1) by (simp add: sizing_def counted_def flag_set_def)
  then have "reexecute (body_only f) data False (counted d c) = Err (SET_ERRNO HPE_INVALID_CONTENT_LENGTH (counted d c))"
    using chunk_digit [of n "counted d c" "body_only f" data False] d f(2) by (simp add: counted_def)
  moreover have "\<not> HTTP_MAX_HEADER_SIZE < unat (nread (hp c) + 1)" using unat_nread_inc [of "hp c"] f(3) n by simp
  ultimately have "one_byte (body_only f) data False c = Err (SET_ERRNO HPE_INVALID_CONTENT_LENGTH (counted d c))"
    using p cur by (simp add: one_byte_def count_byte_def COUNT_HEADER_SIZE_def PARSING_HEADER_def upd_def Let_def counted_def)
  then have "exec_loop (body_only f) data False c = Err (SET_ERRNO HPE_INVALID_CONTENT_LENGTH (counted d c))"
    using p(1) by (subst exec_loop.simps) simp
  then show ?thesis using f(4) by (simp add: SET_ERRNO_def upd_def counted_def)
qed

text \<open>Where a size that is too large goes over the limit.\<close>

lemma hex_overflow:
  "n < chunk_limit \<Longrightarrow> \<not> hex_number n ds < chunk_limit \<Longrightarrow>
     \<exists>xs d ys. ds = xs @ d # ys \<and> hex_number n xs < chunk_limit \<and> \<not> 16 * hex_number n xs + hex_value d < chunk_limit"
proof (induction ds arbitrary: n)
  case (Cons d ds)
  show ?case
  proof (cases "16 * n + hex_value d < chunk_limit")
    case True
    then obtain xs e ys where "ds = xs @ e # ys" "hex_number (16 * n + hex_value d) xs < chunk_limit"
      "\<not> 16 * hex_number (16 * n + hex_value d) xs + hex_value e < chunk_limit"
      using Cons.IH [OF True] Cons.prems(2) by auto
    then show ?thesis by (intro exI [of _ "d # xs"] exI [of _ e] exI [of _ ys]) simp
  next
    case False
    then show ?thesis using Cons.prems(1) by (intro exI [of _ "[]"] exI [of _ d] exI [of _ ds]) simp
  qed
qed simp

section \<open>The line\<close>

lemma line_end:
  fixes c :: "'u cfg"
  assumes r: "reading data u (sized s_chunk_size_almost_done n) [LF] c" and n: "pos c < HTTP_MAX_HEADER_SIZE"
  shows "\<exists>c'. exec_loop (body_only f) data False c = Next c' \<and> http_errno (hp c') = HPE_OK \<and> marks c' = (\<lambda>_. None) \<and> usr c' = u \<and>
    content_length (hp c') = of_nat n \<and> cur c' = (if n = 0 then s_header_field_start else s_chunk_data)"
proof -
  have p: "pos c < length data" "data ! pos c = LF" "drop (Suc (pos c)) data = []" using reading_nth [OF r] by simp_all
  have f: "cur c = s_chunk_size_almost_done" "flag_set (hp c) F_CHUNKED" "content_length (hp c) = of_nat n" "n < chunk_limit"
    "http_errno (hp c) = HPE_OK" "unat (nread (hp c)) = pos c" "marks c = (\<lambda>_. None)" "usr c = u"
    using r by (simp_all add: reading_def sized_def)
  have z: "(of_nat n :: u64) = 0 \<longleftrightarrow> n = 0" using unat_chunk [OF f(4)] unat_eq_zero [of "of_nat n :: u64"] by (simp del: unat_eq_zero)
  let ?q = "(hp c)\<lparr>nread := 0\<rparr>"
  let ?c1 = "(counted LF c)\<lparr>hp := (if n = 0 then add_flag F_TRAILING ?q else ?q), cur := (if n = 0 then s_header_field_start else s_chunk_data)\<rparr>"
  have "reexecute (body_only f) data False (counted LF c) = Next ?c1"
    using f z by (simp add: reexecute.simps http_switch_def case_chunk_size_almost_done_def ASSERT_def STRICT_CHECK_def counted_def
        upd_def UPDATE_STATE_def CALLBACK_NOTIFY_def CALLBACK_NOTIFY_ER_def flag_set_def add_flag_def Let_def)
  then have "exec_loop (body_only f) data False c = exec_loop (body_only f) data False (?c1\<lparr>pos := Suc (pos ?c1)\<rparr>)"
    using p f n by (intro exec_loop_byte) (simp_all add: PARSING_HEADER_def)
  also have "\<dots> = Next (?c1\<lparr>pos := Suc (pos ?c1)\<rparr>)"
    using p(3) by (subst exec_loop.simps) (simp add: counted_def)
  finally show ?thesis using f by (simp add: counted_def add_flag_def)
qed

text \<open>
  C38: The size of a chunk, in a parser that expects one: a line of hexadecimal digits in any case, one at
  least, is read exactly. If the number is less than \<open>2 ^ 64 - 16\<close> the whole line is consumed, the number
  is what is left to be read, and the parser goes on with the data of the chunk, or with the trailing
  headers behind a chunk of size 0. Otherwise the line is refused within its digits: no size wraps around.
\<close>

theorem chunk_size_exact:
  fixes f :: "'u http_data_cb"
  assumes q: "state q = s_chunk_size_start" "flag_set q F_CHUNKED" "nread q = 0" "http_errno q = HPE_OK" "\<not> lenient_http_headers q"
    and ds: "ds \<noteq> []" "\<forall>d \<in> set ds. IS_HEX d" "length ds + 2 \<le> HTTP_MAX_HEADER_SIZE"
  shows "\<exists>n q'. http_parser_execute (body_only f) (ds @ [CR, LF]) q u = Some (n, q', u) \<and>
    (if hex_number 0 ds < 2 ^ 64 - 16
     then n = length ds + 2 \<and> http_errno q' = HPE_OK \<and> unat (content_length q') = hex_number 0 ds \<and>
       state q' = (if hex_number 0 ds = 0 then s_header_field_start else s_chunk_data)
     else n < length ds \<and> http_errno q' = HPE_INVALID_CONTENT_LENGTH)"
proof -
  obtain d ds' where d: "ds = d # ds'" "IS_HEX d" "\<forall>x \<in> set ds'. IS_HEX x" using ds(1,2) by (cases ds) auto
  let ?data = "ds @ [CR, LF]"
  define c where "c = (exec_start q u)\<lparr>marks := initial_marks (state q)\<rparr>"
  have c: "cur c = s_chunk_size_start" "hp c = q" "pos c = 0" "usr c = u" "marks c = (\<lambda>_. None)"
    using q(1) by (simp_all add: c_def exec_start_def initial_marks_def url_state_def fun_eq_iff)
  obtain c1 where c1: "exec_loop (body_only f) ?data False c = exec_loop (body_only f) ?data False c1"
    "reading ?data u (sizing (hex_value d)) (ds' @ [CR, LF]) c1"
    using first_digit [of c u d ?data "ds' @ [CR, LF]" f] c q d by auto
  have pos1: "pos c1 = 1" using reading_pos [OF c1(2)] d(1) by simp
  have v: "hex_value d < chunk_limit" using hex_digit [OF d(2)] by (simp add: chunk_limit_def)
  show ?thesis
  proof (cases "hex_number (hex_value d) ds' < chunk_limit")
    case True
    let ?n = "hex_number (hex_value d) ds'"
    have "piece f (sizing (hex_value d)) (ds' @ [CR]) (sized s_chunk_size_almost_done ?n)"
      by (rule piece_append [OF piece_digits [OF d(3) True] piece_size_end])
    moreover have "reading ?data u (sizing (hex_value d)) ((ds' @ [CR]) @ [LF]) c1" "pos c1 + length (ds' @ [CR]) \<le> HTTP_MAX_HEADER_SIZE"
      using c1(2) pos1 ds(3) d(1) by simp_all
    ultimately obtain c2 where c2: "exec_loop (body_only f) ?data False c1 = exec_loop (body_only f) ?data False c2"
      "reading ?data u (sized s_chunk_size_almost_done ?n) [LF] c2"
      unfolding piece_def by blast
    have "pos c2 = length ds + 1" using reading_pos [OF c2(2)] by simp
    then obtain c3 where c3: "exec_loop (body_only f) ?data False c2 = Next c3" "http_errno (hp c3) = HPE_OK" "marks c3 = (\<lambda>_. None)"
      "usr c3 = u" "content_length (hp c3) = of_nat ?n" "cur c3 = (if ?n = 0 then s_header_field_start else s_chunk_data)"
      using line_end [OF c2(2)] ds(3) by (auto simp: )
    have "exec_end (body_only f) ?data c3 = RETURN (length ?data) c3"
      using c3(2,3) by (simp add: exec_end_def marks_set_def ASSERT_def CALLBACK_DATA_NOADVANCE_def CALLBACK_DATA_LEN_def)
    then have "http_parser_execute (body_only f) ?data q u = Some (length ?data, (hp c3)\<lparr>state := cur c3\<rparr>, u)"
      using c1(1) c2(1) c3(1,4) q(4,5)
      by (simp add: http_parser_execute_def execute_res_def Let_def c_def [symmetric] RETURN_def save_state_def upd_def)
    then show ?thesis using c3 True unat_chunk [OF True] d(1) by (simp add: chunk_limit_def)
  next
    case False
    obtain xs e ys where x: "ds' = xs @ e # ys" "hex_number (hex_value d) xs < chunk_limit"
      "\<not> 16 * hex_number (hex_value d) xs + hex_value e < chunk_limit"
      using hex_overflow [OF v False] by blast
    have "piece f (sizing (hex_value d)) xs (sizing (hex_number (hex_value d) xs))"
      by (rule piece_digits) (use x(1,2) d(3) in auto)
    moreover have "reading ?data u (sizing (hex_value d)) (xs @ e # ys @ [CR, LF]) c1" "pos c1 + length xs \<le> HTTP_MAX_HEADER_SIZE"
      using c1(2) pos1 ds(3) x(1) d(1) by simp_all
    ultimately obtain c2 where c2: "exec_loop (body_only f) ?data False c1 = exec_loop (body_only f) ?data False c2"
      "reading ?data u (sizing (hex_number (hex_value d) xs)) (e # ys @ [CR, LF]) c2"
      unfolding piece_def by blast
    have "pos c2 < length ds" "IS_HEX e" using reading_pos [OF c2(2)] d x(1) by simp_all
    then obtain c3 where c3: "exec_loop (body_only f) ?data False c2 = Err c3" "http_errno (hp c3) = HPE_INVALID_CONTENT_LENGTH"
      "pos c3 < length ds" "usr c3 = u"
      using digit_refused [OF c2(2) _ x(3), of f] ds(3) by auto
    then have "http_parser_execute (body_only f) ?data q u = Some (pos c3, (hp c3)\<lparr>state := cur c3\<rparr>, u)"
      using c1(1) c2(1) q(4,5)
      by (simp add: http_parser_execute_def execute_res_def Let_def c_def [symmetric] save_state_def upd_def)
    then show ?thesis using c3 False d(1) by (simp add: chunk_limit_def)
  qed
qed

definition demo_chunked :: http_parser where
  "demo_chunked = (add_flag F_CHUNKED (http_parser_init HTTP_REQUEST))\<lparr>state := s_chunk_size_start\<rparr>"

lemma demo_chunked:
  "state demo_chunked = s_chunk_size_start" "flag_set demo_chunked F_CHUNKED" "nread demo_chunked = 0"
  "http_errno demo_chunked = HPE_OK" "\<not> lenient_http_headers demo_chunked"
  by (simp_all add: demo_chunked_def http_parser_init_def flag_set_def add_flag_def F_CHUNKED_def)

text \<open>A size of 431, and seventeen digits that do not fit.\<close>

lemma chunk_size_exact_witness:
  "(\<exists>q'. http_parser_execute (body_only (\<lambda>off s q u. (0, False, u))) (''1aF'' @ [CR, LF]) demo_chunked () = Some (5, q', ()) \<and>
      unat (content_length q') = 431 \<and> state q' = s_chunk_data) \<and>
   (\<exists>n q'. http_parser_execute (body_only (\<lambda>off s q u. (0, False, u))) (''fffffffffffffffff'' @ [CR, LF]) demo_chunked () = Some (n, q', ()) \<and>
      http_errno q' = HPE_INVALID_CONTENT_LENGTH)"
proof -
  let ?f = "\<lambda>off s q u. (0, False, u) :: int \<times> bool \<times> unit"
  have hex: "\<forall>d \<in> set ''1aF''. IS_HEX d" "\<forall>d \<in> set ''fffffffffffffffff''. IS_HEX d"
    by code_simp+
  have one: "hex_number 0 ''1aF'' = 431" by code_simp
  have two: "hex_number 0 ''fffffffffffffffff'' = 295147905179352825855"
  proof -
    have "hex_value CHR ''f'' = 15" by code_simp
    then show ?thesis by simp
  qed
  have size: "length ''1aF'' + 2 \<le> HTTP_MAX_HEADER_SIZE" "length ''fffffffffffffffff'' + 2 \<le> HTTP_MAX_HEADER_SIZE"
    by (simp_all add: HTTP_MAX_HEADER_SIZE_def)
  let ?ex = "\<lambda>s. http_parser_execute (body_only ?f) (s @ [CR, LF]) demo_chunked ()"
  have small: "(431 :: nat) < 2 ^ 64 - 16" and large: "\<not> (295147905179352825855 :: nat) < 2 ^ 64 - 16" by simp_all
  obtain n q where a: "?ex ''1aF'' = Some (n, q, ())" and b: "n = length ''1aF'' + 2 \<and> http_errno q = HPE_OK \<and>
      unat (content_length q) = 431 \<and> state q = (if 431 = (0 :: nat) then s_header_field_start else s_chunk_data)"
    using chunk_size_exact [OF demo_chunked _ hex(1) size(1), of ?f "()"] unfolding one if_P [OF small] by blast
  have "\<exists>q'. ?ex ''1aF'' = Some (5, q', ()) \<and> unat (content_length q') = 431 \<and> state q' = s_chunk_data"
    unfolding a using b by (intro exI [of _ q]) simp
  moreover have "\<exists>n q'. ?ex ''fffffffffffffffff'' = Some (n, q', ()) \<and> http_errno q' = HPE_INVALID_CONTENT_LENGTH"
    using chunk_size_exact [OF demo_chunked _ hex(2) size(2), of ?f "()"] unfolding two if_not_P [OF large] by auto
  ultimately show ?thesis by blast
qed

end
