(* ===== verification/Http_Url_Props.thy ===== *)
theory Http_Url_Props
  imports Http_Url Http_Exec
begin

text \<open>
  Properties of the URL parser: its fields stay inside the buffer in spite of the 16-bit
  arithmetic, no assertion fails, and a port is read exactly.
\<close>

section \<open>Fields of the URL structure\<close>

lemma uf_bit_AND: "uf_bit f AND uf_bit g \<noteq> 0 \<longleftrightarrow> f = g"
  by (cases f; cases g) (simp_all add: uf_bit_def)

lemma has_field_simps [simp]:
  "has_field (set_field f u) g \<longleftrightarrow> has_field u g \<or> f = g"
  "has_field (set_len f n u) g \<longleftrightarrow> has_field u g" "has_field (set_off f p u) g \<longleftrightarrow> has_field u g"
  "has_field (inc_len f u) g \<longleftrightarrow> has_field u g" "has_field (u\<lparr>port := v\<rparr>) g \<longleftrightarrow> has_field u g"
proof -
  have "(x OR uf_bit f) AND uf_bit g = 0 \<longleftrightarrow> x AND uf_bit g = 0 \<and> uf_bit f AND uf_bit g = 0" for x
    by (auto simp: bit_eq_iff bit_simps)
  then show "has_field (set_field f u) g \<longleftrightarrow> has_field u g \<or> f = g"
    using uf_bit_AND [of f g] by (auto simp: has_field_def set_field_def)
qed (simp_all add: has_field_def set_len_def set_off_def inc_len_def)

lemma field_simps [simp]:
  "field_off (set_field f u) = field_off u" "field_len (set_field f u) = field_len u"
  "field_off (set_len f n u) = field_off u" "field_len (set_len f n u) = (field_len u)(f := n)"
  "field_off (set_off f p u) = (field_off u)(f := of_nat p)" "field_len (set_off f p u) = field_len u"
  "field_off (inc_len f u) = field_off u" "field_len (inc_len f u) = (field_len u)(f := field_len u f + 1)"
  by (simp_all add: set_field_def set_len_def set_off_def inc_len_def)

text \<open>Where a field ends, as the code computes it.\<close>

definition field_end :: "http_parser_url \<Rightarrow> url_field \<Rightarrow> nat" where
  "field_end u f = unat (field_off u f) + unat (field_len u f)"

lemma unat_Suc_le: "unat (x + 1 :: u16) \<le> Suc (unat x)"
  by (simp add: unat_word_ariths mod_Suc)

lemma unat_of_nat_le: "unat (of_nat p :: u16) \<le> p"
  by (simp add: unat_of_nat)

section \<open>The first pass\<close>

definition fields_within :: "nat \<Rightarrow> http_parser_url \<Rightarrow> bool" where
  "fields_within p u \<longleftrightarrow> (\<forall>f. has_field u f \<longrightarrow> field_end u f \<le> p)"

lemma url_field_of_url_state: "url_state s \<Longrightarrow> url_field_of s \<noteq> None"
  by (auto simp: url_state_def url_field_of_def)

lemma url_field_of_range: "url_field_of s = Some (Some f) \<Longrightarrow> f \<noteq> UF_PORT \<and> f \<noteq> UF_USERINFO \<and> f \<noteq> UF_MAX"
  by (auto simp: url_field_of_def split: if_splits)

lemma url_field_step_within:
  assumes "fields_within p u" "uf = old_uf \<longrightarrow> has_field u uf"
  shows "fields_within (Suc p) (url_field_step uf old_uf p u)"
  unfolding fields_within_def
proof (intro allI impI)
  fix f assume f: "has_field (url_field_step uf old_uf p u) f"
  consider "f \<noteq> uf" | "f = uf" "uf = old_uf" | "f = uf" "uf \<noteq> old_uf" by blast
  then show "field_end (url_field_step uf old_uf p u) f \<le> Suc p"
  proof cases
    case 1
    then have "has_field u f" "field_end (url_field_step uf old_uf p u) f = field_end u f"
      using f by (auto simp: url_field_step_def field_end_def split: if_splits)
    then show ?thesis using assms(1) by (simp add: fields_within_def le_SucI)
  next
    case 2
    then have "field_end u f \<le> p" using assms by (simp add: fields_within_def)
    then show ?thesis using 2 unat_Suc_le [of "field_len u f"] by (simp add: url_field_step_def field_end_def)
  next
    case 3
    then show ?thesis using unat_of_nat_le [of p] by (simp add: url_field_step_def field_end_def)
  qed
qed

lemma url_loop_ok:
  assumes "fields_within p u" "old_uf = UF_MAX \<or> has_field u old_uf" "\<not> has_field u UF_PORT" "\<not> has_field u UF_USERINFO"
  shows "case url_loop buf p s old_uf found_at u of
      Unexpected \<Rightarrow> False
    | Rejected u1 \<Rightarrow> True
    | Scanned u1 at \<Rightarrow> fields_within (p + length buf) u1 \<and> \<not> has_field u1 UF_PORT \<and> \<not> has_field u1 UF_USERINFO"
  using assms
proof (induction buf arbitrary: p s old_uf found_at u)
  case (Cons ch buf)
  obtain s1 where s1: "parse_url_char s ch = s1" by blast
  have len: "p + length (ch # buf) = Suc p + length buf" by simp
  have step: "url_loop (ch # buf) p s old_uf found_at u =
     (if s1 = s_dead then Rejected u
      else case url_field_of s1 of
          None \<Rightarrow> Unexpected
        | Some None \<Rightarrow> url_loop buf (Suc p) s1 old_uf found_at u
        | Some (Some uf) \<Rightarrow>
            url_loop buf (Suc p) s1 uf (found_at \<or> s1 = s_req_server_with_at) (url_field_step uf old_uf p u))"
    unfolding Suc_eq_plus1 by (simp add: s1)
  show ?case
  proof (cases "s1 = s_dead")
    case True
    then have "url_loop (ch # buf) p s old_uf found_at u = Rejected u" using step by simp
    then show ?thesis by (simp del: url_loop.simps)
  next
    case False
    then have "url_state s1" using parse_url_char_range [of s ch] unfolding s1 by blast
    then obtain fo where fo: "url_field_of s1 = Some fo" using url_field_of_url_state [of s1] by blast
    have w: "fields_within (Suc p) u" using Cons.prems(1) by (auto simp: fields_within_def intro: le_SucI)
    show ?thesis
    proof (cases fo)
      case None
      then have eq: "url_loop (ch # buf) p s old_uf found_at u = url_loop buf (Suc p) s1 old_uf found_at u"
        using fo False step by simp
      show ?thesis unfolding eq len by (rule Cons.IH [OF w Cons.prems(2-4)])
    next
      case (Some uf)
      note r = url_field_of_range [OF fo [unfolded Some]]
      let ?u = "url_field_step uf old_uf p u"
      have eq: "url_loop (ch # buf) p s old_uf found_at u =
          url_loop buf (Suc p) s1 uf (found_at \<or> s1 = s_req_server_with_at) ?u"
        using fo Some False step by simp
      have "fields_within (Suc p) ?u"
        using url_field_step_within [OF Cons.prems(1), of uf old_uf] Cons.prems(2) r by auto
      moreover have "uf = UF_MAX \<or> has_field ?u uf" "\<not> has_field ?u UF_PORT" "\<not> has_field ?u UF_USERINFO"
        using Cons.prems(2-4) r by (auto simp: url_field_step_def)
      ultimately show ?thesis unfolding eq len by (rule Cons.IH)
    qed
  qed
qed simp

section \<open>The host\<close>

text \<open>
  The invariant of the loop over the host: the host's length is still 0 while no character of it
  is read, and every field it sets ends before the current character.
\<close>

definition host_inv :: "nat \<Rightarrow> http_host_state \<Rightarrow> http_parser_url \<Rightarrow> bool" where
  "host_inv p s u \<longleftrightarrow>
     (s \<in> {s_http_userinfo_start, s_http_userinfo, s_http_host_start, s_http_host_v6_start} \<longrightarrow> field_len u UF_HOST = 0) \<and>
     field_end u UF_HOST \<le> p \<and>
     (has_field u UF_PORT \<longrightarrow> field_end u UF_PORT \<le> p) \<and> (s = s_http_host_port \<longleftrightarrow> has_field u UF_PORT) \<and>
     (has_field u UF_USERINFO \<longrightarrow> field_end u UF_USERINFO \<le> p) \<and>
     (s = s_http_userinfo_start \<longrightarrow> \<not> has_field u UF_USERINFO) \<and> (s = s_http_userinfo \<longrightarrow> has_field u UF_USERINFO)"

lemma host_char_from:
  assumes "http_parse_host_char s ch = s'" "s' \<noteq> s_http_host_dead"
  shows "s' = s_http_host \<Longrightarrow> s = s_http_host \<or> s = s_http_host_start"
    "s' = s_http_host_v6 \<Longrightarrow> s = s_http_host_v6 \<or> s = s_http_host_v6_start"
    "s' = s_http_host_port \<Longrightarrow> (s = s_http_host_port \<or> s = s_http_host_port_start) \<and> IS_NUM ch"
    "s = s_http_host_port \<Longrightarrow> s' = s_http_host_port"
    "s' = s_http_userinfo \<Longrightarrow> s = s_http_userinfo \<or> s = s_http_userinfo_start"
    "s' = s_http_host_start \<Longrightarrow> s = s_http_userinfo \<or> s = s_http_userinfo_start"
    "s' = s_http_host_v6_start \<Longrightarrow> s = s_http_host_start"
    "s' \<noteq> s_http_userinfo_start"
  using assms by (auto simp: http_parse_host_char_def split: if_splits)

lemma host_field_inv:
  assumes "host_inv p s u" "http_parse_host_char s ch = s'" "s' \<noteq> s_http_host_dead"
  shows "host_inv (Suc p) s' (host_field s s' p u)"
proof -
  note src = host_char_from [OF assms(2,3)]
  have inv: "field_end u UF_HOST \<le> p" "has_field u UF_PORT \<Longrightarrow> field_end u UF_PORT \<le> p"
    "has_field u UF_USERINFO \<Longrightarrow> field_end u UF_USERINFO \<le> p" "s = s_http_host_port \<longleftrightarrow> has_field u UF_PORT"
    "s = s_http_userinfo \<Longrightarrow> has_field u UF_USERINFO" "s = s_http_userinfo_start \<Longrightarrow> \<not> has_field u UF_USERINFO"
    and zero: "s \<in> {s_http_userinfo_start, s_http_userinfo, s_http_host_start, s_http_host_v6_start} \<Longrightarrow> field_len u UF_HOST = 0"
    using assms(1) by (auto simp: host_inv_def)
  have le: "unat (field_off u f) + unat (field_len u f + 1) \<le> Suc p" if "field_end u f \<le> p" for f
    using that unat_Suc_le [of "field_len u f"] by (simp add: field_end_def)
  have keep: "host_inv (Suc p) s' u" if "s' \<in> {s_http_host_start, s_http_host_v6_start, s_http_host_v6_end, s_http_host_port_start}"
    using that src inv zero assms(1) by (auto simp: host_inv_def)
  have more: "host_inv (Suc p) s' (inc_len UF_HOST u)"
    if "s' \<in> {s_http_host, s_http_host_v6, s_http_host_v6_zone_start, s_http_host_v6_zone}"
    using that src inv le [OF inv(1)] by (auto simp: host_inv_def field_end_def)
  have fresh: "host_inv (Suc p) s' (inc_len UF_HOST (set_off UF_HOST p u))"
    if "s' = s_http_host \<and> s \<noteq> s_http_host \<or> s' = s_http_host_v6 \<and> s \<noteq> s_http_host_v6"
    using that src inv zero unat_of_nat_le [of p] by (auto simp: host_inv_def field_end_def)
  have port: "host_inv (Suc p) s' (host_field s s' p u)" if "s' = s_http_host_port"
    using that src inv le [of UF_PORT] unat_of_nat_le [of p]
    by (auto simp: host_inv_def field_end_def host_field_def)
  have user: "host_inv (Suc p) s' (host_field s s' p u)" if "s' = s_http_userinfo"
    using that src inv le [of UF_USERINFO] unat_of_nat_le [of p] zero
    by (auto simp: host_inv_def field_end_def host_field_def)
  show ?thesis
    using assms(3) src(8) keep more fresh port user
    by (cases s') (simp_all add: host_field_def)
qed

text \<open>With a short buffer the port field is exactly the digits read so far.\<close>

definition port_digits :: "string \<Rightarrow> nat \<Rightarrow> http_host_state \<Rightarrow> http_parser_url \<Rightarrow> bool" where
  "port_digits buf p s u \<longleftrightarrow>
     (s = s_http_host_port \<longrightarrow> field_end u UF_PORT = p \<and> 0 < unat (field_len u UF_PORT) \<and>
        (\<forall>i. unat (field_off u UF_PORT) \<le> i \<and> i < p \<longrightarrow> IS_NUM (buf ! i)))"

lemma port_digits_step:
  assumes "port_digits buf p s u" "http_parse_host_char s (buf ! p) = s'" "s' \<noteq> s_http_host_dead"
    and "Suc p < 2 ^ 16"
  shows "port_digits buf (Suc p) s' (host_field s s' p u)"
proof (cases "s' = s_http_host_port")
  case True
  note src = host_char_from(3) [OF assms(2,3) True]
  have p: "unat (of_nat p :: u16) = p" using assms(4) by (simp add: unat_of_nat)
  show ?thesis
  proof (cases "s = s_http_host_port")
    case False
    then show ?thesis
      using True src p by (auto simp: port_digits_def host_field_def field_end_def less_Suc_eq)
  next
    case sp: True
    have pd: "field_end u UF_PORT = p" "\<forall>i. unat (field_off u UF_PORT) \<le> i \<and> i < p \<longrightarrow> IS_NUM (buf ! i)"
      using assms(1) sp by (auto simp: port_digits_def)
    then have "Suc (unat (field_len u UF_PORT)) < 2 ^ 16" using assms(4) by (simp add: field_end_def)
    then have "unat (field_len u UF_PORT + 1) = Suc (unat (field_len u UF_PORT))"
      by (simp add: unat_word_ariths)
    then show ?thesis
      using True sp src pd by (auto simp: port_digits_def host_field_def field_end_def less_Suc_eq)
  qed
qed (simp add: port_digits_def)

lemma host_field_frame:
  "has_field (host_field s s' p u) f \<longleftrightarrow> has_field u f \<or> f = UF_PORT \<and> s' = s_http_host_port \<and> s \<noteq> s_http_host_port
     \<or> f = UF_USERINFO \<and> s' = s_http_userinfo \<and> s \<noteq> s_http_userinfo"
  "f \<notin> {UF_HOST, UF_PORT, UF_USERINFO} \<Longrightarrow> field_end (host_field s s' p u) f = field_end u f"
  by (auto simp: host_field_def field_end_def)

lemma host_loop_ok:
  assumes "host_inv p s u" "p \<le> stop" "stop \<le> length buf"
  shows "\<exists>s1 u1. host_loop buf stop p s u = Some (s1, u1) \<and> (s1 \<noteq> s_http_host_dead \<longrightarrow>
    host_inv stop s1 u1 \<and> (length buf < 2 ^ 16 \<and> port_digits buf p s u \<longrightarrow> port_digits buf stop s1 u1) \<and>
    (\<forall>f. f \<notin> {UF_HOST, UF_PORT, UF_USERINFO} \<longrightarrow>
       (has_field u1 f \<longleftrightarrow> has_field u f) \<and> field_end u1 f = field_end u f) \<and>
    (has_field u1 UF_HOST \<longleftrightarrow> has_field u UF_HOST))"
  using assms
proof (induction buf stop p s u rule: host_loop.induct)
  case (1 buf stop p s u)
  let ?s = "http_parse_host_char s (buf ! p)"
  let ?u = "host_field s ?s p u"
  show ?case
  proof (cases "stop \<le> p \<or> ?s = s_http_host_dead")
    case True
    then show ?thesis using 1(2-4) by (subst host_loop.simps) (auto simp: Let_def)
  next
    case False
    then have lt: "p < stop" "p < length buf" "?s \<noteq> s_http_host_dead" using 1(4) by auto
    then have eq: "host_loop buf stop p s u = host_loop buf stop (p + 1) ?s ?u"
      by (subst host_loop.simps) (simp add: Let_def)
    have inv: "host_inv (p + 1) ?s ?u" using host_field_inv [OF 1(2) refl lt(3)] by simp
    have digits: "port_digits buf (p + 1) ?s ?u" if "length buf < 2 ^ 16 \<and> port_digits buf p s u"
      using port_digits_step [OF _ refl lt(3), of u] that lt(2) by simp
    obtain s1 u1 where r: "host_loop buf stop (p + 1) ?s ?u = Some (s1, u1)"
      and ok: "s1 \<noteq> s_http_host_dead \<Longrightarrow> host_inv stop s1 u1"
        "s1 \<noteq> s_http_host_dead \<Longrightarrow> length buf < 2 ^ 16 \<and> port_digits buf (p + 1) ?s ?u \<longrightarrow> port_digits buf stop s1 u1"
        "s1 \<noteq> s_http_host_dead \<Longrightarrow> \<forall>f. f \<notin> {UF_HOST, UF_PORT, UF_USERINFO} \<longrightarrow>
           (has_field u1 f \<longleftrightarrow> has_field ?u f) \<and> field_end u1 f = field_end ?u f"
        "s1 \<noteq> s_http_host_dead \<Longrightarrow> has_field u1 UF_HOST \<longleftrightarrow> has_field ?u UF_HOST"
      using 1(1) [OF _ _ refl lt(3) inv] lt 1(4) by auto
    show ?thesis
      unfolding eq r using ok digits by (auto simp: host_field_frame)
  qed
qed

section \<open>The port\<close>

lemma port_step:
  assumes "IS_NUM ch" "unat v \<le> 65535"
  shows "unat (v * 10 + of_int (schar ch - schar CHR ''0'') :: u64) = 10 * unat v + digit ch"
proof -
  have "of_int (schar ch - schar CHR ''0'') = (of_nat (digit ch) :: u64)"
    using assms(1) by (simp add: schar_def IS_NUM_def digit_def of_nat_diff)
  then show ?thesis
    using digit_le [OF assms(1)] assms(2) by (simp add: unat_word_ariths unat_of_nat)
qed

lemma port_loop_decimal:
  assumes "\<forall>ch \<in> set ds. IS_NUM ch" "unat v \<le> 65535"
  shows "port_loop ds v = (if decimal (unat v) ds \<le> 65535 then Some (of_nat (decimal (unat v) ds)) else None)"
  using assms
proof (induction ds arbitrary: v)
  case (Cons ch ds)
  let ?v = "v * 10 + of_int (schar ch - schar CHR ''0'') :: u64"
  have v: "unat ?v = 10 * unat v + digit ch" using port_step [of ch v] Cons.prems by simp
  have gt: "?v > 0xffff \<longleftrightarrow> 65535 < 10 * unat v + digit ch" unfolding word_less_nat_alt v by simp
  show ?case
  proof (cases "?v > 0xffff")
    case True
    then have "65535 < decimal (unat v) (ch # ds)"
      using gt decimal_ge [of "10 * unat v + digit ch" ds] by simp
    then show ?thesis using True by (simp add: Let_def)
  next
    case False
    then show ?thesis using Cons.IH [of ?v] Cons.prems gt v by (simp add: Let_def)
  qed
qed simp

section \<open>The whole parser\<close>

definition url_scan_ok :: "string \<Rightarrow> http_parser_url \<Rightarrow> bool" where
  "url_scan_ok buf u \<longleftrightarrow> fields_within (length buf) u \<and> \<not> has_field u UF_PORT \<and> \<not> has_field u UF_USERINFO"

lemma url_scan_cases:
  assumes "field_set u = 0"
  obtains u1 where "url_loop buf 0 s UF_MAX False u = Rejected u1"
  | u1 at where "url_loop buf 0 s UF_MAX False u = Scanned u1 at" "url_scan_ok buf u1"
proof -
  have none: "\<not> has_field u f" for f using assms by (simp add: has_field_def)
  then have "fields_within 0 u" by (simp add: fields_within_def)
  from url_loop_ok [OF this _ none none, where buf = buf and s = s and old_uf = UF_MAX and found_at = False]
  show thesis using that by (auto simp: url_scan_ok_def split: url_scan.splits)
qed

text \<open>What the port field holds in a short buffer.\<close>

definition field_text :: "string \<Rightarrow> http_parser_url \<Rightarrow> url_field \<Rightarrow> string" where
  "field_text buf u f = take (unat (field_len u f)) (drop (unat (field_off u f)) buf)"

definition port_text_ok :: "string \<Rightarrow> http_parser_url \<Rightarrow> bool" where
  "port_text_ok buf u \<longleftrightarrow> (length buf < 2 ^ 16 \<and> has_field u UF_PORT \<longrightarrow>
     field_text buf u UF_PORT \<noteq> [] \<and> (\<forall>ch \<in> set (field_text buf u UF_PORT). IS_NUM ch))"

lemma port_text:
  assumes "port_digits buf stop s_http_host_port u" "stop \<le> length buf"
  shows "field_text buf u UF_PORT \<noteq> [] \<and> (\<forall>ch \<in> set (field_text buf u UF_PORT). IS_NUM ch)"
  using assms by (auto simp: port_digits_def field_text_def field_end_def set_conv_nth)

lemma parse_host_ok:
  assumes "url_scan_ok buf u" "has_field u UF_HOST"
  shows "\<exists>ok u1. http_parse_host buf u at = Some (ok, u1) \<and>
     (ok \<longrightarrow> fields_within (length buf) u1 \<and> has_field u1 UF_HOST \<and> port_text_ok buf u1)"
proof -
  let ?p = "unat (field_off u UF_HOST)" and ?u = "set_len UF_HOST 0 u"
  let ?stop = "?p + unat (field_len u UF_HOST)"
  let ?s = "if at then s_http_userinfo_start else s_http_host_start"
  have stop: "?stop \<le> length buf"
    using assms by (auto simp: url_scan_ok_def fields_within_def field_end_def)
  have inv: "host_inv ?p ?s ?u"
    using assms(1) by (auto simp: host_inv_def url_scan_ok_def field_end_def)
  have start: "port_digits buf ?p ?s ?u" by (simp add: port_digits_def)
  obtain s1 u1 where r: "host_loop buf ?stop ?p ?s ?u = Some (s1, u1)"
    and ok: "s1 \<noteq> s_http_host_dead \<Longrightarrow> host_inv ?stop s1 u1"
      "s1 \<noteq> s_http_host_dead \<Longrightarrow> length buf < 2 ^ 16 \<Longrightarrow> port_digits buf ?stop s1 u1"
      "s1 \<noteq> s_http_host_dead \<Longrightarrow> f \<notin> {UF_HOST, UF_PORT, UF_USERINFO} \<Longrightarrow>
         (has_field u1 f \<longleftrightarrow> has_field ?u f) \<and> field_end u1 f = field_end ?u f"
      "s1 \<noteq> s_http_host_dead \<Longrightarrow> has_field u1 UF_HOST" for f
    using host_loop_ok [OF inv le_add1 stop] start assms(2) by auto
  have "fields_within (length buf) u1 \<and> has_field u1 UF_HOST \<and> port_text_ok buf u1" if "s1 \<noteq> s_http_host_dead"
  proof (intro conjI)
    have "field_end u1 f \<le> length buf" if f: "has_field u1 f" for f
    proof (cases "f \<in> {UF_HOST, UF_PORT, UF_USERINFO}")
      case True
      then have "field_end u1 f \<le> ?stop"
        using ok(1) [OF \<open>s1 \<noteq> s_http_host_dead\<close>] f unfolding host_inv_def by auto
      then show ?thesis using stop by linarith
    next
      case False
      then have "has_field u f" "field_end u1 f = field_end u f"
        using ok(3) [OF \<open>s1 \<noteq> s_http_host_dead\<close> False] f by (auto simp: field_end_def)
      then show ?thesis using assms(1) by (simp add: url_scan_ok_def fields_within_def)
    qed
    then show "fields_within (length buf) u1" by (simp add: fields_within_def)
    show "has_field u1 UF_HOST" by (rule ok(4) [OF that])
    show "port_text_ok buf u1"
      using ok(1,2) [OF that] port_text [OF _ stop, of u1] by (auto simp: port_text_ok_def host_inv_def)
  qed
  then show ?thesis
    using assms(2) r by (simp add: http_parse_host_def Let_def host_end_ok_def)
qed

definition url_result_ok :: "string \<Rightarrow> bool \<Rightarrow> http_parser_url \<Rightarrow> bool" where
  "url_result_ok buf is_connect u \<longleftrightarrow>
     fields_within (length buf) u \<and>
     (is_connect \<longrightarrow> field_set u = uf_bit UF_HOST OR uf_bit UF_PORT) \<and>
     (has_field u UF_SCHEMA \<longrightarrow> has_field u UF_HOST) \<and>
     port_text_ok buf u \<and>
     (length buf < 2 ^ 16 \<and> has_field u UF_PORT \<longrightarrow> 
       decimal 0 (field_text buf u UF_PORT) \<le> 65535 \<and>
       port u = of_nat (decimal 0 (field_text buf u UF_PORT)))"

lemma url_port_ok:
  assumes "fields_within (length buf) u" "port_text_ok buf u"
    and "is_connect \<longrightarrow> field_set u = uf_bit UF_HOST OR uf_bit UF_PORT"
    and "has_field u UF_SCHEMA \<longrightarrow> has_field u UF_HOST"
  shows "\<exists>ok u1. url_port buf u = Some (ok, u1) \<and> (ok \<longrightarrow> url_result_ok buf is_connect u1)"
proof (cases "has_field u UF_PORT")
  case True
  then have in_buf: "\<not> length buf < unat (field_off u UF_PORT) + unat (field_len u UF_PORT)"
    using assms(1) by (auto simp: fields_within_def field_end_def)
  have same: "fields_within n (u\<lparr>port := v\<rparr>) = fields_within n u" "field_text b (u\<lparr>port := v\<rparr>) f = field_text b u f"
    "port_text_ok b (u\<lparr>port := v\<rparr>) = port_text_ok b u" for n b v f
    by (simp_all add: fields_within_def field_end_def field_text_def port_text_ok_def)
  let ?t = "field_text buf u UF_PORT"
  have val: "decimal 0 ?t \<le> 65535 \<and> ucast v = (of_nat (decimal 0 ?t) :: u16)"
    if "port_loop ?t 0 = Some v" "length buf < 2 ^ 16" for v
    using that port_loop_decimal [of ?t 0] assms(2) True
    by (auto simp: port_text_ok_def unsigned_of_nat take_bit_nat_eq_self split: if_splits)
  show ?thesis
    using True in_buf assms val
    by (cases "port_loop ?t 0")
       (auto simp: url_port_def Let_def url_result_ok_def same simp flip: field_text_def)
next
  case False
  then show ?thesis using assms by (simp add: url_port_def url_result_ok_def ex_bool_eq)
qed

lemma parse_url_result:
  "\<exists>ok u1. http_parser_parse_url buf is_connect u = Some (ok, u1) \<and> (ok \<longrightarrow> url_result_ok buf is_connect u1)"
proof -
  let ?s = "if is_connect then s_req_server_start else s_req_spaces_before_url"
  let ?u = "u\<lparr>port := 0, field_set := 0\<rparr>"
  have tail: "\<exists>ok u1. (if is_connect \<and> field_set v \<noteq> uf_bit UF_HOST OR uf_bit UF_PORT then Some (False, v)
      else url_port buf v) = Some (ok, u1) \<and> (ok \<longrightarrow> url_result_ok buf is_connect u1)"
    if "fields_within (length buf) v" "port_text_ok buf v" "has_field v UF_SCHEMA \<longrightarrow> has_field v UF_HOST" for v
    using url_port_ok [OF that(1,2), of is_connect] that(3) by auto
  have "field_set ?u = 0" by simp
  then show ?thesis
  proof (cases rule: url_scan_cases [of ?u buf ?s])
    case (1 u1)
    then show ?thesis by (simp add: http_parser_parse_url_def Let_def ex_bool_eq)
  next
    case (2 u1 at)
    note scanned = 2
    consider "has_field u1 UF_SCHEMA \<and> \<not> has_field u1 UF_HOST" | "has_field u1 UF_HOST"
      | "\<not> has_field u1 UF_SCHEMA" "\<not> has_field u1 UF_HOST" by blast
    then show ?thesis
    proof cases
      case 1
      then show ?thesis using scanned(1) by (simp add: http_parser_parse_url_def Let_def ex_bool_eq)
    next
      case 2
      obtain ok u2 where "http_parse_host buf u1 at = Some (ok, u2)"
        and "ok \<Longrightarrow> fields_within (length buf) u2 \<and> has_field u2 UF_HOST \<and> port_text_ok buf u2"
        using parse_host_ok [OF scanned(2) 2] by blast
      then show ?thesis
        using scanned(1) 2 tail [of u2] by (cases ok) (simp_all add: http_parser_parse_url_def Let_def ex_bool_eq)
    next
      case 3
      moreover have "fields_within (length buf) u1" "port_text_ok buf u1"
        using scanned(2) by (simp_all add: url_scan_ok_def port_text_ok_def)
      ultimately show ?thesis
        using scanned(1) tail [of u1] by (simp add: http_parser_parse_url_def Let_def)
    qed
  qed
qed

text \<open>
  C27: The URL parser returns on every buffer, whatever its length: no assertion of the parser fails
  (an unexpected state in the scan, a host that is not marked, a port beyond the buffer) and the
  16-bit offsets it stores never lead a read outside the buffer.
\<close>

theorem http_parser_parse_url_returns:
  "\<exists>ok u1. http_parser_parse_url buf is_connect u = Some (ok, u1)"
  using parse_url_result [of buf is_connect u] by blast

text \<open>
  C26: An accepted URL: every field that is marked lies inside the buffer, a schema comes with a host,
  and for a CONNECT request exactly the host and the port are marked. In a buffer shorter than
  65,536 bytes the port field is a nonempty string of digits whose decimal value fits 16 bits and
  is the port that is stored.
\<close>

theorem http_parser_parse_url_accepted:
  assumes "http_parser_parse_url buf is_connect u = Some (True, u1)"
  shows "(\<forall>f. has_field u1 f \<longrightarrow> unat (field_off u1 f) + unat (field_len u1 f) \<le> length buf) \<and>
    (has_field u1 UF_SCHEMA \<longrightarrow> has_field u1 UF_HOST) \<and>
    (is_connect \<longrightarrow> (\<forall>f. has_field u1 f \<longleftrightarrow> f = UF_HOST \<or> f = UF_PORT)) \<and>
    (length buf < 2 ^ 16 \<and> has_field u1 UF_PORT \<longrightarrow>
      field_text buf u1 UF_PORT \<noteq> [] \<and> (\<forall>ch \<in> set (field_text buf u1 UF_PORT). IS_NUM ch) \<and>
      unat (port u1) = decimal 0 (field_text buf u1 UF_PORT))"
proof -
  have ok: "url_result_ok buf is_connect u1" using parse_url_result [of buf is_connect u] assms by auto
  have "has_field u1 f \<longleftrightarrow> f = UF_HOST \<or> f = UF_PORT" if "field_set u1 = uf_bit UF_HOST OR uf_bit UF_PORT" for f
    using that by (cases f) (simp_all add: has_field_def uf_bit_def)
  then show ?thesis
    using ok by (auto simp: url_result_ok_def fields_within_def field_end_def port_text_ok_def unat_of_nat)
qed

lemma http_parser_parse_url_accepted_witness:
  "\<exists>u1. http_parser_parse_url ''http://h:8080/x'' False http_parser_url_init = Some (True, u1) \<and> unat (port u1) = 8080"
proof -
  let ?b = "''http://h:8080/x''"
  have "map_option (\<lambda>(ok, u). (ok, has_field u UF_PORT, field_text ?b u UF_PORT))
      (http_parser_parse_url ?b False http_parser_url_init) = Some (True, True, ''8080'')"
    by code_simp
  then obtain u1 where u1: "http_parser_parse_url ?b False http_parser_url_init = Some (True, u1)"
    "has_field u1 UF_PORT" "field_text ?b u1 UF_PORT = ''8080''"
    by auto
  then have "unat (port u1) = 8080"
    using http_parser_parse_url_accepted [OF u1(1)] by (simp add: digit_def)
  then show ?thesis using u1(1) by blast
qed

end
