(* ===== verification/Http_Names.thy ===== *)
theory Http_Names
  imports Http_Types
begin

text \<open>
  The tables of \<^verbatim>\<open>http_parser.h\<close> that give names: the errors with their descriptions and the status
  codes.
\<close>

section \<open>Errors\<close>

text \<open>\<^verbatim>\<open>HTTP_ERRNO_MAP\<close>: the table is indexed by the error, so it has one entry per constructor.\<close>

primrec http_strerror_tab :: "http_errno \<Rightarrow> string \<times> string" where
  "http_strerror_tab HPE_OK = (''HPE_OK'', ''success'')"
| "http_strerror_tab HPE_CB_message_begin = (''HPE_CB_message_begin'', ''the on_message_begin callback failed'')"
| "http_strerror_tab HPE_CB_url = (''HPE_CB_url'', ''the on_url callback failed'')"
| "http_strerror_tab HPE_CB_header_field = (''HPE_CB_header_field'', ''the on_header_field callback failed'')"
| "http_strerror_tab HPE_CB_header_value = (''HPE_CB_header_value'', ''the on_header_value callback failed'')"
| "http_strerror_tab HPE_CB_headers_complete = (''HPE_CB_headers_complete'', ''the on_headers_complete callback failed'')"
| "http_strerror_tab HPE_CB_body = (''HPE_CB_body'', ''the on_body callback failed'')"
| "http_strerror_tab HPE_CB_message_complete = (''HPE_CB_message_complete'', ''the on_message_complete callback failed'')"
| "http_strerror_tab HPE_CB_status = (''HPE_CB_status'', ''the on_status callback failed'')"
| "http_strerror_tab HPE_CB_chunk_header = (''HPE_CB_chunk_header'', ''the on_chunk_header callback failed'')"
| "http_strerror_tab HPE_CB_chunk_complete = (''HPE_CB_chunk_complete'', ''the on_chunk_complete callback failed'')"
| "http_strerror_tab HPE_INVALID_EOF_STATE = (''HPE_INVALID_EOF_STATE'', ''stream ended at an unexpected time'')"
| "http_strerror_tab HPE_HEADER_OVERFLOW = (''HPE_HEADER_OVERFLOW'', ''too many header bytes seen; overflow detected'')"
| "http_strerror_tab HPE_CLOSED_CONNECTION = (''HPE_CLOSED_CONNECTION'', ''data received after completed connection: close message'')"
| "http_strerror_tab HPE_INVALID_VERSION = (''HPE_INVALID_VERSION'', ''invalid HTTP version'')"
| "http_strerror_tab HPE_INVALID_STATUS = (''HPE_INVALID_STATUS'', ''invalid HTTP status code'')"
| "http_strerror_tab HPE_INVALID_METHOD = (''HPE_INVALID_METHOD'', ''invalid HTTP method'')"
| "http_strerror_tab HPE_INVALID_URL = (''HPE_INVALID_URL'', ''invalid URL'')"
| "http_strerror_tab HPE_INVALID_HOST = (''HPE_INVALID_HOST'', ''invalid host'')"
| "http_strerror_tab HPE_INVALID_PORT = (''HPE_INVALID_PORT'', ''invalid port'')"
| "http_strerror_tab HPE_INVALID_PATH = (''HPE_INVALID_PATH'', ''invalid path'')"
| "http_strerror_tab HPE_INVALID_QUERY_STRING = (''HPE_INVALID_QUERY_STRING'', ''invalid query string'')"
| "http_strerror_tab HPE_INVALID_FRAGMENT = (''HPE_INVALID_FRAGMENT'', ''invalid fragment'')"
| "http_strerror_tab HPE_LF_EXPECTED = (''HPE_LF_EXPECTED'', ''LF character expected'')"
| "http_strerror_tab HPE_INVALID_HEADER_TOKEN = (''HPE_INVALID_HEADER_TOKEN'', ''invalid character in header'')"
| "http_strerror_tab HPE_INVALID_CONTENT_LENGTH = (''HPE_INVALID_CONTENT_LENGTH'', ''invalid character in content-length header'')"
| "http_strerror_tab HPE_UNEXPECTED_CONTENT_LENGTH = (''HPE_UNEXPECTED_CONTENT_LENGTH'', ''unexpected content-length header'')"
| "http_strerror_tab HPE_INVALID_CHUNK_SIZE = (''HPE_INVALID_CHUNK_SIZE'', ''invalid character in chunk size header'')"
| "http_strerror_tab HPE_INVALID_CONSTANT = (''HPE_INVALID_CONSTANT'', ''invalid constant string'')"
| "http_strerror_tab HPE_INVALID_INTERNAL_STATE = (''HPE_INVALID_INTERNAL_STATE'', ''encountered unexpected internal state'')"
| "http_strerror_tab HPE_STRICT = (''HPE_STRICT'', ''strict mode assertion failed'')"
| "http_strerror_tab HPE_PAUSED = (''HPE_PAUSED'', ''parser is paused'')"
| "http_strerror_tab HPE_UNKNOWN = (''HPE_UNKNOWN'', ''an unknown error occurred'')"

definition http_errno_name :: "http_errno \<Rightarrow> string" where
  "http_errno_name err = fst (http_strerror_tab err)"

definition http_errno_description :: "http_errno \<Rightarrow> string" where
  "http_errno_description err = snd (http_strerror_tab err)"

text \<open>No two errors have the same name.\<close>

lemma errno_names_distinct: "http_errno_name e = http_errno_name e' \<longleftrightarrow> e = e'"
  by (cases e; cases e'; simp add: http_errno_name_def)

section \<open>Status codes\<close>

definition HTTP_STATUS_MAP :: "(nat \<times> string \<times> string) list" where
  "HTTP_STATUS_MAP = [
     (100, ''CONTINUE'', ''Continue''),
     (101, ''SWITCHING_PROTOCOLS'', ''Switching Protocols''),
     (102, ''PROCESSING'', ''Processing''),
     (200, ''OK'', ''OK''),
     (201, ''CREATED'', ''Created''),
     (202, ''ACCEPTED'', ''Accepted''),
     (203, ''NON_AUTHORITATIVE_INFORMATION'', ''Non-Authoritative Information''),
     (204, ''NO_CONTENT'', ''No Content''),
     (205, ''RESET_CONTENT'', ''Reset Content''),
     (206, ''PARTIAL_CONTENT'', ''Partial Content''),
     (207, ''MULTI_STATUS'', ''Multi-Status''),
     (208, ''ALREADY_REPORTED'', ''Already Reported''),
     (226, ''IM_USED'', ''IM Used''),
     (300, ''MULTIPLE_CHOICES'', ''Multiple Choices''),
     (301, ''MOVED_PERMANENTLY'', ''Moved Permanently''),
     (302, ''FOUND'', ''Found''),
     (303, ''SEE_OTHER'', ''See Other''),
     (304, ''NOT_MODIFIED'', ''Not Modified''),
     (305, ''USE_PROXY'', ''Use Proxy''),
     (307, ''TEMPORARY_REDIRECT'', ''Temporary Redirect''),
     (308, ''PERMANENT_REDIRECT'', ''Permanent Redirect''),
     (400, ''BAD_REQUEST'', ''Bad Request''),
     (401, ''UNAUTHORIZED'', ''Unauthorized''),
     (402, ''PAYMENT_REQUIRED'', ''Payment Required''),
     (403, ''FORBIDDEN'', ''Forbidden''),
     (404, ''NOT_FOUND'', ''Not Found''),
     (405, ''METHOD_NOT_ALLOWED'', ''Method Not Allowed''),
     (406, ''NOT_ACCEPTABLE'', ''Not Acceptable''),
     (407, ''PROXY_AUTHENTICATION_REQUIRED'', ''Proxy Authentication Required''),
     (408, ''REQUEST_TIMEOUT'', ''Request Timeout''),
     (409, ''CONFLICT'', ''Conflict''),
     (410, ''GONE'', ''Gone''),
     (411, ''LENGTH_REQUIRED'', ''Length Required''),
     (412, ''PRECONDITION_FAILED'', ''Precondition Failed''),
     (413, ''PAYLOAD_TOO_LARGE'', ''Payload Too Large''),
     (414, ''URI_TOO_LONG'', ''URI Too Long''),
     (415, ''UNSUPPORTED_MEDIA_TYPE'', ''Unsupported Media Type''),
     (416, ''RANGE_NOT_SATISFIABLE'', ''Range Not Satisfiable''),
     (417, ''EXPECTATION_FAILED'', ''Expectation Failed''),
     (421, ''MISDIRECTED_REQUEST'', ''Misdirected Request''),
     (422, ''UNPROCESSABLE_ENTITY'', ''Unprocessable Entity''),
     (423, ''LOCKED'', ''Locked''),
     (424, ''FAILED_DEPENDENCY'', ''Failed Dependency''),
     (426, ''UPGRADE_REQUIRED'', ''Upgrade Required''),
     (428, ''PRECONDITION_REQUIRED'', ''Precondition Required''),
     (429, ''TOO_MANY_REQUESTS'', ''Too Many Requests''),
     (431, ''REQUEST_HEADER_FIELDS_TOO_LARGE'', ''Request Header Fields Too Large''),
     (451, ''UNAVAILABLE_FOR_LEGAL_REASONS'', ''Unavailable For Legal Reasons''),
     (500, ''INTERNAL_SERVER_ERROR'', ''Internal Server Error''),
     (501, ''NOT_IMPLEMENTED'', ''Not Implemented''),
     (502, ''BAD_GATEWAY'', ''Bad Gateway''),
     (503, ''SERVICE_UNAVAILABLE'', ''Service Unavailable''),
     (504, ''GATEWAY_TIMEOUT'', ''Gateway Timeout''),
     (505, ''HTTP_VERSION_NOT_SUPPORTED'', ''HTTP Version Not Supported''),
     (506, ''VARIANT_ALSO_NEGOTIATES'', ''Variant Also Negotiates''),
     (507, ''INSUFFICIENT_STORAGE'', ''Insufficient Storage''),
     (508, ''LOOP_DETECTED'', ''Loop Detected''),
     (510, ''NOT_EXTENDED'', ''Not Extended''),
     (511, ''NETWORK_AUTHENTICATION_REQUIRED'', ''Network Authentication Required'')]"

text \<open>The codes come in ascending order, each once, and each is one a status line can have.\<close>

lemma status_codes: "sorted_wrt (<) (map fst HTTP_STATUS_MAP) \<and> (\<forall>(n, t) \<in> set HTTP_STATUS_MAP. 100 \<le> n \<and> n \<le> 599)"
  by (simp add: HTTP_STATUS_MAP_def)

end
