(* ===== verification/Balance.thy ===== *)
theory Balance
  imports Pool "HOL-Library.Signed_Division" "HOL-Library.Monad_Syntax"
begin

text \<open>
  The choice of a provider (\<^verbatim>\<open>get_endpoint_*\<close> of \<^verbatim>\<open>src/src/consumer.c\<close>) over the static
  array of endpoints. An endpoint pointer is an index of the array; None is a read outside the
  array, a NULL connection pool or a division that traps. Counters have their C width and are
  read as signed numbers; \<^verbatim>\<open>rand\<close> is an argument. Debug messages are compiled out, so
  their arguments are not evaluated.
\<close>

section \<open>Endpoints\<close>

record 'w endpoint =
  ep_ip :: string
  ep_port :: int
  total_ms :: u64
  num_reqs :: u32
  score :: int
  conn_pool :: "'w Pool option"

definition zero_endpoint :: "'w endpoint" where
  "zero_endpoint = \<lparr>ep_ip = [], ep_port = 0, total_ms = 0, num_reqs = 0, score = 0, conn_pool = None\<rparr>"

definition LOAD_BALANCE_THRESHOLD :: int where "LOAD_BALANCE_THRESHOLD = 10000"
definition LOAD_PROTECT_THRESHOLD :: nat where "LOAD_PROTECT_THRESHOLD = 100"

definition ep_at :: "'w endpoint list \<Rightarrow> nat \<Rightarrow> 'w endpoint option" where
  "ep_at E i = (if i < length E then Some (E ! i) else None)"

definition outstanding_of :: "'w endpoint list \<Rightarrow> nat \<Rightarrow> u32 option" where
  "outstanding_of E i = do { e \<leftarrow> ep_at E i; p \<leftarrow> conn_pool e; Some (outstanding p) }"

text \<open>
  \<^verbatim>\<open>total_ms / num_reqs\<close>, a signed division of \<^verbatim>\<open>long\<close>, with its two traps.
\<close>

definition latency_of :: "'w endpoint list \<Rightarrow> nat \<Rightarrow> int option" where
  "latency_of E i = do {
     e \<leftarrow> ep_at E i;
     let t = sint (total_ms e);
     let n = sint (num_reqs e);
     if n = 0 \<or> t = - (2 ^ 63) \<and> n = - 1 then None else Some (t sdiv n)
   }"

section \<open>Least loaded\<close>

text \<open>
  The loop from index \<open>i\<close>. \<^verbatim>\<open>min_outstanding\<close> is an \<^verbatim>\<open>int\<close>, but the comparison with the unsigned
  counter converts it back, so it is kept as the unsigned number.
\<close>

fun least_loop :: "'w endpoint list \<Rightarrow> nat list \<Rightarrow> u32 \<Rightarrow> nat \<Rightarrow> nat option" where
  "least_loop E [] m k = Some k"
| "least_loop E (i # is) m k = do {
     c \<leftarrow> outstanding_of E i;
     if m > c then least_loop E is c i else least_loop E is m k
   }"

definition get_endpoint_least_loaded :: "'w endpoint list \<Rightarrow> nat \<Rightarrow> nat option" where
  "get_endpoint_least_loaded E n = do {
     m \<leftarrow> outstanding_of E 0;
     least_loop E [1..<n] m 0
   }"

section \<open>Minimal latency\<close>

fun latency_loop :: "'w endpoint list \<Rightarrow> nat list \<Rightarrow> int \<Rightarrow> nat \<Rightarrow> nat option" where
  "latency_loop E [] m k = Some k"
| "latency_loop E (i # is) m k = do {
     l \<leftarrow> latency_of E i;
     if m > l then latency_loop E is l i else latency_loop E is m k
   }"

text \<open>Both latency-aware choices end with the same guard against overload.\<close>

definition load_protect :: "'w endpoint list \<Rightarrow> nat \<Rightarrow> nat \<Rightarrow> nat option" where
  "load_protect E n k = do {
     c \<leftarrow> outstanding_of E k;
     if unat c \<ge> LOAD_PROTECT_THRESHOLD then get_endpoint_least_loaded E n else Some k
   }"

definition get_endpoint_min_latency :: "'w endpoint list \<Rightarrow> nat \<Rightarrow> nat option" where
  "get_endpoint_min_latency E n = do {
     e \<leftarrow> ep_at E 0;
     if sint (num_reqs e) < LOAD_BALANCE_THRESHOLD then get_endpoint_least_loaded E n
     else do {
       m \<leftarrow> latency_of E 0;
       k \<leftarrow> latency_loop E [1..<n] m 0;
       load_protect E n k
     }
   }"

section \<open>Random choice by score\<close>

text \<open>Recomputing the scores; \<^verbatim>\<open>total_score\<close> is summed up beside.\<close>

fun score_loop :: "nat list \<Rightarrow> 'w endpoint list \<Rightarrow> int \<Rightarrow> ('w endpoint list \<times> int) option" where
  "score_loop [] E ts = Some (E, ts)"
| "score_loop (i # is) E ts = do {
     l \<leftarrow> latency_of E i;
     if l = 0 then None
     else let sc = 1000000 sdiv l
          in score_loop is (E[i := (E ! i)\<lparr>score := sc\<rparr>]) (ts + sc)
   }"

text \<open>The wheel: \<^verbatim>\<open>endpoint\<close> is still the first one where the loop runs out.\<close>

fun pick_loop :: "'w endpoint list \<Rightarrow> nat list \<Rightarrow> int \<Rightarrow> nat option" where
  "pick_loop E [] p = Some 0"
| "pick_loop E (i # is) p = do {
     e \<leftarrow> ep_at E i;
     if p < score e then Some i else pick_loop E is (p - score e)
   }"

definition get_endpoint_min_latency_prob ::
  "'w endpoint list \<Rightarrow> nat \<Rightarrow> int \<Rightarrow> int \<Rightarrow> int \<Rightarrow> (nat \<times> 'w endpoint list \<times> int \<times> int) option" where
  "get_endpoint_min_latency_prob E n total_score request_counter rand = do {
     (E1, ts) \<leftarrow>
       (if request_counter smod 100 = 0 then score_loop [0..<n] E 0 else Some (E, total_score));
     if ts = 0 then None
     else do {
       k \<leftarrow> pick_loop E1 [0..<n] (rand smod ts);
       j \<leftarrow> load_protect E1 n k;
       Some (j, E1, ts, request_counter + 1)
     }
   }"

end
