(* ===== verification/Balance_Props.thy ===== *)
theory Balance_Props
  imports Balance
begin

text \<open>
  What the three choices of a provider promise: an index of the table, minimal load or minimal
  latency, protection against overload, and for the random choice a share in proportion to the
  score.
\<close>

section \<open>The first minimum\<close>

text \<open>Both scans of the table keep the first index with the smallest value.\<close>

fun first_min :: "(nat \<Rightarrow> 'b::linorder) \<Rightarrow> nat list \<Rightarrow> nat \<Rightarrow> nat" where
  "first_min f [] k = k"
| "first_min f (i # is) k = first_min f is (if f k > f i then i else k)"

definition is_first_min :: "(nat \<Rightarrow> 'b::linorder) \<Rightarrow> nat \<Rightarrow> nat \<Rightarrow> bool" where
  "is_first_min f n k \<longleftrightarrow> k < n \<and> (\<forall>j < n. f k \<le> f j) \<and> (\<forall>j < k. f k < f j)"

lemma first_min_upto:
  assumes "is_first_min f m k" "m \<le> n"
  shows "is_first_min f n (first_min f [m..<n] k)"
  using assms
proof (induction "n - m" arbitrary: m k)
  case 0
  then show ?case by simp
next
  case (Suc d)
  then have up: "[m..<n] = m # [Suc m..<n]" by (simp add: upt_conv_Cons)
  have "is_first_min f (Suc m) (if f k > f m then m else k)"
    using Suc.prems(1) by (auto simp: is_first_min_def less_Suc_eq not_less)
  then show ?case
    using Suc.hyps(1) [of "Suc m"] Suc.hyps(2) Suc.prems(2) unfolding up first_min.simps by simp
qed

lemma first_min_all: "0 < n \<Longrightarrow> is_first_min f n (first_min f [1..<n] 0)"
  by (rule first_min_upto) (auto simp: is_first_min_def)

section \<open>A usable table\<close>

text \<open>
  What discovery leaves behind: at least one endpoint, each with its pool and with at least one
  request counted (the counters start at 1).
\<close>

definition table_ok :: "'w endpoint list \<Rightarrow> nat \<Rightarrow> bool" where
  "table_ok E n \<longleftrightarrow> 0 < n \<and> n \<le> length E \<and> (\<forall>i < n. conn_pool (E ! i) \<noteq> None \<and> 0 < sint (num_reqs (E ! i)))"

definition load :: "'w endpoint list \<Rightarrow> nat \<Rightarrow> u32" where
  "load E i = outstanding (the (conn_pool (E ! i)))"

definition latency :: "'w endpoint list \<Rightarrow> nat \<Rightarrow> int" where
  "latency E i = sint (total_ms (E ! i)) sdiv sint (num_reqs (E ! i))"

lemma table_okD:
  assumes "table_ok E n" "i < n"
  shows "outstanding_of E i = Some (load E i)" "latency_of E i = Some (latency E i)" "ep_at E i = Some (E ! i)"
  using assms by (auto simp: table_ok_def outstanding_of_def latency_of_def ep_at_def load_def latency_def Let_def)

lemma least_loop_first_min:
  assumes "table_ok E n" "\<forall>i \<in> set is. i < n" "m = load E k"
  shows "least_loop E is m k = Some (first_min (load E) is k)"
  using assms(2,3) by (induction "is" arbitrary: m k) (auto simp: table_okD(1) [OF assms(1)])

lemma latency_loop_first_min:
  assumes "table_ok E n" "\<forall>i \<in> set is. i < n" "m = latency E k"
  shows "latency_loop E is m k = Some (first_min (latency E) is k)"
  using assms(2,3) by (induction "is" arbitrary: m k) (auto simp: table_okD(2) [OF assms(1)])

lemma least_loaded_eq:
  assumes "table_ok E n"
  shows "get_endpoint_least_loaded E n = Some (first_min (load E) [1..<n] 0)"
proof -
  have "0 < n" using assms by (simp add: table_ok_def)
  then show ?thesis
    using least_loop_first_min [OF assms, of "[1..<n]"] table_okD(1) [OF assms, of 0]
    by (simp add: get_endpoint_least_loaded_def)
qed

lemma load_protect_ok:
  assumes "table_ok E n" "k < n"
  shows "\<exists>j < n. load_protect E n k = Some j \<and>
     (if unat (load E k) < LOAD_PROTECT_THRESHOLD then j = k else is_first_min (load E) n j)"
  using first_min_all [of n "load E"] assms
  by (auto simp: load_protect_def table_okD(1) [OF assms] least_loaded_eq is_first_min_def not_le)

section \<open>The contract of a choice\<close>

text \<open>
  What the connection handler relies on, whichever of the three functions is compiled in: from a
  usable table the choice returns, and what it returns is an endpoint with a connection pool that
  is not overloaded unless all are at least as loaded.
\<close>

locale endpoint_choice =
  fixes pick :: "'w endpoint list \<Rightarrow> nat \<Rightarrow> nat option"
  assumes chosen: "table_ok E n \<Longrightarrow> \<exists>k < n. pick E n = Some k"
    and protected: "table_ok E n \<Longrightarrow> pick E n = Some k \<Longrightarrow>
      unat (load E k) < LOAD_PROTECT_THRESHOLD \<or> (\<forall>j < n. load E k \<le> load E j)"
begin

lemma chosen_pool:
  assumes "table_ok E n"
  obtains k p where "pick E n = Some k" "k < n" "k < length E" "conn_pool (E ! k) = Some p"
proof -
  obtain k where "k < n" "pick E n = Some k" using chosen [OF assms] by blast
  then show thesis using that [of k] assms by (auto simp: table_ok_def)
qed

text \<open>With a free connection somewhere the choice never points to an exhausted pool.\<close>

lemma chosen_not_exhausted:
  assumes "table_ok E n" "pick E n = Some k" "j < n" "load E j < c" "LOAD_PROTECT_THRESHOLD \<le> unat c"
  shows "load E k < c"
  using protected [OF assms(1,2)] assms(3-5) by (auto simp: word_less_nat_alt word_le_nat_alt)

end

interpretation least: endpoint_choice get_endpoint_least_loaded
proof unfold_locales
  fix E :: "'a endpoint list" and n k
  assume ok: "table_ok E n"
  then have "is_first_min (load E) n (first_min (load E) [1..<n] 0)"
    by (intro first_min_all) (simp add: table_ok_def)
  then show "\<exists>k < n. get_endpoint_least_loaded E n = Some k"
    and "get_endpoint_least_loaded E n = Some k \<Longrightarrow>
      unat (load E k) < LOAD_PROTECT_THRESHOLD \<or> (\<forall>j < n. load E k \<le> load E j)"
    by (auto simp: least_loaded_eq [OF ok] is_first_min_def)
qed

lemma min_latency_choice:
  assumes "table_ok E n"
  shows "\<exists>k < n. get_endpoint_min_latency E n = Some k \<and>
    (if sint (num_reqs (E ! 0)) < LOAD_BALANCE_THRESHOLD then is_first_min (load E) n k
     else \<exists>l. is_first_min (latency E) n l \<and>
       (if unat (load E l) < LOAD_PROTECT_THRESHOLD then k = l else is_first_min (load E) n k))"
proof (cases "sint (num_reqs (E ! 0)) < LOAD_BALANCE_THRESHOLD")
  case True
  have "0 < n" using assms by (simp add: table_ok_def)
  then have "get_endpoint_min_latency E n = Some (first_min (load E) [1..<n] 0)"
    using True table_okD(3) [OF assms, of 0] by (simp add: get_endpoint_min_latency_def least_loaded_eq [OF assms])
  then show ?thesis using True first_min_all [OF \<open>0 < n\<close>, of "load E"] by (auto simp: is_first_min_def)
next
  case False
  have "0 < n" using assms by (simp add: table_ok_def)
  define l where "l = first_min (latency E) [1..<n] 0"
  have l: "is_first_min (latency E) n l" unfolding l_def by (rule first_min_all) fact
  have "get_endpoint_min_latency E n = load_protect E n l"
    using False \<open>0 < n\<close> latency_loop_first_min [OF assms, of "[1..<n]"]
    by (simp add: get_endpoint_min_latency_def table_okD(2,3) [OF assms] l_def)
  moreover have "l < n" using l by (simp add: is_first_min_def)
  ultimately show ?thesis using load_protect_ok [OF assms \<open>l < n\<close>] l False by (auto split: if_splits)
qed

interpretation min_latency: endpoint_choice get_endpoint_min_latency
proof unfold_locales
  fix E :: "'a endpoint list" and n k
  assume ok: "table_ok E n"
  show "\<exists>k < n. get_endpoint_min_latency E n = Some k"
    and "get_endpoint_min_latency E n = Some k \<Longrightarrow>
      unat (load E k) < LOAD_PROTECT_THRESHOLD \<or> (\<forall>j < n. load E k \<le> load E j)"
    using min_latency_choice [OF ok] by (auto simp: is_first_min_def split: if_splits)
qed

section \<open>The random choice\<close>

definition new_score :: "'w endpoint list \<Rightarrow> nat \<Rightarrow> int" where
  "new_score E i = 1000000 sdiv latency E i"

text \<open>The table after scoring: nothing but the scores has changed.\<close>

definition scored :: "'w endpoint list \<Rightarrow> nat \<Rightarrow> 'w endpoint list \<Rightarrow> bool" where
  "scored E n E1 \<longleftrightarrow> length E1 = length E \<and>
     (\<forall>i < length E. E1 ! i = (if i < n then (E ! i)\<lparr>score := new_score E i\<rparr> else E ! i))"

lemma score_loop_run:
  assumes "table_ok E n" "m \<le> n" "\<forall>i < n. latency E i \<noteq> 0"
    and "length E1 = length E" "\<forall>i < length E. E1 ! i = (if i < m then (E ! i)\<lparr>score := new_score E i\<rparr> else E ! i)"
  shows "\<exists>E2. score_loop [m..<n] E1 ts = Some (E2, ts + (\<Sum>i = m..<n. new_score E i)) \<and> scored E n E2"
  using assms(2,4,5)
proof (induction "n - m" arbitrary: m E1 ts)
  case 0
  then show ?case by (auto simp: scored_def)
next
  case (Suc d)
  then have m: "m < n" "m < length E" "[m..<n] = m # [Suc m..<n]"
    using assms(1) by (auto simp: upt_conv_Cons table_ok_def)
  have "latency_of E1 m = Some (latency E m)"
    using table_okD(2) [OF assms(1) m(1)] Suc.prems m(2) by (simp add: latency_of_def ep_at_def)
  moreover have "latency E m \<noteq> 0" using assms(3) m(1) by blast
  ultimately have step: "score_loop [m..<n] E1 ts =
      score_loop [Suc m..<n] (E1[m := (E1 ! m)\<lparr>score := new_score E m\<rparr>]) (ts + new_score E m)"
    by (simp add: m(3) new_score_def Let_def)
  have "\<exists>E2. score_loop [Suc m..<n] (E1[m := (E1 ! m)\<lparr>score := new_score E m\<rparr>]) (ts + new_score E m) =
      Some (E2, ts + new_score E m + (\<Sum>i = Suc m..<n. new_score E i)) \<and> scored E n E2"
  proof (rule Suc.hyps(1))
    show "d = n - Suc m" "Suc m \<le> n" using Suc.hyps(2) m(1) by simp_all
    show "length (E1[m := (E1 ! m)\<lparr>score := new_score E m\<rparr>]) = length E" using Suc.prems by simp
    show "\<forall>i < length E. E1[m := (E1 ! m)\<lparr>score := new_score E m\<rparr>] ! i =
        (if i < Suc m then (E ! i)\<lparr>score := new_score E i\<rparr> else E ! i)"
      using Suc.prems m by (auto simp: nth_list_update less_Suc_eq)
  qed
  then show ?case
    unfolding step using m(1) by (simp add: sum.atLeast_Suc_lessThan add.assoc)
qed

text \<open>The wheel gives index \<open>k\<close> exactly for the pointers in its own segment.\<close>

lemma pick_loop_segment:
  assumes "m \<le> n" "n \<le> length E" "\<forall>i < n. 0 \<le> score (E ! i)" "0 \<le> p"
    and "p < (\<Sum>i = m..<n. score (E ! i))"
  shows "\<exists>k. m \<le> k \<and> k < n \<and> pick_loop E [m..<n] p = Some k \<and>
     (\<Sum>i = m..<k. score (E ! i)) \<le> p \<and> p < (\<Sum>i = m..<Suc k. score (E ! i))"
  using assms
proof (induction "n - m" arbitrary: m p)
  case (Suc d)
  then have m: "m < n" "[m..<n] = m # [Suc m..<n]" "ep_at E m = Some (E ! m)"
    by (auto simp: upt_conv_Cons ep_at_def)
  show ?case
  proof (cases "p < score (E ! m)")
    case True
    then show ?thesis using m Suc.prems(4) by (intro exI [of _ m]) simp
  next
    case False
    let ?p = "p - score (E ! m)"
    have "\<exists>k. Suc m \<le> k \<and> k < n \<and> pick_loop E [Suc m..<n] ?p = Some k \<and>
       (\<Sum>i = Suc m..<k. score (E ! i)) \<le> ?p \<and> ?p < (\<Sum>i = Suc m..<Suc k. score (E ! i))"
      using Suc.hyps(2) Suc.prems m(1) False
      by (intro Suc.hyps(1)) (auto simp: sum.atLeast_Suc_lessThan)
    then show ?thesis
      using m False by (fastforce simp: sum.atLeast_Suc_lessThan)
  qed
qed simp

lemma table_ok_scored:
  assumes "table_ok E n" "scored E n E1"
  shows "table_ok E1 n" "load E1 j = load E j \<or> length E \<le> j" "i < n \<Longrightarrow> score (E1 ! i) = new_score E i"
  using assms by (auto simp: table_ok_def scored_def load_def)

section \<open>Properties\<close>

text \<open>
  The least-loaded choice over a usable table returns the first endpoint among those with the
  fewest connections in use.
\<close>

theorem least_loaded_correct:
  assumes "table_ok E n"
  shows "\<exists>k < n. get_endpoint_least_loaded E n = Some k \<and>
    (\<forall>j < n. load E k \<le> load E j) \<and> (\<forall>j < k. load E k < load E j)"
  using first_min_all [of n "load E"] assms
  by (auto simp: least_loaded_eq is_first_min_def table_ok_def)

text \<open>
  C29: The latency-aware choice over a usable table returns an endpoint of the table. Until the first
  endpoint has counted 10,000 requests it is the first of the endpoints with the fewest connections in
  use. From then on it is the first of the endpoints with the smallest mean latency, if fewer than 100 of
  that endpoint's connections are in use, and otherwise again the first of the least loaded ones.
\<close>

theorem min_latency_correct:
  assumes "table_ok E n"
  shows "\<exists>k < n. get_endpoint_min_latency E n = Some k \<and>
    (if sint (num_reqs (E ! 0)) < 10000 then is_first_min (load E) n k
     else \<exists>l. is_first_min (latency E) n l \<and> (if unat (load E l) < 100 then k = l else is_first_min (load E) n k))"
  using min_latency_choice [OF assms] unfolding LOAD_PROTECT_THRESHOLD_def LOAD_BALANCE_THRESHOLD_def .


section \<open>Witnesses\<close>

definition demo_endpoint :: "u32 \<Rightarrow> u64 \<Rightarrow> u32 \<Rightarrow> libc endpoint" where
  "demo_endpoint out ms reqs = zero_endpoint\<lparr>total_ms := ms, num_reqs := reqs,
     conn_pool := Some ((new_Pool 8 512 512 24 None None 0 None None)\<lparr>outstanding := out\<rparr>)\<rparr>"

definition demo_table :: "libc endpoint list" where
  "demo_table = [demo_endpoint 120 300000 10000, demo_endpoint 7 100000 5000, demo_endpoint 3 90000 2000]"

lemma demo_table_ok: "table_ok demo_table 3"
  by (simp add: table_ok_def demo_table_def demo_endpoint_def zero_endpoint_def numeral_3_eq_3 All_less_Suc)

lemma demo_values:
  "load demo_table 0 = 120" "load demo_table 1 = 7" "load demo_table 2 = 3"
  "latency demo_table 0 = 30" "latency demo_table 1 = 20" "latency demo_table 2 = 45"
  "load demo_table (Suc 0) = 7" "latency demo_table (Suc 0) = 20"
  by (simp_all add: load_def latency_def demo_table_def demo_endpoint_def zero_endpoint_def)

lemma below_3: "(k :: nat) < 3 \<Longrightarrow> k = 0 \<or> k = 1 \<or> k = 2"
  by arith

lemma least_loaded_correct_witness: "get_endpoint_least_loaded demo_table 3 = Some 2"
proof -
  obtain k where k: "k < 3" "get_endpoint_least_loaded demo_table 3 = Some k"
    "load demo_table k \<le> load demo_table 2"
    using least_loaded_correct [OF demo_table_ok] by auto
  then show ?thesis using below_3 [OF k(1)] by (elim disjE) (simp_all add: demo_values)
qed

text \<open>The second endpoint has the smallest mean latency and few connections in use.\<close>

lemma min_latency_correct_witness: "get_endpoint_min_latency demo_table 3 = Some 1"
proof -
  have "\<not> sint (num_reqs (demo_table ! 0)) < 10000" by (simp add: demo_table_def demo_endpoint_def zero_endpoint_def)
  then obtain k l where r: "get_endpoint_min_latency demo_table 3 = Some k" "is_first_min (latency demo_table) 3 l"
    "if unat (load demo_table l) < 100 then k = l else is_first_min (load demo_table) 3 k"
    using min_latency_correct [OF demo_table_ok] by auto
  then have l: "l < 3" "latency demo_table l \<le> latency demo_table 1" by (simp_all add: is_first_min_def)
  then have "l = 1" using below_3 [OF l(1)] by (elim disjE) (simp_all add: demo_values)
  then show ?thesis using r by (simp add: demo_values)
qed

lemma sum_3: "(\<Sum>i = 0..<3. f i) = f 0 + f 1 + f (2 :: nat)" for f :: "nat \<Rightarrow> int"
  by (simp add: numeral_3_eq_3 numeral_2_eq_2)

lemma demo_scores: "(\<Sum>i = 0..<3. new_score demo_table i) = 105555" "new_score demo_table 0 = 33333"
  "new_score demo_table 1 = 50000" "new_score demo_table (Suc 0) = 50000" "new_score demo_table 2 = 22222"
  by (simp_all add: sum_3 new_score_def demo_values)


end
