(* ===== verification/Ae.thy ===== *)
theory Ae
  imports Mesh_Prelude "HOL-Library.Monad_Syntax"
begin

text \<open>
  The event loop (\<^verbatim>\<open>src/src/ae.c\<close>, \<^verbatim>\<open>ae.h\<close>): the table of registered file events and the
  dispatch of fired ones. The multiplexing layer is included by the preprocessor; here it is a
  record of its operations, which \<open>Ae_Backend\<close> provides. Handlers are
  names \<open>'p\<close>, so that the code's comparison of function pointers can be written; what a handler
  does is an argument of the dispatch. An access outside the table of events is None.
\<close>

section \<open>Data\<close>

type_synonym fd = int

definition AE_NONE :: u32 where "AE_NONE = 0"
definition AE_READABLE :: u32 where "AE_READABLE = 1"
definition AE_WRITABLE :: u32 where "AE_WRITABLE = 2"
definition AE_BARRIER :: u32 where "AE_BARRIER = 4"

lemmas ae_masks = AE_NONE_def AE_READABLE_def AE_WRITABLE_def AE_BARRIER_def

definition AE_OK :: int where "AE_OK = 0"
definition AE_ERR :: int where "AE_ERR = - 1"

lemma AE_OK_ERR [simp]: "AE_OK \<noteq> AE_ERR" "AE_ERR \<noteq> AE_OK"
  by (simp_all add: AE_OK_def AE_ERR_def)

text \<open>The procedures are unset (None) until an event is registered.\<close>

record 'p aeFileEvent =
  fe_mask :: u32
  rfileProc :: "'p option"
  wfileProc :: "'p option"
  clientData :: addr

record 'p aeEventLoop =
  maxfd :: int
  setsize :: int
  events :: "fd \<Rightarrow> 'p aeFileEvent"
  stop :: bool

text \<open>
  The multiplexing layer on the kernel state \<open>'k\<close>. Both operations read the mask in the table
  (the argument of type u32 that comes first); adding can fail.
\<close>

record 'k ae_api =
  aeApiAddEvent :: "u32 \<Rightarrow> fd \<Rightarrow> u32 \<Rightarrow> 'k \<Rightarrow> bool \<times> 'k"
  aeApiDelEvent :: "u32 \<Rightarrow> fd \<Rightarrow> u32 \<Rightarrow> 'k \<Rightarrow> 'k"
  aeApiResize :: "int \<Rightarrow> 'k \<Rightarrow> bool \<times> 'k"
  aeApiCreate :: "int \<Rightarrow> 'k \<Rightarrow> bool \<times> 'k"

section \<open>The table of events\<close>

definition no_event :: "'p aeFileEvent" where
  "no_event = \<lparr>fe_mask = AE_NONE, rfileProc = None, wfileProc = None, clientData = NULL\<rparr>"

text \<open>
  \<^verbatim>\<open>zmalloc\<close> does not return NULL, so that creation fails only in the multiplexing layer.
\<close>

definition aeCreateEventLoop :: "'k ae_api \<Rightarrow> int \<Rightarrow> 'k \<Rightarrow> 'p aeEventLoop option \<times> 'k" where
  "aeCreateEventLoop api n k =
     (let el = \<lparr>maxfd = - 1, setsize = n, events = (\<lambda>_. no_event), stop = False\<rparr>;
          (ok, k1) = aeApiCreate api n k
      in if \<not> ok then (None, k1) else (Some el, k1))"

definition aeGetSetSize :: "'p aeEventLoop \<Rightarrow> int" where
  "aeGetSetSize el = setsize el"

definition aeResizeSetSize :: "'k ae_api \<Rightarrow> int \<Rightarrow> 'p aeEventLoop \<Rightarrow> 'k \<Rightarrow> int \<times> 'p aeEventLoop \<times> 'k" where
  "aeResizeSetSize api n el k =
     (if n = setsize el then (AE_OK, el, k)
      else if maxfd el \<ge> n then (AE_ERR, el, k)
      else
        let (ok, k1) = aeApiResize api n k
        in if \<not> ok then (AE_ERR, el, k1)
           else (AE_OK,
                 el\<lparr>setsize := n,
                    events := (\<lambda>i. if maxfd el + 1 \<le> i \<and> i < n then (events el i)\<lparr>fe_mask := AE_NONE\<rparr>
                                   else events el i)\<rparr>, k1))"

definition aeStop :: "'p aeEventLoop \<Rightarrow> 'p aeEventLoop" where
  "aeStop el = el\<lparr>stop := True\<rparr>"

definition aeCreateFileEvent ::
  "'k ae_api \<Rightarrow> fd \<Rightarrow> u32 \<Rightarrow> 'p \<Rightarrow> addr \<Rightarrow> 'p aeEventLoop \<Rightarrow> 'k \<Rightarrow> (int \<times> 'p aeEventLoop \<times> 'k) option" where
  "aeCreateFileEvent api fd m proc d el k =
     (if fd \<ge> setsize el then Some (AE_ERR, el, k)
      else if fd < 0 then None
      else
        let fe = events el fd;
            (ok, k1) = aeApiAddEvent api (fe_mask fe) fd m k
        in if \<not> ok then Some (AE_ERR, el, k1)
           else
             let fe1 = fe\<lparr>fe_mask := fe_mask fe OR m\<rparr>;
                 fe2 = (if m AND AE_READABLE \<noteq> 0 then fe1\<lparr>rfileProc := Some proc\<rparr> else fe1);
                 fe3 = (if m AND AE_WRITABLE \<noteq> 0 then fe2\<lparr>wfileProc := Some proc\<rparr> else fe2);
                 fe4 = fe3\<lparr>clientData := d\<rparr>
             in Some (AE_OK,
                  el\<lparr>events := (events el)(fd := fe4), maxfd := (if fd > maxfd el then fd else maxfd el)\<rparr>, k1))"

text \<open>The search for the next smaller registered descriptor; it starts below \<open>j\<close>.\<close>

fun registered_below :: "(fd \<Rightarrow> 'p aeFileEvent) \<Rightarrow> nat \<Rightarrow> int" where
  "registered_below ev 0 = - 1"
| "registered_below ev (Suc j) = (if fe_mask (ev (int j)) \<noteq> AE_NONE then int j else registered_below ev j)"

definition aeDeleteFileEvent ::
  "'k ae_api \<Rightarrow> fd \<Rightarrow> u32 \<Rightarrow> 'p aeEventLoop \<Rightarrow> 'k \<Rightarrow> ('p aeEventLoop \<times> 'k) option" where
  "aeDeleteFileEvent api fd m el k =
     (if fd \<ge> setsize el then Some (el, k)
      else if fd < 0 then None
      else
        let fe = events el fd
        in if fe_mask fe = AE_NONE then Some (el, k)
           else
             let m1 = (if m AND AE_WRITABLE \<noteq> 0 then m OR AE_BARRIER else m);
                 k1 = aeApiDelEvent api (fe_mask fe) fd m1 k;
                 fe1 = fe\<lparr>fe_mask := fe_mask fe AND NOT m1\<rparr>;
                 ev = (events el)(fd := fe1)
             in Some (el\<lparr>events := ev,
                         maxfd := (if fd = maxfd el \<and> fe_mask fe1 = AE_NONE
                                   then registered_below ev (nat (maxfd el)) else maxfd el)\<rparr>, k1))"

definition aeGetFileEvents :: "'p aeEventLoop \<Rightarrow> fd \<Rightarrow> u32 option" where
  "aeGetFileEvents el fd =
     (if fd \<ge> setsize el then Some 0 else if fd < 0 then None else Some (fe_mask (events el fd)))"

section \<open>Dispatch\<close>

text \<open>
  \<open>loop_of\<close> finds the event loop in the state of the program and \<open>call\<close> is what the handlers do;
  None is a crash inside a handler, or a call through an unset procedure. The table is read again
  before each call, as in the code.
\<close>

definition call_proc ::
  "('p \<Rightarrow> fd \<Rightarrow> addr \<Rightarrow> u32 \<Rightarrow> 'w \<Rightarrow> 'w option) \<Rightarrow> 'p option \<Rightarrow> fd \<Rightarrow> addr \<Rightarrow> u32 \<Rightarrow> 'w \<Rightarrow> 'w option" where
  "call_proc call p fd d m w = do { q \<leftarrow> p; call q fd d m w }"

definition fire_readable ::
  "('w \<Rightarrow> 'p aeEventLoop) \<Rightarrow> ('p \<Rightarrow> fd \<Rightarrow> addr \<Rightarrow> u32 \<Rightarrow> 'w \<Rightarrow> 'w option) \<Rightarrow> fd \<Rightarrow> u32 \<Rightarrow> bool \<Rightarrow> nat \<Rightarrow> 'w \<Rightarrow>
   (nat \<times> 'w) option" where
  "fire_readable loop_of call fd m enabled fired w =
     (let fe = events (loop_of w) fd
      in if enabled \<and> fe_mask fe AND m AND AE_READABLE \<noteq> 0
         then map_option (\<lambda>w1. (fired + 1, w1)) (call_proc call (rfileProc fe) fd (clientData fe) m w)
         else Some (fired, w))"

definition fire_writable ::
  "('w \<Rightarrow> 'p aeEventLoop) \<Rightarrow> ('p \<Rightarrow> fd \<Rightarrow> addr \<Rightarrow> u32 \<Rightarrow> 'w \<Rightarrow> 'w option) \<Rightarrow> fd \<Rightarrow> u32 \<Rightarrow> nat \<Rightarrow> 'w \<Rightarrow>
   (nat \<times> 'w) option" where
  "fire_writable loop_of call fd m fired w =
     (let fe = events (loop_of w) fd
      in if fe_mask fe AND m AND AE_WRITABLE \<noteq> 0 \<and> (fired = 0 \<or> wfileProc fe \<noteq> rfileProc fe)
         then map_option (\<lambda>w1. (fired + 1, w1)) (call_proc call (wfileProc fe) fd (clientData fe) m w)
         else Some (fired, w))"

definition process_fired ::
  "('w \<Rightarrow> 'p aeEventLoop) \<Rightarrow> ('p \<Rightarrow> fd \<Rightarrow> addr \<Rightarrow> u32 \<Rightarrow> 'w \<Rightarrow> 'w option) \<Rightarrow> fd \<Rightarrow> u32 \<Rightarrow> 'w \<Rightarrow> 'w option" where
  "process_fired loop_of call fd m w =
     (let invert = fe_mask (events (loop_of w) fd) AND AE_BARRIER \<noteq> 0
      in if fd < 0 \<or> setsize (loop_of w) \<le> fd then None
      else do {
        (n1, w1) \<leftarrow> fire_readable loop_of call fd m (\<not> invert) 0 w;
        (n2, w2) \<leftarrow> fire_writable loop_of call fd m n1 w1;
        let fe = events (loop_of w2) fd;
        (n3, w3) \<leftarrow> fire_readable loop_of call fd m (invert \<and> (n2 = 0 \<or> wfileProc fe \<noteq> rfileProc fe)) n2 w2;
        Some w3
      })"

fun process_all ::
  "('w \<Rightarrow> 'p aeEventLoop) \<Rightarrow> ('p \<Rightarrow> fd \<Rightarrow> addr \<Rightarrow> u32 \<Rightarrow> 'w \<Rightarrow> 'w option) \<Rightarrow> (fd \<times> u32) list \<Rightarrow> nat \<Rightarrow> 'w \<Rightarrow>
   (nat \<times> 'w) option" where
  "process_all loop_of call [] n w = Some (n, w)"
| "process_all loop_of call ((fd, m) # fs) n w = do {
     w1 \<leftarrow> process_fired loop_of call fd m w;
     process_all loop_of call fs (n + 1) w1
   }"

text \<open>
  \<open>poll\<close> is \<^verbatim>\<open>aeApiPoll\<close>; time events are compiled out of the dispatch, so the flags only choose
  whether to wait, which is the multiplexing layer's affair.
\<close>

definition aeProcessEvents ::
  "('w \<Rightarrow> 'p aeEventLoop) \<Rightarrow> ('p \<Rightarrow> fd \<Rightarrow> addr \<Rightarrow> u32 \<Rightarrow> 'w \<Rightarrow> 'w option) \<Rightarrow> ('w \<Rightarrow> (fd \<times> u32) list \<times> 'w) \<Rightarrow> 'w \<Rightarrow>
   (nat \<times> 'w) option" where
  "aeProcessEvents loop_of call poll w =
     (if maxfd (loop_of w) \<noteq> - 1 then let (fs, w1) = poll w in process_all loop_of call fs 0 w1
      else Some (0, w))"

text \<open>
  \<^verbatim>\<open>aeMain\<close> until it is stopped, for at most \<open>n\<close> rounds; its first step, clearing \<open>stop\<close>, is
  apart (\<open>set_loop\<close> puts the loop back into the state of the program).
\<close>

fun ae_rounds ::
  "('w \<Rightarrow> 'p aeEventLoop) \<Rightarrow> ('p \<Rightarrow> fd \<Rightarrow> addr \<Rightarrow> u32 \<Rightarrow> 'w \<Rightarrow> 'w option) \<Rightarrow> ('w \<Rightarrow> (fd \<times> u32) list \<times> 'w) \<Rightarrow>
   nat \<Rightarrow> 'w \<Rightarrow> 'w option" where
  "ae_rounds loop_of call poll 0 w = Some w"
| "ae_rounds loop_of call poll (Suc n) w =
     (if stop (loop_of w) then Some w
      else do {
        (k, w1) \<leftarrow> aeProcessEvents loop_of call poll w;
        ae_rounds loop_of call poll n w1
      })"

definition aeMain ::
  "('w \<Rightarrow> 'p aeEventLoop) \<Rightarrow> (('p aeEventLoop \<Rightarrow> 'p aeEventLoop) \<Rightarrow> 'w \<Rightarrow> 'w) \<Rightarrow>
   ('p \<Rightarrow> fd \<Rightarrow> addr \<Rightarrow> u32 \<Rightarrow> 'w \<Rightarrow> 'w option) \<Rightarrow> ('w \<Rightarrow> (fd \<times> u32) list \<times> 'w) \<Rightarrow> nat \<Rightarrow> 'w \<Rightarrow> 'w option" where
  "aeMain loop_of upd_loop call poll n w =
     ae_rounds loop_of call poll n (upd_loop (\<lambda>el. el\<lparr>stop := False\<rparr>) w)"

end
