(* ===== verification/Ae_Backend.thy ===== *)
theory Ae_Backend
  imports Ae
begin

text \<open>
  Two multiplexing layers of the event loop: \<^verbatim>\<open>src/src/opt/ae_epoll.c\<close>, the one compiled on Linux,
  on a model of the kernel's epoll instance, and \<^verbatim>\<open>src/src/opt/ae_select.c\<close>.
\<close>

section \<open>The kernel\<close>

text \<open>
  What the kernel keeps for the process, as far as the program sees it: which descriptors are open,
  the interest list of its epoll instance, whether the next registrations fail for want of
  memory (the list of faults, one entry per call), and what the next waits will report. The record
  extends the allocator's, so that the pools can work on it.
\<close>

record os = libc +
  open_fds :: "fd \<Rightarrow> bool"
  interest :: "fd \<Rightarrow> u32 option"
  watch_faults :: "bool list"
  ready :: "(fd \<times> u32) list list"

definition EPOLLIN :: u32 where "EPOLLIN = 1"
definition EPOLLOUT :: u32 where "EPOLLOUT = 4"
definition EPOLLERR :: u32 where "EPOLLERR = 8"
definition EPOLLHUP :: u32 where "EPOLLHUP = 16"

lemmas epoll_bits = EPOLLIN_def EPOLLOUT_def EPOLLERR_def EPOLLHUP_def

datatype epoll_op = EPOLL_CTL_ADD | EPOLL_CTL_MOD | EPOLL_CTL_DEL

definition next_fault :: "'a os_scheme \<Rightarrow> bool \<times> 'a os_scheme" where
  "next_fault k = (case watch_faults k of [] \<Rightarrow> (False, k) | f # fs \<Rightarrow> (f, k\<lparr>watch_faults := fs\<rparr>))"

text \<open>
  The call fails for a closed descriptor, for one registered twice, for a change of one that is
  not registered, and, when it has to allocate, for want of memory.
\<close>

definition epoll_ctl :: "epoll_op \<Rightarrow> fd \<Rightarrow> u32 \<Rightarrow> 'a os_scheme \<Rightarrow> bool \<times> 'a os_scheme" where
  "epoll_ctl op fd ev k =
     (if \<not> open_fds k fd then (False, k)
      else case op of
          EPOLL_CTL_ADD \<Rightarrow>
            (if interest k fd \<noteq> None then (False, k)
             else let (fault, k1) = next_fault k
                  in if fault then (False, k1) else (True, k1\<lparr>interest := (interest k1)(fd := Some ev)\<rparr>))
        | EPOLL_CTL_MOD \<Rightarrow>
            (if interest k fd = None then (False, k) else (True, k\<lparr>interest := (interest k)(fd := Some ev)\<rparr>))
        | EPOLL_CTL_DEL \<Rightarrow>
            (if interest k fd = None then (False, k) else (True, k\<lparr>interest := (interest k)(fd := None)\<rparr>)))"

definition epoll_create :: "'a os_scheme \<Rightarrow> bool \<times> 'a os_scheme" where
  "epoll_create k =
     (let (fault, k1) = next_fault k
      in if fault then (False, k1) else (True, k1\<lparr>interest := (\<lambda>_. None)\<rparr>))"

text \<open>
  A wait reports at most \<open>n\<close> descriptors of the interest list, with the events asked for and
  possibly ERR and HUP. An empty report is a timeout or an interrupted wait.
\<close>

definition epoll_wait :: "int \<Rightarrow> 'a os_scheme \<Rightarrow> (fd \<times> u32) list \<times> 'a os_scheme" where
  "epoll_wait n k =
     (case ready k of
        [] \<Rightarrow> ([], k)
      | r # rs \<Rightarrow>
          (take (nat n) [(fd, ev AND (the (interest k fd) OR EPOLLERR OR EPOLLHUP)). (fd, ev) \<leftarrow> r, interest k fd \<noteq> None],
           k\<lparr>ready := rs\<rparr>))"

text \<open>Closing a descriptor also takes it out of the interest list.\<close>

definition os_close :: "fd \<Rightarrow> 'a os_scheme \<Rightarrow> 'a os_scheme" where
  "os_close fd k = k\<lparr>open_fds := (open_fds k)(fd := False), interest := (interest k)(fd := None)\<rparr>"

section \<open>The epoll layer\<close>

definition epoll_events :: "u32 \<Rightarrow> u32" where
  "epoll_events m =
     (let e0 = 0;
          e1 = (if m AND AE_READABLE \<noteq> 0 then e0 OR EPOLLIN else e0)
      in if m AND AE_WRITABLE \<noteq> 0 then e1 OR EPOLLOUT else e1)"

definition epoll_aeApiCreate :: "int \<Rightarrow> 'a os_scheme \<Rightarrow> bool \<times> 'a os_scheme" where
  "epoll_aeApiCreate n k = epoll_create k"

definition epoll_aeApiResize :: "int \<Rightarrow> 'a os_scheme \<Rightarrow> bool \<times> 'a os_scheme" where
  "epoll_aeApiResize n k = (True, k)"

definition epoll_aeApiAddEvent :: "u32 \<Rightarrow> fd \<Rightarrow> u32 \<Rightarrow> 'a os_scheme \<Rightarrow> bool \<times> 'a os_scheme" where
  "epoll_aeApiAddEvent old fd m k =
     (let op = (if old = AE_NONE then EPOLL_CTL_ADD else EPOLL_CTL_MOD);
          m1 = m OR old
      in epoll_ctl op fd (epoll_events m1) k)"

definition epoll_aeApiDelEvent :: "u32 \<Rightarrow> fd \<Rightarrow> u32 \<Rightarrow> 'a os_scheme \<Rightarrow> 'a os_scheme" where
  "epoll_aeApiDelEvent old fd delmask k =
     (let m = old AND NOT delmask
      in if m \<noteq> AE_NONE then snd (epoll_ctl EPOLL_CTL_MOD fd (epoll_events m) k)
         else snd (epoll_ctl EPOLL_CTL_DEL fd (epoll_events m) k))"

definition epoll_fired_mask :: "u32 \<Rightarrow> u32" where
  "epoll_fired_mask ev =
     (let m0 = 0;
          m1 = (if ev AND EPOLLIN \<noteq> 0 then m0 OR AE_READABLE else m0);
          m2 = (if ev AND EPOLLOUT \<noteq> 0 then m1 OR AE_WRITABLE else m1);
          m3 = (if ev AND EPOLLERR \<noteq> 0 then m2 OR AE_WRITABLE else m2)
      in if ev AND EPOLLHUP \<noteq> 0 then m3 OR AE_WRITABLE else m3)"

definition epoll_aeApiPoll :: "int \<Rightarrow> 'a os_scheme \<Rightarrow> (fd \<times> u32) list \<times> 'a os_scheme" where
  "epoll_aeApiPoll n k =
     (let (es, k1) = epoll_wait n k in (map (\<lambda>(fd, ev). (fd, epoll_fired_mask ev)) es, k1))"

definition epoll_api :: "('a os_scheme) ae_api" where
  "epoll_api = \<lparr>aeApiAddEvent = epoll_aeApiAddEvent, aeApiDelEvent = epoll_aeApiDelEvent,
     aeApiResize = epoll_aeApiResize, aeApiCreate = epoll_aeApiCreate\<rparr>"

section \<open>The select layer\<close>

text \<open>
  The two sets of descriptors. They hold the descriptors below \<^verbatim>\<open>FD_SETSIZE\<close>; the layer does not
  check a descriptor against it.
\<close>

record select_state =
  rfds :: "fd \<Rightarrow> bool"
  wfds :: "fd \<Rightarrow> bool"

definition FD_SETSIZE :: int where "FD_SETSIZE = 1024"

definition select_aeApiCreate :: "int \<Rightarrow> 'a select_state_scheme \<Rightarrow> bool \<times> 'a select_state_scheme" where
  "select_aeApiCreate n k = (True, k\<lparr>rfds := (\<lambda>_. False), wfds := (\<lambda>_. False)\<rparr>)"

definition select_aeApiResize :: "int \<Rightarrow> 'a select_state_scheme \<Rightarrow> bool \<times> 'a select_state_scheme" where
  "select_aeApiResize n k = (\<not> n \<ge> FD_SETSIZE, k)"

definition select_aeApiAddEvent :: "u32 \<Rightarrow> fd \<Rightarrow> u32 \<Rightarrow> 'a select_state_scheme \<Rightarrow> bool \<times> 'a select_state_scheme" where
  "select_aeApiAddEvent old fd m k =
     (let k1 = (if m AND AE_READABLE \<noteq> 0 then k\<lparr>rfds := (rfds k)(fd := True)\<rparr> else k);
          k2 = (if m AND AE_WRITABLE \<noteq> 0 then k1\<lparr>wfds := (wfds k1)(fd := True)\<rparr> else k1)
      in (True, k2))"

definition select_aeApiDelEvent :: "u32 \<Rightarrow> fd \<Rightarrow> u32 \<Rightarrow> 'a select_state_scheme \<Rightarrow> 'a select_state_scheme" where
  "select_aeApiDelEvent old fd m k =
     (let k1 = (if m AND AE_READABLE \<noteq> 0 then k\<lparr>rfds := (rfds k)(fd := False)\<rparr> else k)
      in if m AND AE_WRITABLE \<noteq> 0 then k1\<lparr>wfds := (wfds k1)(fd := False)\<rparr> else k1)"

text \<open>
  The scan after \<^verbatim>\<open>select\<close>, whose answer is its result and the two sets \<open>R\<close> and \<open>W\<close>; once
  the result is positive a descriptor that is registered is reported even when its mask is empty.
\<close>

definition select_aeApiPoll ::
  "'p aeEventLoop \<Rightarrow> int \<Rightarrow> (fd \<Rightarrow> bool) \<Rightarrow> (fd \<Rightarrow> bool) \<Rightarrow> (fd \<times> u32) list" where
  "select_aeApiPoll el retval R W =
     (let mask_of = (\<lambda>j. let fm = fe_mask (events el j);
                             m0 = 0;
                             m1 = (if fm AND AE_READABLE \<noteq> 0 \<and> R j then m0 OR AE_READABLE else m0)
                         in if fm AND AE_WRITABLE \<noteq> 0 \<and> W j then m1 OR AE_WRITABLE else m1)
      in if retval > 0 then [(j, mask_of j). j \<leftarrow> [0..maxfd el], fe_mask (events el j) \<noteq> AE_NONE] else [])"

definition select_api :: "('a select_state_scheme) ae_api" where
  "select_api = \<lparr>aeApiAddEvent = select_aeApiAddEvent, aeApiDelEvent = select_aeApiDelEvent,
     aeApiResize = select_aeApiResize, aeApiCreate = select_aeApiCreate\<rparr>"

end
