(* ===== verification/Ae_Props.thy ===== *)
theory Ae_Props
  imports Ae_Backend
begin

text \<open>
  The interface between the event loop and its multiplexing layer as a locale with its two
  implementations, the invariant of the table of events, and the rule by which a program built
  on the loop keeps its own invariant.
\<close>

section \<open>Bits of a mask\<close>

lemma u32_bit [simp]: "bit (1 :: u32) n \<longleftrightarrow> n = 0" "bit (2 :: u32) n \<longleftrightarrow> n = 1" "bit (4 :: u32) n \<longleftrightarrow> n = 2"
  using bit_exp_iff [where 'a = "32 word", of 1 n] bit_exp_iff [where 'a = "32 word", of 2 n]
  by (auto simp: bit_1_iff)

lemma mask_bits:
  "x AND AE_READABLE \<noteq> 0 \<longleftrightarrow> bit x 0" "x AND AE_WRITABLE \<noteq> 0 \<longleftrightarrow> bit x 1" "x AND AE_BARRIER \<noteq> 0 \<longleftrightarrow> bit x 2"
proof -
  have "x AND AE_READABLE = 0 \<longleftrightarrow> \<not> bit x 0" "x AND AE_WRITABLE = 0 \<longleftrightarrow> \<not> bit x 1" "x AND AE_BARRIER = 0 \<longleftrightarrow> \<not> bit x 2"
    unfolding ae_masks bit_eq_iff [where 'a = "32 word"] bit_and_iff u32_bit bit_0_eq bot_apply
    by (auto dest: spec [of _ 0] spec [of _ 1] spec [of _ 2] intro!: gr0I)
  then show "x AND AE_READABLE \<noteq> 0 \<longleftrightarrow> bit x 0" "x AND AE_WRITABLE \<noteq> 0 \<longleftrightarrow> bit x 1" "x AND AE_BARRIER \<noteq> 0 \<longleftrightarrow> bit x 2"
    by blast+
qed

lemma or_not_none [simp]: "m \<noteq> AE_NONE \<Longrightarrow> (x :: u32) OR m \<noteq> AE_NONE"
  by (metis AE_NONE_def or_eq_0_iff)

section \<open>The multiplexing layer\<close>

text \<open>
  \<open>tracks k fd m\<close>: the layer watches \<open>fd\<close> for exactly the events of the mask \<open>m\<close>; \<open>valid\<close> are
  the descriptors it can hold.
\<close>

locale multiplexer =
  fixes api :: "'k ae_api"
    and tracks :: "'k \<Rightarrow> fd \<Rightarrow> u32 \<Rightarrow> bool"
    and valid :: "fd \<Rightarrow> bool"
  assumes add_ok: "tracks k fd old \<Longrightarrow> valid fd \<Longrightarrow> m \<noteq> AE_NONE \<Longrightarrow>
      aeApiAddEvent api old fd m k = (True, k') \<Longrightarrow> tracks k' fd (old OR m)"
    and add_err: "tracks k fd old \<Longrightarrow> aeApiAddEvent api old fd m k = (False, k') \<Longrightarrow> tracks k' fd old"
    and add_frame: "aeApiAddEvent api old fd m k = (ok, k') \<Longrightarrow> g \<noteq> fd \<Longrightarrow> tracks k g x \<Longrightarrow> tracks k' g x"
    and del_ok: "tracks k fd old \<Longrightarrow> valid fd \<Longrightarrow> old \<noteq> AE_NONE \<Longrightarrow> tracks (aeApiDelEvent api old fd m k) fd (old AND NOT m)"
    and del_frame: "g \<noteq> fd \<Longrightarrow> tracks k g x \<Longrightarrow> tracks (aeApiDelEvent api old fd m k) g x"

text \<open>
  The invariant of the loop: the layer watches what the table says, and \<open>maxfd\<close> is the largest
  registered descriptor, or -1.
\<close>

definition maxfd_ok :: "'p aeEventLoop \<Rightarrow> bool" where
  "maxfd_ok el \<longleftrightarrow> - 1 \<le> maxfd el \<and> maxfd el < max 0 (setsize el) \<and>
     (maxfd el \<noteq> - 1 \<longrightarrow> fe_mask (events el (maxfd el)) \<noteq> AE_NONE) \<and>
     (\<forall>fd. maxfd el < fd \<and> fd < setsize el \<longrightarrow> fe_mask (events el fd) = AE_NONE)"

definition procs_ok :: "'p aeEventLoop \<Rightarrow> bool" where
  "procs_ok el \<longleftrightarrow> (\<forall>fd. 0 \<le> fd \<and> fd < setsize el \<longrightarrow>
     (bit (fe_mask (events el fd)) 0 \<longrightarrow> rfileProc (events el fd) \<noteq> None) \<and>
     (bit (fe_mask (events el fd)) 1 \<longrightarrow> wfileProc (events el fd) \<noteq> None))"

definition loop_ok :: "('k \<Rightarrow> fd \<Rightarrow> u32 \<Rightarrow> bool) \<Rightarrow> 'p aeEventLoop \<Rightarrow> 'k \<Rightarrow> bool" where
  "loop_ok tracks el k \<longleftrightarrow> maxfd_ok el \<and> procs_ok el \<and>
     (\<forall>fd. 0 \<le> fd \<and> fd < setsize el \<longrightarrow> tracks k fd (fe_mask (events el fd)))"

lemma registered_below_cases:
  "registered_below ev j = - 1 \<and> (\<forall>i < j. fe_mask (ev (int i)) = AE_NONE) \<or>
   (\<exists>n < j. registered_below ev j = int n \<and> fe_mask (ev (int n)) \<noteq> AE_NONE \<and>
     (\<forall>i. n < i \<and> i < j \<longrightarrow> fe_mask (ev (int i)) = AE_NONE))"
proof (induction j)
  case (Suc j)
  show ?case
  proof (cases "fe_mask (ev (int j)) \<noteq> AE_NONE")
    case True
    then show ?thesis by (intro disjI2 exI [of _ j]) auto
  next
    case False
    then have eq: "registered_below ev (Suc j) = registered_below ev j" by simp
    show ?thesis unfolding eq using Suc.IH False by (auto simp: less_Suc_eq)
  qed
qed simp

lemma maxfd_ok_delete:
  assumes "maxfd_ok el" "0 \<le> fd" "fd < setsize el" "fe_mask (events el fd) \<noteq> AE_NONE"
    and "ev = (events el)(fd := fe)"
  shows "maxfd_ok (el\<lparr>events := ev,
     maxfd := (if fd = maxfd el \<and> fe_mask fe = AE_NONE then registered_below ev (nat (maxfd el)) else maxfd el)\<rparr>)"
proof (cases "fd = maxfd el \<and> fe_mask fe = AE_NONE")
  case True
  have none: "\<forall>g. maxfd el \<le> g \<and> g < setsize el \<longrightarrow> fe_mask (ev g) = AE_NONE"
    using assms True by (auto simp: maxfd_ok_def)
  from registered_below_cases [of ev "nat (maxfd el)"] show ?thesis
  proof (elim disjE exE conjE)
    assume r: "registered_below ev (nat (maxfd el)) = - 1" "\<forall>i < nat (maxfd el). fe_mask (ev (int i)) = AE_NONE"
    have "fe_mask (ev g) = AE_NONE" if "- 1 < g" "g < setsize el" for g
      using none r(2) [THEN spec, of "nat g"] that by (cases "g < maxfd el") auto
    then show ?thesis using True r(1) assms(2,3) by (simp add: maxfd_ok_def)
  next
    fix n
    assume r: "n < nat (maxfd el)" "registered_below ev (nat (maxfd el)) = int n" "fe_mask (ev (int n)) \<noteq> AE_NONE"
      "\<forall>i. n < i \<and> i < nat (maxfd el) \<longrightarrow> fe_mask (ev (int i)) = AE_NONE"
    have "fe_mask (ev g) = AE_NONE" if "int n < g" "g < setsize el" for g
      using none r(4) [THEN spec, of "nat g"] that by (cases "g < maxfd el") auto
    then show ?thesis using True r(1-3) assms(2,3) by (simp add: maxfd_ok_def)
  qed
next
  case False
  then show ?thesis using assms by (auto simp: maxfd_ok_def)
qed

context multiplexer
begin

lemma create_ok:
  assumes "loop_ok tracks el k" "m \<noteq> AE_NONE" "0 \<le> fd" "fd < setsize el \<Longrightarrow> valid fd"
  shows "\<exists>r el' k'. aeCreateFileEvent api fd m p d el k = Some (r, el', k') \<and> loop_ok tracks el' k' \<and>
    setsize el' = setsize el \<and> (r = AE_ERR \<longrightarrow> el' = el) \<and> (r = AE_OK \<or> r = AE_ERR) \<and>
    (r = AE_OK \<longrightarrow> fe_mask (events el' fd) = fe_mask (events el fd) OR m)"
proof (cases "fd \<ge> setsize el")
  case True
  then show ?thesis using assms(1) by (simp add: aeCreateFileEvent_def)
next
  case False
  let ?old = "fe_mask (events el fd)"
  obtain ok k1 where a: "aeApiAddEvent api ?old fd m k = (ok, k1)" by fastforce
  have tr: "tracks k fd ?old" "valid fd" using assms False by (auto simp: loop_ok_def)
  have frame: "tracks k1 g (fe_mask (events el g))" if "g \<noteq> fd" "0 \<le> g" "g < setsize el" for g
    using add_frame [OF a that(1)] assms(1) that by (simp add: loop_ok_def)
  show ?thesis
  proof (cases ok)
    case True
    have "tracks k1 fd (?old OR m)" using add_ok [OF tr assms(2)] a True by simp
    moreover have "maxfd_ok el" "procs_ok el" using assms(1) by (simp_all add: loop_ok_def)
    ultimately show ?thesis
      using False True a assms(2,3) frame
      by (auto simp: aeCreateFileEvent_def Let_def loop_ok_def maxfd_ok_def procs_ok_def bit_or_iff mask_bits)
  next
    case err: False
    have "tracks k1 fd ?old" using add_err [OF tr(1)] a err by simp
    then have "tracks k1 g (fe_mask (events el g))" if "0 \<le> g" "g < setsize el" for g
      using frame that by (cases "g = fd") auto
    then show ?thesis
      using False a err assms(1,3) by (simp add: aeCreateFileEvent_def loop_ok_def)
  qed
qed

lemma delete_ok:
  assumes "loop_ok tracks el k" "0 \<le> fd" "fd < setsize el \<Longrightarrow> valid fd"
  shows "\<exists>el' k'. aeDeleteFileEvent api fd m el k = Some (el', k') \<and> loop_ok tracks el' k' \<and> setsize el' = setsize el \<and>
    (\<forall>g. g \<noteq> fd \<longrightarrow> events el' g = events el g) \<and>
    (fd < setsize el \<longrightarrow> fe_mask (events el' fd) = fe_mask (events el fd) AND
       NOT (if m AND AE_WRITABLE \<noteq> 0 then m OR AE_BARRIER else m))"
proof (cases "fd \<ge> setsize el \<or> fe_mask (events el fd) = AE_NONE")
  case True
  then show ?thesis using assms by (auto simp: aeDeleteFileEvent_def AE_NONE_def)
next
  case False
  let ?old = "fe_mask (events el fd)" and ?m = "if m AND AE_WRITABLE \<noteq> 0 then m OR AE_BARRIER else m"
  let ?k = "aeApiDelEvent api ?old fd ?m k" and ?fe = "(events el fd)\<lparr>fe_mask := ?old AND NOT ?m\<rparr>"
  let ?ev = "(events el)(fd := ?fe)"
  let ?el = "el\<lparr>events := ?ev, maxfd := (if fd = maxfd el \<and> fe_mask ?fe = AE_NONE
      then registered_below ?ev (nat (maxfd el)) else maxfd el)\<rparr>"
  have tr: "tracks k fd ?old" "valid fd" using assms False by (auto simp: loop_ok_def)
  have eq: "aeDeleteFileEvent api fd m el k = Some (?el, ?k)"
    using False assms(2) unfolding aeDeleteFileEvent_def Let_def by simp
  have "tracks ?k fd (?old AND NOT ?m)" using del_ok [OF tr, of ?m] False by simp
  moreover have "tracks ?k g (fe_mask (events el g))" if "g \<noteq> fd" "0 \<le> g" "g < setsize el" for g
    using del_frame [OF that(1), of k] assms(1) that by (simp add: loop_ok_def)
  moreover have "maxfd_ok ?el"
    using False assms(1,2) by (intro maxfd_ok_delete) (auto simp: loop_ok_def)
  moreover have "procs_ok ?el"
    using assms(1) by (auto simp: loop_ok_def procs_ok_def bit_and_iff)
  ultimately have "loop_ok tracks ?el ?k" by (auto simp: loop_ok_def)
  then show ?thesis unfolding eq by (auto simp del: if_split)
qed

end

section \<open>The two layers keep the interface\<close>

definition epoll_tracks :: "'a os_scheme \<Rightarrow> fd \<Rightarrow> u32 \<Rightarrow> bool" where
  "epoll_tracks k fd m \<longleftrightarrow>
     (if m = AE_NONE then interest k fd = None else interest k fd = Some (epoll_events m) \<and> open_fds k fd)"

interpretation epoll: multiplexer epoll_api epoll_tracks "\<lambda>_. True"
proof unfold_locales
  note defs = epoll_api_def epoll_aeApiAddEvent_def epoll_aeApiDelEvent_def epoll_tracks_def epoll_ctl_def next_fault_def Let_def
  fix k :: "'a os_scheme" and k' :: "'a os_scheme" and fd g :: fd and old m x :: u32 and ok
  show "epoll_tracks k fd old \<Longrightarrow> m \<noteq> AE_NONE \<Longrightarrow> aeApiAddEvent epoll_api old fd m k = (True, k') \<Longrightarrow>
      epoll_tracks k' fd (old OR m)"
    by (auto simp: defs AE_NONE_def or.commute or_eq_0_iff split: if_splits list.splits)
  show "epoll_tracks k fd old \<Longrightarrow> aeApiAddEvent epoll_api old fd m k = (False, k') \<Longrightarrow> epoll_tracks k' fd old"
    by (auto simp: defs split: if_splits list.splits)
  show "aeApiAddEvent epoll_api old fd m k = (ok, k') \<Longrightarrow> g \<noteq> fd \<Longrightarrow> epoll_tracks k g x \<Longrightarrow> epoll_tracks k' g x"
    by (auto simp: defs split: if_splits list.splits)
  show "epoll_tracks k fd old \<Longrightarrow> old \<noteq> AE_NONE \<Longrightarrow> epoll_tracks (aeApiDelEvent epoll_api old fd m k) fd (old AND NOT m)"
    by (auto simp: defs)
  show "g \<noteq> fd \<Longrightarrow> epoll_tracks k g x \<Longrightarrow> epoll_tracks (aeApiDelEvent epoll_api old fd m k) g x"
    by (auto simp: defs)
qed

definition select_tracks :: "'a select_state_scheme \<Rightarrow> fd \<Rightarrow> u32 \<Rightarrow> bool" where
  "select_tracks k fd m \<longleftrightarrow> (rfds k fd \<longleftrightarrow> bit m 0) \<and> (wfds k fd \<longleftrightarrow> bit m 1)"

interpretation sel: multiplexer select_api select_tracks "\<lambda>fd. fd < FD_SETSIZE"
  by unfold_locales
    (auto simp: select_api_def select_aeApiAddEvent_def select_aeApiDelEvent_def select_tracks_def Let_def
      mask_bits bit_or_iff bit_and_iff bit_not_iff split: if_splits)

section \<open>Programs on the loop\<close>

text \<open>
  The contract between the loop and a program: the handlers keep the invariant \<open>I\<close> whenever they
  are called for a registered event with the client data of the table, whatever else was
  reported, and a wait reports descriptors of the table. Then the main loop never crashes.
\<close>

locale loop_program =
  fixes loop_of :: "'w \<Rightarrow> 'p aeEventLoop"
    and call :: "'p \<Rightarrow> fd \<Rightarrow> addr \<Rightarrow> u32 \<Rightarrow> 'w \<Rightarrow> 'w option"
    and poll :: "'w \<Rightarrow> (fd \<times> u32) list \<times> 'w"
    and I :: "'w \<Rightarrow> bool"
    and N :: int
  assumes size: "I w \<Longrightarrow> setsize (loop_of w) = N"
    and procs: "I w \<Longrightarrow> procs_ok (loop_of w)"
    and read: "I w \<Longrightarrow> 0 \<le> fd \<Longrightarrow> fd < N \<Longrightarrow> bit (fe_mask (events (loop_of w) fd)) 0 \<Longrightarrow>
      rfileProc (events (loop_of w) fd) = Some p \<Longrightarrow>
      \<exists>w'. call p fd (clientData (events (loop_of w) fd)) m w = Some w' \<and> I w'"
    and "write": "I w \<Longrightarrow> 0 \<le> fd \<Longrightarrow> fd < N \<Longrightarrow> bit (fe_mask (events (loop_of w) fd)) 1 \<Longrightarrow>
      wfileProc (events (loop_of w) fd) = Some p \<Longrightarrow>
      \<exists>w'. call p fd (clientData (events (loop_of w) fd)) m w = Some w' \<and> I w'"
    and reports: "I w \<Longrightarrow> poll w = (fs, w1) \<Longrightarrow> I w1 \<and> (\<forall>(fd, m) \<in> set fs. 0 \<le> fd \<and> fd < N)"
begin

lemma and_bit: "x AND m AND AE_READABLE \<noteq> 0 \<Longrightarrow> bit x 0" "x AND m AND AE_WRITABLE \<noteq> 0 \<Longrightarrow> bit x 1"
  by (simp_all add: and.assoc [symmetric] mask_bits bit_and_iff)

lemma fire_readable_ok:
  assumes "I w" "0 \<le> fd" "fd < N"
  shows "\<exists>n w'. fire_readable loop_of call fd m b k w = Some (n, w') \<and> I w'"
proof (cases "b \<and> fe_mask (events (loop_of w) fd) AND m AND AE_READABLE \<noteq> 0")
  case True
  then have bit: "bit (fe_mask (events (loop_of w) fd)) 0" using and_bit by blast
  then obtain p where p: "rfileProc (events (loop_of w) fd) = Some p"
    using procs [OF assms(1)] size [OF assms(1)] assms(2,3) by (auto simp: procs_ok_def)
  obtain w' where "call p fd (clientData (events (loop_of w) fd)) m w = Some w'" "I w'"
    using read [OF assms bit p] by blast
  then show ?thesis using True p unfolding fire_readable_def call_proc_def Let_def by simp
qed (use assms(1) in \<open>auto simp: fire_readable_def Let_def\<close>)

lemma fire_writable_ok:
  assumes "I w" "0 \<le> fd" "fd < N"
  shows "\<exists>n w'. fire_writable loop_of call fd m k w = Some (n, w') \<and> I w'"
proof (cases "fe_mask (events (loop_of w) fd) AND m AND AE_WRITABLE \<noteq> 0 \<and>
    (k = 0 \<or> wfileProc (events (loop_of w) fd) \<noteq> rfileProc (events (loop_of w) fd))")
  case True
  then have bit: "bit (fe_mask (events (loop_of w) fd)) 1" using and_bit by blast
  then obtain p where p: "wfileProc (events (loop_of w) fd) = Some p"
    using procs [OF assms(1)] size [OF assms(1)] assms(2,3) by (auto simp: procs_ok_def)
  obtain w' where "call p fd (clientData (events (loop_of w) fd)) m w = Some w'" "I w'"
    using "write" [OF assms bit p] by blast
  then show ?thesis using True p unfolding fire_writable_def call_proc_def Let_def by simp
qed (use assms(1) in \<open>auto simp: fire_writable_def Let_def\<close>)

lemma process_fired_ok:
  assumes "I w" "0 \<le> fd" "fd < N"
  shows "\<exists>w'. process_fired loop_of call fd m w = Some w' \<and> I w'"
proof -
  let ?inv = "fe_mask (events (loop_of w) fd) AND AE_BARRIER \<noteq> 0"
  obtain n1 w1 where 1: "fire_readable loop_of call fd m (\<not> ?inv) 0 w = Some (n1, w1)" "I w1"
    using fire_readable_ok [OF assms] by blast
  obtain n2 w2 where 2: "fire_writable loop_of call fd m n1 w1 = Some (n2, w2)" "I w2"
    using fire_writable_ok [OF 1(2) assms(2,3)] by blast
  let ?b = "?inv \<and> (n2 = 0 \<or> wfileProc (events (loop_of w2) fd) \<noteq> rfileProc (events (loop_of w2) fd))"
  obtain n3 w3 where "fire_readable loop_of call fd m ?b n2 w2 = Some (n3, w3)" "I w3"
    using fire_readable_ok [OF 2(2) assms(2,3)] by blast
  then show ?thesis using 1 2 assms size [OF assms(1)] by (simp add: process_fired_def Let_def)
qed

lemma process_all_ok:
  assumes "I w" "\<forall>(fd, m) \<in> set fs. 0 \<le> fd \<and> fd < N"
  shows "\<exists>w'. process_all loop_of call fs n w = Some (n + length fs, w') \<and> I w'"
  using assms
proof (induction fs arbitrary: n w)
  case (Cons f fs)
  obtain fd m where f: "f = (fd, m)" by fastforce
  obtain w1 where w1: "process_fired loop_of call fd m w = Some w1" "I w1"
    using process_fired_ok [OF Cons.prems(1), of fd m] Cons.prems(2) f by auto
  then show ?case using Cons.IH [OF w1(2), of "n + 1"] Cons.prems(2) f by simp
qed simp

lemma process_events_ok:
  assumes "I w"
  shows "\<exists>n w'. aeProcessEvents loop_of call poll w = Some (n, w') \<and> I w'"
proof -
  obtain fs w1 where p: "poll w = (fs, w1)" by fastforce
  show ?thesis
    using process_all_ok [of w1 fs 0] reports [OF assms p] assms p by (auto simp: aeProcessEvents_def)
qed

lemma rounds_ok: "I w \<Longrightarrow> \<exists>w'. ae_rounds loop_of call poll n w = Some w' \<and> I w'"
proof (induction n arbitrary: w)
  case (Suc n)
  obtain k w1 where "aeProcessEvents loop_of call poll w = Some (k, w1)" "I w1"
    using process_events_ok [OF Suc.prems] by blast
  then show ?case using Suc.IH [of w1] Suc.prems by simp
qed simp

end

section \<open>Sequences of registrations\<close>

datatype 'p ae_op = Watch fd u32 'p addr | Unwatch fd u32

fun ae_step :: "'k ae_api \<Rightarrow> 'p ae_op \<Rightarrow> 'p aeEventLoop \<times> 'k \<Rightarrow> ('p aeEventLoop \<times> 'k) option" where
  "ae_step api (Watch fd m p d) (el, k) = map_option snd (aeCreateFileEvent api fd m p d el k)"
| "ae_step api (Unwatch fd m) (el, k) = aeDeleteFileEvent api fd m el k"

fun ae_run :: "'k ae_api \<Rightarrow> 'p ae_op list \<Rightarrow> 'p aeEventLoop \<times> 'k \<Rightarrow> ('p aeEventLoop \<times> 'k) option" where
  "ae_run api [] s = Some s"
| "ae_run api (x # xs) s = Option.bind (ae_step api x s) (ae_run api xs)"

fun ae_op_ok :: "(fd \<Rightarrow> bool) \<Rightarrow> 'p ae_op \<Rightarrow> bool" where
  "ae_op_ok valid (Watch fd m p d) \<longleftrightarrow> 0 \<le> fd \<and> valid fd \<and> m \<noteq> AE_NONE"
| "ae_op_ok valid (Unwatch fd m) \<longleftrightarrow> 0 \<le> fd \<and> valid fd"

context multiplexer
begin

lemma step_ok:
  assumes "loop_ok tracks el k" "ae_op_ok valid x"
  shows "\<exists>el' k'. ae_step api x (el, k) = Some (el', k') \<and> loop_ok tracks el' k' \<and> setsize el' = setsize el"
proof (cases x)
  case (Watch fd m p d)
  then show ?thesis using create_ok [OF assms(1), of m fd p d] assms(2) by auto
next
  case (Unwatch fd m)
  then show ?thesis using delete_ok [OF assms(1), of fd m] assms(2) by auto
qed

lemma run_ok:
  assumes "loop_ok tracks el k" "\<forall>x \<in> set xs. ae_op_ok valid x"
  shows "\<exists>el' k'. ae_run api xs (el, k) = Some (el', k') \<and> loop_ok tracks el' k' \<and> setsize el' = setsize el"
  using assms
proof (induction xs arbitrary: el k)
  case (Cons x xs)
  obtain el1 k1 where 1: "ae_step api x (el, k) = Some (el1, k1)" "loop_ok tracks el1 k1" "setsize el1 = setsize el"
    using step_ok [OF Cons.prems(1), of x] Cons.prems(2) by auto
  then show ?case using Cons.IH [OF 1(2)] Cons.prems(2) by auto
qed simp

end

lemma maxfd_Max:
  assumes "maxfd_ok el"
  shows "maxfd el = Max (insert (- 1) {fd. 0 \<le> fd \<and> fd < setsize el \<and> fe_mask (events el fd) \<noteq> AE_NONE})"
proof (rule Max_eqI [symmetric])
  show "finite (insert (- 1) {fd. 0 \<le> fd \<and> fd < setsize el \<and> fe_mask (events el fd) \<noteq> AE_NONE})"
    by (rule finite.insertI, rule finite_subset [of _ "{0..<setsize el}"]) auto
qed (use assms in \<open>auto simp: maxfd_ok_def not_le [symmetric] split: if_splits\<close>)

lemma fresh_loop_ok:
  assumes "aeCreateEventLoop epoll_api n k = (Some el, k1)"
  shows "loop_ok epoll_tracks el k1 \<and> setsize el = n"
  using assms
  by (auto simp: aeCreateEventLoop_def Let_def epoll_api_def epoll_aeApiCreate_def epoll_create_def next_fault_def
      loop_ok_def maxfd_ok_def procs_ok_def no_event_def epoll_tracks_def AE_NONE_def split: if_splits list.splits)

section \<open>Properties\<close>

text \<open>
  C15: After any sequence of registrations and removals on a fresh loop over epoll, whatever fails on the way,
  the kernel watches exactly the registered descriptors, each for exactly the events of its mask,
  and \<open>maxfd\<close> is the largest registered descriptor, or -1.
\<close>

theorem event_table_exact:
  assumes "aeCreateEventLoop epoll_api n k = (Some el, k1)" "\<forall>x \<in> set xs. ae_op_ok (\<lambda>_. True) x"
  shows "\<exists>el' k'. ae_run epoll_api xs (el, k1) = Some (el', k') \<and> setsize el' = n \<and>
    maxfd el' = Max (insert (- 1) {fd. 0 \<le> fd \<and> fd < n \<and> fe_mask (events el' fd) \<noteq> AE_NONE}) \<and>
    (\<forall>fd. 0 \<le> fd \<and> fd < n \<longrightarrow> interest k' fd =
       (if fe_mask (events el' fd) = AE_NONE then None else Some (epoll_events (fe_mask (events el' fd)))))"
proof -
  have fresh: "loop_ok epoll_tracks el k1" "setsize el = n" using fresh_loop_ok [OF assms(1)] by simp_all
  obtain el' k' where r: "ae_run epoll_api xs (el, k1) = Some (el', k')" "loop_ok epoll_tracks el' k'" "setsize el' = n"
    using epoll.run_ok [OF fresh(1) assms(2)] fresh(2) by auto
  have "maxfd_ok el'" using r(2) by (simp add: loop_ok_def)
  from maxfd_Max [OF this] show ?thesis
    using r by (auto simp: loop_ok_def epoll_tracks_def split: if_splits)
qed

lemma create_same_table:
  assumes "loop_ok epoll_tracks el k" "watch_faults k = []" "open_fds k fd" "0 \<le> fd"
  shows "\<exists>r el' k' s'. aeCreateFileEvent epoll_api fd m p d el k = Some (r, el', k') \<and>
    aeCreateFileEvent select_api fd m p d el s = Some (r, el', s') \<and> watch_faults k' = [] \<and> open_fds k' = open_fds k"
proof (cases "fd \<ge> setsize el")
  case True
  then show ?thesis using assms(2) by (simp add: aeCreateFileEvent_def)
next
  case False
  then have "epoll_tracks k fd (fe_mask (events el fd))" using assms(1,4) by (simp add: loop_ok_def)
  then obtain k' where k': "aeApiAddEvent epoll_api (fe_mask (events el fd)) fd m k = (True, k')"
    "watch_faults k' = []" "open_fds k' = open_fds k"
    using assms(2,3)
    by (auto simp: epoll_api_def epoll_aeApiAddEvent_def epoll_ctl_def epoll_tracks_def next_fault_def Let_def split: if_splits)
  obtain s' where s': "aeApiAddEvent select_api (fe_mask (events el fd)) fd m s = (True, s')"
    by (simp add: select_api_def select_aeApiAddEvent_def Let_def)
  show ?thesis unfolding aeCreateFileEvent_def Let_def using False assms(4) k' s' by simp
qed

lemma delete_same_table:
  assumes "watch_faults k = []" "0 \<le> fd"
  shows "\<exists>el' k' s'. aeDeleteFileEvent epoll_api fd m el k = Some (el', k') \<and>
    aeDeleteFileEvent select_api fd m el s = Some (el', s') \<and> watch_faults k' = [] \<and> open_fds k' = open_fds k"
proof -
  have "watch_faults (aeApiDelEvent epoll_api old fd x k) = []" "open_fds (aeApiDelEvent epoll_api old fd x k) = open_fds k"
    for old x
    using assms(1) by (auto simp: epoll_api_def epoll_aeApiDelEvent_def epoll_ctl_def Let_def)
  then show ?thesis unfolding aeDeleteFileEvent_def Let_def using assms by simp
qed

fun op_fd :: "'p ae_op \<Rightarrow> fd" where
  "op_fd (Watch fd m p d) = fd"
| "op_fd (Unwatch fd m) = fd"

lemma same_table:
  assumes "loop_ok epoll_tracks el k" "watch_faults k = []"
    and "\<forall>x \<in> set xs. ae_op_ok (\<lambda>fd. fd < FD_SETSIZE) x \<and> open_fds k (op_fd x)"
  shows "\<exists>el' k' s'. ae_run epoll_api xs (el, k) = Some (el', k') \<and> ae_run select_api xs (el, s) = Some (el', s')"
  using assms
proof (induction xs arbitrary: el k s)
  case (Cons x xs)
  have x: "ae_op_ok (\<lambda>_. True) x" "open_fds k (op_fd x)" using Cons.prems(3) by (cases x; auto)+
  obtain el1 k1 s1 where 1: "ae_step epoll_api x (el, k) = Some (el1, k1)" "ae_step select_api x (el, s) = Some (el1, s1)"
    "watch_faults k1 = []" "open_fds k1 = open_fds k"
  proof (cases x)
    case (Watch fd m p d)
    then show thesis using that create_same_table [OF Cons.prems(1,2), of fd m p d s] x by auto
  next
    case (Unwatch fd m)
    then show thesis using that delete_same_table [OF Cons.prems(2), of fd m el s] x by auto
  qed
  then have "loop_ok epoll_tracks el1 k1" using epoll.step_ok [OF Cons.prems(1) x(1)] by auto
  then show ?case using Cons.IH [of el1 k1 s1] Cons.prems(3) 1 by auto
qed simp

lemma ae_op_ok_True: "ae_op_ok valid x \<Longrightarrow> ae_op_ok (\<lambda>_. True) x"
  by (cases x) auto

lemma epoll_events_bits: "epoll_events m AND EPOLLIN \<noteq> 0 \<longleftrightarrow> bit m 0" "epoll_events m AND EPOLLOUT \<noteq> 0 \<longleftrightarrow> bit m 1"
  by (simp_all add: epoll_events_def Let_def mask_bits epoll_bits)

text \<open>What the two layers wait for, read off the mask.\<close>

lemma watched_bits:
  assumes "epoll_tracks k fd m" "select_tracks s fd m"
  shows "rfds s fd \<longleftrightarrow> m AND AE_READABLE \<noteq> 0" "wfds s fd \<longleftrightarrow> m AND AE_WRITABLE \<noteq> 0"
    "rfds s fd \<longleftrightarrow> (\<exists>ev. interest k fd = Some ev \<and> ev AND EPOLLIN \<noteq> 0)"
    "wfds s fd \<longleftrightarrow> (\<exists>ev. interest k fd = Some ev \<and> ev AND EPOLLOUT \<noteq> 0)"
  using assms
  by (auto simp: epoll_tracks_def select_tracks_def mask_bits epoll_events_bits AE_NONE_def split: if_splits)

text \<open>
  C14: The two multiplexing layers are interchangeable. Let a loop over epoll and a loop over select have the
  same table, which each layer watches. On open descriptors below 1,024, and as long as the kernel has
  memory, any sequence of registrations and removals leaves them again with the same table, and for
  every descriptor of it the two layers then wait for the same events, those of the mask in the table:
  the descriptor is in the set of select's readers exactly when the mask has the read bit and exactly when
  epoll's interest list has it with EPOLLIN, and the same for the writers and EPOLLOUT.
\<close>

theorem backends_equivalent:
  assumes "loop_ok epoll_tracks el k" "loop_ok select_tracks el s" "watch_faults k = []"
    and "\<forall>x \<in> set xs. ae_op_ok (\<lambda>fd. fd < FD_SETSIZE) x \<and> open_fds k (op_fd x)"
  shows "\<exists>el' k' s'. ae_run epoll_api xs (el, k) = Some (el', k') \<and> ae_run select_api xs (el, s) = Some (el', s') \<and>
    (\<forall>fd. 0 \<le> fd \<and> fd < setsize el \<longrightarrow>
       (rfds s' fd \<longleftrightarrow> fe_mask (events el' fd) AND AE_READABLE \<noteq> 0) \<and>
       (wfds s' fd \<longleftrightarrow> fe_mask (events el' fd) AND AE_WRITABLE \<noteq> 0) \<and>
       (rfds s' fd \<longleftrightarrow> (\<exists>ev. interest k' fd = Some ev \<and> ev AND EPOLLIN \<noteq> 0)) \<and>
       (wfds s' fd \<longleftrightarrow> (\<exists>ev. interest k' fd = Some ev \<and> ev AND EPOLLOUT \<noteq> 0)))"
proof -
  have ops: "\<forall>x \<in> set xs. ae_op_ok (\<lambda>_. True) x" "\<forall>x \<in> set xs. ae_op_ok (\<lambda>fd. fd < FD_SETSIZE) x"
    using assms(4) ae_op_ok_True by blast+
  obtain el' k' s' where r: "ae_run epoll_api xs (el, k) = Some (el', k')" "ae_run select_api xs (el, s) = Some (el', s')"
    using same_table [OF assms(1,3,4)] by blast
  have "loop_ok epoll_tracks el' k'" and size: "setsize el' = setsize el" and "loop_ok select_tracks el' s'"
    using epoll.run_ok [OF assms(1) ops(1)] sel.run_ok [OF assms(2) ops(2)] r by auto
  then have tracks: "epoll_tracks k' fd (fe_mask (events el' fd))" "select_tracks s' fd (fe_mask (events el' fd))"
    if "0 \<le> fd" "fd < setsize el" for fd
    using that by (simp_all add: loop_ok_def)
  show ?thesis
    using r watched_bits [OF tracks] by (intro exI [of _ el'] exI [of _ k'] exI [of _ s'] conjI allI impI) blast+
qed

lemma resize_refused:
  assumes "loop_ok tracks el k" "0 \<le> n" "n \<le> maxfd el"
  shows "aeResizeSetSize epoll_api n el k = (AE_ERR, el, k)"
proof -
  have "maxfd el < max 0 (setsize el)" using assms(1) by (auto simp: loop_ok_def maxfd_ok_def)
  then have "maxfd el < setsize el" using assms(2,3) by (simp add: max_def split: if_splits)
  then show ?thesis using assms(3) by (simp add: aeResizeSetSize_def)
qed

lemma resize_fits:
  assumes "loop_ok epoll_tracks el k" "\<forall>fd \<ge> setsize el. interest k fd = None" "0 \<le> n" "maxfd el < n"
  shows "\<exists>el'. aeResizeSetSize epoll_api n el k = (AE_OK, el', k) \<and> setsize el' = n \<and> loop_ok epoll_tracks el' k \<and>
    maxfd el' = maxfd el \<and> (\<forall>fd \<le> maxfd el. events el' fd = events el fd)"
proof -
  note ok = assms(1) [unfolded loop_ok_def maxfd_ok_def procs_ok_def]
  have none: "interest k fd = None" if "maxfd el < fd" "0 \<le> fd" for fd
  proof (cases "fd < setsize el")
    case True
    moreover have "epoll_tracks k fd (fe_mask (events el fd))" using assms(1) True that(2) by (simp add: loop_ok_def)
    ultimately show ?thesis using ok that(1) by (simp add: epoll_tracks_def)
  next
    case False
    then show ?thesis using assms(2) by simp
  qed
  show ?thesis
  proof (cases "n = setsize el")
    case False
    let ?el = "el\<lparr>setsize := n, events := (\<lambda>i. if maxfd el + 1 \<le> i \<and> i < n then (events el i)\<lparr>fe_mask := AE_NONE\<rparr>
                                   else events el i)\<rparr>"
    have eq: "aeResizeSetSize epoll_api n el k = (AE_OK, ?el, k)"
      using False assms(4) by (simp add: aeResizeSetSize_def epoll_api_def epoll_aeApiResize_def)
    have "maxfd_ok ?el" using ok assms(3,4) by (auto simp: maxfd_ok_def)
    moreover have "procs_ok ?el" using ok assms(4) by (auto simp: procs_ok_def AE_NONE_def)
    moreover have "epoll_tracks k fd (fe_mask (events ?el fd))" if "0 \<le> fd" "fd < n" for fd
      using ok none [of fd] that by (cases "maxfd el < fd") (auto simp: epoll_tracks_def)
    ultimately have "loop_ok epoll_tracks ?el k" by (simp add: loop_ok_def)
    then show ?thesis unfolding eq using assms(4) by simp
  qed (use assms in \<open>simp add: aeResizeSetSize_def\<close>)
qed

text \<open>
  A resizing is refused only when a registered descriptor does not fit, that is when the largest one is
  the requested size or more. The comment above the function promises a refusal already when it is the
  requested size minus one: for such a request the code answers AE_OK and shrinks the table so that its
  last slot is the one in use. When the resizing is accepted every registration is kept, the new slots are
  empty and the table still agrees with the kernel; when it is refused nothing has changed.
\<close>

theorem resize_accepts_last_slot:
  assumes "loop_ok epoll_tracks el k" "\<forall>fd \<ge> setsize el. interest k fd = None" "0 \<le> n"
  shows "(n < setsize el \<and> maxfd el = n - 1 \<longrightarrow> fst (aeResizeSetSize epoll_api n el k) = AE_OK) \<and>
    (maxfd el < n \<longrightarrow> (\<exists>el'. aeResizeSetSize epoll_api n el k = (AE_OK, el', k) \<and> setsize el' = n \<and>
       loop_ok epoll_tracks el' k \<and> maxfd el' = maxfd el \<and> (\<forall>fd \<le> maxfd el. events el' fd = events el fd))) \<and>
    (n \<le> maxfd el \<longrightarrow> aeResizeSetSize epoll_api n el k = (AE_ERR, el, k))"
  using resize_fits [OF assms] resize_refused [OF assms(1,3)] by auto

section \<open>Witnesses\<close>

definition demo_os :: os where
  "demo_os = \<lparr>pending = [], blocks = [], bad_free = False, zeroed = [], open_fds = (\<lambda>fd. fd \<in> {3, 5, 7}), interest = (\<lambda>_. None), watch_faults = [], ready = []\<rparr>"

definition demo_loop :: "nat aeEventLoop" where
  "demo_loop = \<lparr>maxfd = - 1, setsize = 16, events = (\<lambda>_. no_event), stop = False\<rparr>"

definition demo_ops :: "nat ae_op list" where
  "demo_ops = [Watch 5 AE_READABLE 0 0, Watch 7 AE_WRITABLE 1 0, Unwatch 7 AE_WRITABLE]"

lemma demo_loop_created: "aeCreateEventLoop epoll_api 16 demo_os = (Some demo_loop, demo_os)"
  by (simp add: aeCreateEventLoop_def epoll_api_def epoll_aeApiCreate_def epoll_create_def next_fault_def demo_os_def demo_loop_def)

lemma demo_ops_ok: "\<forall>x \<in> set demo_ops. ae_op_ok (\<lambda>_. True) x"
  by (simp add: demo_ops_def ae_masks)

lemma event_table_exact_witness: "\<exists>el' k'. ae_run epoll_api demo_ops (demo_loop, demo_os) = Some (el', k') \<and>
    maxfd el' = Max (insert (- 1) {fd. 0 \<le> fd \<and> fd < 16 \<and> fe_mask (events el' fd) \<noteq> AE_NONE})"
  using event_table_exact [OF demo_loop_created demo_ops_ok] by blast

lemma backends_equivalent_witness:
  "\<exists>el' k' s'. ae_run epoll_api demo_ops (demo_loop, demo_os) = Some (el', k') \<and>
    ae_run select_api demo_ops (demo_loop, \<lparr>rfds = (\<lambda>_. False), wfds = (\<lambda>_. False)\<rparr>) = Some (el', s') \<and>
    (wfds s' 7 \<longleftrightarrow> (\<exists>ev. interest k' 7 = Some ev \<and> ev AND EPOLLOUT \<noteq> 0)) \<and>
    (rfds s' 5 \<longleftrightarrow> (\<exists>ev. interest k' 5 = Some ev \<and> ev AND EPOLLIN \<noteq> 0))"
proof -
  have "loop_ok epoll_tracks demo_loop demo_os" using fresh_loop_ok [OF demo_loop_created] by simp
  moreover have "loop_ok select_tracks demo_loop \<lparr>rfds = (\<lambda>_. False), wfds = (\<lambda>_. False)\<rparr>"
    by (simp add: loop_ok_def maxfd_ok_def procs_ok_def select_tracks_def demo_loop_def no_event_def AE_NONE_def)
  moreover have "watch_faults demo_os = []" "setsize demo_loop = 16"
    "\<forall>x \<in> set demo_ops. ae_op_ok (\<lambda>fd. fd < FD_SETSIZE) x \<and> open_fds demo_os (op_fd x)"
    by (simp_all add: demo_os_def demo_ops_def demo_loop_def ae_masks FD_SETSIZE_def)
  ultimately obtain el' k' s' where r: "ae_run epoll_api demo_ops (demo_loop, demo_os) = Some (el', k')"
    "ae_run select_api demo_ops (demo_loop, \<lparr>rfds = (\<lambda>_. False), wfds = (\<lambda>_. False)\<rparr>) = Some (el', s')"
    "\<forall>fd. 0 \<le> fd \<and> fd < 16 \<longrightarrow> (rfds s' fd \<longleftrightarrow> (\<exists>ev. interest k' fd = Some ev \<and> ev AND EPOLLIN \<noteq> 0)) \<and>
       (wfds s' fd \<longleftrightarrow> (\<exists>ev. interest k' fd = Some ev \<and> ev AND EPOLLOUT \<noteq> 0))"
    using backends_equivalent [of demo_loop demo_os "\<lparr>rfds = (\<lambda>_. False), wfds = (\<lambda>_. False)\<rparr>" demo_ops] by metis
  then show ?thesis using r(3) [THEN spec, of 7] r(3) [THEN spec, of 5]
    by (intro exI [of _ el'] exI [of _ k'] exI [of _ s']) auto
qed

text \<open>A loop with descriptor 5 in use, shrunk to 6 slots: the comment promises AE_ERR.\<close>

definition small_loop :: "nat aeEventLoop" where
  "small_loop = demo_loop\<lparr>maxfd := 5, events := (\<lambda>fd. if fd = 5 then no_event\<lparr>fe_mask := AE_READABLE, rfileProc := Some 0\<rparr> else no_event)\<rparr>"

definition small_os :: os where
  "small_os = demo_os\<lparr>interest := (\<lambda>fd. if fd = 5 then Some EPOLLIN else None)\<rparr>"

lemma resize_accepts_last_slot_witness: "fst (aeResizeSetSize epoll_api 6 small_loop small_os) = AE_OK"
proof -
  have ev: "epoll_events AE_READABLE = EPOLLIN" by (simp add: epoll_events_def Let_def ae_masks)
  have ok: "loop_ok epoll_tracks small_loop small_os"
    by (simp add: loop_ok_def maxfd_ok_def procs_ok_def epoll_tracks_def small_loop_def small_os_def demo_loop_def demo_os_def
        no_event_def ae_masks ev [unfolded ae_masks])
  have "\<forall>fd \<ge> setsize small_loop. interest small_os fd = None" "(0 :: int) \<le> 6" "6 < setsize small_loop" "maxfd small_loop = 6 - 1"
    by (simp_all add: small_os_def small_loop_def demo_loop_def)
  then show ?thesis using resize_accepts_last_slot [OF ok, of 6] by blast
qed

end
