(* ===== verification/Ae_Time.thy ===== *)
theory Ae_Time
  imports Ae "HOL-Library.Signed_Division"
begin

text \<open>
  The time events of the event loop (\<^verbatim>\<open>src/src/ae.c\<close>): a doubly linked list in the heap, searched and
  processed from its head. The loop never calls \<^verbatim>\<open>processTimeEvents\<close>, which is commented out in its
  dispatch; the functions are modelled as they are. The readings of the clock are a parameter, one per
  call. Allocation does not fail (\<^verbatim>\<open>zmalloc\<close> ends the process). A loop over a list that is not
  terminated does not return.
\<close>

section \<open>Data\<close>

definition AE_DELETED_EVENT_ID :: int where "AE_DELETED_EVENT_ID = - 1"
definition AE_NOMORE :: int where "AE_NOMORE = - 1"
definition sizeof_aeTimeEvent :: nat where "sizeof_aeTimeEvent = 64"

record 'p aeTimeEvent =
  te_id :: int
  when_sec :: int
  when_ms :: int
  timeProc :: 'p
  finalizerProc :: "'p option"
  te_clientData :: addr
  te_prev :: addr
  te_next :: addr

record 'p timers = libc +
  te :: "addr \<Rightarrow> 'p aeTimeEvent"
  timeEventHead :: addr
  timeEventNextId :: int
  lastTime :: int
  readings :: nat

text \<open>The clock gives seconds and microseconds.\<close>

type_synonym clock = "nat \<Rightarrow> int \<times> int"

definition aeGetTime :: "clock \<Rightarrow> ('p, 'a) timers_scheme \<Rightarrow> (int \<times> int) \<times> ('p, 'a) timers_scheme" where
  "aeGetTime C w = (case C (readings w) of (sec, usec) \<Rightarrow> ((sec, usec sdiv 1000), w\<lparr>readings := readings w + 1\<rparr>))"

definition aeAddMillisecondsToNow :: "clock \<Rightarrow> int \<Rightarrow> ('p, 'a) timers_scheme \<Rightarrow> (int \<times> int) \<times> ('p, 'a) timers_scheme" where
  "aeAddMillisecondsToNow C milliseconds w =
     (let ((cur_sec, cur_ms), w1) = aeGetTime C w;
          sec = cur_sec + milliseconds sdiv 1000;
          ms = cur_ms + milliseconds smod 1000
      in (if ms \<ge> 1000 then (sec + 1, ms - 1000) else (sec, ms), w1))"

section \<open>Creating and deleting\<close>

definition aeCreateTimeEvent ::
  "clock \<Rightarrow> int \<Rightarrow> 'p \<Rightarrow> addr \<Rightarrow> 'p option \<Rightarrow> ('p, 'a) timers_scheme \<Rightarrow> int \<times> ('p, 'a) timers_scheme" where
  "aeCreateTimeEvent C milliseconds proc d fin w =
     (let i = timeEventNextId w;
          (a, w1) = c_malloc sizeof_aeTimeEvent (w\<lparr>timeEventNextId := i + 1\<rparr>)
      in if a = NULL then (AE_ERR, w1)
         else
           let ((sec, ms), w2) = aeAddMillisecondsToNow C milliseconds w1;
               h = timeEventHead w2;
               ev = \<lparr>te_id = i, when_sec = sec, when_ms = ms, timeProc = proc, finalizerProc = fin, te_clientData = d,
                     te_prev = NULL, te_next = h\<rparr>;
               m1 = (te w2)(a := ev);
               m2 = (if h \<noteq> NULL then m1(h := (m1 h)\<lparr>te_prev := a\<rparr>) else m1)
           in (i, w2\<lparr>te := m2, timeEventHead := a\<rparr>))"

partial_function (option) delete_loop :: "int \<Rightarrow> addr \<Rightarrow> ('p, 'a) timers_scheme \<Rightarrow> (int \<times> ('p, 'a) timers_scheme) option" where
  "delete_loop i a w =
     (if a = NULL then Some (AE_ERR, w)
      else if te_id (te w a) = i then Some (AE_OK, w\<lparr>te := (te w)(a := (te w a)\<lparr>te_id := AE_DELETED_EVENT_ID\<rparr>)\<rparr>)
      else delete_loop i (te_next (te w a)) w)"

definition aeDeleteTimeEvent :: "int \<Rightarrow> ('p, 'a) timers_scheme \<Rightarrow> (int \<times> ('p, 'a) timers_scheme) option" where
  "aeDeleteTimeEvent i w = delete_loop i (timeEventHead w) w"

section \<open>The nearest timer\<close>

definition earlier :: "'p aeTimeEvent \<Rightarrow> 'p aeTimeEvent \<Rightarrow> bool" where
  "earlier x y \<longleftrightarrow> when_sec x < when_sec y \<or> when_sec x = when_sec y \<and> when_ms x < when_ms y"

partial_function (option) nearest_loop :: "addr \<Rightarrow> addr \<Rightarrow> ('p, 'a) timers_scheme \<Rightarrow> addr option" where
  "nearest_loop a nearest w =
     (if a = NULL then Some nearest
      else nearest_loop (te_next (te w a)) (if nearest = NULL \<or> earlier (te w a) (te w nearest) then a else nearest) w)"

definition aeSearchNearestTimer :: "('p, 'a) timers_scheme \<Rightarrow> addr option" where
  "aeSearchNearestTimer w = nearest_loop (timeEventHead w) NULL w"

section \<open>Processing\<close>

text \<open>When the clock has gone back, every event is due.\<close>

partial_function (option) skew_loop :: "addr \<Rightarrow> ('p, 'a) timers_scheme \<Rightarrow> ('p, 'a) timers_scheme option" where
  "skew_loop a w =
     (if a = NULL then Some w
      else skew_loop (te_next (te w a)) (w\<lparr>te := (te w)(a := (te w a)\<lparr>when_sec := 0\<rparr>)\<rparr>))"

definition unlink_event :: "addr \<Rightarrow> ('p, 'a) timers_scheme \<Rightarrow> ('p, 'a) timers_scheme" where
  "unlink_event a w =
     (let nx = te_next (te w a); pv = te_prev (te w a);
          w1 = (if pv \<noteq> NULL then w\<lparr>te := (te w)(pv := (te w pv)\<lparr>te_next := nx\<rparr>)\<rparr> else w\<lparr>timeEventHead := nx\<rparr>)
      in if nx \<noteq> NULL then w1\<lparr>te := (te w1)(nx := (te w1 nx)\<lparr>te_prev := te_prev (te w1 a)\<rparr>)\<rparr> else w1)"

text \<open>\<open>call\<close> is what the procedures do, with their result, and \<open>final\<close> what the finalizers do.\<close>

definition time_step ::
  "clock \<Rightarrow> ('p \<Rightarrow> int \<Rightarrow> addr \<Rightarrow> ('p, 'a) timers_scheme \<Rightarrow> int \<times> ('p, 'a) timers_scheme) \<Rightarrow>
   ('p \<Rightarrow> addr \<Rightarrow> ('p, 'a) timers_scheme \<Rightarrow> ('p, 'a) timers_scheme) \<Rightarrow>
   int \<Rightarrow> addr \<Rightarrow> nat \<Rightarrow> ('p, 'a) timers_scheme \<Rightarrow> addr \<times> nat \<times> ('p, 'a) timers_scheme" where
  "time_step C call final maxId a processed w =
     (if te_id (te w a) = AE_DELETED_EVENT_ID then
        let nx = te_next (te w a);
            w1 = unlink_event a w;
            w2 = (case finalizerProc (te w1 a) of None \<Rightarrow> w1 | Some f \<Rightarrow> final f (te_clientData (te w1 a)) w1)
        in (nx, processed, c_free a w2)
      else if te_id (te w a) > maxId then (te_next (te w a), processed, w)
      else
        let ((now_sec, now_ms), w1) = aeGetTime C w
        in if now_sec > when_sec (te w1 a) \<or> now_sec = when_sec (te w1 a) \<and> now_ms \<ge> when_ms (te w1 a) then
             let (retval, w2) = call (timeProc (te w1 a)) (te_id (te w1 a)) (te_clientData (te w1 a)) w1;
                 w4 = (if retval \<noteq> AE_NOMORE
                       then let ((sec, ms), w3) = aeAddMillisecondsToNow C retval w2
                            in w3\<lparr>te := (te w3)(a := (te w3 a)\<lparr>when_sec := sec, when_ms := ms\<rparr>)\<rparr>
                       else w2\<lparr>te := (te w2)(a := (te w2 a)\<lparr>te_id := AE_DELETED_EVENT_ID\<rparr>)\<rparr>)
             in (te_next (te w4 a), processed + 1, w4)
           else (te_next (te w1 a), processed, w1))"

partial_function (option) time_loop ::
  "clock \<Rightarrow> ('p \<Rightarrow> int \<Rightarrow> addr \<Rightarrow> ('p, 'a) timers_scheme \<Rightarrow> int \<times> ('p, 'a) timers_scheme) \<Rightarrow>
   ('p \<Rightarrow> addr \<Rightarrow> ('p, 'a) timers_scheme \<Rightarrow> ('p, 'a) timers_scheme) \<Rightarrow>
   int \<Rightarrow> addr \<Rightarrow> nat \<Rightarrow> ('p, 'a) timers_scheme \<Rightarrow> (nat \<times> ('p, 'a) timers_scheme) option" where
  "time_loop C call final maxId a processed w =
     (if a = NULL then Some (processed, w)
      else case time_step C call final maxId a processed w of (a1, n1, w1) \<Rightarrow> time_loop C call final maxId a1 n1 w1)"

definition processTimeEvents ::
  "clock \<Rightarrow> ('p \<Rightarrow> int \<Rightarrow> addr \<Rightarrow> ('p, 'a) timers_scheme \<Rightarrow> int \<times> ('p, 'a) timers_scheme) \<Rightarrow>
   ('p \<Rightarrow> addr \<Rightarrow> ('p, 'a) timers_scheme \<Rightarrow> ('p, 'a) timers_scheme) \<Rightarrow>
   ('p, 'a) timers_scheme \<Rightarrow> (nat \<times> ('p, 'a) timers_scheme) option" where
  "processTimeEvents C call final w =
     (let now = fst (C (readings w)); w1 = w\<lparr>readings := readings w + 1\<rparr>
      in Option.bind (if now < lastTime w1 then skew_loop (timeEventHead w1) w1 else Some w1)
           (\<lambda>w2. time_loop C call final (timeEventNextId w2 - 1) (timeEventHead w2) 0 (w2\<lparr>lastTime := now\<rparr>)))"

section \<open>Waiting for one descriptor\<close>

definition POLLIN :: u32 where "POLLIN = 1"
definition POLLOUT :: u32 where "POLLOUT = 4"
definition POLLERR :: u32 where "POLLERR = 8"
definition POLLHUP :: u32 where "POLLHUP = 16"

text \<open>\<open>poll_fd\<close> is \<^verbatim>\<open>poll\<close> on one descriptor: its result and the events it reports.\<close>

definition aeWait :: "(fd \<Rightarrow> u32 \<Rightarrow> int \<Rightarrow> int \<times> u32) \<Rightarrow> fd \<Rightarrow> u32 \<Rightarrow> int \<Rightarrow> int" where
  "aeWait poll_fd fd m milliseconds =
     (let e0 = 0;
          e1 = (if m AND AE_READABLE \<noteq> 0 then e0 OR POLLIN else e0);
          e2 = (if m AND AE_WRITABLE \<noteq> 0 then e1 OR POLLOUT else e1);
          (retval, revents) = poll_fd fd e2 milliseconds
      in if retval = 1 then
           let r0 = (0 :: u32);
               r1 = (if revents AND POLLIN \<noteq> 0 then r0 OR AE_READABLE else r0);
               r2 = (if revents AND POLLOUT \<noteq> 0 then r1 OR AE_WRITABLE else r1);
               r3 = (if revents AND POLLERR \<noteq> 0 then r2 OR AE_WRITABLE else r2);
               r4 = (if revents AND POLLHUP \<noteq> 0 then r3 OR AE_WRITABLE else r3)
           in sint r4
         else retval)"

section \<open>The list of time events\<close>

abbreviation tnext :: "('p, 'a) timers_scheme \<Rightarrow> addr \<Rightarrow> addr" where "tnext w \<equiv> (\<lambda>x. te_next (te w x))"

fun linked_back :: "(addr \<Rightarrow> addr) \<Rightarrow> addr \<Rightarrow> addr list \<Rightarrow> bool" where
  "linked_back pv p [] \<longleftrightarrow> True"
| "linked_back pv p (x # xs) \<longleftrightarrow> pv x = p \<and> linked_back pv x xs"

definition timer_list :: "('p, 'a) timers_scheme \<Rightarrow> addr list \<Rightarrow> bool" where
  "timer_list w xs \<longleftrightarrow> path (tnext w) (timeEventHead w) xs \<and> linked_back (\<lambda>x. te_prev (te w x)) NULL xs \<and>
     distinct xs \<and> set xs \<subseteq> set (blocks w) \<and> distinct (map (\<lambda>x. te_id (te w x)) (filter (\<lambda>x. te_id (te w x) \<noteq> AE_DELETED_EVENT_ID) xs)) \<and>
     (\<forall>x \<in> set xs. te_id (te w x) < timeEventNextId w) \<and> 0 \<le> timeEventNextId w"

lemma linked_back_cong: "(\<And>x. x \<in> set xs \<Longrightarrow> pv x = pv' x) \<Longrightarrow> linked_back pv p xs = linked_back pv' p xs"
  by (induction xs arbitrary: p) auto

end
