(* ===== verification/Ae_Time_Props.thy ===== *)
theory Ae_Time_Props
  imports Ae_Time "HOL-Library.Multiset"
begin

text \<open>
  The time events: the list stays well linked, the nearest timer is found, and a pass fires what is due.
  The procedures and finalizers of a pass are ones that record their calls, so that what was called, with
  which arguments and in which order is part of the result.
\<close>

section \<open>Taking an event out of the list\<close>

lemma path_unlink:
  assumes "path nx p (ys @ x # xs)" "distinct (ys @ x # xs)"
  shows "path (if ys = [] then nx else nx(last ys := nx x)) (if ys = [] then nx x else p) (ys @ xs)"
  using assms
proof (induction ys arbitrary: p)
  case (Cons y ys)
  show ?case
  proof (cases "ys = []")
    case True
    then have "path (nx(y := nx x)) (nx x) xs" using Cons.prems by (subst path_upd) auto
    then show ?thesis using Cons.prems True by (simp del: fun_upd_apply add: fun_upd_same)
  next
    case False
    then have "last ys \<noteq> y" using Cons.prems(2) last_in_set [OF False] by auto
    then show ?thesis using Cons False by simp
  qed
qed simp

lemma linked_back_unlink:
  assumes "linked_back pv p (ys @ x # xs)" "distinct (ys @ x # xs)"
  shows "linked_back (if xs = [] then pv else pv(hd xs := pv x)) p (ys @ xs)"
  using assms
proof (induction ys arbitrary: p)
  case Nil
  then show ?case
    by (cases xs) (auto intro: linked_back_cong [THEN iffD1, rotated])
next
  case (Cons y ys)
  then have "xs \<noteq> [] \<Longrightarrow> hd xs \<noteq> y" by (auto dest: hd_in_set)
  then show ?case using Cons by auto
qed

lemma linked_back_at: "linked_back pv p (ys @ x # xs) \<Longrightarrow> pv x = (if ys = [] then p else last ys)"
  by (induction ys arbitrary: p) auto

lemma path_at: "path nx p (ys @ x # xs) \<Longrightarrow> nx x = (if xs = [] then NULL else hd xs)"
  by (induction ys arbitrary: p) (cases xs; auto)+

abbreviation live :: "('p, 'a) timers_scheme \<Rightarrow> addr \<Rightarrow> bool" where
  "live w x \<equiv> te_id (te w x) \<noteq> AE_DELETED_EVENT_ID"

lemma unlink_list:
  assumes "timer_list w (ys @ x # xs)"
  shows "timer_list (c_free x (unlink_event x w)) (ys @ xs)"
    and "te_id (te (unlink_event x w) y) = te_id (te w y)" "when_sec (te (unlink_event x w) y) = when_sec (te w y)"
      "when_ms (te (unlink_event x w) y) = when_ms (te w y)" "timeProc (te (unlink_event x w) y) = timeProc (te w y)"
      "te_clientData (te (unlink_event x w) y) = te_clientData (te w y)"
      "finalizerProc (te (unlink_event x w) y) = finalizerProc (te w y)"
    and "c_free x (unlink_event x w) = (unlink_event x w)\<lparr>blocks := remove1 x (blocks w)\<rparr>" "x \<in> set (blocks w)"
proof -
  have P: "path (tnext w) (timeEventHead w) (ys @ x # xs)" "linked_back (\<lambda>x. te_prev (te w x)) NULL (ys @ x # xs)"
    "distinct (ys @ x # xs)" "set (ys @ x # xs) \<subseteq> set (blocks w)"
    using assms by (simp_all add: timer_list_def)
  have no: "NULL \<notin> set (ys @ x # xs)" using path_no_NULL [OF P(1)] .
  have pv: "te_prev (te w x) = (if ys = [] then NULL else last ys)" using linked_back_at [OF P(2)] .
  have nx: "te_next (te w x) = (if xs = [] then NULL else hd xs)" using path_at [OF P(1)] .
  have ends: "ys \<noteq> [] \<Longrightarrow> last ys \<noteq> NULL \<and> last ys \<noteq> x" "xs \<noteq> [] \<Longrightarrow> hd xs \<noteq> NULL \<and> hd xs \<noteq> x"
    "ys \<noteq> [] \<Longrightarrow> xs \<noteq> [] \<Longrightarrow> last ys \<noteq> hd xs"
    using no P(3) by (auto dest: last_in_set hd_in_set)
  let ?u = "unlink_event x w"
  have u: "tnext ?u = (if ys = [] then tnext w else (tnext w)(last ys := te_next (te w x)))"
    "(\<lambda>x. te_prev (te ?u x)) = (if xs = [] then (\<lambda>x. te_prev (te w x)) else (\<lambda>x. te_prev (te w x))(hd xs := te_prev (te w x)))"
    "timeEventHead ?u = (if ys = [] then te_next (te w x) else timeEventHead w)" "blocks ?u = blocks w"
    "timeEventNextId ?u = timeEventNextId w"
    using ends by (cases "ys = []"; cases "xs = []"; simp add: unlink_event_def pv nx fun_eq_iff Let_def)+
  show same: "te_id (te ?u y) = te_id (te w y)" "when_sec (te ?u y) = when_sec (te w y)"
    "when_ms (te ?u y) = when_ms (te w y)" "timeProc (te ?u y) = timeProc (te w y)"
    "te_clientData (te ?u y) = te_clientData (te w y)" "finalizerProc (te ?u y) = finalizerProc (te w y)" for y
    by (auto simp: unlink_event_def Let_def)
  show "x \<in> set (blocks w)" using P(4) by simp
  show free: "c_free x ?u = ?u\<lparr>blocks := remove1 x (blocks w)\<rparr>"
    using P(4) no u(4) by (simp add: c_free_def)
  have "path (tnext ?u) (timeEventHead ?u) (ys @ xs)" unfolding u(1,3) by (rule path_unlink [OF P(1,3)])
  moreover have "linked_back (\<lambda>x. te_prev (te ?u x)) NULL (ys @ xs)"
    unfolding u(2) by (rule linked_back_unlink [OF P(2,3)])
  moreover have "set (ys @ xs) \<subseteq> set (remove1 x (blocks w))"
    using P(3,4) by (auto intro: in_set_remove1 [THEN iffD2])
  moreover have "distinct (map (\<lambda>x. te_id (te w x)) (filter (live w) (ys @ xs)))"
    using assms by (auto simp: timer_list_def split: if_splits)
  ultimately show "timer_list (c_free x ?u) (ys @ xs)"
    using assms P(3) u(5) by (simp add: timer_list_def free same)
qed

section \<open>The nearest timer\<close>

text \<open>The time an event is due at, in milliseconds.\<close>

definition due_ms :: "'p aeTimeEvent \<Rightarrow> int" where
  "due_ms e = when_sec e * 1000 + when_ms e"

lemma earlier_due:
  assumes "when_ms x \<in> {0..<1000}" "when_ms y \<in> {0..<1000}"
  shows "earlier x y \<longleftrightarrow> due_ms x < due_ms y"
  using assms by (auto simp: earlier_def due_ms_def)

text \<open>The first of the earliest: later than no event, and before it in the list only later ones.\<close>

definition first_earliest :: "('p, 'a) timers_scheme \<Rightarrow> addr list \<Rightarrow> addr \<Rightarrow> bool" where
  "first_earliest w xs n \<longleftrightarrow> (\<exists>ys zs. xs = ys @ n # zs \<and> (\<forall>y \<in> set ys. due_ms (te w n) < due_ms (te w y)) \<and>
     (\<forall>z \<in> set zs. due_ms (te w n) \<le> due_ms (te w z)))"

lemma first_earliest_start: "first_earliest w [x] x"
  by (auto simp: first_earliest_def intro!: exI [of _ "[]"])

lemma first_earliest_snoc:
  assumes "first_earliest w xs n"
  shows "first_earliest w (xs @ [x]) (if due_ms (te w x) < due_ms (te w n) then x else n)"
proof -
  obtain ys zs where xs: "xs = ys @ n # zs" "\<forall>y \<in> set ys. due_ms (te w n) < due_ms (te w y)" "\<forall>z \<in> set zs. due_ms (te w n) \<le> due_ms (te w z)"
    using assms by (auto simp: first_earliest_def)
  then show ?thesis
  proof (cases "due_ms (te w x) < due_ms (te w n)")
    case True
    then have "\<forall>y \<in> set xs. due_ms (te w x) < due_ms (te w y)"
      using xs by fastforce
    then show ?thesis using True unfolding first_earliest_def by (intro exI [of _ xs] exI [of _ "[]"]) simp
  next
    case False
    then show ?thesis
      using xs unfolding first_earliest_def by (intro exI [of _ ys] exI [of _ "zs @ [x]"]) auto
  qed
qed

lemma nearest_loop_scan:
  assumes "path (tnext w) a xs" "b \<noteq> NULL" "first_earliest w ys b" "\<forall>x \<in> insert b (set xs). when_ms (te w x) \<in> {0..<1000}"
  shows "\<exists>n. nearest_loop a b w = Some n \<and> first_earliest w (ys @ xs) n"
  using assms
proof (induction xs arbitrary: a b ys)
  case Nil
  then show ?case by (subst nearest_loop.simps) simp
next
  case (Cons x xs)
  let ?b = "if due_ms (te w x) < due_ms (te w b) then x else b"
  have b: "(if earlier (te w x) (te w b) then x else b) = ?b" using earlier_due [of "te w x" "te w b"] Cons.prems(4) by simp
  have "?b \<noteq> NULL" "\<forall>y \<in> insert ?b (set xs). when_ms (te w y) \<in> {0..<1000}" using Cons.prems by auto
  moreover have "path (tnext w) (te_next (te w x)) xs" using Cons.prems(1) by simp
  ultimately obtain n where "nearest_loop (te_next (te w x)) ?b w = Some n" "first_earliest w ((ys @ [x]) @ xs) n"
    using Cons.IH [OF _ _ first_earliest_snoc [OF Cons.prems(3)]] by blast
  moreover have "nearest_loop a b w = nearest_loop (te_next (te w x)) ?b w"
    using Cons.prems(1,2) b by (subst nearest_loop.simps) auto
  ultimately show ?case by simp
qed

lemma nearest_timer:
  assumes "timer_list w xs" "\<forall>x \<in> set xs. when_ms (te w x) \<in> {0..<1000}"
  shows "\<exists>n. aeSearchNearestTimer w = Some n \<and> (if xs = [] then n = NULL else first_earliest w xs n)"
proof (cases xs)
  case Nil
  then show ?thesis using assms
    by (auto simp: timer_list_def aeSearchNearestTimer_def nearest_loop.simps)
next
  case (Cons y ys)
  then have p: "timeEventHead w = y" "y \<noteq> NULL" "path (tnext w) (te_next (te w y)) ys"
    using assms by (auto simp: timer_list_def)
  have "aeSearchNearestTimer w = nearest_loop (te_next (te w y)) y w"
    using p by (subst aeSearchNearestTimer_def, subst nearest_loop.simps) simp
  then show ?thesis using nearest_loop_scan [OF p(3,2) first_earliest_start] assms(2) Cons by auto
qed

section \<open>Creating and deleting\<close>

lemma create_timer:
  fixes w :: "('p, 'a) timers_scheme"
  assumes "timer_list w xs" "pending w = a # rest" "a \<noteq> NULL" "a \<notin> set (blocks w)"
  obtains w' where "aeCreateTimeEvent C ms proc d fin w = (timeEventNextId w, w')" "timer_list w' (a # xs)"
    "te_id (te w' a) = timeEventNextId w" "timeProc (te w' a) = proc"
    "fst (aeAddMillisecondsToNow C ms w) = (when_sec (te w' a), when_ms (te w' a))"
proof -
  let ?i = "timeEventNextId w" and ?h = "timeEventHead w"
  obtain sec m where t: "fst (aeAddMillisecondsToNow C ms w) = (sec, m)" by (cases "fst (aeAddMillisecondsToNow C ms w)")
  let ?ev = "\<lparr>te_id = ?i, when_sec = sec, when_ms = m, timeProc = proc, finalizerProc = fin, te_clientData = d,
      te_prev = NULL, te_next = ?h\<rparr>"
  let ?m = "if ?h \<noteq> NULL then ((te w)(a := ?ev))(?h := (((te w)(a := ?ev)) ?h)\<lparr>te_prev := a\<rparr>) else (te w)(a := ?ev)"
  let ?w = "w\<lparr>timeEventNextId := ?i + 1, pending := rest, blocks := a # blocks w, readings := readings w + 1, te := ?m, timeEventHead := a\<rparr>"
  have now: "aeAddMillisecondsToNow C ms v = ((sec, m), v\<lparr>readings := readings v + 1\<rparr>)" if "readings v = readings w" for v :: "('p, 'a) timers_scheme"
    using t that by (auto simp: aeAddMillisecondsToNow_def aeGetTime_def Let_def split: prod.splits if_splits)
  define w' where "w' = ?w"
  have run: "aeCreateTimeEvent C ms proc d fin w = (?i, w')"
    using assms(2,3) by (simp add: aeCreateTimeEvent_def c_malloc_def now Let_def w'_def)
  have xs: "path (tnext w) ?h xs" "linked_back (\<lambda>x. te_prev (te w x)) NULL xs" "a \<notin> set xs"
    "?h = (if xs = [] then NULL else hd xs)"
    using assms(1,4) by (cases xs; auto simp: timer_list_def)+
  then have h: "?h \<noteq> a" using assms(3) by (auto dest: hd_in_set)
  have w': "tnext w' x = (if x = a then ?h else te_next (te w x))"
    "te_prev (te w' x) = (if x = a then NULL else if x = ?h \<and> ?h \<noteq> NULL then a else te_prev (te w x))"
    "te_id (te w' x) = (if x = a then ?i else te_id (te w x))" "timeEventHead w' = a" "timeEventNextId w' = ?i + 1"
    "blocks w' = a # blocks w" "timeProc (te w' a) = proc" "when_sec (te w' a) = sec" "when_ms (te w' a) = m" for x
    using h by (simp_all add: w'_def)
  have "path (tnext w') a (a # xs)"
  proof -
    have "path (tnext w') ?h xs = path (tnext w) ?h xs" by (rule path_cong) (use xs(3) w'(1) in auto)
    then show ?thesis using xs(1) assms(3) w'(1) by simp
  qed
  moreover have "linked_back (\<lambda>x. te_prev (te w' x)) NULL (a # xs)"
  proof (cases xs)
    case (Cons y ys)
    then have y: "?h = y" "y \<noteq> NULL" "y \<noteq> a" "y \<notin> set ys" "a \<notin> set ys"
      using xs assms(1) path_no_NULL [OF xs(1)] by (auto simp: timer_list_def)
    have "linked_back (\<lambda>x. te_prev (te w' x)) y ys = linked_back (\<lambda>x. te_prev (te w x)) y ys"
      by (rule linked_back_cong) (use y w'(2) in auto)
    then show ?thesis using y xs(2) Cons w'(2) by simp
  qed (simp add: w'(2))
  moreover have "distinct (map (\<lambda>x. te_id (te w' x)) (filter (live w') (a # xs)))"
  proof -
    have f: "filter (live w') xs = filter (live w) xs" by (rule filter_cong [OF refl]) (use xs(3) w'(3) in auto)
    have m: "map (\<lambda>x. te_id (te w' x)) (filter (live w') xs) = map (\<lambda>x. te_id (te w x)) (filter (live w) xs)"
      unfolding f by (rule map_cong [OF refl]) (use xs(3) w'(3) in auto)
    have "te_id (te w' a) \<notin> set (map (\<lambda>x. te_id (te w' x)) (filter (live w') xs))"
      unfolding m using assms(1) w'(3) [of a] by (auto simp: timer_list_def)
    moreover have "distinct (map (\<lambda>x. te_id (te w' x)) (filter (live w') xs))"
      unfolding m using assms(1) by (simp add: timer_list_def)
    ultimately show ?thesis by simp
  qed
  moreover have "\<forall>x \<in> set (a # xs). te_id (te w' x) < timeEventNextId w'"
    using assms(1) by (fastforce simp: timer_list_def w'(3,5))
  ultimately have "timer_list w' (a # xs)"
    using assms(1) xs(3) unfolding timer_list_def w'(4-6) by auto
  then show thesis using that [of w'] run t w'(3,7-9) by simp
qed

lemma delete_loop_scan:
  assumes "path (tnext w) a xs"
  shows "delete_loop i a w = Some (case filter (\<lambda>x. te_id (te w x) = i) xs of
      [] \<Rightarrow> (AE_ERR, w) | x # _ \<Rightarrow> (AE_OK, w\<lparr>te := (te w)(x := (te w x)\<lparr>te_id := AE_DELETED_EVENT_ID\<rparr>)\<rparr>))"
  using assms
proof (induction xs arbitrary: a)
  case Nil
  then show ?case by (subst delete_loop.simps) simp
next
  case (Cons x xs)
  then show ?case by (subst delete_loop.simps) simp
qed

lemma timer_list_ids:
  assumes "timer_list w xs" "i \<noteq> AE_DELETED_EVENT_ID" "x \<in> set xs" "te_id (te w x) = i" "y \<in> set xs" "te_id (te w y) = i"
  shows "x = y"
proof -
  have "inj_on (\<lambda>x. te_id (te w x)) (set (filter (live w) xs))"
    using assms(1) by (simp add: timer_list_def distinct_map)
  then show ?thesis using assms(2-6) by (auto simp: inj_on_def)
qed

text \<open>Marking an event as deleted.\<close>

abbreviation marked :: "addr \<Rightarrow> ('p, 'a) timers_scheme \<Rightarrow> ('p, 'a) timers_scheme" where
  "marked x w \<equiv> w\<lparr>te := (te w)(x := (te w x)\<lparr>te_id := AE_DELETED_EVENT_ID\<rparr>)\<rparr>"

lemma timer_list_retimed:
  assumes "timer_list w xs" "\<And>y. te_next (te w' y) = te_next (te w y)" "\<And>y. te_prev (te w' y) = te_prev (te w y)"
    and "\<And>y. y \<in> set xs \<Longrightarrow> te_id (te w' y) = te_id (te w y) \<or> te_id (te w' y) = AE_DELETED_EVENT_ID"
    and "timeEventHead w' = timeEventHead w" "timeEventNextId w' = timeEventNextId w" "blocks w' = blocks w"
  shows "timer_list w' xs"
proof -
  have live: "live w' y \<Longrightarrow> y \<in> set xs \<Longrightarrow> te_id (te w' y) = te_id (te w y)" for y using assms(4) [of y] by auto
  have inj: "inj_on (\<lambda>x. te_id (te w x)) (set (filter (live w) xs))" and "distinct xs"
    using assms(1) by (simp_all add: timer_list_def distinct_map)
  have "inj_on (\<lambda>x. te_id (te w' x)) (set (filter (live w') xs))"
  proof (rule inj_onI)
    fix y z
    assume y: "y \<in> set (filter (live w') xs)" and z: "z \<in> set (filter (live w') xs)" and eq: "te_id (te w' y) = te_id (te w' z)"
    have "te_id (te w y) = te_id (te w z)" "y \<in> set (filter (live w) xs)" "z \<in> set (filter (live w) xs)"
      using y z eq live [of y] live [of z] by simp_all
    then show "y = z" using inj by (rule inj_onD [rotated])
  qed
  then have "distinct (map (\<lambda>x. te_id (te w' x)) (filter (live w') xs))" using \<open>distinct xs\<close> by (simp add: distinct_map)
  moreover have "te_id (te w' y) < timeEventNextId w" if "y \<in> set xs" for y
    using assms(1) assms(4) [OF that] that by (auto simp: timer_list_def AE_DELETED_EVENT_ID_def)
  ultimately show ?thesis using assms(1-3,5-7) by (simp add: timer_list_def)
qed

lemma delete_timer:
  assumes "timer_list w xs" "i \<noteq> AE_DELETED_EVENT_ID"
  shows "\<exists>r w'. aeDeleteTimeEvent i w = Some (r, w') \<and> timer_list w' xs \<and> (r = AE_OK \<longleftrightarrow> (\<exists>x \<in> set xs. te_id (te w x) = i)) \<and>
    (\<forall>x \<in> set xs. te_id (te w' x) = (if te_id (te w x) = i then AE_DELETED_EVENT_ID else te_id (te w x)))"
proof (cases "filter (\<lambda>x. te_id (te w x) = i) xs")
  case Nil
  then have "\<forall>x \<in> set xs. te_id (te w x) \<noteq> i" by (simp add: filter_empty_conv)
  then show ?thesis
    using delete_loop_scan [of w "timeEventHead w" xs i] assms(1) Nil
    by (auto simp: aeDeleteTimeEvent_def timer_list_def)
next
  case (Cons x ys)
  then have "x \<in> set (filter (\<lambda>x. te_id (te w x) = i) xs)" by simp
  then have x: "x \<in> set xs" "te_id (te w x) = i" by simp_all
  have "aeDeleteTimeEvent i w = Some (AE_OK, marked x w)"
    using delete_loop_scan [of w "timeEventHead w" xs i] assms(1) Cons
    by (simp add: aeDeleteTimeEvent_def timer_list_def)
  moreover have "timer_list (marked x w) xs" by (rule timer_list_retimed [OF assms(1)]) auto
  moreover have "te_id (te (marked x w) y) = (if te_id (te w y) = i then AE_DELETED_EVENT_ID else te_id (te w y))" if "y \<in> set xs" for y
    using timer_list_ids [OF assms that _ x] x(2) by (cases "y = x") auto
  ultimately show ?thesis using x by (intro exI [of _ AE_OK] exI [of _ "marked x w"]) blast
qed

section \<open>A pass over the events\<close>

text \<open>
  What a pass sees of an event, and what it leaves of it when the clock stands at \<open>s\<close> seconds and \<open>u\<close>
  microseconds and the procedures answer \<open>ret\<close>.
\<close>

definition view :: "('p, 'a) timers_scheme \<Rightarrow> addr \<Rightarrow> int \<times> int \<times> int \<times> 'p \<times> 'p option \<times> addr" where
  "view w x = (te_id (te w x), when_sec (te w x), when_ms (te w x), timeProc (te w x), finalizerProc (te w x), te_clientData (te w x))"

definition wake_time :: "int \<Rightarrow> int \<Rightarrow> int \<Rightarrow> int \<times> int" where
  "wake_time s u ms =
     (let sec = s + ms sdiv 1000; m = u sdiv 1000 + ms smod 1000 in if m \<ge> 1000 then (sec + 1, m - 1000) else (sec, m))"

definition is_due :: "int \<Rightarrow> int \<Rightarrow> ('p, 'a) timers_scheme \<Rightarrow> addr \<Rightarrow> bool" where
  "is_due s u w x \<longleftrightarrow> live w x \<and> (s > when_sec (te w x) \<or> s = when_sec (te w x) \<and> u sdiv 1000 \<ge> when_ms (te w x))"

definition fired_view ::
  "int \<Rightarrow> int \<Rightarrow> ('p \<Rightarrow> int \<Rightarrow> addr \<Rightarrow> int) \<Rightarrow> ('p, 'a) timers_scheme \<Rightarrow> addr \<Rightarrow> int \<times> int \<times> int \<times> 'p \<times> 'p option \<times> addr" where
  "fired_view s u ret w x =
     (let e = te w x; r = ret (timeProc e) (te_id e) (te_clientData e)
      in if \<not> is_due s u w x then view w x
         else if r = AE_NOMORE then (AE_DELETED_EVENT_ID, when_sec e, when_ms e, timeProc e, finalizerProc e, te_clientData e)
         else (te_id e, fst (wake_time s u r), snd (wake_time s u r), timeProc e, finalizerProc e, te_clientData e))"

text \<open>Procedures and finalizers that record that they were called, and with what.\<close>

datatype 'p time_call = Called 'p int addr | Finalised 'p addr

record 'p recorded = "'p timers" +
  time_calls :: "'p time_call list"

definition recorded_call ::
  "('p \<Rightarrow> int \<Rightarrow> addr \<Rightarrow> int) \<Rightarrow> 'p \<Rightarrow> int \<Rightarrow> addr \<Rightarrow> ('p, 'a) recorded_scheme \<Rightarrow> int \<times> ('p, 'a) recorded_scheme" where
  "recorded_call ret p i d w = (ret p i d, w\<lparr>time_calls := time_calls w @ [Called p i d]\<rparr>)"

definition recorded_final :: "'p \<Rightarrow> addr \<Rightarrow> ('p, 'a) recorded_scheme \<Rightarrow> ('p, 'a) recorded_scheme" where
  "recorded_final f d w = w\<lparr>time_calls := time_calls w @ [Finalised f d]\<rparr>"

text \<open>What a pass has to call for an event: the finalizer of a deleted one, the procedure of a due one.\<close>

definition calls_for :: "int \<Rightarrow> int \<Rightarrow> ('p, 'a) timers_scheme \<Rightarrow> addr \<Rightarrow> 'p time_call list" where
  "calls_for s u w x =
     (let e = te w x
      in if \<not> live w x then (case finalizerProc e of None \<Rightarrow> [] | Some f \<Rightarrow> [Finalised f (te_clientData e)])
         else if is_due s u w x then [Called (timeProc e) (te_id e) (te_clientData e)] else [])"

lemma view_eq:
  "view w' x = view w x \<Longrightarrow> live w' x = live w x \<and> is_due s u w' x = is_due s u w x \<and>
     fired_view s u ret w' x = fired_view s u ret w x \<and> calls_for s u w' x = calls_for s u w x"
  by (auto simp: view_def is_due_def fired_view_def calls_for_def Let_def split: option.split)

lemma unlink_recorded:
  "time_calls (unlink_event x w) = time_calls w" "bad_free (unlink_event x w) = bad_free w"
  "(unlink_event x w)\<lparr>time_calls := time_calls w\<rparr> = unlink_event x w" "timeEventNextId (unlink_event x w) = timeEventNextId w"
  by (simp_all add: unlink_event_def Let_def)

text \<open>One step: the event at the front of what is left.\<close>

abbreviation pass_step where
  "pass_step s u ret \<equiv> time_step (\<lambda>_. (s, u)) (recorded_call ret) recorded_final"

abbreviation pass_loop where
  "pass_loop s u ret \<equiv> time_loop (\<lambda>_. (s, u)) (recorded_call ret) recorded_final"

lemma time_step_deleted:
  assumes T: "timer_list w (ys @ x # xs)" and d: "\<not> live w x"
  shows "\<exists>w1. pass_step s u ret maxId x n w = (te_next (te w x), n, w1) \<and> timer_list w1 (ys @ xs) \<and>
    timeEventNextId w1 = timeEventNextId w \<and> (\<forall>y. view w1 y = view w y) \<and>
    time_calls w1 = time_calls w @ calls_for s u w x \<and> blocks w1 = remove1 x (blocks w) \<and> bad_free w1 = bad_free w"
proof -
  note un = unlink_list [OF T]
  let ?w1 = "unlink_event x w"
  define w2 where "w2 = ?w1\<lparr>time_calls := time_calls w @ calls_for s u w x\<rparr>"
  have run: "pass_step s u ret maxId x n w = (te_next (te w x), n, c_free x w2)"
    using d un(6,7)
    by (simp add: time_step_def Let_def w2_def calls_for_def recorded_final_def unlink_recorded split: option.split)
  have free: "c_free x w2 = w2\<lparr>blocks := remove1 x (blocks w)\<rparr>"
  proof -
    have "x \<noteq> NULL" using T path_no_NULL [of "tnext w" "timeEventHead w" "ys @ x # xs"] by (auto simp: timer_list_def)
    moreover have "blocks w2 = blocks w" by (simp add: w2_def unlink_event_def Let_def)
    ultimately show ?thesis using un(9) by (simp add: c_free_def)
  qed
  have w2: "te (c_free x w2) = te ?w1" "timeEventHead (c_free x w2) = timeEventHead ?w1"
    "timeEventNextId (c_free x w2) = timeEventNextId w" "blocks (c_free x w2) = remove1 x (blocks w)"
    "time_calls (c_free x w2) = time_calls w @ calls_for s u w x" "bad_free (c_free x w2) = bad_free w"
    by (simp_all only: free) (simp_all add: w2_def unlink_event_def Let_def)
  have "timer_list (c_free x w2) (ys @ xs)"
    using un(1) unfolding un(8) timer_list_def w2 by (simp add: unlink_recorded)
  moreover have "view (c_free x w2) y = view w y" for y
    using un(2-7) by (simp add: view_def w2)
  ultimately show ?thesis using run w2(3-6) by blast
qed

lemma time_step_live:
  assumes T: "timer_list w (ys @ x # xs)" and m: "maxId = timeEventNextId w - 1" and l: "live w x"
  shows "\<exists>w1. pass_step s u ret maxId x n w = (te_next (te w x), (if is_due s u w x then n + 1 else n), w1) \<and>
    timer_list w1 (ys @ x # xs) \<and> timeEventNextId w1 = timeEventNextId w \<and> (\<forall>y. y \<noteq> x \<longrightarrow> view w1 y = view w y) \<and>
    view w1 x = fired_view s u ret w x \<and> time_calls w1 = time_calls w @ calls_for s u w x \<and> blocks w1 = blocks w \<and>
    bad_free w1 = bad_free w"
proof (cases "is_due s u w x")
  case False
  have id: "te_id (te w x) \<le> maxId" using T m by (simp add: timer_list_def)
  let ?w1 = "w\<lparr>readings := readings w + 1\<rparr>"
  have "pass_step s u ret maxId x n w = (te_next (te w x), n, ?w1)"
    using l id False by (auto simp: time_step_def aeGetTime_def is_due_def)
  moreover have "timer_list ?w1 (ys @ x # xs)" by (rule timer_list_retimed [OF T]) auto
  ultimately show ?thesis using l False by (simp add: view_def fired_view_def calls_for_def)
next
  case due: True
  have id: "te_id (te w x) \<le> maxId" using T m by (simp add: timer_list_def)
  let ?e = "te w x"
  let ?r = "ret (timeProc ?e) (te_id ?e) (te_clientData ?e)"
  let ?cs = "time_calls w @ calls_for s u w x"
  define w4 where "w4 = (if ?r \<noteq> AE_NOMORE
      then w\<lparr>readings := readings w + 2, time_calls := ?cs,
             te := (te w)(x := ?e\<lparr>when_sec := fst (wake_time s u ?r), when_ms := snd (wake_time s u ?r)\<rparr>)\<rparr>
      else w\<lparr>readings := readings w + 1, time_calls := ?cs, te := (te w)(x := ?e\<lparr>te_id := AE_DELETED_EVENT_ID\<rparr>)\<rparr>)"
  have w4: "te_next (te w4 y) = te_next (te w y)" "te_prev (te w4 y) = te_prev (te w y)"
    "te_id (te w4 y) = te_id (te w y) \<or> te_id (te w4 y) = AE_DELETED_EVENT_ID"
    "timeEventHead w4 = timeEventHead w" "timeEventNextId w4 = timeEventNextId w" "blocks w4 = blocks w"
    "bad_free w4 = bad_free w" "time_calls w4 = ?cs" for y
    by (auto simp: w4_def)
  have "pass_step s u ret maxId x n w = (te_next (te w4 x), n + 1, w4)"
    using l id due
    by (auto simp: time_step_def aeGetTime_def aeAddMillisecondsToNow_def is_due_def w4_def wake_time_def calls_for_def
        recorded_call_def Let_def)
  moreover have "timer_list w4 (ys @ x # xs)" using w4 by (intro timer_list_retimed [OF T]) auto
  moreover have "view w4 x = fired_view s u ret w x" "y \<noteq> x \<Longrightarrow> view w4 y = view w y" for y
    using due by (auto simp: view_def fired_view_def w4_def Let_def)
  ultimately show ?thesis using due w4 by simp
qed

lemma time_step_cases:
  assumes T: "timer_list w (ys @ x # xs)" and m: "maxId = timeEventNextId w - 1"
  shows "\<exists>n1 w1. pass_step s u ret maxId x n w = ((if xs = [] then NULL else hd xs), n1, w1) \<and>
    n1 = (if is_due s u w x then n + 1 else n) \<and> timer_list w1 ((if live w x then ys @ [x] else ys) @ xs) \<and>
    timeEventNextId w1 = timeEventNextId w \<and> (\<forall>y. y \<noteq> x \<longrightarrow> view w1 y = view w y) \<and>
    (live w x \<longrightarrow> view w1 x = fired_view s u ret w x) \<and> time_calls w1 = time_calls w @ calls_for s u w x \<and>
    blocks w1 = (if live w x then blocks w else remove1 x (blocks w)) \<and> bad_free w1 = bad_free w"
proof -
  have nx: "te_next (te w x) = (if xs = [] then NULL else hd xs)"
    using T path_at [of "tnext w" "timeEventHead w" ys x xs] by (simp add: timer_list_def)
  show ?thesis
  proof (cases "live w x")
    case False
    then show ?thesis using time_step_deleted [OF T False, of s u ret maxId n] nx by (auto simp: is_due_def)
  next
    case True
    then show ?thesis using time_step_live [OF T m True, of s u ret n] nx by auto
  qed
qed

lemma time_loop_pass:
  assumes "timer_list w (ys @ xs)" "maxId = timeEventNextId w - 1" "a = (if xs = [] then NULL else hd xs)"
  shows "\<exists>w'. pass_loop s u ret maxId a n w = Some (n + length (filter (is_due s u w) xs), w') \<and>
    timer_list w' (ys @ filter (live w) xs) \<and> timeEventNextId w' = timeEventNextId w \<and> (\<forall>y. y \<notin> set xs \<longrightarrow> view w' y = view w y) \<and>
    (\<forall>x \<in> set xs. live w x \<longrightarrow> view w' x = fired_view s u ret w x) \<and>
    time_calls w' = time_calls w @ concat (map (calls_for s u w) xs) \<and>
    mset (blocks w') = mset (blocks w) - mset (filter (\<lambda>x. \<not> live w x) xs) \<and> bad_free w' = bad_free w"
  using assms
proof (induction xs arbitrary: ys w n a)
  case Nil
  then show ?case by (subst time_loop.simps) simp
next
  case (Cons x xs)
  have a: "a = x" "x \<noteq> NULL" "x \<notin> set xs"
    using Cons.prems path_no_NULL [of "tnext w" "timeEventHead w" "ys @ x # xs"] by (auto simp: timer_list_def)
  obtain n1 w1 where step: "pass_step s u ret maxId x n w = ((if xs = [] then NULL else hd xs), n1, w1)"
    "n1 = (if is_due s u w x then n + 1 else n)" "timer_list w1 ((if live w x then ys @ [x] else ys) @ xs)"
    "timeEventNextId w1 = timeEventNextId w" "\<forall>y. y \<noteq> x \<longrightarrow> view w1 y = view w y" "live w x \<longrightarrow> view w1 x = fired_view s u ret w x"
    "time_calls w1 = time_calls w @ calls_for s u w x" "blocks w1 = (if live w x then blocks w else remove1 x (blocks w))"
    "bad_free w1 = bad_free w"
    using time_step_cases [OF Cons.prems(1,2), of s u ret n] by blast
  have m1: "maxId = timeEventNextId w1 - 1" using Cons.prems(2) step(4) by simp
  obtain w' where w': "pass_loop s u ret maxId (if xs = [] then NULL else hd xs) n1 w1 =
      Some (n1 + length (filter (is_due s u w1) xs), w')"
    "timer_list w' ((if live w x then ys @ [x] else ys) @ filter (live w1) xs)" "timeEventNextId w' = timeEventNextId w1"
    "\<forall>y. y \<notin> set xs \<longrightarrow> view w' y = view w1 y" "\<forall>y \<in> set xs. live w1 y \<longrightarrow> view w' y = fired_view s u ret w1 y"
    "time_calls w' = time_calls w1 @ concat (map (calls_for s u w1) xs)"
    "mset (blocks w') = mset (blocks w1) - mset (filter (\<lambda>x. \<not> live w1 x) xs)" "bad_free w' = bad_free w1"
    using Cons.IH [OF step(3) m1 refl, of n1] by blast
  have same: "live w1 y = live w y" "is_due s u w1 y = is_due s u w y" "fired_view s u ret w1 y = fired_view s u ret w y"
    "calls_for s u w1 y = calls_for s u w y" if "y \<in> set xs" for y
  proof -
    have "view w1 y = view w y" using step(5) a(3) that by metis
    from view_eq [OF this, of s u ret] show "live w1 y = live w y" "is_due s u w1 y = is_due s u w y"
      "fired_view s u ret w1 y = fired_view s u ret w y" "calls_for s u w1 y = calls_for s u w y" by simp_all
  qed
  have f: "filter (live w1) xs = filter (live w) xs" "filter (is_due s u w1) xs = filter (is_due s u w) xs"
    "filter (\<lambda>x. \<not> live w1 x) xs = filter (\<lambda>x. \<not> live w x) xs"
    by (rule filter_cong [OF refl]; use same in simp)+
  have c: "map (calls_for s u w1) xs = map (calls_for s u w) xs" using same by simp
  have "pass_loop s u ret maxId a n w = pass_loop s u ret maxId (if xs = [] then NULL else hd xs) n1 w1"
    using a step(1) by (subst time_loop.simps) simp
  moreover have "n1 + length (filter (is_due s u w1) xs) = n + length (filter (is_due s u w) (x # xs))"
    using step(2) f(2) by simp
  moreover have "timer_list w' (ys @ filter (live w) (x # xs))" using w'(2) f(1) by (simp split: if_split_asm)
  moreover have "view w' y = view w y" if "y \<notin> set (x # xs)" for y using that w'(4) step(5) by simp
  moreover have "view w' y = fired_view s u ret w y" if "y \<in> set (x # xs)" "live w y" for y
  proof (cases "y = x")
    case True
    then show ?thesis using that w'(4) a(3) step(6) by simp
  next
    case False
    then have "y \<in> set xs" using that by simp
    then show ?thesis using that(2) w'(5) same [of y] by simp
  qed
  moreover have "time_calls w' = time_calls w @ concat (map (calls_for s u w) (x # xs))" using w'(6) step(7) c by simp
  moreover have "mset (blocks w') = mset (blocks w) - mset (filter (\<lambda>x. \<not> live w x) (x # xs))"
    using w'(7) step(8) unfolding f(3) by simp
  ultimately show ?case using w'(1,3,8) step(4,9) by (intro exI [of _ w']) simp
qed

section \<open>Properties\<close>

text \<open>
  C21: A pass over the time events, while the clock stands at \<open>s\<close> seconds and \<open>u\<close> microseconds and has not
  gone back, with procedures that answer \<open>ret\<close> and record their calls: it calls, in the order of the
  list, the finalizer of every deleted event that has one and the procedure of every event that is due,
  each once and with its own arguments, and nothing else; it reports how many procedures it called. The
  deleted events are unlinked and each freed once, the list of the others stays well linked, an event
  whose procedure asks for it comes again that many milliseconds from now, one whose procedure is done is
  marked for the next pass, and one that is not due is left alone.
\<close>

theorem time_pass_correct:
  assumes "timer_list w xs" "lastTime w \<le> s"
  shows "\<exists>w'. processTimeEvents (\<lambda>_. (s, u)) (recorded_call ret) recorded_final w = Some (length (filter (is_due s u w) xs), w') \<and>
    time_calls w' = time_calls w @ concat (map (calls_for s u w) xs) \<and>
    timer_list w' (filter (live w) xs) \<and> (\<forall>x \<in> set xs. live w x \<longrightarrow> view w' x = fired_view s u ret w x) \<and>
    mset (blocks w') = mset (blocks w) - mset (filter (\<lambda>x. \<not> live w x) xs) \<and> bad_free w' = bad_free w"
proof -
  define w0 where "w0 = w\<lparr>readings := readings w + 1, lastTime := s\<rparr>"
  have T: "timer_list w0 ([] @ xs)" using timer_list_retimed [OF assms(1), of w0] by (simp add: w0_def)
  have view: "view w0 x = view w x" for x by (simp add: view_def w0_def)
  have eqs: "is_due s u w0 = is_due s u w" "fired_view s u ret w0 = fired_view s u ret w" "calls_for s u w0 = calls_for s u w"
    "\<And>x. live w0 x = live w x" "time_calls w0 = time_calls w" "blocks w0 = blocks w" "bad_free w0 = bad_free w"
    using view_eq [OF view] by (auto simp: fun_eq_iff w0_def)
  have head: "timeEventHead w0 = (if xs = [] then NULL else hd xs)" using T by (cases xs) (auto simp: timer_list_def)
  have "processTimeEvents (\<lambda>_. (s, u)) (recorded_call ret) recorded_final w =
      pass_loop s u ret (timeEventNextId w0 - 1) (timeEventHead w0) 0 w0"
    using assms(2) by (simp add: processTimeEvents_def w0_def)
  then show ?thesis using time_loop_pass [OF T refl head, of s u ret 0] unfolding eqs by auto
qed

text \<open>
  C33: The search for the nearest timer ends, and in a list of any order, with milliseconds below 1000, it
  finds the first of the events that are due earliest: the events before it are due later, in
  milliseconds since the epoch, and none of those after it is due earlier. In an empty list it answers
  NULL.
\<close>

theorem nearest_timer_correct:
  assumes "timer_list w xs" "\<forall>x \<in> set xs. when_ms (te w x) \<in> {0..<1000}"
  shows "\<exists>n. aeSearchNearestTimer w = Some n \<and> (if xs = [] then n = NULL else
    (\<exists>ys zs. xs = ys @ n # zs \<and> (\<forall>y \<in> set ys. due_ms (te w n) < due_ms (te w y)) \<and>
       (\<forall>z \<in> set zs. due_ms (te w n) \<le> due_ms (te w z))))"
  using nearest_timer [OF assms] unfolding first_earliest_def .

text \<open>
  A deleted event with a finalizer, one due at 5.800 seconds, one due at 5.300 and one due at 9 seconds.
\<close>

definition demo_timers :: "char recorded" where
  "demo_timers = \<lparr>pending = [], blocks = [100, 200, 300, 400], bad_free = False, zeroed = [],
     te = (\<lambda>x. if x = 100
       then \<lparr>te_id = - 1, when_sec = 9, when_ms = 0, timeProc = CHR ''a'', finalizerProc = Some CHR ''z'', te_clientData = 7, te_prev = 0, te_next = 200\<rparr>
       else if x = 200
       then \<lparr>te_id = 2, when_sec = 5, when_ms = 800, timeProc = CHR ''b'', finalizerProc = None, te_clientData = 8, te_prev = 100, te_next = 300\<rparr>
       else if x = 300
       then \<lparr>te_id = 1, when_sec = 5, when_ms = 300, timeProc = CHR ''c'', finalizerProc = None, te_clientData = 9, te_prev = 200, te_next = 400\<rparr>
       else \<lparr>te_id = 0, when_sec = 9, when_ms = 0, timeProc = CHR ''d'', finalizerProc = None, te_clientData = 0, te_prev = 300, te_next = 0\<rparr>),
     timeEventHead = 100, timeEventNextId = 4, lastTime = 4, readings = 0, time_calls = []\<rparr>"

lemma demo_timer_list: "timer_list demo_timers [100, 200, 300, 400]"
  by (simp add: timer_list_def demo_timers_def AE_DELETED_EVENT_ID_def)

lemma time_pass_correct_witness:
  "\<exists>w'. processTimeEvents (\<lambda>_. (5, 900000)) (recorded_call (\<lambda>p i d. if p = CHR ''b'' then 250 else - 1)) recorded_final demo_timers = Some (2, w') \<and>
     time_calls w' = [Finalised CHR ''z'' 7, Called CHR ''b'' 2 8, Called CHR ''c'' 1 9] \<and> timer_list w' [200, 300, 400] \<and>
     view w' 200 = (2, 6, 150, CHR ''b'', None, 8) \<and> view w' 300 = (- 1, 5, 300, CHR ''c'', None, 9) \<and>
     view w' 400 = (0, 9, 0, CHR ''d'', None, 0) \<and> \<not> bad_free w'"
proof -
  let ?ret = "\<lambda>p i d. if p = CHR ''b'' then 250 else - 1 :: int"
  have sd: "(900000 :: int) sdiv 1000 = 900" "(250 :: int) sdiv 1000 = 0" "(250 :: int) smod 1000 = 250"
    by (simp_all add: signed_divide_int_def signed_modulo_int_def)
  have "filter (is_due 5 900000 demo_timers) [100, 200, 300, 400] = [200, 300]" "filter (live demo_timers) [100, 200, 300, 400] = [200, 300, 400]"
    "concat (map (calls_for 5 900000 demo_timers) [100, 200, 300, 400]) = [Finalised CHR ''z'' 7, Called CHR ''b'' 2 8, Called CHR ''c'' 1 9]"
    "fired_view 5 900000 ?ret demo_timers 200 = (2, 6, 150, CHR ''b'', None, 8)"
    "fired_view 5 900000 ?ret demo_timers 300 = (- 1, 5, 300, CHR ''c'', None, 9)"
    "fired_view 5 900000 ?ret demo_timers 400 = (0, 9, 0, CHR ''d'', None, 0)"
    "live demo_timers 200" "live demo_timers 300" "live demo_timers 400" "time_calls demo_timers = []" "\<not> bad_free demo_timers"
    by (simp_all add: demo_timers_def is_due_def fired_view_def calls_for_def view_def wake_time_def AE_DELETED_EVENT_ID_def AE_NOMORE_def sd)
  moreover have "lastTime demo_timers \<le> 5" by (simp add: demo_timers_def)
  ultimately show ?thesis
    using time_pass_correct [OF demo_timer_list, of 5 900000 ?ret] by auto
qed

text \<open>Two events are due in the same second: the milliseconds decide.\<close>

lemma nearest_timer_correct_witness: "aeSearchNearestTimer demo_timers = Some 300"
proof -
  have ms: "\<forall>x \<in> set [100, 200, 300, 400]. when_ms (te demo_timers x) \<in> {0..<1000}" by (simp add: demo_timers_def)
  have due: "due_ms (te demo_timers 100) = 9000" "due_ms (te demo_timers 200) = 5800" "due_ms (te demo_timers 300) = 5300"
    "due_ms (te demo_timers 400) = 9000"
    by (simp_all add: due_ms_def demo_timers_def)
  obtain n ys zs where n: "aeSearchNearestTimer demo_timers = Some n" "[100, 200, 300, 400] = ys @ n # zs"
    "\<forall>y \<in> set ys. due_ms (te demo_timers n) < due_ms (te demo_timers y)" "\<forall>z \<in> set zs. due_ms (te demo_timers n) \<le> due_ms (te demo_timers z)"
    using nearest_timer_correct [OF demo_timer_list ms] by auto
  have "ys @ n # zs = [] @ [100, 200, 300, 400]" using n(2) by simp
  then have "n = 300 \<or> 300 \<in> set ys \<and> n \<in> {400} \<or> 300 \<in> set zs \<and> n \<in> {100, 200}"
    by (auto simp: append_eq_Cons_conv Cons_eq_append_conv)
  then show ?thesis using n(1,3,4) due by auto
qed

end
