(* ===== verification/Ae_Ports.thy ===== *)
theory Ae_Ports
  imports Ae_Props Ae_Time
begin

text \<open>
  The multiplexing layers for BSD and Solaris (\<^verbatim>\<open>src/src/opt/ae_kqueue.c\<close>, \<^verbatim>\<open>src/src/opt/ae_evport.c\<close>) on
  models of their kernels' queues. The first one keeps the interface of the event loop as long as the
  kernel has memory; the second one does not, because it expects its caller to change the mask first.
\<close>

section \<open>The kqueue layer\<close>

text \<open>The two filters of a descriptor are registered and deleted one by one.\<close>

datatype evfilt = EVFILT_READ | EVFILT_WRITE
datatype ev_flag = EV_ADD | EV_DELETE

record kqueue = os +
  filters :: "fd \<Rightarrow> evfilt \<Rightarrow> bool"
  kevents :: "(fd \<times> evfilt) list list"

definition kevent_change :: "fd \<Rightarrow> evfilt \<Rightarrow> ev_flag \<Rightarrow> 'a kqueue_scheme \<Rightarrow> bool \<times> 'a kqueue_scheme" where
  "kevent_change fd f flag k =
     (case flag of
        EV_ADD \<Rightarrow>
          if \<not> open_fds k fd then (False, k)
          else let (fault, k1) = next_fault k
               in if fault then (False, k1) else (True, k1\<lparr>filters := (filters k1)(fd := (filters k1 fd)(f := True))\<rparr>)
      | EV_DELETE \<Rightarrow> (filters k fd f, k\<lparr>filters := (filters k)(fd := (filters k fd)(f := False))\<rparr>))"

text \<open>A wait reports at most \<open>n\<close> registered filters.\<close>

definition kevent_wait :: "int \<Rightarrow> 'a kqueue_scheme \<Rightarrow> (fd \<times> evfilt) list \<times> 'a kqueue_scheme" where
  "kevent_wait n k =
     (case kevents k of [] \<Rightarrow> ([], k)
      | r # rs \<Rightarrow> (take (nat n) (filter (\<lambda>(fd, f). filters k fd f) r), k\<lparr>kevents := rs\<rparr>))"

definition kqueue_aeApiCreate :: "int \<Rightarrow> 'a kqueue_scheme \<Rightarrow> bool \<times> 'a kqueue_scheme" where
  "kqueue_aeApiCreate n k =
     (let (fault, k1) = next_fault k in if fault then (False, k1) else (True, k1\<lparr>filters := (\<lambda>_ _. False)\<rparr>))"

definition kqueue_aeApiResize :: "int \<Rightarrow> 'a kqueue_scheme \<Rightarrow> bool \<times> 'a kqueue_scheme" where
  "kqueue_aeApiResize n k = (True, k)"

definition kqueue_aeApiAddEvent :: "u32 \<Rightarrow> fd \<Rightarrow> u32 \<Rightarrow> 'a kqueue_scheme \<Rightarrow> bool \<times> 'a kqueue_scheme" where
  "kqueue_aeApiAddEvent old fd m k =
     (let (ok1, k1) = (if m AND AE_READABLE \<noteq> 0 then kevent_change fd EVFILT_READ EV_ADD k else (True, k))
      in if \<not> ok1 then (False, k1)
         else if m AND AE_WRITABLE \<noteq> 0 then kevent_change fd EVFILT_WRITE EV_ADD k1 else (True, k1))"

definition kqueue_aeApiDelEvent :: "u32 \<Rightarrow> fd \<Rightarrow> u32 \<Rightarrow> 'a kqueue_scheme \<Rightarrow> 'a kqueue_scheme" where
  "kqueue_aeApiDelEvent old fd m k =
     (let k1 = (if m AND AE_READABLE \<noteq> 0 then snd (kevent_change fd EVFILT_READ EV_DELETE k) else k)
      in if m AND AE_WRITABLE \<noteq> 0 then snd (kevent_change fd EVFILT_WRITE EV_DELETE k1) else k1)"

definition kqueue_aeApiPoll :: "int \<Rightarrow> 'a kqueue_scheme \<Rightarrow> (fd \<times> u32) list \<times> 'a kqueue_scheme" where
  "kqueue_aeApiPoll n k =
     (let (es, k1) = kevent_wait n k
      in (map (\<lambda>(fd, f). (fd, (if f = EVFILT_READ then AE_READABLE else 0) OR (if f = EVFILT_WRITE then AE_WRITABLE else 0))) es, k1))"

definition kqueue_api :: "('a kqueue_scheme) ae_api" where
  "kqueue_api = \<lparr>aeApiAddEvent = kqueue_aeApiAddEvent, aeApiDelEvent = kqueue_aeApiDelEvent,
     aeApiResize = kqueue_aeApiResize, aeApiCreate = kqueue_aeApiCreate\<rparr>"

definition kqueue_tracks :: "'a kqueue_scheme \<Rightarrow> fd \<Rightarrow> u32 \<Rightarrow> bool" where
  "kqueue_tracks k fd m \<longleftrightarrow> (filters k fd EVFILT_READ \<longleftrightarrow> bit m 0) \<and> (filters k fd EVFILT_WRITE \<longleftrightarrow> bit m 1) \<and> watch_faults k = []"

lemmas kqueue_defs = kqueue_api_def kqueue_aeApiAddEvent_def kqueue_aeApiDelEvent_def kqueue_tracks_def kevent_change_def
  next_fault_def

text \<open>Without faults the layer can only refuse a closed descriptor, and then nothing is registered.\<close>

interpretation kq: multiplexer kqueue_api kqueue_tracks "\<lambda>_. True"
  by unfold_locales
    (auto simp: kqueue_defs mask_bits bit_or_iff bit_and_iff bit_not_iff Let_def split: if_splits prod.splits)

text \<open>
  When the kernel runs out of memory between the two filters, the call fails with one of them
  registered, which the table of events does not know.
\<close>

lemma kqueue_half_registered:
  assumes "open_fds k fd" "watch_faults k = [False, True]" "m AND AE_READABLE \<noteq> 0" "m AND AE_WRITABLE \<noteq> 0"
  shows "\<exists>k'. kqueue_aeApiAddEvent old fd m k = (False, k') \<and> filters k' fd EVFILT_READ"
  using assms by (simp add: kqueue_defs)

section \<open>The event port layer\<close>

text \<open>
  An association of the port is used up by the event it reports; the layer keeps the descriptors of the
  last wait as pending, with their masks, and associates them again before the next one. A pending
  descriptor that was deleted has the number -1.
\<close>

definition MAX_EVENT_BATCHSZ :: nat where "MAX_EVENT_BATCHSZ = 512"

record evport = os +
  assoc :: "fd \<Rightarrow> (u32 \<times> u32) option"
  port_events :: "(fd \<times> u32) list list"
  pend :: "(fd \<times> u32) list"

definition port_associate :: "fd \<Rightarrow> u32 \<Rightarrow> u32 \<Rightarrow> 'a evport_scheme \<Rightarrow> bool \<times> 'a evport_scheme" where
  "port_associate fd evs user k =
     (if \<not> open_fds k fd then (False, k)
      else let (fault, k1) = next_fault k
           in if fault then (False, k1) else (True, k1\<lparr>assoc := (assoc k1)(fd := Some (evs, user))\<rparr>))"

definition port_dissociate :: "fd \<Rightarrow> 'a evport_scheme \<Rightarrow> bool \<times> 'a evport_scheme" where
  "port_dissociate fd k = (assoc k fd \<noteq> None, k\<lparr>assoc := (assoc k)(fd := None)\<rparr>)"

text \<open>The first \<open>n\<close> of the reported events whose descriptors are associated, with what was associated.\<close>

fun port_getn :: "nat \<Rightarrow> (fd \<times> u32) list \<Rightarrow> (fd \<Rightarrow> (u32 \<times> u32) option) \<Rightarrow> (fd \<times> u32 \<times> u32) list \<times> (fd \<Rightarrow> (u32 \<times> u32) option)" where
  "port_getn n [] as = ([], as)"
| "port_getn n ((fd, ev) # es) as =
     (case (n, as fd) of
        (Suc m, Some (evs, user)) \<Rightarrow> let (r, as1) = port_getn m es (as(fd := None)) in ((fd, ev AND evs, user) # r, as1)
      | _ \<Rightarrow> port_getn n es as)"

definition evport_aeApiCreate :: "int \<Rightarrow> 'a evport_scheme \<Rightarrow> bool \<times> 'a evport_scheme" where
  "evport_aeApiCreate n k =
     (let (fault, k1) = next_fault k in if fault then (False, k1) else (True, k1\<lparr>assoc := (\<lambda>_. None), pend := []\<rparr>))"

definition evport_aeApiResize :: "int \<Rightarrow> 'a evport_scheme \<Rightarrow> bool \<times> 'a evport_scheme" where
  "evport_aeApiResize n k = (True, k)"

fun aeApiLookupPending :: "(fd \<times> u32) list \<Rightarrow> fd \<Rightarrow> nat option" where
  "aeApiLookupPending [] fd = None"
| "aeApiLookupPending ((g, m) # ps) fd = (if g = fd then Some 0 else map_option Suc (aeApiLookupPending ps fd))"

definition aeApiAssociate :: "fd \<Rightarrow> u32 \<Rightarrow> 'a evport_scheme \<Rightarrow> bool \<times> 'a evport_scheme" where
  "aeApiAssociate fd m k =
     port_associate fd ((if m AND AE_READABLE \<noteq> 0 then POLLIN else 0) OR (if m AND AE_WRITABLE \<noteq> 0 then POLLOUT else 0)) m k"

definition evport_aeApiAddEvent :: "u32 \<Rightarrow> fd \<Rightarrow> u32 \<Rightarrow> 'a evport_scheme \<Rightarrow> bool \<times> 'a evport_scheme" where
  "evport_aeApiAddEvent old fd m k =
     (let fullmask = m OR old
      in case aeApiLookupPending (pend k) fd of
           Some i \<Rightarrow> (True, k\<lparr>pend := (pend k)[i := (fst (pend k ! i), snd (pend k ! i) OR fullmask)]\<rparr>)
         | None \<Rightarrow> aeApiAssociate fd fullmask k)"

text \<open>The mask \<open>old\<close> is read from the table of events. None is an abort.\<close>

definition evport_aeApiDelEvent :: "u32 \<Rightarrow> fd \<Rightarrow> u32 \<Rightarrow> 'a evport_scheme \<Rightarrow> 'a evport_scheme option" where
  "evport_aeApiDelEvent old fd m k =
     (case aeApiLookupPending (pend k) fd of
        Some i \<Rightarrow>
          let m1 = snd (pend k ! i) AND NOT m
          in Some (k\<lparr>pend := (pend k)[i := (if m1 = AE_NONE then - 1 else fst (pend k ! i), m1)]\<rparr>)
      | None \<Rightarrow>
          let (ok, k1) = (if old = AE_NONE then port_dissociate fd k else aeApiAssociate fd old k)
          in if ok then Some k1 else None)"

fun associate_pending :: "(fd \<times> u32) list \<Rightarrow> 'a evport_scheme \<Rightarrow> 'a evport_scheme option" where
  "associate_pending [] k = Some k"
| "associate_pending ((fd, m) # ps) k =
     (if fd = - 1 then associate_pending ps k
      else let (ok, k1) = aeApiAssociate fd m k in if ok then associate_pending ps k1 else None)"

definition evport_aeApiPoll :: "'a evport_scheme \<Rightarrow> ((fd \<times> u32) list \<times> 'a evport_scheme) option" where
  "evport_aeApiPoll k = do {
     k1 \<leftarrow> associate_pending (pend k) k;
     let k2 = k1\<lparr>pend := []\<rparr>;
     case port_events k2 of
       [] \<Rightarrow> Some ([], k2)
     | r # rs \<Rightarrow>
         let (es, as) = port_getn MAX_EVENT_BATCHSZ r (assoc k2)
         in Some (map (\<lambda>(fd, ev, user). (fd, (if ev AND POLLIN \<noteq> 0 then AE_READABLE else 0) OR (if ev AND POLLOUT \<noteq> 0 then AE_WRITABLE else 0))) es,
                  k2\<lparr>port_events := rs, assoc := as, pend := map (\<lambda>(fd, ev, user). (fd, user)) es\<rparr>)
   }"

text \<open>What the layer watches: the mask of a pending descriptor, or of its association.\<close>

definition evport_tracks :: "'a evport_scheme \<Rightarrow> fd \<Rightarrow> u32 \<Rightarrow> bool" where
  "evport_tracks k fd m \<longleftrightarrow>
     (case aeApiLookupPending (pend k) fd of
        Some i \<Rightarrow> snd (pend k ! i) = m
      | None \<Rightarrow> map_option snd (assoc k fd) = (if m = AE_NONE then None else Some m))"

lemma LookupPending_update:
  "aeApiLookupPending ps fd = Some i \<Longrightarrow> i < length ps \<and> fst (ps ! i) = fd \<and> aeApiLookupPending (ps[i := (fd, m)]) fd = Some i"
  by (induction ps arbitrary: i) (auto split: if_splits)

text \<open>
  Deleting an event of a descriptor that is not among the last reported ones deletes nothing in the
  event port layer: it reads the mask in the table of events, which the loop changes only after the
  call, so that it associates the descriptor again for all its old events and goes on reporting them.
  For a descriptor that was just reported the deletion works.
\<close>

theorem evport_delete_lost:
  assumes "evport_tracks k fd old" "old \<noteq> AE_NONE" "open_fds k fd" "watch_faults k = []" "0 \<le> fd"
  shows "\<exists>k'. evport_aeApiDelEvent old fd m k = Some k' \<and>
    (if aeApiLookupPending (pend k) fd = None then evport_tracks k' fd old
     else old AND NOT m \<noteq> AE_NONE \<longrightarrow> evport_tracks k' fd (old AND NOT m))"
proof (cases "aeApiLookupPending (pend k) fd")
  case None
  then show ?thesis
    using assms by (simp add: evport_aeApiDelEvent_def aeApiAssociate_def port_associate_def next_fault_def evport_tracks_def)
next
  case (Some i)
  then have "i < length (pend k)" "fst (pend k ! i) = fd" "snd (pend k ! i) = old"
    "\<And>m. aeApiLookupPending ((pend k)[i := (fd, m)]) fd = Some i"
    using LookupPending_update [OF Some] assms(1) by (simp_all add: evport_tracks_def)
  then show ?thesis using Some by (auto simp: evport_aeApiDelEvent_def evport_tracks_def Let_def)
qed

definition demo_port :: evport where
  "demo_port = \<lparr>pending = [], blocks = [], bad_free = False, zeroed = [], open_fds = (\<lambda>fd. fd = 5), interest = (\<lambda>_. None),
     watch_faults = [], ready = [], assoc = (\<lambda>fd. if fd = 5 then Some (POLLIN OR POLLOUT, AE_READABLE OR AE_WRITABLE) else None),
     port_events = [], pend = []\<rparr>"

lemma evport_delete_lost_witness:
  "\<exists>k'. evport_aeApiDelEvent (AE_READABLE OR AE_WRITABLE) 5 AE_WRITABLE demo_port = Some k' \<and>
     evport_tracks k' 5 (AE_READABLE OR AE_WRITABLE)"
  using evport_delete_lost [of demo_port 5 "AE_READABLE OR AE_WRITABLE" AE_WRITABLE]
  by (simp add: evport_tracks_def demo_port_def ae_masks)

end
