(* ===== verification/Ae_Life.thy ===== *)
theory Ae_Life
  imports Ae_Backend "HOL-Library.Multiset"
begin

text \<open>
  What an event loop owns: the memory that \<^verbatim>\<open>aeCreateEventLoop\<close> and the four multiplexing layers
  allocate, and the descriptor of the kernel queue; \<open>Ae\<close> has the contents of the tables. The other
  operations of \<^verbatim>\<open>ae.c\<close> for file events allocate nothing. \<^verbatim>\<open>zmalloc\<close> ends the process when there is
  no memory (None), so the tests of its result in these functions never fire. The kernel chooses the
  descriptor of a new queue (\<open>pick\<close>, refused when it is open already), or has none left (the next
  of \<open>watch_faults\<close>).
\<close>

section \<open>Memory and descriptors\<close>

definition own_zmalloc :: "nat \<Rightarrow> 'a os_scheme \<Rightarrow> (addr \<times> 'a os_scheme) option" where
  "own_zmalloc k w = (let (a, w1) = c_malloc k w in if a = NULL then None else Some (a, w1))"

text \<open>The block may stay where it is: the address of the new one can be that of the old one.\<close>

definition own_zrealloc :: "addr \<Rightarrow> nat \<Rightarrow> 'a os_scheme \<Rightarrow> (addr \<times> 'a os_scheme) option" where
  "own_zrealloc a k w = own_zmalloc k (c_free a w)"

definition open_queue :: "('a os_scheme \<Rightarrow> fd) \<Rightarrow> 'a os_scheme \<Rightarrow> fd \<times> 'a os_scheme" where
  "open_queue pick w =
     (let (fault, w1) = next_fault w
      in if fault \<or> pick w1 < 0 \<or> open_fds w1 (pick w1) then (- 1, w1) else (pick w1, w1\<lparr>open_fds := (open_fds w1)(pick w1 := True)\<rparr>))"

text \<open>A product of \<^verbatim>\<open>size_t\<close>.\<close>

definition array_bytes :: "nat \<Rightarrow> int \<Rightarrow> nat" where
  "array_bytes esize n = unat (of_nat esize * of_int n :: u64)"

section \<open>The multiplexing layers\<close>

text \<open>Where a layer keeps its state and its array of events, and its queue; select has the state only.\<close>

record aeApiState =
  api_state :: addr
  api_events :: "addr option"
  api_queue :: "fd option"

record 'w api_memory =
  state_new :: "int \<Rightarrow> 'w \<Rightarrow> (aeApiState option \<times> 'w) option"
  state_resize :: "int \<Rightarrow> aeApiState \<Rightarrow> 'w \<Rightarrow> (aeApiState option \<times> 'w) option"
  state_free :: "aeApiState \<Rightarrow> 'w \<Rightarrow> 'w"

text \<open>The epoll and the kqueue layer differ in the sizes of their structures.\<close>

definition queue_aeApiCreate ::
  "nat \<Rightarrow> ('a os_scheme \<Rightarrow> fd) \<Rightarrow> int \<Rightarrow> 'a os_scheme \<Rightarrow> (aeApiState option \<times> 'a os_scheme) option" where
  "queue_aeApiCreate esize pick n w = do {
     (state, w1) \<leftarrow> own_zmalloc 16 w;
     (events, w2) \<leftarrow> own_zmalloc (array_bytes esize n) w1;
     let (epfd, w3) = open_queue pick w2;
     if epfd = - 1 then Some (None, c_free state (c_free events w3))
     else Some (Some \<lparr>api_state = state, api_events = Some events, api_queue = Some epfd\<rparr>, w3)
   }"

definition queue_aeApiResize ::
  "nat \<Rightarrow> int \<Rightarrow> aeApiState \<Rightarrow> 'a os_scheme \<Rightarrow> (aeApiState option \<times> 'a os_scheme) option" where
  "queue_aeApiResize esize n s w = do {
     events \<leftarrow> api_events s;
     (a, w1) \<leftarrow> own_zrealloc events (array_bytes esize n) w;
     Some (Some (s\<lparr>api_events := Some a\<rparr>), w1)
   }"

definition opt_free :: "addr option \<Rightarrow> 'a os_scheme \<Rightarrow> 'a os_scheme" where
  "opt_free a w = (case a of None \<Rightarrow> w | Some a \<Rightarrow> c_free a w)"

text \<open>Every layer closes and frees what it has, in this order.\<close>

definition aeApiFree :: "aeApiState \<Rightarrow> 'a os_scheme \<Rightarrow> 'a os_scheme" where
  "aeApiFree s w =
     (let w1 = (case api_queue s of None \<Rightarrow> w | Some fd \<Rightarrow> os_close fd w)
      in c_free (api_state s) (opt_free (api_events s) w1))"

definition select_state_new :: "int \<Rightarrow> 'a os_scheme \<Rightarrow> (aeApiState option \<times> 'a os_scheme) option" where
  "select_state_new n w = do {
     (state, w1) \<leftarrow> own_zmalloc 512 w;
     Some (Some \<lparr>api_state = state, api_events = None, api_queue = None\<rparr>, w1)
   }"

definition select_state_resize :: "int \<Rightarrow> aeApiState \<Rightarrow> 'a os_scheme \<Rightarrow> (aeApiState option \<times> 'a os_scheme) option" where
  "select_state_resize n s w = Some (if n \<ge> FD_SETSIZE then None else Some s, w)"

definition evport_state_new ::
  "('a os_scheme \<Rightarrow> fd) \<Rightarrow> int \<Rightarrow> 'a os_scheme \<Rightarrow> (aeApiState option \<times> 'a os_scheme) option" where
  "evport_state_new pick n w = do {
     (state, w1) \<leftarrow> own_zmalloc 4104 w;
     let (portfd, w2) = open_queue pick w1;
     if portfd = - 1 then Some (None, c_free state w2)
     else Some (Some \<lparr>api_state = state, api_events = None, api_queue = Some portfd\<rparr>, w2)
   }"

definition evport_state_resize :: "int \<Rightarrow> aeApiState \<Rightarrow> 'a os_scheme \<Rightarrow> (aeApiState option \<times> 'a os_scheme) option" where
  "evport_state_resize n s w = Some (Some s, w)"

definition epoll_memory :: "('a os_scheme \<Rightarrow> fd) \<Rightarrow> ('a os_scheme) api_memory" where
  "epoll_memory pick = \<lparr>state_new = queue_aeApiCreate 12 pick, state_resize = queue_aeApiResize 12, state_free = aeApiFree\<rparr>"

definition kqueue_memory :: "('a os_scheme \<Rightarrow> fd) \<Rightarrow> ('a os_scheme) api_memory" where
  "kqueue_memory pick = \<lparr>state_new = queue_aeApiCreate 32 pick, state_resize = queue_aeApiResize 32, state_free = aeApiFree\<rparr>"

definition select_memory :: "('a os_scheme) api_memory" where
  "select_memory = \<lparr>state_new = select_state_new, state_resize = select_state_resize, state_free = aeApiFree\<rparr>"

definition evport_memory :: "('a os_scheme \<Rightarrow> fd) \<Rightarrow> ('a os_scheme) api_memory" where
  "evport_memory pick = \<lparr>state_new = evport_state_new pick, state_resize = evport_state_resize, state_free = aeApiFree\<rparr>"

section \<open>The loop\<close>

record 'p loop_memory =
  loop_self :: addr
  loop_events :: addr
  loop_fired :: addr
  loop_setsize :: int
  apidata :: aeApiState
  beforesleep :: "'p option"
  aftersleep :: "'p option"

definition aeCreateEventLoop_memory ::
  "('a os_scheme) api_memory \<Rightarrow> int \<Rightarrow> 'a os_scheme \<Rightarrow> ('p loop_memory option \<times> 'a os_scheme) option" where
  "aeCreateEventLoop_memory api n w = do {
     (eventLoop, w1) \<leftarrow> own_zmalloc 80 w;
     (events, w2) \<leftarrow> own_zmalloc (array_bytes 32 n) w1;
     (fired, w3) \<leftarrow> own_zmalloc (array_bytes 8 n) w2;
     (s, w4) \<leftarrow> state_new api n w3;
     case s of
       None \<Rightarrow> Some (None, c_free eventLoop (c_free fired (c_free events w4)))
     | Some st \<Rightarrow> Some (Some \<lparr>loop_self = eventLoop, loop_events = events, loop_fired = fired, loop_setsize = n,
         apidata = st, beforesleep = None, aftersleep = None\<rparr>, w4)
   }"

text \<open>
  What a resizing does to the memory. The test of the largest descriptor comes before it and
  is in \<open>aeResizeSetSize\<close> of \<open>Ae\<close>; here every resizing is let through, the refused ones too.
\<close>

definition aeResizeSetSize_memory ::
  "('a os_scheme) api_memory \<Rightarrow> int \<Rightarrow> 'p loop_memory \<Rightarrow> 'a os_scheme \<Rightarrow> ('p loop_memory \<times> 'a os_scheme) option" where
  "aeResizeSetSize_memory api n l w =
     (if n = loop_setsize l then Some (l, w)
      else do {
        (s, w1) \<leftarrow> state_resize api n (apidata l) w;
        case s of
          None \<Rightarrow> Some (l, w1)
        | Some st \<Rightarrow> do {
            (events, w2) \<leftarrow> own_zrealloc (loop_events l) (array_bytes 32 n) w1;
            (fired, w3) \<leftarrow> own_zrealloc (loop_fired l) (array_bytes 8 n) w2;
            Some (l\<lparr>loop_events := events, loop_fired := fired, loop_setsize := n, apidata := st\<rparr>, w3)
          }
      })"

definition aeDeleteEventLoop :: "('a os_scheme) api_memory \<Rightarrow> 'p loop_memory \<Rightarrow> 'a os_scheme \<Rightarrow> 'a os_scheme" where
  "aeDeleteEventLoop api l w =
     (let w1 = state_free api (apidata l) w
      in c_free (loop_self l) (c_free (loop_fired l) (c_free (loop_events l) w1)))"

definition aeSetBeforeSleepProc :: "'p option \<Rightarrow> 'p loop_memory \<Rightarrow> 'p loop_memory" where
  "aeSetBeforeSleepProc f l = l\<lparr>beforesleep := f\<rparr>"

definition aeSetAfterSleepProc :: "'p option \<Rightarrow> 'p loop_memory \<Rightarrow> 'p loop_memory" where
  "aeSetAfterSleepProc f l = l\<lparr>aftersleep := f\<rparr>"

section \<open>Who owns what\<close>

text \<open>The blocks \<open>K\<close> and the descriptors \<open>F\<close> are what \<open>w\<close> has more than \<open>w0\<close>.\<close>

definition owning :: "'a os_scheme \<Rightarrow> addr multiset \<Rightarrow> fd set \<Rightarrow> 'a os_scheme \<Rightarrow> bool" where
  "owning w0 K F w \<longleftrightarrow> mset (blocks w) = mset (blocks w0) + K \<and> NULL \<notin># K \<and> bad_free w = bad_free w0 \<and>
     (\<forall>fd. open_fds w fd \<longleftrightarrow> open_fds w0 fd \<or> fd \<in> F) \<and> (\<forall>fd \<in> F. \<not> open_fds w0 fd)"

lemma owning_refl: "owning w {#} {} w"
  by (simp add: owning_def)

lemma owning_malloc: "owning w0 K F w \<Longrightarrow> own_zmalloc k w = Some (a, w') \<Longrightarrow> owning w0 (add_mset a K) F w'"
  by (auto simp: owning_def own_zmalloc_def c_malloc_def Let_def split: if_splits list.splits)

lemma owning_free: "owning w0 (add_mset a K) F w \<Longrightarrow> owning w0 K F (c_free a w)"
proof -
  assume own: "owning w0 (add_mset a K) F w"
  then have blocks: "mset (blocks w) = add_mset a (mset (blocks w0) + K)" "a \<noteq> NULL" by (auto simp: owning_def)
  then have "a \<in># mset (blocks w)" by simp
  then have "a \<in> set (blocks w)" by simp
  then show ?thesis using own blocks by (simp add: owning_def c_free_def)
qed

lemma owning_realloc: "owning w0 (add_mset a K) F w \<Longrightarrow> own_zrealloc a k w = Some (b, w') \<Longrightarrow> owning w0 (add_mset b K) F w'"
  unfolding own_zrealloc_def using owning_malloc [OF owning_free] .

lemma owning_open:
  assumes "owning w0 K F w" "open_queue pick w = (fd, w')"
  shows "if fd = - 1 then owning w0 K F w' else fd \<notin> F \<and> owning w0 K (insert fd F) w'"
proof -
  obtain b w1 where f: "next_fault w = (b, w1)" by (cases "next_fault w")
  then have same: "blocks w1 = blocks w" "bad_free w1 = bad_free w" "open_fds w1 = open_fds w"
    by (auto simp: next_fault_def split: list.splits)
  have own: "owning w0 K F w1" using assms(1) by (simp add: owning_def same)
  show ?thesis using assms(2) f own by (auto simp: open_queue_def owning_def split: if_splits)
qed

lemma owning_close: "owning w0 K (insert fd F) w \<Longrightarrow> fd \<notin> F \<Longrightarrow> owning w0 K F (os_close fd w)"
  by (auto simp: owning_def os_close_def)

section \<open>The contract of a layer\<close>

definition api_held :: "aeApiState \<Rightarrow> addr multiset" where
  "api_held s = add_mset (api_state s) (case api_events s of None \<Rightarrow> {#} | Some a \<Rightarrow> {#a#})"

definition api_fds :: "aeApiState \<Rightarrow> fd set" where
  "api_fds s = set_option (api_queue s)"

definition loop_held :: "'p loop_memory \<Rightarrow> addr multiset" where
  "loop_held l = {#loop_self l, loop_events l, loop_fired l#} + api_held (apidata l)"

locale layer_memory =
  fixes pick :: "'a os_scheme \<Rightarrow> fd" and api :: "('a os_scheme) api_memory"
  assumes create: "owning w0 K F w \<Longrightarrow> state_new api n w = Some (r, w') \<Longrightarrow>
      (case r of None \<Rightarrow> owning w0 K F w' | Some s \<Rightarrow> F \<inter> api_fds s = {} \<and> owning w0 (K + api_held s) (F \<union> api_fds s) w')"
    and resize: "owning w0 (K + api_held s) F w \<Longrightarrow> state_resize api n s w = Some (r, w') \<Longrightarrow>
      (case r of None \<Rightarrow> owning w0 (K + api_held s) F w' | Some s' \<Rightarrow> api_fds s' = api_fds s \<and> owning w0 (K + api_held s') F w')"
    and free: "F \<inter> api_fds s = {} \<Longrightarrow> owning w0 (K + api_held s) (F \<union> api_fds s) w \<Longrightarrow> owning w0 K F (state_free api s w)"
begin

lemma create_loop:
  assumes "owning w0 K F w" "aeCreateEventLoop_memory api n w = Some (r, w')"
  shows "case r of None \<Rightarrow> owning w0 K F w'
    | Some l \<Rightarrow> F \<inter> api_fds (apidata l) = {} \<and> owning w0 (K + loop_held l) (F \<union> api_fds (apidata l)) w'"
proof -
  obtain a b c t w1 w2 w3 w4 where m: "own_zmalloc 80 w = Some (a, w1)" "own_zmalloc (array_bytes 32 n) w1 = Some (b, w2)"
    "own_zmalloc (array_bytes 8 n) w2 = Some (c, w3)" "state_new api n w3 = Some (t, w4)"
    and r: "(case t of None \<Rightarrow> Some (None, c_free a (c_free c (c_free b w4)))
     | Some st \<Rightarrow> Some (Some \<lparr>loop_self = a, loop_events = b, loop_fired = c, loop_setsize = n, apidata = st, beforesleep = None,
         aftersleep = None\<rparr>, w4)) = Some (r, w')"
    using assms(2) by (auto simp: aeCreateEventLoop_memory_def bind_eq_Some_conv)
  have own: "owning w0 (add_mset b (add_mset c (add_mset a K))) F w3"
    using owning_malloc [OF owning_malloc [OF owning_malloc [OF assms(1) m(1)] m(2)] m(3)] by (simp add: add_mset_commute)
  note made = create [OF own m(4)]
  show ?thesis
  proof (cases t)
    case None
    then show ?thesis using r made owning_free [OF owning_free [OF owning_free]] by auto
  next
    case (Some s)
    then show ?thesis using r made by (auto simp: loop_held_def add_mset_commute)
  qed
qed

lemma resize_loop:
  assumes "owning w0 (K + loop_held l) F w" "aeResizeSetSize_memory api n l w = Some (l', w')"
  shows "api_fds (apidata l') = api_fds (apidata l) \<and> owning w0 (K + loop_held l') F w'"
proof (cases "n = loop_setsize l")
  case True
  then show ?thesis using assms by (simp add: aeResizeSetSize_memory_def)
next
  case False
  obtain t w1 where t: "state_resize api n (apidata l) w = Some (t, w1)"
    using assms(2) False by (auto simp: aeResizeSetSize_memory_def bind_eq_Some_conv)
  let ?K = "K + {#loop_self l, loop_events l, loop_fired l#}"
  have "owning w0 (?K + api_held (apidata l)) F w" using assms(1) by (simp add: loop_held_def)
  note sized = resize [OF this t]
  show ?thesis
  proof (cases t)
    case None
    then show ?thesis using assms(2) False t sized by (simp add: aeResizeSetSize_memory_def loop_held_def)
  next
    case (Some s)
    obtain b c w2 where m: "own_zrealloc (loop_events l) (array_bytes 32 n) w1 = Some (b, w2)"
      "own_zrealloc (loop_fired l) (array_bytes 8 n) w2 = Some (c, w')"
      "l' = l\<lparr>loop_events := b, loop_fired := c, loop_setsize := n, apidata := s\<rparr>"
      using assms(2) False t Some by (auto simp: aeResizeSetSize_memory_def bind_eq_Some_conv)
    let ?R = "add_mset (loop_self l) (K + api_held s)"
    have "owning w0 (add_mset (loop_events l) (add_mset (loop_fired l) ?R)) F w1"
      using sized Some by (simp add: add_mset_commute)
    then have "owning w0 (add_mset (loop_fired l) (add_mset b ?R)) F w2"
      using owning_realloc [OF _ m(1)] by (simp add: add_mset_commute)
    then have "owning w0 (add_mset c (add_mset b ?R)) F w'" by (rule owning_realloc [OF _ m(2)])
    then show ?thesis using sized Some m(3) by (simp add: loop_held_def add_mset_commute)
  qed
qed

lemma delete_loop_memory:
  assumes "F \<inter> api_fds (apidata l) = {}" "owning w0 (K + loop_held l) (F \<union> api_fds (apidata l)) w"
  shows "owning w0 K F (aeDeleteEventLoop api l w)"
proof -
  let ?K = "add_mset (loop_events l) (add_mset (loop_fired l) (add_mset (loop_self l) K))"
  have "owning w0 (?K + api_held (apidata l)) (F \<union> api_fds (apidata l)) w"
    using assms(2) by (simp add: loop_held_def add_mset_commute)
  then have "owning w0 ?K F (state_free api (apidata l) w)" by (rule free [OF assms(1)])
  then show ?thesis unfolding aeDeleteEventLoop_def Let_def by (intro owning_free)
qed

end

section \<open>The four layers\<close>

lemma queue_create:
  assumes "owning w0 K F w" "queue_aeApiCreate esize pick n w = Some (r, w')"
  shows "case r of None \<Rightarrow> owning w0 K F w' | Some s \<Rightarrow> F \<inter> api_fds s = {} \<and> owning w0 (K + api_held s) (F \<union> api_fds s) w'"
proof -
  obtain a b w1 w2 where m: "own_zmalloc 16 w = Some (a, w1)" "own_zmalloc (array_bytes esize n) w1 = Some (b, w2)"
    using assms(2) by (auto simp: queue_aeApiCreate_def bind_eq_Some_conv)
  obtain fd w3 where q: "open_queue pick w2 = (fd, w3)" by (cases "open_queue pick w2")
  have "owning w0 (add_mset b (add_mset a K)) F w2" by (rule owning_malloc [OF owning_malloc [OF assms(1) m(1)] m(2)])
  note opened = owning_open [OF this q]
  show ?thesis
    using assms(2) m q opened owning_free [OF owning_free [of w0 b "add_mset a K" F w3 for a b]]
    by (auto simp: queue_aeApiCreate_def api_held_def api_fds_def add_mset_commute split: if_splits intro: owning_free)
qed

lemma queue_resize:
  "owning w0 (K + api_held s) F w \<Longrightarrow> queue_aeApiResize esize n s w = Some (r, w') \<Longrightarrow>
   (case r of None \<Rightarrow> owning w0 (K + api_held s) F w' | Some s' \<Rightarrow> api_fds s' = api_fds s \<and> owning w0 (K + api_held s') F w')"
  using owning_realloc [of w0 _ "add_mset (api_state s) K" F w]
  by (auto simp: queue_aeApiResize_def bind_eq_Some_conv api_held_def api_fds_def add_mset_commute)

lemma state_free:
  assumes "F \<inter> api_fds s = {}" "owning w0 (K + api_held s) (F \<union> api_fds s) w"
  shows "owning w0 K F (aeApiFree s w)"
proof -
  let ?w = "case api_queue s of None \<Rightarrow> w | Some fd \<Rightarrow> os_close fd w"
  have "owning w0 (K + api_held s) F ?w"
    using assms owning_close [of w0 "K + api_held s" _ F w] by (auto simp: api_fds_def split: option.split)
  then have "owning w0 (add_mset (api_state s) K) F (opt_free (api_events s) ?w)"
    by (cases "api_events s") (auto simp: api_held_def opt_free_def add_mset_commute intro: owning_free)
  then show ?thesis unfolding aeApiFree_def Let_def by (rule owning_free)
qed

lemma select_create:
  "owning w0 K F w \<Longrightarrow> select_state_new n w = Some (r, w') \<Longrightarrow>
   (case r of None \<Rightarrow> owning w0 K F w' | Some s \<Rightarrow> F \<inter> api_fds s = {} \<and> owning w0 (K + api_held s) (F \<union> api_fds s) w')"
  by (auto simp: select_state_new_def bind_eq_Some_conv api_fds_def api_held_def intro: owning_malloc)

lemma evport_create:
  assumes "owning w0 K F w" "evport_state_new pick n w = Some (r, w')"
  shows "case r of None \<Rightarrow> owning w0 K F w' | Some s \<Rightarrow> F \<inter> api_fds s = {} \<and> owning w0 (K + api_held s) (F \<union> api_fds s) w'"
proof -
  obtain a w1 where m: "own_zmalloc 4104 w = Some (a, w1)"
    using assms(2) by (auto simp: evport_state_new_def bind_eq_Some_conv)
  obtain fd w2 where q: "open_queue pick w1 = (fd, w2)" by (cases "open_queue pick w1")
  note opened = owning_open [OF owning_malloc [OF assms(1) m] q]
  show ?thesis
    using assms(2) m q opened by (auto simp: evport_state_new_def api_held_def api_fds_def split: if_splits intro: owning_free)
qed

interpretation epoll_mem: layer_memory pick "epoll_memory pick" for pick
  by unfold_locales (simp_all add: epoll_memory_def queue_create queue_resize state_free)

interpretation kqueue_mem: layer_memory pick "kqueue_memory pick" for pick
  by unfold_locales (simp_all add: kqueue_memory_def queue_create queue_resize state_free)

interpretation select_mem: layer_memory pick select_memory for pick
  by unfold_locales (auto simp: select_memory_def select_create state_free select_state_resize_def split: option.splits if_splits)

interpretation evport_mem: layer_memory pick "evport_memory pick" for pick
  by unfold_locales (auto simp: evport_memory_def evport_create state_free evport_state_resize_def split: option.splits)

section \<open>A whole life\<close>

fun resize_all ::
  "('a os_scheme) api_memory \<Rightarrow> int list \<Rightarrow> 'p loop_memory \<Rightarrow> 'a os_scheme \<Rightarrow> ('p loop_memory \<times> 'a os_scheme) option" where
  "resize_all api [] l w = Some (l, w)"
| "resize_all api (n # ns) l w = do { (l1, w1) \<leftarrow> aeResizeSetSize_memory api n l w; resize_all api ns l1 w1 }"

definition same_resources :: "'a os_scheme \<Rightarrow> 'a os_scheme \<Rightarrow> bool" where
  "same_resources w w' \<longleftrightarrow> mset (blocks w') = mset (blocks w) \<and> bad_free w' = bad_free w \<and> open_fds w' = open_fds w"

lemma owning_nothing: "owning w {#} {} w' \<longleftrightarrow> same_resources w w'"
  by (auto simp: owning_def same_resources_def)

context layer_memory
begin

lemma resize_all_owning:
  "owning w0 (K + loop_held l) F w \<Longrightarrow> resize_all api ns l w = Some (l', w') \<Longrightarrow>
   api_fds (apidata l') = api_fds (apidata l) \<and> owning w0 (K + loop_held l') F w'"
proof (induction ns arbitrary: l w)
  case (Cons n ns)
  obtain l1 w1 where r: "aeResizeSetSize_memory api n l w = Some (l1, w1)" "resize_all api ns l1 w1 = Some (l', w')"
    using Cons.prems(2) by (auto simp: bind_eq_Some_conv)
  then show ?case using Cons.IH resize_loop [OF Cons.prems(1) r(1)] by auto
qed simp

lemma whole_life:
  assumes "aeCreateEventLoop_memory api n w = Some (r, w1)"
  shows "case r of None \<Rightarrow> same_resources w w1
    | Some l \<Rightarrow> \<forall>ns l2 w2. resize_all api ns l w1 = Some (l2, w2) \<longrightarrow> same_resources w (aeDeleteEventLoop api l2 w2)"
proof (cases r)
  case None
  then show ?thesis using create_loop [OF owning_refl assms] by (simp add: owning_nothing)
next
  case (Some l)
  then have l: "owning w ({#} + loop_held l) ({} \<union> api_fds (apidata l)) w1" using create_loop [OF owning_refl assms] by simp
  have "same_resources w (aeDeleteEventLoop api l2 w2)" if "resize_all api ns l w1 = Some (l2, w2)" for ns l2 w2
    using resize_all_owning [OF l that] delete_loop_memory [of "{}" l2 w "{#}" w2] by (simp add: owning_nothing)
  then show ?thesis using Some by simp
qed

end

text \<open>
  C20: An event loop gives everything back: whichever layer it is built on, a creation that fails leaves
  no block and no descriptor behind, and deleting a loop that was created and resized any number of
  times frees each of its blocks once, closes its queue and touches nothing else.
\<close>

theorem loop_life_no_leak:
  assumes "api \<in> {epoll_memory pick, kqueue_memory pick, select_memory, evport_memory pick}"
    and "aeCreateEventLoop_memory api n w = Some (r, w1)"
  shows "case r of None \<Rightarrow> same_resources w w1
    | Some l \<Rightarrow> \<forall>ns l2 w2. resize_all api ns l w1 = Some (l2, w2) \<longrightarrow> same_resources w (aeDeleteEventLoop api l2 w2)"
  using assms epoll_mem.whole_life kqueue_mem.whole_life select_mem.whole_life evport_mem.whole_life by blast

definition demo_os :: os where
  "demo_os = \<lparr>pending = [8, 16, 24, 32, 40, 48, 56, 64, 72], blocks = [1000], bad_free = False, zeroed = [], open_fds = (\<lambda>fd. fd = 0),
     interest = (\<lambda>_. None), watch_faults = [], ready = []\<rparr>"

lemma loop_life_no_leak_witness:
  "\<exists>(l :: unit loop_memory) w1 l2 w2. aeCreateEventLoop_memory (epoll_memory (\<lambda>_. 3)) 16 demo_os = Some (Some l, w1) \<and> open_fds w1 3 \<and>
     length (blocks w1) = 6 \<and> resize_all (epoll_memory (\<lambda>_. 3)) [32] l w1 = Some (l2, w2) \<and>
     same_resources demo_os (aeDeleteEventLoop (epoll_memory (\<lambda>_. 3)) l2 w2)"
proof -
  obtain l :: "unit loop_memory" and w1 l2 w2 where r: "aeCreateEventLoop_memory (epoll_memory (\<lambda>_. 3)) 16 demo_os = Some (Some l, w1)"
    "open_fds w1 3" "length (blocks w1) = 6" "resize_all (epoll_memory (\<lambda>_. 3)) [32] l w1 = Some (l2, w2)"
    by (simp add: aeCreateEventLoop_memory_def own_zmalloc_def c_malloc_def demo_os_def epoll_memory_def queue_aeApiCreate_def
        open_queue_def next_fault_def aeResizeSetSize_memory_def own_zrealloc_def queue_aeApiResize_def c_free_def)
  moreover have "same_resources demo_os (aeDeleteEventLoop (epoll_memory (\<lambda>_. 3)) l2 w2)"
    using loop_life_no_leak [OF _ r(1), where pick = "\<lambda>_. 3"] r(4) unfolding option.case by blast
  ultimately show ?thesis by blast
qed

end
