(* ===== verification/Sockets.thy ===== *)
theory Sockets
  imports Ae_Backend
begin

text \<open>
  The system calls of the connection handlers on non-blocking sockets. What the peers and the
  kernel answer is the environment, a parameter: it may look at the whole state \<open>'n\<close> of the
  process, and \<open>tick\<close> counts the calls, so every sequence of answers is some environment. The
  kernel's own guarantees are written into the calls: a read returns at most the bytes asked for, a
  write accepts at most the bytes offered, a closed descriptor is an error, a new descriptor was
  not open before.
\<close>

datatype rd = RdData string | RdEof | RdAgain | RdErr
datatype wr = WrSome nat | WrAgain | WrErr

record 'n env =
  env_read :: "fd \<Rightarrow> nat \<Rightarrow> 'n \<Rightarrow> rd"
  env_write :: "fd \<Rightarrow> string \<Rightarrow> 'n \<Rightarrow> wr"
  env_accept :: "'n \<Rightarrow> fd option"
  env_connect :: "'n \<Rightarrow> nat \<times> fd"
  env_time :: "'n \<Rightarrow> int"

record sock = os +
  sent :: "fd \<Rightarrow> string"
  tick :: nat

definition tock :: "'a sock_scheme \<Rightarrow> 'a sock_scheme" where
  "tock w = w\<lparr>tick := tick w + 1\<rparr>"

text \<open>A result of 0, from the peer or because nothing was asked for, is \<open>RdEof\<close>.\<close>

definition sys_read :: "('a sock_scheme) env \<Rightarrow> fd \<Rightarrow> nat \<Rightarrow> 'a sock_scheme \<Rightarrow> rd \<times> 'a sock_scheme" where
  "sys_read E fd n w =
     (if \<not> open_fds w fd then (RdErr, tock w)
      else case env_read E fd n w of
          RdData s \<Rightarrow> (if take n s = [] then RdEof else RdData (take n s), tock w)
        | r \<Rightarrow> (if n = 0 then RdEof else r, tock w))"

definition sys_write :: "('a sock_scheme) env \<Rightarrow> fd \<Rightarrow> string \<Rightarrow> 'a sock_scheme \<Rightarrow> wr \<times> 'a sock_scheme" where
  "sys_write E fd s w =
     (if \<not> open_fds w fd then (WrErr, tock w)
      else case env_write E fd s w of
          WrSome n \<Rightarrow> (WrSome (min n (length s)), tock (w\<lparr>sent := (sent w)(fd := sent w fd @ take n s)\<rparr>))
        | r \<Rightarrow> (r, tock w))"

definition sys_close :: "fd \<Rightarrow> 'a sock_scheme \<Rightarrow> 'a sock_scheme" where
  "sys_close fd w = os_close fd w"

definition sys_accept :: "('a sock_scheme) env \<Rightarrow> 'a sock_scheme \<Rightarrow> fd option \<times> 'a sock_scheme" where
  "sys_accept E w =
     (case env_accept E w of
        None \<Rightarrow> (None, tock w)
      | Some fd \<Rightarrow>
          if fd < 0 \<or> open_fds w fd then (None, tock w)
          else (Some fd, tock (w\<lparr>open_fds := (open_fds w)(fd := True), sent := (sent w)(fd := [])\<rparr>)))"

text \<open>\<^verbatim>\<open>get_current_time_ms\<close>.\<close>

definition sys_time :: "('a sock_scheme) env \<Rightarrow> 'a sock_scheme \<Rightarrow> int \<times> 'a sock_scheme" where
  "sys_time E w = (env_time E w, tock w)"

text \<open>
  \<^verbatim>\<open>anetTcpConnect\<close> in a loop that sleeps between the attempts: the environment says how many fail
  before one succeeds, and with which descriptor. That the kernel gives a descriptor that is not in use is a
  hypothesis of the properties that need it (\<open>lowest_free\<close> of \<open>Boot\<close>).
\<close>

fun connect_retry :: "nat \<Rightarrow> fd \<Rightarrow> 'a sock_scheme \<Rightarrow> fd \<times> 'a sock_scheme" where
  "connect_retry 0 fd w = (fd, tock (w\<lparr>open_fds := (open_fds w)(fd := True), sent := (sent w)(fd := [])\<rparr>))"
| "connect_retry (Suc n) fd w = connect_retry n fd (tock w)"

definition connect_loop :: "('a sock_scheme) env \<Rightarrow> 'a sock_scheme \<Rightarrow> fd \<times> 'a sock_scheme" where
  "connect_loop E w = (let (n, fd) = env_connect E w in connect_retry n fd w)"

text \<open>Copying bytes into a buffer at an offset.\<close>

definition blit :: "nat \<Rightarrow> string \<Rightarrow> string \<Rightarrow> string" where
  "blit i s buf = take i buf @ s @ drop (i + length s) buf"

lemma length_blit [simp]: "i + length s \<le> length buf \<Longrightarrow> length (blit i s buf) = length buf"
  by (simp add: blit_def)

lemma blit_slice [simp]: "i + length s \<le> length buf \<Longrightarrow> take (length s) (drop i (blit i s buf)) = s"
  by (simp add: blit_def)

lemma take_blit [simp]: "i \<le> length buf \<Longrightarrow> take (i + length s) (blit i s buf) = take i buf @ s"
  by (simp add: blit_def)

end
