(* ===== verification/C_Strings.thy ===== *)
theory C_Strings
  imports Mesh_Prelude
begin

text \<open>
  The C library's string functions the program uses. A string argument is the memory from the
  pointer to the end of the buffer it points into; a value None is a NULL result or a read outside
  that memory, neither of which any caller of the program survives or tells apart.
\<close>

section \<open>Searching\<close>

abbreviation NUL :: char where "NUL \<equiv> CHR 0x00"

text \<open>\<^verbatim>\<open>strchr\<close> for a character other than NUL: the offset of the first occurrence.\<close>

fun strchr :: "string \<Rightarrow> char \<Rightarrow> nat option" where
  "strchr [] c = None"
| "strchr (x # xs) c = (if x = c then Some 0 else if x = NUL then None else map_option Suc (strchr xs c))"

text \<open>\<^verbatim>\<open>strchr(s, c) + 1\<close>, as the memory from there.\<close>

definition past_chr :: "string \<Rightarrow> char \<Rightarrow> string option" where
  "past_chr s c = map_option (\<lambda>i. drop (Suc i) s) (strchr s c)"

text \<open>\<^verbatim>\<open>strrchr(s, c) + 1\<close> on the characters of a string.\<close>

definition past_last :: "string \<Rightarrow> char \<Rightarrow> string option" where
  "past_last s c = (if c \<in> set s then Some (rev (takeWhile (\<lambda>x. x \<noteq> c) (rev s))) else None)"

lemma past_last_append: "c \<notin> set t \<Longrightarrow> past_last (s @ c # t) c = Some t"
proof -
  assume "c \<notin> set t"
  then have eq: "takeWhile (\<lambda>x. x \<noteq> c) (rev t) = rev t" by (auto simp: takeWhile_eq_all_conv)
  show ?thesis by (simp add: past_last_def takeWhile_tail eq)
qed

text \<open>The string up to its NUL, and its first \<open>n\<close> bytes at most (\<^verbatim>\<open>%s\<close> and \<^verbatim>\<open>%.*s\<close>).\<close>

fun c_string :: "string \<Rightarrow> string option" where
  "c_string [] = None"
| "c_string (x # xs) = (if x = NUL then Some [] else map_option ((#) x) (c_string xs))"

fun c_prefix :: "nat \<Rightarrow> string \<Rightarrow> string option" where
  "c_prefix 0 s = Some []"
| "c_prefix (Suc n) [] = None"
| "c_prefix (Suc n) (x # xs) = (if x = NUL then Some [] else map_option ((#) x) (c_prefix n xs))"

text \<open>A negative precision is taken as if there were none.\<close>

definition printf_s :: "int \<Rightarrow> string \<Rightarrow> string option" where
  "printf_s prec s = (if prec < 0 then c_string s else c_prefix (nat prec) s)"

text \<open>\<^verbatim>\<open>strncmp(a, b, n) == 0\<close>; what is behind the end of a literal reads as NUL.\<close>

fun strncmp_eq :: "nat \<Rightarrow> string \<Rightarrow> string \<Rightarrow> bool" where
  "strncmp_eq 0 a b = True"
| "strncmp_eq (Suc n) a b =
     (let x = (case a of [] \<Rightarrow> NUL | c # _ \<Rightarrow> c); y = (case b of [] \<Rightarrow> NUL | c # _ \<Rightarrow> c)
      in x = y \<and> (x = NUL \<or> strncmp_eq n (tl a) (tl b)))"

lemma strchr_first: "c \<notin> set s \<Longrightarrow> NUL \<notin> set s \<Longrightarrow> strchr (s @ c # t) c = Some (length s)"
  by (induction s) auto

lemma past_chr_first: "c \<notin> set s \<Longrightarrow> NUL \<notin> set s \<Longrightarrow> past_chr (s @ c # t) c = Some t"
  by (simp add: past_chr_def strchr_first)

lemma c_prefix_all: "NUL \<notin> set s \<Longrightarrow> c_prefix (length s) (s @ t) = Some s"
  by (induction s) auto

lemma c_prefix_NUL: "NUL \<notin> set s \<Longrightarrow> length s \<le> n \<Longrightarrow> c_prefix n (s @ NUL # t) = Some s"
proof (induction s arbitrary: n)
  case Nil
  then show ?case by (cases n) auto
next
  case (Cons x s)
  then show ?case by (cases n) auto
qed

lemma c_string_all: "NUL \<notin> set s \<Longrightarrow> c_string (s @ NUL # t) = Some s"
  by (induction s) auto

lemma c_prefix_length: "c_prefix n s = Some r \<Longrightarrow> length r \<le> n"
  by (induction n s arbitrary: r rule: c_prefix.induct) (auto split: if_splits)

lemma strncmp_eq_take: "NUL \<notin> set (take n a) \<Longrightarrow> n \<le> length a \<Longrightarrow> NUL \<notin> set b \<Longrightarrow>
    strncmp_eq n a b \<longleftrightarrow> take n a = take n b"
proof (induction n arbitrary: a b)
  case (Suc n)
  then obtain x xs where a: "a = x # xs" by (cases a) auto
  then have "x \<noteq> NUL" "NUL \<notin> set (take n xs)" using Suc.prems(1) by auto
  then show ?case using Suc.IH [of xs "tl b"] Suc.prems a by (cases b) auto
qed simp

section \<open>Numbers\<close>

text \<open>\<^verbatim>\<open>%d\<close> and \<^verbatim>\<open>%ld\<close>.\<close>

definition digit :: "nat \<Rightarrow> char" where "digit d = char_of (48 + d)"

fun dec :: "nat \<Rightarrow> string" where
  "dec n = (if n < 10 then [digit n] else dec (n div 10) @ [digit (n mod 10)])"

declare dec.simps [simp del]

definition show_int :: "int \<Rightarrow> string" where
  "show_int n = (if n < 0 then CHR ''-'' # dec (nat (- n)) else dec (nat n))"

text \<open>\<^verbatim>\<open>atoi\<close> without leading spaces: the value of the leading digits, after an optional sign.\<close>

definition digit_value :: "char \<Rightarrow> nat" where "digit_value c = of_char c - 48"

definition is_digit :: "char \<Rightarrow> bool" where "is_digit c \<longleftrightarrow> 48 \<le> (of_char c :: nat) \<and> (of_char c :: nat) \<le> 57"

fun atoi_digits :: "int \<Rightarrow> string \<Rightarrow> int" where
  "atoi_digits n [] = n"
| "atoi_digits n (c # cs) = (if is_digit c then atoi_digits (10 * n + int (digit_value c)) cs else n)"

definition atoi :: "string \<Rightarrow> int" where
  "atoi s = (case s of c # cs \<Rightarrow> if c = CHR ''-'' then - atoi_digits 0 cs else if c = CHR ''+'' then atoi_digits 0 cs
       else atoi_digits 0 s | [] \<Rightarrow> 0)"

lemma digit_of [simp]: "d < 10 \<Longrightarrow> is_digit (digit d) \<and> digit_value (digit d) = d"
  by (simp add: is_digit_def digit_value_def digit_def)

lemma atoi_digits_append:
  "\<forall>c \<in> set s. is_digit c \<Longrightarrow> atoi_digits n (s @ t) = atoi_digits (atoi_digits n s) t"
  by (induction s arbitrary: n) auto

lemma dec_digits: "\<forall>c \<in> set (dec n). is_digit c"
proof (induction n rule: dec.induct)
  case (1 n)
  then show ?case by (subst dec.simps) auto
qed

lemma dec_value: "atoi_digits 0 (dec n) = int n"
proof (induction n rule: dec.induct)
  case (1 n)
  have "int (10 * (n div 10) + n mod 10) = int n" by simp
  then have "10 * int (n div 10) + int (n mod 10) = int n" by (simp only: of_nat_add of_nat_mult of_nat_numeral)
  then show ?case using 1
    by (subst dec.simps) (auto simp: atoi_digits_append dec_digits)
qed

lemma dec_not_Nil [simp]: "dec n \<noteq> []"
  by (subst dec.simps) simp

lemma dec_no: "\<not> is_digit c \<Longrightarrow> c \<notin> set (dec n)"
  using dec_digits by blast

lemma atoi_dec: "\<not> is_digit c \<Longrightarrow> atoi (dec n @ c # t) = int n"
proof -
  assume c: "\<not> is_digit c"
  obtain d ds where d: "dec n = d # ds" by (cases "dec n") auto
  then have "is_digit d" using dec_digits [of n] by simp
  then have "d \<noteq> CHR ''-'' \<and> d \<noteq> CHR ''+''" by (auto simp: is_digit_def)
  then have "atoi (dec n @ c # t) = atoi_digits 0 (dec n @ c # t)" by (simp add: atoi_def d)
  then show ?thesis using atoi_digits_append [OF dec_digits] dec_value c by simp
qed

lemma atoi_dec_end: "atoi (dec n) = int n"
proof -
  obtain d ds where d: "dec n = d # ds" by (cases "dec n") auto
  then have "is_digit d" using dec_digits [of n] by simp
  then have "d \<noteq> CHR ''-'' \<and> d \<noteq> CHR ''+''" by (auto simp: is_digit_def)
  then show ?thesis using dec_value [of n] by (simp add: atoi_def d)
qed

lemma dec_length: "n < 10 ^ k \<Longrightarrow> 0 < k \<Longrightarrow> length (dec n) \<le> k"
proof (induction k arbitrary: n)
  case (Suc k)
  then show ?case
  proof (cases "n < 10")
    case False
    then have "n div 10 < 10 ^ k" "0 < k" using Suc.prems by (auto simp: div_less_iff_less_mult mult.commute intro: gr0I)
    then show ?thesis using Suc.IH False by (subst dec.simps) simp
  qed (subst dec.simps, simp)
qed simp

section \<open>Network byte order\<close>

text \<open>\<^verbatim>\<open>htonl\<close> and \<^verbatim>\<open>ntohl\<close> through a buffer.\<close>

definition be32 :: "u32 \<Rightarrow> string" where
  "be32 x = [char_of (unat x div 2 ^ 24), char_of (unat x div 2 ^ 16), char_of (unat x div 2 ^ 8), char_of (unat x)]"

definition ntohl :: "string \<Rightarrow> u32" where
  "ntohl s = of_nat (foldl (\<lambda>n c. 256 * n + of_char c) 0 (take 4 s))"

lemma length_be32 [simp]: "length (be32 x) = 4"
  by (simp add: be32_def)

lemma ntohl_be32 [simp]: "ntohl (be32 x @ t) = x"
proof -
  let ?n = "unat x" let ?a = "?n div 256" let ?b = "?a div 256" let ?c = "?b div 256"
  have "?n div 2 ^ 8 = ?a" "?n div 2 ^ 16 = ?b" "?n div 2 ^ 24 = ?c" by (simp_all add: div_mult2_eq [symmetric])
  moreover have "?c < 256" using unat_lt32 [of x] by (simp add: div_mult2_eq [symmetric] less_mult_imp_div_less)
  moreover from calculation have top: "?n div 2 ^ 24 mod 256 = ?n div 2 ^ 24" by simp
  moreover have "256 * ?a + ?n mod 256 = ?n" "256 * ?b + ?a mod 256 = ?a" "256 * ?c + ?b mod 256 = ?b" by simp_all
  ultimately have "256 * (256 * (256 * (?n div 2 ^ 24) + ?n div 2 ^ 16 mod 256) + ?n div 2 ^ 8 mod 256) + ?n mod 256 = ?n"
    by simp
  then have "foldl (\<lambda>n c. 256 * n + of_char c) 0 (take 4 (be32 x @ t)) = unat x" using top by (simp add: be32_def)
  then show ?thesis unfolding ntohl_def by (simp only: of_nat_unat ucast_id)
qed

end
