(* ===== verification/Anet.thy ===== *)
theory Anet
  imports Sockets C_Strings "HOL-Library.State_Monad" "HOL-Library.Signed_Division"
begin

text \<open>
  The socket helpers (\<^verbatim>\<open>src/src/anet.c\<close>) as state transformers over the descriptors of the process.
  What the kernel and the resolver answer is the environment. The state also counts the address lists
  not yet freed and notes a close of a descriptor that is not open.
\<close>

section \<open>The kernel and the resolver\<close>

definition ANET_OK :: int where "ANET_OK = 0"
definition ANET_ERR :: int where "ANET_ERR = - 1"
definition ANET_ERR_LEN :: nat where "ANET_ERR_LEN = 256"

definition ANET_NONE :: u32 where "ANET_NONE = 0"
definition ANET_IP_ONLY :: u32 where "ANET_IP_ONLY = 1"

datatype family = AF_UNSPEC | AF_INET | AF_INET6 | AF_LOCAL

text \<open>Addresses carry the text \<^verbatim>\<open>inet_ntop\<close> prints.\<close>

datatype sockaddr = Sa_inet string int | Sa_inet6 string int | Sa_unix string | Sa_other

record addrinfo =
  ai_family :: family
  ai_addr :: sockaddr

datatype sockopt = SO_KEEPALIVE | TCP_KEEPIDLE | TCP_KEEPINTVL | TCP_KEEPCNT | TCP_NODELAY | SO_SNDBUF | SO_SNDTIMEO
  | SO_REUSEADDR | SO_REUSEPORT | IPV6_V6ONLY

datatype optval = Val int | Timeval int int

datatype connecting = Connected | In_progress | Refused
datatype accepting = Accepted fd sockaddr | Interrupted | No_connection

record anet = sock +
  nonblock :: "fd \<Rightarrow> bool"
  opts :: "(fd \<times> sockopt \<times> optval) list"
  infos :: nat
  bad_close :: bool
  err_text :: string

text \<open>The resolver's list is not empty when it succeeds.\<close>

record anet_env =
  e_getaddrinfo :: "string option \<Rightarrow> string option \<Rightarrow> bool \<Rightarrow> family \<Rightarrow> anet \<Rightarrow> string + addrinfo \<times> addrinfo list"
  e_socket :: "family \<Rightarrow> anet \<Rightarrow> fd option"
  e_setsockopt :: "fd \<Rightarrow> sockopt \<Rightarrow> optval \<Rightarrow> anet \<Rightarrow> bool"
  e_getfl :: "fd \<Rightarrow> anet \<Rightarrow> bool"
  e_setfl :: "fd \<Rightarrow> anet \<Rightarrow> bool"
  e_bind :: "fd \<Rightarrow> sockaddr \<Rightarrow> anet \<Rightarrow> bool"
  e_connect :: "fd \<Rightarrow> sockaddr \<Rightarrow> anet \<Rightarrow> connecting"
  e_listen :: "fd \<Rightarrow> int \<Rightarrow> anet \<Rightarrow> bool"
  e_accept :: "fd \<Rightarrow> anet \<Rightarrow> accepting"
  e_peer :: "fd \<Rightarrow> anet \<Rightarrow> sockaddr option"
  e_name :: "fd \<Rightarrow> anet \<Rightarrow> sockaddr option"
  e_strerror :: "anet \<Rightarrow> string"

type_synonym 'a act = "(anet, 'a) state"

definition ask :: "(anet \<Rightarrow> 'a) \<Rightarrow> 'a act" where
  "ask f = State (\<lambda>k. (f k, tock k))"

definition a_setsockopt :: "anet_env \<Rightarrow> fd \<Rightarrow> sockopt \<Rightarrow> optval \<Rightarrow> bool act" where
  "a_setsockopt E fd opt v = State (\<lambda>k.
     if open_fds k fd \<and> e_setsockopt E fd opt v k then (True, tock (k\<lparr>opts := (fd, opt, v) # opts k\<rparr>)) else (False, tock k))"

definition a_socket :: "anet_env \<Rightarrow> family \<Rightarrow> fd option act" where
  "a_socket E af = State (\<lambda>k.
     case e_socket E af k of
       None \<Rightarrow> (None, tock k)
     | Some fd \<Rightarrow>
         if fd < 0 \<or> open_fds k fd then (None, tock k)
         else (Some fd, tock (k\<lparr>open_fds := (open_fds k)(fd := True), sent := (sent k)(fd := []), nonblock := (nonblock k)(fd := False)\<rparr>)))"

definition a_close :: "fd \<Rightarrow> unit act" where
  "a_close fd = State (\<lambda>k. ((), (sys_close fd k)\<lparr>bad_close := bad_close k \<or> \<not> open_fds k fd\<rparr>))"

definition a_getaddrinfo ::
  "anet_env \<Rightarrow> string option \<Rightarrow> string option \<Rightarrow> bool \<Rightarrow> family \<Rightarrow> (string + addrinfo \<times> addrinfo list) act" where
  "a_getaddrinfo E host serv numeric af = State (\<lambda>k.
     case e_getaddrinfo E host serv numeric af k of
       Inl e \<Rightarrow> (Inl e, tock k)
     | Inr l \<Rightarrow> (Inr l, tock (k\<lparr>infos := infos k + 1\<rparr>)))"

definition a_freeaddrinfo :: "unit act" where
  "a_freeaddrinfo = State (\<lambda>k. ((), k\<lparr>infos := infos k - 1\<rparr>))"

text \<open>The buffer for messages may be NULL; \<open>err\<close> says whether it is given.\<close>

definition anetSetError :: "bool \<Rightarrow> string \<Rightarrow> unit act" where
  "anetSetError err msg = State (\<lambda>k. ((), if err then k\<lparr>err_text := take (ANET_ERR_LEN - 1) msg\<rparr> else k))"

definition set_errno :: "anet_env \<Rightarrow> bool \<Rightarrow> string \<Rightarrow> string \<Rightarrow> unit act" where
  "set_errno E err pre post = do { s \<leftarrow> ask (e_strerror E); anetSetError err (pre @ s @ post) }"

definition newline :: string where "newline = [CHR 0x0A]"

section \<open>Options\<close>

definition anetSetBlock :: "anet_env \<Rightarrow> bool \<Rightarrow> fd \<Rightarrow> bool \<Rightarrow> int act" where
  "anetSetBlock E err fd non_block = do {
     got \<leftarrow> ask (\<lambda>k. open_fds k fd \<and> e_getfl E fd k);
     if \<not> got then do { set_errno E err ''fcntl(F_GETFL): '' []; State_Monad.return ANET_ERR }
     else do {
       ok \<leftarrow> State (\<lambda>k. if open_fds k fd \<and> e_setfl E fd k then (True, tock (k\<lparr>nonblock := (nonblock k)(fd := non_block)\<rparr>)) else (False, tock k));
       if \<not> ok then do { set_errno E err ''fcntl(F_SETFL,O_NONBLOCK): '' []; State_Monad.return ANET_ERR }
       else State_Monad.return ANET_OK
     }
   }"

definition anetNonBlock :: "anet_env \<Rightarrow> bool \<Rightarrow> fd \<Rightarrow> int act" where
  "anetNonBlock E err fd = anetSetBlock E err fd True"

definition anetBlock :: "anet_env \<Rightarrow> bool \<Rightarrow> fd \<Rightarrow> int act" where
  "anetBlock E err fd = anetSetBlock E err fd False"

text \<open>One \<^verbatim>\<open>setsockopt\<close> with its error message.\<close>

definition set_option :: "anet_env \<Rightarrow> bool \<Rightarrow> fd \<Rightarrow> sockopt \<Rightarrow> optval \<Rightarrow> string \<Rightarrow> string \<Rightarrow> int act" where
  "set_option E err fd opt v pre post = do {
     ok \<leftarrow> a_setsockopt E fd opt v;
     if \<not> ok then do { set_errno E err pre post; State_Monad.return ANET_ERR } else State_Monad.return ANET_OK
   }"

definition anetKeepAlive :: "anet_env \<Rightarrow> bool \<Rightarrow> fd \<Rightarrow> int \<Rightarrow> int act" where
  "anetKeepAlive E err fd interval = do {
     r1 \<leftarrow> set_option E err fd SO_KEEPALIVE (Val 1) ''setsockopt SO_KEEPALIVE: '' [];
     if r1 = ANET_ERR then State_Monad.return ANET_ERR
     else do {
       r2 \<leftarrow> set_option E err fd TCP_KEEPIDLE (Val interval) ''setsockopt TCP_KEEPIDLE: '' newline;
       if r2 = ANET_ERR then State_Monad.return ANET_ERR
       else do {
         let v = interval sdiv 3;
         r3 \<leftarrow> set_option E err fd TCP_KEEPINTVL (Val (if v = 0 then 1 else v)) ''setsockopt TCP_KEEPINTVL: '' newline;
         if r3 = ANET_ERR then State_Monad.return ANET_ERR
         else set_option E err fd TCP_KEEPCNT (Val 3) ''setsockopt TCP_KEEPCNT: '' newline
       }
     }
   }"

definition anetSetTcpNoDelay :: "anet_env \<Rightarrow> bool \<Rightarrow> fd \<Rightarrow> int \<Rightarrow> int act" where
  "anetSetTcpNoDelay E err fd val = set_option E err fd TCP_NODELAY (Val val) ''setsockopt TCP_NODELAY: '' []"

definition anetEnableTcpNoDelay :: "anet_env \<Rightarrow> bool \<Rightarrow> fd \<Rightarrow> int act" where
  "anetEnableTcpNoDelay E err fd = anetSetTcpNoDelay E err fd 1"

definition anetDisableTcpNoDelay :: "anet_env \<Rightarrow> bool \<Rightarrow> fd \<Rightarrow> int act" where
  "anetDisableTcpNoDelay E err fd = anetSetTcpNoDelay E err fd 0"

definition anetSetSendBuffer :: "anet_env \<Rightarrow> bool \<Rightarrow> fd \<Rightarrow> int \<Rightarrow> int act" where
  "anetSetSendBuffer E err fd buffsize = set_option E err fd SO_SNDBUF (Val buffsize) ''setsockopt SO_SNDBUF: '' []"

definition anetTcpKeepAlive :: "anet_env \<Rightarrow> bool \<Rightarrow> fd \<Rightarrow> int act" where
  "anetTcpKeepAlive E err fd = set_option E err fd SO_KEEPALIVE (Val 1) ''setsockopt SO_KEEPALIVE: '' []"

definition anetSendTimeout :: "anet_env \<Rightarrow> bool \<Rightarrow> fd \<Rightarrow> int \<Rightarrow> int act" where
  "anetSendTimeout E err fd ms =
     set_option E err fd SO_SNDTIMEO (Timeval (ms sdiv 1000) ((ms smod 1000) * 1000)) ''setsockopt SO_SNDTIMEO: '' []"

definition anetSetReuseAddr :: "anet_env \<Rightarrow> bool \<Rightarrow> fd \<Rightarrow> int act" where
  "anetSetReuseAddr E err fd = set_option E err fd SO_REUSEADDR (Val 1) ''setsockopt SO_REUSEADDR: '' []"

section \<open>Names\<close>

text \<open>\<^verbatim>\<open>inet_ntop\<close> into a buffer of \<open>n\<close> bytes; None leaves the buffer as it is.\<close>

primrec inet_ntop :: "sockaddr \<Rightarrow> nat \<Rightarrow> string option" where
  "inet_ntop (Sa_inet ip p) n = (if length ip < n then Some ip else None)"
| "inet_ntop (Sa_inet6 ip p) n = (if length ip < n then Some ip else None)"
| "inet_ntop (Sa_unix u) n = None"
| "inet_ntop Sa_other n = None"

definition anetGenericResolve :: "anet_env \<Rightarrow> bool \<Rightarrow> string \<Rightarrow> nat \<Rightarrow> u32 \<Rightarrow> (int \<times> string option) act" where
  "anetGenericResolve E err host ipbuf_len fl = do {
     r \<leftarrow> a_getaddrinfo E (Some host) None (fl AND ANET_IP_ONLY \<noteq> 0) AF_UNSPEC;
     case r of
       Inl e \<Rightarrow> do { anetSetError err e; State_Monad.return (ANET_ERR, None) }
     | Inr (info, rest) \<Rightarrow> do {
         let ip = inet_ntop (ai_addr info) ipbuf_len;
         a_freeaddrinfo;
         State_Monad.return (ANET_OK, ip)
       }
   }"

definition anetResolve :: "anet_env \<Rightarrow> bool \<Rightarrow> string \<Rightarrow> nat \<Rightarrow> (int \<times> string option) act" where
  "anetResolve E err host ipbuf_len = anetGenericResolve E err host ipbuf_len ANET_NONE"

definition anetResolveIP :: "anet_env \<Rightarrow> bool \<Rightarrow> string \<Rightarrow> nat \<Rightarrow> (int \<times> string option) act" where
  "anetResolveIP E err host ipbuf_len = anetGenericResolve E err host ipbuf_len ANET_IP_ONLY"

section \<open>Connecting\<close>

definition anetCreateSocket :: "anet_env \<Rightarrow> bool \<Rightarrow> family \<Rightarrow> int act" where
  "anetCreateSocket E err domain = do {
     r \<leftarrow> a_socket E domain;
     case r of
       None \<Rightarrow> do { set_errno E err ''creating socket: '' []; State_Monad.return ANET_ERR }
     | Some s \<Rightarrow> do {
         q \<leftarrow> anetSetReuseAddr E err s;
         if q = ANET_ERR then do { a_close s; State_Monad.return ANET_ERR } else State_Monad.return s
       }
   }"

definition ANET_CONNECT_NONE :: u32 where "ANET_CONNECT_NONE = 0"
definition ANET_CONNECT_NONBLOCK :: u32 where "ANET_CONNECT_NONBLOCK = 1"
definition ANET_CONNECT_BE_BINDING :: u32 where "ANET_CONNECT_BE_BINDING = 2"

definition a_connect :: "anet_env \<Rightarrow> fd \<Rightarrow> sockaddr \<Rightarrow> connecting act" where
  "a_connect E s sa = ask (\<lambda>k. if open_fds k s then e_connect E s sa k else Refused)"

definition a_bind :: "anet_env \<Rightarrow> fd \<Rightarrow> sockaddr \<Rightarrow> bool act" where
  "a_bind E s sa = ask (\<lambda>k. open_fds k s \<and> e_bind E s sa k)"

fun bind_any :: "anet_env \<Rightarrow> fd \<Rightarrow> addrinfo list \<Rightarrow> bool act" where
  "bind_any E s [] = State_Monad.return False"
| "bind_any E s (b # bs) = do {
     ok \<leftarrow> a_bind E s (ai_addr b);
     if ok then State_Monad.return True else bind_any E s bs
   }"

text \<open>Binding to the source address, if there is one; False is the way to the error.\<close>

definition bind_source :: "anet_env \<Rightarrow> bool \<Rightarrow> string option \<Rightarrow> fd \<Rightarrow> bool act" where
  "bind_source E err source_addr s =
     (case source_addr of
        None \<Rightarrow> State_Monad.return True
      | Some a \<Rightarrow> do {
          r \<leftarrow> a_getaddrinfo E (Some a) None False AF_UNSPEC;
          case r of
            Inl e \<Rightarrow> do { anetSetError err e; State_Monad.return False }
          | Inr (b, bs) \<Rightarrow> do {
              bound \<leftarrow> bind_any E s (b # bs);
              a_freeaddrinfo;
              if \<not> bound then do { set_errno E err ''bind: '' []; State_Monad.return False } else State_Monad.return True
            }
        })"

text \<open>The label \<^verbatim>\<open>error\<close> with an open socket.\<close>

definition give_up :: "fd \<Rightarrow> int act" where
  "give_up s = do { a_close s; State_Monad.return ANET_ERR }"

text \<open>The loop over the addresses of the peer, up to the label \<^verbatim>\<open>end\<close>.\<close>

fun connect_addrs :: "anet_env \<Rightarrow> bool \<Rightarrow> string option \<Rightarrow> u32 \<Rightarrow> addrinfo list \<Rightarrow> int act" where
  "connect_addrs E err source_addr fl [] = do { set_errno E err ''creating socket: '' []; State_Monad.return ANET_ERR }"
| "connect_addrs E err source_addr fl (p # ps) = do {
     r \<leftarrow> a_socket E (ai_family p);
     case r of
       None \<Rightarrow> connect_addrs E err source_addr fl ps
     | Some s \<Rightarrow> do {
         q \<leftarrow> anetSetReuseAddr E err s;
         if q = ANET_ERR then give_up s
         else do {
           n \<leftarrow> (if fl AND ANET_CONNECT_NONBLOCK \<noteq> 0 then anetNonBlock E err s else State_Monad.return ANET_OK);
           if n \<noteq> ANET_OK then give_up s
           else do {
             b \<leftarrow> bind_source E err source_addr s;
             if \<not> b then give_up s
             else do {
               c \<leftarrow> a_connect E s (ai_addr p);
               if c = Connected \<or> c = In_progress \<and> fl AND ANET_CONNECT_NONBLOCK \<noteq> 0 then State_Monad.return s
               else do { a_close s; connect_addrs E err source_addr fl ps }
             }
           }
         }
       }
   }"

text \<open>One attempt; None is the return when the peer's name does not resolve.\<close>

definition connect_once :: "anet_env \<Rightarrow> bool \<Rightarrow> string \<Rightarrow> int \<Rightarrow> string option \<Rightarrow> u32 \<Rightarrow> int option act" where
  "connect_once E err addr port source_addr fl = do {
     r \<leftarrow> a_getaddrinfo E (Some addr) (Some (take 5 (show_int port))) False AF_UNSPEC;
     case r of
       Inl e \<Rightarrow> do { anetSetError err e; State_Monad.return None }
     | Inr (p, ps) \<Rightarrow> do {
         s \<leftarrow> connect_addrs E err source_addr fl (p # ps);
         a_freeaddrinfo;
         State_Monad.return (Some s)
       }
   }"

definition anetTcpGenericConnect :: "anet_env \<Rightarrow> bool \<Rightarrow> string \<Rightarrow> int \<Rightarrow> string option \<Rightarrow> u32 \<Rightarrow> int act" where
  "anetTcpGenericConnect E err addr port source_addr fl = do {
     r \<leftarrow> connect_once E err addr port source_addr fl;
     case r of
       None \<Rightarrow> State_Monad.return ANET_ERR
     | Some s \<Rightarrow>
         if s = ANET_ERR \<and> source_addr \<noteq> None \<and> fl AND ANET_CONNECT_BE_BINDING \<noteq> 0 then do {
           r2 \<leftarrow> connect_once E err addr port None fl;
           State_Monad.return (case r2 of None \<Rightarrow> ANET_ERR | Some s2 \<Rightarrow> s2)
         } else State_Monad.return s
   }"

definition anetTcpConnect :: "anet_env \<Rightarrow> bool \<Rightarrow> string \<Rightarrow> int \<Rightarrow> int act" where
  "anetTcpConnect E err addr port = anetTcpGenericConnect E err addr port None ANET_CONNECT_NONE"

definition anetTcpNonBlockConnect :: "anet_env \<Rightarrow> bool \<Rightarrow> string \<Rightarrow> int \<Rightarrow> int act" where
  "anetTcpNonBlockConnect E err addr port = anetTcpGenericConnect E err addr port None ANET_CONNECT_NONBLOCK"

definition anetTcpNonBlockBindConnect :: "anet_env \<Rightarrow> bool \<Rightarrow> string \<Rightarrow> int \<Rightarrow> string option \<Rightarrow> int act" where
  "anetTcpNonBlockBindConnect E err addr port source_addr =
     anetTcpGenericConnect E err addr port source_addr ANET_CONNECT_NONBLOCK"

definition anetTcpNonBlockBestEffortBindConnect :: "anet_env \<Rightarrow> bool \<Rightarrow> string \<Rightarrow> int \<Rightarrow> string option \<Rightarrow> int act" where
  "anetTcpNonBlockBestEffortBindConnect E err addr port source_addr =
     anetTcpGenericConnect E err addr port source_addr (ANET_CONNECT_NONBLOCK OR ANET_CONNECT_BE_BINDING)"

text \<open>The path is cut to the 107 bytes in front of the last one of \<^verbatim>\<open>sun_path\<close>.\<close>

definition anetUnixGenericConnect :: "anet_env \<Rightarrow> bool \<Rightarrow> string \<Rightarrow> u32 \<Rightarrow> int act" where
  "anetUnixGenericConnect E err u fl = do {
     s \<leftarrow> anetCreateSocket E err AF_LOCAL;
     if s = ANET_ERR then State_Monad.return ANET_ERR
     else do {
       n \<leftarrow> (if fl AND ANET_CONNECT_NONBLOCK \<noteq> 0 then anetNonBlock E err s else State_Monad.return ANET_OK);
       if n \<noteq> ANET_OK then give_up s
       else do {
         c \<leftarrow> a_connect E s (Sa_unix (take 107 u));
         if c = Connected \<or> c = In_progress \<and> fl AND ANET_CONNECT_NONBLOCK \<noteq> 0 then State_Monad.return s
         else do { set_errno E err ''connect: '' []; give_up s }
       }
     }
   }"

definition anetUnixConnect :: "anet_env \<Rightarrow> bool \<Rightarrow> string \<Rightarrow> int act" where
  "anetUnixConnect E err u = anetUnixGenericConnect E err u ANET_CONNECT_NONE"

definition anetUnixNonBlockConnect :: "anet_env \<Rightarrow> bool \<Rightarrow> string \<Rightarrow> int act" where
  "anetUnixNonBlockConnect E err u = anetUnixGenericConnect E err u ANET_CONNECT_NONBLOCK"

section \<open>Listening\<close>

definition anetListen :: "anet_env \<Rightarrow> bool \<Rightarrow> fd \<Rightarrow> sockaddr \<Rightarrow> int \<Rightarrow> int act" where
  "anetListen E err s sa backlog = do {
     a_setsockopt E s SO_REUSEPORT (Val 1);
     b \<leftarrow> a_bind E s sa;
     if \<not> b then do { set_errno E err ''bind: '' []; give_up s }
     else do {
       ok \<leftarrow> ask (\<lambda>k. open_fds k s \<and> e_listen E s backlog k);
       if \<not> ok then do { set_errno E err ''listen: '' []; give_up s } else State_Monad.return ANET_OK
     }
   }"

definition anetV6Only :: "anet_env \<Rightarrow> bool \<Rightarrow> fd \<Rightarrow> int act" where
  "anetV6Only E err s = do {
     ok \<leftarrow> a_setsockopt E s IPV6_V6ONLY (Val 1);
     if \<not> ok then do { set_errno E err ''setsockopt: '' []; give_up s } else State_Monad.return ANET_OK
   }"

fun server_addrs :: "anet_env \<Rightarrow> bool \<Rightarrow> family \<Rightarrow> int \<Rightarrow> addrinfo list \<Rightarrow> int act" where
  "server_addrs E err af backlog [] = do { set_errno E err ''unable to bind socket, errno: '' []; State_Monad.return ANET_ERR }"
| "server_addrs E err af backlog (p # ps) = do {
     r \<leftarrow> a_socket E (ai_family p);
     case r of
       None \<Rightarrow> server_addrs E err af backlog ps
     | Some s \<Rightarrow> do {
         v \<leftarrow> (if af = AF_INET6 then anetV6Only E err s else State_Monad.return ANET_OK);
         if v = ANET_ERR then give_up s
         else do {
           q \<leftarrow> anetSetReuseAddr E err s;
           if q = ANET_ERR then give_up s
           else do {
             l \<leftarrow> anetListen E err s (ai_addr p) backlog;
             State_Monad.return (if l = ANET_ERR then ANET_ERR else s)
           }
         }
       }
   }"

definition anet_server :: "anet_env \<Rightarrow> bool \<Rightarrow> int \<Rightarrow> string option \<Rightarrow> family \<Rightarrow> int \<Rightarrow> int act" where
  "anet_server E err port bindaddr af backlog = do {
     r \<leftarrow> a_getaddrinfo E bindaddr (Some (take 5 (show_int port))) False af;
     case r of
       Inl e \<Rightarrow> do { anetSetError err e; State_Monad.return ANET_ERR }
     | Inr (p, ps) \<Rightarrow> do {
         s \<leftarrow> server_addrs E err af backlog (p # ps);
         a_freeaddrinfo;
         State_Monad.return s
       }
   }"

definition anetTcpServer :: "anet_env \<Rightarrow> bool \<Rightarrow> int \<Rightarrow> string option \<Rightarrow> int \<Rightarrow> int act" where
  "anetTcpServer E err port bindaddr backlog = anet_server E err port bindaddr AF_INET backlog"

definition anetTcp6Server :: "anet_env \<Rightarrow> bool \<Rightarrow> int \<Rightarrow> string option \<Rightarrow> int \<Rightarrow> int act" where
  "anetTcp6Server E err port bindaddr backlog = anet_server E err port bindaddr AF_INET6 backlog"

text \<open>The mode of the socket file (\<^verbatim>\<open>chmod\<close>) is in the file system, not in this state.\<close>

definition anetUnixServer :: "anet_env \<Rightarrow> bool \<Rightarrow> string \<Rightarrow> int \<Rightarrow> int act" where
  "anetUnixServer E err u backlog = do {
     s \<leftarrow> anetCreateSocket E err AF_LOCAL;
     if s = ANET_ERR then State_Monad.return ANET_ERR
     else do {
       l \<leftarrow> anetListen E err s (Sa_unix (take 107 u)) backlog;
       State_Monad.return (if l = ANET_ERR then ANET_ERR else s)
     }
   }"

section \<open>Accepting\<close>

text \<open>An accept that is interrupted is tried again, for as long as it takes.\<close>

definition a_accept :: "anet_env \<Rightarrow> fd \<Rightarrow> accepting act" where
  "a_accept E s = State (\<lambda>k.
     case (if open_fds k s then e_accept E s k else No_connection) of
       Accepted fd sa \<Rightarrow>
         if fd < 0 \<or> open_fds k fd then (No_connection, tock k)
         else (Accepted fd sa, tock (k\<lparr>open_fds := (open_fds k)(fd := True), sent := (sent k)(fd := []), nonblock := (nonblock k)(fd := False)\<rparr>))
     | r \<Rightarrow> (r, tock k))"

partial_function (option) anetGenericAccept :: "anet_env \<Rightarrow> bool \<Rightarrow> fd \<Rightarrow> anet \<Rightarrow> ((fd \<times> sockaddr) option \<times> anet) option" where
  "anetGenericAccept E err s k =
     (case run_state (a_accept E s) k of
        (Accepted fd sa, k1) \<Rightarrow> Some (Some (fd, sa), k1)
      | (Interrupted, k1) \<Rightarrow> anetGenericAccept E err s k1
      | (No_connection, k1) \<Rightarrow> Some (None, snd (run_state (set_errno E err ''accept: '' []) k1)))"

primrec sa_port :: "sockaddr \<Rightarrow> int" where
  "sa_port (Sa_inet ip p) = p"
| "sa_port (Sa_inet6 ip p) = p"
| "sa_port (Sa_unix u) = 0"
| "sa_port Sa_other = 0"

text \<open>The descriptor, the text written for the address (if it fits \<open>ip_len\<close> bytes) and the port.\<close>

definition anetTcpAccept :: "anet_env \<Rightarrow> bool \<Rightarrow> fd \<Rightarrow> nat \<Rightarrow> anet \<Rightarrow> ((int \<times> string option \<times> int) \<times> anet) option" where
  "anetTcpAccept E err s ip_len k = do {
     (r, k1) \<leftarrow> anetGenericAccept E err s k;
     case r of
       None \<Rightarrow> Some ((ANET_ERR, None, 0), k1)
     | Some (fd, sa) \<Rightarrow> Some ((fd, inet_ntop sa ip_len, sa_port sa), k1)
   }"

definition anetUnixAccept :: "anet_env \<Rightarrow> bool \<Rightarrow> fd \<Rightarrow> anet \<Rightarrow> (int \<times> anet) option" where
  "anetUnixAccept E err s k = do {
     (r, k1) \<leftarrow> anetGenericAccept E err s k;
     case r of None \<Rightarrow> Some (ANET_ERR, k1) | Some (fd, sa) \<Rightarrow> Some (fd, k1)
   }"

section \<open>Reading and writing all\<close>

lemma sys_read_length: "sys_read E fd n k = (RdData s, k') \<Longrightarrow> s \<noteq> [] \<and> length s \<le> n"
  by (auto simp: sys_read_def split: if_splits rd.splits)

function anetRead :: "anet env \<Rightarrow> fd \<Rightarrow> nat \<Rightarrow> string \<Rightarrow> anet \<Rightarrow> int \<times> string \<times> anet" where
  "anetRead R fd n got k =
     (if n = 0 then (int (length got), got, k)
      else case sys_read R fd n k of
          (RdEof, k1) \<Rightarrow> (int (length got), got, k1)
        | (RdData s, k1) \<Rightarrow> anetRead R fd (n - length s) (got @ s) k1
        | (RdAgain, k1) \<Rightarrow> (- 1, got, k1)
        | (RdErr, k1) \<Rightarrow> (- 1, got, k1))"
  by pat_completeness auto
termination by (relation "measure (\<lambda>(R, fd, n, got, k). n)") (auto dest!: sys_read_length [OF sym])

text \<open>\<open>totlen\<close> bytes were written before; a write of nothing ends the loop.\<close>

function anetWrite :: "anet env \<Rightarrow> fd \<Rightarrow> string \<Rightarrow> nat \<Rightarrow> anet \<Rightarrow> int \<times> anet" where
  "anetWrite R fd s totlen k =
     (if s = [] then (int totlen, k)
      else case sys_write R fd s k of
          (WrSome n, k1) \<Rightarrow> if n = 0 then (int totlen, k1) else anetWrite R fd (drop n s) (totlen + n) k1
        | (WrAgain, k1) \<Rightarrow> (- 1, k1)
        | (WrErr, k1) \<Rightarrow> (- 1, k1))"
  by pat_completeness auto
termination by (relation "measure (\<lambda>(R, fd, s, totlen, k). length s)") auto

declare anetRead.simps [simp del] anetWrite.simps [simp del]

section \<open>Printing addresses\<close>

text \<open>
  The result, what is written to the text buffer (None leaves it as it is), and the port.
\<close>

definition unknown_ip :: "nat \<Rightarrow> string option" where
  "unknown_ip ip_len = (if ip_len \<ge> 2 then Some ''?'' else if ip_len = 1 then Some [] else None)"

definition anetPeerToString :: "anet_env \<Rightarrow> fd \<Rightarrow> nat \<Rightarrow> (int \<times> string option \<times> int) act" where
  "anetPeerToString E fd ip_len = do {
     r \<leftarrow> ask (\<lambda>k. if open_fds k fd then e_peer E fd k else None);
     State_Monad.return
       (case r of
          None \<Rightarrow> (- 1, unknown_ip ip_len, 0)
        | Some sa \<Rightarrow>
            if ip_len = 0 then (- 1, unknown_ip ip_len, 0)
            else case sa of
                Sa_inet ip p \<Rightarrow> (0, inet_ntop sa ip_len, p)
              | Sa_inet6 ip p \<Rightarrow> (0, inet_ntop sa ip_len, p)
              | Sa_unix u \<Rightarrow> (0, Some (take ip_len ''/unixsocket''), 0)
              | Sa_other \<Rightarrow> (- 1, unknown_ip ip_len, 0))
   }"

text \<open>\<^verbatim>\<open>snprintf\<close>: the length of the text, and what the buffer of \<open>buf_len\<close> bytes holds.\<close>

definition snprintf :: "nat \<Rightarrow> string \<Rightarrow> int \<times> string" where
  "snprintf buf_len s = (int (length s), take (buf_len - 1) s)"

definition anetFormatAddr :: "nat \<Rightarrow> string \<Rightarrow> int \<Rightarrow> int \<times> string" where
  "anetFormatAddr buf_len ip port =
     snprintf buf_len (if strchr ip CHR '':'' \<noteq> None then ''['' @ ip @ '']:'' @ show_int port else ip @ '':'' @ show_int port)"

definition INET6_ADDRSTRLEN :: nat where "INET6_ADDRSTRLEN = 46"

definition anetFormatPeer :: "anet_env \<Rightarrow> fd \<Rightarrow> nat \<Rightarrow> (int \<times> string) option act" where
  "anetFormatPeer E fd buf_len = do {
     (r, ip, port) \<leftarrow> anetPeerToString E fd INET6_ADDRSTRLEN;
     State_Monad.return (map_option (\<lambda>ip. anetFormatAddr buf_len ip port) ip)
   }"

definition anetSockName :: "anet_env \<Rightarrow> fd \<Rightarrow> nat \<Rightarrow> (int \<times> string option \<times> int) act" where
  "anetSockName E fd ip_len = do {
     r \<leftarrow> ask (\<lambda>k. if open_fds k fd then e_name E fd k else None);
     State_Monad.return (case r of None \<Rightarrow> (- 1, Some ''?'', 0) | Some sa \<Rightarrow> (0, inet_ntop sa ip_len, sa_port sa))
   }"

definition anetFormatSock :: "anet_env \<Rightarrow> fd \<Rightarrow> nat \<Rightarrow> (int \<times> string) option act" where
  "anetFormatSock E fd fmt_len = do {
     (r, ip, port) \<leftarrow> anetSockName E fd INET6_ADDRSTRLEN;
     State_Monad.return (map_option (\<lambda>ip. anetFormatAddr fmt_len ip port) ip)
   }"

end
