(* ===== verification/Anet_Props.thy ===== *)
theory Anet_Props
  imports Anet
begin

text \<open>
  The socket helpers give back what they take: a failed call leaves no descriptor and no address list
  behind, with one exception.
\<close>

section \<open>Rules for descriptors\<close>

text \<open>
  \<open>quiet\<close> computations leave the descriptors alone; a \<open>clean\<close> one returns an error and leaves them
  alone, or returns one new descriptor; one that is \<open>held\<close> does the same counted from before the
  socket \<open>s\<close> was made.
\<close>

definition same_fds :: "anet \<Rightarrow> anet \<Rightarrow> bool" where
  "same_fds k k' \<longleftrightarrow> open_fds k' = open_fds k \<and> infos k' = infos k \<and> bad_close k' = bad_close k"

definition result_ok :: "(fd \<Rightarrow> bool) \<Rightarrow> anet \<Rightarrow> int \<Rightarrow> anet \<Rightarrow> bool" where
  "result_ok opened k r k' \<longleftrightarrow> infos k' = infos k \<and> bad_close k' = bad_close k \<and>
     (r = ANET_ERR \<and> open_fds k' = opened \<or> 0 \<le> r \<and> \<not> opened r \<and> open_fds k' = opened(r := True))"

definition quiet :: "'a act \<Rightarrow> bool" where
  "quiet m \<longleftrightarrow> (\<forall>k r k'. run_state m k = (r, k') \<longrightarrow> same_fds k k')"

definition clean :: "int act \<Rightarrow> bool" where
  "clean m \<longleftrightarrow> (\<forall>k r k'. run_state m k = (r, k') \<longrightarrow> result_ok (open_fds k) k r k')"

definition held :: "fd \<Rightarrow> int act \<Rightarrow> bool" where
  "held s m \<longleftrightarrow> (\<forall>k r k'. 0 \<le> s \<longrightarrow> open_fds k s \<longrightarrow> run_state m k = (r, k') \<longrightarrow>
     result_ok ((open_fds k)(s := False)) k r k')"

named_theorems fd_rules \<open>rules for quiet, clean and held computations\<close>

lemma quiet_ask [fd_rules]: "quiet (ask f)"
  by (simp add: quiet_def ask_def same_fds_def tock_def)

lemma quiet_setsockopt [fd_rules]: "quiet (a_setsockopt E fd opt v)"
  by (simp add: quiet_def a_setsockopt_def same_fds_def tock_def)

lemma quiet_SetError [fd_rules]: "quiet (anetSetError err msg)"
  by (simp add: quiet_def anetSetError_def same_fds_def)

lemma quiet_return [fd_rules]: "quiet (State_Monad.return x)"
  by (simp add: quiet_def same_fds_def)

lemma quiet_bind [fd_rules]: "quiet m \<Longrightarrow> (\<And>x. quiet (f x)) \<Longrightarrow> quiet (State_Monad.bind m f)"
  by (fastforce simp: quiet_def same_fds_def split: prod.splits)

lemma clean_bind [fd_rules]: "quiet m \<Longrightarrow> (\<And>x. clean (f x)) \<Longrightarrow> clean (State_Monad.bind m f)"
  by (fastforce simp: quiet_def clean_def same_fds_def result_ok_def split: prod.splits)

lemma held_bind [fd_rules]: "quiet m \<Longrightarrow> (\<And>x. held s (f x)) \<Longrightarrow> held s (State_Monad.bind m f)"
  unfolding held_def
proof (intro allI impI)
  fix k r k'
  assume m: "quiet m" and f: "\<And>x. \<forall>k r k'. 0 \<le> s \<longrightarrow> open_fds k s \<longrightarrow> run_state (f x) k = (r, k') \<longrightarrow>
      result_ok ((open_fds k)(s := False)) k r k'"
    and s: "0 \<le> s" "open_fds k s" and run: "run_state (State_Monad.bind m f) k = (r, k')"
  obtain x k1 where x: "run_state m k = (x, k1)" by (cases "run_state m k")
  have same: "same_fds k k1" using m x unfolding quiet_def by blast
  then have "open_fds k1 s" using s(2) by (simp add: same_fds_def)
  moreover have "run_state (f x) k1 = (r, k')" using run x by simp
  ultimately have "result_ok ((open_fds k1)(s := False)) k1 r k'" using f s(1) by blast
  moreover have "open_fds k1 = open_fds k" "infos k1 = infos k" "bad_close k1 = bad_close k"
    using same by (simp_all add: same_fds_def)
  ultimately show "result_ok ((open_fds k)(s := False)) k r k'" unfolding result_ok_def by metis
qed

lemma clean_ERR [fd_rules]: "clean (State_Monad.return ANET_ERR)"
  by (simp add: clean_def result_ok_def)

lemma held_return [fd_rules]: "held s (State_Monad.return s)"
  by (auto simp: held_def result_ok_def fun_eq_iff)

lemma held_give_up [fd_rules]: "held s (give_up s)"
  by (auto simp: held_def result_ok_def give_up_def a_close_def sys_close_def os_close_def)

lemma held_close [fd_rules]: "clean m \<Longrightarrow> held s (State_Monad.bind (a_close s) (\<lambda>_. m))"
  by (fastforce simp: held_def clean_def result_ok_def a_close_def sys_close_def os_close_def)

lemma quiet_cases [fd_rules]:
  "(b \<Longrightarrow> quiet m) \<Longrightarrow> (\<not> b \<Longrightarrow> quiet n) \<Longrightarrow> quiet (if b then m else n)"
  "(b \<Longrightarrow> clean c) \<Longrightarrow> (\<not> b \<Longrightarrow> clean d) \<Longrightarrow> clean (if b then c else d)"
  "(b \<Longrightarrow> held s c) \<Longrightarrow> (\<not> b \<Longrightarrow> held s d) \<Longrightarrow> held s (if b then c else d)"
  by simp_all

lemma clean_socket [fd_rules]:
  assumes "clean m" "\<And>s. held s (f s)"
  shows "clean (State_Monad.bind (a_socket E af) (\<lambda>r. case r of None \<Rightarrow> m | Some s \<Rightarrow> f s))"
  unfolding clean_def
proof (intro allI impI)
  fix k r k'
  assume run: "run_state (State_Monad.bind (a_socket E af) (\<lambda>r. case r of None \<Rightarrow> m | Some s \<Rightarrow> f s)) k = (r, k')"
  obtain q k1 where q: "run_state (a_socket E af) k = (q, k1)" by (cases "run_state (a_socket E af) k")
  show "result_ok (open_fds k) k r k'"
  proof (cases q)
    case None
    then have "same_fds k k1" using q
      by (auto simp: a_socket_def same_fds_def tock_def split: option.splits if_splits)
    moreover have "run_state m k1 = (r, k')" using run q None by simp
    then have "result_ok (open_fds k1) k1 r k'" using assms(1) unfolding clean_def by blast
    ultimately show ?thesis by (simp add: same_fds_def result_ok_def)
  next
    case (Some s)
    then have k1: "0 \<le> s" "\<not> open_fds k s" "open_fds k1 = (open_fds k)(s := True)" "infos k1 = infos k" "bad_close k1 = bad_close k"
      using q by (auto simp: a_socket_def tock_def split: option.splits if_splits)
    have "run_state (f s) k1 = (r, k')" "open_fds k1 s" using run q Some k1(3) by simp_all
    then have "result_ok ((open_fds k1)(s := False)) k1 r k'" using assms(2) [of s] k1(1) unfolding held_def by blast
    moreover have "(open_fds k1)(s := False) = open_fds k" using k1(2,3) by (auto simp: fun_eq_iff)
    ultimately show ?thesis using k1(4,5) by (simp add: result_ok_def)
  qed
qed

text \<open>A list of addresses is freed on the way out.\<close>

lemma quiet_infos:
  assumes "\<And>e. quiet (f e)" "\<And>b bs. quiet (g b bs)" "\<And>x. quiet (h x)"
  shows "quiet (State_Monad.bind (a_getaddrinfo E host serv num af) (\<lambda>r. case r of Inl e \<Rightarrow> f e
    | Inr (b, bs) \<Rightarrow> State_Monad.bind (g b bs) (\<lambda>x. State_Monad.bind a_freeaddrinfo (\<lambda>_. h x))))"
  unfolding quiet_def
proof (intro allI impI)
  fix k r k'
  assume run: "run_state (State_Monad.bind (a_getaddrinfo E host serv num af) (\<lambda>r. case r of Inl e \<Rightarrow> f e
    | Inr (b, bs) \<Rightarrow> State_Monad.bind (g b bs) (\<lambda>x. State_Monad.bind a_freeaddrinfo (\<lambda>_. h x)))) k = (r, k')"
  show "same_fds k k'"
  proof (cases "e_getaddrinfo E host serv num af k")
    case (Inl e)
    then have "run_state (f e) (tock k) = (r, k')" using run by (simp add: a_getaddrinfo_def)
    then have "same_fds (tock k) k'" using assms(1) unfolding quiet_def by blast
    then show ?thesis by (simp add: same_fds_def tock_def)
  next
    case (Inr l)
    let ?k = "tock (k\<lparr>infos := infos k + 1\<rparr>)"
    obtain b bs where l: "l = (b, bs)" by (cases l)
    obtain x k1 where g: "run_state (g b bs) ?k = (x, k1)" by (cases "run_state (g b bs) ?k")
    then have "same_fds ?k k1" using assms(2) unfolding quiet_def by blast
    moreover have "run_state (h x) (k1\<lparr>infos := infos k1 - 1\<rparr>) = (r, k')"
      using run Inr g by (simp add: l a_getaddrinfo_def a_freeaddrinfo_def)
    then have "same_fds (k1\<lparr>infos := infos k1 - 1\<rparr>) k'" using assms(3) unfolding quiet_def by blast
    ultimately show ?thesis by (simp add: same_fds_def tock_def)
  qed
qed

lemma clean_infos:
  assumes "\<And>e. quiet (f e)" "\<And>b bs. clean (g b bs)"
  shows "case run_state (State_Monad.bind (a_getaddrinfo E host serv num af) (\<lambda>r. case r of Inl e \<Rightarrow> State_Monad.bind (f e) (\<lambda>_. State_Monad.return None)
    | Inr (p, ps) \<Rightarrow> State_Monad.bind (g p ps) (\<lambda>s. State_Monad.bind a_freeaddrinfo (\<lambda>_. State_Monad.return (Some s))))) k of
    (r, k') \<Rightarrow> result_ok (open_fds k) k (case r of None \<Rightarrow> ANET_ERR | Some s \<Rightarrow> s) k'"
proof (cases "e_getaddrinfo E host serv num af k")
  case (Inl e)
  obtain x k1 where f: "run_state (f e) (tock k) = (x, k1)" by (cases "run_state (f e) (tock k)")
  then have "same_fds (tock k) k1" using assms(1) unfolding quiet_def by blast
  then show ?thesis using Inl f by (simp add: a_getaddrinfo_def result_ok_def same_fds_def tock_def)
next
  case (Inr l)
  let ?k = "tock (k\<lparr>infos := infos k + 1\<rparr>)"
  obtain b bs where l: "l = (b, bs)" by (cases l)
  obtain s k1 where g: "run_state (g b bs) ?k = (s, k1)" by (cases "run_state (g b bs) ?k")
  then have "result_ok (open_fds ?k) ?k s k1" using assms(2) unfolding clean_def by blast
  then show ?thesis using Inr g by (simp add: l a_getaddrinfo_def a_freeaddrinfo_def result_ok_def tock_def)
qed

section \<open>The helpers\<close>

lemma quiet_helpers [fd_rules]:
  "quiet (set_errno E err pre post)" "quiet (set_option E err fd opt v pre post)" "quiet (anetSetBlock E err fd b)"
  "quiet (anetNonBlock E err fd)" "quiet (anetSetReuseAddr E err fd)" "quiet (a_bind E fd sa)" "quiet (a_connect E fd sa)"
proof -
  show errno: "quiet (set_errno E err pre post)" for pre post
    unfolding set_errno_def by (intro fd_rules)
  show opt: "quiet (set_option E err fd opt v pre post)" for opt v pre post
    unfolding set_option_def by (intro fd_rules errno)
  show block: "quiet (anetSetBlock E err fd b)" for b
  proof -
    have "quiet (State (\<lambda>k. if open_fds k fd \<and> e_setfl E fd k then (True, tock (k\<lparr>nonblock := (nonblock k)(fd := b)\<rparr>)) else (False, tock k)))"
      by (simp add: quiet_def same_fds_def tock_def)
    then show ?thesis unfolding anetSetBlock_def by (intro fd_rules errno)
  qed
  show "quiet (anetNonBlock E err fd)" unfolding anetNonBlock_def by (rule block)
  show "quiet (anetSetReuseAddr E err fd)" unfolding anetSetReuseAddr_def by (rule opt)
  show "quiet (a_bind E fd sa)" "quiet (a_connect E fd sa)" unfolding a_bind_def a_connect_def by (rule quiet_ask)+
qed

lemma quiet_bind_any [fd_rules]: "quiet (bind_any E s bs)"
  by (induction bs) (simp, intro fd_rules, simp, intro fd_rules)

lemma quiet_bind_source [fd_rules]: "quiet (bind_source E err source_addr s)"
proof (cases source_addr)
  case None
  then show ?thesis by (simp add: bind_source_def quiet_return)
next
  case (Some a)
  show ?thesis unfolding bind_source_def Some option.case by (rule quiet_infos) (intro fd_rules)+
qed

lemma clean_connect_addrs [fd_rules]: "clean (connect_addrs E err source_addr fl ps)"
  by (induction ps) (unfold connect_addrs.simps, (intro fd_rules | assumption)+)

lemma clean_CreateSocket [fd_rules]: "clean (anetCreateSocket E err domain)"
  unfolding anetCreateSocket_def by (fold give_up_def) (intro fd_rules)

lemma clean_once:
  "case run_state (connect_once E err addr port source_addr fl) k of
    (r, k') \<Rightarrow> result_ok (open_fds k) k (case r of None \<Rightarrow> ANET_ERR | Some s \<Rightarrow> s) k'"
  unfolding connect_once_def by (rule clean_infos) (intro fd_rules)+

lemma result_ok_then:
  "result_ok opened k ANET_ERR k1 \<Longrightarrow> result_ok (open_fds k1) k1 r k2 \<Longrightarrow> result_ok opened k r k2"
  by (auto simp: result_ok_def ANET_ERR_def)

lemma clean_TcpGenericConnect: "clean (anetTcpGenericConnect E err addr port source_addr fl)"
  unfolding clean_def
proof (intro allI impI)
  fix k r k'
  assume run: "run_state (anetTcpGenericConnect E err addr port source_addr fl) k = (r, k')"
  obtain q k1 where q: "run_state (connect_once E err addr port source_addr fl) k = (q, k1)"
    by (cases "run_state (connect_once E err addr port source_addr fl) k")
  have one: "result_ok (open_fds k) k (case q of None \<Rightarrow> ANET_ERR | Some s \<Rightarrow> s) k1"
    using clean_once [where E = E and err = err and addr = addr and port = port and source_addr = source_addr and fl = fl and k = k] q by simp
  obtain q2 k2 where q2: "run_state (connect_once E err addr port None fl) k1 = (q2, k2)"
    by (cases "run_state (connect_once E err addr port None fl) k1")
  have two: "result_ok (open_fds k1) k1 (case q2 of None \<Rightarrow> ANET_ERR | Some s \<Rightarrow> s) k2"
    using clean_once [where E = E and err = err and addr = addr and port = port and source_addr = None and fl = fl and k = k1] q2 by simp
  show "result_ok (open_fds k) k r k'"
  proof (cases q)
    case None
    then show ?thesis using run q one by (simp add: anetTcpGenericConnect_def)
  next
    case (Some s)
    then show ?thesis
      using run q one q2 result_ok_then [OF _ two, of "open_fds k" k]
      by (auto simp: anetTcpGenericConnect_def split: if_splits)
  qed
qed

text \<open>A computation that goes on with the socket another one made.\<close>

lemma clean_then:
  assumes m: "clean m" and f: "\<And>s. s \<noteq> ANET_ERR \<Longrightarrow> held s (if s = ANET_ERR then State_Monad.return ANET_ERR else g s)"
    and run: "run_state (State_Monad.bind m (\<lambda>s. if s = ANET_ERR then State_Monad.return ANET_ERR else g s)) k = (r, k')"
  shows "result_ok (open_fds k) k r k'"
proof -
  obtain s k1 where s: "run_state m k = (s, k1)" by (cases "run_state m k")
  have one: "result_ok (open_fds k) k s k1" using m s unfolding clean_def by blast
  show ?thesis
  proof (cases "s = ANET_ERR")
    case True
    then show ?thesis using run s one by simp
  next
    case False
    then have k1: "0 \<le> s" "\<not> open_fds k s" "open_fds k1 = (open_fds k)(s := True)" "infos k1 = infos k" "bad_close k1 = bad_close k"
      using one by (simp_all add: result_ok_def)
    have "run_state (if s = ANET_ERR then State_Monad.return ANET_ERR else g s) k1 = (r, k')" using run s by simp
    moreover have "open_fds k1 s" using k1(3) by simp
    ultimately have "result_ok ((open_fds k1)(s := False)) k1 r k'" using f [OF False] k1(1) unfolding held_def by blast
    moreover have "(open_fds k1)(s := False) = open_fds k" using k1(2,3) by (auto simp: fun_eq_iff)
    ultimately show ?thesis using k1(4,5) by (simp add: result_ok_def)
  qed
qed

text \<open>\<^verbatim>\<open>anetListen\<close> closes the socket when it fails.\<close>

lemma held_Listen: "held s (State_Monad.bind (anetListen E err s sa backlog) (\<lambda>l. State_Monad.return (if l = ANET_ERR then ANET_ERR else s)))"
proof -
  have assoc: "State_Monad.bind (anetListen E err s sa backlog) (\<lambda>l. State_Monad.return (if l = ANET_ERR then ANET_ERR else s)) =
    State_Monad.bind (a_setsockopt E s SO_REUSEPORT (Val 1)) (\<lambda>_. State_Monad.bind (a_bind E s sa) (\<lambda>b.
      if \<not> b then State_Monad.bind (set_errno E err ''bind: '' []) (\<lambda>_. give_up s)
      else State_Monad.bind (ask (\<lambda>k. open_fds k s \<and> e_listen E s backlog k)) (\<lambda>ok.
        if \<not> ok then State_Monad.bind (set_errno E err ''listen: '' []) (\<lambda>_. give_up s) else State_Monad.return s)))"
    by (rule state_ext)
      (auto simp: anetListen_def give_up_def ANET_OK_def ANET_ERR_def split: prod.splits if_splits)
  show ?thesis unfolding assoc by (intro fd_rules)
qed

lemma clean_server_addrs: "af \<noteq> AF_INET6 \<Longrightarrow> clean (server_addrs E err af backlog ps)"
  by (induction ps)
    (unfold server_addrs.simps, intro fd_rules, simp add: ANET_OK_def ANET_ERR_def, intro fd_rules held_Listen, assumption?)

lemma clean_server:
  assumes "af \<noteq> AF_INET6"
  shows "clean (anet_server E err port bindaddr af backlog)"
  unfolding clean_def
proof (intro allI impI)
  fix k r k'
  assume run: "run_state (anet_server E err port bindaddr af backlog) k = (r, k')"
  show "result_ok (open_fds k) k r k'"
  proof (cases "e_getaddrinfo E bindaddr (Some (take 5 (show_int port))) False af k")
    case (Inl e)
    then have "r = ANET_ERR" "run_state (anetSetError err e) (tock k) = ((), k')"
      using run by (auto simp: anet_server_def a_getaddrinfo_def split: prod.splits)
    then show ?thesis by (cases err) (auto simp: result_ok_def anetSetError_def tock_def)
  next
    case (Inr l)
    obtain p ps where l: "l = (p, ps)" by (cases l)
    let ?k = "tock (k\<lparr>infos := infos k + 1\<rparr>)"
    obtain s k1 where s: "run_state (server_addrs E err af backlog (p # ps)) ?k = (s, k1)"
      by (cases "run_state (server_addrs E err af backlog (p # ps)) ?k")
    then have "result_ok (open_fds ?k) ?k s k1" using clean_server_addrs [OF assms] unfolding clean_def by blast
    then show ?thesis
      using run s Inr l
      by (auto simp: anet_server_def a_getaddrinfo_def a_freeaddrinfo_def result_ok_def tock_def simp del: server_addrs.simps)
  qed
qed

lemma clean_UnixGenericConnect: "clean (anetUnixGenericConnect E err u fl)"
proof -
  let ?body = "\<lambda>s. if s = ANET_ERR then State_Monad.return ANET_ERR
     else do {
       n \<leftarrow> (if fl AND ANET_CONNECT_NONBLOCK \<noteq> 0 then anetNonBlock E err s else State_Monad.return ANET_OK);
       if n \<noteq> ANET_OK then give_up s
       else do {
         c \<leftarrow> a_connect E s (Sa_unix (take 107 u));
         if c = Connected \<or> c = In_progress \<and> fl AND ANET_CONNECT_NONBLOCK \<noteq> 0 then State_Monad.return s
         else do { set_errno E err ''connect: '' []; give_up s }
       }
     }"
  have body: "held s (?body s)" if "s \<noteq> ANET_ERR" for s
    unfolding if_not_P [OF that] by (intro fd_rules)
  show ?thesis
    unfolding clean_def
  proof (intro allI impI)
    fix k r k'
    assume "run_state (anetUnixGenericConnect E err u fl) k = (r, k')"
    then have run: "run_state (State_Monad.bind (anetCreateSocket E err AF_LOCAL) ?body) k = (r, k')"
      by (simp add: anetUnixGenericConnect_def)
    show "result_ok (open_fds k) k r k'" by (rule clean_then [OF clean_CreateSocket body run])
  qed
qed

lemma clean_UnixServer: "clean (anetUnixServer E err u backlog)"
  unfolding clean_def
proof (intro allI impI)
  fix k r k'
  let ?body = "\<lambda>s. if s = ANET_ERR then State_Monad.return ANET_ERR
     else do {
       l \<leftarrow> anetListen E err s (Sa_unix (take 107 u)) backlog;
       State_Monad.return (if l = ANET_ERR then ANET_ERR else s)
     }"
  have body: "held s (?body s)" if "s \<noteq> ANET_ERR" for s
    unfolding if_not_P [OF that] by (rule held_Listen)
  assume "run_state (anetUnixServer E err u backlog) k = (r, k')"
  then have run: "run_state (State_Monad.bind (anetCreateSocket E err AF_LOCAL) ?body) k = (r, k')"
    by (simp add: anetUnixServer_def)
  show "result_ok (open_fds k) k r k'" by (rule clean_then [OF clean_CreateSocket body run])
qed

section \<open>Properties\<close>

text \<open>
  C18: Connecting and listening never leak: whatever the kernel and the resolver answer, the helper
  returns an error and the open descriptors and address lists are what they were, or it returns one new
  descriptor and nothing else has changed; no descriptor is closed twice.
\<close>

theorem anet_no_leak:
  "clean (anetTcpGenericConnect E err addr port source_addr fl) \<and> clean (anetTcpServer E err port bindaddr backlog) \<and>
   clean (anetUnixGenericConnect E err u fl) \<and> clean (anetUnixServer E err u backlog)"
  by (simp add: anetTcpServer_def clean_TcpGenericConnect clean_server clean_UnixGenericConnect clean_UnixServer)

text \<open>
  The IPv6 server closes its socket twice when the option for IPv6 only cannot be set: the second
  close hits a descriptor that is free, or belongs to someone else by then.
\<close>

theorem ipv6_server_closes_twice:
  assumes "e_getaddrinfo E bindaddr (Some (take 5 (show_int port))) False AF_INET6 k = Inr (p, ps)"
    and "e_socket E (ai_family p) (tock (k\<lparr>infos := infos k + 1\<rparr>)) = Some s" "0 \<le> s" "\<not> open_fds k s"
    and "\<forall>k1. \<not> e_setsockopt E s IPV6_V6ONLY (Val 1) k1"
  shows "\<exists>k'. run_state (anetTcp6Server E err port bindaddr backlog) k = (ANET_ERR, k') \<and> bad_close k'"
  using assms
  by (auto simp: anetTcp6Server_def anet_server_def a_getaddrinfo_def a_socket_def anetV6Only_def a_setsockopt_def
      set_errno_def ask_def anetSetError_def give_up_def a_close_def sys_close_def os_close_def a_freeaddrinfo_def tock_def)

definition v6_env :: anet_env where
  "v6_env = \<lparr>e_getaddrinfo = (\<lambda>h p n af k. Inr (\<lparr>ai_family = AF_INET6, ai_addr = Sa_inet6 ''::'' 8080\<rparr>, [])),
     e_socket = (\<lambda>af k. Some 3), e_setsockopt = (\<lambda>fd opt v k. opt \<noteq> IPV6_V6ONLY), e_getfl = (\<lambda>fd k. True),
     e_setfl = (\<lambda>fd k. True), e_bind = (\<lambda>fd sa k. True), e_connect = (\<lambda>fd sa k. Connected), e_listen = (\<lambda>fd n k. True),
     e_accept = (\<lambda>fd k. No_connection), e_peer = (\<lambda>fd k. None), e_name = (\<lambda>fd k. None), e_strerror = (\<lambda>k. ''no'')\<rparr>"

definition demo_anet :: anet where
  "demo_anet = \<lparr>pending = [], blocks = [], bad_free = False, zeroed = [], open_fds = (\<lambda>fd. 0 \<le> fd \<and> fd < 3),
     interest = (\<lambda>_. None), watch_faults = [], ready = [], sent = (\<lambda>_. []), tick = 0, nonblock = (\<lambda>_. False), opts = [],
     infos = 0, bad_close = False, err_text = []\<rparr>"

lemma ipv6_server_closes_twice_witness:
  "\<exists>k'. run_state (anetTcp6Server v6_env True 8080 None 511) demo_anet = (ANET_ERR, k') \<and> bad_close k'"
  by (rule ipv6_server_closes_twice [where s = 3 and p = "\<lparr>ai_family = AF_INET6, ai_addr = Sa_inet6 ''::'' 8080\<rparr>" and ps = "[]"])
    (simp_all add: v6_env_def demo_anet_def)

lemma write_all:
  assumes "\<forall>s k. s \<noteq> [] \<longrightarrow> (\<exists>n \<ge> 1. env_write R fd s k = WrSome n)" "open_fds k fd"
  shows "\<exists>k'. anetWrite R fd s t k = (int (t + length s), k') \<and> sent k' fd = sent k fd @ s"
  using assms(2)
proof (induction "length s" arbitrary: s t k rule: less_induct)
  case less
  show ?case
  proof (cases "s = []")
    case True
    then show ?thesis by (subst anetWrite.simps) simp
  next
    case False
    then obtain n where n: "1 \<le> n" "env_write R fd s k = WrSome n" using assms(1) by blast
    obtain m k1 where w: "sys_write R fd s k = (WrSome m, k1)" "m \<noteq> 0" "m \<le> length s" "open_fds k1 fd"
      "sent k1 fd = sent k fd @ take m s"
      using n less.prems False by (simp add: sys_write_def tock_def min_def split: if_splits)
    have "length (drop m s) < length s" using w(2) False by simp
    then obtain k' where k': "anetWrite R fd (drop m s) (t + m) k1 = (int (t + m + length (drop m s)), k')"
      "sent k' fd = sent k1 fd @ drop m s"
      using less.hyps [of "drop m s" k1 "t + m"] w(4) by blast
    have "anetWrite R fd s t k = anetWrite R fd (drop m s) (t + m) k1"
      using False w(1,2) by (subst anetWrite.simps) simp
    then show ?thesis using k' w(3,5) by (intro exI [of _ k']) simp
  qed
qed

text \<open>
  C19: Writing all ends: over a kernel that takes at least one byte of every call, however few, the
  helper comes back after all bytes are out, in order, and reports their number.
\<close>

theorem anetWrite_all:
  assumes "\<forall>s k. s \<noteq> [] \<longrightarrow> (\<exists>n \<ge> 1. env_write R fd s k = WrSome n)" "open_fds k fd"
  shows "\<exists>k'. anetWrite R fd s 0 k = (int (length s), k') \<and> sent k' fd = sent k fd @ s"
  using write_all [OF assms, of s 0] by simp

definition byte_env :: "anet env" where
  "byte_env = \<lparr>env_read = (\<lambda>fd n k. RdEof), env_write = (\<lambda>fd s k. WrSome 1), env_accept = (\<lambda>k. None),
     env_connect = (\<lambda>k. (0, 3)), env_time = (\<lambda>k. 0)\<rparr>"

lemma anetWrite_all_witness:
  "\<exists>k'. anetWrite byte_env 1 ''hello'' 0 demo_anet = (5, k') \<and> sent k' 1 = ''hello''"
  using anetWrite_all [of byte_env 1 demo_anet "''hello''"] by (simp add: byte_env_def demo_anet_def)

end
