(* ===== verification/Consumer.thy ===== *)
theory Consumer
  imports Balance Sockets
begin

text \<open>
  The consumer agent (\<^verbatim>\<open>src/src/consumer.c\<close>): a transparent proxy. A connection of a consumer
  (\<open>connection_ca\<close>) borrows, for one exchange, a connection to a provider agent
  (\<open>connection_apa\<close>) from the pool of the chosen endpoint; four handlers move the bytes. Both
  kinds of objects live in stores indexed by address; the pools hand out the addresses. A
  dereferenced NULL, a descriptor outside the table of events or a trap is None.
\<close>

section \<open>Data\<close>

definition CONSUMER_HTTP_REQ_BUF_SIZE :: nat where "CONSUMER_HTTP_REQ_BUF_SIZE = 2048"
definition CONSUMER_HTTP_RESP_BUF_SIZE :: nat where "CONSUMER_HTTP_RESP_BUF_SIZE = 256"

record connection_ca =
  ca_fd :: fd
  buf_in :: string
  nread_in :: int
  nwrite_in :: int
  buf_out :: string
  nread_out :: int
  nwrite_out :: int
  conn_apa :: addr

text \<open>The endpoint is a pointer into the table of endpoints, here an index.\<close>

record connection_apa =
  apa_fd :: fd
  apa_endpoint :: "nat option"
  req_start :: int

definition zero_ca :: connection_ca where
  "zero_ca = \<lparr>ca_fd = 0, buf_in = replicate CONSUMER_HTTP_REQ_BUF_SIZE CHR 0x00, nread_in = 0, nwrite_in = 0,
     buf_out = replicate CONSUMER_HTTP_RESP_BUF_SIZE CHR 0x00, nread_out = 0, nwrite_out = 0, conn_apa = NULL\<rparr>"

definition zero_apa :: connection_apa where
  "zero_apa = \<lparr>apa_fd = 0, apa_endpoint = None, req_start = 0\<rparr>"

record cnet = sock +
  cas :: "addr \<Rightarrow> connection_ca"
  apas :: "addr \<Rightarrow> connection_apa"

datatype cproc = Accept_tcp_handler | Read_from_consumer | Write_to_remote_agent | Read_from_remote_agent | Write_to_consumer

record consumer =
  c_loop :: "cproc aeEventLoop"
  c_net :: cnet
  c_pool :: "cnet Pool option"
  c_eps :: "cnet endpoint list"
  c_num :: nat

section \<open>Access\<close>

definition get_ca :: "addr \<Rightarrow> consumer \<Rightarrow> connection_ca option" where
  "get_ca a w = (if a = NULL then None else Some (cas (c_net w) a))"

definition get_apa :: "addr \<Rightarrow> consumer \<Rightarrow> connection_apa option" where
  "get_apa a w = (if a = NULL then None else Some (apas (c_net w) a))"

definition set_ca :: "addr \<Rightarrow> connection_ca \<Rightarrow> consumer \<Rightarrow> consumer" where
  "set_ca a c w = w\<lparr>c_net := (c_net w)\<lparr>cas := (cas (c_net w))(a := c)\<rparr>\<rparr>"

definition set_apa :: "addr \<Rightarrow> connection_apa \<Rightarrow> consumer \<Rightarrow> consumer" where
  "set_apa a c w = w\<lparr>c_net := (c_net w)\<lparr>apas := (apas (c_net w))(a := c)\<rparr>\<rparr>"

definition c_sys :: "(cnet \<Rightarrow> 'r \<times> cnet) \<Rightarrow> consumer \<Rightarrow> 'r \<times> consumer" where
  "c_sys f w = (let (r, n) = f (c_net w) in (r, w\<lparr>c_net := n\<rparr>))"

definition c_close :: "fd \<Rightarrow> consumer \<Rightarrow> consumer" where
  "c_close fd w = w\<lparr>c_net := sys_close fd (c_net w)\<rparr>"

definition c_watch :: "fd \<Rightarrow> u32 \<Rightarrow> cproc \<Rightarrow> addr \<Rightarrow> consumer \<Rightarrow> (int \<times> consumer) option" where
  "c_watch fd m p d w = do {
     (r, el, k) \<leftarrow> aeCreateFileEvent epoll_api fd m p d (c_loop w) (c_net w);
     Some (r, w\<lparr>c_loop := el, c_net := k\<rparr>)
   }"

definition c_unwatch :: "fd \<Rightarrow> u32 \<Rightarrow> consumer \<Rightarrow> consumer option" where
  "c_unwatch fd m w = do {
     (el, k) \<leftarrow> aeDeleteFileEvent epoll_api fd m (c_loop w) (c_net w);
     Some (w\<lparr>c_loop := el, c_net := k\<rparr>)
   }"

text \<open>Giving an object back to the pool of consumer connections, or to an endpoint's pool.\<close>

definition return_ca :: "addr \<Rightarrow> consumer \<Rightarrow> consumer option" where
  "return_ca a w = do {
     p \<leftarrow> c_pool w;
     let (p1, n) = PoolReturn p a (c_net w);
     Some (w\<lparr>c_pool := Some p1, c_net := n\<rparr>)
   }"

definition return_apa :: "nat \<Rightarrow> addr \<Rightarrow> consumer \<Rightarrow> consumer option" where
  "return_apa k a w = do {
     e \<leftarrow> ep_at (c_eps w) k;
     p \<leftarrow> conn_pool e;
     let (p1, n) = PoolReturn p a (c_net w);
     Some (w\<lparr>c_eps := (c_eps w)[k := e\<lparr>conn_pool := Some p1\<rparr>], c_net := n\<rparr>)
   }"

definition take_apa :: "nat \<Rightarrow> consumer \<Rightarrow> (addr \<times> consumer) option" where
  "take_apa k w = do {
     e \<leftarrow> ep_at (c_eps w) k;
     p \<leftarrow> conn_pool e;
     let (a, p1, n) = PoolGet p (c_net w);
     Some (a, w\<lparr>c_eps := (c_eps w)[k := e\<lparr>conn_pool := Some p1\<rparr>], c_net := n\<rparr>)
   }"

section \<open>Handlers\<close>

definition abort_connection_ca :: "addr \<Rightarrow> consumer \<Rightarrow> consumer option" where
  "abort_connection_ca ca w = do {
     c \<leftarrow> get_ca ca w;
     w1 \<leftarrow> c_unwatch (ca_fd c) (AE_WRITABLE OR AE_READABLE) w;
     let w2 = c_close (ca_fd c) w1;
     let w3 = set_ca ca (c\<lparr>ca_fd := - 1\<rparr>) w2;
     w6 \<leftarrow> (if conn_apa c \<noteq> NULL then do {
               a \<leftarrow> get_apa (conn_apa c) w3;
               w4 \<leftarrow> c_unwatch (apa_fd a) (AE_WRITABLE OR AE_READABLE) w3;
               let w5 = c_close (apa_fd a) w4;
               Some (set_apa (conn_apa c) (a\<lparr>apa_fd := - 1\<rparr>) w5)
             } else Some w3);
     return_ca ca w6
   }"

definition consumer_http_handler :: "fd \<Rightarrow> consumer \<Rightarrow> consumer option" where
  "consumer_http_handler fd w = do {
     p \<leftarrow> c_pool w;
     let (ca, p1, n) = PoolGet p (c_net w);
     let w1 = w\<lparr>c_pool := Some p1, c_net := n\<rparr>;
     if ca = NULL then Some (c_close fd w1)
     else do {
       let w2 = set_ca ca (zero_ca\<lparr>ca_fd := fd\<rparr>) w1;
       (r, w3) \<leftarrow> c_watch fd AE_READABLE Read_from_consumer ca w2;
       if r = AE_ERR then abort_connection_ca ca w3 else Some w3
     }
   }"

text \<open>
  The last part of \<^verbatim>\<open>read_from_consumer\<close>. After a failed registration the code aborts the
  connection and goes on, with the descriptor read again from the aborted object.
\<close>

definition watch_remote :: "addr \<Rightarrow> addr \<Rightarrow> consumer \<Rightarrow> consumer option" where
  "watch_remote ca apa w = do {
     a \<leftarrow> get_apa apa w;
     (r, w1) \<leftarrow> c_watch (apa_fd a) AE_WRITABLE Write_to_remote_agent ca w;
     w2 \<leftarrow> (if r = AE_ERR then abort_connection_ca ca w1 else Some w1);
     b \<leftarrow> get_apa apa w2;
     (q, w3) \<leftarrow> c_watch (apa_fd b) AE_READABLE Read_from_remote_agent ca w2;
     if q = AE_ERR then abort_connection_ca ca w3 else Some w3
   }"

definition read_from_consumer :: "cnet env \<Rightarrow> fd \<Rightarrow> addr \<Rightarrow> consumer \<Rightarrow> consumer option" where
  "read_from_consumer E fd ca w = do {
     c \<leftarrow> get_ca ca w;
     if ca_fd c < 0 then c_unwatch fd (AE_WRITABLE OR AE_READABLE) w
     else do {
       let (r, w1) = c_sys (sys_read E fd (nat (int CONSUMER_HTTP_REQ_BUF_SIZE - nread_in c))) w;
       case r of
         RdData s \<Rightarrow>
           (let c1 = c\<lparr>buf_in := blit (nat (nread_in c)) s (buf_in c), nread_in := nread_in c + int (length s),
                       nread_out := 0, nwrite_out := 0\<rparr>;
                w2 = set_ca ca c1 w1
            in if conn_apa c1 = NULL then do {
                 k \<leftarrow> get_endpoint_min_latency (c_eps w2) (c_num w2);
                 (apa, w3) \<leftarrow> take_apa k w2;
                 if apa = NULL then abort_connection_ca ca w3
                 else watch_remote ca apa (set_ca ca (c1\<lparr>conn_apa := apa\<rparr>) w3)
               } else watch_remote ca (conn_apa c1) w2)
       | RdErr \<Rightarrow> abort_connection_ca ca w1
       | RdAgain \<Rightarrow> Some w1
       | RdEof \<Rightarrow> do {
           w2 \<leftarrow> c_unwatch fd (AE_WRITABLE OR AE_READABLE) w1;
           w3 \<leftarrow> return_ca ca w2;
           c3 \<leftarrow> get_ca ca w3;
           Some (c_close fd (set_ca ca (c3\<lparr>ca_fd := - 1\<rparr>) w3))
         }
     }
   }"

text \<open>
  The length of a write is what is left between the two cursors. In C a negative difference would become
  a huge \<^verbatim>\<open>size_t\<close>, here it is an empty write; the cursors of the invariant never cross.
\<close>

definition write_to_remote_agent :: "cnet env \<Rightarrow> fd \<Rightarrow> addr \<Rightarrow> consumer \<Rightarrow> consumer option" where
  "write_to_remote_agent E fd ca w = do {
     c \<leftarrow> get_ca ca w;
     if ca_fd c < 0 then Some w
     else do {
       let out = take (nat (nread_in c - nwrite_in c)) (drop (nat (nwrite_in c)) (buf_in c));
       let (r, w1) = c_sys (sys_write E fd out) w;
       case r of
         WrSome n \<Rightarrow> do {
           let c1 = c\<lparr>nwrite_in := nwrite_in c + int n\<rparr>;
           let w2 = set_ca ca c1 w1;
           if nwrite_in c1 = nread_in c1 then do {
             w3 \<leftarrow> c_unwatch fd AE_WRITABLE w2;
             a \<leftarrow> get_apa (conn_apa c1) w3;
             let (t, w4) = c_sys (sys_time E) w3;
             Some (set_apa (conn_apa c1) (a\<lparr>req_start := t\<rparr>) w4)
           } else Some w2
         }
       | WrAgain \<Rightarrow> Some w1
       | WrErr \<Rightarrow> abort_connection_ca ca w1
     }
   }"

text \<open>The latency statistics of the endpoint a response came from.\<close>

definition count_response :: "cnet env \<Rightarrow> addr \<Rightarrow> consumer \<Rightarrow> consumer option" where
  "count_response E apa w = do {
     a \<leftarrow> get_apa apa w;
     k \<leftarrow> apa_endpoint a;
     e \<leftarrow> ep_at (c_eps w) k;
     let (t, w1) = c_sys (sys_time E) w;
     Some (w1\<lparr>c_eps := (c_eps w1)[k := e\<lparr>num_reqs := num_reqs e + 1,
       total_ms := total_ms e + word_of_int (t - req_start a)\<rparr>]\<rparr>)
   }"

definition read_from_remote_agent :: "cnet env \<Rightarrow> fd \<Rightarrow> addr \<Rightarrow> consumer \<Rightarrow> consumer option" where
  "read_from_remote_agent E fd ca w = do {
     c \<leftarrow> get_ca ca w;
     if ca_fd c < 0 then c_unwatch fd (AE_WRITABLE OR AE_READABLE) w
     else do {
       let (r, w1) = c_sys (sys_read E fd (nat (int CONSUMER_HTTP_RESP_BUF_SIZE - nread_out c))) w;
       case r of
         RdData s \<Rightarrow> do {
           let c1 = c\<lparr>buf_out := blit (nat (nread_out c)) s (buf_out c), nread_out := nread_out c + int (length s),
                      nread_in := 0, nwrite_in := 0\<rparr>;
           (q, w2) \<leftarrow> c_watch (ca_fd c1) AE_WRITABLE Write_to_consumer ca (set_ca ca c1 w1);
           w3 \<leftarrow> (if q = AE_ERR then abort_connection_ca ca w2 else Some w2);
           c3 \<leftarrow> get_ca ca w3;
           count_response E (conn_apa c3) w3
         }
       | RdAgain \<Rightarrow> Some w1
       | RdErr \<Rightarrow> abort_connection_ca ca w1
       | RdEof \<Rightarrow> do {
           a \<leftarrow> get_apa (conn_apa c) w1;
           k \<leftarrow> apa_endpoint a;
           e \<leftarrow> ep_at (c_eps w1) k;
           abort_connection_ca ca w1
         }
     }
   }"

definition write_to_consumer :: "cnet env \<Rightarrow> fd \<Rightarrow> addr \<Rightarrow> consumer \<Rightarrow> consumer option" where
  "write_to_consumer E fd ca w = do {
     c \<leftarrow> get_ca ca w;
     if ca_fd c < 0 then c_unwatch fd (AE_WRITABLE OR AE_READABLE) w
     else do {
       let out = take (nat (nread_out c - nwrite_out c)) (drop (nat (nwrite_out c)) (buf_out c));
       let (r, w1) = c_sys (sys_write E fd out) w;
       case r of
         WrSome n \<Rightarrow> do {
           let c1 = c\<lparr>nwrite_out := nwrite_out c + int n\<rparr>;
           let w2 = set_ca ca c1 w1;
           if nwrite_out c1 = nread_out c1 then do {
             w3 \<leftarrow> c_unwatch fd AE_WRITABLE w2;
             if conn_apa c1 \<noteq> NULL then do {
               a \<leftarrow> get_apa (conn_apa c1) w3;
               w4 \<leftarrow> c_unwatch (apa_fd a) (AE_WRITABLE OR AE_READABLE) w3;
               k \<leftarrow> apa_endpoint a;
               w5 \<leftarrow> return_apa k (conn_apa c1) w4;
               c5 \<leftarrow> get_ca ca w5;
               Some (set_ca ca (c5\<lparr>conn_apa := NULL\<rparr>) w5)
             } else Some w3
           } else Some w2
         }
       | WrAgain \<Rightarrow> abort_connection_ca ca w1
       | WrErr \<Rightarrow> abort_connection_ca ca w1
     }
   }"

text \<open>
  \<^verbatim>\<open>accept_tcp_handler\<close> of \<^verbatim>\<open>main.c\<close> in a consumer agent; one connection is accepted per call.
\<close>

definition accept_tcp_handler :: "cnet env \<Rightarrow> consumer \<Rightarrow> consumer option" where
  "accept_tcp_handler E w =
     (let (r, w1) = c_sys (sys_accept E) w
      in case r of None \<Rightarrow> Some w1 | Some client_fd \<Rightarrow> consumer_http_handler client_fd w1)"

primrec consumer_call :: "cnet env \<Rightarrow> cproc \<Rightarrow> fd \<Rightarrow> addr \<Rightarrow> u32 \<Rightarrow> consumer \<Rightarrow> consumer option" where
  "consumer_call E Accept_tcp_handler fd d m w = accept_tcp_handler E w"
| "consumer_call E Read_from_consumer fd d m w = read_from_consumer E fd d w"
| "consumer_call E Write_to_remote_agent fd d m w = write_to_remote_agent E fd d w"
| "consumer_call E Read_from_remote_agent fd d m w = read_from_remote_agent E fd d w"
| "consumer_call E Write_to_consumer fd d m w = write_to_consumer E fd d w"

definition consumer_poll :: "consumer \<Rightarrow> (fd \<times> u32) list \<times> consumer" where
  "consumer_poll w = c_sys (epoll_aeApiPoll (setsize (c_loop w))) w"

definition consumer_main :: "cnet env \<Rightarrow> nat \<Rightarrow> consumer \<Rightarrow> consumer option" where
  "consumer_main E = aeMain c_loop (\<lambda>f w. w\<lparr>c_loop := f (c_loop w)\<rparr>) (consumer_call E) consumer_poll"

section \<open>Start-up\<close>

text \<open>
  The callbacks of an endpoint's pool. The pool passes the endpoint as its data pointer, here an
  index.
\<close>

definition init_connection_apa :: "cnet env \<Rightarrow> addr \<Rightarrow> addr \<Rightarrow> cnet \<Rightarrow> int \<times> cnet" where
  "init_connection_apa E elem data n =
     (let a = zero_apa\<lparr>apa_endpoint := Some (nat data)\<rparr>;
          (fd, n1) = connect_loop E (n\<lparr>apas := (apas n)(elem := a)\<rparr>)
      in (1, n1\<lparr>apas := (apas n1)(elem := a\<lparr>apa_fd := fd\<rparr>)\<rparr>))"

definition cleanup_connection_apa :: "addr \<Rightarrow> cnet \<Rightarrow> cnet" where
  "cleanup_connection_apa elem n =
     (let a = apas n elem
      in if apa_fd a > 0 then (sys_close (apa_fd a) n)\<lparr>apas := (apas n)(elem := a\<lparr>apa_fd := - 1\<rparr>)\<rparr> else n)"

end
