(* ===== verification/Dubbo.thy ===== *)
theory Dubbo
  imports C_Strings Sockets
begin

text \<open>
  The translation between HTTP and Dubbo in the provider agent (\<^verbatim>\<open>src/src/provider.c\<close>): the frame
  of a request, assembled by \<^verbatim>\<open>on_http_body\<close> from a form, and the HTTP response made from the frame
  of an answer in \<^verbatim>\<open>_write_to_consumer_agent\<close>. Buffers are strings of the buffer's length; None is
  an access outside a buffer or through NULL.
\<close>

section \<open>Constants\<close>

definition PROVIDER_HTTP_REQ_BUF_SIZE :: nat where "PROVIDER_HTTP_REQ_BUF_SIZE = 2048"
definition PROVIDER_DUBBO_REQ_BUF_SIZE :: nat where "PROVIDER_DUBBO_REQ_BUF_SIZE = 2048"
definition PROVIDER_DUBBO_RESP_BUF_SIZE :: nat where "PROVIDER_DUBBO_RESP_BUF_SIZE = 256"
definition DUBBO_HEADER_LEN :: nat where "DUBBO_HEADER_LEN = 16"
definition DUBBO_DATA_STATUS_LEN :: nat where "DUBBO_DATA_STATUS_LEN = 2"

section \<open>The request\<close>

text \<open>
  The four fields of the form: the memory from the field's start and its length. The searches run
  to the next NUL and do not know the length of the body; only the length of the last field uses it.
\<close>

record form =
  f_service :: string
  service_len :: int
  f_method :: string
  method_len :: int
  f_type :: string
  type_len :: int
  f_arg :: string
  arg_len :: int

definition parse_form :: "string \<Rightarrow> nat \<Rightarrow> form option" where
  "parse_form at len = do {
     service \<leftarrow> past_chr at CHR ''='';
     slen \<leftarrow> strchr service CHR ''&'';
     meth \<leftarrow> past_chr (drop slen service) CHR ''='';
     mlen \<leftarrow> strchr meth CHR ''&'';
     typ \<leftarrow> past_chr (drop mlen meth) CHR ''='';
     tlen \<leftarrow> strchr typ CHR ''&'';
     arg \<leftarrow> past_chr (drop tlen typ) CHR ''='';
     Some \<lparr>f_service = service, service_len = int slen, f_method = meth, method_len = int mlen,
       f_type = typ, type_len = int tlen,
       f_arg = arg, arg_len = int len - (int (length at) - int (length arg))\<rparr>
   }"

definition encoded_String :: string where "encoded_String = ''Ljava%2Flang%2FString%3B''"
definition java_String :: string where "java_String = ''Ljava/lang/String;''"

text \<open>The one type that is decoded; the comparison stops at the length of the field.\<close>

definition decode_type :: "form \<Rightarrow> form" where
  "decode_type f =
     (if strncmp_eq (nat (type_len f)) (f_type f) encoded_String
      then f\<lparr>f_type := java_String @ [NUL], type_len := int (length java_String)\<rparr> else f)"

definition quoted :: "string \<Rightarrow> string" where
  "quoted s = CHR 0x22 # s @ [CHR 0x22, CHR 0x0A]"

definition request_data :: "form \<Rightarrow> string option" where
  "request_data f = do {
     s \<leftarrow> printf_s (service_len f) (f_service f);
     m \<leftarrow> printf_s (method_len f) (f_method f);
     t \<leftarrow> printf_s (type_len f) (f_type f);
     a \<leftarrow> printf_s (arg_len f) (f_arg f);
     Some (quoted ''2.0.1'' @ quoted s @ ''null'' @ [CHR 0x0A] @ quoted m @ quoted t @ quoted a @
       CHR ''{'' # CHR 0x22 # ''path'' @ CHR 0x22 # CHR '':'' # CHR 0x22 # s @ CHR 0x22 # CHR ''}'' # [CHR 0x0A])
   }"

text \<open>
  The frame in \<^verbatim>\<open>buf_req\<close> and its length. Bytes 3 to 7 are not written. The text may not run over
  the end of the buffer.
\<close>

definition assemble_request :: "u32 \<Rightarrow> string \<Rightarrow> nat \<Rightarrow> string \<Rightarrow> (string \<times> int) option" where
  "assemble_request req_id at len buf = do {
     let b1 = blit 0 [CHR 0xDA, CHR 0xBB] buf;
     let b2 = blit 2 [CHR 0xC6] b1;
     let b3 = blit 8 (be32 req_id) b2;
     f \<leftarrow> parse_form at len;
     data \<leftarrow> request_data (decode_type f);
     if DUBBO_HEADER_LEN + length data + 1 > PROVIDER_DUBBO_REQ_BUF_SIZE then None
     else do {
       let b4 = blit DUBBO_HEADER_LEN (data @ [NUL]) b3;
       let b5 = blit 12 (be32 (of_nat (length data))) b4;
       Some (b5, int (length data) + int DUBBO_HEADER_LEN)
     }
   }"

section \<open>The response\<close>

definition resp_head :: string where
  "resp_head = ''HTTP/1.1 200 OK'' @ [CHR 0x0D, CHR 0x0A] @ ''Content-Length:''"

definition RESP_BUFFER_SIZE :: nat where "RESP_BUFFER_SIZE = 128"

text \<open>
  A frame is complete when its header and the announced number of bytes are there; the sum is one
  of 32-bit numbers.
\<close>

definition response_complete :: "string \<Rightarrow> nat \<Rightarrow> bool" where
  "response_complete buf n \<longleftrightarrow> n > DUBBO_HEADER_LEN \<and>
     \<not> n < unat (of_nat DUBBO_HEADER_LEN + ntohl (drop 12 buf))"

text \<open>
  The HTTP response for an answer of \<open>n\<close> bytes, with the changed \<^verbatim>\<open>buf_resp\<close>. The length is a
  \<^verbatim>\<open>size_t\<close> that is printed as a signed number.
\<close>

definition assemble_response :: "string \<Rightarrow> nat \<Rightarrow> (string \<times> string) option" where
  "assemble_response buf n =
     (if n = 0 \<or> length buf < n then None
      else do {
        let b1 = buf[n - 1 := NUL];
        let data_len = (of_nat n - 19 :: u64);
        data \<leftarrow> c_string (drop (DUBBO_HEADER_LEN + DUBBO_DATA_STATUS_LEN) b1);
        let text = resp_head @ show_int (sint data_len) @ [CHR 0x0D, CHR 0x0A, CHR 0x0D, CHR 0x0A] @ data;
        if length text + 1 > RESP_BUFFER_SIZE then None else Some (b1, text)
      })"

end
