(* ===== verification/Provider.thy ===== *)
theory Provider
  imports Dubbo Http_Loop Pool
begin

text \<open>
  The provider agent (\<^verbatim>\<open>src/src/provider.c\<close>): it takes HTTP requests from consumer agents, turns
  each body into a Dubbo request for the local provider and the answer into an HTTP response. A
  connection object (\<open>connection_caa\<close>) is bound for good to a connection to the provider
  (\<open>connection_ap\<close>) when the pool creates it. None is a crash: NULL dereferenced, a descriptor
  outside the table of events, an access outside a buffer, a failed assertion.
\<close>

section \<open>Data\<close>

record connection_ap =
  ap_fd :: fd

record connection_caa =
  caa_fd :: fd
  caa_buf_in :: string
  caa_nread_in :: nat
  buf_req :: string
  len_req :: int
  nwrite_req :: nat
  buf_resp :: string
  nread_resp :: nat
  parser :: http_parser
  processing :: bool
  conn_ap :: addr

text \<open>
  The pool of connection objects is filled by a callback that takes from the pool of provider
  connections, so that pool is part of the state the callback works on. \<open>halted\<close> is a crash in the
  callback, whose type has no other way to say so.
\<close>

record psock = sock +
  caas :: "addr \<Rightarrow> connection_caa"
  aps :: "addr \<Rightarrow> connection_ap"
  halted :: bool

record pnet = psock +
  ap_pool :: "psock Pool option"

datatype pproc = Accept_tcp | Read_from_consumer_agent | Write_to_local_provider | Read_from_local_provider | Write_to_consumer_agent

record provider =
  p_loop :: "pproc aeEventLoop"
  p_net :: pnet
  caa_pool :: "pnet Pool option"
  cur_request_id :: u32
  etcd_key :: string

section \<open>Access\<close>

definition get_caa :: "addr \<Rightarrow> provider \<Rightarrow> connection_caa option" where
  "get_caa a w = (if a = NULL then None else Some (caas (p_net w) a))"

definition get_ap :: "addr \<Rightarrow> provider \<Rightarrow> connection_ap option" where
  "get_ap a w = (if a = NULL then None else Some (aps (p_net w) a))"

definition set_caa :: "addr \<Rightarrow> connection_caa \<Rightarrow> provider \<Rightarrow> provider" where
  "set_caa a c w = w\<lparr>p_net := (p_net w)\<lparr>caas := (caas (p_net w))(a := c)\<rparr>\<rparr>"

definition set_ap :: "addr \<Rightarrow> connection_ap \<Rightarrow> provider \<Rightarrow> provider" where
  "set_ap a c w = w\<lparr>p_net := (p_net w)\<lparr>aps := (aps (p_net w))(a := c)\<rparr>\<rparr>"

definition p_sys :: "(pnet \<Rightarrow> 'r \<times> pnet) \<Rightarrow> provider \<Rightarrow> 'r \<times> provider" where
  "p_sys f w = (let (r, n) = f (p_net w) in (r, w\<lparr>p_net := n\<rparr>))"

definition p_close :: "fd \<Rightarrow> provider \<Rightarrow> provider" where
  "p_close fd w = w\<lparr>p_net := sys_close fd (p_net w)\<rparr>"

definition p_watch :: "fd \<Rightarrow> u32 \<Rightarrow> pproc \<Rightarrow> addr \<Rightarrow> provider \<Rightarrow> (int \<times> provider) option" where
  "p_watch fd m p d w = do {
     (r, el, k) \<leftarrow> aeCreateFileEvent epoll_api fd m p d (p_loop w) (p_net w);
     Some (r, w\<lparr>p_loop := el, p_net := k\<rparr>)
   }"

definition p_unwatch :: "fd \<Rightarrow> u32 \<Rightarrow> provider \<Rightarrow> provider option" where
  "p_unwatch fd m w = do {
     (el, k) \<leftarrow> aeDeleteFileEvent epoll_api fd m (p_loop w) (p_net w);
     Some (w\<lparr>p_loop := el, p_net := k\<rparr>)
   }"

definition return_caa :: "addr \<Rightarrow> provider \<Rightarrow> provider option" where
  "return_caa a w = do {
     p \<leftarrow> caa_pool w;
     let (p1, n) = PoolReturn p a (p_net w);
     Some (w\<lparr>caa_pool := Some p1, p_net := n\<rparr>)
   }"

definition take_caa :: "provider \<Rightarrow> (addr \<times> provider) option" where
  "take_caa w = do {
     p \<leftarrow> caa_pool w;
     let (a, p1, n) = PoolGet p (p_net w);
     if halted n then None else Some (a, w\<lparr>caa_pool := Some p1, p_net := n\<rparr>)
   }"

section \<open>Handlers\<close>

definition abort_connection_caa :: "addr \<Rightarrow> provider \<Rightarrow> provider option" where
  "abort_connection_caa ca w = do {
     c \<leftarrow> get_caa ca w;
     w1 \<leftarrow> p_unwatch (caa_fd c) (AE_WRITABLE OR AE_READABLE) w;
     let w2 = p_close (caa_fd c) w1;
     let w3 = set_caa ca (c\<lparr>caa_fd := - 1\<rparr>) w2;
     w6 \<leftarrow> (if conn_ap c \<noteq> NULL then do {
               a \<leftarrow> get_ap (conn_ap c) w3;
               w4 \<leftarrow> p_unwatch (ap_fd a) (AE_WRITABLE OR AE_READABLE) w3;
               let w5 = p_close (ap_fd a) w4;
               Some (set_ap (conn_ap c) (a\<lparr>ap_fd := - 1\<rparr>) w5)
             } else Some w3);
     return_caa ca w6
   }"

text \<open>The object is not cleared: its buffers keep the bytes of its last connection.\<close>

definition provider_http_handler :: "fd \<Rightarrow> provider \<Rightarrow> provider option" where
  "provider_http_handler fd w = do {
     (ca, w1) \<leftarrow> take_caa w;
     if ca = NULL then Some (p_close fd w1)
     else do {
       c \<leftarrow> get_caa ca w1;
       let w2 = set_caa ca (c\<lparr>caa_fd := fd, caa_nread_in := 0, len_req := 0, nwrite_req := 0, nread_resp := 0,
         parser := http_parser_init HTTP_REQUEST, processing := False\<rparr>) w1;
       (r, w3) \<leftarrow> p_watch fd AE_READABLE Read_from_consumer_agent ca w2;
       if r = AE_ERR then abort_connection_caa ca w3 else Some w3
     }
   }"

text \<open>
  The last part of \<^verbatim>\<open>on_http_body\<close>. As in the consumer agent, the code goes on after a failed
  registration with the descriptor of the aborted object.
\<close>

definition watch_provider :: "addr \<Rightarrow> addr \<Rightarrow> provider \<Rightarrow> provider option" where
  "watch_provider ca ap w = do {
     a \<leftarrow> get_ap ap w;
     (r, w1) \<leftarrow> p_watch (ap_fd a) AE_WRITABLE Write_to_local_provider ca w;
     w2 \<leftarrow> (if r = AE_ERR then abort_connection_caa ca w1 else Some w1);
     b \<leftarrow> get_ap ap w2;
     (q, w3) \<leftarrow> p_watch (ap_fd b) AE_READABLE Read_from_local_provider ca w2;
     if q = AE_ERR then abort_connection_caa ca w3 else Some w3
   }"

text \<open>The body of the callback, for the bytes at an offset of the input buffer.\<close>

definition accept_body :: "addr \<Rightarrow> nat \<Rightarrow> nat \<Rightarrow> provider \<Rightarrow> (int \<times> provider) option" where
  "accept_body ca off len w = do {
     c \<leftarrow> get_caa ca w;
     if processing c then Some (1, w)
     else do {
       (fr, n) \<leftarrow> assemble_request (cur_request_id w) (drop off (caa_buf_in c)) len (buf_req c);
       let w1 = set_caa ca (c\<lparr>processing := True, buf_req := fr, len_req := n\<rparr>) w;
       let w2 = w1\<lparr>cur_request_id := cur_request_id w1 + 1\<rparr>;
       w3 \<leftarrow> watch_provider ca (conn_ap c) w2;
       Some (0, w3)
     }
   }"

text \<open>
  The callback as the parser calls it; the parser was given the input buffer from \<open>base\<close> on. A
  crash is remembered in the state of the callbacks.
\<close>

definition on_http_body :: "addr \<Rightarrow> nat \<Rightarrow> provider option http_data_cb" where
  "on_http_body ca base at body q u =
     (case Option.bind u (accept_body ca (base + at) (length body)) of
        Some (r, w) \<Rightarrow> (r, False, Some w)
      | None \<Rightarrow> (0, False, None))"

definition parser_settings :: "addr \<Rightarrow> nat \<Rightarrow> provider option http_parser_settings" where
  "parser_settings ca base = http_parser_settings_init\<lparr>on_body := Some (on_http_body ca base)\<rparr>"

text \<open>
  The parser lives in the connection object; no callback touches it, so it is written back at the
  end of the call.
\<close>

definition feed_parser :: "addr \<Rightarrow> nat \<Rightarrow> string \<Rightarrow> provider \<Rightarrow> (nat \<times> provider) option" where
  "feed_parser ca base s w = do {
     c \<leftarrow> get_caa ca w;
     (n, q, u) \<leftarrow> http_parser_execute (parser_settings ca base) s (parser c) (Some w);
     w1 \<leftarrow> u;
     c1 \<leftarrow> get_caa ca w1;
     Some (n, set_caa ca (c1\<lparr>parser := q\<rparr>) w1)
   }"

definition read_from_consumer_agent :: "pnet env \<Rightarrow> fd \<Rightarrow> addr \<Rightarrow> provider \<Rightarrow> provider option" where
  "read_from_consumer_agent E fd ca w = do {
     c \<leftarrow> get_caa ca w;
     if caa_fd c < 0 then p_unwatch fd (AE_WRITABLE OR AE_READABLE) w
     else do {
       let (r, w1) = p_sys (sys_read E fd (PROVIDER_HTTP_REQ_BUF_SIZE - caa_nread_in c)) w;
       case r of
         RdData s \<Rightarrow> do {
           let base = caa_nread_in c;
           let w2 = set_caa ca (c\<lparr>caa_buf_in := blit base s (caa_buf_in c)\<rparr>) w1;
           (nparsed, w3) \<leftarrow> feed_parser ca base s w2;
           c3 \<leftarrow> get_caa ca w3;
           let c4 = c3\<lparr>caa_nread_in := caa_nread_in c3 + length s\<rparr>;
           Some (set_caa ca (if nparsed \<noteq> length s then c4\<lparr>caa_nread_in := 0\<rparr> else c4) w3)
         }
       | RdAgain \<Rightarrow> Some w1
       | RdErr \<Rightarrow> abort_connection_caa ca w1
       | RdEof \<Rightarrow> do {
           (nparsed, w2) \<leftarrow> feed_parser ca (caa_nread_in c) [] w1;
           w3 \<leftarrow> p_unwatch fd (AE_WRITABLE OR AE_READABLE) w2;
           let w4 = p_close fd w3;
           c4 \<leftarrow> get_caa ca w4;
           return_caa ca (set_caa ca (c4\<lparr>caa_fd := - 1\<rparr>) w4)
         }
     }
   }"

text \<open>
  The length of a write is the difference of an int and an unsigned number; a negative one is huge
  and leaves the buffer.
\<close>

definition write_to_local_provider :: "pnet env \<Rightarrow> fd \<Rightarrow> addr \<Rightarrow> provider \<Rightarrow> provider option" where
  "write_to_local_provider E fd ca w = do {
     c \<leftarrow> get_caa ca w;
     if caa_fd c < 0 then p_unwatch fd (AE_WRITABLE OR AE_READABLE) w
     else if len_req c < int (nwrite_req c) then None
     else do {
       let out = take (nat (len_req c) - nwrite_req c) (drop (nwrite_req c) (buf_req c));
       let (r, w1) = p_sys (sys_write E fd out) w;
       case r of
         WrSome n \<Rightarrow>
           (let c1 = c\<lparr>nwrite_req := nwrite_req c + n\<rparr>;
                w2 = set_caa ca c1 w1
            in if int (nwrite_req c1) = len_req c1 then p_unwatch fd AE_WRITABLE w2 else Some w2)
       | WrAgain \<Rightarrow> Some w1
       | WrErr \<Rightarrow> abort_connection_caa ca w1
     }
   }"

definition read_from_local_provider :: "pnet env \<Rightarrow> fd \<Rightarrow> addr \<Rightarrow> provider \<Rightarrow> provider option" where
  "read_from_local_provider E fd ca w = do {
     c \<leftarrow> get_caa ca w;
     if caa_fd c < 0 then p_unwatch fd (AE_WRITABLE OR AE_READABLE) w
     else do {
       let (r, w1) = p_sys (sys_read E fd (PROVIDER_DUBBO_RESP_BUF_SIZE - nread_resp c)) w;
       case r of
         RdData s \<Rightarrow> do {
           let c1 = c\<lparr>buf_resp := blit (nread_resp c) s (buf_resp c), nread_resp := nread_resp c + length s\<rparr>;
           let w2 = set_caa ca c1 w1;
           if response_complete (buf_resp c1) (nread_resp c1) then do {
             (q, w3) \<leftarrow> p_watch (caa_fd c1) AE_WRITABLE Write_to_consumer_agent ca w2;
             if q = AE_ERR then abort_connection_caa ca w3 else Some w3
           } else Some w2
         }
       | RdAgain \<Rightarrow> Some w1
       | RdErr \<Rightarrow> abort_connection_caa ca w1
       | RdEof \<Rightarrow> abort_connection_caa ca w1
     }
   }"

definition write_to_consumer_agent :: "pnet env \<Rightarrow> fd \<Rightarrow> addr \<Rightarrow> provider \<Rightarrow> provider option" where
  "write_to_consumer_agent E fd ca w = do {
     c \<leftarrow> get_caa ca w;
     if caa_fd c < 0 then p_unwatch fd (AE_WRITABLE OR AE_READABLE) w
     else do {
       (b, out) \<leftarrow> assemble_response (buf_resp c) (nread_resp c);
       let w0 = set_caa ca (c\<lparr>buf_resp := b\<rparr>) w;
       let (r, w1) = p_sys (sys_write E fd out) w0;
       case r of
         WrSome n \<Rightarrow>
           (if n = length out then do {
              w2 \<leftarrow> p_unwatch fd AE_WRITABLE w1;
              c2 \<leftarrow> get_caa ca w2;
              Some (set_caa ca (c2\<lparr>parser := http_parser_init HTTP_REQUEST, caa_nread_in := 0, len_req := 0, nwrite_req := 0,
                nread_resp := 0, processing := False\<rparr>) w2)
            } else Some w1)
       | WrAgain \<Rightarrow> Some w1
       | WrErr \<Rightarrow> abort_connection_caa ca w1
     }
   }"

text \<open>\<^verbatim>\<open>accept_tcp_handler\<close> of \<^verbatim>\<open>main.c\<close> in a provider agent.\<close>

definition accept_tcp :: "pnet env \<Rightarrow> provider \<Rightarrow> provider option" where
  "accept_tcp E w =
     (let (r, w1) = p_sys (sys_accept E) w
      in case r of None \<Rightarrow> Some w1 | Some client_fd \<Rightarrow> provider_http_handler client_fd w1)"

primrec provider_call :: "pnet env \<Rightarrow> pproc \<Rightarrow> fd \<Rightarrow> addr \<Rightarrow> u32 \<Rightarrow> provider \<Rightarrow> provider option" where
  "provider_call E Accept_tcp fd d m w = accept_tcp E w"
| "provider_call E Read_from_consumer_agent fd d m w = read_from_consumer_agent E fd d w"
| "provider_call E Write_to_local_provider fd d m w = write_to_local_provider E fd d w"
| "provider_call E Read_from_local_provider fd d m w = read_from_local_provider E fd d w"
| "provider_call E Write_to_consumer_agent fd d m w = write_to_consumer_agent E fd d w"

definition provider_poll :: "provider \<Rightarrow> (fd \<times> u32) list \<times> provider" where
  "provider_poll w = p_sys (epoll_aeApiPoll (setsize (p_loop w))) w"

definition provider_main :: "pnet env \<Rightarrow> nat \<Rightarrow> provider \<Rightarrow> provider option" where
  "provider_main E = aeMain p_loop (\<lambda>f w. w\<lparr>p_loop := f (p_loop w)\<rparr>) (provider_call E) provider_poll"

section \<open>Start-up\<close>

definition init_connection_ap :: "('a psock_scheme) env \<Rightarrow> addr \<Rightarrow> addr \<Rightarrow> 'a psock_scheme \<Rightarrow> int \<times> 'a psock_scheme" where
  "init_connection_ap E elem data n =
     (let (fd, n1) = connect_loop E n
      in (1, n1\<lparr>aps := (aps n1)(elem := (aps n1 elem)\<lparr>ap_fd := fd\<rparr>)\<rparr>))"

definition cleanup_connection_ap :: "addr \<Rightarrow> 'a psock_scheme \<Rightarrow> 'a psock_scheme" where
  "cleanup_connection_ap elem n =
     (let a = aps n elem
      in if ap_fd a > 0 then (sys_close (ap_fd a) n)\<lparr>aps := (aps n)(elem := a\<lparr>ap_fd := - 1\<rparr>)\<rparr> else n)"

text \<open>
  Without a connection left the code aborts an object whose event loop is not set and gives it to a
  pool that does not exist yet.
\<close>

definition init_connection_caa :: "addr \<Rightarrow> addr \<Rightarrow> pnet \<Rightarrow> int \<times> pnet" where
  "init_connection_caa elem data n =
     (case ap_pool n of
        None \<Rightarrow> (1, n\<lparr>halted := True\<rparr>)
      | Some p \<Rightarrow>
          let (ap, p1, s1) = PoolGet p (psock.truncate n);
              n1 = psock.extend s1 (pnet.fields (Some p1))
          in if ap = NULL then (1, n1\<lparr>halted := True\<rparr>)
             else (1, n1\<lparr>caas := (caas n1)(elem := (caas n1 elem)\<lparr>conn_ap := ap\<rparr>)\<rparr>))"

definition cleanup_connection_caa :: "addr \<Rightarrow> pnet \<Rightarrow> pnet" where
  "cleanup_connection_caa elem n = n"

definition NUM_CONN_FOR_CONSUMER_AGENT :: u32 where "NUM_CONN_FOR_CONSUMER_AGENT = 512"
definition NUM_CONN_TO_PROVIDER :: u32 where "NUM_CONN_TO_PROVIDER = 512"

definition sizeof_connection_caa :: u32 where "sizeof_connection_caa = 4448"

end
