(* ===== verification/Etcd.thy ===== *)
theory Etcd
  imports C_Strings "HOL-Library.Monad_Syntax"
begin

text \<open>
  The client of the service registry (\<^verbatim>\<open>src/src/etcd.c\<close>). The HTTP transfer (libcurl) and the JSON
  library (jansson) are not part of the program: their functions are the fields of a record, a
  parameter of every operation. \<open>'j\<close> are JSON values, \<open>'w\<close> is the state of the world. A value None
  is a crash: a read of memory that is not a string, or \<^verbatim>\<open>strdup\<close> of NULL.
\<close>

section \<open>Libraries\<close>

datatype request_t = GET | PUT | DELETE

record MemoryStruct =
  memory :: "string option"
  msize :: nat

text \<open>
  \<open>curl_easy_perform\<close> gets the request, the URL, the data to send and the callback for the pieces of
  the answer; its Boolean is \<^verbatim>\<open>CURLE_OK\<close>. \<open>realloc_ok\<close> says which allocations succeed, and \<open>junk\<close> is
  what fresh memory holds. A missing or NULL JSON value is None.
\<close>

record ('j, 'w) etcd_lib =
  curl_global_init :: "'w \<Rightarrow> int \<times> 'w"
  curl_easy_perform :: "request_t \<Rightarrow> string \<Rightarrow> string option \<Rightarrow> (string \<Rightarrow> MemoryStruct \<Rightarrow> nat \<times> MemoryStruct) \<Rightarrow>
    MemoryStruct \<Rightarrow> 'w \<Rightarrow> bool \<times> MemoryStruct \<times> 'w"
  json_loads :: "string \<Rightarrow> 'j option"
  json_object_get :: "'j \<Rightarrow> string \<Rightarrow> 'j option"
  json_is_array :: "'j \<Rightarrow> bool"
  json_array_size :: "'j \<Rightarrow> nat"
  json_array_get :: "'j \<Rightarrow> nat \<Rightarrow> 'j"
  json_is_string :: "'j \<Rightarrow> bool"
  json_is_integer :: "'j \<Rightarrow> bool"
  json_string_value :: "'j \<Rightarrow> string option"
  json_integer_value :: "'j \<Rightarrow> int"
  realloc_ok :: "nat \<Rightarrow> bool"
  junk :: char
  etcd_server :: string
  etcd_port :: int

definition jget :: "('j, 'w) etcd_lib \<Rightarrow> 'j option \<Rightarrow> string \<Rightarrow> 'j option" where
  "jget X j k = do { x \<leftarrow> j; json_object_get X x k }"

definition ETCDLIB_NO_CURL_INITIALIZATION :: u32 where "ETCDLIB_NO_CURL_INITIALIZATION = 1"
definition MAX_OVERHEAD_LENGTH :: nat where "MAX_OVERHEAD_LENGTH = 64"

definition etcd_init :: "string \<Rightarrow> int \<Rightarrow> u32 \<Rightarrow> ('j, 'w) etcd_lib \<Rightarrow> 'w \<Rightarrow> int \<times> ('j, 'w) etcd_lib \<times> 'w" where
  "etcd_init server port fl X w =
     (let X1 = X\<lparr>etcd_server := server, etcd_port := port\<rparr>
      in if fl AND ETCDLIB_NO_CURL_INITIALIZATION = 0
         then let (status, w1) = curl_global_init X w in (status, X1, w1)
         else (0, X1, w))"

section \<open>The transfer\<close>

definition WriteMemoryCallback :: "('j, 'w) etcd_lib \<Rightarrow> string \<Rightarrow> MemoryStruct \<Rightarrow> nat \<times> MemoryStruct" where
  "WriteMemoryCallback X contents mem =
     (if \<not> realloc_ok X (msize mem + length contents + 1) then (0, mem\<lparr>memory := None\<rparr>)
      else
        let old = (case memory mem of Some m \<Rightarrow> take (msize mem) m | None \<Rightarrow> replicate (msize mem) (junk X))
        in (length contents, \<lparr>memory = Some (old @ contents @ [NUL]), msize = msize mem + length contents\<rparr>))"

definition performRequest ::
  "('j, 'w) etcd_lib \<Rightarrow> string \<Rightarrow> request_t \<Rightarrow> string option \<Rightarrow> MemoryStruct \<Rightarrow> 'w \<Rightarrow> bool \<times> MemoryStruct \<times> 'w" where
  "performRequest X url request reqData mem w =
     curl_easy_perform X request url reqData (WriteMemoryCallback X) mem w"

text \<open>The memory before the transfer: \<^verbatim>\<open>malloc(1)\<close> or, in \<^verbatim>\<open>etcd_set\<close>, \<^verbatim>\<open>calloc(1, 1)\<close>.\<close>

definition malloc_reply :: "('j, 'w) etcd_lib \<Rightarrow> MemoryStruct" where
  "malloc_reply X = \<lparr>memory = Some [junk X], msize = 0\<rparr>"

definition calloc_reply :: MemoryStruct where
  "calloc_reply = \<lparr>memory = Some [NUL], msize = 0\<rparr>"

definition load_reply :: "('j, 'w) etcd_lib \<Rightarrow> MemoryStruct \<Rightarrow> 'j option option" where
  "load_reply X mem = do { m \<leftarrow> memory mem; s \<leftarrow> c_string m; Some (json_loads X s) }"

definition key_url :: "('j, 'w) etcd_lib \<Rightarrow> string \<Rightarrow> string" where
  "key_url X key = ''http://'' @ etcd_server X @ '':'' @ show_int (etcd_port X) @ ''/v2/keys/'' @ key"

section \<open>Reading\<close>

text \<open>The result, the value, and the index if it is written; it is cut to an int.\<close>

definition etcd_get :: "('j, 'w) etcd_lib \<Rightarrow> string \<Rightarrow> 'w \<Rightarrow> ((int \<times> string option \<times> int option) \<times> 'w) option" where
  "etcd_get X key w =
     (let (ok, mem, w1) = performRequest X (key_url X key) GET None (malloc_reply X) w
      in if \<not> ok then Some ((- 1, None, None), w1)
         else do {
           root \<leftarrow> load_reply X mem;
           let node = jget X root ''node'';
           case (jget X node ''modifiedIndex'', jget X node ''value'') of
             (Some i, Some v) \<Rightarrow> do {
               s \<leftarrow> json_string_value X v;
               Some ((0, Some s, Some (sint (word_of_int (json_integer_value X i) :: u32))), w1)
             }
           | _ \<Rightarrow> Some ((- 1, None, None), w1)
         })"

text \<open>
  \<^verbatim>\<open>etcd_get_recursive_values\<close> on the elements of an array; the result of a nested call is not
  used. The callback gets NULL for a key or a value that is not a string.
\<close>

type_synonym 'w etcd_key_value_callback = "string option \<Rightarrow> string option \<Rightarrow> 'w \<Rightarrow> 'w option"

definition node_elements :: "('j, 'w) etcd_lib \<Rightarrow> 'j \<Rightarrow> 'j list" where
  "node_elements X j =
     (case json_object_get X j ''nodes'' of
        Some ns \<Rightarrow> if json_is_array X ns then map (json_array_get X ns) [0..<json_array_size X ns] else []
      | None \<Rightarrow> [])"

definition leaf_call :: "('j, 'w) etcd_lib \<Rightarrow> 'w etcd_key_value_callback \<Rightarrow> 'j \<Rightarrow> 'w \<Rightarrow> 'w option" where
  "leaf_call X callback j w =
     (case (json_object_get X j ''key'', json_object_get X j ''value'') of
        (Some k, Some v) \<Rightarrow>
          if json_object_get X j ''dir'' = None then callback (json_string_value X k) (json_string_value X v) w else Some w
      | _ \<Rightarrow> Some w)"

definition newer_index :: "('j, 'w) etcd_lib \<Rightarrow> 'j \<Rightarrow> int \<Rightarrow> int" where
  "newer_index X j m =
     (case json_object_get X j ''modifiedIndex'' of
        Some i \<Rightarrow> if m < json_integer_value X i then json_integer_value X i else m
      | None \<Rightarrow> m)"

partial_function (option) values_loop ::
  "('j, 'w) etcd_lib \<Rightarrow> 'w etcd_key_value_callback \<Rightarrow> 'j list \<Rightarrow> int \<Rightarrow> 'w \<Rightarrow> (int \<times> 'w) option" where
  "values_loop X callback js m w =
     (case js of
        [] \<Rightarrow> Some (m, w)
      | j # js1 \<Rightarrow>
          Option.bind
            (if json_object_get X j ''nodes'' \<noteq> None then values_loop X callback (node_elements X j) (newer_index X j m) w
             else map_option (\<lambda>w1. (newer_index X j m, w1)) (leaf_call X callback j w))
            (\<lambda>(m1, w1). values_loop X callback js1 m1 w1))"

definition etcd_get_recursive_values ::
  "('j, 'w) etcd_lib \<Rightarrow> 'w etcd_key_value_callback \<Rightarrow> 'j \<Rightarrow> int \<Rightarrow> 'w \<Rightarrow> (int \<times> int \<times> 'w) option" where
  "etcd_get_recursive_values X callback root m w = do {
     (m1, w1) \<leftarrow> values_loop X callback (node_elements X root) m w;
     Some (if m1 > 0 then 0 else 1, m1, w1)
   }"

text \<open>The result and the index. A failed transfer leaves the result at 0.\<close>

definition etcd_get_directory ::
  "('j, 'w) etcd_lib \<Rightarrow> string \<Rightarrow> 'w etcd_key_value_callback \<Rightarrow> int \<Rightarrow> 'w \<Rightarrow> (int \<times> int \<times> 'w) option" where
  "etcd_get_directory X directory callback modifiedIndex w =
     (let (ok, mem, w1) = performRequest X (key_url X directory @ ''?recursive=true'') GET None (malloc_reply X) w
      in if \<not> ok then Some (0, modifiedIndex, w1)
         else do {
           root \<leftarrow> load_reply X mem;
           case jget X root ''node'' of
             Some node \<Rightarrow> etcd_get_recursive_values X callback node 0 w1
           | None \<Rightarrow> Some (if root = None then - 1 else 0, modifiedIndex, w1)
         })"

section \<open>Writing\<close>

text \<open>\<^verbatim>\<open>snprintf\<close> behind what is already in a buffer of \<open>n\<close> bytes.\<close>

definition snprintf_at :: "nat \<Rightarrow> string \<Rightarrow> string \<Rightarrow> string" where
  "snprintf_at n buf s = buf @ take (n - length buf - 1) s"

definition set_request :: "string \<Rightarrow> int \<Rightarrow> bool \<Rightarrow> string" where
  "set_request val ttl prevExist =
     (let n = length val + MAX_OVERHEAD_LENGTH;
          r1 = snprintf_at n [] (''value='' @ val);
          r2 = (if ttl > 0 then snprintf_at n r1 ('';ttl='' @ show_int ttl) else r1)
      in if prevExist then snprintf_at n r2 '';prevExist=true'' else r2)"

definition etcd_set :: "('j, 'w) etcd_lib \<Rightarrow> string \<Rightarrow> string \<Rightarrow> int \<Rightarrow> bool \<Rightarrow> 'w \<Rightarrow> (int \<times> 'w) option" where
  "etcd_set X key val ttl prevExist w =
     (let key1 = dropWhile (\<lambda>c. c = CHR ''/'') key;
          (ok, mem, w1) = performRequest X (key_url X key1) PUT (Some (set_request val ttl prevExist)) calloc_reply w
      in if \<not> ok then Some (- 1, w1)
         else do {
           root \<leftarrow> load_reply X mem;
           let v = jget X (jget X root ''node'') ''value'';
           case v of
             Some s \<Rightarrow> Some (if json_is_string X s \<and> json_string_value X s = Some val then 0 else - 1, w1)
           | None \<Rightarrow> Some (- 1, w1)
         })"

definition etcd_set_with_check :: "('j, 'w) etcd_lib \<Rightarrow> string \<Rightarrow> string \<Rightarrow> int \<Rightarrow> bool \<Rightarrow> 'w \<Rightarrow> (int \<times> 'w) option" where
  "etcd_set_with_check X key val ttl always_write w = do {
     ((r, v, i), w1) \<leftarrow> etcd_get X key w;
     let res = (if r = 0 \<and> v \<noteq> None \<and> v \<noteq> Some val then - 1 else 0);
     if always_write \<or> res = 0 then etcd_set X key val ttl False w1 else Some (res, w1)
   }"

definition etcd_del :: "('j, 'w) etcd_lib \<Rightarrow> string \<Rightarrow> 'w \<Rightarrow> (int \<times> 'w) option" where
  "etcd_del X key w =
     (let (ok, mem, w1) = performRequest X (key_url X key @ ''?recursive=true'') DELETE None (malloc_reply X) w
      in if \<not> ok then Some (- 1, w1)
         else do {
           root \<leftarrow> load_reply X mem;
           Some (if jget X root ''node'' \<noteq> None then 0 else - 1, w1)
         })"

section \<open>Watching\<close>

text \<open>
  What a watch writes through its pointers; None is a target that is not written. The five flags
  say which pointers are not NULL.
\<close>

record watch_out =
  w_action :: "string option"
  w_prevValue :: "string option"
  w_value :: "string option"
  w_rkey :: "string option"
  w_index :: "int option"

record watch_want =
  want_action :: bool
  want_prevValue :: bool
  want_value :: bool
  want_rkey :: bool
  want_index :: bool

definition dup_string :: "('j, 'w) etcd_lib \<Rightarrow> bool \<Rightarrow> 'j option \<Rightarrow> string option" where
  "dup_string X want j = do { x \<leftarrow> j; if want \<and> json_is_string X x then json_string_value X x else None }"

definition etcd_watch ::
  "('j, 'w) etcd_lib \<Rightarrow> string \<Rightarrow> int \<Rightarrow> watch_want \<Rightarrow> 'w \<Rightarrow> (int \<times> watch_out \<times> 'w) option" where
  "etcd_watch X key ind p w =
     (let url = key_url X key @ ''?wait=true&recursive=true'' @ (if ind \<noteq> 0 then ''&waitIndex='' @ show_int ind else []);
          (ok, mem, w1) = performRequest X url GET None (malloc_reply X) w
      in if \<not> ok then Some (- 1, \<lparr>w_action = None, w_prevValue = None, w_value = None, w_rkey = None, w_index = None\<rparr>, w1)
         else do {
           root \<leftarrow> load_reply X mem;
           let node = jget X root ''node'';
           Some (if root = None then - 1 else 0,
             \<lparr>w_action = dup_string X (want_action p) (jget X root ''action''),
              w_prevValue = dup_string X (want_prevValue p) (jget X (jget X root ''prevNode'') ''value''),
              w_value = dup_string X (want_value p) (jget X node ''value''),
              w_rkey = dup_string X (want_rkey p) (jget X node ''key''),
              w_index = (if want_index p
                then Some (case jget X node ''modifiedIndex'' of
                    Some i \<Rightarrow> if json_is_integer X i then json_integer_value X i else ind
                  | None \<Rightarrow> ind) else None)\<rparr>, w1)
         })"

end
