(* ===== verification/Startup.thy ===== *)
theory Startup
  imports Consumer Provider Etcd
begin

text \<open>
  How the two agents meet: the provider agent registers itself (\<^verbatim>\<open>register_etcd_service\<close> in
  \<^verbatim>\<open>src/src/provider.c\<close>), and the consumer agent, when it starts, asks for all that are registered
  (\<^verbatim>\<open>discover_etcd_services\<close> and the callback \<^verbatim>\<open>on_etcd_service_endpoint\<close> in \<^verbatim>\<open>src/src/consumer.c\<close>).
\<close>

section \<open>The provider agent\<close>

text \<open>The address is the result of \<^verbatim>\<open>get_local_ip_addr\<close>; the key goes into a buffer of 128 bytes.\<close>

definition service_dir :: string where
  "service_dir = ''/dubbomesh/com.alibaba.dubbo.performance.demo.provider.IHelloService/''"

definition service_key :: "string \<Rightarrow> int \<Rightarrow> string" where
  "service_key ip_addr server_port = service_dir @ ip_addr @ '':'' @ show_int server_port"

definition register_etcd_service ::
  "('j, provider) etcd_lib \<Rightarrow> string \<Rightarrow> int \<Rightarrow> provider \<Rightarrow> provider option" where
  "register_etcd_service X ip_addr server_port w = do {
     let key = service_key ip_addr server_port;
     if length key + 1 > 128 then None
     else do {
       (ret, w1) \<leftarrow> etcd_set X key [] 3600 False (w\<lparr>etcd_key := key\<rparr>);
       Some w1
     }
   }"

definition deregister_etcd_service :: "('j, provider) etcd_lib \<Rightarrow> provider \<Rightarrow> provider option" where
  "deregister_etcd_service X w = do { (ret, w1) \<leftarrow> etcd_del X (etcd_key w) w; Some w1 }"

text \<open>Both pools have elements of the size of a \<^verbatim>\<open>connection_caa_t\<close>.\<close>

definition provider_init ::
  "('j, provider) etcd_lib \<Rightarrow> psock env \<Rightarrow> string \<Rightarrow> int \<Rightarrow> int \<Rightarrow> provider \<Rightarrow> provider option" where
  "provider_init X E ip_addr server_port dubbo_port w = do {
     w1 \<leftarrow> register_etcd_service X ip_addr server_port w;
     let n = p_net w1;
     (ap, s) \<leftarrow> PoolInit NUM_CONN_TO_PROVIDER NUM_CONN_TO_PROVIDER sizeof_connection_caa None
       (Some (init_connection_ap E)) dubbo_port (Some cleanup_connection_ap) None (psock.truncate n);
     let n1 = psock.extend s (pnet.fields ap);
     (ca, n2) \<leftarrow> PoolInit NUM_CONN_FOR_CONSUMER_AGENT NUM_CONN_FOR_CONSUMER_AGENT sizeof_connection_caa None
       (Some init_connection_caa) NULL (Some cleanup_connection_caa) None n1;
     if halted n2 \<or> ap = None \<or> ca = None then None
     else Some (w1\<lparr>p_net := n2, caa_pool := ca\<rparr>)
   }"

definition provider_cleanup :: "('j, provider) etcd_lib \<Rightarrow> provider \<Rightarrow> provider option" where
  "provider_cleanup X w = deregister_etcd_service X w"

section \<open>The consumer agent\<close>

definition NUM_CONN_FOR_CONSUMER :: u32 where "NUM_CONN_FOR_CONSUMER = 1024"
definition NUM_CONN_PER_PROVIDER :: u32 where "NUM_CONN_PER_PROVIDER = 512"
definition MAX_ENDPOINTS :: nat where "MAX_ENDPOINTS = 3"

text \<open>Sizes on a 64-bit target.\<close>

definition sizeof_connection_ca :: u32 where "sizeof_connection_ca = 2352"
definition sizeof_connection_apa :: u32 where "sizeof_connection_apa = 24"

text \<open>
  The parts of a key: the text behind the last slash and the text behind the last colon; their
  lengths are subtracted as \<^verbatim>\<open>size_t\<close>.
\<close>

definition key_endpoint :: "string \<Rightarrow> (string \<times> int) option" where
  "key_endpoint key = do {
     ip_and_port \<leftarrow> past_last key CHR ''/'';
     port \<leftarrow> past_last key CHR '':'';
     let n = (of_nat (length ip_and_port) - of_nat (length port) - 1 :: u64);
     Some (take (unat n) ip_and_port, atoi port)
   }"

text \<open>
  The callback of the directory. There is room for three endpoints; a fourth is written outside the
  array. The pool gets the address of the endpoint as its data, here the index.
\<close>

definition on_etcd_service_endpoint :: "cnet env \<Rightarrow> consumer etcd_key_value_callback" where
  "on_etcd_service_endpoint E key val w = do {
     k \<leftarrow> key;
     (ip, port) \<leftarrow> key_endpoint k;
     e \<leftarrow> ep_at (c_eps w) (c_num w);
     (p, n) \<leftarrow> PoolInit NUM_CONN_PER_PROVIDER NUM_CONN_PER_PROVIDER sizeof_connection_apa None
       (Some (init_connection_apa E)) (int (c_num w)) (Some cleanup_connection_apa) None (c_net w);
     p1 \<leftarrow> p;
     Some (w\<lparr>c_eps := (c_eps w)[c_num w := e\<lparr>ep_ip := ip, ep_port := port, total_ms := 1, num_reqs := 1, score := 0,
         conn_pool := Some p1\<rparr>],
       c_net := n, c_num := c_num w + 1\<rparr>)
   }"

text \<open>The process goes on, or it exits.\<close>

datatype 'a startup = Running 'a | Exited

definition discover_etcd_services :: "('j, consumer) etcd_lib \<Rightarrow> cnet env \<Rightarrow> consumer \<Rightarrow> consumer startup option" where
  "discover_etcd_services X E w = do {
     (ret, modifiedIndex, w1) \<leftarrow> etcd_get_directory X service_dir (on_etcd_service_endpoint E) 0 w;
     Some (if ret \<noteq> 0 then Exited else Running w1)
   }"

definition consumer_init :: "('j, consumer) etcd_lib \<Rightarrow> cnet env \<Rightarrow> consumer \<Rightarrow> consumer startup option" where
  "consumer_init X E w = do {
     r \<leftarrow> discover_etcd_services X E w;
     case r of
       Exited \<Rightarrow> Some Exited
     | Running w1 \<Rightarrow> do {
         (p, n) \<leftarrow> PoolInit NUM_CONN_FOR_CONSUMER NUM_CONN_FOR_CONSUMER sizeof_connection_ca None None NULL None None (c_net w1);
         p1 \<leftarrow> p;
         Some (Running (w1\<lparr>c_pool := Some p1, c_net := n\<rparr>))
       }
   }"

text \<open>
  A consumer agent from its start (\<^verbatim>\<open>main\<close>): the socket it listens on, made by \<^verbatim>\<open>do_listen\<close>, is watched
  before the providers are looked up; then the event loop runs \<open>n\<close> rounds.
\<close>

definition EV_MAX_SET_SIZE :: int where "EV_MAX_SET_SIZE = 2048"

definition monitor_accepts :: "fd \<Rightarrow> consumer \<Rightarrow> consumer startup option" where
  "monitor_accepts listen_fd w =
     (case aeCreateEventLoop epoll_api EV_MAX_SET_SIZE (c_net w) of
        (None, k) \<Rightarrow> None
      | (Some el, k) \<Rightarrow> do {
          (ret, w1) \<leftarrow> c_watch listen_fd AE_READABLE Accept_tcp_handler NULL (w\<lparr>c_loop := el, c_net := k\<rparr>);
          Some (if ret = AE_ERR then Exited else Running w1)
        })"

definition consumer_start :: "('j, consumer) etcd_lib \<Rightarrow> cnet env \<Rightarrow> fd \<Rightarrow> consumer \<Rightarrow> consumer startup option" where
  "consumer_start X E listen_fd w = do {
     r \<leftarrow> monitor_accepts listen_fd w;
     case r of Exited \<Rightarrow> Some Exited | Running w1 \<Rightarrow> consumer_init X E w1
   }"

text \<open>The same for a provider agent; its registration is part of \<^verbatim>\<open>provider_init\<close>.\<close>

definition provider_monitor_accepts :: "fd \<Rightarrow> provider \<Rightarrow> provider startup option" where
  "provider_monitor_accepts listen_fd w =
     (case aeCreateEventLoop epoll_api EV_MAX_SET_SIZE (p_net w) of
        (None, k) \<Rightarrow> None
      | (Some el, k) \<Rightarrow> do {
          (ret, w1) \<leftarrow> p_watch listen_fd AE_READABLE Accept_tcp NULL (w\<lparr>p_loop := el, p_net := k\<rparr>);
          Some (if ret = AE_ERR then Exited else Running w1)
        })"

definition provider_start ::
  "('j, provider) etcd_lib \<Rightarrow> psock env \<Rightarrow> string \<Rightarrow> int \<Rightarrow> int \<Rightarrow> fd \<Rightarrow> provider \<Rightarrow> provider startup option" where
  "provider_start X E ip_addr server_port dubbo_port listen_fd w = do {
     r \<leftarrow> provider_monitor_accepts listen_fd w;
     case r of
       Exited \<Rightarrow> Some Exited
     | Running w1 \<Rightarrow> map_option Running (provider_init X E ip_addr server_port dubbo_port w1)
   }"

end
