(* ===== verification/Startup_Props.thy ===== *)
theory Startup_Props
  imports Startup Pool_Props
begin

text \<open>
  What the consumer agent finds of the provider agents: a provider's key is read back as its address,
  and a directory of the registry is walked entry by entry.
\<close>

section \<open>A provider's key\<close>

definition dotted :: "string \<Rightarrow> bool" where
  "dotted ip \<longleftrightarrow> length ip \<le> 15 \<and> (\<forall>c \<in> set ip. is_digit c \<or> c = CHR ''.'')"

lemma dotted_no: "dotted ip \<Longrightarrow> \<not> is_digit c \<Longrightarrow> c \<noteq> CHR ''.'' \<Longrightarrow> c \<notin> set ip"
  by (auto simp: dotted_def)

lemma key_endpoint_service_key:
  assumes "dotted ip" "0 \<le> pt"
  shows "key_endpoint (service_key ip pt) = Some (ip, pt)"
proof -
  have no: "\<not> is_digit CHR ''/''" "\<not> is_digit CHR '':''" by (simp_all add: is_digit_def)
  define d where "d = dec (nat pt)"
  define dir where "dir = butlast service_dir"
  have dir: "service_dir = dir @ [CHR ''/'']" by (simp add: dir_def service_dir_def)
  have key: "service_key ip pt = dir @ CHR ''/'' # (ip @ CHR '':'' # d)"
    "service_key ip pt = (dir @ CHR ''/'' # ip) @ CHR '':'' # d"
    using assms(2) by (simp_all add: service_key_def dir d_def show_int_def)
  have "CHR ''/'' \<notin> set (ip @ CHR '':'' # d)"
    using dotted_no [OF assms(1) no(1)] dec_no [OF no(1)] by (simp add: d_def)
  then have "past_last (service_key ip pt) CHR ''/'' = Some (ip @ CHR '':'' # d)"
    unfolding key(1) by (rule past_last_append)
  moreover have "past_last (service_key ip pt) CHR '':'' = Some d"
    unfolding key(2) by (rule past_last_append) (simp add: d_def dec_no [OF no(2)])
  moreover have "unat (of_nat (length (ip @ CHR '':'' # d)) - of_nat (length d) - 1 :: u64) = length ip"
    using assms(1) by (simp add: dotted_def unat_of_nat take_bit_nat_eq_self)
  moreover have "atoi d = pt" using assms(2) atoi_dec_end [of "nat pt"] by (simp add: d_def)
  ultimately show ?thesis by (simp add: key_endpoint_def)
qed

lemma service_key_length:
  assumes "dotted ip" "0 \<le> pt" "pt < 65536"
  shows "length (service_key ip pt) + 1 \<le> 128"
proof -
  have "length (dec (nat pt)) \<le> 5" by (rule dec_length) (use assms in simp_all)
  then show ?thesis using assms by (simp add: service_key_def service_dir_def dotted_def show_int_def)
qed

section \<open>A directory of the registry\<close>

text \<open>
  The tree of keys a JSON value stands for: an entry with its key and value, an empty directory, or a
  directory with its nodes; each has the index of its last change.
\<close>

datatype etcd_tree = Entry string string int | Empty_dir int | Branch "etcd_tree list" int

definition shows_index :: "('j, 'w) etcd_lib \<Rightarrow> int \<Rightarrow> 'j \<Rightarrow> bool" where
  "shows_index X i j \<longleftrightarrow> (\<exists>m. json_object_get X j ''modifiedIndex'' = Some m \<and> json_integer_value X m = i)"

fun shows_node :: "('j, 'w) etcd_lib \<Rightarrow> etcd_tree \<Rightarrow> 'j \<Rightarrow> bool"
  and shows_nodes :: "('j, 'w) etcd_lib \<Rightarrow> etcd_tree list \<Rightarrow> 'j list \<Rightarrow> bool" where
  "shows_node X (Entry k v i) j \<longleftrightarrow>
     json_object_get X j ''nodes'' = None \<and> json_object_get X j ''dir'' = None \<and> shows_index X i j \<and>
     (\<exists>jk jv. json_object_get X j ''key'' = Some jk \<and> json_string_value X jk = Some k \<and>
        json_object_get X j ''value'' = Some jv \<and> json_string_value X jv = Some v)"
| "shows_node X (Empty_dir i) j \<longleftrightarrow>
     json_object_get X j ''nodes'' = None \<and> json_object_get X j ''value'' = None \<and> shows_index X i j"
| "shows_node X (Branch ts i) j \<longleftrightarrow>
     shows_index X i j \<and> (\<exists>ns. json_object_get X j ''nodes'' = Some ns \<and> json_is_array X ns) \<and>
     shows_nodes X ts (node_elements X j)"
| "shows_nodes X [] js \<longleftrightarrow> js = []"
| "shows_nodes X (t # ts) js \<longleftrightarrow> (case js of [] \<Rightarrow> False | j # js1 \<Rightarrow> shows_node X t j \<and> shows_nodes X ts js1)"

text \<open>The reference: the entries in order, and the newest index.\<close>

fun entries_of :: "etcd_tree \<Rightarrow> (string \<times> string) list" where
  "entries_of (Entry k v i) = [(k, v)]"
| "entries_of (Empty_dir i) = []"
| "entries_of (Branch ts i) = concat (map entries_of ts)"

fun newest :: "int \<Rightarrow> etcd_tree \<Rightarrow> int" where
  "newest m (Entry k v i) = max m i"
| "newest m (Empty_dir i) = max m i"
| "newest m (Branch ts i) = fold (\<lambda>t m. newest m t) ts (max m i)"

fun call_entries :: "'w etcd_key_value_callback \<Rightarrow> (string \<times> string) list \<Rightarrow> 'w \<Rightarrow> 'w option" where
  "call_entries cb [] w = Some w"
| "call_entries cb ((k, v) # es) w = do { w1 \<leftarrow> cb (Some k) (Some v) w; call_entries cb es w1 }"

lemma call_entries_append:
  "call_entries cb (es @ fs) w = do { w1 \<leftarrow> call_entries cb es w; call_entries cb fs w1 }"
  by (induction es arbitrary: w) (auto split: Option.bind_splits)

lemma newer_index_shown: "shows_index X i j \<Longrightarrow> newer_index X j m = max m i"
  by (auto simp: shows_index_def newer_index_def max_def)

lemma values_loop_walks:
  "shows_node X t j \<Longrightarrow> values_loop X cb (j # js) m w =
     do { w1 \<leftarrow> call_entries cb (entries_of t) w; values_loop X cb js (newest m t) w1 }"
  "shows_nodes X ts js \<Longrightarrow> values_loop X cb js m w =
     do { w1 \<leftarrow> call_entries cb (concat (map entries_of ts)) w; Some (fold (\<lambda>t m. newest m t) ts m, w1) }"
proof (induction X t j and X ts js arbitrary: js m w and m w rule: shows_node_shows_nodes.induct)
  case (1 X k v i j)
  then show ?case
    by (subst values_loop.simps) (auto simp: newer_index_shown leaf_call_def split: Option.bind_splits)
next
  case (2 X i j)
  then show ?case
    by (subst values_loop.simps) (auto simp: newer_index_shown leaf_call_def split: option.splits)
next
  case (3 X ts i j)
  then show ?case
    by (subst values_loop.simps) (auto simp: newer_index_shown split: Option.bind_splits)
next
  case (4 X js)
  then show ?case by (subst values_loop.simps) simp
next
  case (5 X t ts js)
  then obtain j js1 where js: "js = j # js1" "shows_node X t j" "shows_nodes X ts js1"
    by (auto split: list.splits)
  show ?case
    using 5(1) [OF js(1) js(2)] 5(2) [OF js(1) js(3)] unfolding js(1)
    by (auto simp: call_entries_append split: Option.bind_splits)
qed

section \<open>A registry\<close>

text \<open>
  A JSON library over a plain datatype, and the registry that answers with one entry per registered
  provider, for the witnesses.
\<close>

datatype json = J_string string | J_int int | J_array "json list" | J_object "(string \<times> json) list"

fun json_field :: "json \<Rightarrow> string \<Rightarrow> json option" where
  "json_field (J_object fs) k = map_of fs k"
| "json_field j k = None"

fun json_items :: "json \<Rightarrow> json list" where
  "json_items (J_array js) = js"
| "json_items j = []"

definition entry_json :: "string \<times> int \<Rightarrow> json" where
  "entry_json a = J_object [(''key'', J_string (service_key (fst a) (snd a))), (''value'', J_string []), (''modifiedIndex'', J_int 7)]"

definition directory_json :: "(string \<times> int) list \<Rightarrow> json" where
  "directory_json as = J_object [(''node'', J_object [(''modifiedIndex'', J_int 5), (''nodes'', J_array (map entry_json as))])]"

definition registry :: "(string \<times> int) list \<Rightarrow> (json, 'w) etcd_lib" where
  "registry as = \<lparr>
     curl_global_init = (\<lambda>w. (0, w)),
     curl_easy_perform = (\<lambda>req url d cb mem w. (True, snd (cb ''{}'' mem), w)),
     json_loads = (\<lambda>s. if s = ''{}'' then Some (directory_json as) else None),
     json_object_get = json_field,
     json_is_array = (\<lambda>j. case j of J_array js \<Rightarrow> True | _ \<Rightarrow> False),
     json_array_size = (\<lambda>j. length (json_items j)),
     json_array_get = (\<lambda>j i. json_items j ! i),
     json_is_string = (\<lambda>j. case j of J_string s \<Rightarrow> True | _ \<Rightarrow> False),
     json_is_integer = (\<lambda>j. case j of J_int i \<Rightarrow> True | _ \<Rightarrow> False),
     json_string_value = (\<lambda>j. case j of J_string s \<Rightarrow> Some s | _ \<Rightarrow> None),
     json_integer_value = (\<lambda>j. case j of J_int i \<Rightarrow> i | _ \<Rightarrow> 0),
     realloc_ok = (\<lambda>n. True), junk = CHR ''x'', etcd_server = ''127.0.0.1'', etcd_port = 2379\<rparr>"

definition entry_tree :: "string \<times> int \<Rightarrow> etcd_tree" where
  "entry_tree a = Entry (service_key (fst a) (snd a)) [] 7"

lemma registry_replies:
  "performRequest (registry as) url req d (malloc_reply (registry as)) w = (True, \<lparr>memory = Some (''{}'' @ [NUL]), msize = 2\<rparr>, w)"
  "load_reply (registry as) \<lparr>memory = Some (''{}'' @ [NUL]), msize = 2\<rparr> = Some (Some (directory_json as))"
  by (simp_all add: performRequest_def malloc_reply_def WriteMemoryCallback_def registry_def load_reply_def)

lemma registry_fields:
  "json_object_get (registry as) = json_field"
  "json_is_array (registry as) = (\<lambda>j. case j of J_array js \<Rightarrow> True | _ \<Rightarrow> False)"
  "json_array_size (registry as) = (\<lambda>j. length (json_items j))"
  "json_array_get (registry as) = (\<lambda>j i. json_items j ! i)"
  "json_string_value (registry as) = (\<lambda>j. case j of J_string s \<Rightarrow> Some s | _ \<Rightarrow> None)"
  "json_integer_value (registry as) = (\<lambda>j. case j of J_int i \<Rightarrow> i | _ \<Rightarrow> 0)"
  by (simp_all add: registry_def)

lemma registry_shows_nodes: "shows_nodes (registry as) (map entry_tree bs) (map entry_json bs)"
  by (induction bs) (simp_all add: entry_tree_def entry_json_def registry_fields shows_index_def)

lemma registry_shows:
  fixes X :: "(json, 'w) etcd_lib"
  assumes X: "X = registry as"
  obtains node where "json_object_get X (directory_json as) ''node'' = Some node"
    "shows_node X (Branch (map entry_tree as) 5) node"
proof
  let ?n = "J_object [(''modifiedIndex'', J_int 5), (''nodes'', J_array (map entry_json as))]"
  show "json_object_get X (directory_json as) ''node'' = Some ?n"
    by (simp add: X registry_fields directory_json_def)
  have "node_elements X ?n = map entry_json as"
    using map_nth [of "map entry_json as"] by (simp add: X node_elements_def registry_fields)
  then show "shows_node X (Branch (map entry_tree as) 5) ?n"
    using registry_shows_nodes [of as as] by (simp add: X registry_fields shows_index_def)
qed

section \<open>Properties\<close>

lemma directory_calls:
  assumes "performRequest X (key_url X dir @ ''?recursive=true'') GET None (malloc_reply X) w = (True, mem, w1)"
    and "load_reply X mem = Some (Some root)" "json_object_get X root ''node'' = Some node"
    and "shows_node X (Branch ts i) node"
  shows "etcd_get_directory X dir cb m w =
    (case call_entries cb (entries_of (Branch ts i)) w1 of
       None \<Rightarrow> None
     | Some w2 \<Rightarrow> Some (if fold (\<lambda>t m. newest m t) ts 0 > 0 then 0 else 1, fold (\<lambda>t m. newest m t) ts 0, w2))"
  using assms values_loop_walks(2) [of X ts "node_elements X node" cb 0 w1]
  by (simp add: etcd_get_directory_def jget_def etcd_get_recursive_values_def split: option.splits)

text \<open>
  C16: Reading a directory of the registry walks its tree: the callback is called once for every
  entry with a value, at any depth and in the order of the answer, directories and empty ones are
  passed over, and the index that is written is the newest of all.
\<close>

theorem directory_walked:
  assumes "performRequest X (key_url X dir @ ''?recursive=true'') GET None (malloc_reply X) w = (True, mem, w1)"
    and "load_reply X mem = Some (Some root)" "json_object_get X root ''node'' = Some node"
    and "shows_node X (Branch ts i) node"
  shows "etcd_get_directory X dir cb m w =
    (case call_entries cb (entries_of (Branch ts i)) w1 of
       None \<Rightarrow> None
     | Some w2 \<Rightarrow> Some (if fold (\<lambda>t m. newest m t) ts 0 > 0 then 0 else 1, fold (\<lambda>t m. newest m t) ts 0, w2))"
  by (rule directory_calls [OF assms])

lemma directory_walked_witness:
  "etcd_get_directory (registry [(''10.0.0.1'', 30000), (''10.0.0.2'', 30001)]) service_dir (\<lambda>k v w. Some (k # w)) 0 [] =
     Some (0, 7, [Some (service_key ''10.0.0.2'' 30001), Some (service_key ''10.0.0.1'' 30000)])"
proof -
  let ?as = "[(''10.0.0.1'', 30000), (''10.0.0.2'', 30001)]"
  let ?X = "registry ?as :: (json, string option list) etcd_lib"
  obtain node where "json_object_get ?X (directory_json ?as) ''node'' = Some node"
    "shows_node ?X (Branch (map entry_tree ?as) 5) node"
    by (rule registry_shows [OF refl])
  from directory_walked [OF registry_replies(1) registry_replies(2) this, of service_dir "\<lambda>k v w. Some (k # w)" 0 "[]"]
  show ?thesis by (simp add: entry_tree_def)
qed

text \<open>
  The key under which a provider agent registers fits its buffer, and the consumer agent reads the
  same address and port back from it.
\<close>

theorem service_key_read_back:
  assumes "dotted ip" "0 \<le> pt" "pt < 65536"
  shows "key_endpoint (service_key ip pt) = Some (ip, pt) \<and> length (service_key ip pt) + 1 \<le> 128"
  using key_endpoint_service_key [OF assms(1,2)] service_key_length [OF assms] by simp

lemma service_key_read_back_witness:
  "key_endpoint (service_key ''192.168.100.200'' 30000) = Some (''192.168.100.200'', 30000)"
  using service_key_read_back [of "''192.168.100.200''" 30000] by (simp add: dotted_def is_digit_def)

end
