(* ===== verification/Util.thy ===== *)
theory Util
  imports Startup_Props
begin

text \<open>
  The address and the clock of the host (\<^verbatim>\<open>src/src/util.c\<close>), and what the address means for the
  registration. The kernel's answers are parameters.
\<close>

section \<open>The address\<close>

definition IFNAMSIZ :: nat where "IFNAMSIZ = 16"
definition INTERFACE :: string where "INTERFACE = ''docker0''"

text \<open>The standard library's text for an address, here with its first byte the highest.\<close>

definition inet_ntoa :: "u32 \<Rightarrow> string" where
  "inet_ntoa a =
     (let byte = (\<lambda>k. dec (unat (drop_bit k a) mod 256))
      in byte 24 @ CHR ''.'' # byte 16 @ CHR ''.'' # byte 8 @ CHR ''.'' # byte 0)"

text \<open>
  The kernel looks up the name up to its NUL or its last byte; \<open>siocgifaddr\<close> is the answer of the
  \<^verbatim>\<open>ioctl\<close>, which fails for an interface without an address. Its result is not looked at: the address
  is then whatever the uninitialised structure holds.
\<close>

definition get_local_ip_addr :: "(string \<Rightarrow> u32 option) \<Rightarrow> u32 \<Rightarrow> string \<Rightarrow> string" where
  "get_local_ip_addr siocgifaddr garbage interface =
     (let ifr_name = take (IFNAMSIZ - 1) interface
      in inet_ntoa (case siocgifaddr ifr_name of Some a \<Rightarrow> a | None \<Rightarrow> garbage))"

lemma inet_ntoa_dotted: "dotted (inet_ntoa a)"
proof -
  have "length (dec (n mod 256)) \<le> 3" for n :: nat
  proof (rule dec_length)
    have "n mod 256 < 256" by simp
    also have "\<dots> < (10 :: nat) ^ 3" by simp
    finally show "n mod 256 < 10 ^ 3" .
  qed simp
  note len = this [of "unat (drop_bit 24 a)"] this [of "unat (drop_bit 16 a)"] this [of "unat (drop_bit 8 a)"] this [of "unat (drop_bit 0 a)"]
  show ?thesis using len dec_digits unfolding dotted_def inet_ntoa_def Let_def by auto
qed

text \<open>
  C17: A provider agent registers under a key from which the consumer agents read back exactly the
  address of its interface and its port, whatever the kernel answers; the key fits its buffer, so the
  registration is the call of \<^verbatim>\<open>etcd_set\<close> for this key and cannot crash before it.
\<close>

theorem registered_address_read_back:
  assumes "0 \<le> pt" "pt < 65536"
  shows "let ip = get_local_ip_addr siocgifaddr garbage INTERFACE; key = service_key ip pt in
    key_endpoint key = Some (ip, pt) \<and>
    register_etcd_service X ip pt w = map_option snd (etcd_set X key [] 3600 False (w\<lparr>etcd_key := key\<rparr>))"
proof -
  let ?ip = "get_local_ip_addr siocgifaddr garbage INTERFACE"
  have ip: "dotted ?ip" by (simp add: get_local_ip_addr_def inet_ntoa_dotted)
  have "\<not> length (service_key ?ip pt) + 1 > 128" using service_key_length [OF ip assms] by simp
  then show ?thesis
    using key_endpoint_service_key [OF ip assms(1)]
    by (auto simp: register_etcd_service_def Let_def bind_eq_Some_conv split: bind_splits)
qed

lemma registered_address_read_back_witness:
  "key_endpoint (service_key (get_local_ip_addr (\<lambda>name. if name = ''docker0'' then Some 0xAC110002 else None) 0 INTERFACE) 30000) =
     Some (''172.17.0.2'', 30000)"
proof -
  have "get_local_ip_addr (\<lambda>name. if name = ''docker0'' then Some 0xAC110002 else None) 0 INTERFACE = ''172.17.0.2''"
    by (simp add: get_local_ip_addr_def INTERFACE_def IFNAMSIZ_def inet_ntoa_def dec.simps drop_bit_eq_div C_Strings.digit_def char_of_def bit_0)
  note ip = this
  have "let ip = ''172.17.0.2''; key = service_key ip 30000 in key_endpoint key = Some (ip, 30000) \<and>
      register_etcd_service X ip 30000 w = map_option snd (etcd_set X key [] 3600 False (w\<lparr>etcd_key := key\<rparr>))"
    for X :: "(unit, provider) etcd_lib" and w
    using registered_address_read_back [of 30000 "\<lambda>name. if name = ''docker0'' then Some 0xAC110002 else None" 0 X w] unfolding ip by simp
  then show ?thesis unfolding ip Let_def by blast
qed

section \<open>The clock\<close>

text \<open>
  \<^verbatim>\<open>clock_gettime\<close> gives seconds and nanoseconds; the quotient by 1.0e6 is cut to an integer. A
  product too large for a \<^verbatim>\<open>long\<close> is undefined (None).
\<close>

definition get_current_time_ms :: "int \<times> int \<Rightarrow> int option" where
  "get_current_time_ms spec =
     (case spec of (tv_sec, tv_nsec) \<Rightarrow>
        let ms = tv_sec * 1000 + tv_nsec div 1000000
        in if - (2 ^ 63) \<le> tv_sec * 1000 \<and> tv_sec * 1000 < 2 ^ 63 \<and> ms < 2 ^ 63 then Some ms else None)"

lemma current_time_monotone:
  assumes "get_current_time_ms (s, n) = Some t" "get_current_time_ms (s', n') = Some t'"
    and "0 \<le> n" "n < 1000000000" "0 \<le> n'" "n' < 1000000000" "s < s' \<or> s = s' \<and> n \<le> n'"
  shows "t \<le> t' \<and> t' - t \<le> ((s' - s) * 1000000000 + n' - n) div 1000000 + 1"
proof -
  have t: "t = s * 1000 + n div 1000000" "t' = s' * 1000 + n' div 1000000"
    using assms(1,2) by (simp_all add: get_current_time_ms_def Let_def split: if_splits)
  have "n div 1000000 \<le> 999999999 div 1000000" "0 \<le> n' div 1000000" using assms(3-6) zdiv_mono1 [of n 999999999 1000000] by simp_all
  then have "t \<le> t'" using assms(7) t zdiv_mono1 [of n n' 1000000] by auto
  moreover have "t' - t - 1 \<le> ((s' - s) * 1000000000 + n' - n) div 1000000"
  proof -
    obtain q r q' r' where q: "q = n div 1000000" "r = n mod 1000000" "q' = n' div 1000000" "r' = n' mod 1000000" by simp
    have "n = q * 1000000 + r" "n' = q' * 1000000 + r'" by (simp_all add: q)
    moreover have "0 \<le> r'" "r < 1000000" by (simp_all add: q)
    ultimately have "(s' * 1000 + q' - (s * 1000 + q) - 1) * 1000000 \<le> (s' - s) * 1000000000 + n' - n" by (simp add: algebra_simps)
    then have "(t' - t - 1) * 1000000 \<le> (s' - s) * 1000000000 + n' - n" unfolding t q by simp
    then have "(t' - t - 1) * 1000000 div 1000000 \<le> ((s' - s) * 1000000000 + n' - n) div 1000000" by (rule zdiv_mono1) simp
    then show ?thesis by simp
  qed
  ultimately show ?thesis by simp
qed

end
