(* ===== verification/Dubbo_Props.thy ===== *)
theory Dubbo_Props
  imports Dubbo
begin

text \<open>
  The properties of the translation: a reference decoder of Dubbo frames reads back exactly the
  fields of the form, and the HTTP response carries exactly the value of the answer.
\<close>

section \<open>A reference decoder\<close>

text \<open>Lines end with a newline; the strings among them are quoted.\<close>

fun lines_of :: "string \<Rightarrow> string \<Rightarrow> string list" where
  "lines_of acc [] = []"
| "lines_of acc (c # cs) = (if c = CHR 0x0A then rev acc # lines_of [] cs else lines_of (c # acc) cs)"

definition unquote :: "string \<Rightarrow> string option" where
  "unquote s = (if 2 \<le> length s \<and> hd s = CHR 0x22 \<and> last s = CHR 0x22 then Some (butlast (tl s)) else None)"

record dubbo_call =
  d_id :: u32
  d_service :: string
  d_method :: string
  d_type :: string
  d_arg :: string

definition decode_request :: "string \<Rightarrow> dubbo_call option" where
  "decode_request fr =
     (if take 3 fr \<noteq> [CHR 0xDA, CHR 0xBB, CHR 0xC6] \<or> length fr \<noteq> 16 + unat (ntohl (drop 12 fr)) then None
      else case lines_of [] (drop 16 fr) of
          [v, s, n, m, t, a, att] \<Rightarrow> do {
            v1 \<leftarrow> unquote v; s1 \<leftarrow> unquote s; m1 \<leftarrow> unquote m; t1 \<leftarrow> unquote t; a1 \<leftarrow> unquote a;
            if v1 = ''2.0.1'' \<and> n = ''null'' then Some \<lparr>d_id = ntohl (drop 8 fr), d_service = s1, d_method = m1, d_type = t1, d_arg = a1\<rparr>
            else None
          }
        | _ \<Rightarrow> None)"

lemma lines_of_line: "CHR 0x0A \<notin> set s \<Longrightarrow> lines_of acc (s @ CHR 0x0A # t) = (rev acc @ s) # lines_of [] t"
  by (induction s arbitrary: acc) auto

lemma unquote_quoted: "unquote (CHR 0x22 # s @ [CHR 0x22]) = Some s"
  by (simp add: unquote_def)

lemma lines_of_quoted: "CHR 0x0A \<notin> set s \<Longrightarrow> lines_of [] (quoted s @ t) = (CHR 0x22 # s @ [CHR 0x22]) # lines_of [] t"
  using lines_of_line [of "CHR 0x22 # s @ [CHR 0x22]" "[]" t] by (simp add: quoted_def)

section \<open>The form\<close>

text \<open>A form with four fields, as a consumer sends it.\<close>

definition field :: "string \<Rightarrow> string \<Rightarrow> string" where "field k v = k @ CHR ''='' # v"

definition free_of :: "char list \<Rightarrow> string \<Rightarrow> bool" where
  "free_of cs s \<longleftrightarrow> NUL \<notin> set s \<and> (\<forall>c \<in> set cs. c \<notin> set s)"

definition form_text :: "string \<times> string \<Rightarrow> string \<times> string \<Rightarrow> string \<times> string \<Rightarrow> string \<times> string \<Rightarrow> string" where
  "form_text s m t a = field (fst s) (snd s) @ CHR ''&'' # field (fst m) (snd m) @ CHR ''&'' #
     field (fst t) (snd t) @ CHR ''&'' # field (fst a) (snd a)"

lemma past_key: "free_of [CHR ''=''] k \<Longrightarrow> past_chr (field k v @ r) CHR ''='' = Some (v @ r)"
  "free_of [CHR ''=''] k \<Longrightarrow> past_chr (CHR ''&'' # field k v @ r) CHR ''='' = Some (v @ r)"
proof -
  assume k: "free_of [CHR ''=''] k"
  then have n: "CHR ''='' \<notin> set k" "NUL \<notin> set k" by (simp_all add: free_of_def)
  show "past_chr (field k v @ r) CHR ''='' = Some (v @ r)" using past_chr_first [OF n] by (simp add: field_def)
  show "past_chr (CHR ''&'' # field k v @ r) CHR ''='' = Some (v @ r)"
    using past_chr_first [of "CHR ''='' " "CHR ''&'' # k" "v @ r"] n by (simp add: field_def)
qed

lemma value_end: "free_of [CHR ''&''] v \<Longrightarrow> strchr (v @ CHR ''&'' # r) CHR ''&'' = Some (length v)"
  by (rule strchr_first) (simp_all add: free_of_def)

lemma parse_form_text:
  assumes keys: "free_of [CHR ''=''] (fst s)" "free_of [CHR ''=''] (fst m)" "free_of [CHR ''=''] (fst t)" "free_of [CHR ''=''] (fst a)"
    and vals: "free_of [CHR ''&''] (snd s)" "free_of [CHR ''&''] (snd m)" "free_of [CHR ''&''] (snd t)"
  obtains r1 r2 r3 where "parse_form (form_text s m t a @ rest) (length (form_text s m t a)) =
    Some \<lparr>f_service = snd s @ r1, service_len = int (length (snd s)), f_method = snd m @ r2, method_len = int (length (snd m)),
      f_type = snd t @ r3, type_len = int (length (snd t)), f_arg = snd a @ rest, arg_len = int (length (snd a))\<rparr>"
proof -
  let ?r3 = "CHR ''&'' # field (fst a) (snd a) @ rest"
  let ?r2 = "CHR ''&'' # field (fst t) (snd t) @ ?r3"
  let ?r1 = "CHR ''&'' # field (fst m) (snd m) @ ?r2"
  have all: "form_text s m t a @ rest = field (fst s) (snd s) @ ?r1" by (simp add: form_text_def)
  have len: "int (length (form_text s m t a)) - (int (length (form_text s m t a @ rest)) - int (length (snd a @ rest))) = int (length (snd a))"
    by simp
  show thesis
  proof (rule that [of ?r1 ?r2 ?r3])
    show "parse_form (form_text s m t a @ rest) (length (form_text s m t a)) =
      Some \<lparr>f_service = snd s @ ?r1, service_len = int (length (snd s)), f_method = snd m @ ?r2, method_len = int (length (snd m)),
        f_type = snd t @ ?r3, type_len = int (length (snd t)), f_arg = snd a @ rest, arg_len = int (length (snd a))\<rparr>"
      unfolding parse_form_def len [symmetric]
      unfolding all by (simp add: past_key keys value_end vals)
  qed
qed

section \<open>The frame\<close>

text \<open>What \<open>decode_type\<close> makes of a type: every prefix of the one known encoding, too, becomes that type.\<close>

definition java_type :: "string \<Rightarrow> string" where
  "java_type t = (if t = take (length t) encoded_String then java_String else t)"

lemma request_data_form:
  assumes "free_of [] s" "free_of [] m" "free_of [] t" "free_of [] a"
  shows "request_data (decode_type \<lparr>f_service = s @ r1, service_len = int (length s), f_method = m @ r2, method_len = int (length m),
      f_type = t @ r3, type_len = int (length t), f_arg = a @ rest, arg_len = int (length a)\<rparr>) =
    Some (quoted ''2.0.1'' @ quoted s @ ''null'' @ [CHR 0x0A] @ quoted m @ quoted (java_type t) @ quoted a @
      CHR ''{'' # CHR 0x22 # ''path'' @ CHR 0x22 # CHR '':'' # CHR 0x22 # s @ CHR 0x22 # CHR ''}'' # [CHR 0x0A])"
proof -
  have n: "NUL \<notin> set s" "NUL \<notin> set m" "NUL \<notin> set t" "NUL \<notin> set a" using assms by (simp_all add: free_of_def)
  have enc: "NUL \<notin> set encoded_String" by (simp add: encoded_String_def)
  have eq: "strncmp_eq (length t) (t @ r3) encoded_String \<longleftrightarrow> t = take (length t) encoded_String"
    using strncmp_eq_take [of "length t" "t @ r3" encoded_String] n(3) enc by simp
  have lit: "c_prefix (length java_String) (java_String @ [NUL]) = Some java_String"
    by (rule c_prefix_all) (simp add: java_String_def)
  show ?thesis
    using n by (simp add: request_data_def decode_type_def printf_s_def eq java_type_def c_prefix_all lit)
qed

lemma blit_append: "length p \<le> n \<Longrightarrow> blit n d (p @ r) = p @ blit (n - length p) d r"
  by (simp add: blit_def)

lemma frame_layout:
  assumes "length buf = 2048" "length data + 17 \<le> 2048" "length x = 4" "length i = 4"
  shows "blit 12 x (blit 16 (data @ [NUL]) (blit 8 i (blit 2 [CHR 0xC6] (blit 0 [CHR 0xDA, CHR 0xBB] buf)))) =
    [CHR 0xDA, CHR 0xBB, CHR 0xC6] @ take 5 (drop 3 buf) @ i @ x @ data @ NUL # drop (17 + length data) buf"
proof -
  let ?p3 = "[CHR 0xDA, CHR 0xBB, CHR 0xC6]"
  define p where "p = ?p3 @ take 5 (drop 3 buf) @ i"
  have p: "length p = 12" using assms by (simp add: p_def)
  have "blit 0 [CHR 0xDA, CHR 0xBB] buf = [CHR 0xDA, CHR 0xBB] @ drop 2 buf" by (simp add: blit_def numeral_2_eq_2)
  moreover have "blit 2 [CHR 0xC6] ([CHR 0xDA, CHR 0xBB] @ drop 2 buf) = ?p3 @ drop 3 buf"
    by (simp add: blit_def numeral_3_eq_3)
  moreover have "blit 8 i (?p3 @ drop 3 buf) = p @ drop 12 buf"
    using blit_append [of ?p3 8 i "drop 3 buf"] assms(4) by (simp add: p_def blit_def)
  moreover have "blit 16 (data @ [NUL]) (p @ drop 12 buf) = p @ take 4 (drop 12 buf) @ data @ NUL # drop (17 + length data) buf"
    using blit_append [of p 16 "data @ [NUL]" "drop 12 buf"] p by (simp add: blit_def)
  moreover have "blit 12 x (p @ take 4 (drop 12 buf) @ data @ NUL # drop (17 + length data) buf) =
      p @ x @ data @ NUL # drop (17 + length data) buf"
    using blit_append [of p 12 x] p assms(1,3) by (simp add: blit_def)
  ultimately show ?thesis by (simp add: p_def)
qed

lemma decode_layout:
  assumes "length data < 2 ^ 32" "length pad = 5"
  shows "decode_request ([CHR 0xDA, CHR 0xBB, CHR 0xC6] @ pad @ be32 i @ be32 (of_nat (length data)) @ data) =
    (case lines_of [] data of
          [v, s, n, m, t, a, att] \<Rightarrow> do {
            v1 \<leftarrow> unquote v; s1 \<leftarrow> unquote s; m1 \<leftarrow> unquote m; t1 \<leftarrow> unquote t; a1 \<leftarrow> unquote a;
            if v1 = ''2.0.1'' \<and> n = ''null'' then Some \<lparr>d_id = i, d_service = s1, d_method = m1, d_type = t1, d_arg = a1\<rparr>
            else None
          }
        | _ \<Rightarrow> None)"
proof -
  let ?f = "[CHR 0xDA, CHR 0xBB, CHR 0xC6] @ pad @ be32 i @ be32 (of_nat (length data)) @ data"
  have d8: "drop 8 ?f = be32 i @ be32 (of_nat (length data)) @ data" using assms(2) by simp
  have d12: "drop 12 ?f = be32 (of_nat (length data)) @ data" using assms(2) by simp
  have d16: "drop 16 ?f = data" using assms(2) by simp
  have t3: "take 3 ?f = [CHR 0xDA, CHR 0xBB, CHR 0xC6]" by (simp add: numeral_3_eq_3)
  have len: "length ?f = 16 + length data" using assms(2) by simp
  have "unat (of_nat (length data) :: u32) = length data" using assms(1) by (simp add: unsigned_of_nat take_bit_nat_eq_self)
  then show ?thesis unfolding decode_request_def d8 d12 d16 t3 len ntohl_be32 by simp
qed

lemma request_frame_decodes:
  assumes keys: "free_of [CHR ''=''] ks" "free_of [CHR ''=''] km" "free_of [CHR ''=''] kt" "free_of [CHR ''=''] ka"
    and vals: "free_of [CHR ''&'', CHR 0x0A] s" "free_of [CHR ''&'', CHR 0x0A] m" "free_of [CHR ''&'', CHR 0x0A] t" "free_of [CHR 0x0A] a"
    and buf: "length buf = PROVIDER_DUBBO_REQ_BUF_SIZE"
    and room: "2 * length s + length m + length (java_type t) + length a + 54 \<le> PROVIDER_DUBBO_REQ_BUF_SIZE"
  shows "\<exists>fr n. assemble_request i (form_text (ks, s) (km, m) (kt, t) (ka, a) @ rest)
      (length (form_text (ks, s) (km, m) (kt, t) (ka, a))) buf = Some (fr, n) \<and>
    length fr = PROVIDER_DUBBO_REQ_BUF_SIZE \<and> n = int (2 * length s + length m + length (java_type t) + length a + 53) \<and>
    decode_request (take (nat n) fr) = Some \<lparr>d_id = i, d_service = s, d_method = m, d_type = java_type t, d_arg = a\<rparr>"
proof -
  let ?form = "form_text (ks, s) (km, m) (kt, t) (ka, a)"
  define data where "data = quoted ''2.0.1'' @ quoted s @ ''null'' @ [CHR 0x0A] @ quoted m @ quoted (java_type t) @ quoted a @
      CHR ''{'' # CHR 0x22 # ''path'' @ CHR 0x22 # CHR '':'' # CHR 0x22 # s @ CHR 0x22 # CHR ''}'' # [CHR 0x0A]"
  have pl: "free_of [] s" "free_of [] m" "free_of [] t" "free_of [] a" "free_of [CHR ''&''] s" "free_of [CHR ''&''] m" "free_of [CHR ''&''] t"
    using vals by (simp_all add: free_of_def)
  have nl: "CHR 0x0A \<notin> set s" "CHR 0x0A \<notin> set m" "CHR 0x0A \<notin> set (java_type t)" "CHR 0x0A \<notin> set a"
    using vals by (auto simp: free_of_def java_type_def java_String_def)
  obtain r1 r2 r3 where parse: "parse_form (?form @ rest) (length ?form) =
    Some \<lparr>f_service = s @ r1, service_len = int (length s), f_method = m @ r2, method_len = int (length m),
      f_type = t @ r3, type_len = int (length t), f_arg = a @ rest, arg_len = int (length a)\<rparr>"
    by (rule parse_form_text [of "(ks, s)" "(km, m)" "(kt, t)" "(ka, a)" rest]) (use keys pl in simp_all)
  have text_of: "request_data (decode_type \<lparr>f_service = s @ r1, service_len = int (length s), f_method = m @ r2, method_len = int (length m),
      f_type = t @ r3, type_len = int (length t), f_arg = a @ rest, arg_len = int (length a)\<rparr>) = Some data"
    unfolding data_def by (rule request_data_form [OF pl(1-4)])
  have len: "length data = 2 * length s + length m + length (java_type t) + length a + 37" by (simp add: data_def quoted_def)
  define fr where "fr = [CHR 0xDA, CHR 0xBB, CHR 0xC6] @ take 5 (drop 3 buf) @ be32 i @ be32 (of_nat (length data)) @ data @
    NUL # drop (17 + length data) buf"
  have fits: "length data + 17 \<le> 2048" using room len by (simp add: PROVIDER_DUBBO_REQ_BUF_SIZE_def)
  have "assemble_request i (?form @ rest) (length ?form) buf = Some (fr, int (length data) + 16)"
    using frame_layout [of buf data "be32 (of_nat (length data))" "be32 i"] buf fits
    by (simp add: assemble_request_def parse text_of fr_def
        PROVIDER_DUBBO_REQ_BUF_SIZE_def DUBBO_HEADER_LEN_def)
  moreover have "length fr = 2048" using buf fits by (simp add: fr_def PROVIDER_DUBBO_REQ_BUF_SIZE_def)
  moreover have "take (nat (int (length data) + 16)) fr =
      [CHR 0xDA, CHR 0xBB, CHR 0xC6] @ take 5 (drop 3 buf) @ be32 i @ be32 (of_nat (length data)) @ data"
  proof -
    define p where "p = [CHR 0xDA, CHR 0xBB, CHR 0xC6] @ take 5 (drop 3 buf) @ be32 i @ be32 (of_nat (length data))"
    have "fr = p @ data @ NUL # drop (17 + length data) buf" by (simp add: fr_def p_def)
    moreover have "nat (int (length data) + 16) = length p + length data"
      using buf by (simp add: p_def PROVIDER_DUBBO_REQ_BUF_SIZE_def)
    ultimately have "take (nat (int (length data) + 16)) fr = p @ data" by simp
    then show ?thesis by (simp add: p_def)
  qed
  moreover have "lines_of [] data = [CHR 0x22 # ''2.0.1'' @ [CHR 0x22], CHR 0x22 # s @ [CHR 0x22], ''null'', CHR 0x22 # m @ [CHR 0x22],
      CHR 0x22 # java_type t @ [CHR 0x22], CHR 0x22 # a @ [CHR 0x22],
      CHR ''{'' # CHR 0x22 # ''path'' @ CHR 0x22 # CHR '':'' # CHR 0x22 # s @ CHR 0x22 # CHR ''}'' # []]"
    using nl lines_of_line [of "CHR ''{'' # CHR 0x22 # ''path'' @ CHR 0x22 # CHR '':'' # CHR 0x22 # s @ CHR 0x22 # CHR ''}'' # []" "[]" "[]"]
      lines_of_line [of "''null''" "[]"]
    by (simp add: data_def lines_of_quoted del: lines_of.simps(2))
  ultimately show ?thesis
    using decode_layout [of data "take 5 (drop 3 buf)" i] fits buf len
    by (simp add: unquote_quoted [of "''2.0.1''", simplified] unquote_quoted PROVIDER_DUBBO_REQ_BUF_SIZE_def)
qed

text \<open>
  What a type in a form stands for: the URL-encoded name of String for that class, any other text for
  itself. The parts of a frame for a call, and the hypotheses under which a form is one the agent can
  translate, are shared by the two theorems.
\<close>

definition type_of_form :: "string \<Rightarrow> string" where
  "type_of_form t = (if t = ''Ljava%2Flang%2FString%3B'' then ''Ljava/lang/String;'' else t)"

text \<open>
  C13: A request is translated faithfully: from the form of a consumer, wherever it stands in the
  input buffer and whatever the output buffer held, \<^verbatim>\<open>on_http_body\<close> builds a frame from which the
  reference decoder reads the request number, the service, the method, the argument and the type of
  the form, where the encoded name of String stands for that class and any other type for itself; the
  length of the frame is exactly that of the text and the header. The type must not be cut off: a form
  whose type is a proper prefix of the encoded name of String is left to the next theorem.
\<close>

theorem dubbo_request_roundtrip:
  assumes keys: "free_of [CHR ''=''] ks" "free_of [CHR ''=''] km" "free_of [CHR ''=''] kt" "free_of [CHR ''=''] ka"
    and vals: "free_of [CHR ''&'', CHR 0x0A] s" "free_of [CHR ''&'', CHR 0x0A] m" "free_of [CHR ''&'', CHR 0x0A] t" "free_of [CHR 0x0A] a"
    and whole: "t \<noteq> ''Ljava%2Flang%2FString%3B'' \<Longrightarrow> t \<noteq> take (length t) ''Ljava%2Flang%2FString%3B''"
    and buf: "length buf = PROVIDER_DUBBO_REQ_BUF_SIZE"
    and room: "2 * length s + length m + length (type_of_form t) + length a + 54 \<le> PROVIDER_DUBBO_REQ_BUF_SIZE"
  shows "\<exists>fr n. assemble_request i (form_text (ks, s) (km, m) (kt, t) (ka, a) @ rest)
      (length (form_text (ks, s) (km, m) (kt, t) (ka, a))) buf = Some (fr, n) \<and>
    length fr = PROVIDER_DUBBO_REQ_BUF_SIZE \<and> n = int (2 * length s + length m + length (type_of_form t) + length a + 53) \<and>
    decode_request (take (nat n) fr) = Some \<lparr>d_id = i, d_service = s, d_method = m, d_type = type_of_form t, d_arg = a\<rparr>"
proof -
  have "java_type t = type_of_form t"
    using whole by (auto simp: java_type_def type_of_form_def encoded_String_def java_String_def)
  then show ?thesis using request_frame_decodes [OF keys vals buf, of i rest] room by simp
qed

text \<open>
  C31: The type of a form is compared only as far as it reaches: a form whose type is any proper prefix of
  the encoded name of String, the empty type and the single letter L among them, is translated to a call
  with the type String, although no type, or another one, was asked for.
\<close>

theorem type_prefix_accepted:
  assumes keys: "free_of [CHR ''=''] ks" "free_of [CHR ''=''] km" "free_of [CHR ''=''] kt" "free_of [CHR ''=''] ka"
    and vals: "free_of [CHR ''&'', CHR 0x0A] s" "free_of [CHR ''&'', CHR 0x0A] m" "free_of [CHR 0x0A] a"
    and t: "t = take n ''Ljava%2Flang%2FString%3B''" "n < 24"
    and buf: "length buf = PROVIDER_DUBBO_REQ_BUF_SIZE"
    and room: "2 * length s + length m + length a + 72 \<le> PROVIDER_DUBBO_REQ_BUF_SIZE"
  shows "\<exists>fr k. assemble_request i (form_text (ks, s) (km, m) (kt, t) (ka, a) @ rest)
      (length (form_text (ks, s) (km, m) (kt, t) (ka, a))) buf = Some (fr, k) \<and>
    decode_request (take (nat k) fr) =
      Some \<lparr>d_id = i, d_service = s, d_method = m, d_type = ''Ljava/lang/String;'', d_arg = a\<rparr> \<and>
    type_of_form t = t \<and> t \<noteq> ''Ljava/lang/String;''"
proof -
  have "length encoded_String = 24" "t = take n encoded_String" using t(1) by (simp_all add: encoded_String_def)
  then have len: "length t = n" using t(2) by simp
  have jt: "java_type t = java_String" unfolding java_type_def len using \<open>t = take n encoded_String\<close> by simp
  have "free_of [CHR ''&'', CHR 0x0A] encoded_String" by (simp add: free_of_def encoded_String_def)
  then have "free_of [CHR ''&'', CHR 0x0A] t"
    unfolding t(1) free_of_def encoded_String_def by (meson in_set_takeD)
  moreover have "t \<noteq> ''Ljava%2Flang%2FString%3B''" using len t(2) by auto
  moreover have "t \<noteq> ''Ljava/lang/String;''"
  proof
    assume "t = ''Ljava/lang/String;''"
    then have "take 6 t = ''Ljava/''" "n = 18" using len by simp_all
    then show False using t(1) by simp
  qed
  ultimately show ?thesis
    using request_frame_decodes [OF keys vals(1,2) _ vals(3) buf, of t i rest] room
    unfolding jt type_of_form_def by (auto simp: java_String_def)
qed

section \<open>The response\<close>

text \<open>An answer of the provider: the header, the status line and the value with its newline.\<close>

definition answer_frame :: "string \<Rightarrow> string \<Rightarrow> string \<Rightarrow> string" where
  "answer_frame hdr st v = hdr @ be32 (of_nat (length v + 3)) @ st @ v @ [CHR 0x0A]"

lemma response_text:
  assumes "length hdr = 12" "length st = 2" "NUL \<notin> set v" "length v \<le> 89"
    and "length buf = PROVIDER_DUBBO_RESP_BUF_SIZE" "take (length v + 19) buf = answer_frame hdr st v"
  shows "response_complete buf (length v + 19) \<and>
    (\<exists>buf'. assemble_response buf (length v + 19) =
      Some (buf', resp_head @ dec (length v) @ [CHR 0x0D, CHR 0x0A, CHR 0x0D, CHR 0x0A] @ v) \<and> length buf' = length buf) \<and>
    atoi (dec (length v) @ [CHR 0x0D, CHR 0x0A, CHR 0x0D, CHR 0x0A] @ v) = int (length v)"
proof -
  define rest where "rest = drop (length v + 19) buf"
  have buf: "buf = answer_frame hdr st v @ rest" using append_take_drop_id [of "length v + 19" buf] assms(6) by (simp add: rest_def)
  have d12: "drop 12 buf = be32 (of_nat (length v + 3)) @ st @ v @ [CHR 0x0A] @ rest"
    using assms(1) by (simp add: buf answer_frame_def)
  have "unat (of_nat DUBBO_HEADER_LEN + of_nat (length v + 3) :: u32) = length v + 19"
  proof -
    have "of_nat DUBBO_HEADER_LEN + of_nat (length v + 3) = (of_nat (length v + 19) :: u32)" by (simp add: DUBBO_HEADER_LEN_def)
    moreover have "unat (of_nat (length v + 19) :: u32) = length v + 19"
      using assms(4) by (simp only: unsigned_of_nat) (simp add: take_bit_nat_eq_self)
    ultimately show ?thesis by (simp only:)
  qed
  then have complete: "response_complete buf (length v + 19)"
    unfolding response_complete_def d12 ntohl_be32 by (simp add: DUBBO_HEADER_LEN_def)
  define b1 where "b1 = buf[length v + 18 := NUL]"
  have b1: "b1 = (hdr @ be32 (of_nat (length v + 3)) @ st) @ v @ NUL # rest"
    using assms(1,2) by (simp add: b1_def buf answer_frame_def list_update_append)
  have "drop 18 b1 = v @ NUL # rest" using assms(1,2) by (simp add: b1)
  then have val: "c_string (drop (DUBBO_HEADER_LEN + DUBBO_DATA_STATUS_LEN) b1) = Some v"
    using c_string_all [OF assms(3)] by (simp add: DUBBO_HEADER_LEN_def DUBBO_DATA_STATUS_LEN_def)
  have num: "sint (of_nat (length v + 19) - 19 :: u64) = int (length v)"
  proof -
    have "(of_nat (length v + 19) - 19 :: u64) = of_nat (length v)" by simp
    moreover have "sint (of_nat (length v) :: u64) = int (length v)"
      using assms(4) by (simp add: signed_of_nat signed_take_bit_int_eq_self)
    ultimately show ?thesis by simp
  qed
  have "length (dec (length v)) \<le> 2" using assms(4) by (intro dec_length) auto
  then have fits: "length (resp_head @ show_int (int (length v)) @ [CHR 0x0D, CHR 0x0A, CHR 0x0D, CHR 0x0A] @ v) + 1 \<le> RESP_BUFFER_SIZE"
    using assms(4) by (simp add: resp_head_def show_int_def RESP_BUFFER_SIZE_def)
  have "assemble_response buf (length v + 19) =
      Some (b1, resp_head @ dec (length v) @ [CHR 0x0D, CHR 0x0A, CHR 0x0D, CHR 0x0A] @ v)"
    using val num fits assms(4,5)
    by (simp add: assemble_response_def b1_def show_int_def PROVIDER_DUBBO_RESP_BUF_SIZE_def Let_def add.commute)
  moreover have "length b1 = length buf" by (simp add: b1_def)
  moreover have "atoi (dec (length v) @ [CHR 0x0D, CHR 0x0A, CHR 0x0D, CHR 0x0A] @ v) = int (length v)"
    using atoi_dec [of "CHR 0x0D" "length v"] by (simp add: is_digit_def)
  ultimately show ?thesis using complete by blast
qed

text \<open>
  C28: The answer of the provider comes back as the body of an HTTP response: for a value of up to
  89 bytes without NUL the response is the status line, the length of the value, whose digits
  read back as that length, an empty line and the value.
\<close>

theorem http_response_correct:
  assumes "length hdr = 12" "length st = 2" "NUL \<notin> set v" "length v \<le> 89"
    and "length buf = PROVIDER_DUBBO_RESP_BUF_SIZE" "take (length v + 19) buf = answer_frame hdr st v"
  shows "response_complete buf (length v + 19) \<and>
    (\<exists>buf'. assemble_response buf (length v + 19) =
      Some (buf', resp_head @ dec (length v) @ [CHR 0x0D, CHR 0x0A, CHR 0x0D, CHR 0x0A] @ v) \<and> length buf' = length buf) \<and>
    atoi (dec (length v) @ [CHR 0x0D, CHR 0x0A, CHR 0x0D, CHR 0x0A] @ v) = int (length v)"
  by (rule response_text [OF assms])

section \<open>Witnesses\<close>

lemma dubbo_request_roundtrip_witness:
  "\<exists>fr n. assemble_request 7 (form_text (''interface'', ''S'') (''method'', ''hash'') (''types'', ''Ljava%2Flang%2FString%3B'') (''parameter'', ''abc''))
      (length (form_text (''interface'', ''S'') (''method'', ''hash'') (''types'', ''Ljava%2Flang%2FString%3B'') (''parameter'', ''abc'')))
      (replicate 2048 NUL) = Some (fr, n) \<and>
    decode_request (take (nat n) fr) = Some \<lparr>d_id = 7, d_service = ''S'', d_method = ''hash'', d_type = ''Ljava/lang/String;'', d_arg = ''abc''\<rparr>"
  using dubbo_request_roundtrip [of "''interface''" "''method''" "''types''" "''parameter''" "''S''" "''hash''"
      "''Ljava%2Flang%2FString%3B''" "''abc''" "replicate 2048 NUL" 7 "[]"]
  by (force simp: free_of_def type_of_form_def PROVIDER_DUBBO_REQ_BUF_SIZE_def)

text \<open>A form with the type \<open>L\<close>.\<close>

lemma type_prefix_accepted_witness:
  "\<exists>fr n. assemble_request 7 (form_text (''interface'', ''S'') (''method'', ''hash'') (''types'', ''L'') (''parameter'', ''abc''))
      (length (form_text (''interface'', ''S'') (''method'', ''hash'') (''types'', ''L'') (''parameter'', ''abc'')))
      (replicate 2048 NUL) = Some (fr, n) \<and>
    decode_request (take (nat n) fr) = Some \<lparr>d_id = 7, d_service = ''S'', d_method = ''hash'', d_type = ''Ljava/lang/String;'', d_arg = ''abc''\<rparr>"
proof -
  have "''L'' = take 1 ''Ljava%2Flang%2FString%3B''" by simp
  then show ?thesis
    using type_prefix_accepted [of "''interface''" "''method''" "''types''" "''parameter''" "''S''" "''hash''" "''abc''"
        "''L''" 1 "replicate 2048 NUL" 7 "[]"]
    by (force simp: free_of_def PROVIDER_DUBBO_REQ_BUF_SIZE_def)
qed

definition demo_answer :: string where
  "demo_answer = answer_frame (replicate 12 NUL) [CHR ''1'', CHR 0x0A] ''42''"

lemma http_response_correct_witness:
  "\<exists>buf'. assemble_response (demo_answer @ replicate 235 NUL) 21 =
     Some (buf', resp_head @ ''2'' @ [CHR 0x0D, CHR 0x0A, CHR 0x0D, CHR 0x0A] @ ''42'')"
proof -
  have "length demo_answer = 21" by (simp add: demo_answer_def answer_frame_def)
  moreover have "dec (Suc (Suc 0)) = ''2''" by code_simp
  ultimately show ?thesis
    using http_response_correct [of "replicate 12 NUL" "[CHR ''1'', CHR 0x0A]" "''42''" "demo_answer @ replicate 235 NUL"]
    by (auto simp: PROVIDER_DUBBO_RESP_BUF_SIZE_def demo_answer_def [symmetric])
qed

end
