(* ===== verification/Ae_Watch.thy ===== *)
theory Ae_Watch
  imports Ae_Props
begin

text \<open>
  Registering and removing events over epoll, as the two agents use them: without faults both
  succeed on an open descriptor of the table, and they change one entry of the table and the
  interest list at that descriptor only.
\<close>

lemma loop_ok_kernel:
  assumes "\<And>fd. interest k' fd = interest k fd" "\<And>fd. open_fds k' fd = open_fds k fd"
  shows "loop_ok epoll_tracks el k' = loop_ok epoll_tracks el k"
  using assms by (simp add: loop_ok_def epoll_tracks_def)

definition registered :: "u32 \<Rightarrow> 'p \<Rightarrow> addr \<Rightarrow> 'p aeFileEvent \<Rightarrow> 'p aeFileEvent" where
  "registered m p d e = e\<lparr>fe_mask := fe_mask e OR m, rfileProc := (if bit m 0 then Some p else rfileProc e),
     wfileProc := (if bit m 1 then Some p else wfileProc e), clientData := d\<rparr>"

lemma create_event:
  assumes "loop_ok epoll_tracks el k" "watch_faults k = []" "open_fds k fd" "0 \<le> fd" "fd < setsize el" "m \<noteq> AE_NONE"
  shows "\<exists>el' i. aeCreateFileEvent epoll_api fd m p d el k = Some (AE_OK, el', k\<lparr>interest := i\<rparr>) \<and>
    loop_ok epoll_tracks el' (k\<lparr>interest := i\<rparr>) \<and> setsize el' = setsize el \<and> (\<forall>g. g \<noteq> fd \<longrightarrow> i g = interest k g) \<and>
    events el' = (events el)(fd := registered m p d (events el fd))"
proof -
  let ?old = "fe_mask (events el fd)"
  have "epoll_tracks k fd ?old" using assms(1,4,5) by (simp add: loop_ok_def)
  then obtain i where a: "aeApiAddEvent epoll_api ?old fd m k = (True, k\<lparr>interest := i\<rparr>)" "\<forall>g. g \<noteq> fd \<longrightarrow> i g = interest k g"
    using assms(2,3)
    by (auto simp: epoll_api_def epoll_aeApiAddEvent_def epoll_ctl_def epoll_tracks_def next_fault_def Let_def split: if_splits)
  obtain r el' k' where c: "aeCreateFileEvent epoll_api fd m p d el k = Some (r, el', k')" "loop_ok epoll_tracks el' k'"
    "setsize el' = setsize el"
    using epoll.create_ok [OF assms(1,6,4)] by blast
  then have "r = AE_OK \<and> k' = k\<lparr>interest := i\<rparr> \<and> events el' = (events el)(fd := registered m p d (events el fd))"
    using assms(4,5) unfolding aeCreateFileEvent_def Let_def a(1)
    by (auto simp: registered_def mask_bits)
  then show ?thesis using c a(2) by blast
qed

definition cleared :: "u32 \<Rightarrow> 'p aeFileEvent \<Rightarrow> 'p aeFileEvent" where
  "cleared m e = e\<lparr>fe_mask := fe_mask e AND NOT (if m AND AE_WRITABLE \<noteq> 0 then m OR AE_BARRIER else m)\<rparr>"

lemma delete_event:
  assumes "loop_ok epoll_tracks el k" "0 \<le> fd" "fd < setsize el"
  shows "\<exists>el' i. aeDeleteFileEvent epoll_api fd m el k = Some (el', k\<lparr>interest := i\<rparr>) \<and>
    loop_ok epoll_tracks el' (k\<lparr>interest := i\<rparr>) \<and> setsize el' = setsize el \<and> (\<forall>g. g \<noteq> fd \<longrightarrow> i g = interest k g) \<and>
    events el' = (events el)(fd := cleared m (events el fd))"
proof -
  have "\<exists>i. snd (epoll_ctl op fd ev k) = k\<lparr>interest := i\<rparr> \<and> (\<forall>g. g \<noteq> fd \<longrightarrow> i g = interest k g)"
    if "op \<noteq> EPOLL_CTL_ADD" for op ev
    using that by (cases op) (auto simp: epoll_ctl_def intro: exI [of _ "interest k"])
  then have del: "\<exists>i. aeApiDelEvent epoll_api old fd x k = k\<lparr>interest := i\<rparr> \<and> (\<forall>g. g \<noteq> fd \<longrightarrow> i g = interest k g)" for old x
    by (simp add: epoll_api_def epoll_aeApiDelEvent_def Let_def)
  obtain el' k' where d: "aeDeleteFileEvent epoll_api fd m el k = Some (el', k')" "loop_ok epoll_tracks el' k'"
    "setsize el' = setsize el"
    using epoll.delete_ok [OF assms(1,2)] by blast
  show ?thesis
  proof (cases "fe_mask (events el fd) = AE_NONE")
    case True
    then have "el' = el" "k' = k" using d(1) assms(2,3) by (simp_all add: aeDeleteFileEvent_def)
    moreover have "cleared m (events el fd) = events el fd" using True by (simp add: cleared_def AE_NONE_def)
    ultimately show ?thesis using d by (intro exI [of _ el] exI [of _ "interest k"]) simp
  next
    case False
    have "\<exists>i. k' = k\<lparr>interest := i\<rparr> \<and> (\<forall>g. g \<noteq> fd \<longrightarrow> i g = interest k g)" "events el' = (events el)(fd := cleared m (events el fd))"
      using d(1) False assms(2,3) del unfolding aeDeleteFileEvent_def Let_def cleared_def by auto
    then show ?thesis using d by auto
  qed
qed

lemma all_cleared:
  assumes "\<forall>n \<ge> 2. \<not> bit (fe_mask e) n"
  shows "fe_mask (cleared (AE_WRITABLE OR AE_READABLE) e) = AE_NONE"
proof -
  have "(AE_WRITABLE OR AE_READABLE) AND AE_WRITABLE \<noteq> 0" by (simp add: ae_masks)
  then have "fe_mask (cleared (AE_WRITABLE OR AE_READABLE) e) =
      fe_mask e AND NOT ((AE_WRITABLE OR AE_READABLE) OR AE_BARRIER)"
    by (simp add: cleared_def)
  moreover have "\<not> bit (fe_mask e AND NOT ((AE_WRITABLE OR AE_READABLE) OR AE_BARRIER)) n" for n
    using assms by (cases "n \<ge> 2") (auto simp: bit_and_iff bit_or_iff bit_not_iff ae_masks not_le less_2_cases_iff)
  ultimately show ?thesis by (simp add: bit_eq_iff [where 'a = "32 word"] AE_NONE_def)
qed

lemma cleared_bits: "\<forall>n \<ge> 2. \<not> bit (fe_mask e) n \<Longrightarrow> \<forall>n \<ge> 2. \<not> bit (fe_mask (cleared m e)) n"
  by (simp add: cleared_def bit_and_iff)

lemma cleared_NONE: "fe_mask (cleared m e) \<noteq> AE_NONE \<Longrightarrow> fe_mask e \<noteq> AE_NONE"
  by (auto simp: cleared_def AE_NONE_def)

lemma registered_bits:
  assumes "\<forall>n \<ge> 2. \<not> bit (fe_mask e) n" "m = AE_READABLE \<or> m = AE_WRITABLE"
  shows "\<forall>n \<ge> 2. \<not> bit (fe_mask (registered m p d e)) n"
proof -
  have "bit m n \<Longrightarrow> n = 0 \<or> n = 1" for n using assms(2) unfolding ae_masks by (auto simp only: u32_bit)
  then have "\<not> bit m n" if "n \<ge> 2" for n using that by fastforce
  then show ?thesis using assms(1) by (simp add: registered_def bit_or_iff)
qed

end
