(* ===== verification/Provider_Steps.thy ===== *)
theory Provider_Steps
  imports Provider Http_Message Dubbo_Props Ae_Watch
begin

text \<open>
  One connection of the provider agent and its partner, and what each handler does to the two: the
  state of a bound pair, kept by reading, writing and registering, and one lemma per handler on
  its regular branch.
\<close>

section \<open>System calls\<close>

abbreviation pentry :: "provider \<Rightarrow> fd \<Rightarrow> pproc aeFileEvent" where "pentry w fd \<equiv> events (p_loop w) fd"
abbreviation caa :: "provider \<Rightarrow> addr \<Rightarrow> connection_caa" where "caa w ca \<equiv> caas (p_net w) ca"
abbreviation apfd :: "provider \<Rightarrow> addr \<Rightarrow> fd" where "apfd w a \<equiv> ap_fd (aps (p_net w) a)"

definition passed :: "(fd \<Rightarrow> string) \<Rightarrow> provider \<Rightarrow> provider" where
  "passed s w = w\<lparr>p_net := (p_net w)\<lparr>sent := s, tick := tick (p_net w) + 1\<rparr>\<rparr>"

lemma passed_simps [simp]:
  "p_loop (passed s w) = p_loop w" "caas (p_net (passed s w)) = caas (p_net w)" "aps (p_net (passed s w)) = aps (p_net w)"
  "sent (p_net (passed s w)) = s" "open_fds (p_net (passed s w)) = open_fds (p_net w)"
  "interest (p_net (passed s w)) = interest (p_net w)" "watch_faults (p_net (passed s w)) = watch_faults (p_net w)"
  "cur_request_id (passed s w) = cur_request_id w" "caa_pool (passed s w) = caa_pool w"
  by (simp_all add: passed_def)

lemma p_read:
  assumes "open_fds (p_net w) fd" "env_read E fd k (p_net w) = RdData s" "s \<noteq> []" "length s \<le> k"
  shows "p_sys (sys_read E fd k) w = (RdData s, passed (sent (p_net w)) w)"
  using assms by (simp add: p_sys_def sys_read_def tock_def passed_def)

lemma p_write:
  assumes "open_fds (p_net w) fd" "env_write E fd s (p_net w) = WrSome n" "n \<le> length s"
  shows "p_sys (sys_write E fd s) w = (WrSome n, passed ((sent (p_net w))(fd := sent (p_net w) fd @ take n s)) w)"
  using assms by (simp add: p_sys_def sys_write_def tock_def passed_def min_def)

section \<open>A bound pair\<close>

definition caa_ok :: "connection_caa \<Rightarrow> bool" where
  "caa_ok c \<longleftrightarrow> length (caa_buf_in c) = PROVIDER_HTTP_REQ_BUF_SIZE \<and> caa_nread_in c \<le> PROVIDER_HTTP_REQ_BUF_SIZE \<and>
     length (buf_req c) = PROVIDER_DUBBO_REQ_BUF_SIZE \<and> int (nwrite_req c) \<le> len_req c \<and>
     len_req c \<le> int PROVIDER_DUBBO_REQ_BUF_SIZE \<and>
     length (buf_resp c) = PROVIDER_DUBBO_RESP_BUF_SIZE \<and> nread_resp c \<le> PROVIDER_DUBBO_RESP_BUF_SIZE"

definition watchable_p :: "int \<Rightarrow> fd \<Rightarrow> provider \<Rightarrow> bool" where
  "watchable_p N fd w \<longleftrightarrow> loop_ok epoll_tracks (p_loop w) (p_net w) \<and> setsize (p_loop w) = N \<and>
     watch_faults (p_net w) = [] \<and> 0 \<le> fd \<and> fd < N \<and> open_fds (p_net w) fd"

definition bound :: "int \<Rightarrow> addr \<Rightarrow> fd \<Rightarrow> fd \<Rightarrow> provider \<Rightarrow> bool" where
  "bound N ca f g w \<longleftrightarrow> ca \<noteq> NULL \<and> caa_fd (caa w ca) = f \<and> caa_ok (caa w ca) \<and> conn_ap (caa w ca) \<noteq> NULL \<and>
     apfd w (conn_ap (caa w ca)) = g \<and> f \<noteq> g \<and> watchable_p N f w \<and> watchable_p N g w"

lemma boundD:
  assumes "bound N ca f g w"
  shows "ca \<noteq> NULL" "get_caa ca w = Some (caa w ca)" "caa_fd (caa w ca) = f" "\<not> f < 0" "\<not> g < 0" "f \<noteq> g"
    "open_fds (p_net w) f" "open_fds (p_net w) g" "caa_ok (caa w ca)"
    "get_ap (conn_ap (caa w ca)) w = Some (aps (p_net w) (conn_ap (caa w ca)))" "apfd w (conn_ap (caa w ca)) = g"
    "watchable_p N f w" "watchable_p N g w" "conn_ap (caa w ca) \<noteq> NULL"
  using assms by (auto simp: bound_def watchable_p_def get_caa_def get_ap_def)

text \<open>The kernel and the loop with other registrations.\<close>

definition rearmed :: "pproc aeEventLoop \<Rightarrow> (fd \<Rightarrow> u32 option) \<Rightarrow> provider \<Rightarrow> provider" where
  "rearmed el i w = w\<lparr>p_loop := el, p_net := (p_net w)\<lparr>interest := i\<rparr>\<rparr>"

lemma rearmed_simps [simp]:
  "p_loop (rearmed el i w) = el" "caas (p_net (rearmed el i w)) = caas (p_net w)" "aps (p_net (rearmed el i w)) = aps (p_net w)"
  "sent (p_net (rearmed el i w)) = sent (p_net w)" "open_fds (p_net (rearmed el i w)) = open_fds (p_net w)"
  "interest (p_net (rearmed el i w)) = i" "watch_faults (p_net (rearmed el i w)) = watch_faults (p_net w)"
  "cur_request_id (rearmed el i w) = cur_request_id w" "caa_pool (rearmed el i w) = caa_pool w"
  by (simp_all add: rearmed_def)

lemma set_caa_simps [simp]:
  "p_loop (set_caa ca c w) = p_loop w" "caas (p_net (set_caa ca c w)) = (caas (p_net w))(ca := c)"
  "aps (p_net (set_caa ca c w)) = aps (p_net w)" "sent (p_net (set_caa ca c w)) = sent (p_net w)"
  "open_fds (p_net (set_caa ca c w)) = open_fds (p_net w)" "interest (p_net (set_caa ca c w)) = interest (p_net w)"
  "watch_faults (p_net (set_caa ca c w)) = watch_faults (p_net w)" "cur_request_id (set_caa ca c w) = cur_request_id w"
  "caa_pool (set_caa ca c w) = caa_pool w"
  by (simp_all add: set_caa_def)

lemma set_caa_set_caa [simp]: "set_caa ca c (set_caa ca d w) = set_caa ca c w"
  by (simp add: set_caa_def)

lemma get_caa_set_caa [simp]: "ca \<noteq> NULL \<Longrightarrow> get_caa ca (set_caa ca c w) = Some c"
  by (simp add: get_caa_def)

lemma watchable_p_same:
  assumes "watchable_p N fd w" "p_loop w' = p_loop w" "interest (p_net w') = interest (p_net w)"
    "open_fds (p_net w') = open_fds (p_net w)" "watch_faults (p_net w') = watch_faults (p_net w)"
  shows "watchable_p N fd w'"
  using assms by (simp add: watchable_p_def loop_ok_kernel [of "p_net w'" "p_net w"])

lemma bound_same:
  assumes "bound N ca f g w" "p_loop w' = p_loop w" "interest (p_net w') = interest (p_net w)"
    "open_fds (p_net w') = open_fds (p_net w)" "watch_faults (p_net w') = watch_faults (p_net w)"
    "aps (p_net w') = aps (p_net w)" "caa_ok (caa w' ca)" "caa_fd (caa w' ca) = caa_fd (caa w ca)"
    "conn_ap (caa w' ca) = conn_ap (caa w ca)"
  shows "bound N ca f g w'"
  using assms watchable_p_same [of N _ w w'] by (simp add: bound_def)

lemma bound_passed [simp]: "bound N ca f g w \<Longrightarrow> bound N ca f g (passed s w)"
  by (rule bound_same) (auto dest: boundD)

lemma bound_set_caa:
  assumes "bound N ca f g w" "caa_ok c" "caa_fd c = f" "conn_ap c = conn_ap (caa w ca)"
  shows "bound N ca f g (set_caa ca c w)"
  by (rule bound_same [OF assms(1)]) (use assms boundD [OF assms(1)] in simp_all)

lemma p_watch_bound:
  assumes b: "bound N ca f g w" and fd: "fd = f \<or> fd = g" and m: "m \<noteq> AE_NONE"
  obtains el i where "p_watch fd m p d w = Some (AE_OK, rearmed el i w)" "bound N ca f g (rearmed el i w)"
    "events el = (events (p_loop w))(fd := registered m p d (pentry w fd))"
proof -
  have t: "loop_ok epoll_tracks (p_loop w) (p_net w)" "watch_faults (p_net w) = []" "open_fds (p_net w) fd" "0 \<le> fd"
    "fd < setsize (p_loop w)" "setsize (p_loop w) = N"
    using boundD(12,13) [OF b] fd by (auto simp: watchable_p_def)
  obtain el i where c: "aeCreateFileEvent epoll_api fd m p d (p_loop w) (p_net w) = Some (AE_OK, el, (p_net w)\<lparr>interest := i\<rparr>)"
    "loop_ok epoll_tracks el ((p_net w)\<lparr>interest := i\<rparr>)" "setsize el = setsize (p_loop w)"
    "events el = (events (p_loop w))(fd := registered m p d (pentry w fd))"
    using create_event [OF t(1-5) m, of p d] by blast
  have "p_watch fd m p d w = Some (AE_OK, rearmed el i w)" using c(1) by (simp add: p_watch_def rearmed_def)
  moreover have "watchable_p N h (rearmed el i w)" if "watchable_p N h w" for h
    using c(2,3) that by (simp add: watchable_p_def rearmed_def)
  then have "bound N ca f g (rearmed el i w)" using b by (simp add: bound_def)
  ultimately show thesis using that c(4) by blast
qed

lemma p_unwatch_bound:
  assumes b: "bound N ca f g w" and fd: "fd = f \<or> fd = g"
  obtains el i where "p_unwatch fd m w = Some (rearmed el i w)" "bound N ca f g (rearmed el i w)"
    "events el = (events (p_loop w))(fd := cleared m (pentry w fd))"
proof -
  have t: "loop_ok epoll_tracks (p_loop w) (p_net w)" "0 \<le> fd" "fd < setsize (p_loop w)" "setsize (p_loop w) = N"
    using boundD(12,13) [OF b] fd by (auto simp: watchable_p_def)
  obtain el i where c: "aeDeleteFileEvent epoll_api fd m (p_loop w) (p_net w) = Some (el, (p_net w)\<lparr>interest := i\<rparr>)"
    "loop_ok epoll_tracks el ((p_net w)\<lparr>interest := i\<rparr>)" "setsize el = setsize (p_loop w)"
    "events el = (events (p_loop w))(fd := cleared m (pentry w fd))"
    using delete_event [OF t(1-3), of m] by blast
  have "p_unwatch fd m w = Some (rearmed el i w)" using c(1) by (simp add: p_unwatch_def rearmed_def)
  moreover have "watchable_p N h (rearmed el i w)" if "watchable_p N h w" for h
    using c(2,3) that by (simp add: watchable_p_def rearmed_def)
  then have "bound N ca f g (rearmed el i w)" using b by (simp add: bound_def)
  ultimately show thesis using that c(4) by blast
qed

text \<open>The events of the pair as the handlers leave them.\<close>

definition calls :: "provider \<Rightarrow> fd \<Rightarrow> addr \<Rightarrow> pproc option \<Rightarrow> pproc option \<Rightarrow> bool" where
  "calls w fd d r wr \<longleftrightarrow>
     (bit (fe_mask (pentry w fd)) 0 \<longleftrightarrow> r \<noteq> None) \<and> (r \<noteq> None \<longrightarrow> rfileProc (pentry w fd) = r) \<and>
     (bit (fe_mask (pentry w fd)) 1 \<longleftrightarrow> wr \<noteq> None) \<and> (wr \<noteq> None \<longrightarrow> wfileProc (pentry w fd) = wr) \<and>
     (r \<noteq> None \<or> wr \<noteq> None \<longrightarrow> clientData (pentry w fd) = d)"

lemma calls_registered:
  assumes "calls w fd d r wr" "pentry w' fd = registered m p d (pentry w fd)" "m = AE_READABLE \<or> m = AE_WRITABLE"
  shows "calls w' fd d (if m = AE_READABLE then Some p else r) (if m = AE_WRITABLE then Some p else wr)"
  using assms by (auto simp: calls_def registered_def bit_or_iff ae_masks)

lemma calls_cleared:
  assumes "calls w fd d r wr" "pentry w' fd = cleared AE_WRITABLE (pentry w fd)"
  shows "calls w' fd d r None"
  using assms by (auto simp: calls_def cleared_def bit_and_iff bit_or_iff bit_not_iff ae_masks)

section \<open>Taking a request\<close>

lemma watch_provider_ok:
  assumes b: "bound N ca f g w" and c: "calls w g ca r wr"
  obtains el i where "watch_provider ca (conn_ap (caa w ca)) w = Some (rearmed el i w)" "bound N ca f g (rearmed el i w)"
    "calls (rearmed el i w) g ca (Some Read_from_local_provider) (Some Write_to_local_provider)"
    "\<forall>h. h \<noteq> g \<longrightarrow> events el h = pentry w h"
proof -
  obtain el i where 1: "p_watch g AE_WRITABLE Write_to_local_provider ca w = Some (AE_OK, rearmed el i w)"
    "bound N ca f g (rearmed el i w)" "events el = (events (p_loop w))(g := registered AE_WRITABLE Write_to_local_provider ca (pentry w g))"
    by (rule p_watch_bound [OF b, of g AE_WRITABLE Write_to_local_provider ca]) (simp_all add: ae_masks)
  have c1: "calls (rearmed el i w) g ca r (Some Write_to_local_provider)"
    using calls_registered [OF c, of "rearmed el i w" AE_WRITABLE Write_to_local_provider] 1(3) by (simp add: ae_masks)
  obtain el2 i2 where 2: "p_watch g AE_READABLE Read_from_local_provider ca (rearmed el i w) = Some (AE_OK, rearmed el2 i2 (rearmed el i w))"
    "bound N ca f g (rearmed el2 i2 (rearmed el i w))"
    "events el2 = (events el)(g := registered AE_READABLE Read_from_local_provider ca (events el g))"
    by (rule p_watch_bound [OF 1(2), of g AE_READABLE Read_from_local_provider ca]) (simp_all add: ae_masks)
  have eq: "rearmed el2 i2 (rearmed el i w) = rearmed el2 i2 w" by (simp add: rearmed_def)
  have "calls (rearmed el2 i2 w) g ca (Some Read_from_local_provider) (Some Write_to_local_provider)"
    using calls_registered [OF c1, of "rearmed el2 i2 w" AE_READABLE Read_from_local_provider] 2(3) by (simp add: ae_masks)
  moreover have "watch_provider ca (conn_ap (caa w ca)) w = Some (rearmed el2 i2 w)"
    using boundD(10,11) [OF b] boundD(10,11) [OF 1(2)] 1(1) 2(1) by (simp add: watch_provider_def eq)
  ultimately show thesis using that 2(2,3) 1(3) unfolding eq by simp
qed

lemma accept_body_ok:
  assumes b: "bound N ca f g w" and c: "calls w g ca r wr" and idle: "\<not> processing (caa w ca)" "nwrite_req (caa w ca) = 0"
    and frame: "assemble_request (cur_request_id w) (drop off (caa_buf_in (caa w ca))) len (buf_req (caa w ca)) = Some (fr, n)"
      "length fr = PROVIDER_DUBBO_REQ_BUF_SIZE" "0 \<le> n" "n \<le> int PROVIDER_DUBBO_REQ_BUF_SIZE"
  obtains w' where "accept_body ca off len w = Some (0, w')" "bound N ca f g w'"
    "caas (p_net w') = (caas (p_net w))(ca := (caa w ca)\<lparr>processing := True, buf_req := fr, len_req := n\<rparr>)"
    "cur_request_id w' = cur_request_id w + 1" "sent (p_net w') = sent (p_net w)"
    "calls w' g ca (Some Read_from_local_provider) (Some Write_to_local_provider)" "\<forall>h. h \<noteq> g \<longrightarrow> pentry w' h = pentry w h"
proof -
  let ?c = "(caa w ca)\<lparr>processing := True, buf_req := fr, len_req := n\<rparr>"
  define w1 where "w1 = (set_caa ca ?c w)\<lparr>cur_request_id := cur_request_id w + 1\<rparr>"
  have "caa_ok ?c" using boundD(9) [OF b] idle(2) frame(2-4) by (simp add: caa_ok_def)
  then have b1: "bound N ca f g w1"
    by (intro bound_same [OF b]) (use boundD [OF b] in \<open>simp_all add: w1_def\<close>)
  have w1: "caa w1 ca = ?c" "caas (p_net w1) = (caas (p_net w))(ca := ?c)" "sent (p_net w1) = sent (p_net w)"
    "p_loop w1 = p_loop w" "cur_request_id w1 = cur_request_id w + 1"
    by (simp_all add: w1_def)
  have c1: "calls w1 g ca r wr" using c by (simp add: calls_def w1(4))
  obtain el i where wp: "watch_provider ca (conn_ap (caa w1 ca)) w1 = Some (rearmed el i w1)" "bound N ca f g (rearmed el i w1)"
    "calls (rearmed el i w1) g ca (Some Read_from_local_provider) (Some Write_to_local_provider)"
    "\<forall>h. h \<noteq> g \<longrightarrow> events el h = pentry w1 h"
    by (rule watch_provider_ok [OF b1 c1])
  have "accept_body ca off len w = Some (0, rearmed el i w1)"
    using boundD(2) [OF b] idle(1) frame(1) wp(1) by (simp add: accept_body_def w1_def)
  then show thesis using that wp(2-4) w1 by simp
qed

text \<open>
  The parser hands over its whole input in one call of \<^verbatim>\<open>on_body\<close>: inside a body of known length this
  is so, whether the body ends with the input or not.
\<close>

definition hands_over :: "string \<Rightarrow> http_parser \<Rightarrow> http_parser \<Rightarrow> bool" where
  "hands_over s q q' \<longleftrightarrow> (\<forall>(S :: provider option http_parser_settings) h u u1. on_body S = Some h \<longrightarrow>
     (\<forall>q. h 0 s q u = (0, False, u1)) \<longrightarrow> on_message_complete S = None \<longrightarrow> http_parser_execute S s q u = Some (length s, q', u1))"

definition in_body :: "http_parser \<Rightarrow> nat \<Rightarrow> bool" where
  "in_body q n \<longleftrightarrow> state q = s_body_identity \<and> http_errno q = HPE_OK \<and> content_length q \<noteq> ULLONG_MAX \<and>
     unat (content_length q) = n \<and> \<not> upgrade q"

lemma hands_over_part:
  assumes "in_body q n" "s \<noteq> []" "length s < n"
  shows "hands_over s q (q\<lparr>content_length := content_length q - of_nat (length s)\<rparr>)"
  using assms by (auto simp: hands_over_def in_body_def intro!: execute_body_part_call)

lemma hands_over_last:
  assumes "in_body q (length s)" "s \<noteq> []"
  shows "\<exists>q'. hands_over s q q'"
  using execute_body_last_call [where data = s and q = q] assms unfolding hands_over_def in_body_def by metis

lemma in_body_rest:
  assumes "in_body q n" "m < n"
  shows "in_body (q\<lparr>content_length := content_length q - of_nat m\<rparr>) (n - m)"
proof -
  have m: "unat (of_nat m :: u64) = m" using assms by (metis in_body_def le_unat_uoi less_imp_le)
  then have n: "unat (content_length q - of_nat m) = n - m"
    using assms by (simp add: in_body_def unat_sub word_le_nat_alt)
  moreover have "unat (content_length q) < unat ULLONG_MAX"
    using assms(1) by (metis ULLONG_MAX_def in_body_def word_less_nat_alt word_order.not_eq_extremum)
  then have "unat (content_length q - of_nat m) \<noteq> unat ULLONG_MAX" using n assms by (simp add: in_body_def)
  then have "content_length q - of_nat m \<noteq> ULLONG_MAX" by metis
  ultimately show ?thesis using assms by (simp add: in_body_def)
qed

text \<open>The same for a body that starts behind \<open>off\<close> bytes, with what is known of the parser afterwards.\<close>

definition delivers :: "(http_parser \<Rightarrow> bool) \<Rightarrow> nat \<Rightarrow> string \<Rightarrow> string \<Rightarrow> http_parser \<Rightarrow> bool" where
  "delivers Q off body s q \<longleftrightarrow> (\<forall>(f :: provider option http_data_cb) u u1. (\<forall>q. f off body q u = (0, False, u1)) \<longrightarrow>
     (\<exists>q'. http_parser_execute (body_only f) s q u = Some (length s, q', u1) \<and> Q q'))"

lemma hands_over_delivers:
  assumes "hands_over s q q'" "Q q'"
  shows "delivers Q 0 s s q"
  unfolding delivers_def
proof (intro allI impI)
  fix f :: "provider option http_data_cb" and u u1
  assume f: "\<forall>q. f 0 s q u = (0, False, u1)"
  have S: "on_body (body_only f) = Some f" "on_message_complete (body_only f) = None" by simp_all
  have "http_parser_execute (body_only f) s q u = Some (length s, q', u1)"
    by (rule assms(1) [unfolded hands_over_def, rule_format, OF S(1) _ S(2)]) (use f in simp)
  then show "\<exists>q'. http_parser_execute (body_only f) s q u = Some (length s, q', u1) \<and> Q q'" using assms(2) by blast
qed

lemma request_delivers:
  assumes "good_request m cs hs l hs' body"
  shows "delivers (\<lambda>q. state q = s_start_req \<and> http_errno q = HPE_OK) (length (request_head m cs hs l hs')) body
    (request_head m cs hs l hs' @ body) (http_parser_init HTTP_REQUEST)"
  unfolding delivers_def
proof (intro allI impI)
  fix f :: "provider option http_data_cb" and u u1
  assume f: "\<forall>q. f (length (request_head m cs hs l hs')) body q u = (0, False, u1)"
  show "\<exists>q'. http_parser_execute (body_only f) (request_head m cs hs l hs' @ body) (http_parser_init HTTP_REQUEST) u =
      Some (length (request_head m cs hs l hs' @ body), q', u1) \<and> state q' = s_start_req \<and> http_errno q' = HPE_OK"
    using request_parsed [OF assms, of f u u1] f by auto
qed

lemma buffered: "base + length s \<le> length buf \<Longrightarrow> drop base (blit base s buf) = s @ drop (base + length s) buf"
  by (simp add: blit_def)

lemma request_taken:
  fixes E :: "pnet env"
  assumes b: "bound N ca f g w" and c: "calls w g ca r wr" and idle: "\<not> processing (caa w ca)" "nwrite_req (caa w ca) = 0"
    and base: "base = caa_nread_in (caa w ca)"
    and read: "env_read E f (PROVIDER_HTTP_REQ_BUF_SIZE - base) (p_net w) = RdData s" "s \<noteq> []"
      "length s \<le> PROVIDER_HTTP_REQ_BUF_SIZE - base"
    and parse: "delivers Q (length front) body s (parser (caa w ca))" "s = front @ body"
    and frame: "\<And>rest. \<exists>fr. assemble_request (cur_request_id w) (body @ rest) (length body) (buf_req (caa w ca)) = Some (fr, n) \<and>
        length fr = PROVIDER_DUBBO_REQ_BUF_SIZE \<and> P fr" "0 \<le> n" "n \<le> int PROVIDER_DUBBO_REQ_BUF_SIZE"
  obtains w' fr q' where "read_from_consumer_agent E f ca w = Some w'" "bound N ca f g w'" "P fr" "Q q'"
    "caa w' ca = (caa w ca)\<lparr>caa_buf_in := blit base s (caa_buf_in (caa w ca)), caa_nread_in := base + length s,
       processing := True, buf_req := fr, len_req := n, parser := q'\<rparr>"
    "cur_request_id w' = cur_request_id w + 1" "sent (p_net w') = sent (p_net w)"
    "calls w' g ca (Some Read_from_local_provider) (Some Write_to_local_provider)" "\<forall>h. h \<noteq> g \<longrightarrow> pentry w' h = pentry w h"
proof -
  let ?c = "caa w ca" let ?b = "blit base s (caa_buf_in (caa w ca))" let ?rest = "drop (base + length s) (caa_buf_in (caa w ca))"
  have buf: "length (caa_buf_in ?c) = PROVIDER_HTTP_REQ_BUF_SIZE" "base \<le> PROVIDER_HTTP_REQ_BUF_SIZE"
    using boundD(9) [OF b] base by (simp_all add: caa_ok_def)
  define w2 where "w2 = set_caa ca (?c\<lparr>caa_buf_in := ?b\<rparr>) (passed (sent (p_net w)) w)"
  have "caa_ok (?c\<lparr>caa_buf_in := ?b\<rparr>)" using boundD(9) [OF b] buf read(3) by (simp add: caa_ok_def)
  then have b2: "bound N ca f g w2"
    unfolding w2_def by (intro bound_set_caa bound_passed b) (use boundD [OF b] in simp_all)
  have w2: "caa w2 ca = ?c\<lparr>caa_buf_in := ?b\<rparr>" "p_loop w2 = p_loop w" "cur_request_id w2 = cur_request_id w"
    "sent (p_net w2) = sent (p_net w)"
    by (simp_all add: w2_def)
  have c2: "calls w2 g ca r wr" using c by (simp add: calls_def w2(2))
  have "drop base (caa_buf_in (caa w2 ca)) = front @ body @ ?rest" using buffered buf read(3) w2(1) parse(2) by simp
  then have at: "drop (base + length front) (caa_buf_in (caa w2 ca)) = body @ ?rest" by (rule drop_after)
  obtain fr where fr: "assemble_request (cur_request_id w) (body @ ?rest) (length body) (buf_req ?c) = Some (fr, n)"
    "length fr = PROVIDER_DUBBO_REQ_BUF_SIZE" "P fr"
    using frame(1) by blast
  have asm: "assemble_request (cur_request_id w2) (drop (base + length front) (caa_buf_in (caa w2 ca))) (length body)
      (buf_req (caa w2 ca)) = Some (fr, n)"
    unfolding at using fr(1) w2(1,3) by simp
  obtain w3 where w3: "accept_body ca (base + length front) (length body) w2 = Some (0, w3)" "bound N ca f g w3"
    "caas (p_net w3) = (caas (p_net w2))(ca := (caa w2 ca)\<lparr>processing := True, buf_req := fr, len_req := n\<rparr>)"
    "cur_request_id w3 = cur_request_id w2 + 1" "sent (p_net w3) = sent (p_net w2)"
    "calls w3 g ca (Some Read_from_local_provider) (Some Write_to_local_provider)" "\<forall>h. h \<noteq> g \<longrightarrow> pentry w3 h = pentry w2 h"
    by (rule accept_body_ok [OF b2 c2 _ _ asm fr(2) frame(2,3)]) (use idle w2 in simp_all)
  have "\<forall>q. on_http_body ca base (length front) body q (Some w2) = (0, False, Some w3)" using w3(1) by (simp add: on_http_body_def)
  then obtain q' where "http_parser_execute (body_only (on_http_body ca base)) s (parser ?c) (Some w2) = Some (length s, q', Some w3)"
    and q': "Q q'"
    using parse(1) unfolding delivers_def by blast
  then have "http_parser_execute (parser_settings ca base) s (parser ?c) (Some w2) = Some (length s, q', Some w3)"
    by (simp add: parser_settings_def body_only_def)
  then have fed: "feed_parser ca base s w2 = Some (length s, set_caa ca ((caa w3 ca)\<lparr>parser := q'\<rparr>) w3)"
    using boundD(2) [OF b2] boundD(2) [OF w3(2)] w2(1) by (simp add: feed_parser_def)
  define c4 where "c4 = (caa w3 ca)\<lparr>parser := q', caa_nread_in := base + length s\<rparr>"
  define w4 where "w4 = set_caa ca c4 w3"
  have nread: "caa_nread_in (caa w3 ca) = base" using w3(3) w2(1) base by simp
  have "caa_ok c4" using boundD(9) [OF w3(2)] buf(2) read(3) by (simp add: caa_ok_def c4_def)
  then have b4: "bound N ca f g w4"
    unfolding w4_def by (intro bound_set_caa w3(2)) (use boundD [OF w3(2)] in \<open>simp_all add: c4_def\<close>)
  have "read_from_consumer_agent E f ca w = Some w4"
    using boundD(1-4) [OF b] p_read [OF boundD(7) [OF b] read] fed nread
    by (simp add: read_from_consumer_agent_def base [symmetric] w2_def [symmetric] w4_def c4_def)
  moreover have "calls w4 g ca (Some Read_from_local_provider) (Some Write_to_local_provider)"
    using w3(6) by (simp add: calls_def w4_def)
  moreover have "caa w4 ca = ?c\<lparr>caa_buf_in := ?b, caa_nread_in := base + length s,
       processing := True, buf_req := fr, len_req := n, parser := q'\<rparr>"
    by (simp add: w4_def c4_def w3(3) w2(1))
  ultimately show thesis using that b4 fr(3) q' w3(4,5,7) w2 by (simp add: w4_def)
qed

section \<open>The exchange with the provider\<close>

definition unsent :: "connection_caa \<Rightarrow> string" where
  "unsent c = take (nat (len_req c) - nwrite_req c) (drop (nwrite_req c) (buf_req c))"

lemma length_unsent: "caa_ok c \<Longrightarrow> length (unsent c) = nat (len_req c) - nwrite_req c"
  by (auto simp: unsent_def caa_ok_def)

lemma request_sent:
  fixes E :: "pnet env"
  assumes b: "bound N ca f g w" and c: "calls w g ca r (Some Write_to_local_provider)"
    and wr: "env_write E g (unsent (caa w ca)) (p_net w) = WrSome n" "n \<le> length (unsent (caa w ca))"
  obtains w' where "write_to_local_provider E g ca w = Some w'" "bound N ca f g w'"
    "sent (p_net w') = (sent (p_net w))(g := sent (p_net w) g @ take n (unsent (caa w ca)))"
    "caa w' ca = (caa w ca)\<lparr>nwrite_req := nwrite_req (caa w ca) + n\<rparr>"
    "calls w' g ca r (if n = length (unsent (caa w ca)) then None else Some Write_to_local_provider)"
    "\<forall>h. h \<noteq> g \<longrightarrow> pentry w' h = pentry w h" "cur_request_id w' = cur_request_id w"
proof -
  let ?c = "caa w ca" let ?out = "unsent (caa w ca)"
  define w1 where "w1 = passed ((sent (p_net w))(g := sent (p_net w) g @ take n ?out)) w"
  define c1 where "c1 = ?c\<lparr>nwrite_req := nwrite_req ?c + n\<rparr>"
  define w2 where "w2 = set_caa ca c1 w1"
  have len: "length ?out = nat (len_req ?c) - nwrite_req ?c" "int (nwrite_req ?c) \<le> len_req ?c"
    using length_unsent [OF boundD(9) [OF b]] boundD(9) [OF b] by (simp_all add: caa_ok_def)
  have "caa_ok c1" using boundD(9) [OF b] wr(2) len by (simp add: caa_ok_def c1_def)
  then have b2: "bound N ca f g w2"
    unfolding w2_def w1_def by (intro bound_set_caa bound_passed b) (use boundD [OF b] in \<open>simp_all add: c1_def\<close>)
  have body: "write_to_local_provider E g ca w = (if int (nwrite_req c1) = len_req c1 then p_unwatch g AE_WRITABLE w2 else Some w2)"
    using boundD(1-4) [OF b] p_write [OF boundD(8) [OF b] wr] len(2)
    by (simp add: write_to_local_provider_def unsent_def [symmetric] w1_def [symmetric] c1_def [symmetric] w2_def [symmetric] Let_def)
  have done_iff: "int (nwrite_req c1) = len_req c1 \<longleftrightarrow> n = length ?out" using len wr(2) by (auto simp: c1_def)
  show thesis
  proof (cases "n = length ?out")
    case True
    obtain el i where u: "p_unwatch g AE_WRITABLE w2 = Some (rearmed el i w2)" "bound N ca f g (rearmed el i w2)"
      "events el = (events (p_loop w2))(g := cleared AE_WRITABLE (pentry w2 g))"
      by (rule p_unwatch_bound [OF b2, of g AE_WRITABLE]) simp
    have "calls (rearmed el i w2) g ca r None"
      using calls_cleared [OF c, of "rearmed el i w2"] u(3) by (simp add: w2_def w1_def)
    then show thesis using that [of "rearmed el i w2"] body done_iff True u by (simp add: w2_def w1_def c1_def)
  next
    case False
    then show thesis using that [of w2] body done_iff b2 c by (simp add: w2_def w1_def c1_def calls_def)
  qed
qed

lemma answer_taken:
  fixes E :: "pnet env"
  assumes b: "bound N ca f g w" and c: "calls w f ca (Some Read_from_consumer_agent) wr" and none: "nread_resp (caa w ca) = 0"
    and read: "env_read E g PROVIDER_DUBBO_RESP_BUF_SIZE (p_net w) = RdData t" "t \<noteq> []" "length t \<le> PROVIDER_DUBBO_RESP_BUF_SIZE"
    and complete: "response_complete (blit 0 t (buf_resp (caa w ca))) (length t)"
  obtains w' where "read_from_local_provider E g ca w = Some w'" "bound N ca f g w'" "sent (p_net w') = sent (p_net w)"
    "caa w' ca = (caa w ca)\<lparr>buf_resp := blit 0 t (buf_resp (caa w ca)), nread_resp := length t\<rparr>"
    "calls w' f ca (Some Read_from_consumer_agent) (Some Write_to_consumer_agent)" "\<forall>h. h \<noteq> f \<longrightarrow> pentry w' h = pentry w h"
    "cur_request_id w' = cur_request_id w"
proof -
  let ?c = "caa w ca"
  define c1 where "c1 = ?c\<lparr>buf_resp := blit 0 t (buf_resp ?c), nread_resp := length t\<rparr>"
  define w2 where "w2 = set_caa ca c1 (passed (sent (p_net w)) w)"
  have "caa_ok c1" using boundD(9) [OF b] read(3) by (simp add: caa_ok_def c1_def)
  then have b2: "bound N ca f g w2"
    unfolding w2_def by (intro bound_set_caa bound_passed b) (use boundD [OF b] in \<open>simp_all add: c1_def\<close>)
  obtain el i where u: "p_watch f AE_WRITABLE Write_to_consumer_agent ca w2 = Some (AE_OK, rearmed el i w2)" "bound N ca f g (rearmed el i w2)"
    "events el = (events (p_loop w2))(f := registered AE_WRITABLE Write_to_consumer_agent ca (pentry w2 f))"
    by (rule p_watch_bound [OF b2, of f AE_WRITABLE Write_to_consumer_agent ca]) (simp_all add: ae_masks)
  have fd: "caa_fd c1 = f" using boundD(3) [OF b] by (simp add: c1_def)
  have "read_from_local_provider E g ca w = Some (rearmed el i w2)"
    using boundD(1-4) [OF b] p_read [OF boundD(8) [OF b] read] complete u(1) none fd
    by (simp add: read_from_local_provider_def w2_def c1_def Let_def)
  moreover have "calls (rearmed el i w2) f ca (Some Read_from_consumer_agent) (Some Write_to_consumer_agent)"
    using calls_registered [OF c, of "rearmed el i w2" AE_WRITABLE Write_to_consumer_agent] u(3) by (simp add: w2_def ae_masks)
  ultimately show thesis using that u(2,3) by (simp add: w2_def c1_def)
qed

text \<open>An answer that is written only in part leaves everything but the last byte of the buffer as it was.\<close>

lemma response_sent:
  fixes E :: "pnet env"
  assumes b: "bound N ca f g w" and c: "calls w f ca (Some Read_from_consumer_agent) (Some Write_to_consumer_agent)"
    and out: "assemble_response (buf_resp (caa w ca)) (nread_resp (caa w ca)) = Some (buf, out)" "length buf = PROVIDER_DUBBO_RESP_BUF_SIZE"
    and wr: "env_write E f out (p_net (set_caa ca ((caa w ca)\<lparr>buf_resp := buf\<rparr>) w)) = WrSome n" "n \<le> length out"
  obtains w' where "write_to_consumer_agent E f ca w = Some w'" "bound N ca f g w'"
    "sent (p_net w') = (sent (p_net w))(f := sent (p_net w) f @ take n out)"
    "caa w' ca = (if n = length out then (caa w ca)\<lparr>buf_resp := buf, parser := http_parser_init HTTP_REQUEST, caa_nread_in := 0,
        len_req := 0, nwrite_req := 0, nread_resp := 0, processing := False\<rparr>
      else (caa w ca)\<lparr>buf_resp := buf\<rparr>)"
    "calls w' f ca (Some Read_from_consumer_agent) (if n = length out then None else Some Write_to_consumer_agent)"
    "\<forall>h. h \<noteq> f \<longrightarrow> pentry w' h = pentry w h"
    "cur_request_id w' = cur_request_id w"
proof -
  let ?c = "caa w ca"
  define c0 where "c0 = ?c\<lparr>buf_resp := buf\<rparr>"
  define w1 where "w1 = passed ((sent (p_net w))(f := sent (p_net w) f @ take n out)) (set_caa ca c0 w)"
  have ok0: "caa_ok c0" using boundD(9) [OF b] out(2) by (simp add: caa_ok_def c0_def)
  have b1: "bound N ca f g w1"
    unfolding w1_def by (intro bound_set_caa bound_passed b ok0) (use boundD [OF b] in \<open>simp_all add: c0_def\<close>)
  have sys: "p_sys (sys_write E f out) (set_caa ca c0 w) = (WrSome n, w1)"
    using p_write [of "set_caa ca c0 w" f E out n] boundD(7) [OF b] wr by (simp add: w1_def c0_def)
  have w1: "caa w1 ca = c0" "pentry w1 = pentry w" "sent (p_net w1) = (sent (p_net w))(f := sent (p_net w) f @ take n out)"
    "cur_request_id w1 = cur_request_id w"
    by (simp_all add: w1_def)
  show thesis
  proof (cases "n = length out")
    case True
    obtain el i where u: "p_unwatch f AE_WRITABLE w1 = Some (rearmed el i w1)" "bound N ca f g (rearmed el i w1)"
      "events el = (events (p_loop w1))(f := cleared AE_WRITABLE (pentry w1 f))"
      by (rule p_unwatch_bound [OF b1, of f AE_WRITABLE]) simp
    define c2 where "c2 = c0\<lparr>parser := http_parser_init HTTP_REQUEST, caa_nread_in := 0, len_req := 0, nwrite_req := 0,
                nread_resp := 0, processing := False\<rparr>"
    have b2: "bound N ca f g (set_caa ca c2 (rearmed el i w1))"
      by (rule bound_set_caa [OF u(2)])
        (use ok0 boundD [OF b1] w1(1) in \<open>simp_all add: c2_def caa_ok_def\<close>)
    have "write_to_consumer_agent E f ca w = Some (set_caa ca c2 (rearmed el i w1))"
      using boundD(1-4) [OF b] out(1) sys True u(1) boundD(2) [OF u(2)] w1(1)
      by (simp add: write_to_consumer_agent_def c0_def [symmetric] c2_def Let_def)
    moreover have "calls (set_caa ca c2 (rearmed el i w1)) f ca (Some Read_from_consumer_agent) None"
      using calls_cleared [OF c, of "set_caa ca c2 (rearmed el i w1)"] u(3) w1(2) by simp
    ultimately show thesis using that [of "set_caa ca c2 (rearmed el i w1)"] b2 u(3) True w1 by (simp add: c2_def c0_def)
  next
    case False
    then have "write_to_consumer_agent E f ca w = Some w1"
      using boundD(1-4) [OF b] out(1) sys
      by (simp add: write_to_consumer_agent_def c0_def [symmetric] Let_def)
    moreover have "calls w1 f ca (Some Read_from_consumer_agent) (Some Write_to_consumer_agent)"
      using c w1(2) by (simp add: calls_def)
    ultimately show thesis using that [of w1] b1 False w1 by (simp add: c0_def)
  qed
qed

end
