(* ===== verification/Provider_Props.thy ===== *)
theory Provider_Props
  imports Provider_Steps Pool_Spec
begin

text \<open>
  The properties of the provider agent: a whole exchange, and what becomes of a request that
  arrives in two pieces, of a response that the kernel takes in two pieces, and of a connection
  object after an abort.
\<close>

section \<open>Requests and answers\<close>

text \<open>The fields of a request as a consumer sends them, with the names of the form.\<close>

record fields =
  x_names :: "string \<times> string \<times> string \<times> string"
  x_service :: string
  x_method :: string
  x_type :: string
  x_arg :: string

definition body_of :: "fields \<Rightarrow> string" where
  "body_of x = (let (ks, km, kt, ka) = x_names x in form_text (ks, x_service x) (km, x_method x) (kt, x_type x) (ka, x_arg x))"

definition fields_ok :: "fields \<Rightarrow> bool" where
  "fields_ok x \<longleftrightarrow> (let (ks, km, kt, ka) = x_names x in
     free_of [CHR ''=''] ks \<and> free_of [CHR ''=''] km \<and> free_of [CHR ''=''] kt \<and> free_of [CHR ''=''] ka) \<and>
     free_of [CHR ''&'', CHR 0x0A] (x_service x) \<and> free_of [CHR ''&'', CHR 0x0A] (x_method x) \<and>
     free_of [CHR ''&'', CHR 0x0A] (x_type x) \<and> free_of [CHR 0x0A] (x_arg x) \<and>
     2 * length (x_service x) + length (x_method x) + length (java_type (x_type x)) + length (x_arg x) + 54 \<le> PROVIDER_DUBBO_REQ_BUF_SIZE"

definition call_of :: "u32 \<Rightarrow> fields \<Rightarrow> dubbo_call" where
  "call_of i x = \<lparr>d_id = i, d_service = x_service x, d_method = x_method x, d_type = java_type (x_type x), d_arg = x_arg x\<rparr>"

definition frame_size :: "fields \<Rightarrow> nat" where
  "frame_size x = 2 * length (x_service x) + length (x_method x) + length (java_type (x_type x)) + length (x_arg x) + 53"

lemma body_not_Nil: "body_of x \<noteq> []"
  by (simp add: body_of_def form_text_def split: prod.split)

lemma frame_of_fields:
  assumes "fields_ok x" "length buf = PROVIDER_DUBBO_REQ_BUF_SIZE"
  shows "\<exists>fr. assemble_request i (body_of x @ rest) (length (body_of x)) buf = Some (fr, int (frame_size x)) \<and>
    length fr = PROVIDER_DUBBO_REQ_BUF_SIZE \<and> decode_request (take (frame_size x) fr) = Some (call_of i x)"
proof -
  obtain ks km kt ka where n: "x_names x = (ks, km, kt, ka)" by (metis prod_cases4)
  obtain fr n where f: "assemble_request i (body_of x @ rest) (length (body_of x)) buf = Some (fr, n)"
    "length fr = PROVIDER_DUBBO_REQ_BUF_SIZE" "n = int (frame_size x)" "decode_request (take (nat n) fr) = Some (call_of i x)"
    using request_frame_decodes [of ks km kt ka "x_service x" "x_method x" "x_type x" "x_arg x" buf i rest] assms
    by (auto simp: n fields_ok_def body_of_def call_of_def frame_size_def)
  then show ?thesis by auto
qed

lemma frame_size_fits: "fields_ok x \<Longrightarrow> int (frame_size x) \<le> int PROVIDER_DUBBO_REQ_BUF_SIZE"
  by (simp add: fields_ok_def frame_size_def)

section \<open>An exchange\<close>

text \<open>A connection that waits for the body of a request, of which \<open>n\<close> bytes are to come.\<close>

definition awaits_body :: "int \<Rightarrow> addr \<Rightarrow> fd \<Rightarrow> fd \<Rightarrow> nat \<Rightarrow> provider \<Rightarrow> bool" where
  "awaits_body N ca f g n w \<longleftrightarrow> bound N ca f g w \<and> in_body (parser (caa w ca)) n \<and> \<not> processing (caa w ca) \<and>
     nwrite_req (caa w ca) = 0 \<and> nread_resp (caa w ca) = 0 \<and> calls w f ca (Some Read_from_consumer_agent) None \<and>
     (\<exists>r. calls w g ca r None)"

text \<open>A connection with no request under way, whose read events are registered.\<close>

definition idle_pair :: "int \<Rightarrow> addr \<Rightarrow> fd \<Rightarrow> fd \<Rightarrow> provider \<Rightarrow> bool" where
  "idle_pair N ca f g w \<longleftrightarrow> bound N ca f g w \<and> \<not> processing (caa w ca) \<and> nwrite_req (caa w ca) = 0 \<and> nread_resp (caa w ca) = 0 \<and>
     calls w f ca (Some Read_from_consumer_agent) None \<and> (\<exists>r. calls w g ca r None)"

lemma request_arrives:
  fixes E :: "pnet env"
  assumes b: "idle_pair N ca f g w" and x: "fields_ok x"
    and parse: "delivers Q (length front) (body_of x) s (parser (caa w ca))" "s = front @ body_of x"
    and read: "env_read E f (PROVIDER_HTTP_REQ_BUF_SIZE - caa_nread_in (caa w ca)) (p_net w) = RdData s"
      "length s \<le> PROVIDER_HTTP_REQ_BUF_SIZE - caa_nread_in (caa w ca)"
  obtains w' where "read_from_consumer_agent E f ca w = Some w'" "bound N ca f g w'"
    "decode_request (unsent (caa w' ca)) = Some (call_of (cur_request_id w) x)" "processing (caa w' ca)"
    "nread_resp (caa w' ca) = 0" "cur_request_id w' = cur_request_id w + 1" "sent (p_net w') = sent (p_net w)"
    "calls w' g ca (Some Read_from_local_provider) (Some Write_to_local_provider)" "\<forall>h. h \<noteq> g \<longrightarrow> pentry w' h = pentry w h"
    "caa_nread_in (caa w' ca) = caa_nread_in (caa w ca) + length s" "Q (parser (caa w' ca))"
proof -
  have b0: "bound N ca f g w" and idle: "\<not> processing (caa w ca)" "nwrite_req (caa w ca) = 0" "nread_resp (caa w ca) = 0"
    and c: "\<exists>r. calls w g ca r None"
    using b by (simp_all add: idle_pair_def)
  obtain r where r: "calls w g ca r None" using c by blast
  have ne: "s \<noteq> []" using body_not_Nil parse(2) by simp
  have buf: "length (buf_req (caa w ca)) = PROVIDER_DUBBO_REQ_BUF_SIZE" using boundD(9) [OF b0] by (simp add: caa_ok_def)
  obtain w' fr q' where w': "read_from_consumer_agent E f ca w = Some w'" "bound N ca f g w'"
    "decode_request (take (frame_size x) fr) = Some (call_of (cur_request_id w) x)" "Q q'"
    "caa w' ca = (caa w ca)\<lparr>caa_buf_in := blit (caa_nread_in (caa w ca)) s (caa_buf_in (caa w ca)),
       caa_nread_in := caa_nread_in (caa w ca) + length s,
       processing := True, buf_req := fr, len_req := int (frame_size x), parser := q'\<rparr>"
    "cur_request_id w' = cur_request_id w + 1" "sent (p_net w') = sent (p_net w)"
    "calls w' g ca (Some Read_from_local_provider) (Some Write_to_local_provider)" "\<forall>h. h \<noteq> g \<longrightarrow> pentry w' h = pentry w h"
    by (rule request_taken [OF b0 r idle(1,2) refl read(1) ne read(2) parse frame_of_fields [OF x buf]])
      (use frame_size_fits [OF x] in simp_all)
  then show thesis using that [OF w'(1,2)] idle by (simp add: unsent_def)
qed

lemma awaits_idle: "awaits_body N ca f g n w \<Longrightarrow> idle_pair N ca f g w \<and> in_body (parser (caa w ca)) n"
  by (simp add: awaits_body_def idle_pair_def)

text \<open>Inside a body the next piece of it is handed over.\<close>

lemma body_delivers:
  assumes "in_body q n" "length (body_of x) \<le> n"
  shows "delivers (\<lambda>q'. length (body_of x) < n \<longrightarrow> in_body q' (n - length (body_of x))) (length []) (body_of x) (body_of x) q"
proof (cases "length (body_of x) = n")
  case True
  then show ?thesis using hands_over_last [of q "body_of x"] assms(1) body_not_Nil hands_over_delivers by fastforce
next
  case False
  then have "length (body_of x) < n" using assms(2) by simp
  then show ?thesis
    using hands_over_delivers [OF hands_over_part [OF assms(1) body_not_Nil], of x] in_body_rest [OF assms(1), of "length (body_of x)"] by simp
qed

text \<open>What is read from the provider behind the frame of a call is a whole answer with the value \<open>v\<close>.\<close>

definition answers_call :: "fd \<Rightarrow> dubbo_call \<Rightarrow> string \<Rightarrow> provider \<Rightarrow> pnet env \<Rightarrow> bool" where
  "answers_call g c v w E \<longleftrightarrow> NUL \<notin> set v \<and> length v \<le> 89 \<and>
     (\<forall>fr k n. decode_request fr = Some c \<and> sent n g = sent (p_net w) g @ fr \<longrightarrow>
        (\<exists>hdr st. length hdr = 12 \<and> length st = 2 \<and> env_read E g k n = RdData (answer_frame hdr st v)))"

lemma exchange_completed:
  fixes E :: "pnet env"
  assumes start: "idle_pair N ca f g w" and x: "fields_ok x"
    and parse: "delivers Q (length front) (body_of x) s (parser (caa w ca))" "s = front @ body_of x"
    and request: "env_read E f (PROVIDER_HTTP_REQ_BUF_SIZE - caa_nread_in (caa w ca)) (p_net w) = RdData s"
      "length s \<le> PROVIDER_HTTP_REQ_BUF_SIZE - caa_nread_in (caa w ca)"
    and answers: "answers_call g (call_of (cur_request_id w) x) v w E"
    and writes: "\<And>fd s n. env_write E fd s n = WrSome (length s)"
  shows "\<exists>w1 w2 w3 w4 frame. read_from_consumer_agent E f ca w = Some w1 \<and>
    calls w1 g ca (Some Read_from_local_provider) (Some Write_to_local_provider) \<and> write_to_local_provider E g ca w1 = Some w2 \<and>
    calls w2 g ca (Some Read_from_local_provider) None \<and> read_from_local_provider E g ca w2 = Some w3 \<and>
    calls w3 f ca (Some Read_from_consumer_agent) (Some Write_to_consumer_agent) \<and> write_to_consumer_agent E f ca w3 = Some w4 \<and>
    sent (p_net w4) = (sent (p_net w))(g := sent (p_net w) g @ frame,
       f := sent (p_net w) f @ resp_head @ dec (length v) @ [CHR 0x0D, CHR 0x0A, CHR 0x0D, CHR 0x0A] @ v) \<and>
    decode_request frame = Some (call_of (cur_request_id w) x) \<and> cur_request_id w4 = cur_request_id w + 1 \<and>
    bound N ca f g w4 \<and> \<not> processing (caa w4 ca) \<and> parser (caa w4 ca) = http_parser_init HTTP_REQUEST \<and>
    caa_nread_in (caa w4 ca) = 0 \<and> nwrite_req (caa w4 ca) = 0 \<and> nread_resp (caa w4 ca) = 0 \<and>
    calls w4 f ca (Some Read_from_consumer_agent) None \<and> calls w4 g ca (Some Read_from_local_provider) None"
proof -
  have fg: "f \<noteq> g" and cf: "calls w f ca (Some Read_from_consumer_agent) None"
    using start boundD(6) [of N ca f g w] by (simp_all add: idle_pair_def)
  obtain w1 where w1: "read_from_consumer_agent E f ca w = Some w1" "bound N ca f g w1"
    "decode_request (unsent (caa w1 ca)) = Some (call_of (cur_request_id w) x)" "nread_resp (caa w1 ca) = 0"
    "cur_request_id w1 = cur_request_id w + 1" "sent (p_net w1) = sent (p_net w)"
    "calls w1 g ca (Some Read_from_local_provider) (Some Write_to_local_provider)" "\<forall>h. h \<noteq> g \<longrightarrow> pentry w1 h = pentry w h"
    by (rule request_arrives [OF start x parse request])
  obtain w2 where w2: "write_to_local_provider E g ca w1 = Some w2" "bound N ca f g w2"
    "sent (p_net w2) = (sent (p_net w1))(g := sent (p_net w1) g @ unsent (caa w1 ca))"
    "caa w2 ca = (caa w1 ca)\<lparr>nwrite_req := nwrite_req (caa w1 ca) + length (unsent (caa w1 ca))\<rparr>"
    "calls w2 g ca (Some Read_from_local_provider) None" "\<forall>h. h \<noteq> g \<longrightarrow> pentry w2 h = pentry w1 h"
    "cur_request_id w2 = cur_request_id w1"
    by (rule request_sent [OF w1(2,7) writes order_refl]) simp
  obtain hdr st where t: "length hdr = 12" "length st = 2" "env_read E g PROVIDER_DUBBO_RESP_BUF_SIZE (p_net w2) = RdData (answer_frame hdr st v)"
    using answers w1(3,6) w2(3) unfolding answers_call_def by (metis fun_upd_same)
  have answer: "NUL \<notin> set v" "length v \<le> 89" using answers by (simp_all add: answers_call_def)
  let ?t = "answer_frame hdr st v"
  have none: "nread_resp (caa w2 ca) = 0" using w1(4) w2(4) by simp
  define buf where "buf = blit 0 ?t (buf_resp (caa w2 ca))"
  have lt: "length ?t = length v + 19" using t(1,2) by (simp add: answer_frame_def)
  have lb: "length (buf_resp (caa w2 ca)) = PROVIDER_DUBBO_RESP_BUF_SIZE" using boundD(9) [OF w2(2)] by (simp add: caa_ok_def)
  then have buf: "length buf = PROVIDER_DUBBO_RESP_BUF_SIZE" "take (length v + 19) buf = ?t"
    using lt answer(2) by (simp_all add: buf_def blit_def PROVIDER_DUBBO_RESP_BUF_SIZE_def)
  note resp = response_text [OF t(1,2) answer(1,2) buf]
  have cf2: "calls w2 f ca (Some Read_from_consumer_agent) None" using cf w1(8) w2(6) fg by (simp add: calls_def)
  have fits: "length ?t \<le> PROVIDER_DUBBO_RESP_BUF_SIZE" using lt answer(2) by (simp add: PROVIDER_DUBBO_RESP_BUF_SIZE_def)
  have full: "response_complete (blit 0 ?t (buf_resp (caa w2 ca))) (length ?t)" using resp lt by (simp add: buf_def)
  have ne: "?t \<noteq> []" using lt by auto
  obtain w3 where w3: "read_from_local_provider E g ca w2 = Some w3" "bound N ca f g w3" "sent (p_net w3) = sent (p_net w2)"
    "caa w3 ca = (caa w2 ca)\<lparr>buf_resp := buf, nread_resp := length v + 19\<rparr>"
    "calls w3 f ca (Some Read_from_consumer_agent) (Some Write_to_consumer_agent)" "\<forall>h. h \<noteq> f \<longrightarrow> pentry w3 h = pentry w2 h"
    "cur_request_id w3 = cur_request_id w2"
    by (rule answer_taken [OF w2(2) cf2 none t(3) ne fits full]) (simp add: buf_def lt)
  define out where "out = resp_head @ dec (length v) @ [CHR 0x0D, CHR 0x0A, CHR 0x0D, CHR 0x0A] @ v"
  obtain buf' where buf': "assemble_response (buf_resp (caa w3 ca)) (nread_resp (caa w3 ca)) = Some (buf', out)"
    "length buf' = PROVIDER_DUBBO_RESP_BUF_SIZE"
    using resp buf(1) by (auto simp: w3(4) out_def)
  obtain w4 where w4: "write_to_consumer_agent E f ca w3 = Some w4" "bound N ca f g w4"
    "sent (p_net w4) = (sent (p_net w3))(f := sent (p_net w3) f @ out)"
    "caa w4 ca = (caa w3 ca)\<lparr>buf_resp := buf', parser := http_parser_init HTTP_REQUEST, caa_nread_in := 0,
        len_req := 0, nwrite_req := 0, nread_resp := 0, processing := False\<rparr>"
    "calls w4 f ca (Some Read_from_consumer_agent) None" "\<forall>h. h \<noteq> f \<longrightarrow> pentry w4 h = pentry w3 h"
    "cur_request_id w4 = cur_request_id w3"
    by (rule response_sent [OF w3(2,5) buf' writes order_refl]) simp
  have "calls w4 g ca (Some Read_from_local_provider) None" using w2(5) w3(6) w4(6) fg by (simp add: calls_def)
  moreover have "sent (p_net w4) = (sent (p_net w))(g := sent (p_net w) g @ unsent (caa w1 ca), f := sent (p_net w) f @ out)"
    using w1(6) w2(3) w3(3) w4(3) fg by simp
  moreover have "\<not> processing (caa w4 ca)" "parser (caa w4 ca) = http_parser_init HTTP_REQUEST"
    "caa_nread_in (caa w4 ca) = 0" "nwrite_req (caa w4 ca) = 0" "nread_resp (caa w4 ca) = 0"
    unfolding w4(4) by simp_all
  moreover have "cur_request_id w4 = cur_request_id w + 1" by (simp only: w1(5) w2(7) w3(7) w4(7))
  ultimately show ?thesis
    unfolding out_def [symmetric]
    using w1(1,3,7) w2(1,5) w3(1,5) w4(1,2,5) by blast
qed

text \<open>
  C11: A whole exchange of the provider agent: the body of a request arrives in one piece, the
  provider answers in one piece and the kernel takes what is written. Then the provider received
  one frame that decodes to the call of the request, under the next request number; the consumer
  agent received the HTTP response with exactly the value of the answer; each step is registered by
  the one before it; and the connection is ready for its next request.
\<close>

theorem provider_exchange:
  fixes E :: "pnet env"
  assumes start: "awaits_body N ca f g (length (body_of x)) w" and x: "fields_ok x"
    and request: "\<And>k n. env_read E f k n = RdData (body_of x)"
      "length (body_of x) \<le> PROVIDER_HTTP_REQ_BUF_SIZE - caa_nread_in (caa w ca)"
    and answer: "\<And>k n. env_read E g k n = RdData (answer_frame hdr st v)" "length hdr = 12" "length st = 2" "NUL \<notin> set v" "length v \<le> 89"
    and writes: "\<And>fd s n. env_write E fd s n = WrSome (length s)"
  shows "\<exists>w1 w2 w3 w4 frame. read_from_consumer_agent E f ca w = Some w1 \<and>
    calls w1 g ca (Some Read_from_local_provider) (Some Write_to_local_provider) \<and> write_to_local_provider E g ca w1 = Some w2 \<and>
    calls w2 g ca (Some Read_from_local_provider) None \<and> read_from_local_provider E g ca w2 = Some w3 \<and>
    calls w3 f ca (Some Read_from_consumer_agent) (Some Write_to_consumer_agent) \<and> write_to_consumer_agent E f ca w3 = Some w4 \<and>
    sent (p_net w4) = (sent (p_net w))(g := sent (p_net w) g @ frame,
       f := sent (p_net w) f @ resp_head @ dec (length v) @ [CHR 0x0D, CHR 0x0A, CHR 0x0D, CHR 0x0A] @ v) \<and>
    decode_request frame = Some (call_of (cur_request_id w) x) \<and> cur_request_id w4 = cur_request_id w + 1 \<and>
    bound N ca f g w4 \<and> \<not> processing (caa w4 ca) \<and> parser (caa w4 ca) = http_parser_init HTTP_REQUEST \<and>
    caa_nread_in (caa w4 ca) = 0 \<and> nwrite_req (caa w4 ca) = 0 \<and> nread_resp (caa w4 ca) = 0 \<and>
    calls w4 f ca (Some Read_from_consumer_agent) None \<and> calls w4 g ca (Some Read_from_local_provider) None"
proof -
  have q: "in_body (parser (caa w ca)) (length (body_of x))" "idle_pair N ca f g w" using awaits_idle [OF start] by simp_all
  show ?thesis
    by (rule exchange_completed [OF q(2) x body_delivers [OF q(1) order_refl] _ request _ writes]) (use answer in \<open>auto simp: answers_call_def\<close>)
qed

section \<open>A request in two pieces\<close>

lemma piece_refused:
  fixes E :: "pnet env"
  assumes b: "bound N ca f g w" and busy: "processing (caa w ca)" and q: "in_body (parser (caa w ca)) (length s)" "s \<noteq> []"
    and read: "env_read E f (PROVIDER_HTTP_REQ_BUF_SIZE - caa_nread_in (caa w ca)) (p_net w) = RdData s"
      "length s \<le> PROVIDER_HTTP_REQ_BUF_SIZE - caa_nread_in (caa w ca)"
  obtains w' where "read_from_consumer_agent E f ca w = Some w'" "bound N ca f g w'" "p_loop w' = p_loop w"
    "sent (p_net w') = sent (p_net w)" "unsent (caa w' ca) = unsent (caa w ca)" "caa_nread_in (caa w' ca) = 0"
    "http_errno (parser (caa w' ca)) = HPE_CB_body" "processing (caa w' ca)"
proof -
  let ?c = "caa w ca" let ?base = "caa_nread_in (caa w ca)"
  define c2 where "c2 = ?c\<lparr>caa_buf_in := blit ?base s (caa_buf_in ?c)\<rparr>"
  define w2 where "w2 = set_caa ca c2 (passed (sent (p_net w)) w)"
  have ok: "caa_ok ?c" by (rule boundD(9) [OF b])
  have room: "?base + length s \<le> length (caa_buf_in ?c)" using ok read(2) by (auto simp: caa_ok_def)
  have "caa_ok c2" using ok room by (simp add: caa_ok_def c2_def)
  then have b2: "bound N ca f g w2"
    unfolding w2_def by (intro bound_set_caa bound_passed b) (use boundD [OF b] in \<open>simp_all add: c2_def\<close>)
  have w2: "caa w2 ca = c2" by (simp add: w2_def)
  let ?q = "(parser ?c)\<lparr>content_length := 0, state := s_message_done, http_errno := HPE_CB_body\<rparr>"
  have cb: "on_http_body ca ?base 0 s r (Some w2) = (1, False, Some w2)" for r
    using boundD(2) [OF b2] busy by (simp add: on_http_body_def accept_body_def w2 c2_def)
  have "http_parser_execute (parser_settings ca ?base) s (parser ?c) (Some w2) = Some (length s - 1, ?q, Some w2)"
    by (rule execute_body_refused [where f = "on_http_body ca ?base" and r = 1])
      (use q cb in \<open>simp_all add: parser_settings_def in_body_def\<close>)
  then have fed: "feed_parser ca ?base s w2 = Some (length s - 1, set_caa ca (c2\<lparr>parser := ?q\<rparr>) w2)"
    using boundD(2) [OF b2] by (simp add: feed_parser_def w2) (simp add: c2_def)
  define c4 where "c4 = c2\<lparr>parser := ?q, caa_nread_in := 0\<rparr>"
  have n: "length s - 1 \<noteq> length s" using q(2) by (cases s) auto
  have "caa_ok c4" using ok room by (simp add: caa_ok_def c4_def c2_def)
  then have b4: "bound N ca f g (set_caa ca c4 w2)"
    by (intro bound_set_caa b2) (use boundD [OF b] in \<open>simp_all add: c4_def c2_def w2\<close>)
  have "read_from_consumer_agent E f ca w = Some (set_caa ca c4 w2)"
    using boundD(1-4) [OF b] p_read [OF boundD(7) [OF b] read(1) q(2) read(2)] fed n
    by (simp add: read_from_consumer_agent_def c2_def [symmetric] w2_def [symmetric]) (simp add: c4_def)
  then show thesis
    using that [of "set_caa ca c4 w2"] b4 busy by (simp add: w2_def c4_def c2_def unsent_def)
qed

text \<open>
  C36: A body that arrives in two pieces is not put together: the request made of the first piece alone
  is sent, with the argument cut off where the piece ends, and the second piece is refused and puts
  the parser into an error.
\<close>

theorem split_body_truncated:
  fixes E :: "pnet env"
  assumes start: "awaits_body N ca f g (length (body_of x) + length rest) w" and x: "fields_ok x" and rest: "rest \<noteq> []"
    and read1: "env_read E f (PROVIDER_HTTP_REQ_BUF_SIZE - caa_nread_in (caa w ca)) (p_net w) = RdData (body_of x)"
      "length (body_of x) + length rest \<le> PROVIDER_HTTP_REQ_BUF_SIZE - caa_nread_in (caa w ca)"
    and read2: "\<And>k n. env_read E2 f k n = RdData rest"
  shows "body_of (x\<lparr>x_arg := x_arg x @ rest\<rparr>) = body_of x @ rest \<and>
    (\<exists>w1 w2. read_from_consumer_agent E f ca w = Some w1 \<and> read_from_consumer_agent E2 f ca w1 = Some w2 \<and>
      decode_request (unsent (caa w2 ca)) = Some (call_of (cur_request_id w) x) \<and>
      calls w2 g ca (Some Read_from_local_provider) (Some Write_to_local_provider) \<and> bound N ca f g w2 \<and>
      http_errno (parser (caa w2 ca)) = HPE_CB_body \<and> caa_nread_in (caa w2 ca) = 0)"
proof -
  have len: "length (body_of x) \<le> PROVIDER_HTTP_REQ_BUF_SIZE - caa_nread_in (caa w ca)" using read1(2) by simp
  have q: "in_body (parser (caa w ca)) (length (body_of x) + length rest)" "idle_pair N ca f g w" using awaits_idle [OF start] by simp_all
  obtain w1 where w1: "read_from_consumer_agent E f ca w = Some w1" "bound N ca f g w1"
    "decode_request (unsent (caa w1 ca)) = Some (call_of (cur_request_id w) x)" "processing (caa w1 ca)"
    "calls w1 g ca (Some Read_from_local_provider) (Some Write_to_local_provider)"
    "caa_nread_in (caa w1 ca) = caa_nread_in (caa w ca) + length (body_of x)" "in_body (parser (caa w1 ca)) (length rest)"
    by (rule request_arrives [OF q(2) x body_delivers [OF q(1)] _ read1(1) len]) (use rest in simp_all)
  have fits: "length rest \<le> PROVIDER_HTTP_REQ_BUF_SIZE - caa_nread_in (caa w1 ca)" using read1(2) w1(6) by simp
  obtain w2 where w2: "read_from_consumer_agent E2 f ca w1 = Some w2" "bound N ca f g w2" "p_loop w2 = p_loop w1"
    "unsent (caa w2 ca) = unsent (caa w1 ca)" "caa_nread_in (caa w2 ca) = 0" "http_errno (parser (caa w2 ca)) = HPE_CB_body"
    by (rule piece_refused [OF w1(2,4,7) rest read2 fits])
  have "calls w2 g ca (Some Read_from_local_provider) (Some Write_to_local_provider)" using w1(5) w2(3) by (simp add: calls_def)
  moreover have "body_of (x\<lparr>x_arg := x_arg x @ rest\<rparr>) = body_of x @ rest"
    by (simp add: body_of_def form_text_def field_def split: prod.split)
  ultimately show ?thesis using w1(1,3) w2(1,2,4-6) by auto
qed

section \<open>A response in two writes\<close>

lemma assemble_again: "assemble_response buf n = Some (buf', out) \<Longrightarrow> assemble_response buf' n = Some (buf', out)"
  by (auto simp: assemble_response_def Let_def bind_eq_Some_conv split: if_splits)

lemma assemble_length: "assemble_response buf n = Some (buf', out) \<Longrightarrow> length buf' = length buf"
  by (auto simp: assemble_response_def Let_def bind_eq_Some_conv split: if_splits)


section \<open>An aborted connection\<close>

definition loop_p :: "int \<Rightarrow> provider \<Rightarrow> bool" where
  "loop_p N w \<longleftrightarrow> loop_ok epoll_tracks (p_loop w) (p_net w) \<and> setsize (p_loop w) = N \<and> watch_faults (p_net w) = []"

lemma loop_p_same:
  assumes "loop_p N w" "p_loop w' = p_loop w" "interest (p_net w') = interest (p_net w)"
    "open_fds (p_net w') = open_fds (p_net w)" "watch_faults (p_net w') = watch_faults (p_net w)"
  shows "loop_p N w'"
  using assms by (simp add: loop_p_def loop_ok_kernel [of "p_net w'" "p_net w"])

lemma loop_p_close:
  assumes "loop_p N w" "fe_mask (pentry w fd) = AE_NONE"
  shows "loop_p N (p_close fd w)"
proof -
  have "epoll_tracks (p_net (p_close fd w)) g (fe_mask (pentry w g))" if "0 \<le> g" "g < setsize (p_loop w)" for g
    using assms that by (cases "g = fd") (auto simp: loop_p_def loop_ok_def epoll_tracks_def p_close_def sys_close_def os_close_def)
  then show ?thesis
    using assms(1) by (auto simp: loop_p_def loop_ok_def p_close_def sys_close_def os_close_def)
qed

lemma unwatch_close:
  assumes "loop_p N w" "0 \<le> fd" "fd < N" "\<forall>n \<ge> 2. \<not> bit (fe_mask (pentry w fd)) n"
  obtains el i where "p_unwatch fd (AE_WRITABLE OR AE_READABLE) w = Some (rearmed el i w)" "loop_p N (p_close fd (rearmed el i w))"
    "\<forall>g. g \<noteq> fd \<longrightarrow> events el g = pentry w g"
proof -
  have t: "loop_ok epoll_tracks (p_loop w) (p_net w)" "fd < setsize (p_loop w)" "setsize (p_loop w) = N" "watch_faults (p_net w) = []"
    using assms by (simp_all add: loop_p_def)
  obtain el i where d: "aeDeleteFileEvent epoll_api fd (AE_WRITABLE OR AE_READABLE) (p_loop w) (p_net w) = Some (el, (p_net w)\<lparr>interest := i\<rparr>)"
    "loop_ok epoll_tracks el ((p_net w)\<lparr>interest := i\<rparr>)" "setsize el = setsize (p_loop w)"
    "events el = (events (p_loop w))(fd := cleared (AE_WRITABLE OR AE_READABLE) (pentry w fd))"
    using delete_event [OF t(1) assms(2) t(2), of "AE_WRITABLE OR AE_READABLE"] by blast
  have "loop_p N (rearmed el i w)" using d(2,3) t by (simp add: loop_p_def rearmed_def)
  moreover have "fe_mask (events el fd) = AE_NONE" using all_cleared [OF assms(4)] by (simp add: d(4))
  ultimately have "loop_p N (p_close fd (rearmed el i w))" by (intro loop_p_close) simp_all
  then show thesis using that [of el i] d(1,4) by (simp add: p_unwatch_def rearmed_def)
qed

lemma p_close_simps [simp]:
  "p_loop (p_close fd w) = p_loop w" "caas (p_net (p_close fd w)) = caas (p_net w)" "aps (p_net (p_close fd w)) = aps (p_net w)"
  "open_fds (p_net (p_close fd w)) = (open_fds (p_net w))(fd := False)" "caa_pool (p_close fd w) = caa_pool w"
  "halted (p_net (p_close fd w)) = halted (p_net w)"
  by (simp_all add: p_close_def sys_close_def os_close_def)

lemma abort_bound:
  assumes b: "bound N ca f g w" and pool: "caa_pool w = Some p" "fixed_pool p" "0 < pool_used p"
    and bits: "\<forall>n \<ge> 2. \<not> bit (fe_mask (pentry w f)) n" "\<forall>n \<ge> 2. \<not> bit (fe_mask (pentry w g)) n"
  obtains w1 p1 where "abort_connection_caa ca w = Some w1" "loop_p N w1" "caa w1 ca = (caa w ca)\<lparr>caa_fd := - 1\<rparr>"
    "apfd w1 (conn_ap (caa w ca)) = - 1" "open_fds (p_net w1) = (open_fds (p_net w))(f := False, g := False)"
    "caa_pool w1 = Some p1" "fixed_pool p1" "pool_items p1 = ca # pool_items p" "halted (p_net w1) = halted (p_net w)"
proof -
  let ?c = "caa w ca" let ?a = "conn_ap (caa w ca)"
  have range: "loop_p N w" "0 \<le> f" "f < N" "0 \<le> g" "g < N"
    using boundD(12,13) [OF b] by (simp_all add: watchable_p_def loop_p_def)
  obtain el i where 1: "p_unwatch f (AE_WRITABLE OR AE_READABLE) w = Some (rearmed el i w)" "loop_p N (p_close f (rearmed el i w))"
    "\<forall>g. g \<noteq> f \<longrightarrow> events el g = pentry w g"
    by (rule unwatch_close [OF range(1-3) bits(1)])
  define w3 where "w3 = set_caa ca (?c\<lparr>caa_fd := - 1\<rparr>) (p_close f (rearmed el i w))"
  have l3: "loop_p N w3" by (rule loop_p_same [OF 1(2)]) (simp_all add: w3_def)
  have bits3: "\<forall>n \<ge> 2. \<not> bit (fe_mask (pentry w3 g)) n" using 1(3) bits(2) boundD(6) [OF b] by (simp add: w3_def)
  obtain el2 i2 where 2: "p_unwatch g (AE_WRITABLE OR AE_READABLE) w3 = Some (rearmed el2 i2 w3)" "loop_p N (p_close g (rearmed el2 i2 w3))"
    by (rule unwatch_close [OF l3 range(4,5) bits3])
  define w6 where "w6 = set_ap ?a ((aps (p_net w) ?a)\<lparr>ap_fd := - 1\<rparr>) (p_close g (rearmed el2 i2 w3))"
  have w6: "p_loop w6 = el2" "caa w6 ca = ?c\<lparr>caa_fd := - 1\<rparr>" "apfd w6 ?a = - 1" "caa_pool w6 = Some p"
    "open_fds (p_net w6) = (open_fds (p_net w))(f := False, g := False)" "halted (p_net w6) = halted (p_net w)"
    using pool(1) by (simp_all add: w6_def set_ap_def w3_def) (simp_all add: rearmed_def set_caa_def)
  have l6: "loop_p N w6" by (rule loop_p_same [OF 2(2)]) (simp_all add: w6_def set_ap_def)
  obtain p1 where p1: "PoolReturn p ca (p_net w6) = (p1, p_net w6)" "fixed_pool p1" "pool_items p1 = ca # pool_items p"
    by (rule pool_put [OF pool(2,3) boundD(1) [OF b]])
  have "get_ap ?a w3 = Some (aps (p_net w) ?a)" using boundD(14) [OF b] by (simp add: get_ap_def w3_def)
  then have "abort_connection_caa ca w = Some (w6\<lparr>caa_pool := Some p1\<rparr>)"
    using boundD(2,3,11,14) [OF b] 1(1) 2(1) p1(1) w6(4)
    by (simp add: abort_connection_caa_def w3_def [symmetric] w6_def [symmetric] return_caa_def Let_def)
  moreover have "loop_p N (w6\<lparr>caa_pool := Some p1\<rparr>)" by (rule loop_p_same [OF l6]) simp_all
  ultimately show thesis using that [of "w6\<lparr>caa_pool := Some p1\<rparr>" p1] w6 p1(2,3) by simp
qed

lemma accept_dead:
  assumes "conn_ap (caa w ca) \<noteq> NULL" "apfd w (conn_ap (caa w ca)) < 0" "\<not> processing (caa w ca)" "0 < setsize (p_loop w)"
  shows "accept_body ca off len w = None"
  using assms
  by (auto simp: accept_body_def get_caa_def bind_eq_None_conv watch_provider_def get_ap_def p_watch_def aeCreateFileEvent_def
      set_caa_def)

text \<open>
  C35: An error on a connection of a consumer agent costs the agent its life a little later: the abort
  also closes the connection to the provider and puts the connection object, still bound to it,
  back into the pool, from where the next connection gets it; the first whole request that arrives on
  that connection crashes the agent, whatever its method, headers and body.
\<close>

theorem abort_poisons:
  fixes E :: "pnet env"
  assumes b: "bound N ca f g w" and pool: "caa_pool w = Some p" "fixed_pool p" "0 < pool_used p" "\<not> halted (p_net w)"
    and bits: "\<forall>n \<ge> 2. \<not> bit (fe_mask (pentry w f)) n" "\<forall>n \<ge> 2. \<not> bit (fe_mask (pentry w g)) n"
    and error: "\<And>k n. env_read E f k n = RdErr" and room: "caa_nread_in (caa w ca) < PROVIDER_HTTP_REQ_BUF_SIZE"
  shows "\<exists>w1. read_from_consumer_agent E f ca w = Some w1 \<and> open_fds (p_net w1) = (open_fds (p_net w))(f := False, g := False) \<and>
    (\<forall>E1 fd. env_accept E1 (p_net w1) = Some fd \<and> 0 \<le> fd \<and> fd < N \<and> \<not> open_fds (p_net w1) fd \<longrightarrow>
      (\<exists>w2. accept_tcp E1 w1 = Some w2 \<and> caa_fd (caa w2 ca) = fd \<and> open_fds (p_net w2) fd \<and>
        (\<forall>E2 m cs hs l hs' body. good_request m cs hs l hs' body \<and>
            length (request_head m cs hs l hs' @ body) \<le> PROVIDER_HTTP_REQ_BUF_SIZE \<and>
            (\<forall>k n. env_read E2 fd k n = RdData (request_head m cs hs l hs' @ body)) \<longrightarrow>
          read_from_consumer_agent E2 fd ca w2 = None)))"
proof -
  let ?a = "conn_ap (caa w ca)" let ?k = "PROVIDER_HTTP_REQ_BUF_SIZE - caa_nread_in (caa w ca)"
  define w0 where "w0 = passed (sent (p_net w)) w"
  have "p_sys (sys_read E f ?k) w = (RdErr, w0)"
    using boundD(7) [OF b] error room by (simp add: p_sys_def sys_read_def tock_def passed_def w0_def)
  then have body: "read_from_consumer_agent E f ca w = abort_connection_caa ca w0"
    using boundD(1-4) [OF b] by (simp add: read_from_consumer_agent_def)
  have b0: "bound N ca f g w0" using b by (simp add: w0_def)
  have halt: "\<not> halted (p_net w0)" using pool(4) by (simp add: w0_def passed_def)
  obtain w1 p1 where w1: "abort_connection_caa ca w0 = Some w1" "loop_p N w1" "caa w1 ca = (caa w0 ca)\<lparr>caa_fd := - 1\<rparr>"
    "apfd w1 (conn_ap (caa w0 ca)) = - 1" "open_fds (p_net w1) = (open_fds (p_net w0))(f := False, g := False)"
    "caa_pool w1 = Some p1" "fixed_pool p1" "pool_items p1 = ca # pool_items p" "halted (p_net w1) = halted (p_net w0)"
    by (rule abort_bound [OF b0 _ pool(2,3)]) (use pool(1) bits in \<open>simp_all add: w0_def\<close>)
  have "\<exists>w2. accept_tcp E1 w1 = Some w2 \<and> caa_fd (caa w2 ca) = fd \<and> open_fds (p_net w2) fd \<and>
        (\<forall>E2 m cs hs l hs' body. good_request m cs hs l hs' body \<and>
            length (request_head m cs hs l hs' @ body) \<le> PROVIDER_HTTP_REQ_BUF_SIZE \<and>
            (\<forall>k n. env_read E2 fd k n = RdData (request_head m cs hs l hs' @ body)) \<longrightarrow>
          read_from_consumer_agent E2 fd ca w2 = None)"
    if fd: "env_accept E1 (p_net w1) = Some fd" "0 \<le> fd" "fd < N" "\<not> open_fds (p_net w1) fd" for E1 fd
  proof -
    define v where "v = w1\<lparr>p_net := (p_net w1)\<lparr>open_fds := (open_fds (p_net w1))(fd := True), sent := (sent (p_net w1))(fd := []),
      tick := Suc (tick (p_net w1))\<rparr>\<rparr>"
    have acc: "p_sys (sys_accept E1) w1 = (Some fd, v)" using fd by (simp add: p_sys_def sys_accept_def tock_def v_def)
    have v: "caas (p_net v) = caas (p_net w1)" "aps (p_net v) = aps (p_net w1)" "p_loop v = p_loop w1" "caa_pool v = Some p1"
      "halted (p_net v) = halted (p_net w1)" "open_fds (p_net v) fd"
      using w1(6) by (simp_all add: v_def)
    have "loop_p N v" using w1(2) by (auto simp: loop_p_def loop_ok_def epoll_tracks_def v_def)
    obtain p2 where p2: "PoolGet p1 (p_net v) = (ca, p2, p_net v)"
      using fixed.get_item [OF w1(7), of ca "pool_items p" "p_net v"] w1(8) by auto
    let ?c = "(caa v ca)\<lparr>caa_fd := fd, caa_nread_in := 0, len_req := 0, nwrite_req := 0, nread_resp := 0,
         parser := http_parser_init HTTP_REQUEST, processing := False\<rparr>"
    define w2 where "w2 = set_caa ca ?c (v\<lparr>caa_pool := Some p2\<rparr>)"
    have l2: "loop_p N w2" by (rule loop_p_same [OF \<open>loop_p N v\<close>]) (simp_all add: w2_def)
    have t: "loop_ok epoll_tracks (p_loop w2) (p_net w2)" "watch_faults (p_net w2) = []" "open_fds (p_net w2) fd"
      "fd < setsize (p_loop w2)" "setsize (p_loop w2) = N"
      using l2 fd(3) v(6) by (simp_all add: loop_p_def w2_def)
    obtain el i where c: "aeCreateFileEvent epoll_api fd AE_READABLE Read_from_consumer_agent ca (p_loop w2) (p_net w2) =
        Some (AE_OK, el, (p_net w2)\<lparr>interest := i\<rparr>)" "setsize el = setsize (p_loop w2)"
      using create_event [OF t(1-3) fd(2) t(4), of AE_READABLE Read_from_consumer_agent ca] by (auto simp: ae_masks)
    define w3 where "w3 = rearmed el i w2"
    have ca: "ca \<noteq> NULL" by (rule boundD(1) [OF b])
    have "take_caa v = Some (ca, v\<lparr>caa_pool := Some p2\<rparr>)"
      using v(4,5) p2 w1(9) halt by (simp add: take_caa_def)
    then have "accept_tcp E1 w1 = Some w3"
      using acc ca c(1) by (simp add: accept_tcp_def provider_http_handler_def get_caa_def w2_def p_watch_def rearmed_def w3_def Let_def)
    moreover have w3: "caa w3 ca = ?c" "aps (p_net w3) = aps (p_net w1)" "setsize (p_loop w3) = N" "open_fds (p_net w3) fd"
      using c(2) t(5) v(2,6) by (simp_all add: w3_def w2_def)
    moreover have "read_from_consumer_agent E2 fd ca w3 = None"
      if q: "good_request m cs hs ln hs' body" "length (request_head m cs hs ln hs' @ body) \<le> PROVIDER_HTTP_REQ_BUF_SIZE"
        "\<forall>k n. env_read E2 fd k n = RdData (request_head m cs hs ln hs' @ body)" for E2 m cs hs ln hs' body
    proof -
      let ?h = "length (request_head m cs hs ln hs')"
      define s where "s = request_head m cs hs ln hs' @ body"
      define y where "y = set_caa ca ((caa w3 ca)\<lparr>caa_buf_in := blit 0 s (caa_buf_in (caa w3 ca))\<rparr>) (passed (sent (p_net w3)) w3)"
      have "accept_body ca ?h (length body) y = None"
      proof (rule accept_dead)
        have "conn_ap (caa y ca) = ?a" by (simp add: y_def w3(1) v(1) w1(3) w0_def)
        then show "conn_ap (caa y ca) \<noteq> NULL" "apfd y (conn_ap (caa y ca)) < 0"
          using boundD(14) [OF b] w1(4) w3(2) by (simp_all add: y_def w0_def)
      qed (use w3(3) fd(2,3) in \<open>simp_all add: y_def w3(1)\<close>)
      then have cb: "on_http_body ca 0 ?h body r (Some y) = (0, False, None)" for r by (simp add: on_http_body_def)
      then obtain q' where "http_parser_execute (body_only (on_http_body ca 0)) s (http_parser_init HTTP_REQUEST) (Some y) = Some (length s, q', None)"
        using request_delivers [OF q(1)] unfolding delivers_def s_def by blast
      then have "feed_parser ca 0 s y = None"
        using ca w3(1) by (simp add: feed_parser_def get_caa_def y_def parser_settings_def body_only_def)
      moreover have "s \<noteq> []" using q(1) by (simp add: s_def request_head_def CRLF_def)
      then have "p_sys (sys_read E2 fd PROVIDER_HTTP_REQ_BUF_SIZE) w3 = (RdData s, passed (sent (p_net w3)) w3)"
        by (intro p_read [OF w3(4)]) (use q in \<open>simp_all add: s_def\<close>)
      ultimately show ?thesis
        using ca w3(1) fd(2) by (simp add: read_from_consumer_agent_def get_caa_def y_def)
    qed
    ultimately show ?thesis by (intro exI [of _ w3]) auto
  qed
  then show ?thesis using body w1(1,5) by (auto simp: w0_def)
qed

section \<open>Witnesses\<close>

text \<open>
  An agent that listens on descriptor 3, with a consumer agent connected on descriptor 5 through the
  object 1000, which is bound to the connection to the provider on descriptor 4. The write events
  of the consumer agent are registered or not.
\<close>

definition demo_caa :: connection_caa where
  "demo_caa = \<lparr>caa_fd = 5, caa_buf_in = replicate PROVIDER_HTTP_REQ_BUF_SIZE NUL, caa_nread_in = 0,
     buf_req = replicate PROVIDER_DUBBO_REQ_BUF_SIZE NUL, len_req = 0, nwrite_req = 0,
     buf_resp = replicate PROVIDER_DUBBO_RESP_BUF_SIZE NUL, nread_resp = 0,
     parser = http_parser_init HTTP_REQUEST, processing = False, conn_ap = 500\<rparr>"

definition demo_caa_pool :: "pnet Pool" where
  "demo_caa_pool = (new_Pool 10 2 2 16 None None 0 None None)
     \<lparr>allocated := 2, alloc_stack_size := 1, alloc_stack := 20, empty_stack := 30,
      empty_stack_size := 1, outstanding := 1, max_outstanding := 1,
      bmem := (\<lambda>_. zero_bucket)(20 := \<lparr>pb_data = 2000, pb_flags = 1, pb_next = 0\<rparr>)\<rparr>"

definition demo_mask :: "bool \<Rightarrow> u32" where
  "demo_mask b = (if b then AE_READABLE OR AE_WRITABLE else AE_READABLE)"

definition demo_pnet :: "bool \<Rightarrow> connection_caa \<Rightarrow> pnet" where
  "demo_pnet b c = \<lparr>pending = [], blocks = [], bad_free = False, zeroed = [],
     open_fds = (\<lambda>fd. 3 \<le> fd \<and> fd \<le> 5), interest = (\<lambda>_. None)(3 := Some EPOLLIN, 5 := Some (epoll_events (demo_mask b))),
     watch_faults = [], ready = [], sent = (\<lambda>_. []), tick = 0,
     caas = (\<lambda>_. demo_caa\<lparr>caa_fd := - 1\<rparr>)(1000 := c), aps = (\<lambda>_. \<lparr>ap_fd = - 1\<rparr>)(500 := \<lparr>ap_fd = 4\<rparr>),
     halted = False, ap_pool = None\<rparr>"

definition demo_provider :: "bool \<Rightarrow> connection_caa \<Rightarrow> provider" where
  "demo_provider b c =
     \<lparr>p_loop = \<lparr>maxfd = 5, setsize = 16, events = (\<lambda>_. no_event)
        (3 := \<lparr>fe_mask = AE_READABLE, rfileProc = Some Accept_tcp, wfileProc = None, clientData = 0\<rparr>,
         5 := \<lparr>fe_mask = demo_mask b, rfileProc = Some Read_from_consumer_agent,
               wfileProc = Some Write_to_consumer_agent, clientData = 1000\<rparr>),
        stop = False\<rparr>,
      p_net = demo_pnet b c, caa_pool = Some demo_caa_pool, cur_request_id = 1, etcd_key = []\<rparr>"

lemma demo_provider_at [simp]:
  "caa (demo_provider b c) 1000 = c" "sent (p_net (demo_provider b c)) = (\<lambda>_. [])" "cur_request_id (demo_provider b c) = 1"
  "caa_pool (demo_provider b c) = Some demo_caa_pool" "\<not> halted (p_net (demo_provider b c))"
  "open_fds (p_net (demo_provider b c)) fd \<longleftrightarrow> 3 \<le> fd \<and> fd \<le> 5"
  by (simp_all add: demo_provider_def demo_pnet_def)

lemma demo_bound:
  assumes "caa_ok c" "caa_fd c = 5" "conn_ap c = 500"
  shows "bound 16 1000 5 4 (demo_provider b c)"
proof -
  have "loop_ok epoll_tracks (p_loop (demo_provider b c)) (p_net (demo_provider b c))"
    by (auto simp: loop_ok_def maxfd_ok_def procs_ok_def epoll_tracks_def demo_provider_def demo_pnet_def no_event_def ae_masks
        epoll_events_def EPOLLIN_def demo_mask_def)
  then show ?thesis
    using assms by (simp add: bound_def watchable_p_def) (simp add: demo_provider_def demo_pnet_def)
qed

lemma demo_calls:
  "calls (demo_provider b c) 5 1000 (Some Read_from_consumer_agent) (if b then Some Write_to_consumer_agent else None)"
  "calls (demo_provider b c) 4 1000 None None"
  by (simp_all add: calls_def demo_provider_def no_event_def ae_masks demo_mask_def bit_or_iff)

lemma demo_caa_ok: "caa_ok demo_caa"
  by (simp add: caa_ok_def demo_caa_def)

lemma demo_in_body: "0 < n \<Longrightarrow> n < 2 ^ 64 - 1 \<Longrightarrow>
  in_body ((http_parser_init HTTP_REQUEST)\<lparr>state := s_body_identity, content_length := of_nat n\<rparr>) n"
proof -
  assume n: "0 < n" "n < 2 ^ 64 - 1"
  then have u: "unat (of_nat n :: u64) = n" by (simp add: unsigned_of_nat take_bit_nat_eq_self)
  moreover have "unat ULLONG_MAX = 2 ^ 64 - 1" by (simp add: ULLONG_MAX_def unsigned_minus_1_eq_mask mask_eq_exp_minus_1)
  ultimately have "(of_nat n :: u64) \<noteq> ULLONG_MAX" using n by force
  then show ?thesis using u by (simp add: in_body_def http_parser_init_def)
qed

definition demo_fields :: fields where
  "demo_fields = \<lparr>x_names = (''interface'', ''method'', ''types'', ''parameter''), x_service = ''S'', x_method = ''hash'',
     x_type = encoded_String, x_arg = ''abc''\<rparr>"

lemma demo_fields_ok: "fields_ok demo_fields"
  by (simp add: fields_ok_def demo_fields_def free_of_def encoded_String_def java_type_def java_String_def PROVIDER_DUBBO_REQ_BUF_SIZE_def)

lemma demo_body: "length (body_of demo_fields) = 68"
  by (simp add: body_of_def demo_fields_def form_text_def field_def encoded_String_def)

definition demo_waiting :: "nat \<Rightarrow> connection_caa" where
  "demo_waiting n = demo_caa\<lparr>parser := (http_parser_init HTTP_REQUEST)\<lparr>state := s_body_identity, content_length := of_nat n\<rparr>\<rparr>"

lemma demo_awaits: "0 < n \<Longrightarrow> n < 2 ^ 64 - 1 \<Longrightarrow> awaits_body 16 1000 5 4 n (demo_provider False (demo_waiting n))"
proof -
  assume n: "0 < n" "n < 2 ^ 64 - 1"
  have "caa_ok (demo_waiting n)" using demo_caa_ok by (simp add: caa_ok_def demo_waiting_def)
  then have "bound 16 1000 5 4 (demo_provider False (demo_waiting n))" by (rule demo_bound) (simp_all add: demo_waiting_def demo_caa_def)
  then show ?thesis
    using demo_calls [of False "demo_waiting n"] demo_in_body [OF n] by (auto simp: awaits_body_def demo_waiting_def demo_caa_def)
qed

definition demo_penv :: "string \<Rightarrow> string \<Rightarrow> pnet env" where
  "demo_penv s t = \<lparr>env_read = (\<lambda>fd k n. RdData (if fd = 5 then s else t)), env_write = (\<lambda>fd out n. WrSome (length out)),
     env_accept = (\<lambda>n. Some 6), env_connect = (\<lambda>n. (0, 7)), env_time = (\<lambda>n. 0)\<rparr>"

lemma provider_exchange_witness:
  "\<exists>w1 w2 w3 w4 frame. let E = demo_penv (body_of demo_fields) demo_answer in
     read_from_consumer_agent E 5 1000 (demo_provider False (demo_waiting 68)) = Some w1 \<and> write_to_local_provider E 4 1000 w1 = Some w2 \<and>
     read_from_local_provider E 4 1000 w2 = Some w3 \<and> write_to_consumer_agent E 5 1000 w3 = Some w4 \<and>
     sent (p_net w4) 4 = frame \<and> sent (p_net w4) 5 = resp_head @ dec 2 @ [CHR 0x0D, CHR 0x0A, CHR 0x0D, CHR 0x0A] @ ''42'' \<and>
     decode_request frame = Some \<lparr>d_id = 1, d_service = ''S'', d_method = ''hash'', d_type = java_String, d_arg = ''abc''\<rparr>"
proof -
  have start: "awaits_body 16 1000 5 4 (length (body_of demo_fields)) (demo_provider False (demo_waiting 68))"
    unfolding demo_body by (rule demo_awaits) simp_all
  have "java_type encoded_String = java_String" by (simp add: java_type_def)
  then have call: "call_of 1 demo_fields = \<lparr>d_id = 1, d_service = ''S'', d_method = ''hash'', d_type = java_String, d_arg = ''abc''\<rparr>"
    by (simp add: call_of_def demo_fields_def)
  define E where "E = demo_penv (body_of demo_fields) demo_answer"
  have env: "env_read E 5 k n = RdData (body_of demo_fields)" "env_write E fd out n = WrSome (length out)"
    "env_read E 4 k n = RdData (answer_frame (replicate 12 NUL) [CHR ''1'', CHR 0x0A] ''42'')" for fd k n out
    by (simp_all add: E_def demo_penv_def demo_answer_def)
  have room: "length (body_of demo_fields) \<le> PROVIDER_HTTP_REQ_BUF_SIZE - caa_nread_in (caa (demo_provider False (demo_waiting 68)) 1000)"
    by (simp add: demo_body demo_waiting_def demo_caa_def PROVIDER_HTTP_REQ_BUF_SIZE_def)
  have two: "length ''42'' = 2" by simp
  have parts: "length (replicate 12 NUL) = 12" "length [CHR ''1'', CHR 0x0A] = 2" "NUL \<notin> set ''42''" "length ''42'' \<le> 89"
    by simp_all
  obtain w1 w2 w3 w4 frame where w: "read_from_consumer_agent E 5 1000 (demo_provider False (demo_waiting 68)) = Some w1"
    "write_to_local_provider E 4 1000 w1 = Some w2" "read_from_local_provider E 4 1000 w2 = Some w3"
    "write_to_consumer_agent E 5 1000 w3 = Some w4"
    and s: "sent (p_net w4) = (\<lambda>_. [])(4 := [] @ frame, 5 := [] @ resp_head @ dec 2 @ [CHR 0x0D, CHR 0x0A, CHR 0x0D, CHR 0x0A] @ ''42'')"
      "decode_request frame = Some (call_of 1 demo_fields)"
    using provider_exchange [OF start demo_fields_ok env(1) room env(3) parts env(2)] unfolding demo_provider_at two by blast
  have "sent (p_net w4) 4 = frame" "sent (p_net w4) 5 = resp_head @ dec 2 @ [CHR 0x0D, CHR 0x0A, CHR 0x0D, CHR 0x0A] @ ''42''"
    unfolding s(1) by simp_all
  then show ?thesis unfolding E_def [symmetric] Let_def using w s(2) call by auto
qed

lemma split_body_truncated_witness:
  "\<exists>w1 w2. read_from_consumer_agent (demo_penv (body_of demo_fields) []) 5 1000 (demo_provider False (demo_waiting 71)) = Some w1 \<and>
     read_from_consumer_agent (demo_penv ''def'' []) 5 1000 w1 = Some w2 \<and>
     map_option d_arg (decode_request (unsent (caa w2 1000))) = Some ''abc''"
proof -
  have start: "awaits_body 16 1000 5 4 (length (body_of demo_fields) + length ''def'') (demo_provider False (demo_waiting 71))"
    unfolding demo_body using demo_awaits [of 71] by simp
  have "d_arg (call_of 1 demo_fields) = ''abc''" by (simp add: call_of_def demo_fields_def)
  then show ?thesis
    using split_body_truncated [OF start demo_fields_ok, of "demo_penv (body_of demo_fields) []" "demo_penv ''def'' []"]
    by (auto simp: demo_penv_def demo_body demo_waiting_def demo_caa_def PROVIDER_HTTP_REQ_BUF_SIZE_def)
qed

definition demo_answered :: connection_caa where
  "demo_answered = demo_caa\<lparr>buf_resp := demo_answer @ replicate 235 NUL, nread_resp := 21, processing := True\<rparr>"


lemma demo_caa_pool_ok: "fixed_pool demo_caa_pool" "pool_used demo_caa_pool = 1"
proof -
  have wf: "pool_wf demo_caa_pool [20] [30]"
    by (simp add: pool_wf_def pool_shape_def demo_caa_pool_def new_Pool_def zero_bucket_def)
  then show "fixed_pool demo_caa_pool"
    by (auto simp: fixed_pool_def pool_inv_def demo_caa_pool_def new_Pool_def)
  show "pool_used demo_caa_pool = 1"
    unfolding pool_abs_wf [OF wf] by (simp add: demo_caa_pool_def new_Pool_def)
qed

text \<open>A whole request, and an agent that reads it on every connection.\<close>

definition demo_request :: string where
  "demo_request = demo_head ''68'' @ body_of demo_fields"

lemma demo_request_good: "good_request HTTP_POST [] demo_before (''Content-length'', ''68'') demo_behind (body_of demo_fields)"
proof (rule demo_good(1))
  show "is_length ''68''" by (simp add: is_length_def IS_NUM_def digit_def max_length_def)
  show "decimal 0 ''68'' = length (body_of demo_fields)" by (simp add: demo_body digit_def)
qed (simp_all add: body_not_Nil)

lemma demo_request_length: "length demo_request \<le> 168"
proof -
  have "is_length ''68''" by (simp add: is_length_def IS_NUM_def digit_def max_length_def)
  then have "length (demo_head ''68'') \<le> 100"
    by (rule demo_good(2) [where body = "body_of demo_fields"]) (simp_all add: demo_body digit_def body_not_Nil)
  then show ?thesis by (simp add: demo_request_def demo_body)
qed

text \<open>The read fails, another consumer agent connects on descriptor 6, and its request ends the agent.\<close>

lemma abort_poisons_witness:
  "\<exists>w1 w2. read_from_consumer_agent ((demo_penv [] [])\<lparr>env_read := (\<lambda>fd k n. RdErr)\<rparr>) 5 1000 (demo_provider False demo_caa) = Some w1 \<and>
     accept_tcp (demo_penv [] []) w1 = Some w2 \<and> caa_fd (caa w2 1000) = 6 \<and>
     read_from_consumer_agent ((demo_penv [] [])\<lparr>env_read := (\<lambda>fd k n. RdData demo_request)\<rparr>) 6 1000 w2 = None"
proof -
  have b: "bound 16 1000 5 4 (demo_provider False demo_caa)"
    by (rule demo_bound [OF demo_caa_ok]) (simp_all add: demo_caa_def)
  have bits: "\<not> bit (fe_mask (pentry (demo_provider False demo_caa) fd)) (Suc (Suc n))" for fd n
    by (simp add: demo_provider_def no_event_def ae_masks demo_mask_def)
  have bits: "\<forall>n \<ge> 2. \<not> bit (fe_mask (pentry (demo_provider False demo_caa) fd)) n" for fd
    using bits by (metis Suc_le_D numeral_2_eq_2 Suc_le_mono)
  have room: "caa_nread_in (caa (demo_provider False demo_caa) 1000) < PROVIDER_HTTP_REQ_BUF_SIZE"
    by (simp add: demo_caa_def PROVIDER_HTTP_REQ_BUF_SIZE_def)
  define E where "E = (demo_penv [] [])\<lparr>env_read := (\<lambda>fd k n. RdErr)\<rparr>"
  define E2 where "E2 = (demo_penv [] [])\<lparr>env_read := (\<lambda>fd k n. RdData demo_request)\<rparr>"
  have error: "env_read E 5 k n = RdErr" for k n by (simp add: E_def)
  have used: "0 < pool_used demo_caa_pool" using demo_caa_pool_ok(2) by simp
  let ?dies = "\<lambda>w2 fd. \<forall>E2 m cs hs l hs' body. good_request m cs hs l hs' body \<and>
      length (request_head m cs hs l hs' @ body) \<le> PROVIDER_HTTP_REQ_BUF_SIZE \<and>
      (\<forall>k n. env_read E2 fd k n = RdData (request_head m cs hs l hs' @ body)) \<longrightarrow> read_from_consumer_agent E2 fd 1000 w2 = None"
  obtain w1 where w1: "read_from_consumer_agent E 5 1000 (demo_provider False demo_caa) = Some w1"
    "open_fds (p_net w1) = (open_fds (p_net (demo_provider False demo_caa)))(5 := False, 4 := False)"
    "\<forall>E1 fd. env_accept E1 (p_net w1) = Some fd \<and> 0 \<le> fd \<and> fd < 16 \<and> \<not> open_fds (p_net w1) fd \<longrightarrow>
      (\<exists>w2. accept_tcp E1 w1 = Some w2 \<and> caa_fd (caa w2 1000) = fd \<and> open_fds (p_net w2) fd \<and> ?dies w2 fd)"
    using abort_poisons [OF b demo_provider_at(4) demo_caa_pool_ok(1) used demo_provider_at(5) bits bits error room] by (elim exE conjE) rule
  have "env_accept (demo_penv [] []) (p_net w1) = Some 6" "\<not> open_fds (p_net w1) 6" by (simp_all add: demo_penv_def w1(2))
  then obtain w2 where w2: "accept_tcp (demo_penv [] []) w1 = Some w2" "caa_fd (caa w2 1000) = 6" "?dies w2 6"
    using w1(3) [rule_format, of "demo_penv [] []" 6] by auto
  have "read_from_consumer_agent E2 6 1000 w2 = None"
    by (rule w2(3) [rule_format, OF conjI [OF demo_request_good]])
      (use demo_request_length in \<open>simp add: E2_def demo_request_def demo_head_def PROVIDER_HTTP_REQ_BUF_SIZE_def\<close>)
  then show ?thesis using w1(1) w2(1,2) unfolding E_def E2_def by blast
qed

end
