(* ===== verification/Http_Frame.thy ===== *)
theory Http_Frame
  imports Http_Loop
begin

text \<open>
  What the parser does with the state of its user: nothing, apart from calling the callbacks. So what
  every callback keeps, a whole call of the parser keeps.
\<close>

definition callbacks_keep :: "('u \<Rightarrow> bool) \<Rightarrow> 'u http_parser_settings \<Rightarrow> bool" where
  "callbacks_keep P S \<longleftrightarrow>
     (\<forall>n f q u. notify_handler S n = Some f \<longrightarrow> P u \<longrightarrow> P (snd (snd (f q u)))) \<and>
     (\<forall>m f at s q u. data_handler S m = Some f \<longrightarrow> P u \<longrightarrow> P (snd (snd (f at s q u)))) \<and>
     (\<forall>f q u. on_headers_complete S = Some f \<longrightarrow> P u \<longrightarrow> P (snd (snd (f q u))))"

definition user_ok :: "('u \<Rightarrow> bool) \<Rightarrow> 'u res \<Rightarrow> bool" where
  "user_ok P r = (case r of Next c \<Rightarrow> P (usr c) | Again c \<Rightarrow> P (usr c) | Err c \<Rightarrow> P (usr c) | Ret n c \<Rightarrow> P (usr c) | Abort \<Rightarrow> True)"

lemma user_ok_simps [simp]:
  "user_ok P (Next c) = P (usr c)" "user_ok P (Again c) = P (usr c)" "user_ok P (Err c) = P (usr c)"
  "user_ok P (Ret n c) = P (usr c)" "user_ok P Abort"
  by (simp_all add: user_ok_def)

lemma usr_simps [simp]:
  "usr (upd f c) = usr c" "usr (UPDATE_STATE s c) = usr c" "usr (set_header_state h c) = usr c" "usr (save_state c) = usr c"
  "usr (MARK m c) = usr c" "usr (clear_mark m c) = usr c" "usr (SET_ERRNO e c) = usr c" "usr (new_message c) = usr c"
  by (simp_all add: cfg_simps)

lemma run_callback_usr: "usr (run_callback f e c) = snd (snd (f (hp (save_state c)) (usr c)))"
  by (simp add: run_callback_def Let_def split: prod.split)

lemma NOTIFY_user:
  assumes "callbacks_keep P S" "P (usr c)" "\<And>c'. P (usr c') \<Longrightarrow> user_ok P (k c')"
  shows "user_ok P (CALLBACK_NOTIFY_ER S n er c k)"
proof -
  have "P (usr (run_callback f e c))" if "notify_handler S n = Some f" for f e
    using assms(1,2) that unfolding run_callback_usr callbacks_keep_def by blast
  then show ?thesis using assms(2,3) by (auto simp: CALLBACK_NOTIFY_ER_def Let_def split: option.split)
qed

lemma DATA_user:
  assumes "callbacks_keep P S" "P (usr c)" "\<And>c'. P (usr c') \<Longrightarrow> user_ok P (k c')"
  shows "user_ok P (CALLBACK_DATA_LEN S data m stop er c k)"
proof -
  have "P (usr (run_callback (f at s) e c))" if "data_handler S m = Some f" for f at s e
    using assms(1,2) that unfolding run_callback_usr callbacks_keep_def by blast
  then show ?thesis using assms(2,3) by (auto simp: CALLBACK_DATA_LEN_def Let_def split: option.split)
qed

lemma COUNT_user:
  assumes "P (usr c)" "\<And>c'. P (usr c') \<Longrightarrow> user_ok P (k c')"
  shows "user_ok P (COUNT_HEADER_SIZE v c k)"
  using assms by (simp add: COUNT_HEADER_SIZE_def fail_def Let_def)

lemmas user_rules = option_rule [where Q = "user_ok P" for P] fail_rule [where Q = "user_ok P" for P] RETURN_rule [where Q = "user_ok P" for P]
  STRICT_CHECK_rule [where Q = "user_ok P" for P] if_rule [where Q = "user_ok P" for P] Let_rule [where Q = "user_ok P" for P]
  ASSERT_rule [where Q = "user_ok P" for P] COUNT_user

section \<open>Every case keeps what the callbacks keep\<close>

locale keeping =
  fixes P :: "'u \<Rightarrow> bool" and S :: "'u http_parser_settings"
  assumes keep: "callbacks_keep P S"
begin

lemmas rules = user_rules NOTIFY_user [OF keep] DATA_user [OF keep]

lemma user_start:
  assumes "P (usr c)"
  shows "user_ok P (case_dead c)" "user_ok P (case_start_req_or_res S c)" "user_ok P (case_res_or_resp_H c)"
    "user_ok P (case_start_res S c)" "user_ok P (case_expect ch s c)" "user_ok P (case_http_major s c)"
    "user_ok P (case_http_dot s c)" "user_ok P (case_http_minor s c)" "user_ok P (case_res_http_end c)"
    "user_ok P (case_res_first_status_code c)" "user_ok P (case_res_status_code c)" "user_ok P (case_res_status_start c)"
    "user_ok P (case_res_status S data c)"
  unfolding case_dead_def case_start_req_or_res_def case_res_or_resp_H_def case_start_res_def
    case_expect_def case_http_major_def case_http_dot_def case_http_minor_def case_res_http_end_def
    case_res_first_status_code_def case_res_status_code_def case_res_status_start_def
    case_res_status_def CALLBACK_NOTIFY_def CALLBACK_DATA_def
  by (intro rules; use assms in simp)+

lemma user_url_step: "P (usr c) \<Longrightarrow> user_ok P (url_step c)"
  unfolding url_step_def by (intro rules; simp)

lemma user_request:
  assumes "P (usr c)"
  shows "user_ok P (case_start_req S c)" "user_ok P (case_req_method c)" "user_ok P (case_req_spaces_before_url c)"
    "user_ok P (case_req_schema c)" "user_ok P (case_req_url S data c)" "user_ok P (case_req_http_start c)"
    "user_ok P (case_req_http_end c)" "user_ok P (case_req_line_almost_done c)"
  unfolding case_start_req_def case_req_method_def case_req_spaces_before_url_def case_req_schema_def case_req_url_def
    case_req_http_start_def case_req_http_end_def case_req_line_almost_done_def CALLBACK_NOTIFY_def CALLBACK_DATA_def
  by (intro rules user_url_step; use assms in simp)+

lemma hf_loop_usr: "hf_loop data c = Some c' \<Longrightarrow> usr c' = usr c"
proof (induction data c rule: hf_loop.induct)
  case (1 data c)
  show ?case
  proof (cases "length data \<le> pos c \<or> TOKEN (data ! pos c) = NUL")
    case True
    then show ?thesis using 1(2) by (subst (asm) hf_loop.simps) (auto split: if_splits)
  next
    case False
    obtain q where q: "hf_step (data ! pos c) (TOKEN (data ! pos c)) (hp c) = Some q"
      using 1(2) False by (subst (asm) hf_loop.simps) (auto simp: Let_def split: option.splits)
    have "hf_loop data (c\<lparr>chr := data ! pos c, hp := q, pos := pos c + 1\<rparr>) = Some c'"
      using 1(2) False q by (subst (asm) hf_loop.simps) (simp add: Let_def)
    then show ?thesis using 1(1) [OF _ refl refl _ q] False by simp
  qed
qed

lemma hv_step_usr: "hv_step data h c = Inl (h', c') \<Longrightarrow> usr c' = usr c"
  by (cases h) (auto simp: hv_step_def Let_def match_value_def length_digit_def connection_end_def split: if_splits)

lemma hv_step_Inr_usr: "hv_step data h c = Inr r \<Longrightarrow> P (usr c) \<Longrightarrow> user_ok P r"
  by (cases h) (auto simp: hv_step_def Let_def length_digit_def fail_def split: if_splits)

lemma user_hv_after: "P (usr c) \<Longrightarrow> user_ok P (hv_after data start h c)"
  unfolding hv_after_def by (intro rules; simp)

lemma user_hv_loop: "P (usr c) \<Longrightarrow> user_ok P (hv_loop S data lenient start h c)"
proof (induction "length data - pos c" arbitrary: h c rule: less_induct)
  case less
  let ?c = "c\<lparr>chr := data ! pos c\<rparr>"
  show ?case
  proof (cases "length data \<le> pos c")
    case True
    then show ?thesis using less(2) by (subst hv_loop.simps) (simp add: user_hv_after)
  next
    case False
    have step: "user_ok P (case hv_step data h ?c of Inr r \<Rightarrow> r
        | Inl (h', c2) \<Rightarrow> hv_loop S data lenient start h' (c2\<lparr>pos := pos c2 + 1\<rparr>))"
      if "data ! pos c \<noteq> CR" "data ! pos c \<noteq> LF"
    proof (cases "hv_step data h ?c")
      case (Inl a)
      obtain h' c2 where a: "a = (h', c2)" by (cases a)
      have "pos c \<le> pos c2" "pos c2 < length data" using hv_step_pos [of data h ?c h' c2] Inl a False that by simp_all
      moreover have "usr c2 = usr c" using hv_step_usr [of data h ?c h' c2] Inl a by simp
      ultimately show ?thesis using less(1) [of "c2\<lparr>pos := pos c2 + 1\<rparr>" h'] less(2) Inl a by simp
    next
      case (Inr r)
      then show ?thesis using hv_step_Inr_usr [of data h ?c r] less(2) by simp
    qed
    show ?thesis
      using False less(2) step
      by (subst hv_loop.simps, unfold CALLBACK_DATA_def CALLBACK_DATA_NOADVANCE_def)
        (simp only: if_False, intro rules user_hv_after; simp)
  qed
qed

lemma user_value_start: "P (usr c) \<Longrightarrow> user_ok P (case_header_value_start c)"
  unfolding case_header_value_start_def by (cases "header_state (hp c)"; simp add: Let_def fail_def)

lemma user_header:
  assumes "P (usr c)"
  shows "user_ok P (case_header_field_start c)" "user_ok P (case_header_field S data c)" "user_ok P (case_header_value_discard_ws c)"
    "user_ok P (case_header_value S data lenient c)" "user_ok P (case_header_almost_done c)" "user_ok P (case_header_value_lws c)"
    "user_ok P (case_header_value_discard_lws S data c)"
proof -
  have "P (usr c1)" if "hf_loop data c = Some c1" for c1 using hf_loop_usr [OF that] assms by simp
  then show "user_ok P (case_header_field S data c)"
    unfolding case_header_field_def CALLBACK_DATA_def by (intro rules; use assms in simp)
  show "user_ok P (case_header_value S data lenient c)" unfolding case_header_value_def by (rule user_hv_loop [OF assms])
qed (unfold case_header_field_start_def case_header_value_discard_ws_def case_header_almost_done_def case_header_value_lws_def
     case_header_value_discard_lws_def CALLBACK_DATA_NOADVANCE_def; intro rules user_value_start; use assms in simp)+

lemma user_headers_complete:
  assumes "P (usr c)"
  shows "user_ok P (headers_complete S c)"
proof (cases "on_headers_complete S")
  case None
  then show ?thesis using assms by (simp add: headers_complete_def headers_complete_tail_def RETURN_def)
next
  case (Some f)
  obtain r b u where f: "f (hp c) (usr c) = (r, b, u)" by (metis prod_cases3)
  then have "P u" using keep Some assms unfolding callbacks_keep_def by (metis snd_conv)
  then show ?thesis
    using Some f by (auto simp: headers_complete_def headers_complete_tail_def Let_def RETURN_def)
qed

lemma consume_usr [simp]: "usr (consume data c) = usr c"
  by (simp add: consume_def Let_def)

lemma user_body:
  assumes "P (usr c)"
  shows "user_ok P (case_headers_almost_done S c)" "user_ok P (case_headers_done S c)" "user_ok P (case_body_identity S data c)"
    "user_ok P (case_body_identity_eof data c)" "user_ok P (case_message_done S c)" "user_ok P (case_chunk_size_start c)"
    "user_ok P (case_chunk_size c)" "user_ok P (case_chunk_parameters c)" "user_ok P (case_chunk_size_almost_done S c)"
    "user_ok P (case_chunk_data data c)" "user_ok P (case_chunk_data_almost_done S data c)" "user_ok P (case_chunk_data_done S c)"
  unfolding case_headers_almost_done_def case_headers_done_def case_body_identity_def case_body_identity_eof_def
    case_message_done_def case_chunk_size_start_def case_chunk_size_def case_chunk_parameters_def
    case_chunk_size_almost_done_def case_chunk_data_def case_chunk_data_almost_done_def case_chunk_data_done_def
    CALLBACK_NOTIFY_def CALLBACK_NOTIFY_NOADVANCE_def CALLBACK_DATA_def
  by ((intro rules user_headers_complete)?; use assms in simp)+

section \<open>The whole call\<close>

lemma user_switch: "P (usr c) \<Longrightarrow> user_ok P (http_switch S data lenient c)"
  using user_start user_request user_header user_value_start user_body unfolding http_switch_def by (cases "cur c") simp_all

lemma user_reexecute: "P (usr c) \<Longrightarrow> user_ok P (reexecute S data lenient c)"
proof (induction "rank (cur c)" arbitrary: c rule: less_induct)
  case less
  show ?case
  proof (cases "http_switch S data lenient c")
    case (Again c')
    have "rank (cur c') < rank (cur c)" using http_switch_progress [of data c S lenient] Again by simp
    moreover have "P (usr c')" using user_switch [OF less(2), of data lenient] Again by simp
    ultimately show ?thesis using less(1) Again by (subst reexecute.simps) simp
  qed (use user_switch [OF less(2), of data lenient] in \<open>subst reexecute.simps, simp\<close>)+
qed

lemma user_one_byte: "P (usr c) \<Longrightarrow> user_ok P (one_byte S data lenient c)"
  by (auto simp: one_byte_def count_byte_def COUNT_HEADER_SIZE_def fail_def Let_def intro!: user_reexecute)

lemma user_exec_loop: "P (usr c) \<Longrightarrow> user_ok P (exec_loop S data lenient c)"
proof (induction "length data - pos c" arbitrary: c rule: less_induct)
  case less
  show ?case
  proof (cases "length data \<le> pos c")
    case True
    then show ?thesis using less(2) by (subst exec_loop.simps) simp
  next
    case False
    show ?thesis
    proof (cases "one_byte S data lenient c")
      case (Next c')
      have "pos c \<le> pos c'" using one_byte_progress [of c data S lenient] Next False by simp
      moreover have "P (usr c')" using user_one_byte [OF less(2), of data lenient] Next by simp
      ultimately show ?thesis
        using less(1) [of "c'\<lparr>pos := pos c' + 1\<rparr>"] Next False by (subst exec_loop.simps) simp
    qed (use user_one_byte [OF less(2), of data lenient] False in \<open>subst exec_loop.simps, simp\<close>)+
  qed
qed

lemma user_exec_end: "P (usr c) \<Longrightarrow> user_ok P (exec_end S data c)"
  unfolding exec_end_def CALLBACK_DATA_NOADVANCE_def by (intro rules; simp)

lemma user_exec_eof: "P (usr c) \<Longrightarrow> user_ok P (exec_eof S c)"
  unfolding exec_eof_def CALLBACK_NOTIFY_NOADVANCE_def by (intro rules; simp)

lemma execute_keeps:
  assumes "http_parser_execute S data q u = Some (n, q', u')" "P u"
  shows "P u'"
proof -
  let ?c = "exec_start q u"
  have start: "P (usr (?c\<lparr>marks := m\<rparr>))" "P (usr ?c)" for m using assms(2) by (simp_all add: exec_start_def)
  have "user_ok P (case exec_loop S data (lenient_http_headers q) (?c\<lparr>marks := initial_marks (state q)\<rparr>) of
      Next c1 \<Rightarrow> exec_end S data c1 | r \<Rightarrow> r)"
    using user_exec_loop [OF start(1) [of "initial_marks (state q)"], of data "lenient_http_headers q"] user_exec_end
    by (auto split: res.split)
  then have "user_ok P (execute_res S data q u)"
    using start(2) user_exec_eof by (simp add: execute_res_def Let_def)
  then show ?thesis
    using assms(1) by (auto simp: http_parser_execute_def Let_def split: res.splits if_splits)
qed

end

end
