(* ===== verification/Pool_Frame.thy ===== *)
theory Pool_Frame
  imports Pool
begin

text \<open>
  What the pool does with the state of the program: nothing, apart from its callbacks and the
  allocator. So a relation that they keep from state to state holds of whole operations of the pool.
\<close>

definition pool_frames :: "('a libc_scheme \<Rightarrow> 'a libc_scheme \<Rightarrow> bool) \<Rightarrow> 'a libc_scheme Pool \<Rightarrow> bool" where
  "pool_frames R p \<longleftrightarrow> (\<forall>f w. Alloc p = Some f \<longrightarrow> R w (snd (f w))) \<and> (\<forall>a d w. R w (snd (Init p a d w))) \<and>
     (\<forall>f a w. Cleanup p = Some f \<longrightarrow> R w (f a w)) \<and> (\<forall>f a w. Free p = Some f \<longrightarrow> R w (f a w))"

lemma pool_frames_same:
  "pool_frames R p \<Longrightarrow> Alloc p' = Alloc p \<Longrightarrow> Init p' = Init p \<Longrightarrow> Cleanup p' = Cleanup p \<Longrightarrow> Free p' = Free p \<Longrightarrow> pool_frames R p'"
  by (simp add: pool_frames_def)

locale pool_frame =
  fixes R :: "'a libc_scheme \<Rightarrow> 'a libc_scheme \<Rightarrow> bool"
  assumes refl: "R w w" and trans: "R w w' \<Longrightarrow> R w' w'' \<Longrightarrow> R w w''"
    and malloc: "R w (snd (c_malloc k w))" and free: "R w (c_free a w)"
begin

lemma run_frames:
  assumes "pool_frames R p"
  shows "R w (snd (run_alloc p w))" "R w (snd (Init p a d w))" "R w (run_cleanup p a w)" "R w (run_free p a w)"
  using assms malloc free refl by (auto simp: pool_frames_def run_alloc_def run_cleanup_def run_free_def split: option.split)

lemma cleaned: "pool_frames R p \<Longrightarrow> R w w' \<Longrightarrow> R w (run_free p a (run_cleanup p a w'))"
  using trans [OF trans [OF _ run_frames(3)] run_frames(4)] by blast

lemma PoolGet_frames:
  assumes "pool_frames R p" "PoolGet p w = (a, p', w')"
  shows "pool_frames R p' \<and> R w w'"
proof -
  obtain x w1 where 1: "run_alloc p w = (x, w1)" by (cases "run_alloc p w")
  obtain r w2 where 2: "Init p x (InitData p) w1 = (r, w2)" by (cases "Init p x (InitData p) w1")
  have w1: "R w w1" using run_frames(1) [OF assms(1), of w] 1 by simp
  have w2: "R w w2" using trans [OF w1] run_frames(2) [OF assms(1), of w1 x "InitData p"] 2 by simp
  show ?thesis
    using assms(2) 1 2 refl w1 w2 cleaned [OF assms(1) w2]
    by (auto simp: PoolGet_def count_out_def Let_def split: if_splits intro: pool_frames_same [OF assms(1)])
qed

lemma PoolReturn_frames:
  assumes "pool_frames R p" "PoolReturn p a w = (p', w')"
  shows "pool_frames R p' \<and> R w w'"
proof -
  let ?p = "p\<lparr>allocated := allocated p - 1, outstanding := outstanding p - 1\<rparr>"
  have "pool_frames R ?p" by (rule pool_frames_same [OF assms(1)]) simp_all
  then show ?thesis
    using assms(2) refl run_frames(3) [of ?p w a] cleaned [of ?p w w a]
    by (auto simp: PoolReturn_def Let_def split: if_splits intro: pool_frames_same [OF assms(1)])
qed

section \<open>Filling a pool\<close>

lemma prealloc_unlimited_frames:
  assumes "pool_frames R p" "prealloc_unlimited p w = (True, p', w')"
  shows "pool_frames R p' \<and> R w w'"
proof -
  obtain b w1 where 1: "c_malloc (nat sizeof_PoolBucket) w = (b, w1)" by (cases "c_malloc (nat sizeof_PoolBucket) w")
  let ?p = "p\<lparr>bmem := (bmem p)(b := zero_bucket)\<rparr>"
  have f: "pool_frames R ?p" by (rule pool_frames_same [OF assms(1)]) simp_all
  obtain d w2 where 2: "run_alloc ?p w1 = (d, w2)" by (cases "run_alloc ?p w1")
  obtain r w3 where 3: "Init ?p d (InitData ?p) w2 = (r, w3)" by (cases "Init ?p d (InitData ?p) w2")
  have "R w w1" "R w1 w2" "R w2 w3"
    using malloc [of w "nat sizeof_PoolBucket"] run_frames(1) [OF f, of w1] run_frames(2) [OF f, of w2 d "InitData ?p"] 1 2 3 by simp_all
  then have "R w w3" using trans by blast
  then show ?thesis
    using assms(2) 1 2 3 by (auto simp: prealloc_unlimited_def Let_def split: if_splits intro: pool_frames_same [OF assms(1)])
qed

lemma prealloc_bounded_frames:
  assumes "pool_frames R p" "prealloc_bounded i p w = (True, p', w')"
  shows "pool_frames R p' \<and> R w w'"
  using assms(2) run_frames(2) [OF assms(1), of w "data_buffer p + uint (i * elt_size p)" "InitData p"]
  by (auto simp: prealloc_bounded_def Let_def split: if_splits prod.splits intro: pool_frames_same [OF assms(1)])

lemma prealloc_loop_frames: "pool_frames R p \<Longrightarrow> prealloc_loop n i p w = (True, p', w') \<Longrightarrow> pool_frames R p' \<and> R w w'"
proof (induction n arbitrary: i p w)
  case (Suc n)
  let ?r = "if max_buckets p = 0 then prealloc_unlimited p w else prealloc_bounded i p w"
  obtain ok p1 w1 where r: "?r = (ok, p1, w1)" by (metis prod_cases3)
  then have run: "?r = (True, p1, w1)" "prealloc_loop n (i + 1) p1 w1 = (True, p', w')"
    using Suc.prems(2) by (cases ok; simp)+
  have "pool_frames R p1 \<and> R w w1"
    using run(1) prealloc_unlimited_frames [OF Suc.prems(1)] prealloc_bounded_frames [OF Suc.prems(1)] by (auto split: if_splits)
  then show ?case using Suc.IH [OF _ run(2)] trans by blast
qed (simp add: refl)

lemma fill_empty_callbacks:
  "Alloc (fill_empty n b p) = Alloc p" "Init (fill_empty n b p) = Init p" "Cleanup (fill_empty n b p) = Cleanup p" "Free (fill_empty n b p) = Free p"
  by (induction n arbitrary: b p) simp_all

lemma PoolInit_frames:
  assumes "PoolInit sz pre es al ini d cl fr w = Some (Some p, w')" "\<And>a. pool_frames R (new_Pool a sz pre es al ini d cl fr)"
  shows "pool_frames R p \<and> R w w'"
proof -
  let ?m = "\<lambda>b k w. if b then c_malloc k w else (NULL, w)"
  obtain a w1 where 1: "c_malloc sizeof_Pool w = (a, w1)" by (cases "c_malloc sizeof_Pool w")
  obtain pb w2 where 2: "?m (sz > 0) (unat sz * nat sizeof_PoolBucket) w1 = (pb, w2)" by (cases "?m (sz > 0) (unat sz * nat sizeof_PoolBucket) w1")
  obtain db w3 where 3: "?m (sz > 0) (unat pre * unat es) w2 = (db, w3)" by (cases "?m (sz > 0) (unat pre * unat es) w2")
  have step: "R w1 w2" "R w2 w3"
    using malloc refl 2 3 by (metis snd_conv)+
  then have R: "R w w3" using malloc [of w sizeof_Pool] 1 trans by (metis snd_conv)
  let ?p0 = "new_Pool a sz pre es al ini d cl fr"
  let ?p2 = "(if sz > 0 then fill_empty (unat sz) pb (?p0\<lparr>pb_buffer := pb\<rparr>) else ?p0)\<lparr>data_buffer := db\<rparr>"
  have run: "prealloc_loop (unat pre) 0 ?p2 w3 = (True, p, w')"
    using assms(1) 1 2 3 unfolding PoolInit_def by (auto simp: Let_def split: if_splits prod.splits bool.splits)
  have "pool_frames R ?p2" by (rule pool_frames_same [OF assms(2) [of a]]) (simp_all add: fill_empty_callbacks)
  then show ?thesis using prealloc_loop_frames [OF _ run] R trans by blast
qed

end

end
