(* ===== verification/Provider_Types.thy ===== *)
theory Provider_Types
  imports Provider_Props Http_Frame Pool_Frame
begin

text \<open>
  The shape of the connection objects of a provider agent: buffers of their declared sizes, cursors
  inside them, a parser that can go on. Every handler keeps it, whatever the kernel, the consumer
  agents and the provider do, failed registrations and aborted connections included.
\<close>

section \<open>The shape\<close>

definition sized_caa :: "connection_caa \<Rightarrow> bool" where
  "sized_caa c \<longleftrightarrow> length (caa_buf_in c) = PROVIDER_HTTP_REQ_BUF_SIZE \<and> length (buf_req c) = PROVIDER_DUBBO_REQ_BUF_SIZE \<and>
     length (buf_resp c) = PROVIDER_DUBBO_RESP_BUF_SIZE"

definition typed_caa :: "connection_caa \<Rightarrow> bool" where
  "typed_caa c \<longleftrightarrow> sized_caa c \<and> caa_nread_in c \<le> PROVIDER_HTTP_REQ_BUF_SIZE \<and> nread_resp c \<le> PROVIDER_DUBBO_RESP_BUF_SIZE \<and>
     int (nwrite_req c) \<le> len_req c \<and> len_req c \<le> int PROVIDER_DUBBO_REQ_BUF_SIZE \<and> (\<not> processing c \<longrightarrow> len_req c = 0) \<and>
     parser_wf (parser c)"

text \<open>
  The callbacks of the pool change nothing of the objects but which connection they are bound to, as
  long as those of the inner pool do not touch the objects at all.
\<close>

definition caas_kept :: "psock \<Rightarrow> psock \<Rightarrow> bool" where
  "caas_kept s s' \<longleftrightarrow> caas s' = caas s"

definition aps_framed :: "pnet \<Rightarrow> bool" where
  "aps_framed n \<longleftrightarrow> (\<forall>p. ap_pool n = Some p \<longrightarrow> pool_frames caas_kept p)"

definition same_caas :: "pnet \<Rightarrow> pnet \<Rightarrow> bool" where
  "same_caas n n' \<longleftrightarrow> (aps_framed n \<longrightarrow> aps_framed n' \<and> (\<forall>a. (caas n' a)\<lparr>conn_ap := NULL\<rparr> = (caas n a)\<lparr>conn_ap := NULL\<rparr>))"

text \<open>
  An object that was never given to a connection holds whatever its memory held, so the shape is
  asked of the objects that the table of events names; the others only have buffers of their sizes.
\<close>

definition provider_typed :: "provider \<Rightarrow> bool" where
  "provider_typed w \<longleftrightarrow> (\<forall>a. sized_caa (caa w a)) \<and>
     (\<forall>fd. fe_mask (pentry w fd) = AE_NONE \<or> clientData (pentry w fd) = NULL \<or> typed_caa (caa w (clientData (pentry w fd)))) \<and>
     (\<forall>p. caa_pool w = Some p \<longrightarrow> pool_frames same_caas p) \<and> aps_framed (p_net w)"

text \<open>The same with objects in hand and the fill of their input buffers.\<close>

definition typed_with :: "(addr \<times> nat) set \<Rightarrow> provider \<Rightarrow> bool" where
  "typed_with K w \<longleftrightarrow> provider_typed w \<and> (\<forall>(a, n)\<in>K. typed_caa (caa w a) \<and> caa_nread_in (caa w a) = n)"

lemma typed_with_empty [simp]: "typed_with {} w = provider_typed w"
  by (simp add: typed_with_def)

lemma typed_with_provider: "typed_with K w \<Longrightarrow> provider_typed w"
  by (simp add: typed_with_def)

lemma same_caas_eq: "caas n' = caas n \<Longrightarrow> ap_pool n' = ap_pool n \<Longrightarrow> same_caas n n'"
  by (simp add: same_caas_def aps_framed_def)

lemma c_malloc_keeps: "caas (snd (c_malloc k n)) = caas n" "ap_pool (snd (c_malloc k m)) = ap_pool m"
  by (simp_all add: c_malloc_def split: list.split)

lemma c_free_keeps: "caas (c_free a n) = caas n" "ap_pool (c_free a m) = ap_pool m"
  by (simp_all add: c_free_def)

lemma same_caas_trans: "same_caas n n' \<Longrightarrow> same_caas n' n'' \<Longrightarrow> same_caas n n''"
  unfolding same_caas_def by simp

interpretation objects: pool_frame same_caas
proof unfold_locales
  show "same_caas n n''" if "same_caas n n'" "same_caas n' n''" for n n' n'' using same_caas_trans [OF that] .
qed (rule same_caas_eq; simp add: c_malloc_keeps c_free_keeps)+

interpretation connections: pool_frame caas_kept
  by unfold_locales (simp_all add: caas_kept_def c_malloc_keeps c_free_keeps)

lemma aps_framed_set_caa [simp]: "aps_framed (p_net (set_caa ca c w)) = aps_framed (p_net w)"
  by (simp add: aps_framed_def set_caa_def)

lemma typed_caa_conn [simp]: "typed_caa (c\<lparr>conn_ap := x\<rparr>) = typed_caa c" "sized_caa (c\<lparr>conn_ap := x\<rparr>) = sized_caa c"
  by (simp_all add: typed_caa_def sized_caa_def)

lemma typed_same:
  assumes "typed_with K w" "same_caas (p_net w) (p_net w')" "\<And>p. caa_pool w' = Some p \<Longrightarrow> pool_frames same_caas p"
    and "\<And>fd. fe_mask (pentry w' fd) \<noteq> AE_NONE \<Longrightarrow>
      fe_mask (pentry w fd) \<noteq> AE_NONE \<and> clientData (pentry w' fd) = clientData (pentry w fd) \<or> typed_caa (caa w (clientData (pentry w' fd)))"
  shows "typed_with K w'"
proof -
  have framed: "aps_framed (p_net w')" and eq: "(caa w' b)\<lparr>conn_ap := NULL\<rparr> = (caa w b)\<lparr>conn_ap := NULL\<rparr>" for b
    using assms(1,2) by (simp_all add: same_caas_def typed_with_def provider_typed_def)
  have t: "typed_caa (caa w' b) = typed_caa (caa w b)" "sized_caa (caa w' b) = sized_caa (caa w b)"
    "caa_nread_in (caa w' b) = caa_nread_in (caa w b)" for b
    using arg_cong [OF eq [of b], of typed_caa] arg_cong [OF eq [of b], of sized_caa] arg_cong [OF eq [of b], of caa_nread_in] by simp_all
  have "fe_mask (pentry w' fd) = AE_NONE \<or> clientData (pentry w' fd) = NULL \<or> typed_caa (caa w (clientData (pentry w' fd)))" for fd
    using assms(1) assms(4) [of fd] unfolding typed_with_def provider_typed_def by metis
  then show ?thesis using assms(1,3) framed by (simp add: typed_with_def provider_typed_def t)
qed

lemma typed_net:
  assumes "typed_with K w" "caas (p_net w') = caas (p_net w)" "ap_pool (p_net w') = ap_pool (p_net w)" "caa_pool w' = caa_pool w" "p_loop w' = p_loop w"
  shows "typed_with K w'"
  by (rule typed_same [OF assms(1) same_caas_eq]) (use assms in \<open>simp_all add: typed_with_def provider_typed_def\<close>)

lemma typed_caa_sized: "typed_caa c \<Longrightarrow> sized_caa c"
  by (simp add: typed_caa_def)

lemma typed_set_caa:
  assumes "typed_with K w" "typed_caa c" "\<And>n. (ca, n) \<in> K \<Longrightarrow> caa_nread_in c = n"
  shows "typed_with (insert (ca, caa_nread_in c) K) (set_caa ca c w)"
  using assms typed_caa_sized [OF assms(2)] by (auto simp: typed_with_def provider_typed_def)

lemma typed_weaken: "typed_with K w \<Longrightarrow> K' \<subseteq> K \<Longrightarrow> typed_with K' w"
  by (auto simp: typed_with_def)

lemma typed_set_same:
  assumes "typed_with K w" "typed_caa c" "\<And>n. (ca, n) \<in> K \<Longrightarrow> caa_nread_in c = n"
  shows "typed_with K (set_caa ca c w)"
  by (rule typed_weaken [OF typed_set_caa [OF assms]]) auto

lemma get_caa_eq: "get_caa ca w = Some c \<longleftrightarrow> ca \<noteq> NULL \<and> c = caa w ca"
  by (auto simp: get_caa_def)

lemma typed_get: "typed_with K w \<Longrightarrow> (ca, n) \<in> K \<Longrightarrow> typed_caa (caa w ca) \<and> caa_nread_in (caa w ca) = n"
  by (auto simp: typed_with_def)

section \<open>The pool\<close>

lemma typed_return:
  assumes "typed_with K w" "return_caa ca w = Some w'"
  shows "typed_with K w'"
proof -
  obtain p where p: "caa_pool w = Some p" using assms(2) by (auto simp: return_caa_def bind_eq_Some_conv)
  obtain p1 k where r: "PoolReturn p ca (p_net w) = (p1, k)" by (cases "PoolReturn p ca (p_net w)")
  have w': "w' = w\<lparr>caa_pool := Some p1, p_net := k\<rparr>" using assms(2) p r by (simp add: return_caa_def)
  have "pool_frames same_caas p1 \<and> same_caas (p_net w) k"
    using objects.PoolReturn_frames [OF _ r] assms(1) p by (simp add: typed_with_def provider_typed_def)
  then show ?thesis by (intro typed_same [OF assms(1)]) (simp_all add: w')
qed

lemma typed_take:
  assumes "typed_with K w" "take_caa w = Some (ca, w')"
  shows "typed_with K w'"
proof -
  obtain p where p: "caa_pool w = Some p" using assms(2) by (auto simp: take_caa_def bind_eq_Some_conv)
  obtain a p1 k where r: "PoolGet p (p_net w) = (a, p1, k)" by (metis prod_cases3)
  have w': "w' = w\<lparr>caa_pool := Some p1, p_net := k\<rparr>" using assms(2) p r by (simp add: take_caa_def split: if_splits)
  have "pool_frames same_caas p1 \<and> same_caas (p_net w) k"
    using objects.PoolGet_frames [OF _ r] assms(1) p by (simp add: typed_with_def provider_typed_def)
  then show ?thesis by (intro typed_same [OF assms(1)]) (simp_all add: w')
qed

section \<open>System calls and events\<close>

lemma epoll_ctl_caas [simp]: "caas (snd (epoll_ctl op fd ev k)) = caas k" "ap_pool (snd (epoll_ctl op fd ev n)) = ap_pool n"
  by (cases op; auto simp: epoll_ctl_def next_fault_def Let_def split: if_splits list.splits)+

lemma epoll_add_caas [simp]: "caas (snd (epoll_aeApiAddEvent old fd m k)) = caas k" "ap_pool (snd (epoll_aeApiAddEvent old fd m n)) = ap_pool n"
  by (simp_all add: epoll_aeApiAddEvent_def Let_def)

lemma epoll_del_caas [simp]: "caas (epoll_aeApiDelEvent old fd m k) = caas k" "ap_pool (epoll_aeApiDelEvent old fd m n) = ap_pool n"
  by (simp_all add: epoll_aeApiDelEvent_def Let_def)

lemma typed_watch:
  assumes "typed_with K w" "p_watch fd m p d w = Some (r, w')" "typed_caa (caa w d)"
  shows "typed_with K w'"
proof (rule typed_same [OF assms(1) same_caas_eq])
  show "caas (p_net w') = caas (p_net w)" "ap_pool (p_net w') = ap_pool (p_net w)"
    using assms(2) by (auto simp: p_watch_def aeCreateFileEvent_def epoll_api_def bind_eq_Some_conv Let_def split: if_splits prod.splits) (metis epoll_add_caas snd_conv)+
  show "pool_frames same_caas q" if "caa_pool w' = Some q" for q
    using assms that by (auto simp: typed_with_def provider_typed_def p_watch_def bind_eq_Some_conv)
  have other: "pentry w' h = pentry w h \<or> h = fd \<and> clientData (pentry w' h) = d" for h
    using assms(2) by (auto simp: p_watch_def aeCreateFileEvent_def bind_eq_Some_conv Let_def split: if_splits prod.splits)
  show "fe_mask (pentry w h) \<noteq> AE_NONE \<and> clientData (pentry w' h) = clientData (pentry w h) \<or> typed_caa (caa w (clientData (pentry w' h)))"
    if "fe_mask (pentry w' h) \<noteq> AE_NONE" for h
    using other [of h] that assms(3) by auto
qed

lemma typed_unwatch:
  assumes "typed_with K w" "p_unwatch fd m w = Some w'"
  shows "typed_with K w'"
proof (rule typed_same [OF assms(1) same_caas_eq])
  show "caas (p_net w') = caas (p_net w)" "ap_pool (p_net w') = ap_pool (p_net w)"
    using assms(2) by (auto simp: p_unwatch_def aeDeleteFileEvent_def epoll_api_def bind_eq_Some_conv Let_def split: if_splits)
qed (use assms in \<open>auto simp: typed_with_def provider_typed_def p_unwatch_def aeDeleteFileEvent_def bind_eq_Some_conv Let_def AE_NONE_def split: if_splits\<close>)

lemma typed_close: "typed_with K w \<Longrightarrow> typed_with K (p_close fd w)"
  by (erule typed_net) (simp_all add: p_close_def sys_close_def os_close_def)

lemma typed_sys:
  assumes "typed_with K w"
  shows "p_sys (sys_read E fd k) w = (r, w') \<Longrightarrow> typed_with K w'" "p_sys (sys_write E fd s) w = (x, w') \<Longrightarrow> typed_with K w'"
    "p_sys (sys_accept E) w = (y, w') \<Longrightarrow> typed_with K w'"
  by (rule typed_net [OF assms];
      auto simp: p_sys_def sys_read_def sys_write_def sys_accept_def tock_def split: if_splits rd.splits wr.splits option.splits)+

lemma read_fits: "p_sys (sys_read E fd k) w = (RdData s, w') \<Longrightarrow> length s \<le> k"
  by (auto simp: p_sys_def sys_read_def split: if_splits rd.splits)

lemma write_fits: "p_sys (sys_write E fd s) w = (WrSome k, w') \<Longrightarrow> k \<le> length s"
  by (auto simp: p_sys_def sys_write_def split: if_splits wr.splits)

lemma typed_set_ap: "typed_with K w \<Longrightarrow> typed_with K (set_ap a c w)"
  by (erule typed_net) (simp_all add: set_ap_def)

section \<open>The handlers\<close>

text \<open>
  Only a new descriptor or the parser change in these steps, or the fill, so the rest of the shape is
  that of the object before.
\<close>

lemma typed_caa_fd [simp]: "typed_caa (c\<lparr>caa_fd := x\<rparr>) = typed_caa c"
  by (simp add: typed_caa_def sized_caa_def)

lemma typed_caa_parser [simp]: "typed_caa c \<Longrightarrow> parser_wf q \<Longrightarrow> typed_caa (c\<lparr>parser := q\<rparr>)"
  by (simp add: typed_caa_def sized_caa_def)

lemma typed_caa_parser_wf: "typed_caa c \<Longrightarrow> parser_wf (parser c)"
  by (simp add: typed_caa_def)

lemma typed_abort:
  assumes "typed_with K w" "typed_caa (caa w ca)" "abort_connection_caa ca w = Some w'"
  shows "typed_with K w'"
proof -
  let ?c = "caa w ca"
  let ?K = "insert (ca, caa_nread_in ?c) K"
  have t: "typed_with ?K w" using assms(1,2) by (simp add: typed_with_def)
  obtain w1 w6 where w1: "p_unwatch (caa_fd ?c) (AE_WRITABLE OR AE_READABLE) w = Some w1"
    and w6: "w6 = set_caa ca (?c\<lparr>caa_fd := - 1\<rparr>) (p_close (caa_fd ?c) w1) \<or>
      (\<exists>a w4. p_unwatch (ap_fd a) (AE_WRITABLE OR AE_READABLE) (set_caa ca (?c\<lparr>caa_fd := - 1\<rparr>) (p_close (caa_fd ?c) w1)) = Some w4 \<and>
        w6 = set_ap (conn_ap ?c) (a\<lparr>ap_fd := - 1\<rparr>) (p_close (ap_fd a) w4))"
    and w': "return_caa ca w6 = Some w'"
    using assms(3) by (auto simp: abort_connection_caa_def get_caa_eq bind_eq_Some_conv Let_def split: if_splits)
  have "typed_with ?K (set_caa ca (?c\<lparr>caa_fd := - 1\<rparr>) (p_close (caa_fd ?c) w1))"
    using assms(2) t by (intro typed_set_same typed_close typed_unwatch [OF t w1]) (auto simp: typed_with_def)
  then have "typed_with ?K w6" using w6 by (auto intro!: typed_set_ap typed_close dest: typed_unwatch)
  then show ?thesis using typed_return [OF _ w'] by (blast intro: typed_weaken)
qed

lemma typed_provider_http_handler:
  assumes "provider_typed w" "provider_http_handler fd w = Some w'"
  shows "provider_typed w'"
proof -
  have t: "typed_with {} w" using assms(1) by simp
  obtain ca w1 where w1: "take_caa w = Some (ca, w1)" using assms(2) by (auto simp: provider_http_handler_def bind_eq_Some_conv)
  note t1 = typed_take [OF t w1]
  show ?thesis
  proof (cases "ca = NULL")
    case True
    then show ?thesis using assms(2) w1 typed_close [OF t1, of fd] by (auto simp: provider_http_handler_def)
  next
    case False
    let ?c = "(caa w1 ca)\<lparr>caa_fd := fd, caa_nread_in := 0, len_req := 0, nwrite_req := 0, nread_resp := 0,
         parser := http_parser_init HTTP_REQUEST, processing := False\<rparr>"
    have "sized_caa (caa w1 ca)" using t1 by (simp add: provider_typed_def)
    then have c: "typed_caa ?c" by (simp add: typed_caa_def sized_caa_def http_parser_init_wf)
    have t2: "typed_with {(ca, 0)} (set_caa ca ?c w1)" using typed_set_caa [OF t1 c] by simp
    obtain r w3 where w3: "p_watch fd AE_READABLE Read_from_consumer_agent ca (set_caa ca ?c w1) = Some (r, w3)"
      and w': "(if r = AE_ERR then abort_connection_caa ca w3 else Some w3) = Some w'"
      using assms(2) w1 False by (auto simp: provider_http_handler_def get_caa_eq bind_eq_Some_conv)
    have t3: "typed_with {(ca, 0)} w3" by (rule typed_watch [OF t2 w3]) (use c in simp)
    have "typed_with {(ca, 0)} w'" using w' t3 typed_abort [OF t3 _] typed_get [OF t3] by (auto split: if_splits)
    then show ?thesis by (rule typed_with_provider)
  qed
qed

text \<open>An attempt to register with the abort that follows when it fails.\<close>

lemma typed_watch_or_abort:
  assumes "typed_with K w" "(ca, n) \<in> K" "p_watch fd m p ca w = Some (r, w1)"
    and "(if r = AE_ERR then abort_connection_caa ca w1 else Some w1) = Some w'"
  shows "typed_with K w'"
proof -
  have t1: "typed_with K w1" by (rule typed_watch [OF assms(1,3)]) (use typed_get [OF assms(1,2)] in simp)
  show ?thesis using assms(4) t1 typed_abort [OF t1 _] typed_get [OF t1 assms(2)] by (auto split: if_splits)
qed

lemma typed_watch_provider:
  assumes "typed_with K w" "(ca, n) \<in> K" "watch_provider ca ap w = Some w'"
  shows "typed_with K w'"
proof -
  obtain a w2 where a: "a = aps (p_net w) ap" and x: "do {
      (r, w1) \<leftarrow> p_watch (ap_fd a) AE_WRITABLE Write_to_local_provider ca w;
      if r = AE_ERR then abort_connection_caa ca w1 else Some w1 } = Some w2"
    and y: "do {
      (q, w3) \<leftarrow> p_watch (ap_fd (aps (p_net w2) ap)) AE_READABLE Read_from_local_provider ca w2;
      if q = AE_ERR then abort_connection_caa ca w3 else Some w3 } = Some w'"
    using assms(3) by (auto simp: watch_provider_def get_ap_def bind_eq_Some_conv split: if_splits)
  obtain r q w1 w3 where w: "p_watch (ap_fd a) AE_WRITABLE Write_to_local_provider ca w = Some (r, w1)"
    "(if r = AE_ERR then abort_connection_caa ca w1 else Some w1) = Some w2"
    "p_watch (ap_fd (aps (p_net w2) ap)) AE_READABLE Read_from_local_provider ca w2 = Some (q, w3)"
    "(if q = AE_ERR then abort_connection_caa ca w3 else Some w3) = Some w'"
    using x y by (auto simp: bind_eq_Some_conv)
  show ?thesis by (rule typed_watch_or_abort [OF typed_watch_or_abort [OF assms(1,2) w(1,2)] assms(2) w(3,4)])
qed

lemma assemble_request_frame:
  assumes "assemble_request req_id at len buf = Some (fr, n)" "length buf = PROVIDER_DUBBO_REQ_BUF_SIZE"
  shows "length fr = PROVIDER_DUBBO_REQ_BUF_SIZE \<and> 0 \<le> n \<and> n \<le> int PROVIDER_DUBBO_REQ_BUF_SIZE"
  using assms
  by (auto simp: assemble_request_def bind_eq_Some_conv Let_def be32_def PROVIDER_DUBBO_REQ_BUF_SIZE_def DUBBO_HEADER_LEN_def split: if_splits)

lemma typed_accept_body:
  assumes "typed_with K w" "(ca, n) \<in> K" "accept_body ca off len w = Some (r, w')"
  shows "typed_with K w'"
proof (cases "processing (caa w ca)")
  case True
  then show ?thesis using assms by (auto simp: accept_body_def bind_eq_Some_conv get_caa_eq)
next
  case False
  let ?c = "caa w ca"
  obtain fr m where fr: "assemble_request (cur_request_id w) (drop off (caa_buf_in ?c)) len (buf_req ?c) = Some (fr, m)"
    and w': "watch_provider ca (conn_ap ?c) ((set_caa ca (?c\<lparr>processing := True, buf_req := fr, len_req := m\<rparr>) w)
      \<lparr>cur_request_id := cur_request_id w + 1\<rparr>) = Some w'"
    using assms(3) False by (auto simp: accept_body_def bind_eq_Some_conv get_caa_eq Let_def set_caa_def)
  have c: "typed_caa ?c" "caa_nread_in ?c = n" using typed_get [OF assms(1,2)] by simp_all
  have "typed_caa (?c\<lparr>processing := True, buf_req := fr, len_req := m\<rparr>)"
    using assemble_request_frame [OF fr] c(1) False by (auto simp: typed_caa_def sized_caa_def)
  moreover have "n' = n" if "(ca, n') \<in> K" for n' using typed_get [OF assms(1) that] c(2) by simp
  ultimately have "typed_with K (set_caa ca (?c\<lparr>processing := True, buf_req := fr, len_req := m\<rparr>) w)"
    using c(2) by (intro typed_set_same [OF assms(1)]) auto
  then have "typed_with K ((set_caa ca (?c\<lparr>processing := True, buf_req := fr, len_req := m\<rparr>) w)\<lparr>cur_request_id := cur_request_id w + 1\<rparr>)"
    by (rule typed_net) simp_all
  then show ?thesis by (rule typed_watch_provider [OF _ assms(2) w'])
qed

section \<open>The parser with its callback\<close>

definition typed_state :: "addr \<Rightarrow> nat \<Rightarrow> provider option \<Rightarrow> bool" where
  "typed_state ca n u = (case u of None \<Rightarrow> True | Some w \<Rightarrow> typed_with {(ca, n)} w)"

lemma typed_state_simps [simp]: "typed_state ca n None" "typed_state ca n (Some w) = typed_with {(ca, n)} w"
  by (simp_all add: typed_state_def)

lemma typed_on_http_body: "typed_state ca n u \<Longrightarrow> typed_state ca n (snd (snd (on_http_body ca base at body q u)))"
  by (cases u) (auto simp: on_http_body_def dest: typed_accept_body [where n = n] split: option.split)

lemma parser_settings_handlers:
  "notify_handler (parser_settings ca base) n = None" "on_headers_complete (parser_settings ca base) = None"
  "data_handler (parser_settings ca base) m = Some f \<Longrightarrow> f = on_http_body ca base"
  by (cases n; simp add: parser_settings_def http_parser_settings_init_def) (cases m; simp add: parser_settings_def http_parser_settings_init_def)+

interpretation feeding: keeping "typed_state ca n" "parser_settings ca base" for ca n base
  by unfold_locales (use parser_settings_handlers in \<open>auto simp: callbacks_keep_def typed_on_http_body dest!: parser_settings_handlers(3)\<close>)

lemma typed_feed_parser:
  assumes "typed_with {(ca, n)} w" "feed_parser ca base s w = Some (k, w')"
  shows "typed_with {(ca, n)} w'"
proof -
  obtain q w1 where e: "http_parser_execute (parser_settings ca base) s (parser (caa w ca)) (Some w) = Some (k, q, Some w1)"
    and w': "w' = set_caa ca ((caa w1 ca)\<lparr>parser := q\<rparr>) w1"
    using assms(2) by (auto simp: feed_parser_def bind_eq_Some_conv get_caa_eq)
  have t1: "typed_with {(ca, n)} w1" using feeding.execute_keeps [OF e, of n] assms(1) by simp
  have "parser_wf q"
    using execute_safe [OF typed_caa_parser_wf, of "caa w ca" "parser_settings ca base" s "Some w"] typed_get [OF assms(1)] e by auto
  then show ?thesis
    using typed_get [OF t1, of ca n] unfolding w' by (intro typed_set_same [OF t1]) auto
qed

section \<open>The handlers of the events\<close>

lemma typed_read_from_consumer_agent:
  assumes "provider_typed w" "typed_caa (caa w ca)" "read_from_consumer_agent E fd ca w = Some w'"
  shows "provider_typed w'"
proof (cases "caa_fd (caa w ca) < 0")
  case True
  then show ?thesis
    using assms typed_unwatch [of "{}" w] by (auto simp: read_from_consumer_agent_def bind_eq_Some_conv get_caa_eq)
next
  case False
  let ?c = "caa w ca"
  let ?n = "caa_nread_in ?c"
  let ?K = "{(ca, ?n)}"
  have t: "typed_with ?K w" using assms(1,2) by (simp add: typed_with_def)
  obtain r w1 where r: "p_sys (sys_read E fd (PROVIDER_HTTP_REQ_BUF_SIZE - ?n)) w = (r, w1)" by (cases "p_sys (sys_read E fd (PROVIDER_HTTP_REQ_BUF_SIZE - ?n)) w")
  note t1 = typed_sys(1) [OF t r]
  note body = assms(3) False r
  have size: "?n \<le> PROVIDER_HTTP_REQ_BUF_SIZE" "length (caa_buf_in ?c) = PROVIDER_HTTP_REQ_BUF_SIZE"
    using assms(2) by (simp_all add: typed_caa_def sized_caa_def)
  show ?thesis
  proof (cases r)
    case (RdData s)
    have s: "?n + length s \<le> PROVIDER_HTTP_REQ_BUF_SIZE" using read_fits [of E fd _ w s] r RdData size(1) by fastforce
    let ?b = "?c\<lparr>caa_buf_in := blit ?n s (caa_buf_in ?c)\<rparr>"
    obtain k w3 where f: "feed_parser ca ?n s (set_caa ca ?b w1) = Some (k, w3)"
      and w': "w' = set_caa ca ((caa w3 ca)\<lparr>caa_nread_in := if k \<noteq> length s then 0 else caa_nread_in (caa w3 ca) + length s\<rparr>) w3"
      using body RdData by (auto simp: read_from_consumer_agent_def bind_eq_Some_conv get_caa_eq Let_def split: if_splits)
    have "typed_caa ?b" using assms(2) s size by (simp add: typed_caa_def sized_caa_def)
    then have "typed_with ?K (set_caa ca ?b w1)" by (intro typed_set_same [OF t1]) auto
    then have t3: "typed_with ?K w3" by (rule typed_feed_parser [OF _ f])
    have "typed_caa ((caa w3 ca)\<lparr>caa_nread_in := if k \<noteq> length s then 0 else caa_nread_in (caa w3 ca) + length s\<rparr>)"
      using typed_get [OF t3, of ca ?n] s by (simp add: typed_caa_def sized_caa_def)
    then have "typed_with {} w'" unfolding w' by (intro typed_set_same [OF typed_weaken [OF t3]]) auto
    then show ?thesis by simp
  next
    case RdAgain
    then show ?thesis using body typed_with_provider [OF t1] by (auto simp: read_from_consumer_agent_def bind_eq_Some_conv get_caa_eq Let_def)
  next
    case RdErr
    then have "abort_connection_caa ca w1 = Some w'" using body by (auto simp: read_from_consumer_agent_def bind_eq_Some_conv get_caa_eq Let_def)
    then show ?thesis using typed_with_provider [OF typed_abort [OF t1, of ca w']] typed_get [OF t1, of ca ?n] by simp
  next
    case RdEof
    obtain k w2 w3 where f: "feed_parser ca ?n [] w1 = Some (k, w2)" and u: "p_unwatch fd (AE_WRITABLE OR AE_READABLE) w2 = Some w3"
      and w': "return_caa ca (set_caa ca ((caa (p_close fd w3) ca)\<lparr>caa_fd := - 1\<rparr>) (p_close fd w3)) = Some w'"
      using body RdEof by (auto simp: read_from_consumer_agent_def bind_eq_Some_conv get_caa_eq Let_def)
    have t3: "typed_with ?K (p_close fd w3)" by (rule typed_close [OF typed_unwatch [OF typed_feed_parser [OF t1 f] u]])
    have "typed_with ?K (set_caa ca ((caa (p_close fd w3) ca)\<lparr>caa_fd := - 1\<rparr>) (p_close fd w3))"
      using typed_get [OF t3, of ca ?n] by (intro typed_set_same [OF t3]) auto
    then show ?thesis using typed_with_provider [OF typed_return [OF _ w']] by blast
  qed
qed

lemma typed_write_to_local_provider:
  assumes "provider_typed w" "typed_caa (caa w ca)" "write_to_local_provider E fd ca w = Some w'"
  shows "provider_typed w'"
proof -
  let ?c = "caa w ca"
  let ?n = "caa_nread_in ?c"
  let ?out = "take (nat (len_req ?c) - nwrite_req ?c) (drop (nwrite_req ?c) (buf_req ?c))"
  have t: "typed_with {(ca, ?n)} w" using assms(1,2) by (simp add: typed_with_def)
  obtain r w1 where r: "p_sys (sys_write E fd ?out) w = (r, w1)" by (cases "p_sys (sys_write E fd ?out) w")
  note t1 = typed_sys(2) [OF t r]
  consider "p_unwatch fd (AE_WRITABLE OR AE_READABLE) w = Some w'"
    | k where "r = WrSome k" "w' = set_caa ca (?c\<lparr>nwrite_req := nwrite_req ?c + k\<rparr>) w1 \<or>
        p_unwatch fd AE_WRITABLE (set_caa ca (?c\<lparr>nwrite_req := nwrite_req ?c + k\<rparr>) w1) = Some w'"
    | "w' = w1" | "abort_connection_caa ca w1 = Some w'"
    using assms(3) r by (cases r) (auto simp: write_to_local_provider_def bind_eq_Some_conv get_caa_eq Let_def split: if_splits)
  then show ?thesis
  proof cases
    case 2
    have "k \<le> nat (len_req ?c) - nwrite_req ?c" using write_fits [of E fd ?out w k w1] r 2(1) by simp
    then have "typed_caa (?c\<lparr>nwrite_req := nwrite_req ?c + k\<rparr>)"
      using assms(2) by (simp add: typed_caa_def sized_caa_def) linarith
    then have "typed_with {(ca, ?n)} (set_caa ca (?c\<lparr>nwrite_req := nwrite_req ?c + k\<rparr>) w1)" by (intro typed_set_same [OF t1]) auto
    then show ?thesis using 2(2) typed_with_provider typed_unwatch by blast
  qed (use typed_with_provider [OF typed_unwatch [OF t]] typed_with_provider [OF t1] typed_with_provider [OF typed_abort [OF t1]]
      typed_get [OF t1, of ca ?n] in blast)+
qed

lemma typed_read_from_local_provider:
  assumes "provider_typed w" "typed_caa (caa w ca)" "read_from_local_provider E fd ca w = Some w'"
  shows "provider_typed w'"
proof -
  let ?c = "caa w ca"
  let ?n = "caa_nread_in ?c"
  have t: "typed_with {(ca, ?n)} w" using assms(1,2) by (simp add: typed_with_def)
  obtain r w1 where r: "p_sys (sys_read E fd (PROVIDER_DUBBO_RESP_BUF_SIZE - nread_resp ?c)) w = (r, w1)"
    by (cases "p_sys (sys_read E fd (PROVIDER_DUBBO_RESP_BUF_SIZE - nread_resp ?c)) w")
  note t1 = typed_sys(1) [OF t r]
  let ?b = "\<lambda>s. ?c\<lparr>buf_resp := blit (nread_resp ?c) s (buf_resp ?c), nread_resp := nread_resp ?c + length s\<rparr>"
  consider "p_unwatch fd (AE_WRITABLE OR AE_READABLE) w = Some w'"
    | s where "r = RdData s" "w' = set_caa ca (?b s) w1 \<or> (\<exists>q w3. p_watch (caa_fd ?c) AE_WRITABLE Write_to_consumer_agent ca (set_caa ca (?b s) w1) = Some (q, w3) \<and>
        (if q = AE_ERR then abort_connection_caa ca w3 else Some w3) = Some w')"
    | "w' = w1" | "abort_connection_caa ca w1 = Some w'"
    using assms(3) r
    by (cases r) (auto simp: read_from_local_provider_def bind_eq_Some_conv get_caa_eq Let_def simp del: fun_upd_apply split: if_splits)
  then show ?thesis
  proof cases
    case 2
    have "nread_resp ?c + length s \<le> PROVIDER_DUBBO_RESP_BUF_SIZE"
      using read_fits [of E fd _ w s w1] r 2(1) assms(2) by (fastforce simp: typed_caa_def)
    then have "typed_caa (?b s)" using assms(2) by (simp add: typed_caa_def sized_caa_def)
    then have t2: "typed_with {(ca, ?n)} (set_caa ca (?b s) w1)" by (intro typed_set_same [OF t1]) auto
    show ?thesis using 2(2) typed_with_provider [OF t2] typed_with_provider [OF typed_watch_or_abort [OF t2]] by blast
  qed (use typed_with_provider [OF typed_unwatch [OF t]] typed_with_provider [OF t1] typed_with_provider [OF typed_abort [OF t1]]
      typed_get [OF t1, of ca ?n] in blast)+
qed

lemma typed_write_to_consumer_agent:
  assumes "provider_typed w" "typed_caa (caa w ca)" "write_to_consumer_agent E fd ca w = Some w'"
  shows "provider_typed w'"
proof -
  let ?c = "caa w ca"
  let ?n = "caa_nread_in ?c"
  let ?fresh = "\<lambda>c. c\<lparr>parser := http_parser_init HTTP_REQUEST, caa_nread_in := 0, len_req := 0, nwrite_req := 0,
                nread_resp := 0, processing := False\<rparr>"
  have t: "typed_with {(ca, ?n)} w" using assms(1,2) by (simp add: typed_with_def)
  have ca: "get_caa ca w = Some ?c" using assms(3) by (cases "get_caa ca w") (auto simp: write_to_consumer_agent_def get_caa_eq)
  show ?thesis
  proof (cases "caa_fd ?c < 0")
    case True
    then have "p_unwatch fd (AE_WRITABLE OR AE_READABLE) w = Some w'"
      using assms(3) unfolding write_to_consumer_agent_def ca by simp
    then show ?thesis using typed_with_provider [OF typed_unwatch [OF t]] by blast
  next
    case False
    obtain b out where out: "assemble_response (buf_resp ?c) (nread_resp ?c) = Some (b, out)"
      using assms(3) False ca by (cases "assemble_response (buf_resp ?c) (nread_resp ?c)") (auto simp: write_to_consumer_agent_def)
    let ?w = "set_caa ca (?c\<lparr>buf_resp := b\<rparr>) w"
    have "typed_caa (?c\<lparr>buf_resp := b\<rparr>)" using assms(2) assemble_length [OF out] by (simp add: typed_caa_def sized_caa_def)
    then have t0: "typed_with {(ca, ?n)} ?w" by (intro typed_set_same [OF t]) auto
    obtain r w1 where r: "p_sys (sys_write E fd out) ?w = (r, w1)" by (cases "p_sys (sys_write E fd out) ?w")
    note t1 = typed_sys(2) [OF t0 r]
    consider w2 where "p_unwatch fd AE_WRITABLE w1 = Some w2" "w' = set_caa ca (?fresh (caa w2 ca)) w2"
      | "w' = w1" | "abort_connection_caa ca w1 = Some w'"
    proof (cases r)
      case (WrSome k)
      then have "(if k = length out then do {
          w2 \<leftarrow> p_unwatch fd AE_WRITABLE w1;
          c2 \<leftarrow> get_caa ca w2;
          Some (set_caa ca (?fresh c2) w2)
        } else Some w1) = Some w'"
        using assms(3) False unfolding write_to_consumer_agent_def ca by (simp add: out r)
      then show ?thesis using that(1,2) by (auto simp: bind_eq_Some_conv get_caa_eq split: if_splits)
    qed (use assms(3) False that(2,3) in \<open>simp add: write_to_consumer_agent_def ca out r\<close>)+
    then show ?thesis
    proof cases
      case 1
      note t2 = typed_weaken [OF typed_unwatch [OF t1 1(1)], of "{}"]
      have "sized_caa (caa w2 ca)" using t2 by (simp add: provider_typed_def)
      then have "typed_caa (?fresh (caa w2 ca))" by (simp add: typed_caa_def sized_caa_def http_parser_init_wf)
      then show ?thesis using typed_set_same [OF t2] 1(2) by simp
    qed (use typed_with_provider [OF t1] typed_with_provider [OF typed_abort [OF t1]] typed_get [OF t1, of ca ?n] in blast)+
  qed
qed

lemma typed_accept_tcp:
  assumes "provider_typed w" "accept_tcp E w = Some w'"
  shows "provider_typed w'"
proof -
  have t: "typed_with {} w" using assms(1) by simp
  obtain r w1 where r: "p_sys (sys_accept E) w = (r, w1)" by (cases "p_sys (sys_accept E) w")
  have "provider_typed w1" using typed_sys(3) [OF t r] by simp
  then show ?thesis using assms(2) r typed_provider_http_handler by (auto simp: accept_tcp_def split: option.splits)
qed

section \<open>What every call keeps, the loop keeps\<close>

locale loop_invariant =
  fixes loop_of :: "'w \<Rightarrow> 'p aeEventLoop" and upd_loop :: "('p aeEventLoop \<Rightarrow> 'p aeEventLoop) \<Rightarrow> 'w \<Rightarrow> 'w"
    and call :: "'p \<Rightarrow> fd \<Rightarrow> addr \<Rightarrow> u32 \<Rightarrow> 'w \<Rightarrow> 'w option" and poll :: "'w \<Rightarrow> (fd \<times> u32) list \<times> 'w" and P :: "'w \<Rightarrow> bool"
  assumes call_keeps: "P w \<Longrightarrow> fe_mask (events (loop_of w) fd) \<noteq> AE_NONE \<Longrightarrow>
      call q fd (clientData (events (loop_of w) fd)) m w = Some w' \<Longrightarrow> P w'"
    and poll_keeps: "P w \<Longrightarrow> P (snd (poll w))"
    and go_keeps: "P w \<Longrightarrow> P (upd_loop (\<lambda>el. el\<lparr>stop := False\<rparr>) w)"
begin

lemma fire_keeps:
  "P w \<Longrightarrow> fire_readable loop_of call fd m b n w = Some (k, w') \<Longrightarrow> P w'"
  "P w \<Longrightarrow> fire_writable loop_of call fd m n w = Some (k, w') \<Longrightarrow> P w'"
  using call_keeps [of w fd _ m w'] AE_NONE_def
  by (fastforce simp: fire_readable_def fire_writable_def call_proc_def Let_def bind_eq_Some_conv split: if_splits)+

lemma process_fired_keeps:
  assumes "P w" "process_fired loop_of call fd m w = Some w'"
  shows "P w'"
proof -
  obtain e1 e3 n1 n2 n3 w1 w2 where "fire_readable loop_of call fd m e1 0 w = Some (n1, w1)"
    "fire_writable loop_of call fd m n1 w1 = Some (n2, w2)" "fire_readable loop_of call fd m e3 n2 w2 = Some (n3, w')"
    using assms(2) by (auto simp: process_fired_def Let_def bind_eq_Some_conv split: if_splits)
  then show ?thesis using fire_keeps(1) [OF fire_keeps(2) [OF fire_keeps(1) [OF assms(1)]]] by blast
qed

lemma process_all_keeps: "P w \<Longrightarrow> process_all loop_of call fs n w = Some (k, w') \<Longrightarrow> P w'"
proof (induction fs arbitrary: n w)
  case (Cons f fs)
  obtain fd m where f: "f = (fd, m)" by (cases f)
  obtain w1 where "process_fired loop_of call fd m w = Some w1" "process_all loop_of call fs (n + 1) w1 = Some (k, w')"
    using Cons.prems(2) unfolding f process_all.simps bind_eq_Some_conv by blast
  then show ?case using Cons.IH process_fired_keeps [OF Cons.prems(1)] by blast
qed simp

lemma aeProcessEvents_keeps:
  assumes "P w" "aeProcessEvents loop_of call poll w = Some (k, w')"
  shows "P w'"
proof (cases "maxfd (loop_of w) = - 1")
  case True
  then show ?thesis using assms by (simp add: aeProcessEvents_def)
next
  case False
  then have "process_all loop_of call (fst (poll w)) 0 (snd (poll w)) = Some (k, w')"
    using assms(2) by (simp add: aeProcessEvents_def split_beta)
  then show ?thesis by (rule process_all_keeps [OF poll_keeps [OF assms(1)]])
qed

lemma ae_rounds_keeps: "P w \<Longrightarrow> ae_rounds loop_of call poll n w = Some w' \<Longrightarrow> P w'"
proof (induction n arbitrary: w)
  case (Suc n)
  show ?case
  proof (cases "stop (loop_of w)")
    case False
    then obtain k w1 where "aeProcessEvents loop_of call poll w = Some (k, w1)" "ae_rounds loop_of call poll n w1 = Some w'"
      using Suc.prems(2) by (auto simp: bind_eq_Some_conv)
    then show ?thesis using Suc.IH aeProcessEvents_keeps [OF Suc.prems(1)] by blast
  qed (use Suc.prems in simp)
qed simp

lemma aeMain_keeps: "P w \<Longrightarrow> aeMain loop_of upd_loop call poll n w = Some w' \<Longrightarrow> P w'"
  unfolding aeMain_def by (rule ae_rounds_keeps [OF go_keeps])

end

lemma provider_call_typed:
  assumes "provider_typed w" "fe_mask (pentry w fd) \<noteq> AE_NONE" "provider_call E q fd (clientData (pentry w fd)) m w = Some w'"
  shows "provider_typed w'"
proof (cases "clientData (pentry w fd) = NULL")
  case True
  then have "get_caa (clientData (pentry w fd)) w = None" by (simp add: get_caa_def)
  then have "accept_tcp E w = Some w'"
    using assms(3)
    by (cases q) (simp_all add: read_from_consumer_agent_def write_to_local_provider_def read_from_local_provider_def
        write_to_consumer_agent_def)
  then show ?thesis by (rule typed_accept_tcp [OF assms(1)])
next
  case False
  then have "typed_caa (caa w (clientData (pentry w fd)))" using assms(1,2) unfolding provider_typed_def by blast
  note typed = assms(1) this
  show ?thesis
  proof (cases q)
    case Accept_tcp
    then show ?thesis using assms(3) typed_accept_tcp [OF assms(1)] by simp
  next
    case Read_from_consumer_agent
    then show ?thesis using assms(3) typed_read_from_consumer_agent [OF typed] by simp
  next
    case Write_to_local_provider
    then show ?thesis using assms(3) typed_write_to_local_provider [OF typed] by simp
  next
    case Read_from_local_provider
    then show ?thesis using assms(3) typed_read_from_local_provider [OF typed] by simp
  next
    case Write_to_consumer_agent
    then show ?thesis using assms(3) typed_write_to_consumer_agent [OF typed] by simp
  qed
qed

interpretation provider_loop: loop_invariant p_loop "\<lambda>f w. w\<lparr>p_loop := f (p_loop w)\<rparr>" "provider_call E" provider_poll provider_typed for E
proof unfold_locales
  fix w :: provider
  assume t: "provider_typed w"
  show "provider_typed (snd (provider_poll w))"
    using typed_net [of "{}" w "snd (provider_poll w)"] t
    by (auto simp: provider_poll_def p_sys_def epoll_aeApiPoll_def epoll_wait_def Let_def split: list.split prod.split)
  show "provider_typed (w\<lparr>p_loop := (p_loop w)\<lparr>stop := False\<rparr>\<rparr>)"
    using t by (simp add: provider_typed_def)
qed (rule provider_call_typed)

text \<open>
  C12: The shape of the objects of a provider agent is kept by any number of rounds of its loop,
  whatever the kernel, the consumer agents and the provider answer: every object that an event names
  has buffers of their declared sizes, input and answer cursors inside them, no more of the request
  written than it has and no request while it waits for one, and a parser that can go on.
\<close>

theorem provider_buffers_typed:
  assumes "provider_typed w" "provider_main E n w = Some w'"
  shows "provider_typed w'"
  using assms unfolding provider_main_def by (rule provider_loop.aeMain_keeps)

definition demo_ready :: provider where
  "demo_ready = (let w = demo_provider False demo_caa in w\<lparr>p_net := (p_net w)\<lparr>ready := [[(3, EPOLLIN)]]\<rparr>\<rparr>)"

lemma demo_ready_typed: "provider_typed demo_ready"
proof -
  have s: "sized_caa demo_caa" by (simp add: sized_caa_def demo_caa_def)
  then have t: "typed_caa demo_caa" by (simp add: typed_caa_def) (simp add: demo_caa_def http_parser_init_wf)
  have "sized_caa (demo_caa\<lparr>caa_fd := - 1\<rparr>)" using s by (simp add: sized_caa_def)
  moreover have "pool_frames same_caas demo_caa_pool"
    by (simp add: pool_frames_def demo_caa_pool_def new_Pool_def PoolMemset_def same_caas_eq c_memset0_def)
  ultimately show ?thesis
    using s t by (simp add: provider_typed_def demo_ready_def demo_provider_def demo_pnet_def no_event_def aps_framed_def AE_NONE_def)
qed

lemma demo_accepts:
  obtains w' where "accept_tcp (demo_penv [] []) (demo_provider False demo_caa) = Some w'" "caa_fd (caa w' 2000) = 6"
    "clientData (pentry w' 6) = 2000" "pentry w' 3 = pentry (demo_provider False demo_caa) 3" "maxfd (p_loop w') = 6"
    "ready (p_net w') = []" "\<not> stop (p_loop w')"
proof -
  have "\<exists>w'. accept_tcp (demo_penv [] []) (demo_provider False demo_caa) = Some w' \<and> caa_fd (caa w' 2000) = 6 \<and>
      clientData (pentry w' 6) = 2000 \<and> pentry w' 3 = pentry (demo_provider False demo_caa) 3 \<and> maxfd (p_loop w') = 6 \<and>
      ready (p_net w') = [] \<and> \<not> stop (p_loop w')"
    by (simp add: accept_tcp_def p_sys_def sys_accept_def tock_def demo_penv_def demo_provider_def demo_pnet_def provider_http_handler_def
        take_caa_def PoolGet_def count_out_def demo_caa_pool_def new_Pool_def get_caa_def set_caa_def p_watch_def aeCreateFileEvent_def
        epoll_api_def epoll_aeApiAddEvent_def epoll_ctl_def next_fault_def no_event_def ae_masks AE_OK_def AE_ERR_def)
  then show thesis using that by blast
qed

lemma provider_buffers_typed_witness:
  "provider_typed demo_ready \<and> (\<exists>w'. provider_main (demo_penv [] []) 2 demo_ready = Some w' \<and> caa_fd (caa w' 2000) = 6 \<and>
     clientData (pentry w' 6) = 2000 \<and> provider_typed w')"
proof -
  obtain w' where w': "accept_tcp (demo_penv [] []) (demo_provider False demo_caa) = Some w'" "caa_fd (caa w' 2000) = 6"
    "clientData (pentry w' 6) = 2000" "pentry w' 3 = pentry (demo_provider False demo_caa) 3" "maxfd (p_loop w') = 6"
    "ready (p_net w') = []" "\<not> stop (p_loop w')" by (rule demo_accepts)
  have e: "pentry (demo_provider False demo_caa) 3 = \<lparr>fe_mask = AE_READABLE, rfileProc = Some Accept_tcp, wfileProc = None, clientData = 0\<rparr>"
    "setsize (p_loop (demo_provider False demo_caa)) = 16" "maxfd (p_loop (demo_provider False demo_caa)) = 5"
    "\<not> stop (p_loop (demo_provider False demo_caa))" by (simp_all add: demo_provider_def)
  have "process_fired p_loop (provider_call (demo_penv [] [])) 3 AE_READABLE (demo_provider False demo_caa) = Some w'"
    by (simp add: process_fired_def fire_readable_def fire_writable_def call_proc_def e w'(1,4) ae_masks Let_def)
  moreover have "provider_poll demo_ready = ([(3, AE_READABLE)], demo_provider False demo_caa)"
    by (simp add: provider_poll_def p_sys_def epoll_aeApiPoll_def epoll_wait_def demo_ready_def demo_provider_def demo_pnet_def
        epoll_fired_mask_def EPOLLIN_def EPOLLOUT_def EPOLLERR_def EPOLLHUP_def ae_masks)
  moreover have go: "demo_ready\<lparr>p_loop := (p_loop demo_ready)\<lparr>stop := False\<rparr>\<rparr> = demo_ready"
    by (simp add: demo_ready_def demo_provider_def)
  moreover have "maxfd (p_loop demo_ready) = 5" "\<not> stop (p_loop demo_ready)"
    by (simp_all add: demo_ready_def demo_provider_def)
  moreover have "provider_poll w' = ([], w')" by (simp add: provider_poll_def p_sys_def epoll_aeApiPoll_def epoll_wait_def w'(6))
  ultimately have "provider_main (demo_penv [] []) 2 demo_ready = Some w'"
    by (simp add: provider_main_def aeMain_def go numeral_2_eq_2 aeProcessEvents_def w'(5,7))
  then show ?thesis using provider_buffers_typed [OF demo_ready_typed] demo_ready_typed w'(2,3) by blast
qed

end
