(* ===== verification/Provider_Start.thy ===== *)
theory Provider_Start
  imports Provider_Types Startup
begin

text \<open>
  The start of a provider agent: the two pools that \<^verbatim>\<open>provider_init\<close> fills have callbacks that leave the
  buffers alone, so the shape of the objects holds when the loop begins.
\<close>

section \<open>The callbacks\<close>

lemma connect_retry_caas [simp]: "caas (snd (connect_retry k fd s)) = caas (s :: psock)"
  by (induction k fd s rule: connect_retry.induct) (simp_all add: tock_def)

lemma init_connection_ap_keeps: "caas_kept s (snd (init_connection_ap E a d s))"
proof -
  have "caas (snd (connect_loop E s)) = caas s" by (simp add: connect_loop_def split: prod.split)
  then show ?thesis by (auto simp: caas_kept_def init_connection_ap_def split: prod.split)
qed

lemma cleanup_connection_ap_keeps: "caas_kept s (cleanup_connection_ap a s)"
  by (simp add: caas_kept_def cleanup_connection_ap_def sys_close_def os_close_def Let_def)

lemma extend_fields [simp]:
  "caas (psock.extend s (pnet.fields p)) = caas s" "ap_pool (psock.extend s (pnet.fields p)) = p" "caas (psock.truncate n) = caas n"
  by (simp_all add: psock.extend_def pnet.fields_def psock.truncate_def)

lemma init_connection_caa_keeps: "same_caas n (snd (init_connection_caa a d n))"
proof (cases "ap_pool n")
  case None
  then show ?thesis by (simp add: init_connection_caa_def same_caas_def aps_framed_def)
next
  case (Some p)
  obtain ap p1 s1 where g: "PoolGet p (psock.truncate n) = (ap, p1, s1)" by (metis prod_cases3)
  have "pool_frames caas_kept p1 \<and> caas s1 = caas n" if "aps_framed n"
    using connections.PoolGet_frames [OF _ g] that Some by (simp add: aps_framed_def caas_kept_def)
  then show ?thesis using Some g by (auto simp: init_connection_caa_def same_caas_def aps_framed_def Let_def)
qed

section \<open>The agent as it starts\<close>

text \<open>
  At the start no event names an object, and the registry may take the process along but not touch
  its loop, its memory or its pools.
\<close>

definition provider_fresh :: "provider \<Rightarrow> bool" where
  "provider_fresh w \<longleftrightarrow> (\<forall>a. sized_caa (caa w a)) \<and> (\<forall>fd. fe_mask (pentry w fd) = AE_NONE \<or> clientData (pentry w fd) = NULL)"

definition left_alone :: "provider \<Rightarrow> provider \<Rightarrow> bool" where
  "left_alone w w' \<longleftrightarrow> p_loop w' = p_loop w \<and> caas (p_net w') = caas (p_net w) \<and> ap_pool (p_net w') = ap_pool (p_net w) \<and>
     caa_pool w' = caa_pool w"

definition registry_leaves :: "('j, provider) etcd_lib \<Rightarrow> bool" where
  "registry_leaves X \<longleftrightarrow> (\<forall>k v t b w r w'. etcd_set X k v t b w = Some (r, w') \<longrightarrow> left_alone w w') \<and>
     (\<forall>k w r w'. etcd_del X k w = Some (r, w') \<longrightarrow> left_alone w w')"

lemma provider_init_typed:
  assumes "provider_fresh w" "registry_leaves X" "provider_init X E ip_addr server_port dubbo_port w = Some w'"
  shows "provider_typed w'"
proof -
  obtain w1 ap s ca n2 where r: "register_etcd_service X ip_addr server_port w = Some w1"
    and ap: "PoolInit NUM_CONN_TO_PROVIDER NUM_CONN_TO_PROVIDER sizeof_connection_caa None (Some (init_connection_ap E)) dubbo_port
       (Some cleanup_connection_ap) None (psock.truncate (p_net w1)) = Some (Some ap, s)"
    and ca: "PoolInit NUM_CONN_FOR_CONSUMER_AGENT NUM_CONN_FOR_CONSUMER_AGENT sizeof_connection_caa None (Some init_connection_caa) NULL
       (Some cleanup_connection_caa) None (psock.extend s (pnet.fields (Some ap))) = Some (Some ca, n2)"
    and w': "w' = w1\<lparr>p_net := n2, caa_pool := Some ca\<rparr>"
    using assms(3) by (auto simp: provider_init_def bind_eq_Some_conv Let_def split: if_splits)
  have w1: "p_loop w1 = p_loop w" "caas (p_net w1) = caas (p_net w)"
    using r assms(2) by (auto simp: register_etcd_service_def registry_leaves_def left_alone_def Let_def bind_eq_Some_conv split: if_splits)
  have "pool_frames caas_kept (new_Pool b NUM_CONN_TO_PROVIDER NUM_CONN_TO_PROVIDER sizeof_connection_caa None (Some (init_connection_ap E))
      dubbo_port (Some cleanup_connection_ap) None)" for b
    by (simp add: pool_frames_def new_Pool_def init_connection_ap_keeps cleanup_connection_ap_keeps)
  then have s: "pool_frames caas_kept ap" "caas s = caas (p_net w)"
    using connections.PoolInit_frames [OF ap] w1 by (simp_all add: caas_kept_def)
  have "pool_frames same_caas (new_Pool b NUM_CONN_FOR_CONSUMER_AGENT NUM_CONN_FOR_CONSUMER_AGENT sizeof_connection_caa None
      (Some init_connection_caa) NULL (Some cleanup_connection_caa) None)" for b
    by (simp add: pool_frames_def new_Pool_def init_connection_caa_keeps cleanup_connection_caa_def same_caas_eq)
  then have n2: "pool_frames same_caas ca" "same_caas (psock.extend s (pnet.fields (Some ap))) n2"
    using objects.PoolInit_frames [OF ca] by simp_all
  then have "aps_framed n2" and eq: "(caas n2 a)\<lparr>conn_ap := NULL\<rparr> = (caa w a)\<lparr>conn_ap := NULL\<rparr>" for a
    using s by (simp_all add: same_caas_def aps_framed_def)
  moreover have "sized_caa (caas n2 a) = sized_caa (caa w a)" for a using arg_cong [OF eq [of a], of sized_caa] by simp
  ultimately show ?thesis
    using assms(1) n2(1) w1(1) by (auto simp: provider_typed_def provider_fresh_def w')
qed

text \<open>
  The table of events is new when the agent starts, so all the shape needs is that the objects have
  room for their buffers; nothing else of the memory matters.
\<close>

lemma monitor_accepts_fresh:
  assumes "\<forall>a. sized_caa (caa w a)" "provider_monitor_accepts fd w = Some (Running w')"
  shows "provider_fresh w'"
proof -
  obtain el :: "pproc aeEventLoop" and k where el: "aeCreateEventLoop epoll_api EV_MAX_SET_SIZE (p_net w) = (Some el, k)"
    using assms(2) unfolding provider_monitor_accepts_def by (auto split: prod.splits option.splits)
  then have new: "events el = (\<lambda>_. no_event)" "caas k = caas (p_net w)"
    by (auto simp: aeCreateEventLoop_def epoll_api_def epoll_aeApiCreate_def epoll_create_def next_fault_def Let_def split: if_splits list.splits prod.splits)
  let ?w = "w\<lparr>p_loop := el, p_net := k\<rparr>"
  obtain r where watch: "p_watch fd AE_READABLE Accept_tcp NULL ?w = Some (r, w')"
    using assms(2) el by (auto simp: provider_monitor_accepts_def bind_eq_Some_conv split: if_splits)
  have "caas (p_net w') = caas (p_net w)"
    using watch new(2) by (auto simp: p_watch_def aeCreateFileEvent_def epoll_api_def bind_eq_Some_conv Let_def split: if_splits prod.splits)
      (metis epoll_add_caas(1) snd_conv)+
  moreover have "fe_mask (pentry w' h) = AE_NONE \<or> clientData (pentry w' h) = NULL" for h
    using watch new(1)
    by (auto simp: p_watch_def aeCreateFileEvent_def bind_eq_Some_conv no_event_def Let_def split: if_splits prod.splits)
  ultimately show ?thesis using assms(1) by (simp add: provider_fresh_def)
qed

theorem provider_run_typed:
  assumes "\<forall>a. sized_caa (caa w a)" "registry_leaves X"
    and "provider_start X E ip_addr server_port dubbo_port listen_fd w = Some (Running w1)" "provider_main E1 n w1 = Some w2"
  shows "provider_typed w2"
proof -
  obtain r where r: "provider_monitor_accepts listen_fd w = Some r"
    using assms(3) by (auto simp: provider_start_def bind_eq_Some_conv)
  obtain w0 where w0: "provider_monitor_accepts listen_fd w = Some (Running w0)" "provider_init X E ip_addr server_port dubbo_port w0 = Some w1"
    using assms(3) r by (cases r) (auto simp: provider_start_def)
  have "provider_typed w1" by (rule provider_init_typed [OF monitor_accepts_fresh [OF assms(1) w0(1)] assms(2) w0(2)])
  then show ?thesis using provider_loop.aeMain_keeps assms(4) unfolding provider_main_def by blast
qed

lemma provider_cleanup_typed:
  assumes "provider_typed w" "registry_leaves X" "provider_cleanup X w = Some w'"
  shows "provider_typed w'"
proof -
  have "left_alone w w'" using assms(2,3) by (auto simp: provider_cleanup_def deregister_etcd_service_def registry_leaves_def bind_eq_Some_conv)
  then show ?thesis using typed_net [of "{}" w w'] assms(1) by (simp add: left_alone_def)
qed

end
