(* ===== verification/Agent_Main.thy ===== *)
theory Agent_Main
  imports Util Anet_Props Provider_Start
begin

text \<open>
  The command line, the listening socket and the signals (\<^verbatim>\<open>src/src/main.c\<close>). What the options select is
  run by \<open>consumer_start\<close> and \<open>consumer_main\<close>, or by the provider's counterparts.
\<close>

section \<open>The command line\<close>

definition AGENT_CONSUMER :: int where "AGENT_CONSUMER = 1"
definition AGENT_PROVIDER :: int where "AGENT_PROVIDER = 2"
definition ETCD_PORT :: int where "ETCD_PORT = 2379"
definition TCP_LISTEN_BACKLOG :: int where "TCP_LISTEN_BACKLOG = 40000"

record agent_options =
  agent_type :: int
  process_name :: "string option"
  etcd_host :: "string option"
  opt_server_port :: int
  opt_dubbo_port :: int
  log_dir :: "string option"

definition no_options :: agent_options where
  "no_options = \<lparr>agent_type = 0, process_name = None, etcd_host = None, opt_server_port = 0, opt_dubbo_port = 0, log_dir = None\<rparr>"

definition type_option :: "string \<Rightarrow> agent_options \<Rightarrow> agent_options" where
  "type_option optarg o1 =
     (if optarg = ''consumer'' then o1\<lparr>agent_type := AGENT_CONSUMER, process_name := Some ''agent-consumer''\<rparr>
      else if optarg = ''provider-small'' then o1\<lparr>agent_type := AGENT_PROVIDER, process_name := Some ''agent-small''\<rparr>
      else if optarg = ''provider-medium'' then o1\<lparr>agent_type := AGENT_PROVIDER, process_name := Some ''agent-medium''\<rparr>
      else o1\<lparr>agent_type := AGENT_PROVIDER, process_name := Some ''agent-large''\<rparr>)"

text \<open>The loop over the letters and arguments \<^verbatim>\<open>getopt\<close> returns; None is the exit on an unknown one.\<close>

fun parse_options :: "(char \<times> string) list \<Rightarrow> agent_options \<Rightarrow> agent_options option" where
  "parse_options [] o1 = Some o1"
| "parse_options ((c, optarg) # cs) o1 =
     (if c = CHR ''t'' then parse_options cs (type_option optarg o1)
      else if c = CHR ''e'' then parse_options cs (o1\<lparr>etcd_host := Some optarg\<rparr>)
      else if c = CHR ''p'' then parse_options cs (o1\<lparr>opt_server_port := atoi optarg\<rparr>)
      else if c = CHR ''d'' then parse_options cs (o1\<lparr>opt_dubbo_port := atoi optarg\<rparr>)
      else if c = CHR ''l'' then parse_options cs (o1\<lparr>log_dir := Some optarg\<rparr>)
      else None)"

text \<open>Any agent that is not a consumer agent is a provider agent, one without a type too.\<close>

definition is_consumer :: "agent_options \<Rightarrow> bool" where
  "is_consumer o1 \<longleftrightarrow> agent_type o1 = AGENT_CONSUMER"

section \<open>Listening\<close>

text \<open>None is the exit of the process.\<close>

definition do_listen :: "anet_env \<Rightarrow> int \<Rightarrow> anet \<Rightarrow> fd option \<times> anet" where
  "do_listen E server_port k =
     (let (listen_fd, k1) = run_state (anetTcpServer E True server_port None TCP_LISTEN_BACKLOG) k
      in if listen_fd = ANET_ERR then (None, k1)
         else (Some listen_fd, snd (run_state (anetNonBlock E False listen_fd) k1)))"

lemma do_listen_fresh:
  "do_listen E server_port k = (Some fd, k') \<Longrightarrow>
     0 \<le> fd \<and> \<not> open_fds k fd \<and> open_fds k' = (open_fds k)(fd := True) \<and> infos k' = infos k \<and> bad_close k' = bad_close k"
proof -
  assume run: "do_listen E server_port k = (Some fd, k')"
  obtain k1 where k1: "run_state (anetTcpServer E True server_port None TCP_LISTEN_BACKLOG) k = (fd, k1)" "fd \<noteq> ANET_ERR"
    using run by (auto simp: do_listen_def split: prod.splits if_splits)
  have "result_ok (open_fds k) k fd k1"
    using k1(1) clean_server [of AF_INET E True server_port None TCP_LISTEN_BACKLOG] by (simp add: anetTcpServer_def clean_def)
  moreover have "quiet (anetNonBlock E False fd)" by (rule quiet_helpers)
  moreover have "run_state (anetNonBlock E False fd) k1 = (fst (run_state (anetNonBlock E False fd) k1), k')"
    using run k1 by (simp add: do_listen_def prod_eq_iff)
  ultimately have "result_ok (open_fds k) k fd k1" "same_fds k1 k'" unfolding quiet_def by blast+
  then show ?thesis using k1(2) by (auto simp: result_ok_def same_fds_def)
qed

section \<open>Signals\<close>

datatype signal = SIGQUIT | SIGTERM | SIGINT | SIGHUP | SIGSEGV | SIGPIPE | SIGCHLD | SIGUSR1 | SIGURG | Other_signal int

text \<open>The signals \<^verbatim>\<open>init_signals\<close> installs the handler for.\<close>

definition init_signals :: "signal list" where
  "init_signals = [SIGINT, SIGQUIT, SIGTERM, SIGHUP, SIGSEGV, SIGPIPE, SIGCHLD, SIGURG, SIGUSR1]"

text \<open>
  What the handler does to \<open>the_event_loop\<close>, which is NULL (None) before \<^verbatim>\<open>monitor_accepts\<close>; the
  result None is the end of the process: by \<^verbatim>\<open>abort\<close>, by the message of level FATAL for an unknown
  signal, or by the access through NULL. All other cases only print a message and fall through to
  the stop.
\<close>

definition signal_handler :: "signal \<Rightarrow> 'p aeEventLoop option \<Rightarrow> 'p aeEventLoop option" where
  "signal_handler sig the_event_loop =
     (case sig of
        SIGSEGV \<Rightarrow> None
      | Other_signal n \<Rightarrow> None
      | _ \<Rightarrow> do { el \<leftarrow> the_event_loop; Some (aeStop el) })"

text \<open>
  Whatever signal the handler is installed for, a running agent does not start another round: a
  hangup or a write to a connection the peer has closed ends it like a termination does.
\<close>

lemma signal_ends_main:
  assumes "sig \<in> set init_signals" "sig \<noteq> SIGSEGV"
  shows "\<exists>el. signal_handler sig (Some (loop_of w)) = Some el \<and>
    (\<forall>w1. loop_of w1 = el \<longrightarrow> ae_rounds loop_of call poll n w1 = Some w1)"
  using assms by (cases n) (auto simp: signal_handler_def init_signals_def aeStop_def)

lemma early_signal_kills: "signal_handler sig None = None"
  by (cases sig) (simp_all add: signal_handler_def)

section \<open>The agents\<close>

text \<open>
  What \<^verbatim>\<open>main\<close> does behind \<^verbatim>\<open>do_listen\<close>: start, \<open>n\<close> rounds of the loop, cleaning up. \<^verbatim>\<open>consumer_cleanup\<close>
  is empty. \<^verbatim>\<open>do_fork\<close>, which is never called, ends the process when there is no child, and goes on in
  both processes otherwise.
\<close>

definition run_consumer :: "('j, consumer) etcd_lib \<Rightarrow> cnet env \<Rightarrow> fd \<Rightarrow> nat \<Rightarrow> consumer \<Rightarrow> consumer startup option" where
  "run_consumer X E listen_fd n w = do {
     r \<leftarrow> consumer_start X E listen_fd w;
     case r of Exited \<Rightarrow> Some Exited | Running w1 \<Rightarrow> map_option Running (consumer_main E n w1)
   }"

definition run_provider ::
  "('j, provider) etcd_lib \<Rightarrow> psock env \<Rightarrow> pnet env \<Rightarrow> string \<Rightarrow> agent_options \<Rightarrow> fd \<Rightarrow> nat \<Rightarrow> provider \<Rightarrow> provider startup option" where
  "run_provider X E E1 ip_addr o1 listen_fd n w = do {
     r \<leftarrow> provider_start X E ip_addr (opt_server_port o1) (opt_dubbo_port o1) listen_fd w;
     case r of
       Exited \<Rightarrow> Some Exited
     | Running w1 \<Rightarrow> do {
         w2 \<leftarrow> provider_main E1 n w1;
         map_option Running (provider_cleanup X w2)
       }
   }"

text \<open>
  \<^verbatim>\<open>main\<close> as a whole, without its messages and \<^verbatim>\<open>etcd_init\<close>: \<open>args\<close> is what \<^verbatim>\<open>getopt\<close> returns. The sockets of \<^verbatim>\<open>anet.c\<close> are in
  a state of their own, \<open>k\<close>.
\<close>

datatype agent_end = Bad_option | No_socket | Consumer_agent "consumer startup option" | Provider_agent "provider startup option"

definition agent_main ::
  "anet_env \<Rightarrow> ('i, consumer) etcd_lib \<Rightarrow> cnet env \<Rightarrow> ('j, provider) etcd_lib \<Rightarrow> psock env \<Rightarrow> pnet env \<Rightarrow> (string \<Rightarrow> u32 option) \<Rightarrow> u32 \<Rightarrow>
   (char \<times> string) list \<Rightarrow> nat \<Rightarrow> anet \<Rightarrow> consumer \<Rightarrow> provider \<Rightarrow> agent_end" where
  "agent_main A Xc Ec Xp Es Ep siocgifaddr garbage args n k wc wp =
     (case parse_options args no_options of
        None \<Rightarrow> Bad_option
      | Some o1 \<Rightarrow>
          (case fst (do_listen A (opt_server_port o1) k) of
             None \<Rightarrow> No_socket
           | Some listen_fd \<Rightarrow>
               if is_consumer o1 then Consumer_agent (run_consumer Xc Ec listen_fd n wc)
               else Provider_agent
                 (run_provider Xp Es Ep (get_local_ip_addr siocgifaddr garbage INTERFACE) o1 listen_fd n wp)))"

text \<open>
  An agent is a consumer agent exactly when the last option -t says so; and a provider agent that comes
  to its end has kept the shape of its objects all the way from the start.
\<close>

lemma parse_options_type:
  "parse_options args o1 = Some o2 \<Longrightarrow>
   is_consumer o2 \<longleftrightarrow> (case filter (\<lambda>x. fst x = CHR ''t'') args of [] \<Rightarrow> is_consumer o1 | ts \<Rightarrow> snd (last ts) = ''consumer'')"
proof (induction args arbitrary: o1)
  case (Cons c args)
  obtain ch arg where c: "c = (ch, arg)" by (cases c)
  have t: "is_consumer (type_option arg o1) \<longleftrightarrow> arg = ''consumer''"
    by (simp add: type_option_def is_consumer_def AGENT_CONSUMER_def AGENT_PROVIDER_def)
  have "is_consumer (o1\<lparr>etcd_host := x\<rparr>) = is_consumer o1" "is_consumer (o1\<lparr>opt_server_port := i\<rparr>) = is_consumer o1"
    "is_consumer (o1\<lparr>opt_dubbo_port := i\<rparr>) = is_consumer o1" "is_consumer (o1\<lparr>log_dir := x\<rparr>) = is_consumer o1" for x i
    by (simp_all add: is_consumer_def)
  then show ?case
    using Cons.prems Cons.IH t unfolding c by (auto split: if_splits list.splits)
qed simp

lemma main_keeps_shape:
  assumes "\<forall>a. sized_caa (caa wp a)" "registry_leaves Xp"
    and "agent_main A Xc Ec Xp Es Ep siocgifaddr garbage args n k wc wp = Provider_agent (Some (Running w'))"
  shows "provider_typed w'"
proof -
  obtain o1 fd where run: "run_provider Xp Es Ep (get_local_ip_addr siocgifaddr garbage INTERFACE) o1 fd n wp = Some (Running w')"
    using assms(3) by (auto simp: agent_main_def split: option.splits if_splits)
  obtain r where r: "provider_start Xp Es (get_local_ip_addr siocgifaddr garbage INTERFACE) (opt_server_port o1) (opt_dubbo_port o1) fd wp = Some r"
    using run by (auto simp: run_provider_def bind_eq_Some_conv)
  obtain w1 w2 where "r = Running w1" "provider_main Ep n w1 = Some w2" "provider_cleanup Xp w2 = Some w'"
    using run r by (cases r) (auto simp: run_provider_def bind_eq_Some_conv)
  then show ?thesis using provider_cleanup_typed [OF provider_run_typed [OF assms(1,2)] assms(2)] r by blast
qed

definition do_fork :: "int \<Rightarrow> 'w \<Rightarrow> 'w startup" where
  "do_fork pid w = (if pid = - 1 then Exited else Running w)"

end
