(* ===== verification/Consumer_Inv.thy ===== *)
theory Consumer_Inv
  imports Consumer Ae_Watch Balance_Props Pool_Spec
begin

text \<open>
  The invariant of the consumer agent. Every descriptor the agent uses has one role (the listening
  socket, a consumer's connection, a borrowed or an idle connection to a provider), the table of
  events agrees with the roles, and the pools hold exactly the objects that are not in use. While a
  handler takes a connection down, the sets of connections in the three parts of the invariant
  differ for a moment, so each part has its own set.
\<close>

section \<open>The parts of the invariant\<close>

abbreviation fdc :: "consumer \<Rightarrow> addr \<Rightarrow> fd" where "fdc w ca \<equiv> ca_fd (cas (c_net w) ca)"
abbreviation conn :: "consumer \<Rightarrow> addr \<Rightarrow> addr" where "conn w ca \<equiv> conn_apa (cas (c_net w) ca)"
abbreviation fda :: "consumer \<Rightarrow> addr \<Rightarrow> fd" where "fda w a \<equiv> apa_fd (apas (c_net w) a)"
abbreviation epa :: "consumer \<Rightarrow> addr \<Rightarrow> nat option" where "epa w a \<equiv> apa_endpoint (apas (c_net w) a)"
abbreviation entry :: "consumer \<Rightarrow> fd \<Rightarrow> cproc aeFileEvent" where "entry w fd \<equiv> events (c_loop w) fd"

datatype role = Listen | Ca addr | Remote addr | Idle addr

definition idle :: "consumer \<Rightarrow> nat \<Rightarrow> addr set" where
  "idle w k = (case conn_pool (c_eps w ! k) of Some p \<Rightarrow> set (pool_items p) | None \<Rightarrow> {})"

fun has_role :: "fd \<Rightarrow> addr set \<Rightarrow> addr set \<Rightarrow> consumer \<Rightarrow> role \<Rightarrow> fd \<Rightarrow> bool" where
  "has_role l HC HR w Listen fd \<longleftrightarrow> fd = l"
| "has_role l HC HR w (Ca ca) fd \<longleftrightarrow> ca \<in> HC \<and> fdc w ca = fd"
| "has_role l HC HR w (Remote ca) fd \<longleftrightarrow> ca \<in> HR \<and> conn w ca \<noteq> NULL \<and> fda w (conn w ca) = fd"
| "has_role l HC HR w (Idle a) fd \<longleftrightarrow> (\<exists>k < c_num w. a \<in> idle w k) \<and> fda w a = fd"

fun entry_ok :: "role \<Rightarrow> cproc aeFileEvent \<Rightarrow> bool" where
  "entry_ok Listen e \<longleftrightarrow> rfileProc e = Some Accept_tcp_handler \<and> \<not> bit (fe_mask e) 1"
| "entry_ok (Ca ca) e \<longleftrightarrow> clientData e = ca \<and> (bit (fe_mask e) 0 \<longrightarrow> rfileProc e = Some Read_from_consumer) \<and>
     (bit (fe_mask e) 1 \<longrightarrow> wfileProc e = Some Write_to_consumer)"
| "entry_ok (Remote ca) e \<longleftrightarrow> clientData e = ca \<and> (bit (fe_mask e) 0 \<longrightarrow> rfileProc e = Some Read_from_remote_agent) \<and>
     (bit (fe_mask e) 1 \<longrightarrow> wfileProc e = Some Write_to_remote_agent)"
| "entry_ok (Idle a) e \<longleftrightarrow> False"

definition roles_ok :: "int \<Rightarrow> fd \<Rightarrow> addr set \<Rightarrow> addr set \<Rightarrow> consumer \<Rightarrow> bool" where
  "roles_ok N l HC HR w \<longleftrightarrow>
     (\<forall>r fd. has_role l HC HR w r fd \<longrightarrow> 0 \<le> fd \<and> fd < N \<and> open_fds (c_net w) fd) \<and>
     (\<forall>r r' fd. has_role l HC HR w r fd \<longrightarrow> has_role l HC HR w r' fd \<longrightarrow> r = r')"

definition table_inv :: "int \<Rightarrow> fd \<Rightarrow> addr set \<Rightarrow> addr set \<Rightarrow> consumer \<Rightarrow> bool" where
  "table_inv N l HC HR w \<longleftrightarrow>
     loop_ok epoll_tracks (c_loop w) (c_net w) \<and> setsize (c_loop w) = N \<and> watch_faults (c_net w) = [] \<and>
     (\<forall>fd. interest (c_net w) fd \<noteq> None \<longrightarrow> 0 \<le> fd \<and> fd < N) \<and>
     (\<forall>fd. 0 \<le> fd \<and> fd < N \<longrightarrow> (\<forall>n \<ge> 2. \<not> bit (fe_mask (entry w fd)) n) \<and>
        (fe_mask (entry w fd) \<noteq> AE_NONE \<longrightarrow> (\<exists>r. has_role l HC HR w r fd \<and> entry_ok r (entry w fd))))"

definition buf_ok :: "connection_ca \<Rightarrow> bool" where
  "buf_ok c \<longleftrightarrow> length (buf_in c) = CONSUMER_HTTP_REQ_BUF_SIZE \<and> 0 \<le> nwrite_in c \<and> nwrite_in c \<le> nread_in c \<and>
     nread_in c < int CONSUMER_HTTP_REQ_BUF_SIZE \<and>
     length (buf_out c) = CONSUMER_HTTP_RESP_BUF_SIZE \<and> 0 \<le> nwrite_out c \<and> nwrite_out c \<le> nread_out c \<and>
     nread_out c \<le> int CONSUMER_HTTP_RESP_BUF_SIZE"

definition holders :: "addr set \<Rightarrow> consumer \<Rightarrow> nat \<Rightarrow> addr set" where
  "holders HR w k = {ca \<in> HR. conn w ca \<noteq> NULL \<and> epa w (conn w ca) = Some k}"

text \<open>
  More connections of a pool may be in use than are borrowed: those of aborted exchanges are never
  given back.
\<close>

definition ep_ok :: "addr set \<Rightarrow> consumer \<Rightarrow> nat \<Rightarrow> bool" where
  "ep_ok HR w k \<longleftrightarrow>
     (\<exists>p. conn_pool (c_eps w ! k) = Some p \<and> fixed_pool p \<and> distinct (pool_items p) \<and>
        card (holders HR w k) \<le> pool_used p \<and> (\<forall>a \<in> set (pool_items p). epa w a = Some k)) \<and>
     1 \<le> sint (num_reqs (c_eps w ! k)) \<and> sint (num_reqs (c_eps w ! k)) \<le> 1 + int (tick (c_net w))"

definition eps_ok :: "addr set \<Rightarrow> consumer \<Rightarrow> bool" where
  "eps_ok HR w \<longleftrightarrow> 0 < c_num w \<and> c_num w \<le> length (c_eps w) \<and> finite HR \<and>
     (\<forall>k < c_num w. ep_ok HR w k) \<and> (\<forall>ca \<in> HR. conn w ca \<noteq> NULL \<longrightarrow> (\<exists>k < c_num w. epa w (conn w ca) = Some k))"

definition pool_part :: "addr set \<Rightarrow> consumer \<Rightarrow> bool" where
  "pool_part HP w \<longleftrightarrow> (\<exists>p. c_pool w = Some p \<and> fixed_pool p \<and> distinct (pool_items p) \<and> finite HP \<and>
     card HP = pool_used p \<and> HP \<inter> set (pool_items p) = {} \<and> NULL \<notin> HP)"

definition core :: "int \<Rightarrow> fd \<Rightarrow> addr set \<Rightarrow> addr set \<Rightarrow> consumer \<Rightarrow> bool" where
  "core N l HC HR w \<longleftrightarrow> roles_ok N l HC HR w \<and> table_inv N l HC HR w \<and> eps_ok HR w \<and>
     (\<forall>ca \<in> HC. buf_ok (cas (c_net w) ca))"

definition cons_inv :: "int \<Rightarrow> fd \<Rightarrow> addr set \<Rightarrow> consumer \<Rightarrow> bool" where
  "cons_inv N l H w \<longleftrightarrow> core N l H H w \<and> pool_part H w"

section \<open>What the invariant depends on\<close>

lemma has_role_cong:
  assumes "\<And>ca. ca \<in> HC \<Longrightarrow> fdc w' ca = fdc w ca" "\<And>ca. ca \<in> HR \<Longrightarrow> conn w' ca = conn w ca"
    and "\<And>a. fda w' a = fda w a" "\<And>k. k < c_num w \<Longrightarrow> idle w' k = idle w k" "c_num w' = c_num w"
  shows "has_role l HC HR w' r fd = has_role l HC HR w r fd"
  using assms by (cases r) auto

text \<open>System calls, the objects' data, the latency statistics: changes no role sees.\<close>

definition same_roles :: "addr set \<Rightarrow> addr set \<Rightarrow> consumer \<Rightarrow> consumer \<Rightarrow> bool" where
  "same_roles HC HR w w' \<longleftrightarrow>
     (\<forall>ca \<in> HC. fdc w' ca = fdc w ca) \<and> (\<forall>ca \<in> HR. conn w' ca = conn w ca) \<and> (\<forall>a. fda w' a = fda w a) \<and>
     (\<forall>k < c_num w. idle w' k = idle w k) \<and> c_num w' = c_num w"

lemma has_role_same: "same_roles HC HR w w' \<Longrightarrow> has_role l HC HR w' r fd = has_role l HC HR w r fd"
  by (rule has_role_cong) (auto simp: same_roles_def)

lemma roles_ok_same:
  assumes "same_roles HC HR w w'" "open_fds (c_net w') = open_fds (c_net w)"
  shows "roles_ok N l HC HR w' = roles_ok N l HC HR w"
  by (simp add: roles_ok_def has_role_same [OF assms(1)] assms(2))

lemma table_inv_same:
  assumes "same_roles HC HR w w'" "c_loop w' = c_loop w" "interest (c_net w') = interest (c_net w)"
    and "open_fds (c_net w') = open_fds (c_net w)" "watch_faults (c_net w') = watch_faults (c_net w)"
  shows "table_inv N l HC HR w' = table_inv N l HC HR w"
  using assms by (simp add: table_inv_def has_role_same [OF assms(1)] loop_ok_kernel [of "c_net w'" "c_net w"])

lemma eps_ok_same:
  assumes "c_num w' = c_num w" "length (c_eps w') = length (c_eps w)" "\<And>ca. ca \<in> HR \<Longrightarrow> conn w' ca = conn w ca"
    and "\<And>a. epa w' a = epa w a" "tick (c_net w) \<le> tick (c_net w')"
    and "\<And>k. k < c_num w \<Longrightarrow> conn_pool (c_eps w' ! k) = conn_pool (c_eps w ! k)"
    and "\<And>k. k < c_num w \<Longrightarrow> ep_ok HR w k \<Longrightarrow>
      1 \<le> sint (num_reqs (c_eps w' ! k)) \<and> sint (num_reqs (c_eps w' ! k)) \<le> 1 + int (tick (c_net w'))"
    and "eps_ok HR w"
  shows "eps_ok HR w'"
proof -
  have "holders HR w' k = holders HR w k" for k using assms(3,4) by (auto simp: holders_def)
  then have "ep_ok HR w' k" if "k < c_num w" for k
    using assms(4) assms(6,7) [of k] assms(8) that by (auto simp: ep_ok_def eps_ok_def)
  then show ?thesis using assms by (auto simp: eps_ok_def)
qed

lemma core_same:
  assumes "core N l HC HR w" "same_roles HC HR w w'" "c_loop w' = c_loop w"
    and "interest (c_net w') = interest (c_net w)" "open_fds (c_net w') = open_fds (c_net w)"
    and "watch_faults (c_net w') = watch_faults (c_net w)" "eps_ok HR w'"
    and "\<And>ca. ca \<in> HC \<Longrightarrow> buf_ok (cas (c_net w') ca)"
  shows "core N l HC HR w'"
  using assms roles_ok_same [OF assms(2,5)] table_inv_same [OF assms(2-6)] by (simp add: core_def)

text \<open>A change of the sockets' data only.\<close>

lemma core_data:
  assumes "core N l HC HR w" "tick (c_net w) \<le> t"
  shows "core N l HC HR (w\<lparr>c_net := (c_net w)\<lparr>sent := s, tick := t\<rparr>\<rparr>)"
proof -
  let ?w = "w\<lparr>c_net := (c_net w)\<lparr>sent := s, tick := t\<rparr>\<rparr>"
  have "eps_ok HR w" using assms(1) by (simp add: core_def)
  then have "eps_ok HR ?w"
    using assms(2) by (intro eps_ok_same [of ?w w]) (auto simp: ep_ok_def)
  then show ?thesis
    using assms(1) by (intro core_same [OF assms(1)]) (auto simp: same_roles_def idle_def core_def)
qed

lemma pool_part_same: "c_pool w' = c_pool w \<Longrightarrow> pool_part HP w' = pool_part HP w"
  by (simp add: pool_part_def)

text \<open>A change of one consumer connection's data: its descriptor and its partner stay.\<close>

lemma core_set_ca:
  assumes "core N l HC HR w" "ca_fd c = fdc w ca" "conn_apa c = conn w ca" "buf_ok c"
  shows "core N l HC HR (set_ca ca c w)"
proof -
  have "eps_ok HR w" using assms(1) by (simp add: core_def)
  then have "eps_ok HR (set_ca ca c w)"
    using assms(3) by (intro eps_ok_same [of "set_ca ca c w" w]) (auto simp: set_ca_def ep_ok_def)
  then show ?thesis
    using assms by (intro core_same [OF assms(1)]) (auto simp: same_roles_def idle_def core_def set_ca_def)
qed

lemma core_set_apa:
  assumes "core N l HC HR w" "apa_fd b = fda w a" "apa_endpoint b = epa w a"
  shows "core N l HC HR (set_apa a b w)"
proof -
  have "eps_ok HR w" using assms(1) by (simp add: core_def)
  then have "eps_ok HR (set_apa a b w)"
    using assms(3) by (intro eps_ok_same [of "set_apa a b w" w]) (auto simp: set_apa_def ep_ok_def)
  then show ?thesis
    using assms by (intro core_same [OF assms(1)]) (auto simp: same_roles_def idle_def core_def set_apa_def)
qed

section \<open>Registering and removing events\<close>

lemma entry_ok_cleared: "entry_ok r e \<Longrightarrow> entry_ok r (cleared m e)"
  by (cases r) (auto simp: cleared_def bit_and_iff)

text \<open>The procedure that belongs to an event of a role.\<close>

fun proc_for :: "role \<Rightarrow> u32 \<Rightarrow> cproc \<Rightarrow> bool" where
  "proc_for (Ca ca) m p \<longleftrightarrow> m = AE_READABLE \<and> p = Read_from_consumer \<or> m = AE_WRITABLE \<and> p = Write_to_consumer"
| "proc_for (Remote ca) m p \<longleftrightarrow> m = AE_READABLE \<and> p = Read_from_remote_agent \<or> m = AE_WRITABLE \<and> p = Write_to_remote_agent"
| "proc_for _ m p \<longleftrightarrow> False"

fun owner :: "role \<Rightarrow> addr" where
  "owner (Ca ca) = ca"
| "owner (Remote ca) = ca"
| "owner _ = NULL"

lemma entry_ok_registered:
  assumes "proc_for r m p" "fe_mask e \<noteq> AE_NONE \<Longrightarrow> entry_ok r e"
  shows "entry_ok r (registered m p (owner r) e)"
proof -
  have "entry_ok r e \<or> fe_mask e = AE_NONE" using assms(2) by blast
  then show ?thesis
    using assms(1) by (cases r) (auto simp: registered_def bit_or_iff ae_masks)
qed

lemma proc_for_mask: "proc_for r m p \<Longrightarrow> m = AE_READABLE \<or> m = AE_WRITABLE"
  by (cases r) auto

text \<open>A change of the loop and of the interest list only.\<close>

definition rewatched :: "consumer \<Rightarrow> consumer \<Rightarrow> bool" where
  "rewatched w w' \<longleftrightarrow> (\<exists>el i. w' = w\<lparr>c_loop := el, c_net := (c_net w)\<lparr>interest := i\<rparr>\<rparr>)"

lemma rewatched_same:
  assumes "rewatched w w'"
  shows "same_roles HC HR w w'" "roles_ok N l HC HR w' = roles_ok N l HC HR w" "pool_part HP w' = pool_part HP w"
    "cas (c_net w') = cas (c_net w)" "apas (c_net w') = apas (c_net w)" "c_eps w' = c_eps w" "c_num w' = c_num w"
    "c_pool w' = c_pool w" "open_fds (c_net w') = open_fds (c_net w)" "tick (c_net w') = tick (c_net w)"
    "sent (c_net w') = sent (c_net w)"
proof -
  show s: "same_roles HC HR w w'" using assms by (auto simp: rewatched_def same_roles_def idle_def)
  show "roles_ok N l HC HR w' = roles_ok N l HC HR w"
    using assms by (intro roles_ok_same [OF s]) (auto simp: rewatched_def)
qed (use assms in \<open>auto simp: rewatched_def pool_part_def\<close>)

lemma eps_ok_rewatched:
  assumes "rewatched w w'" "eps_ok HR w"
  shows "eps_ok HR w'"
  using assms(2) rewatched_same [OF assms(1)]
  by (intro eps_ok_same [of w' w]) (auto simp: ep_ok_def)

lemma watch_core:
  assumes "core N l HC HR w" "has_role l HC HR w r fd" "proc_for r m p"
  shows "\<exists>w'. c_watch fd m p (owner r) w = Some (AE_OK, w') \<and> core N l HC HR w' \<and> rewatched w w'"
proof -
  have roles: "roles_ok N l HC HR w" and tab: "table_inv N l HC HR w" using assms(1) by (simp_all add: core_def)
  have fd: "0 \<le> fd" "fd < N" "open_fds (c_net w) fd" using roles assms(2) by (auto simp: roles_ok_def)
  have m: "m \<noteq> AE_NONE" using proc_for_mask [OF assms(3)] by (auto simp: ae_masks)
  obtain el i where c: "aeCreateFileEvent epoll_api fd m p (owner r) (c_loop w) (c_net w) = Some (AE_OK, el, (c_net w)\<lparr>interest := i\<rparr>)"
    "loop_ok epoll_tracks el ((c_net w)\<lparr>interest := i\<rparr>)" "setsize el = N" "\<forall>g. g \<noteq> fd \<longrightarrow> i g = interest (c_net w) g"
    "events el = (events (c_loop w))(fd := registered m p (owner r) (entry w fd))"
    using create_event [of "c_loop w" "c_net w" fd m p "owner r"] tab fd m by (auto simp: table_inv_def)
  let ?w = "w\<lparr>c_loop := el, c_net := (c_net w)\<lparr>interest := i\<rparr>\<rparr>"
  have re: "rewatched w ?w" by (auto simp: rewatched_def)
  have "entry_ok r (entry w fd)" if used: "fe_mask (entry w fd) \<noteq> AE_NONE"
  proof -
    obtain r' where "has_role l HC HR w r' fd" "entry_ok r' (entry w fd)"
      using tab fd(1,2) used by (auto simp: table_inv_def)
    moreover from this have "r' = r" using roles assms(2) unfolding roles_ok_def by blast
    ultimately show ?thesis by simp
  qed
  then have new: "entry_ok r (registered m p (owner r) (entry w fd))" by (rule entry_ok_registered [OF assms(3)])
  have "\<forall>n \<ge> 2. \<not> bit (fe_mask (registered m p (owner r) (entry w fd))) n"
    using tab fd by (intro registered_bits proc_for_mask [OF assms(3)]) (simp add: table_inv_def)
  then have "table_inv N l HC HR ?w"
    unfolding table_inv_def has_role_same [OF rewatched_same(1) [OF re]]
    using tab c new assms(2) fd unfolding table_inv_def by simp metis
  then have "core N l HC HR ?w"
    using assms(1) rewatched_same [OF re] eps_ok_rewatched [OF re] by (simp add: core_def)
  then show ?thesis using c re by (auto simp: c_watch_def)
qed

lemma unwatch_core:
  assumes "core N l HC HR w" "0 \<le> fd"
  shows "\<exists>w'. c_unwatch fd m w = Some w' \<and> core N l HC HR w' \<and> rewatched w w' \<and>
    (fd < N \<longrightarrow> entry w' fd = cleared m (entry w fd)) \<and> (\<forall>g. g \<noteq> fd \<longrightarrow> entry w' g = entry w g)"
proof (cases "fd < N")
  case False
  then have "c_unwatch fd m w = Some w"
    using assms(1) by (simp add: c_unwatch_def aeDeleteFileEvent_def core_def table_inv_def)
  moreover have "rewatched w w"
    unfolding rewatched_def by (rule exI [of _ "c_loop w"], rule exI [of _ "interest (c_net w)"]) simp
  ultimately show ?thesis using assms(1) False by blast
next
  case True
  have tab: "table_inv N l HC HR w" using assms(1) by (simp add: core_def)
  obtain el i where c: "aeDeleteFileEvent epoll_api fd m (c_loop w) (c_net w) = Some (el, (c_net w)\<lparr>interest := i\<rparr>)"
    "loop_ok epoll_tracks el ((c_net w)\<lparr>interest := i\<rparr>)" "setsize el = N" "\<forall>g. g \<noteq> fd \<longrightarrow> i g = interest (c_net w) g"
    "events el = (events (c_loop w))(fd := cleared m (entry w fd))"
    using delete_event [of "c_loop w" "c_net w" fd m] tab assms(2) True by (auto simp: table_inv_def)
  let ?w = "w\<lparr>c_loop := el, c_net := (c_net w)\<lparr>interest := i\<rparr>\<rparr>"
  have re: "rewatched w ?w" by (auto simp: rewatched_def)
  have range: "\<forall>g. i g \<noteq> None \<longrightarrow> 0 \<le> g \<and> g < N"
    using tab c(4) assms(2) True unfolding table_inv_def by metis
  have "table_inv N l HC HR ?w"
    unfolding table_inv_def has_role_same [OF rewatched_same(1) [OF re]]
    using tab c(2,3,5) range entry_ok_cleared cleared_bits cleared_NONE
    by (simp add: table_inv_def) blast
  then have "core N l HC HR ?w"
    using assms(1) rewatched_same [OF re] eps_ok_rewatched [OF re] by (simp add: core_def)
  then show ?thesis using c re by (auto simp: c_unwatch_def)
qed

end
