(* ===== verification/Consumer_Steps.thy ===== *)
theory Consumer_Steps
  imports Consumer_Inv
begin

text \<open>
  The steps of the handlers that change who uses what: closing a descriptor nobody has a role for,
  dropping a connection, giving objects back to the pools and taking them; and the abort of a
  connection, which is made of them.
\<close>

section \<open>Dropping\<close>

lemma core_close:
  assumes "core N l HC HR w" "\<And>r. \<not> has_role l HC HR w r fd"
  shows "core N l HC HR (c_close fd w)"
proof -
  let ?w = "c_close fd w"
  have same: "same_roles HC HR w ?w" by (simp add: same_roles_def c_close_def sys_close_def os_close_def idle_def)
  have tab: "table_inv N l HC HR w" and roles: "roles_ok N l HC HR w" and eps: "eps_ok HR w"
    using assms(1) by (simp_all add: core_def)
  have net: "open_fds (c_net ?w) = (open_fds (c_net w))(fd := False)" "interest (c_net ?w) = (interest (c_net w))(fd := None)"
    "c_loop ?w = c_loop w" "watch_faults (c_net ?w) = watch_faults (c_net w)" "cas (c_net ?w) = cas (c_net w)"
    by (simp_all add: c_close_def sys_close_def os_close_def)
  have "roles_ok N l HC HR ?w"
    using roles assms(2) by (auto simp: roles_ok_def has_role_same [OF same] net)
  moreover have "table_inv N l HC HR ?w"
  proof -
    have loop: "loop_ok epoll_tracks (c_loop w) (c_net w)" "setsize (c_loop w) = N" using tab by (simp_all add: table_inv_def)
    have "epoll_tracks (c_net ?w) g (fe_mask (entry w g))" if "0 \<le> g" "g < N" for g
    proof (cases "g = fd")
      case True
      then have "fe_mask (entry w g) = AE_NONE" using tab assms(2) that by (auto simp: table_inv_def)
      then show ?thesis using True by (simp add: epoll_tracks_def net)
    next
      case False
      then show ?thesis using loop that by (simp add: loop_ok_def epoll_tracks_def net)
    qed
    moreover have "\<forall>g. ((interest (c_net w))(fd := None)) g \<noteq> None \<longrightarrow> 0 \<le> g \<and> g < N"
      using tab by (simp add: table_inv_def)
    ultimately show ?thesis
      using tab unfolding table_inv_def loop_ok_def has_role_same [OF same] net by blast
  qed
  moreover have "eps_ok HR ?w"
    using eps by (intro eps_ok_same [of ?w w]) (auto simp: c_close_def sys_close_def os_close_def ep_ok_def)
  ultimately show ?thesis using assms(1) by (simp add: core_def net)
qed

lemma holders_mono: "HR' \<subseteq> HR \<Longrightarrow> finite HR \<Longrightarrow> card (holders HR' w k) \<le> card (holders HR w k)"
  by (rule card_mono) (auto simp: holders_def)

lemma core_fewer:
  assumes "core N l HC HR w" "HC' \<subseteq> HC" "HR' \<subseteq> HR"
    and keep: "\<And>r fd. has_role l HC HR w r fd \<Longrightarrow> fe_mask (entry w fd) \<noteq> AE_NONE \<Longrightarrow> has_role l HC' HR' w r fd"
  shows "core N l HC' HR' w"
proof -
  have less: "has_role l HC HR w r fd" if "has_role l HC' HR' w r fd" for r fd
    using that assms(2,3) by (cases r) auto
  have roles: "roles_ok N l HC HR w" and tab: "table_inv N l HC HR w" and eps: "eps_ok HR w"
    and bufs: "\<forall>ca \<in> HC. buf_ok (cas (c_net w) ca)"
    using assms(1) by (simp_all add: core_def)
  have "roles_ok N l HC' HR' w"
    using roles less unfolding roles_ok_def by blast
  moreover have "table_inv N l HC' HR' w"
    using tab keep unfolding table_inv_def by blast
  moreover have "ep_ok HR' w k" if "ep_ok HR w k" for k
    using that holders_mono [OF assms(3), of w k] eps by (auto simp: ep_ok_def eps_ok_def)
  then have "eps_ok HR' w"
    using eps assms(3) finite_subset [OF assms(3)] unfolding eps_ok_def by blast
  ultimately show ?thesis using bufs assms(2) by (auto simp: core_def)
qed

lemma core_drop_ca:
  assumes "core N l HC HR w" "fe_mask (entry w (fdc w ca)) = AE_NONE"
  shows "core N l (HC - {ca}) HR w"
proof (rule core_fewer [OF assms(1)])
  show "has_role l (HC - {ca}) HR w r fd" if "has_role l HC HR w r fd" "fe_mask (entry w fd) \<noteq> AE_NONE" for r fd
    using that assms(2) by (cases r) auto
qed auto

lemma core_drop_remote:
  assumes "core N l HC HR w" "conn w ca \<noteq> NULL \<Longrightarrow> fe_mask (entry w (fda w (conn w ca))) = AE_NONE"
  shows "core N l HC (HR - {ca}) w"
proof (rule core_fewer [OF assms(1)])
  show "has_role l HC (HR - {ca}) w r fd" if "has_role l HC HR w r fd" "fe_mask (entry w fd) \<noteq> AE_NONE" for r fd
    using that assms(2) by (cases r) auto
qed auto

text \<open>Objects nobody has a role for can be overwritten.\<close>

lemma core_free_ca:
  assumes "core N l HC HR w" "ca \<notin> HC" "ca \<in> HR \<Longrightarrow> conn_apa c = conn w ca"
  shows "core N l HC HR (set_ca ca c w)"
proof -
  have "eps_ok HR w" using assms(1) by (simp add: core_def)
  then have "eps_ok HR (set_ca ca c w)"
    using assms(3) by (intro eps_ok_same [of "set_ca ca c w" w]) (auto simp: set_ca_def ep_ok_def)
  then show ?thesis
    using assms by (intro core_same [OF assms(1)]) (auto simp: same_roles_def idle_def core_def set_ca_def)
qed

lemma core_free_apa:
  assumes "core N l HC HR w" "\<forall>ca \<in> HR. conn w ca \<noteq> a \<or> conn w ca = NULL" "\<forall>k < c_num w. a \<notin> idle w k"
  shows "core N l HC HR (set_apa a b w)"
proof -
  let ?w = "set_apa a b w"
  have role: "has_role l HC HR ?w r fd = has_role l HC HR w r fd" for r fd
    using assms(2,3) by (cases r) (auto simp: set_apa_def idle_def)
  have net: "c_loop ?w = c_loop w" "open_fds (c_net ?w) = open_fds (c_net w)" "interest (c_net ?w) = interest (c_net w)"
    "watch_faults (c_net ?w) = watch_faults (c_net w)" "cas (c_net ?w) = cas (c_net w)" "c_eps ?w = c_eps w"
    "c_num ?w = c_num w" "tick (c_net ?w) = tick (c_net w)"
    by (simp_all add: set_apa_def)
  have ep: "epa ?w (conn w ca) = epa w (conn w ca)" if "ca \<in> HR" "conn w ca \<noteq> NULL" for ca
    using that assms(2) by (auto simp: set_apa_def)
  then have hold: "holders HR ?w k = holders HR w k" for k by (auto simp: holders_def net)
  have items: "epa ?w x = epa w x" if "k < c_num w" "conn_pool (c_eps w ! k) = Some p" "x \<in> set (pool_items p)" for k p x
    using that assms(3) by (auto simp: set_apa_def idle_def)
  have "ep_ok HR ?w k" if k: "ep_ok HR w k" "k < c_num w" for k
  proof -
    obtain p where p: "conn_pool (c_eps w ! k) = Some p" "fixed_pool p" "distinct (pool_items p)"
      "card (holders HR w k) \<le> pool_used p" "\<forall>a \<in> set (pool_items p). epa w a = Some k"
      using k(1) by (auto simp: ep_ok_def)
    then have "\<forall>a \<in> set (pool_items p). epa ?w a = Some k" using items [OF k(2) p(1)] by simp
    then show ?thesis unfolding ep_ok_def hold net using p k(1) by (auto simp: ep_ok_def)
  qed
  then have "eps_ok HR ?w" using assms(1) ep by (auto simp: core_def eps_ok_def net)
  moreover have "roles_ok N l HC HR ?w" using assms(1) by (simp add: core_def roles_ok_def role net)
  moreover have "table_inv N l HC HR ?w"
    using assms(1) by (simp add: core_def table_inv_def role net loop_ok_kernel [of "c_net ?w" "c_net w"])
  ultimately show ?thesis using assms(1) by (simp add: core_def net)
qed

section \<open>The pool of consumer connections\<close>

lemma return_ca_ok:
  assumes "pool_part HP w" "ca \<in> HP"
  shows "\<exists>p1. return_ca ca w = Some (w\<lparr>c_pool := Some p1\<rparr>) \<and> pool_part (HP - {ca}) (w\<lparr>c_pool := Some p1\<rparr>)"
proof -
  obtain p where p: "c_pool w = Some p" "fixed_pool p" "distinct (pool_items p)" "finite HP" "card HP = pool_used p"
    "HP \<inter> set (pool_items p) = {}" "NULL \<notin> HP"
    using assms(1) by (auto simp: pool_part_def)
  have "0 < pool_used p" using p(4,5) assms(2) by (metis card_gt_0_iff empty_iff)
  moreover have "ca \<noteq> NULL" using p(7) assms(2) by auto
  ultimately obtain p1 where r: "PoolReturn p ca (c_net w) = (p1, c_net w)" "fixed_pool p1"
    "pool_items p1 = ca # pool_items p" "Suc (pool_used p1) = pool_used p"
    using pool_put [OF p(2), of ca "c_net w"] by blast
  have "card (HP - {ca}) = pool_used p1" using p(4,5) r(4) assms(2) by simp
  then have "pool_part (HP - {ca}) (w\<lparr>c_pool := Some p1\<rparr>)"
    using p r assms(2) by (auto simp: pool_part_def)
  then show ?thesis using p(1) r(1) by (auto simp: return_ca_def)
qed

lemma core_c_pool: "core N l HC HR (w\<lparr>c_pool := q\<rparr>) = core N l HC HR w"
proof -
  have idle: "idle (w\<lparr>c_pool := q\<rparr>) k = idle w k" for k by (simp add: idle_def)
  have role: "has_role l HC HR (w\<lparr>c_pool := q\<rparr>) r fd = has_role l HC HR w r fd" for r fd
    by (cases r) (simp_all add: idle)
  show ?thesis
    by (simp add: core_def roles_ok_def table_inv_def eps_ok_def ep_ok_def holders_def role)
qed

section \<open>Aborting a connection\<close>

lemma no_second_role:
  assumes "core N l HC HR w" "has_role l HC HR w r fd" "has_role l HC HR w r' fd"
  shows "r' = r"
  using assms unfolding core_def roles_ok_def by blast

lemma role_range:
  assumes "core N l HC HR w" "has_role l HC HR w r fd"
  shows "0 \<le> fd" "fd < N" "open_fds (c_net w) fd"
  using assms unfolding core_def roles_ok_def by blast+

lemma role_bits:
  assumes "core N l HC HR w" "has_role l HC HR w r fd"
  shows "\<forall>n \<ge> 2. \<not> bit (fe_mask (entry w fd)) n"
  using assms role_range [OF assms] by (simp add: core_def table_inv_def)

text \<open>The first half: the consumer's side. The descriptor is closed and the role is gone.\<close>

lemma drop_consumer_side:
  assumes "core N l HC HR w" "ca \<in> HC" "ca_fd c < 0" "conn_apa c = conn w ca"
  shows "\<exists>w1. c_unwatch (fdc w ca) (AE_WRITABLE OR AE_READABLE) w = Some w1 \<and> rewatched w w1 \<and>
    core N l (HC - {ca}) HR (set_ca ca c (c_close (fdc w ca) w1))"
proof -
  have role: "has_role l HC HR w (Ca ca) (fdc w ca)" using assms(2) by simp
  obtain w1 where w1: "c_unwatch (fdc w ca) (AE_WRITABLE OR AE_READABLE) w = Some w1" "core N l HC HR w1" "rewatched w w1"
    "entry w1 (fdc w ca) = cleared (AE_WRITABLE OR AE_READABLE) (entry w (fdc w ca))"
    using unwatch_core [OF assms(1) role_range(1) [OF assms(1) role], of "AE_WRITABLE OR AE_READABLE"]
      role_range(2) [OF assms(1) role] by blast
  note re = rewatched_same [OF w1(3)]
  have "fe_mask (entry w1 (fdc w1 ca)) = AE_NONE"
    using all_cleared [OF role_bits [OF assms(1) role]] w1(4) re by simp
  then have c2: "core N l (HC - {ca}) HR w1" by (rule core_drop_ca [OF w1(2)])
  have role1: "has_role l HC HR w1 (Ca ca) (fdc w ca)" using assms(2) re by simp
  have "\<not> has_role l (HC - {ca}) HR w1 r (fdc w ca)" for r
  proof
    assume r: "has_role l (HC - {ca}) HR w1 r (fdc w ca)"
    then have "has_role l HC HR w1 r (fdc w ca)" by (cases r) auto
    then have "r = Ca ca" by (rule no_second_role [OF w1(2) role1])
    then show False using r by simp
  qed
  then have "core N l (HC - {ca}) HR (c_close (fdc w ca) w1)" by (rule core_close [OF c2])
  then have "core N l (HC - {ca}) HR (set_ca ca c (c_close (fdc w ca) w1))"
    using assms(4) re by (intro core_free_ca) (auto simp: c_close_def sys_close_def os_close_def)
  then show ?thesis using w1 by blast
qed

text \<open>The second half: the provider's side.\<close>

lemma drop_remote_side:
  assumes "core N l HC HR w" "ca \<in> HR" "conn w ca \<noteq> NULL"
  shows "\<exists>w1. c_unwatch (fda w (conn w ca)) (AE_WRITABLE OR AE_READABLE) w = Some w1 \<and> rewatched w w1 \<and>
    core N l HC (HR - {ca}) (set_apa (conn w ca) b (c_close (fda w (conn w ca)) w1))"
proof -
  let ?a = "conn w ca" let ?fd = "fda w ?a"
  have role: "has_role l HC HR w (Remote ca) ?fd" using assms(2,3) by simp
  obtain w1 where w1: "c_unwatch ?fd (AE_WRITABLE OR AE_READABLE) w = Some w1" "core N l HC HR w1" "rewatched w w1"
    "entry w1 ?fd = cleared (AE_WRITABLE OR AE_READABLE) (entry w ?fd)"
    using unwatch_core [OF assms(1) role_range(1) [OF assms(1) role], of "AE_WRITABLE OR AE_READABLE"]
      role_range(2) [OF assms(1) role] by blast
  note re = rewatched_same [OF w1(3)]
  have role1: "has_role l HC HR w1 (Remote ca) ?fd" using role re by simp
  have "fe_mask (entry w1 (fda w1 (conn w1 ca))) = AE_NONE"
    using all_cleared [OF role_bits [OF assms(1) role]] w1(4) re by simp
  then have c2: "core N l HC (HR - {ca}) w1" by (intro core_drop_remote [OF w1(2)])
  have none: "\<not> has_role l HC (HR - {ca}) w1 r ?fd" for r
  proof
    assume r: "has_role l HC (HR - {ca}) w1 r ?fd"
    then have "has_role l HC HR w1 r ?fd" by (cases r) auto
    then have "r = Remote ca" by (rule no_second_role [OF w1(2) role1])
    then show False using r by simp
  qed
  let ?w2 = "c_close ?fd w1"
  have c3: "core N l HC (HR - {ca}) ?w2" using none by (rule core_close [OF c2])
  have w2: "cas (c_net ?w2) = cas (c_net w)" "apas (c_net ?w2) = apas (c_net w)" "c_num ?w2 = c_num w1" "idle ?w2 k = idle w1 k" for k
    using re by (simp_all add: c_close_def sys_close_def os_close_def idle_def)
  have "conn w c' \<noteq> ?a \<or> conn w c' = NULL" if "c' \<in> HR - {ca}" for c'
  proof (rule ccontr)
    assume "\<not> ?thesis"
    then have "has_role l HC (HR - {ca}) w1 (Remote c') ?fd" using that re by auto
    then show False using none by blast
  qed
  moreover have "?a \<notin> idle w1 k" if "k < c_num w1" for k
  proof
    assume "?a \<in> idle w1 k"
    then have "has_role l HC (HR - {ca}) w1 (Idle ?a) ?fd" using that re by auto
    then show False using none by blast
  qed
  ultimately have "core N l HC (HR - {ca}) (set_apa ?a b ?w2)"
    by (intro core_free_apa [OF c3]) (auto simp: w2)
  then show ?thesis using w1 by blast
qed

lemma pool_part_not_NULL: "pool_part HP w \<Longrightarrow> ca \<in> HP \<Longrightarrow> ca \<noteq> NULL"
  by (auto simp: pool_part_def)

lemma abort_ok:
  assumes "cons_inv N l H w" "ca \<in> H"
  shows "\<exists>w'. abort_connection_ca ca w = Some w' \<and> cons_inv N l (H - {ca}) w' \<and> sent (c_net w') = sent (c_net w) \<and>
    cas (c_net w') = (cas (c_net w))(ca := (cas (c_net w) ca)\<lparr>ca_fd := - 1\<rparr>)"
proof -
  have core: "core N l H H w" and pool: "pool_part H w" using assms(1) by (simp_all add: cons_inv_def)
  let ?c = "cas (c_net w) ca" let ?fd = "fdc w ca"
  have nn: "ca \<noteq> NULL" by (rule pool_part_not_NULL [OF pool assms(2)])
  obtain w1 where w1: "c_unwatch ?fd (AE_WRITABLE OR AE_READABLE) w = Some w1" "rewatched w w1"
    "core N l (H - {ca}) H (set_ca ca (?c\<lparr>ca_fd := - 1\<rparr>) (c_close ?fd w1))"
    using drop_consumer_side [OF core assms(2), of "?c\<lparr>ca_fd := - 1\<rparr>"] by auto
  define w3 where "w3 = set_ca ca (?c\<lparr>ca_fd := - 1\<rparr>) (c_close ?fd w1)"
  note re = rewatched_same [OF w1(2)]
  have w3: "apas (c_net w3) = apas (c_net w)" "conn w3 ca = conn w ca" "c_pool w3 = c_pool w"
    "sent (c_net w3) = sent (c_net w)" "cas (c_net w3) = (cas (c_net w))(ca := ?c\<lparr>ca_fd := - 1\<rparr>)"
    using re by (simp_all add: w3_def set_ca_def c_close_def sys_close_def os_close_def)
  obtain w6 where w6: "(if conn_apa ?c \<noteq> NULL then do {
               a \<leftarrow> get_apa (conn_apa ?c) w3;
               w4 \<leftarrow> c_unwatch (apa_fd a) (AE_WRITABLE OR AE_READABLE) w3;
               let w5 = c_close (apa_fd a) w4;
               Some (set_apa (conn_apa ?c) (a\<lparr>apa_fd := - 1\<rparr>) w5)
             } else Some w3) = Some w6" "core N l (H - {ca}) (H - {ca}) w6" "c_pool w6 = c_pool w"
    "sent (c_net w6) = sent (c_net w)" "cas (c_net w6) = (cas (c_net w))(ca := ?c\<lparr>ca_fd := - 1\<rparr>)"
  proof (cases "conn w ca = NULL")
    case True
    then show thesis using that [of w3] core_drop_remote [OF w1(3)] w3 by (simp add: w3_def)
  next
    case False
    let ?a = "conn w ca"
    obtain w4 where w4: "c_unwatch (fda w ?a) (AE_WRITABLE OR AE_READABLE) w3 = Some w4" "rewatched w3 w4"
      "core N l (H - {ca}) (H - {ca}) (set_apa ?a ((apas (c_net w) ?a)\<lparr>apa_fd := - 1\<rparr>) (c_close (fda w ?a) w4))"
      using drop_remote_side [OF w1(3) assms(2), of "(apas (c_net w) ?a)\<lparr>apa_fd := - 1\<rparr>"] False w3
      by (auto simp: w3_def [symmetric])
    then show thesis
      using that [of "set_apa ?a ((apas (c_net w) ?a)\<lparr>apa_fd := - 1\<rparr>) (c_close (fda w ?a) w4)"] False
        rewatched_same [OF w4(2)] w3
      by (simp add: get_apa_def set_apa_def c_close_def sys_close_def os_close_def)
  qed
  have "pool_part H w6" using pool pool_part_same [of w6 w] w6(3) by simp
  then obtain p1 where ret: "return_ca ca w6 = Some (w6\<lparr>c_pool := Some p1\<rparr>)" "pool_part (H - {ca}) (w6\<lparr>c_pool := Some p1\<rparr>)"
    using return_ca_ok [OF _ assms(2)] by blast
  have "abort_connection_ca ca w = return_ca ca w6"
    unfolding abort_connection_ca_def get_ca_def using nn w1(1) w6(1)
    by (cases "conn w ca = NULL") (auto simp: Let_def w3_def [symmetric] bind_eq_Some_conv)
  then show ?thesis using ret w6(2,4,5) by (auto simp: cons_inv_def core_c_pool)
qed

section \<open>Borrowing and giving back a provider's connection\<close>

text \<open>
  Both only rename one role, so the uniqueness of roles carries over along the renaming.
\<close>

lemma roles_ok_renamed:
  assumes "roles_ok N l HC HR w" "open_fds (c_net w') = open_fds (c_net w)"
    and ren: "\<And>r fd. has_role l HC' HR' w' r fd \<Longrightarrow> has_role l HC HR w (f r) fd"
    and inj: "\<And>r r' fd. has_role l HC' HR' w' r fd \<Longrightarrow> has_role l HC' HR' w' r' fd \<Longrightarrow> f r = f r' \<Longrightarrow> r = r'"
  shows "roles_ok N l HC' HR' w'"
proof -
  have "r = r'" if "has_role l HC' HR' w' r fd" "has_role l HC' HR' w' r' fd" for r r' fd
    using inj [OF that] ren [OF that(1)] ren [OF that(2)] assms(1) unfolding roles_ok_def by blast
  moreover have "0 \<le> fd \<and> fd < N \<and> open_fds (c_net w') fd" if "has_role l HC' HR' w' r fd" for r fd
    using ren [OF that] assms(1,2) unfolding roles_ok_def by simp
  ultimately show ?thesis by (auto simp: roles_ok_def)
qed

lemma table_inv_renamed:
  assumes "table_inv N l HC HR w" "c_loop w' = c_loop w" "interest (c_net w') = interest (c_net w)"
    and "open_fds (c_net w') = open_fds (c_net w)" "watch_faults (c_net w') = watch_faults (c_net w)"
    and keep: "\<And>r fd. has_role l HC HR w r fd \<Longrightarrow> entry_ok r (entry w fd) \<Longrightarrow> fe_mask (entry w fd) \<noteq> AE_NONE \<Longrightarrow>
      has_role l HC' HR' w' r fd"
  shows "table_inv N l HC' HR' w'"
proof -
  have "\<exists>r. has_role l HC' HR' w' r fd \<and> entry_ok r (entry w fd)"
    if used: "0 \<le> fd" "fd < N" "fe_mask (entry w fd) \<noteq> AE_NONE" for fd
  proof -
    obtain r where "has_role l HC HR w r fd" "entry_ok r (entry w fd)"
      using assms(1) used unfolding table_inv_def by blast
    then show ?thesis using keep used(3) by blast
  qed
  then show ?thesis
    using assms(1-5) by (simp add: table_inv_def loop_ok_kernel [of "c_net w'" "c_net w"])
qed

definition lent :: "nat \<Rightarrow> cnet Pool \<Rightarrow> consumer \<Rightarrow> consumer" where
  "lent k p w = w\<lparr>c_eps := (c_eps w)[k := (c_eps w ! k)\<lparr>conn_pool := Some p\<rparr>]\<rparr>"

lemma lent_simps [simp]:
  "c_net (lent k p w) = c_net w" "c_loop (lent k p w) = c_loop w" "c_num (lent k p w) = c_num w"
  "c_pool (lent k p w) = c_pool w" "length (c_eps (lent k p w)) = length (c_eps w)"
  by (simp_all add: lent_def)

lemma lent_ep: "k < length (c_eps w) \<Longrightarrow>
    c_eps (lent k p w) ! j = (if j = k then (c_eps w ! k)\<lparr>conn_pool := Some p\<rparr> else c_eps w ! j)"
  by (simp add: lent_def)

lemma idle_lent: "k < length (c_eps w) \<Longrightarrow> idle (lent k p w) j = (if j = k then set (pool_items p) else idle w j)"
  by (simp add: idle_def lent_ep)

lemma finite_holders: "eps_ok HR w \<Longrightarrow> finite (holders HR w k)"
  by (simp add: eps_ok_def holders_def)

text \<open>An idle connection of an endpoint is idle there only, and nobody's partner.\<close>

lemma eps_pool:
  assumes "eps_ok HR w" "k < c_num w"
  obtains p where "conn_pool (c_eps w ! k) = Some p" "fixed_pool p" "distinct (pool_items p)"
    "card (holders HR w k) \<le> pool_used p" "\<And>a. a \<in> set (pool_items p) \<Longrightarrow> epa w a = Some k"
    "idle w k = set (pool_items p)"
  using assms by (auto simp: eps_ok_def ep_ok_def idle_def)

lemma idle_unique:
  assumes "eps_ok HR w" "k < c_num w" "j < c_num w" "a \<in> idle w k" "a \<in> idle w j"
  shows "j = k"
  using eps_pool [OF assms(1,2)] eps_pool [OF assms(1,3)] assms(4,5) by (metis option.inject)

lemma idle_not_held:
  assumes "core N l HC HR w" "k < c_num w" "a \<in> idle w k" "ca \<in> HR" "conn w ca = a"
  shows "a = NULL"
proof (rule ccontr)
  assume "a \<noteq> NULL"
  then have "has_role l HC HR w (Remote ca) (fda w a)" "has_role l HC HR w (Idle a) (fda w a)"
    using assms(2-5) by auto
  then show False using no_second_role [OF assms(1)] by blast
qed

definition partner :: "addr \<Rightarrow> addr \<Rightarrow> consumer \<Rightarrow> consumer" where
  "partner ca a w = set_ca ca ((cas (c_net w) ca)\<lparr>conn_apa := a\<rparr>) w"

lemma partner_simps [simp]:
  "c_loop (partner ca a w) = c_loop w" "c_num (partner ca a w) = c_num w" "c_eps (partner ca a w) = c_eps w"
  "c_pool (partner ca a w) = c_pool w" "apas (c_net (partner ca a w)) = apas (c_net w)"
  "open_fds (c_net (partner ca a w)) = open_fds (c_net w)" "interest (c_net (partner ca a w)) = interest (c_net w)"
  "watch_faults (c_net (partner ca a w)) = watch_faults (c_net w)" "tick (c_net (partner ca a w)) = tick (c_net w)"
  "fdc (partner ca a w) c = fdc w c" "conn (partner ca a w) c = (if c = ca then a else conn w c)"
  "idle (partner ca a w) k = idle w k"
  "buf_ok (cas (c_net (partner ca a w)) c) = buf_ok (cas (c_net w) c)"
  by (simp_all add: partner_def set_ca_def idle_def buf_ok_def)

lemma borrow_core:
  assumes core: "core N l HC HR w" and k: "k < c_num w" and ca: "ca \<in> HR" "conn w ca = NULL"
    and p: "conn_pool (c_eps w ! k) = Some p" "pool_items p = d # ds" "d \<noteq> NULL"
    and q: "fixed_pool q" "pool_items q = ds" "pool_used q = Suc (pool_used p)"
  shows "core N l HC HR (partner ca d (lent k q w))"
proof -
  let ?w = "partner ca d (lent k q w)"
  have roles: "roles_ok N l HC HR w" and tab: "table_inv N l HC HR w" and eps: "eps_ok HR w"
    and bufs: "\<forall>c \<in> HC. buf_ok (cas (c_net w) c)"
    using core by (simp_all add: core_def)
  have len: "k < length (c_eps w)" using eps k by (simp add: eps_ok_def)
  have idle: "idle w k = set (d # ds)" using p by (simp add: idle_def)
  have dist: "d \<notin> set ds" "distinct ds" "epa w d = Some k"
    "\<And>a. a \<in> set ds \<Longrightarrow> epa w a = Some k" "card (holders HR w k) \<le> pool_used p"
    using eps_pool [OF eps k] p by (metis distinct.simps(2) list.set_intros option.inject)+
  define f where "f = (\<lambda>r. if r = Remote ca then Idle d else r)"
  have ren: "has_role l HC HR w (f r) fd" if "has_role l HC HR ?w r fd" for r fd
    using that idle p(3) q(2) ca(1) k by (cases r) (auto simp: f_def idle_lent [OF len] split: if_splits)
  have no_d: "\<not> has_role l HC HR ?w (Idle d) fd" for fd
    using idle_unique [OF eps k] idle dist(1) q(2) by (auto simp: idle_lent [OF len] split: if_splits)
  have "roles_ok N l HC HR ?w"
  proof (rule roles_ok_renamed [OF roles])
    show "has_role l HC HR w (f r) fd" if "has_role l HC HR ?w r fd" for r fd by (rule ren [OF that])
    show "r = r'" if "has_role l HC HR ?w r fd" "has_role l HC HR ?w r' fd" "f r = f r'" for r r' fd
      using that(3) no_d [of fd] that(1,2) unfolding f_def by (cases "r = Remote ca"; cases "r' = Remote ca") metis+
  qed simp
  moreover have "table_inv N l HC HR ?w"
  proof (rule table_inv_renamed [OF tab])
    show "has_role l HC HR ?w r fd" if "has_role l HC HR w r fd" "entry_ok r (entry w fd)" for r fd
      using that ca(2) by (cases r) auto
  qed simp_all
  moreover have "ep_ok HR ?w j" if j: "j < c_num w" for j
  proof (cases "j = k")
    case True
    have "holders HR ?w k \<subseteq> insert ca (holders HR w k)" by (auto simp: holders_def)
    then have "card (holders HR ?w k) \<le> card (insert ca (holders HR w k))"
      using finite_holders [OF eps] by (intro card_mono) auto
    also have "\<dots> \<le> Suc (card (holders HR w k))" using finite_holders [OF eps, of k] by (simp add: card_insert_if)
    finally have "card (holders HR ?w k) \<le> Suc (card (holders HR w k))" .
    then show ?thesis
      using eps k dist q True by (auto simp: ep_ok_def lent_ep [OF len] eps_ok_def)
  next
    case False
    have "holders HR ?w j = holders HR w j" using False dist(3) ca(2) by (auto simp: holders_def)
    then show ?thesis
      using eps j False by (auto simp: ep_ok_def lent_ep [OF len] eps_ok_def)
  qed
  then have "eps_ok HR ?w" using eps k dist(3) by (auto simp: eps_ok_def)
  ultimately show ?thesis using bufs by (simp add: core_def)
qed

lemma release_core:
  assumes core: "core N l HC HR w" and ca: "ca \<in> HR" "conn w ca \<noteq> NULL" "epa w (conn w ca) = Some k"
    and quiet: "fe_mask (entry w (fda w (conn w ca))) = AE_NONE"
    and p: "conn_pool (c_eps w ! k) = Some p"
    and q: "fixed_pool q" "pool_items q = conn w ca # pool_items p" "Suc (pool_used q) = pool_used p"
  shows "core N l HC HR (partner ca NULL (lent k q w))"
proof -
  let ?a = "conn w ca" let ?w = "partner ca NULL (lent k q w)"
  have roles: "roles_ok N l HC HR w" and tab: "table_inv N l HC HR w" and eps: "eps_ok HR w"
    and bufs: "\<forall>c \<in> HC. buf_ok (cas (c_net w) c)"
    using core by (simp_all add: core_def)
  have k: "k < c_num w" using eps ca by (auto simp: eps_ok_def)
  have len: "k < length (c_eps w)" using eps k by (simp add: eps_ok_def)
  have idle: "idle w k = set (pool_items p)" using p by (simp add: idle_def)
  have held: "?a \<notin> idle w j" if "j < c_num w" for j using idle_not_held [OF core that _ ca(1) refl] ca(2) by blast
  have dist: "distinct (pool_items p)" "\<And>a. a \<in> set (pool_items p) \<Longrightarrow> epa w a = Some k"
    "card (holders HR w k) \<le> pool_used p"
    using eps_pool [OF eps k] p by (metis option.inject)+
  have alone: "conn w c \<noteq> ?a" if "c \<in> HR" "c \<noteq> ca" for c
  proof
    assume "conn w c = ?a"
    then have "has_role l HC HR w (Remote c) (fda w ?a)" "has_role l HC HR w (Remote ca) (fda w ?a)"
      using that ca by auto
    then show False using no_second_role [OF core] that(2) by blast
  qed
  define f where "f = (\<lambda>r. if r = Idle ?a then Remote ca else r)"
  have ren: "has_role l HC HR w (f r) fd" if "has_role l HC HR ?w r fd" for r fd
    using that idle q(2) ca k by (cases r) (auto simp: f_def idle_lent [OF len] split: if_splits)
  have no_ca: "\<not> has_role l HC HR ?w (Remote ca) fd" for fd by simp
  have "roles_ok N l HC HR ?w"
  proof (rule roles_ok_renamed [OF roles])
    show "has_role l HC HR w (f r) fd" if "has_role l HC HR ?w r fd" for r fd by (rule ren [OF that])
    show "r = r'" if "has_role l HC HR ?w r fd" "has_role l HC HR ?w r' fd" "f r = f r'" for r r' fd
      using that(3) no_ca [of fd] that(1,2) unfolding f_def by (cases "r = Idle ?a"; cases "r' = Idle ?a") metis+
  qed simp
  moreover have "table_inv N l HC HR ?w"
  proof (rule table_inv_renamed [OF tab])
    show "has_role l HC HR ?w r fd"
      if "has_role l HC HR w r fd" "entry_ok r (entry w fd)" "fe_mask (entry w fd) \<noteq> AE_NONE" for r fd
      using that quiet by (cases r) auto
  qed simp_all
  moreover have "ep_ok HR ?w j" if j: "j < c_num w" for j
  proof (cases "j = k")
    case True
    have "holders HR ?w k = holders HR w k - {ca}" "ca \<in> holders HR w k"
      using ca by (auto simp: holders_def)
    then have "Suc (card (holders HR ?w k)) = card (holders HR w k)"
      using finite_holders [OF eps] by (metis card.remove)
    then have "card (holders HR ?w k) \<le> pool_used q" using dist(3) q(3) by linarith
    moreover have "distinct (pool_items q)" "\<forall>a \<in> set (pool_items q). epa w a = Some k"
      using dist q(2) held [OF k] idle ca(3) by auto
    moreover have "ep_ok HR w k" using eps k by (simp add: eps_ok_def)
    ultimately show ?thesis using q(1) unfolding ep_ok_def True by (simp add: lent_ep [OF len])
  next
    case False
    have "holders HR ?w j = holders HR w j" using False ca by (auto simp: holders_def)
    then show ?thesis
      using eps j False by (auto simp: ep_ok_def lent_ep [OF len] eps_ok_def)
  qed
  then have "eps_ok HR ?w" using eps by (auto simp: eps_ok_def)
  ultimately show ?thesis using bufs by (simp add: core_def)
qed

lemma same_pool: "conn_pool e = Some p \<Longrightarrow> e\<lparr>conn_pool := Some p\<rparr> = e"
  by (cases e) simp

text \<open>The code's operations in these terms.\<close>

lemma take_apa_cases:
  assumes "core N l HC HR w" "k < c_num w" "ca \<in> HR" "conn w ca = NULL"
  obtains "take_apa k w = Some (NULL, w)" "idle w k = {}"
  | a q where "a \<noteq> NULL" "take_apa k w = Some (a, lent k q w)" "core N l HC HR (partner ca a (lent k q w))" "a \<in> idle w k"
proof -
  have eps: "eps_ok HR w" using assms(1) by (simp add: core_def)
  have at: "ep_at (c_eps w) k = Some (c_eps w ! k)" using eps assms(2) by (simp add: ep_at_def eps_ok_def)
  obtain p where p: "conn_pool (c_eps w ! k) = Some p" "fixed_pool p" using eps_pool [OF eps assms(2)] by metis
  show thesis
  proof (rule pool_get_cases [OF p(2), of "c_net w"])
    assume none: "pool_items p = []" "PoolGet p (c_net w) = (NULL, p, c_net w)"
    moreover have "(c_eps w)[k := (c_eps w ! k)\<lparr>conn_pool := Some p\<rparr>] = c_eps w"
      using p(1) by (simp add: same_pool)
    ultimately have "take_apa k w = Some (NULL, w)"
      using p(1) unfolding take_apa_def at by simp
    moreover have "idle w k = {}" using none(1) p(1) by (simp add: idle_def)
    ultimately show thesis by (rule that(1))
  next
    fix d ds q
    assume d: "pool_items p = d # ds" "d \<noteq> NULL" "PoolGet p (c_net w) = (d, q, c_net w)" "fixed_pool q"
      "pool_items q = ds" "pool_used q = Suc (pool_used p)"
    have "take_apa k w = Some (d, lent k q w)" using p(1) d(3) unfolding take_apa_def at by (simp add: lent_def)
    moreover have "d \<in> idle w k" using d(1) p(1) by (simp add: idle_def)
    ultimately show thesis
      using that(2) d(2) borrow_core [OF assms(1,2,3,4) p(1) d(1,2,4,5,6)] by blast
  qed
qed

lemma return_apa_ok:
  assumes "core N l HC HR w" "ca \<in> HR" "conn w ca \<noteq> NULL" "epa w (conn w ca) = Some k"
    and "fe_mask (entry w (fda w (conn w ca))) = AE_NONE"
  shows "\<exists>q. return_apa k (conn w ca) w = Some (lent k q w) \<and> core N l HC HR (partner ca NULL (lent k q w)) \<and>
    conn w ca \<in> set (pool_items q)"
proof -
  have eps: "eps_ok HR w" using assms(1) by (simp add: core_def)
  have k: "k < c_num w" using eps assms(2-4) by (auto simp: eps_ok_def)
  have at: "ep_at (c_eps w) k = Some (c_eps w ! k)" using eps k by (simp add: ep_at_def eps_ok_def)
  obtain p where p: "conn_pool (c_eps w ! k) = Some p" "fixed_pool p" "card (holders HR w k) \<le> pool_used p"
    using eps_pool [OF eps k] by metis
  have "ca \<in> holders HR w k" "finite (holders HR w k)" using assms(2-4) finite_holders [OF eps] by (auto simp: holders_def)
  then have "0 < pool_used p" using p(3) by (metis card_gt_0_iff empty_iff less_le_trans)
  then obtain q where q: "PoolReturn p (conn w ca) (c_net w) = (q, c_net w)" "fixed_pool q"
    "pool_items q = conn w ca # pool_items p" "Suc (pool_used q) = pool_used p"
    using pool_put [OF p(2) _ assms(3), of "c_net w"] by blast
  have "return_apa k (conn w ca) w = Some (lent k q w)"
    using p(1) q(1) unfolding return_apa_def at by (simp add: lent_def)
  moreover have "conn w ca \<in> set (pool_items q)" using q(3) by simp
  ultimately show ?thesis using release_core [OF assms p(1) q(2-4)] by blast
qed

end
