(* ===== verification/Consumer_Handlers.thy ===== *)
theory Consumer_Handlers
  imports Consumer_Steps
begin

text \<open>
  Every handler of the consumer agent, called with the object its event is registered for, returns
  and keeps the invariant, for some set of connections. The environment is assumed \<open>orderly\<close>.
\<close>

section \<open>The environment\<close>

text \<open>
  A consumer sends less than the buffer holds, waits for its answer before it closes the
  connection, and the process reads less than \<open>2 ^ 31 - 2\<close> times, so that the request counters
  stay positive. Providers, refused writes, errors and the arrival of connections are not
  restricted.
\<close>

definition orderly :: "cnet env \<Rightarrow> bool" where
  "orderly E \<longleftrightarrow> (\<forall>fd k n.
     (\<forall>s. env_read E fd k n = RdData s \<longrightarrow> tick n < 2 ^ 31 - 2 \<and>
        (\<forall>ca. ca_fd (cas n ca) = fd \<longrightarrow> length s < k \<and> (conn_apa (cas n ca) \<noteq> NULL \<longrightarrow> s \<noteq> []))) \<and>
     (env_read E fd k n = RdEof \<longrightarrow> (\<forall>ca. ca_fd (cas n ca) = fd \<longrightarrow> conn_apa (cas n ca) = NULL)))"

abbreviation safe :: "int \<Rightarrow> fd \<Rightarrow> consumer option \<Rightarrow> bool" where
  "safe N l res \<equiv> \<exists>w' H'. res = Some w' \<and> cons_inv N l H' w'"

definition ticked :: "(fd \<Rightarrow> string) \<Rightarrow> consumer \<Rightarrow> consumer" where
  "ticked s w = w\<lparr>c_net := (c_net w)\<lparr>sent := s, tick := Suc (tick (c_net w))\<rparr>\<rparr>"

lemma ticked_simps [simp]:
  "c_loop (ticked s w) = c_loop w" "c_num (ticked s w) = c_num w" "c_eps (ticked s w) = c_eps w"
  "c_pool (ticked s w) = c_pool w" "apas (c_net (ticked s w)) = apas (c_net w)" "cas (c_net (ticked s w)) = cas (c_net w)"
  "open_fds (c_net (ticked s w)) = open_fds (c_net w)" "tick (c_net (ticked s w)) = Suc (tick (c_net w))"
  by (simp_all add: ticked_def)

lemma cons_inv_ticked: "cons_inv N l H w \<Longrightarrow> cons_inv N l H (ticked s w)"
  unfolding cons_inv_def ticked_def
  using core_data [of N l H H w "Suc (tick (c_net w))" s] by (simp add: pool_part_def)

lemma sys_read_ticked:
  "c_sys (sys_read E fd k) w = (r, w1) \<Longrightarrow> w1 = ticked (sent (c_net w)) w"
  by (auto simp: c_sys_def sys_read_def tock_def ticked_def split: if_splits rd.splits)

lemma sys_write_ticked:
  "c_sys (sys_write E fd out) w = (r, w1) \<Longrightarrow> w1 = ticked (sent (c_net w1)) w"
  by (auto simp: c_sys_def sys_write_def tock_def ticked_def split: if_splits wr.splits)

lemma sys_time_ticked: "c_sys (sys_time E) w = (t, w1) \<Longrightarrow> w1 = ticked (sent (c_net w)) w"
  by (auto simp: c_sys_def sys_time_def tock_def ticked_def)

lemma sys_write_some:
  "c_sys (sys_write E fd out) w = (WrSome n, w1) \<Longrightarrow> n \<le> length out"
  by (auto simp: c_sys_def sys_write_def tock_def split: if_splits wr.splits)

lemma sys_read_data:
  assumes "c_sys (sys_read E fd k) w = (RdData s, w1)"
  shows "s \<noteq> [] \<and> length s \<le> k \<and> (\<exists>x. env_read E fd k (c_net w) = RdData x \<and> s = take k x)"
  using assms by (auto simp: c_sys_def sys_read_def split: if_splits rd.splits)

lemma sys_read_eof:
  assumes "c_sys (sys_read E fd k) w = (RdEof, w1)" "0 < k"
  shows "env_read E fd k (c_net w) = RdEof \<or> env_read E fd k (c_net w) = RdData []"
  using assms by (auto simp: c_sys_def sys_read_def split: if_splits rd.splits)

section \<open>Roles of a holder\<close>

lemma holder_fd:
  assumes "cons_inv N l H w" "ca \<in> H"
  shows "ca \<noteq> NULL" "0 \<le> fdc w ca" "fdc w ca < N" "open_fds (c_net w) (fdc w ca)" "buf_ok (cas (c_net w) ca)"
proof -
  have c: "core N l H H w" and p: "pool_part H w" using assms(1) by (simp_all add: cons_inv_def)
  have "has_role l H H w (Ca ca) (fdc w ca)" using assms(2) by simp
  from role_range [OF c this] show "0 \<le> fdc w ca" "fdc w ca < N" "open_fds (c_net w) (fdc w ca)" .
  show "ca \<noteq> NULL" by (rule pool_part_not_NULL [OF p assms(2)])
  show "buf_ok (cas (c_net w) ca)" using c assms(2) by (simp add: core_def)
qed

lemma cons_inv_set_ca:
  assumes "cons_inv N l H w" "ca_fd c = fdc w ca" "conn_apa c = conn w ca" "buf_ok c"
  shows "cons_inv N l H (set_ca ca c w)"
  using assms core_set_ca [of N l H H w c ca] by (simp add: cons_inv_def pool_part_def set_ca_def)

lemma cons_inv_rewatched:
  assumes "cons_inv N l H w" "core N l H H w'" "rewatched w w'"
  shows "cons_inv N l H w'"
  using assms rewatched_same(3) [OF assms(3)] by (simp add: cons_inv_def)

lemma watch_ok:
  assumes "cons_inv N l H w" "has_role l H H w r fd" "proc_for r m p" "d = owner r"
  obtains w' where "c_watch fd m p d w = Some (AE_OK, w')" "cons_inv N l H w'" "rewatched w w'"
  using watch_core [of N l H H w r fd m p] assms cons_inv_rewatched unfolding cons_inv_def by metis

lemma unwatch_ok:
  assumes "cons_inv N l H w" "0 \<le> fd" "fd < N"
  obtains w' where "c_unwatch fd m w = Some w'" "cons_inv N l H w'" "rewatched w w'"
    "entry w' fd = cleared m (entry w fd)" "\<forall>g. g \<noteq> fd \<longrightarrow> entry w' g = entry w g"
proof -
  have "core N l H H w" using assms(1) by (simp add: cons_inv_def)
  from unwatch_core [OF this assms(2), of m] obtain w' where "c_unwatch fd m w = Some w'" "core N l H H w'" "rewatched w w'"
    "entry w' fd = cleared m (entry w fd)" "\<forall>g. g \<noteq> fd \<longrightarrow> entry w' g = entry w g"
    using assms(3) by blast
  then show thesis using that cons_inv_rewatched [OF assms(1)] by blast
qed

lemma holder_partner:
  assumes "cons_inv N l H w" "ca \<in> H" "conn w ca \<noteq> NULL"
  shows "has_role l H H w (Remote ca) (fda w (conn w ca))" "0 \<le> fda w (conn w ca)" "fda w (conn w ca) < N"
    "\<exists>k < c_num w. epa w (conn w ca) = Some k"
proof -
  have c: "core N l H H w" using assms(1) by (simp add: cons_inv_def)
  show role: "has_role l H H w (Remote ca) (fda w (conn w ca))" using assms(2,3) by simp
  show "0 \<le> fda w (conn w ca)" "fda w (conn w ca) < N" using role_range [OF c role] by blast+
  show "\<exists>k < c_num w. epa w (conn w ca) = Some k" using c assms(2,3) by (simp add: core_def eps_ok_def)
qed

lemma abort_safe:
  assumes "cons_inv N l H w" "ca \<in> H"
  shows "safe N l (abort_connection_ca ca w)"
  using abort_ok [OF assms] by blast

text \<open>The end of a connection between two exchanges.\<close>

lemma set_ca_close: "c_close fd (set_ca ca c w) = set_ca ca c (c_close fd w)"
  by (simp add: c_close_def set_ca_def sys_close_def os_close_def)

lemma close_pool: "set_ca ca c (c_close fd (w\<lparr>c_pool := p\<rparr>)) = (set_ca ca c (c_close fd w))\<lparr>c_pool := p\<rparr>"
  by (simp add: c_close_def set_ca_def)

lemma hang_up_safe:
  assumes "cons_inv N l H w" "ca \<in> H" "conn w ca = NULL"
  shows "safe N l (do {
     w2 \<leftarrow> c_unwatch (fdc w ca) (AE_WRITABLE OR AE_READABLE) w;
     w3 \<leftarrow> return_ca ca w2;
     c3 \<leftarrow> get_ca ca w3;
     Some (c_close (fdc w ca) (set_ca ca (c3\<lparr>ca_fd := - 1\<rparr>) w3))
   })"
proof -
  let ?c = "(cas (c_net w) ca)\<lparr>ca_fd := - 1\<rparr>" let ?fd = "fdc w ca"
  have core: "core N l H H w" and pool: "pool_part H w" using assms(1) by (simp_all add: cons_inv_def)
  obtain w1 where w1: "c_unwatch ?fd (AE_WRITABLE OR AE_READABLE) w = Some w1" "rewatched w w1"
    "core N l (H - {ca}) H (set_ca ca ?c (c_close ?fd w1))"
    using drop_consumer_side [OF core assms(2), of ?c] by auto
  note re = rewatched_same [OF w1(2)]
  let ?w = "set_ca ca ?c (c_close ?fd w1)"
  have "pool_part H w1" using pool re by simp
  then obtain p where p: "return_ca ca w1 = Some (w1\<lparr>c_pool := Some p\<rparr>)" "pool_part (H - {ca}) (w1\<lparr>c_pool := Some p\<rparr>)"
    using return_ca_ok [OF _ assms(2)] by blast
  have "conn ?w ca = NULL" using assms(3) by (simp add: set_ca_def)
  then have "core N l (H - {ca}) (H - {ca}) ?w" by (intro core_drop_remote [OF w1(3)]) simp
  then have "cons_inv N l (H - {ca}) (?w\<lparr>c_pool := Some p\<rparr>)"
    using p(2) by (simp add: cons_inv_def core_c_pool pool_part_def)
  then show ?thesis
    using w1(1) p(1) re holder_fd(1) [OF assms(1,2)] by (auto simp: get_ca_def set_ca_close close_pool)
qed

section \<open>Between consumer and provider\<close>

lemma watch_remote_safe:
  assumes "cons_inv N l H w" "ca \<in> H" "conn w ca \<noteq> NULL"
  shows "safe N l (watch_remote ca (conn w ca) w)"
proof -
  let ?a = "conn w ca" let ?fd = "fda w ?a"
  obtain w1 where w1: "c_watch ?fd AE_WRITABLE Write_to_remote_agent ca w = Some (AE_OK, w1)" "cons_inv N l H w1" "rewatched w w1"
    by (rule watch_ok [OF assms(1) holder_partner(1) [OF assms], of AE_WRITABLE Write_to_remote_agent ca]) auto
  note re = rewatched_same [OF w1(3)]
  have conn1: "conn w1 ca = ?a" "fda w1 ?a = ?fd" using re by simp_all
  obtain w2 where w2: "c_watch ?fd AE_READABLE Read_from_remote_agent ca w1 = Some (AE_OK, w2)" "cons_inv N l H w2"
    using watch_ok [OF w1(2), of "Remote ca" ?fd AE_READABLE Read_from_remote_agent ca] conn1 assms(2,3) by auto
  have "watch_remote ca ?a w = Some w2"
    using w1(1) w2(1) re assms(3) by (simp add: watch_remote_def get_apa_def AE_OK_def AE_ERR_def)
  then show ?thesis using w2(2) by blast
qed

text \<open>\<open>watch_remote\<close> after a connection was borrowed or with the one held already.\<close>

lemma table_ok_inv: "eps_ok HR w \<Longrightarrow> table_ok (c_eps w) (c_num w)"
  by (fastforce simp: eps_ok_def ep_ok_def table_ok_def)

lemma read_from_consumer_safe:
  assumes E: "orderly E" and inv: "cons_inv N l H w" and ca: "ca \<in> H" and fd: "fdc w ca = fd"
  shows "safe N l (read_from_consumer E fd ca w)"
proof -
  let ?c = "cas (c_net w) ca" let ?k = "nat (int CONSUMER_HTTP_REQ_BUF_SIZE - nread_in ?c)"
  have get: "get_ca ca w = Some ?c" "\<not> fd < 0" "fd < N" using holder_fd [OF inv ca] fd by (auto simp: get_ca_def)
  have buf: "buf_ok ?c" by (rule holder_fd(5) [OF inv ca])
  then have k: "0 < ?k" by (simp add: buf_ok_def)
  obtain r w1 where sys: "c_sys (sys_read E fd ?k) w = (r, w1)" by (cases "c_sys (sys_read E fd ?k) w")
  have w1: "w1 = ticked (sent (c_net w)) w" by (rule sys_read_ticked [OF sys])
  have inv1: "cons_inv N l H w1" using cons_inv_ticked [OF inv] w1 by simp
  show ?thesis
  proof (cases r)
    case (RdData s)
    obtain x where x: "s \<noteq> []" "env_read E fd ?k (c_net w) = RdData x" "s = take ?k x" "length s \<le> ?k"
      using sys_read_data [OF sys [unfolded RdData]] by blast
    have "length x < ?k" using E x(2) fd unfolding orderly_def by blast
    then have len: "length s < ?k" using x(3) by simp
    define c1 where "c1 = ?c\<lparr>buf_in := blit (nat (nread_in ?c)) s (buf_in ?c), nread_in := nread_in ?c + int (length s),
      nread_out := 0, nwrite_out := 0\<rparr>"
    define w2 where "w2 = set_ca ca c1 w1"
    have c1: "ca_fd c1 = fdc w1 ca" "conn_apa c1 = conn w1 ca" "buf_ok c1"
      using buf len by (auto simp: c1_def w1 buf_ok_def)
    have inv2: "cons_inv N l H w2" using cons_inv_set_ca [OF inv1 c1] by (simp add: w2_def)
    have at: "cas (c_net w2) ca = c1" "conn w2 ca = conn w ca" "conn_apa c1 = conn w ca"
      using c1(2) by (simp_all add: w2_def set_ca_def w1)
    show ?thesis
    proof (cases "conn w ca = NULL")
      case False
      have "read_from_consumer E fd ca w = watch_remote ca (conn w2 ca) w2"
        using get(1,2) fd sys at False
        by (simp add: read_from_consumer_def RdData c1_def [symmetric] w2_def [symmetric] Let_def)
      then show ?thesis using watch_remote_safe [OF inv2 ca] at False by simp
    next
      case True
      have core2: "core N l H H w2" and pool2: "pool_part H w2" using inv2 by (simp_all add: cons_inv_def)
      then have "table_ok (c_eps w2) (c_num w2)" using table_ok_inv [of H w2] by (simp add: core_def)
      then obtain k where k: "get_endpoint_min_latency (c_eps w2) (c_num w2) = Some k" "k < c_num w2"
        using min_latency.chosen by blast
      have split: "read_from_consumer E fd ca w =
          (do { (apa, w3) \<leftarrow> take_apa k w2;
             if apa = NULL then abort_connection_ca ca w3
             else watch_remote ca apa (set_ca ca (c1\<lparr>conn_apa := apa\<rparr>) w3) })"
        using get(1,2) fd sys at True k(1)
        by (simp add: read_from_consumer_def RdData c1_def [symmetric] w2_def [symmetric] Let_def)
      show ?thesis
      proof (rule take_apa_cases [OF core2 k(2) ca])
        show "conn w2 ca = NULL" using at True by simp
      next
        assume "take_apa k w2 = Some (NULL, w2)"
        then show ?thesis using split abort_safe [OF inv2 ca] by simp
      next
        fix a q
        assume a: "a \<noteq> NULL" "take_apa k w2 = Some (a, lent k q w2)" "core N l H H (partner ca a (lent k q w2))"
        have "cons_inv N l H (partner ca a (lent k q w2))" using a(3) pool2 by (simp add: cons_inv_def pool_part_def)
        moreover have "partner ca a (lent k q w2) = set_ca ca (c1\<lparr>conn_apa := a\<rparr>) (lent k q w2)"
          using at by (simp add: partner_def)
        moreover have "conn (partner ca a (lent k q w2)) ca = a" by simp
        ultimately show ?thesis using split a(1,2) watch_remote_safe [of N l H "partner ca a (lent k q w2)" ca] ca by simp
      qed
    qed
  next
    case RdErr
    then have "read_from_consumer E fd ca w = abort_connection_ca ca w1"
      using get(1,2) fd sys by (simp add: read_from_consumer_def)
    then show ?thesis using abort_safe [OF inv1 ca] by simp
  next
    case RdAgain
    then have "read_from_consumer E fd ca w = Some w1" using get(1,2) fd sys by (simp add: read_from_consumer_def)
    then show ?thesis using inv1 by blast
  next
    case RdEof
    then have "env_read E fd ?k (c_net w) = RdEof \<or> env_read E fd ?k (c_net w) = RdData []"
      using sys_read_eof [OF _ k] sys by blast
    then have none: "conn w ca = NULL" using E fd unfolding orderly_def by blast
    show ?thesis
      using hang_up_safe [OF inv1 ca] none get(1,2) fd sys
      by (simp add: read_from_consumer_def RdEof w1)
  qed
qed

lemma write_to_remote_agent_safe:
  assumes inv: "cons_inv N l H w" and ca: "ca \<in> H" "conn w ca \<noteq> NULL" "fda w (conn w ca) = fd"
  shows "safe N l (write_to_remote_agent E fd ca w)"
proof -
  let ?c = "cas (c_net w) ca" let ?out = "take (nat (nread_in ?c - nwrite_in ?c)) (drop (nat (nwrite_in ?c)) (buf_in ?c))"
  have get: "get_ca ca w = Some ?c" "\<not> ca_fd ?c < 0" using holder_fd [OF inv ca(1)] by (auto simp: get_ca_def)
  have fd: "0 \<le> fd" "fd < N" using holder_partner [OF inv ca(1,2)] ca(3) by simp_all
  have buf: "buf_ok ?c" by (rule holder_fd(5) [OF inv ca(1)])
  obtain r w1 where sys: "c_sys (sys_write E fd ?out) w = (r, w1)" by (cases "c_sys (sys_write E fd ?out) w")
  obtain s where w1: "w1 = ticked s w" using sys_write_ticked [OF sys] by blast
  have inv1: "cons_inv N l H w1" using cons_inv_ticked [OF inv] w1 by simp
  show ?thesis
  proof (cases r)
    case (WrSome n)
    define c1 where "c1 = ?c\<lparr>nwrite_in := nwrite_in ?c + int n\<rparr>"
    define w2 where "w2 = set_ca ca c1 w1"
    have "n \<le> length ?out" using sys_write_some sys WrSome by blast
    then have c1: "ca_fd c1 = fdc w1 ca" "conn_apa c1 = conn w1 ca" "buf_ok c1"
      using buf by (auto simp: c1_def w1 buf_ok_def)
    have inv2: "cons_inv N l H w2" using cons_inv_set_ca [OF inv1 c1] by (simp add: w2_def)
    have conn2: "conn_apa c1 = conn w ca" "conn w2 ca = conn w ca" using c1 by (simp_all add: w2_def set_ca_def w1)
    show ?thesis
    proof (cases "nwrite_in c1 = nread_in c1")
      case False
      then have "write_to_remote_agent E fd ca w = Some w2"
        using get sys WrSome by (simp add: write_to_remote_agent_def c1_def [symmetric] w2_def [symmetric] Let_def)
      then show ?thesis using inv2 by blast
    next
      case True
      obtain w3 where w3: "c_unwatch fd AE_WRITABLE w2 = Some w3" "cons_inv N l H w3" "rewatched w2 w3"
        by (rule unwatch_ok [OF inv2 fd])
      let ?b = "apas (c_net w3) (conn w ca)"
      obtain t w4 where tm: "c_sys (sys_time E) w3 = (t, w4)" by (cases "c_sys (sys_time E) w3")
      let ?w5 = "set_apa (conn w ca) (?b\<lparr>req_start := t\<rparr>) w4"
      have w4: "w4 = ticked (sent (c_net w3)) w3" by (rule sys_time_ticked [OF tm])
      have inv4: "cons_inv N l H w4" using cons_inv_ticked [OF w3(2)] w4 by simp
      then have "core N l H H ?w5" by (intro core_set_apa) (auto simp: cons_inv_def w4)
      then have "cons_inv N l H ?w5" using inv4 by (simp add: cons_inv_def pool_part_def set_apa_def)
      moreover have "write_to_remote_agent E fd ca w = Some ?w5"
        using get sys WrSome True w3(1) tm ca(2) conn2(1)
        by (simp add: write_to_remote_agent_def c1_def [symmetric] w2_def [symmetric] Let_def get_apa_def)
      ultimately show ?thesis by blast
    qed
  next
    case WrAgain
    then have "write_to_remote_agent E fd ca w = Some w1" using get sys by (simp add: write_to_remote_agent_def)
    then show ?thesis using inv1 by blast
  next
    case WrErr
    then have "write_to_remote_agent E fd ca w = abort_connection_ca ca w1" using get sys by (simp add: write_to_remote_agent_def)
    then show ?thesis using abort_safe [OF inv1 ca(1)] by simp
  qed
qed

text \<open>Counting a response: the counter of requests grows by one per system call at most.\<close>

lemma sint_Suc: "sint (n :: u32) < 2 ^ 31 - 1 \<Longrightarrow> - (2 ^ 31) \<le> sint n \<Longrightarrow> sint (n + 1) = sint n + 1"
  by (simp add: sint_word_ariths signed_take_bit_int_eq_self)

lemma requests_bounded:
  assumes "cons_inv N l H w" "tick (c_net w) < 2 ^ 31 - 2" "k < c_num w"
  shows "sint (num_reqs (c_eps w ! k)) \<le> 1 + int (tick (c_net w))" "sint (num_reqs (c_eps w ! k)) < 2 ^ 31 - 1"
proof -
  show "sint (num_reqs (c_eps w ! k)) \<le> 1 + int (tick (c_net w))"
    using assms(1,3) by (simp add: cons_inv_def core_def eps_ok_def ep_ok_def)
  moreover have "int (tick (c_net w)) < 2 ^ 31 - 2" using assms(2) by simp
  ultimately show "sint (num_reqs (c_eps w ! k)) < 2 ^ 31 - 1" by linarith
qed

lemma count_response_safe:
  assumes "cons_inv N l H w" "ca \<in> H" "conn w ca \<noteq> NULL"
    and "\<And>k. k < c_num w \<Longrightarrow> sint (num_reqs (c_eps w ! k)) \<le> int (tick (c_net w)) \<and> sint (num_reqs (c_eps w ! k)) < 2 ^ 31 - 1"
  shows "\<exists>w'. count_response E (conn w ca) w = Some w' \<and> cons_inv N l H w'"
proof -
  have core: "core N l H H w" and pool: "pool_part H w" using assms(1) by (simp_all add: cons_inv_def)
  then have eps: "eps_ok H w" by (simp add: core_def)
  obtain k where k: "k < c_num w" "epa w (conn w ca) = Some k" using holder_partner(4) [OF assms(1-3)] by blast
  have at: "ep_at (c_eps w) k = Some (c_eps w ! k)" "k < length (c_eps w)" using eps k by (simp_all add: ep_at_def eps_ok_def)
  obtain t w1 where tm: "c_sys (sys_time E) w = (t, w1)" by (cases "c_sys (sys_time E) w")
  have w1: "w1 = ticked (sent (c_net w)) w" by (rule sys_time_ticked [OF tm])
  define e where "e = (c_eps w ! k)\<lparr>num_reqs := num_reqs (c_eps w ! k) + 1,
    total_ms := total_ms (c_eps w ! k) + word_of_int (t - req_start (apas (c_net w) (conn w ca)))\<rparr>"
  let ?w = "w1\<lparr>c_eps := (c_eps w)[k := e]\<rparr>"
  have res: "count_response E (conn w ca) w = Some ?w"
    using k(2) at(1) tm assms(3) w1 by (simp add: count_response_def get_apa_def e_def)
  have low: "1 \<le> sint (num_reqs (c_eps w ! k))" using eps k(1) by (simp add: eps_ok_def ep_ok_def)
  have new: "sint (num_reqs e) = sint (num_reqs (c_eps w ! k)) + 1"
    using sint_Suc [of "num_reqs (c_eps w ! k)"] assms(4) [OF k(1)] low by (simp add: e_def)
  have inv1: "eps_ok H w1" "core N l H H w1" using cons_inv_ticked [OF assms(1)] w1 by (simp_all add: cons_inv_def core_def)
  have other: "conn_pool (c_eps ?w ! j) = conn_pool (c_eps w1 ! j)" for j
    using at(2) by (cases "j = k") (simp_all add: e_def w1)
  have count: "1 \<le> sint (num_reqs (c_eps ?w ! j)) \<and> sint (num_reqs (c_eps ?w ! j)) \<le> 1 + int (tick (c_net ?w))"
    if "ep_ok H w1 j" for j
    using that new low assms(4) [OF k(1)] at(2) by (cases "j = k") (simp_all add: w1 ep_ok_def)
  have "eps_ok H ?w"
    by (rule eps_ok_same [of ?w w1]) (use inv1(1) other count at(2) in \<open>simp_all add: w1\<close>)
  then have "core N l H H ?w"
    by (intro core_same [OF inv1(2)])
      (use other inv1(2) in \<open>simp_all add: same_roles_def idle_def w1 core_def\<close>)
  then have "cons_inv N l H ?w" using pool by (simp add: cons_inv_def pool_part_def w1)
  then show ?thesis using res by blast
qed

lemma orderly_tick: "orderly E \<Longrightarrow> env_read E fd k n = RdData s \<Longrightarrow> tick n < 2 ^ 31 - 2"
  unfolding orderly_def by blast

lemma read_from_remote_agent_safe:
  assumes E: "\<And>k s. env_read E fd k (c_net w) = RdData s \<Longrightarrow> tick (c_net w) < 2 ^ 31 - 2" and inv: "cons_inv N l H w" and ca: "ca \<in> H" "conn w ca \<noteq> NULL"
  shows "safe N l (read_from_remote_agent E fd ca w)"
proof -
  let ?c = "cas (c_net w) ca" let ?k = "nat (int CONSUMER_HTTP_RESP_BUF_SIZE - nread_out ?c)"
  have get: "get_ca ca w = Some ?c" "\<not> ca_fd ?c < 0" using holder_fd [OF inv ca(1)] by (auto simp: get_ca_def)
  have buf: "buf_ok ?c" by (rule holder_fd(5) [OF inv ca(1)])
  obtain r w1 where sys: "c_sys (sys_read E fd ?k) w = (r, w1)" by (cases "c_sys (sys_read E fd ?k) w")
  have w1: "w1 = ticked (sent (c_net w)) w" by (rule sys_read_ticked [OF sys])
  have inv1: "cons_inv N l H w1" using cons_inv_ticked [OF inv] w1 by simp
  show ?thesis
  proof (cases r)
    case (RdData s)
    obtain x where x: "env_read E fd ?k (c_net w) = RdData x" "length s \<le> ?k"
      using sys_read_data [OF sys [unfolded RdData]] by blast
    have tick: "tick (c_net w) < 2 ^ 31 - 2" by (rule E [OF x(1)])
    define c1 where "c1 = ?c\<lparr>buf_out := blit (nat (nread_out ?c)) s (buf_out ?c), nread_out := nread_out ?c + int (length s),
      nread_in := 0, nwrite_in := 0\<rparr>"
    define w2 where "w2 = set_ca ca c1 w1"
    have c1: "ca_fd c1 = fdc w1 ca" "conn_apa c1 = conn w1 ca" "buf_ok c1"
      using buf x(2) by (auto simp: c1_def w1 buf_ok_def)
    have inv2: "cons_inv N l H w2" using cons_inv_set_ca [OF inv1 c1] by (simp add: w2_def)
    have at: "cas (c_net w2) ca = c1" "ca_fd c1 = fdc w ca" "conn_apa c1 = conn w ca"
      using c1 by (simp_all add: w2_def set_ca_def w1)
    obtain w3 where w3: "c_watch (ca_fd c1) AE_WRITABLE Write_to_consumer ca w2 = Some (AE_OK, w3)" "cons_inv N l H w3" "rewatched w2 w3"
      by (rule watch_ok [OF inv2, of "Ca ca" "ca_fd c1" AE_WRITABLE Write_to_consumer ca]) (use at ca in auto)
    note re = rewatched_same [OF w3(3)]
    have conn3: "conn w3 ca = conn w ca" using re at by simp
    have res: "read_from_remote_agent E fd ca w = count_response E (conn w3 ca) w3"
      using get sys RdData w3(1) at conn3 re holder_fd(1) [OF inv ca(1)]
      by (simp add: read_from_remote_agent_def c1_def [symmetric] w2_def [symmetric] Let_def AE_OK_def AE_ERR_def get_ca_def)
    have "c_eps w3 = c_eps w" "tick (c_net w3) = Suc (tick (c_net w))" "c_num w3 = c_num w"
      using re by (simp_all add: w2_def set_ca_def w1)
    then have "\<exists>w'. count_response E (conn w3 ca) w3 = Some w' \<and> cons_inv N l H w'"
      using requests_bounded [OF inv tick] by (intro count_response_safe [OF w3(2) ca(1)]) (auto simp: conn3 ca(2))
    then show ?thesis unfolding res by blast
  next
    case RdErr
    then have "read_from_remote_agent E fd ca w = abort_connection_ca ca w1"
      using get sys by (simp add: read_from_remote_agent_def)
    then show ?thesis using abort_safe [OF inv1 ca(1)] by simp
  next
    case RdAgain
    then have "read_from_remote_agent E fd ca w = Some w1" using get sys by (simp add: read_from_remote_agent_def)
    then show ?thesis using inv1 by blast
  next
    case RdEof
    obtain k where k: "k < c_num w" "epa w (conn w ca) = Some k" using holder_partner(4) [OF inv ca] by blast
    moreover have "c_num w \<le> length (c_eps w)" using inv by (simp add: cons_inv_def core_def eps_ok_def)
    ultimately have "read_from_remote_agent E fd ca w = abort_connection_ca ca w1"
      using get sys RdEof ca(2) w1 by (simp add: read_from_remote_agent_def get_apa_def ep_at_def)
    then show ?thesis using abort_safe [OF inv1 ca(1)] by simp
  qed
qed

lemma write_to_consumer_safe:
  assumes inv: "cons_inv N l H w" and ca: "ca \<in> H" and fd: "fdc w ca = fd"
  shows "safe N l (write_to_consumer E fd ca w)"
proof -
  let ?c = "cas (c_net w) ca" let ?out = "take (nat (nread_out ?c - nwrite_out ?c)) (drop (nat (nwrite_out ?c)) (buf_out ?c))"
  have get: "get_ca ca w = Some ?c" "\<not> ca_fd ?c < 0" using holder_fd [OF inv ca] by (auto simp: get_ca_def)
  have range: "0 \<le> fd" "fd < N" using holder_fd [OF inv ca] fd by simp_all
  have buf: "buf_ok ?c" by (rule holder_fd(5) [OF inv ca])
  obtain r w1 where sys: "c_sys (sys_write E fd ?out) w = (r, w1)" by (cases "c_sys (sys_write E fd ?out) w")
  obtain s where w1: "w1 = ticked s w" using sys_write_ticked [OF sys] by blast
  have inv1: "cons_inv N l H w1" using cons_inv_ticked [OF inv] w1 by simp
  show ?thesis
  proof (cases r)
    case (WrSome n)
    define c1 where "c1 = ?c\<lparr>nwrite_out := nwrite_out ?c + int n\<rparr>"
    define w2 where "w2 = set_ca ca c1 w1"
    have "n \<le> length ?out" using sys_write_some sys WrSome by blast
    then have c1: "ca_fd c1 = fdc w1 ca" "conn_apa c1 = conn w1 ca" "buf_ok c1"
      using buf by (auto simp: c1_def w1 buf_ok_def)
    have inv2: "cons_inv N l H w2" using cons_inv_set_ca [OF inv1 c1] by (simp add: w2_def)
    have conn2: "conn_apa c1 = conn w ca" "conn w2 ca = conn w ca" using c1 by (simp_all add: w2_def set_ca_def w1)
    obtain w3 where w3: "c_unwatch fd AE_WRITABLE w2 = Some w3" "cons_inv N l H w3" "rewatched w2 w3"
      by (rule unwatch_ok [OF inv2 range])
    note re3 = rewatched_same [OF w3(3)]
    have split: "write_to_consumer E fd ca w =
        (if nwrite_out c1 \<noteq> nread_out c1 then Some w2 else if conn w3 ca = NULL then Some w3
         else do {
           a \<leftarrow> get_apa (conn w3 ca) w3;
           w4 \<leftarrow> c_unwatch (apa_fd a) (AE_WRITABLE OR AE_READABLE) w3;
           k \<leftarrow> apa_endpoint a;
           w5 \<leftarrow> return_apa k (conn w3 ca) w4;
           c5 \<leftarrow> get_ca ca w5;
           Some (set_ca ca (c5\<lparr>conn_apa := NULL\<rparr>) w5)
         })"
      using get sys WrSome w3(1) conn2 re3
      by (simp add: write_to_consumer_def c1_def [symmetric] w2_def [symmetric] Let_def)
    show ?thesis
    proof (cases "nwrite_out c1 = nread_out c1 \<and> conn w3 ca \<noteq> NULL")
      case False
      then show ?thesis using split inv2 w3(2) by auto
    next
      case True
      let ?a = "conn w3 ca" let ?fa = "fda w3 ?a"
      obtain k where k: "k < c_num w3" "epa w3 ?a = Some k" using holder_partner(4) [OF w3(2) ca] True by blast
      obtain w4 where w4: "c_unwatch ?fa (AE_WRITABLE OR AE_READABLE) w3 = Some w4" "cons_inv N l H w4" "rewatched w3 w4"
        "entry w4 ?fa = cleared (AE_WRITABLE OR AE_READABLE) (entry w3 ?fa)"
        using unwatch_ok [OF w3(2) holder_partner(2,3) [OF w3(2) ca]] True by blast
      note re = rewatched_same [OF w4(3)]
      have core3: "core N l H H w3" and core4: "core N l H H w4" and pool4: "pool_part H w4"
        using w3(2) w4(2) by (simp_all add: cons_inv_def)
      have quiet: "fe_mask (entry w4 ?fa) = AE_NONE"
        unfolding w4(4) using True by (intro all_cleared role_bits [OF core3 holder_partner(1) [OF w3(2) ca]]) simp
      obtain q where q: "return_apa k ?a w4 = Some (lent k q w4)" "core N l H H (partner ca NULL (lent k q w4))"
        using return_apa_ok [OF core4 ca, of k] True k(2) quiet re by auto
      have "cons_inv N l H (partner ca NULL (lent k q w4))" using q(2) pool4 by (simp add: cons_inv_def pool_part_def)
      moreover have "write_to_consumer E fd ca w = Some (partner ca NULL (lent k q w4))"
        using split True w4(1) k(2) q(1) holder_fd(1) [OF inv ca] by (simp add: get_apa_def get_ca_def partner_def)
      ultimately show ?thesis by blast
    qed
  next
    case WrAgain
    then have "write_to_consumer E fd ca w = abort_connection_ca ca w1" using get sys by (simp add: write_to_consumer_def)
    then show ?thesis using abort_safe [OF inv1 ca] by simp
  next
    case WrErr
    then have "write_to_consumer E fd ca w = abort_connection_ca ca w1" using get sys by (simp add: write_to_consumer_def)
    then show ?thesis using abort_safe [OF inv1 ca] by simp
  qed
qed

section \<open>A new connection\<close>

lemma table_inv_more:
  assumes "table_inv N l HC HR w" "c_loop w' = c_loop w" "interest (c_net w') = interest (c_net w)"
    and "watch_faults (c_net w') = watch_faults (c_net w)" "\<And>fd. open_fds (c_net w) fd \<Longrightarrow> open_fds (c_net w') fd"
    and "\<And>r fd. has_role l HC HR w r fd \<Longrightarrow> has_role l HC' HR' w' r fd"
  shows "table_inv N l HC' HR' w'"
proof -
  have "loop_ok epoll_tracks (c_loop w) (c_net w)" using assms(1) by (simp add: table_inv_def)
  then have "loop_ok epoll_tracks (c_loop w) (c_net w')" using assms(3,5) by (simp add: loop_ok_def epoll_tracks_def)
  then show ?thesis using assms(1,6) unfolding table_inv_def assms(2-4) by blast
qed

lemma core_open:
  assumes "core N l HC HR w" "\<not> open_fds (c_net w) fd"
  shows "core N l HC HR (w\<lparr>c_net := (c_net w)\<lparr>open_fds := (open_fds (c_net w))(fd := True), sent := s, tick := Suc (tick (c_net w))\<rparr>\<rparr>)"
    (is "core N l HC HR ?w")
proof -
  have same: "same_roles HC HR w ?w" by (simp add: same_roles_def idle_def)
  have roles: "roles_ok N l HC HR w" and tab: "table_inv N l HC HR w" and eps: "eps_ok HR w"
    using assms(1) by (simp_all add: core_def)
  have "roles_ok N l HC HR ?w" using roles unfolding roles_ok_def has_role_same [OF same] by simp
  moreover have "table_inv N l HC HR ?w"
    by (rule table_inv_more [OF tab]) (simp_all add: has_role_same [OF same])
  moreover have "eps_ok HR ?w"
    by (rule eps_ok_same [of ?w w]) (use eps in \<open>simp_all add: ep_ok_def\<close>)
  ultimately show ?thesis using assms(1) by (simp add: core_def)
qed

lemma zero_ca_ok: "buf_ok (zero_ca\<lparr>ca_fd := fd\<rparr>)"
  by (simp add: buf_ok_def zero_ca_def CONSUMER_HTTP_REQ_BUF_SIZE_def)

lemma core_adopt:
  assumes core: "core N l H H w" and new: "ca \<notin> H" "\<And>r. \<not> has_role l H H w r fd"
    and fd: "0 \<le> fd" "fd < N" "open_fds (c_net w) fd"
  shows "core N l (insert ca H) (insert ca H) (set_ca ca (zero_ca\<lparr>ca_fd := fd\<rparr>) w)"
proof -
  let ?w = "set_ca ca (zero_ca\<lparr>ca_fd := fd\<rparr>) w"
  have roles: "roles_ok N l H H w" and tab: "table_inv N l H H w" and eps: "eps_ok H w"
    using core by (simp_all add: core_def)
  have role: "has_role l (insert ca H) (insert ca H) ?w r g \<longleftrightarrow> has_role l H H w r g \<or> r = Ca ca \<and> g = fd" for r g
    using new(1) by (cases r) (auto simp: set_ca_def zero_ca_def idle_def)
  have "roles_ok N l (insert ca H) (insert ca H) ?w"
    unfolding roles_ok_def role using roles new(2) fd unfolding roles_ok_def by (auto simp: set_ca_def)
  moreover have "table_inv N l (insert ca H) (insert ca H) ?w"
    by (rule table_inv_more [OF tab]) (simp_all add: role, simp_all add: set_ca_def)
  moreover have "eps_ok (insert ca H) ?w"
  proof -
    have "holders (insert ca H) ?w k = holders H w k" for k
      using new(1) by (auto simp: holders_def set_ca_def zero_ca_def)
    then have "ep_ok (insert ca H) ?w k" if "ep_ok H w k" for k using that by (simp add: ep_ok_def set_ca_def)
    then show ?thesis using eps new(1) by (auto simp: eps_ok_def set_ca_def zero_ca_def)
  qed
  moreover have "\<forall>c \<in> insert ca H. buf_ok (cas (c_net ?w) c)"
    using core zero_ca_ok by (simp add: core_def set_ca_def)
  ultimately show ?thesis by (simp add: core_def)
qed

lemma take_ca_cases:
  assumes "pool_part H w" "c_pool w = Some p"
  obtains "PoolGet p (c_net w) = (NULL, p, c_net w)"
  | ca q where "PoolGet p (c_net w) = (ca, q, c_net w)" "ca \<noteq> NULL" "ca \<notin> H" "pool_part (insert ca H) (w\<lparr>c_pool := Some q\<rparr>)"
proof -
  have p: "fixed_pool p" "distinct (pool_items p)" "finite H" "card H = pool_used p" "H \<inter> set (pool_items p) = {}" "NULL \<notin> H"
    using assms by (auto simp: pool_part_def)
  show thesis
  proof (rule pool_get_cases [OF p(1), of "c_net w"])
    fix d ds q
    assume d: "pool_items p = d # ds" "d \<noteq> NULL" "PoolGet p (c_net w) = (d, q, c_net w)" "fixed_pool q"
      "pool_items q = ds" "pool_used q = Suc (pool_used p)"
    have "d \<notin> H" using p(5) d(1) by auto
    moreover from this have "pool_part (insert d H) (w\<lparr>c_pool := Some q\<rparr>)" using p d by (auto simp: pool_part_def)
    ultimately show thesis using that(2) d(2,3) by blast
  qed (rule that(1))
qed

lemma no_role_closed:
  assumes "core N l HC HR w" "\<not> open_fds (c_net w) fd"
  shows "\<not> has_role l HC HR w r fd"
  using role_range(3) [OF assms(1), of r fd] assms(2) by blast

lemma consumer_http_handler_safe:
  assumes inv: "cons_inv N l H w" and none: "\<And>r. \<not> has_role l H H w r fd" and fd: "0 \<le> fd" "open_fds (c_net w) fd"
  shows "safe N l (consumer_http_handler fd w)"
proof -
  have core: "core N l H H w" and pool: "pool_part H w" using inv by (simp_all add: cons_inv_def)
  obtain p where p: "c_pool w = Some p" using pool by (auto simp: pool_part_def)
  show ?thesis
  proof (rule take_ca_cases [OF pool p])
    assume "PoolGet p (c_net w) = (NULL, p, c_net w)"
    then have "consumer_http_handler fd w = Some (c_close fd (w\<lparr>c_pool := Some p\<rparr>))"
      using p by (simp add: consumer_http_handler_def)
    moreover have "w\<lparr>c_pool := Some p\<rparr> = w" using p by (cases w) simp
    ultimately show ?thesis
      using core_close [OF core none] pool by (auto simp: cons_inv_def c_close_def pool_part_def)
  next
    fix ca q
    assume g: "PoolGet p (c_net w) = (ca, q, c_net w)" "ca \<noteq> NULL" "ca \<notin> H" "pool_part (insert ca H) (w\<lparr>c_pool := Some q\<rparr>)"
    let ?z = "zero_ca\<lparr>ca_fd := fd\<rparr>" let ?w1 = "w\<lparr>c_pool := Some q\<rparr>"
    define w2 where "w2 = set_ca ca ?z ?w1"
    have pool2: "pool_part (insert ca H) w2" using g(4) by (simp add: pool_part_def w2_def set_ca_def)
    have swap: "w2 = (set_ca ca ?z w)\<lparr>c_pool := Some q\<rparr>" by (simp add: w2_def set_ca_def)
    have body: "consumer_http_handler fd w = (do {
        (r, w3) \<leftarrow> c_watch fd AE_READABLE Read_from_consumer ca w2;
        if r = AE_ERR then abort_connection_ca ca w3 else Some w3 })"
      using p g(1,2) by (simp add: consumer_http_handler_def w2_def)
    show ?thesis
    proof (cases "fd < N")
      case True
      have "cons_inv N l (insert ca H) w2"
        using core_adopt [OF core g(3) none fd(1) True fd(2)] pool2 by (simp add: cons_inv_def swap core_c_pool)
      moreover have "has_role l (insert ca H) (insert ca H) w2 (Ca ca) fd" by (simp add: w2_def set_ca_def)
      ultimately obtain w3 where "c_watch fd AE_READABLE Read_from_consumer ca w2 = Some (AE_OK, w3)"
        "cons_inv N l (insert ca H) w3"
        by (rule watch_ok [of N l "insert ca H" w2 "Ca ca" fd AE_READABLE Read_from_consumer ca]) auto
      then show ?thesis using body by (auto simp: AE_OK_def AE_ERR_def)
    next
      case False
      have core2: "core N l H H w2" using core_free_ca [OF core g(3), of ?z] g(3) by (simp add: swap core_c_pool)
      then have size: "setsize (c_loop w2) = N" by (simp add: core_def table_inv_def)
      have "c_watch fd AE_READABLE Read_from_consumer ca w2 = Some (AE_ERR, w2)"
        using False size by (simp add: c_watch_def aeCreateFileEvent_def)
      moreover have "abort_connection_ca ca w2 = return_ca ca (set_ca ca (?z\<lparr>ca_fd := - 1\<rparr>) (c_close fd w2))"
        using g(2) False size
        by (simp add: abort_connection_ca_def get_ca_def c_unwatch_def aeDeleteFileEvent_def w2_def set_ca_def zero_ca_def Let_def)
      ultimately have eq: "consumer_http_handler fd w = return_ca ca (set_ca ca (?z\<lparr>ca_fd := - 1\<rparr>) (c_close fd w2))"
        using body by simp
      have "\<not> has_role l H H w2 r fd" for r
        using role_range(2) [OF core2, of r fd] False by blast
      then have "core N l H H (set_ca ca (?z\<lparr>ca_fd := - 1\<rparr>) (c_close fd w2))"
        using core_close [OF core2] g(3) by (intro core_free_ca) auto
      moreover have "pool_part (insert ca H) (set_ca ca (?z\<lparr>ca_fd := - 1\<rparr>) (c_close fd w2))"
        using pool2 by (simp add: pool_part_def set_ca_def c_close_def)
      ultimately show ?thesis
        using return_ca_ok [of "insert ca H" _ ca] g(3) unfolding eq by (fastforce simp: cons_inv_def core_c_pool)
    qed
  qed
qed

lemma accept_tcp_handler_safe:
  assumes "cons_inv N l H w"
  shows "safe N l (accept_tcp_handler E w)"
proof -
  obtain r w1 where sys: "c_sys (sys_accept E) w = (r, w1)" by (cases "c_sys (sys_accept E) w")
  have core: "core N l H H w" and pool: "pool_part H w" using assms by (simp_all add: cons_inv_def)
  show ?thesis
  proof (cases r)
    case None
    then have "w1 = ticked (sent (c_net w)) w"
      using sys by (auto simp: c_sys_def sys_accept_def tock_def ticked_def split: option.splits if_splits)
    then show ?thesis using cons_inv_ticked [OF assms] sys None by (auto simp: accept_tcp_handler_def)
  next
    case (Some fd)
    then have new: "0 \<le> fd" "\<not> open_fds (c_net w) fd"
      "w1 = w\<lparr>c_net := (c_net w)\<lparr>open_fds := (open_fds (c_net w))(fd := True), sent := (sent (c_net w))(fd := []), tick := Suc (tick (c_net w))\<rparr>\<rparr>"
      using sys by (auto simp: c_sys_def sys_accept_def tock_def split: option.splits if_splits)
    have "core N l H H w1" unfolding new(3) by (rule core_open [OF core new(2)])
    then have inv1: "cons_inv N l H w1" using pool by (simp add: cons_inv_def new(3) pool_part_def)
    have "same_roles H H w w1" by (simp add: same_roles_def new(3) idle_def)
    then have "\<not> has_role l H H w1 r fd" for r using no_role_closed [OF core new(2)] by (simp add: has_role_same)
    then show ?thesis
      using consumer_http_handler_safe [OF inv1, of fd] new sys Some by (simp add: accept_tcp_handler_def)
  qed
qed

end
