(* ===== verification/Consumer_Props.thy ===== *)
theory Consumer_Props
  imports Consumer_Handlers
begin

text \<open>
  The properties of the consumer agent: it never stops in a crash and never mixes up two exchanges
  as long as the environment is orderly; every byte is relayed in order; and what happens when a
  consumer hangs up in the middle of an exchange.
\<close>

section \<open>The agent on the event loop\<close>

lemma cons_inv_ready:
  assumes "cons_inv N l H w"
  shows "cons_inv N l H (w\<lparr>c_net := (c_net w)\<lparr>ready := rs\<rparr>\<rparr>)" (is "cons_inv N l H ?w")
proof -
  have core: "core N l H H w" and pool: "pool_part H w" using assms by (simp_all add: cons_inv_def)
  then have eps: "eps_ok H w" by (simp add: core_def)
  have "eps_ok H ?w" by (rule eps_ok_same [of ?w w]) (use eps in \<open>simp_all add: ep_ok_def\<close>)
  then have "core N l H H ?w"
    by (intro core_same [OF core]) (use core in \<open>simp_all add: same_roles_def idle_def core_def\<close>)
  then show ?thesis using pool by (simp add: cons_inv_def pool_part_def)
qed

lemma consumer_poll_ok:
  assumes "cons_inv N l H w" "consumer_poll w = (fs, w1)"
  shows "cons_inv N l H w1 \<and> (\<forall>(fd, m) \<in> set fs. 0 \<le> fd \<and> fd < N)"
proof -
  have range: "0 \<le> fd \<and> fd < N" if "interest (c_net w) fd = Some y" for fd y
    using assms(1) that by (simp add: cons_inv_def core_def table_inv_def)
  show ?thesis
  proof (cases "ready (c_net w)")
    case Nil
    then have "w1 = w" "fs = []"
      using assms(2) by (auto simp: consumer_poll_def c_sys_def epoll_aeApiPoll_def epoll_wait_def)
    then show ?thesis using assms(1) by simp
  next
    case (Cons r rs)
    then have eqs: "w1 = w\<lparr>c_net := (c_net w)\<lparr>ready := rs\<rparr>\<rparr>"
      "set fs \<subseteq> {(fd, m). interest (c_net w) fd \<noteq> None}"
      using assms(2) by (auto simp: consumer_poll_def c_sys_def epoll_aeApiPoll_def epoll_wait_def dest!: in_set_takeD)
    have "\<forall>(fd, m) \<in> set fs. 0 \<le> fd \<and> fd < N" using eqs(2) range by blast
    then show ?thesis using cons_inv_ready [OF assms(1)] eqs(1) by simp
  qed
qed

text \<open>What the invariant says of a descriptor that fires.\<close>

lemma entry_role:
  assumes "cons_inv N l H w" "0 \<le> fd" "fd < N" "fe_mask (entry w fd) \<noteq> AE_NONE"
  obtains r where "has_role l H H w r fd" "entry_ok r (entry w fd)"
  using assms unfolding cons_inv_def core_def table_inv_def by blast

lemma bit_not_NONE: "bit m n \<Longrightarrow> m \<noteq> AE_NONE"
  by (auto simp: AE_NONE_def)

lemma consumer_call_safe:
  assumes E: "orderly E" and inv: "cons_inv N l H w" and fd: "0 \<le> fd" "fd < N"
    and fires: "bit (fe_mask (entry w fd)) 0 \<and> rfileProc (entry w fd) = Some p \<or>
      bit (fe_mask (entry w fd)) 1 \<and> wfileProc (entry w fd) = Some p"
  shows "safe N l (consumer_call E p fd (clientData (entry w fd)) m w)"
proof -
  obtain r where r: "has_role l H H w r fd" "entry_ok r (entry w fd)"
    using entry_role [OF inv fd] fires bit_not_NONE by metis
  show ?thesis
  proof (cases r)
    case Listen
    then have "p = Accept_tcp_handler" using r(2) fires by auto
    then show ?thesis using accept_tcp_handler_safe [OF inv] by simp
  next
    case (Ca ca)
    then have "clientData (entry w fd) = ca" "ca \<in> H" "fdc w ca = fd" "p = Read_from_consumer \<or> p = Write_to_consumer"
      using r fires by auto
    then show ?thesis using read_from_consumer_safe [OF E inv] write_to_consumer_safe [OF inv] by auto
  next
    case (Remote ca)
    then have "clientData (entry w fd) = ca" "ca \<in> H" "conn w ca \<noteq> NULL" "fda w (conn w ca) = fd"
      "p = Read_from_remote_agent \<or> p = Write_to_remote_agent"
      using r fires by auto
    then show ?thesis using read_from_remote_agent_safe [OF orderly_tick [OF E] inv] write_to_remote_agent_safe [OF inv] by auto
  qed (use r(2) in simp)
qed

interpretation agent: loop_program c_loop "consumer_call E" consumer_poll "\<lambda>w. orderly E \<and> (\<exists>H. cons_inv N l H w)" N for E N l
proof unfold_locales
  fix w fd p m fs w1
  show "setsize (c_loop w) = N" if "orderly E \<and> (\<exists>H. cons_inv N l H w)"
    using that by (auto simp: cons_inv_def core_def table_inv_def)
  show "procs_ok (c_loop w)" if "orderly E \<and> (\<exists>H. cons_inv N l H w)"
    using that by (auto simp: cons_inv_def core_def table_inv_def loop_ok_def)
  show "\<exists>w'. consumer_call E p fd (clientData (entry w fd)) m w = Some w' \<and> orderly E \<and> (\<exists>H. cons_inv N l H w')"
    if "orderly E \<and> (\<exists>H. cons_inv N l H w)" "0 \<le> fd" "fd < N" "bit (fe_mask (entry w fd)) 0" "rfileProc (entry w fd) = Some p"
    using that consumer_call_safe by metis
  show "\<exists>w'. consumer_call E p fd (clientData (entry w fd)) m w = Some w' \<and> orderly E \<and> (\<exists>H. cons_inv N l H w')"
    if "orderly E \<and> (\<exists>H. cons_inv N l H w)" "0 \<le> fd" "fd < N" "bit (fe_mask (entry w fd)) 1" "wfileProc (entry w fd) = Some p"
    using that consumer_call_safe by metis
  show "(orderly E \<and> (\<exists>H. cons_inv N l H w1)) \<and> (\<forall>(fd, m) \<in> set fs. 0 \<le> fd \<and> fd < N)"
    if "orderly E \<and> (\<exists>H. cons_inv N l H w)" "consumer_poll w = (fs, w1)"
    using that consumer_poll_ok by blast
qed

lemma cons_inv_unstopped:
  assumes "cons_inv N l H w"
  shows "cons_inv N l H (w\<lparr>c_loop := (c_loop w)\<lparr>stop := b\<rparr>\<rparr>)" (is "cons_inv N l H ?w")
proof -
  have core: "core N l H H w" and pool: "pool_part H w" using assms by (simp_all add: cons_inv_def)
  have same: "same_roles H H w ?w" by (simp add: same_roles_def idle_def)
  have loop: "loop_ok epoll_tracks ((c_loop w)\<lparr>stop := b\<rparr>) (c_net w) = loop_ok epoll_tracks (c_loop w) (c_net w)"
    by (simp add: loop_ok_def maxfd_ok_def procs_ok_def)
  have roles: "roles_ok N l H H w" and tab: "table_inv N l H H w" and eps: "eps_ok H w"
    using core by (simp_all add: core_def)
  have "roles_ok N l H H ?w" using roles unfolding roles_ok_def has_role_same [OF same] by simp
  moreover have "table_inv N l H H ?w"
    using tab unfolding table_inv_def has_role_same [OF same] by (simp add: loop)
  moreover have "eps_ok H ?w" by (rule eps_ok_same [of ?w w]) (use eps in \<open>simp_all add: ep_ok_def\<close>)
  ultimately show ?thesis using core pool by (simp add: cons_inv_def core_def pool_part_def)
qed

lemma consumer_main_inv:
  assumes "orderly E" "cons_inv N l H w"
  shows "safe N l (consumer_main E n w)"
proof -
  have "cons_inv N l H (w\<lparr>c_loop := (c_loop w)\<lparr>stop := False\<rparr>\<rparr>)" by (rule cons_inv_unstopped [OF assms(2)])
  then show ?thesis
    using agent.rounds_ok [of E N l "w\<lparr>c_loop := (c_loop w)\<lparr>stop := False\<rparr>\<rparr>" n] assms(1)
    by (auto simp: consumer_main_def aeMain_def)
qed

section \<open>Bytes in order\<close>

text \<open>What is read from one side and not yet written to the other.\<close>

definition pending_in :: "connection_ca \<Rightarrow> string" where
  "pending_in c = take (nat (nread_in c - nwrite_in c)) (drop (nat (nwrite_in c)) (buf_in c))"

definition pending_out :: "connection_ca \<Rightarrow> string" where
  "pending_out c = take (nat (nread_out c - nwrite_out c)) (drop (nat (nwrite_out c)) (buf_out c))"

lemma slice_step:
  assumes "0 \<le> i" "i \<le> j" "n \<le> nat (j - i)"
  shows "take (nat (j - (i + int n))) (drop (nat (i + int n)) b) = drop n (take (nat (j - i)) (drop (nat i) b))"
proof -
  have "nat (i + int n) = n + nat i" "nat (j - (i + int n)) = nat (j - i) - n" using assms by linarith+
  then show ?thesis by (simp add: drop_take add.commute)
qed

lemma slice_blit:
  assumes "0 \<le> i" "i \<le> j" "nat j + length s \<le> length b"
  shows "take (nat (j + int (length s) - i)) (drop (nat i) (blit (nat j) s b)) = take (nat (j - i)) (drop (nat i) b) @ s"
proof -
  have 1: "nat (j + int (length s) - i) = nat (j - i) + length s" and 2: "nat i + nat (j - i) = nat j"
    using assms by linarith+
  have "take (nat (j - i) + length s) (drop (nat i) (blit (nat j) s b)) =
      drop (nat i) (take (nat j + length s) (blit (nat j) s b))"
    using 2 by (simp add: take_drop add.assoc [symmetric] add.commute)
  also have "\<dots> = drop (nat i) (take (nat j) b @ s)" using assms(3) by simp
  also have "\<dots> = take (nat (j - i)) (drop (nat i) b) @ s"
    using assms 2 by (simp add: take_drop add.commute)
  finally show ?thesis using 1 by simp
qed

lemma sys_write_sent:
  assumes "c_sys (sys_write E fd out) w = (r, w1)"
  shows "w1 = ticked ((sent (c_net w))(fd := sent (c_net w) fd @ (case r of WrSome n \<Rightarrow> take n out | _ \<Rightarrow> []))) w"
  using assms
  by (cases w) (auto simp: c_sys_def sys_write_def tock_def ticked_def min_def split: if_splits wr.splits)

text \<open>Writing on one side: what was accepted is what comes next, and no more.\<close>

lemma pending_in_written:
  assumes "buf_ok c" "n \<le> length (pending_in c)"
  shows "pending_in (c\<lparr>nwrite_in := nwrite_in c + int n\<rparr>) = drop n (pending_in c)"
    "pending_in (c\<lparr>nwrite_in := nwrite_in c + int n\<rparr>) = [] \<longleftrightarrow> nwrite_in c + int n = nread_in c"
proof -
  have len: "length (pending_in c) = nat (nread_in c - nwrite_in c)"
    using assms(1) by (auto simp: pending_in_def buf_ok_def)
  show d: "pending_in (c\<lparr>nwrite_in := nwrite_in c + int n\<rparr>) = drop n (pending_in c)"
    using slice_step [of "nwrite_in c" "nread_in c" n "buf_in c"] assms(1) assms(2) [unfolded len]
    by (simp add: pending_in_def buf_ok_def)
  show "pending_in (c\<lparr>nwrite_in := nwrite_in c + int n\<rparr>) = [] \<longleftrightarrow> nwrite_in c + int n = nread_in c"
    unfolding d using assms(1) assms(2) [unfolded len] len by (auto simp: buf_ok_def)
qed

lemma pending_out_written:
  assumes "buf_ok c" "n \<le> length (pending_out c)"
  shows "pending_out (c\<lparr>nwrite_out := nwrite_out c + int n\<rparr>) = drop n (pending_out c)"
    "pending_out (c\<lparr>nwrite_out := nwrite_out c + int n\<rparr>) = [] \<longleftrightarrow> nwrite_out c + int n = nread_out c"
proof -
  have len: "length (pending_out c) = nat (nread_out c - nwrite_out c)"
    using assms(1) by (auto simp: pending_out_def buf_ok_def)
  show d: "pending_out (c\<lparr>nwrite_out := nwrite_out c + int n\<rparr>) = drop n (pending_out c)"
    using slice_step [of "nwrite_out c" "nread_out c" n "buf_out c"] assms(1) assms(2) [unfolded len]
    by (simp add: pending_out_def buf_ok_def)
  show "pending_out (c\<lparr>nwrite_out := nwrite_out c + int n\<rparr>) = [] \<longleftrightarrow> nwrite_out c + int n = nread_out c"
    unfolding d using assms(1) assms(2) [unfolded len] len by (auto simp: buf_ok_def)
qed

text \<open>The outcome of \<open>sys_write\<close> on an open descriptor.\<close>

definition write_result :: "cnet env \<Rightarrow> fd \<Rightarrow> string \<Rightarrow> consumer \<Rightarrow> wr" where
  "write_result E fd out w =
     (case env_write E fd out (c_net w) of WrSome n \<Rightarrow> WrSome (min n (length out)) | r \<Rightarrow> r)"

definition accepted :: "wr \<Rightarrow> nat" where
  "accepted r = (case r of WrSome n \<Rightarrow> n | _ \<Rightarrow> 0)"

lemma sys_write_open:
  assumes "open_fds (c_net w) fd"
  shows "c_sys (sys_write E fd out) w = (write_result E fd out w,
    ticked ((sent (c_net w))(fd := sent (c_net w) fd @ take (accepted (write_result E fd out w)) out)) w)"
  using assms by (cases w; cases "env_write E fd out (c_net w)")
    (auto simp: c_sys_def sys_write_def write_result_def accepted_def tock_def ticked_def min_def)

definition forwarded :: "fd \<Rightarrow> nat \<Rightarrow> string \<Rightarrow> consumer \<Rightarrow> consumer \<Rightarrow> bool" where
  "forwarded fd n out w w' \<longleftrightarrow> sent (c_net w') = (sent (c_net w))(fd := sent (c_net w) fd @ take n out)"

definition same_exchange :: "addr \<Rightarrow> consumer \<Rightarrow> consumer \<Rightarrow> bool" where
  "same_exchange ca w w' \<longleftrightarrow> fdc w' ca = fdc w ca \<and> conn w' ca = conn w ca \<and>
     fda w' (conn w ca) = fda w (conn w ca) \<and> pending_out (cas (c_net w') ca) = pending_out (cas (c_net w) ca) \<and>
     nread_out (cas (c_net w') ca) = nread_out (cas (c_net w) ca) \<and> tick (c_net w') \<le> tick (c_net w) + 2"

lemma request_step:
  fixes E :: "cnet env"
  assumes inv: "cons_inv N l H w" and ca: "ca \<in> H" "conn w ca \<noteq> NULL" "fda w (conn w ca) = fd"
  defines "out \<equiv> pending_in (cas (c_net w) ca)" and "r \<equiv> write_result E fd (pending_in (cas (c_net w) ca)) w"
  shows "\<exists>w'. write_to_remote_agent E fd ca w = Some w' \<and> forwarded fd (accepted r) out w w' \<and>
    pending_in (cas (c_net w') ca) = drop (accepted r) out \<and>
    (r = WrErr \<longleftrightarrow> fdc w' ca < 0) \<and> (r \<noteq> WrErr \<longrightarrow> cons_inv N l H w' \<and> same_exchange ca w w') \<and>
    (r = WrSome (length out) \<longrightarrow> \<not> bit (fe_mask (entry w' fd)) 1)"
proof -
  let ?c = "cas (c_net w) ca"
  define w1 where "w1 = ticked ((sent (c_net w))(fd := sent (c_net w) fd @ take (accepted r) out)) w"
  have get: "get_ca ca w = Some ?c" "\<not> ca_fd ?c < 0" using holder_fd [OF inv ca(1)] by (auto simp: get_ca_def)
  have buf: "buf_ok ?c" by (rule holder_fd(5) [OF inv ca(1)])
  have fd: "0 \<le> fd" "fd < N" "open_fds (c_net w) fd"
    using role_range [OF _ holder_partner(1) [OF inv ca(1,2)]] inv ca(3) by (auto simp: cons_inv_def)
  have sys: "c_sys (sys_write E fd out) w = (r, w1)" using sys_write_open [OF fd(3)] by (simp add: r_def out_def w1_def)
  have inv1: "cons_inv N l H w1" unfolding w1_def by (rule cons_inv_ticked [OF inv])
  have body: "write_to_remote_agent E fd ca w = (case r of
         WrSome n \<Rightarrow> do {
           let c1 = ?c\<lparr>nwrite_in := nwrite_in ?c + int n\<rparr>;
           let w2 = set_ca ca c1 w1;
           if nwrite_in c1 = nread_in c1 then do {
             w3 \<leftarrow> c_unwatch fd AE_WRITABLE w2;
             a \<leftarrow> get_apa (conn_apa c1) w3;
             let (t, w4) = c_sys (sys_time E) w3;
             Some (set_apa (conn_apa c1) (a\<lparr>req_start := t\<rparr>) w4)
           } else Some w2
         }
       | WrAgain \<Rightarrow> Some w1
       | WrErr \<Rightarrow> abort_connection_ca ca w1)"
    using get sys by (simp add: write_to_remote_agent_def pending_in_def [symmetric] out_def [symmetric])
  show ?thesis
  proof (cases r)
    case (WrSome n)
    define c1 where "c1 = ?c\<lparr>nwrite_in := nwrite_in ?c + int n\<rparr>"
    define w2 where "w2 = set_ca ca c1 w1"
    have n: "n \<le> length out" using WrSome by (auto simp: r_def out_def write_result_def split: wr.splits)
    note written = pending_in_written [OF buf n [unfolded out_def], folded c1_def out_def]
    have c1: "ca_fd c1 = fdc w1 ca" "conn_apa c1 = conn w1 ca" "buf_ok c1"
      using buf n by (auto simp: c1_def buf_ok_def out_def pending_in_def w1_def)
    have inv2: "cons_inv N l H w2" using cons_inv_set_ca [OF inv1 c1] by (simp add: w2_def)
    have w2: "cas (c_net w2) ca = c1" "sent (c_net w2) = sent (c_net w1)" "forwarded fd (accepted r) out w w2"
      by (simp_all add: w2_def set_ca_def forwarded_def ticked_def w1_def)
    have ex2: "same_exchange ca w w2"
      by (simp add: same_exchange_def w2_def set_ca_def w1_def c1_def pending_out_def)
    have acc: "accepted r = n" using WrSome by (simp add: accepted_def)
    have alive: "\<not> ca_fd c1 < 0" using get(2) by (simp add: c1_def)
    show ?thesis
    proof (cases "nwrite_in c1 = nread_in c1")
      case False
      then have "write_to_remote_agent E fd ca w = Some w2"
        using body WrSome by (simp add: c1_def [symmetric] w2_def [symmetric] Let_def)
      moreover have "n \<noteq> length out" using False written by (auto simp: c1_def)
      ultimately show ?thesis using w2 written(1) acc WrSome alive inv2 ex2 by auto
    next
      case True
      obtain w3 where w3: "c_unwatch fd AE_WRITABLE w2 = Some w3" "cons_inv N l H w3" "rewatched w2 w3"
        "entry w3 fd = cleared AE_WRITABLE (entry w2 fd)"
        by (rule unwatch_ok [OF inv2 fd(1,2)])
      note re = rewatched_same [OF w3(3)]
      obtain t w4 where tm: "c_sys (sys_time E) w3 = (t, w4)" by (cases "c_sys (sys_time E) w3")
      have w4: "w4 = ticked (sent (c_net w3)) w3" by (rule sys_time_ticked [OF tm])
      let ?w5 = "set_apa (conn w ca) ((apas (c_net w3) (conn w ca))\<lparr>req_start := t\<rparr>) w4"
      have "conn_apa c1 = conn w ca" by (simp add: c1_def)
      then have "write_to_remote_agent E fd ca w = Some ?w5"
        using body WrSome True w3(1) tm ca(2)
        by (simp add: c1_def [symmetric] w2_def [symmetric] Let_def get_apa_def)
      moreover have "sent (c_net ?w5) = sent (c_net w2)" "cas (c_net ?w5) ca = c1" "entry ?w5 fd = entry w3 fd"
        using re w2 by (simp_all add: set_apa_def w4 ticked_def)
      moreover have "\<not> bit (fe_mask (entry w3 fd)) 1"
        unfolding w3(4) by (simp add: cleared_def bit_and_iff bit_or_iff bit_not_iff ae_masks)
      moreover have "cons_inv N l H ?w5"
        using core_set_apa [of N l H H w4 "(apas (c_net w3) (conn w ca))\<lparr>req_start := t\<rparr>" "conn w ca"]
          cons_inv_ticked [OF w3(2), of "sent (c_net w3)"] by (simp add: cons_inv_def pool_part_def set_apa_def w4)
      moreover have "tick (c_net w2) = Suc (tick (c_net w))" by (simp add: w2_def set_ca_def w1_def)
      then have "same_exchange ca w ?w5" using ex2 re by (simp add: same_exchange_def set_apa_def w4)
      ultimately show ?thesis using w2 written(1) acc WrSome alive by (auto simp: forwarded_def)
    qed
  next
    case WrAgain
    then show ?thesis using body get(2) inv1 by (simp add: accepted_def forwarded_def out_def ticked_def w1_def same_exchange_def)
  next
    case WrErr
    obtain w' where "abort_connection_ca ca w1 = Some w'" "sent (c_net w') = sent (c_net w1)"
      "cas (c_net w') = (cas (c_net w1))(ca := (cas (c_net w1) ca)\<lparr>ca_fd := - 1\<rparr>)"
      using abort_ok [OF inv1 ca(1)] by blast
    then show ?thesis
      using body WrErr by (simp add: accepted_def forwarded_def out_def ticked_def pending_in_def w1_def)
  qed
qed

text \<open>The reading half of an exchange.\<close>

lemma pending_in_read:
  assumes "buf_ok c" "length s < nat (int CONSUMER_HTTP_REQ_BUF_SIZE - nread_in c)"
  shows "pending_in (c\<lparr>buf_in := blit (nat (nread_in c)) s (buf_in c), nread_in := nread_in c + int (length s),
      nread_out := 0, nwrite_out := 0\<rparr>) = pending_in c @ s"
proof -
  have "nat (nread_in c) + length s \<le> length (buf_in c)" "0 \<le> nwrite_in c" "nwrite_in c \<le> nread_in c"
    using assms unfolding buf_ok_def by linarith+
  then show ?thesis using slice_blit [of "nwrite_in c" "nread_in c" s "buf_in c"] by (simp add: pending_in_def)
qed

lemma pending_out_read:
  assumes "buf_ok c" "length s \<le> nat (int CONSUMER_HTTP_RESP_BUF_SIZE - nread_out c)"
  shows "pending_out (c\<lparr>buf_out := blit (nat (nread_out c)) s (buf_out c), nread_out := nread_out c + int (length s),
      nread_in := 0, nwrite_in := 0\<rparr>) = pending_out c @ s"
proof -
  have "nat (nread_out c) + length s \<le> length (buf_out c)" "0 \<le> nwrite_out c" "nwrite_out c \<le> nread_out c"
    using assms unfolding buf_ok_def by linarith+
  then show ?thesis using slice_blit [of "nwrite_out c" "nread_out c" s "buf_out c"] by (simp add: pending_out_def)
qed

lemma sys_read_open:
  assumes "open_fds (c_net w) fd" "env_read E fd k (c_net w) = RdData s" "s \<noteq> []" "length s \<le> k"
  shows "c_sys (sys_read E fd k) w = (RdData s, ticked (sent (c_net w)) w)"
  using assms by (cases w) (auto simp: c_sys_def sys_read_def tock_def ticked_def)

definition watching_remote :: "addr \<Rightarrow> consumer \<Rightarrow> bool" where
  "watching_remote ca w \<longleftrightarrow> conn w ca \<noteq> NULL \<and>
     (let e = entry w (fda w (conn w ca))
      in bit (fe_mask e) 0 \<and> rfileProc e = Some Read_from_remote_agent \<and>
         bit (fe_mask e) 1 \<and> wfileProc e = Some Write_to_remote_agent \<and> clientData e = ca)"

lemma registered_entry:
  assumes "c_watch fd m p d w = Some (AE_OK, w')" "cons_inv N l H w" "has_role l H H w r fd" "m \<noteq> AE_NONE"
  shows "entry w' fd = registered m p d (entry w fd)"
proof -
  have core: "core N l H H w" using assms(2) by (simp add: cons_inv_def)
  then have t: "loop_ok epoll_tracks (c_loop w) (c_net w)" "watch_faults (c_net w) = []" "setsize (c_loop w) = N"
    by (simp_all add: core_def table_inv_def)
  obtain el i where "aeCreateFileEvent epoll_api fd m p d (c_loop w) (c_net w) = Some (AE_OK, el, (c_net w)\<lparr>interest := i\<rparr>)"
    "events el = (events (c_loop w))(fd := registered m p d (entry w fd))"
    using create_event [OF t(1,2) role_range(3,1) [OF core assms(3)] _ assms(4), of p d] role_range(2) [OF core assms(3)] t(3)
    by auto
  then show ?thesis using assms(1) by (auto simp: c_watch_def)
qed

lemma rewatched_trans:
  assumes "rewatched w w1" "rewatched w1 w2"
  shows "rewatched w w2"
proof -
  obtain el i where w1: "w1 = w\<lparr>c_loop := el, c_net := (c_net w)\<lparr>interest := i\<rparr>\<rparr>"
    using assms(1) unfolding rewatched_def by blast
  obtain el' i' where "w2 = w1\<lparr>c_loop := el', c_net := (c_net w1)\<lparr>interest := i'\<rparr>\<rparr>"
    using assms(2) unfolding rewatched_def by blast
  then have "w2 = w\<lparr>c_loop := el', c_net := (c_net w)\<lparr>interest := i'\<rparr>\<rparr>" using w1 by simp
  then show ?thesis unfolding rewatched_def by blast
qed

lemma watch_remote_watching:
  assumes inv: "cons_inv N l H w" and ca: "ca \<in> H" "conn w ca \<noteq> NULL"
  obtains w' where "watch_remote ca (conn w ca) w = Some w'" "cons_inv N l H w'" "rewatched w w'" "watching_remote ca w'"
proof -
  let ?a = "conn w ca" let ?fd = "fda w ?a"
  have role: "has_role l H H w (Remote ca) ?fd" by (rule holder_partner(1) [OF inv ca])
  obtain w1 where w1: "c_watch ?fd AE_WRITABLE Write_to_remote_agent ca w = Some (AE_OK, w1)" "cons_inv N l H w1" "rewatched w w1"
    by (rule watch_ok [OF inv role, of AE_WRITABLE Write_to_remote_agent ca]) auto
  note re = rewatched_same [OF w1(3)]
  have role1: "has_role l H H w1 (Remote ca) ?fd" using role re by simp
  obtain w2 where w2: "c_watch ?fd AE_READABLE Read_from_remote_agent ca w1 = Some (AE_OK, w2)" "cons_inv N l H w2" "rewatched w1 w2"
    by (rule watch_ok [OF w1(2) role1, of AE_READABLE Read_from_remote_agent ca]) auto
  note re2 = rewatched_same [OF w2(3)]
  have e1: "entry w1 ?fd = registered AE_WRITABLE Write_to_remote_agent ca (entry w ?fd)"
    by (rule registered_entry [OF w1(1) inv role]) (simp add: ae_masks)
  have e2: "entry w2 ?fd = registered AE_READABLE Read_from_remote_agent ca (entry w1 ?fd)"
    by (rule registered_entry [OF w2(1) w1(2) role1]) (simp add: ae_masks)
  have "watch_remote ca ?a w = Some w2"
    using w1(1) w2(1) re ca(2) by (simp add: watch_remote_def get_apa_def AE_OK_def AE_ERR_def)
  moreover have "rewatched w w2" by (rule rewatched_trans [OF w1(3) w2(3)])
  moreover have "watching_remote ca w2"
    using ca(2) re re2 e2 by (simp add: watching_remote_def e1 registered_def bit_or_iff ae_masks)
  ultimately show thesis using w2(2) that by blast
qed

text \<open>
  What \<open>read_from_consumer\<close> does with data: the data joins the request, the answer's positions are
  reset, and unless the chosen endpoint has no idle connection left the agent now watches the
  provider's side.
\<close>

lemma request_read:
  fixes E :: "cnet env"
  assumes inv: "cons_inv N l H w" and ca: "ca \<in> H" and k: "k = nat (int CONSUMER_HTTP_REQ_BUF_SIZE - nread_in (cas (c_net w) ca))"
    and s: "env_read E (fdc w ca) k (c_net w) = RdData s" "s \<noteq> []" "length s < k"
  shows "\<exists>w'. read_from_consumer E (fdc w ca) ca w = Some w' \<and> sent (c_net w') = sent (c_net w) \<and>
    pending_in (cas (c_net w') ca) = pending_in (cas (c_net w) ca) @ s \<and> pending_out (cas (c_net w') ca) = [] \<and>
    nread_out (cas (c_net w') ca) = 0 \<and>
    (if 0 \<le> fdc w' ca then cons_inv N l H w' \<and> fdc w' ca = fdc w ca \<and> watching_remote ca w' \<and>
        apas (c_net w') = apas (c_net w) \<and> open_fds (c_net w') = open_fds (c_net w) \<and> tick (c_net w') = Suc (tick (c_net w)) \<and>
        (if conn w ca \<noteq> NULL then conn w' ca = conn w ca
         else \<exists>j < c_num w. get_endpoint_min_latency (c_eps w) (c_num w) = Some j \<and> conn w' ca \<in> idle w j)
     else conn w ca = NULL \<and> cons_inv N l (H - {ca}) w' \<and>
        (\<exists>j < c_num w. get_endpoint_min_latency (c_eps w) (c_num w) = Some j \<and> idle w j = {}))"
proof -
  let ?c = "cas (c_net w) ca" let ?fd = "fdc w ca"
  have get: "get_ca ca w = Some ?c" "0 \<le> ?fd" using holder_fd [OF inv ca] by (auto simp: get_ca_def)
  have buf: "buf_ok ?c" by (rule holder_fd(5) [OF inv ca])
  define w1 where "w1 = ticked (sent (c_net w)) w"
  have sys: "c_sys (sys_read E ?fd k) w = (RdData s, w1)"
    using sys_read_open [OF holder_fd(4) [OF inv ca] s(1,2)] s(3) by (simp add: w1_def)
  define c1 where "c1 = ?c\<lparr>buf_in := blit (nat (nread_in ?c)) s (buf_in ?c), nread_in := nread_in ?c + int (length s),
    nread_out := 0, nwrite_out := 0\<rparr>"
  define w2 where "w2 = set_ca ca c1 w1"
  have inv1: "cons_inv N l H w1" unfolding w1_def by (rule cons_inv_ticked [OF inv])
  have c1: "ca_fd c1 = fdc w1 ca" "conn_apa c1 = conn w1 ca" "buf_ok c1"
    using buf s(3) k by (auto simp: c1_def w1_def buf_ok_def)
  have inv2: "cons_inv N l H w2" unfolding w2_def by (rule cons_inv_set_ca [OF inv1 c1])
  have pend: "pending_in c1 = pending_in ?c @ s" "pending_out c1 = []" "nread_out c1 = 0"
    using pending_in_read [OF buf s(3) [unfolded k]] by (simp_all add: c1_def pending_out_def)
  have w2: "cas (c_net w2) ca = c1" "sent (c_net w2) = sent (c_net w)" "c_eps w2 = c_eps w" "c_num w2 = c_num w"
    "conn w2 ca = conn w ca" "fdc w2 ca = ?fd" "\<And>j. idle w2 j = idle w j" "apas (c_net w2) = apas (c_net w)"
    "open_fds (c_net w2) = open_fds (c_net w)" "tick (c_net w2) = Suc (tick (c_net w))"
    using c1 by (simp_all add: w2_def set_ca_def w1_def ticked_def idle_def)
  have body: "read_from_consumer E ?fd ca w =
      (if conn w ca = NULL then do {
         k \<leftarrow> get_endpoint_min_latency (c_eps w) (c_num w);
         (apa, w3) \<leftarrow> take_apa k w2;
         if apa = NULL then abort_connection_ca ca w3
         else watch_remote ca apa (set_ca ca (c1\<lparr>conn_apa := apa\<rparr>) w3)
       } else watch_remote ca (conn w2 ca) w2)"
    using get sys [unfolded k] w2
    by (simp add: read_from_consumer_def c1_def [symmetric] w2_def [symmetric] Let_def)
  show ?thesis
  proof (cases "conn w ca = NULL")
    case False
    then obtain w' where w': "watch_remote ca (conn w2 ca) w2 = Some w'" "cons_inv N l H w'" "rewatched w2 w'" "watching_remote ca w'"
      using watch_remote_watching [OF inv2 ca] w2(5) by metis
    show ?thesis using False body w' pend w2 get(2) rewatched_same [OF w'(3)] by simp
  next
    case True
    have core2: "core N l H H w2" and pool2: "pool_part H w2" using inv2 by (simp_all add: cons_inv_def)
    then have "table_ok (c_eps w) (c_num w)" using table_ok_inv [of H w2] w2 by (simp add: core_def)
    then obtain j where j: "get_endpoint_min_latency (c_eps w) (c_num w) = Some j" "j < c_num w"
      using min_latency.chosen by blast
    have split: "read_from_consumer E ?fd ca w =
        (do { (apa, w3) \<leftarrow> take_apa j w2;
           if apa = NULL then abort_connection_ca ca w3
           else watch_remote ca apa (set_ca ca (c1\<lparr>conn_apa := apa\<rparr>) w3) })"
      using body True j(1) by simp
    show ?thesis
    proof (rule take_apa_cases [OF core2 _ ca])
      show "j < c_num w2" "conn w2 ca = NULL" using j(2) w2 True by simp_all
    next
      assume none: "take_apa j w2 = Some (NULL, w2)" "idle w2 j = {}"
      obtain w' where "abort_connection_ca ca w2 = Some w'" "cons_inv N l (H - {ca}) w'" "sent (c_net w') = sent (c_net w2)"
        "cas (c_net w') = (cas (c_net w2))(ca := (cas (c_net w2) ca)\<lparr>ca_fd := - 1\<rparr>)"
        using abort_ok [OF inv2 ca] by blast
      then show ?thesis
        using split none True w2 j pend by (auto simp: pending_in_def pending_out_def)
    next
      fix a q
      assume a: "a \<noteq> NULL" "take_apa j w2 = Some (a, lent j q w2)" "core N l H H (partner ca a (lent j q w2))" "a \<in> idle w2 j"
      define w3 where "w3 = partner ca a (lent j q w2)"
      have inv3: "cons_inv N l H w3" using a(3) pool2 by (simp add: cons_inv_def pool_part_def w3_def)
      have w3: "set_ca ca (c1\<lparr>conn_apa := a\<rparr>) (lent j q w2) = w3" "conn w3 ca = a" "fdc w3 ca = ?fd" "sent (c_net w3) = sent (c_net w)"
        "apas (c_net w3) = apas (c_net w)" "open_fds (c_net w3) = open_fds (c_net w)"
        "tick (c_net w3) = Suc (tick (c_net w))"
        "pending_in (cas (c_net w3) ca) = pending_in c1" "pending_out (cas (c_net w3) ca) = pending_out c1"
        "nread_out (cas (c_net w3) ca) = nread_out c1"
        using w2 by (simp_all add: w3_def partner_def set_ca_def pending_in_def pending_out_def)
      obtain w' where w': "watch_remote ca a w3 = Some w'" "cons_inv N l H w'" "rewatched w3 w'" "watching_remote ca w'"
        using watch_remote_watching [OF inv3 ca] w3(2) a(1) by metis
      show ?thesis
        using split a(1,2,4) w'(1,2,4) rewatched_same [OF w'(3)] w3 True j pend w2 get(2) by auto
    qed
  qed
qed

lemma count_response_data:
  assumes "count_response E a w = Some w'"
  shows "cas (c_net w') = cas (c_net w)" "apas (c_net w') = apas (c_net w)" "sent (c_net w') = sent (c_net w)" "c_loop w' = c_loop w"
    "\<exists>k. apa_endpoint (apas (c_net w) a) = Some k \<and> k < length (c_eps w) \<and> num_reqs (c_eps w' ! k) = num_reqs (c_eps w ! k) + 1"
  using assms
  by (auto simp: count_response_def bind_eq_Some_conv get_apa_def ep_at_def c_sys_def sys_time_def tock_def split: if_splits)

lemma response_read:
  fixes E :: "cnet env"
  assumes tick: "tick (c_net w) < 2 ^ 31 - 2" and inv: "cons_inv N l H w" and ca: "ca \<in> H" "conn w ca \<noteq> NULL" "fda w (conn w ca) = fd"
    and k: "k = nat (int CONSUMER_HTTP_RESP_BUF_SIZE - nread_out (cas (c_net w) ca))"
    and s: "env_read E fd k (c_net w) = RdData s" "s \<noteq> []" "length s \<le> k"
  shows "\<exists>w'. read_from_remote_agent E fd ca w = Some w' \<and> cons_inv N l H w' \<and> sent (c_net w') = sent (c_net w) \<and>
    pending_out (cas (c_net w') ca) = pending_out (cas (c_net w) ca) @ s \<and> pending_in (cas (c_net w') ca) = [] \<and>
    fdc w' ca = fdc w ca \<and> conn w' ca = conn w ca \<and> fda w' (conn w ca) = fd \<and>
    bit (fe_mask (entry w' (fdc w ca))) 1 \<and> wfileProc (entry w' (fdc w ca)) = Some Write_to_consumer \<and>
    clientData (entry w' (fdc w ca)) = ca"
proof -
  let ?c = "cas (c_net w) ca" let ?fc = "fdc w ca"
  have get: "get_ca ca w = Some ?c" "0 \<le> ?fc" using holder_fd [OF inv ca(1)] by (auto simp: get_ca_def)
  have buf: "buf_ok ?c" by (rule holder_fd(5) [OF inv ca(1)])
  have core: "core N l H H w" using inv by (simp add: cons_inv_def)
  have fd: "open_fds (c_net w) fd" using role_range(3) [OF core holder_partner(1) [OF inv ca(1,2)]] ca(3) by simp
  obtain w' H' where w': "read_from_remote_agent E fd ca w = Some w'"
    using read_from_remote_agent_safe [OF tick inv ca(1,2)] by blast
  define w1 where "w1 = ticked (sent (c_net w)) w"
  have sys: "c_sys (sys_read E fd k) w = (RdData s, w1)"
    using sys_read_open [OF fd s] by (simp add: w1_def)
  define c1 where "c1 = ?c\<lparr>buf_out := blit (nat (nread_out ?c)) s (buf_out ?c), nread_out := nread_out ?c + int (length s),
    nread_in := 0, nwrite_in := 0\<rparr>"
  define w2 where "w2 = set_ca ca c1 w1"
  have inv1: "cons_inv N l H w1" unfolding w1_def by (rule cons_inv_ticked [OF inv])
  have c1: "ca_fd c1 = fdc w1 ca" "conn_apa c1 = conn w1 ca" "buf_ok c1"
    using buf s(3) k by (auto simp: c1_def w1_def buf_ok_def)
  have inv2: "cons_inv N l H w2" unfolding w2_def by (rule cons_inv_set_ca [OF inv1 c1])
  have pend: "pending_out c1 = pending_out ?c @ s" "pending_in c1 = []"
    using pending_out_read [OF buf s(3) [unfolded k]] by (simp_all add: c1_def pending_in_def)
  have w2: "cas (c_net w2) ca = c1" "sent (c_net w2) = sent (c_net w)" "conn w2 ca = conn w ca" "fdc w2 ca = ?fc"
    "apas (c_net w2) = apas (c_net w)" "ca_fd c1 = ?fc"
    using c1 by (simp_all add: w2_def set_ca_def w1_def ticked_def)
  have role: "has_role l H H w2 (Ca ca) ?fc" using ca(1) w2 by simp
  obtain w3 where w3: "c_watch ?fc AE_WRITABLE Write_to_consumer ca w2 = Some (AE_OK, w3)" "cons_inv N l H w3" "rewatched w2 w3"
    by (rule watch_ok [OF inv2 role, of AE_WRITABLE Write_to_consumer ca]) auto
  note re = rewatched_same [OF w3(3)]
  have e3: "entry w3 ?fc = registered AE_WRITABLE Write_to_consumer ca (entry w2 ?fc)"
    by (rule registered_entry [OF w3(1) inv2 role]) (simp add: ae_masks)
  have "read_from_remote_agent E fd ca w = count_response E (conn w ca) w3"
    using get sys [unfolded k] w2 w3(1) re holder_fd(1) [OF inv ca(1)]
    by (simp add: read_from_remote_agent_def c1_def [symmetric] w2_def [symmetric] Let_def get_ca_def AE_OK_def AE_ERR_def)
  then have cnt: "count_response E (conn w ca) w3 = Some w'" using w' by simp
  note frame = count_response_data [OF cnt]
  have same: "c_eps w3 = c_eps w" "tick (c_net w3) = Suc (tick (c_net w))" "c_num w3 = c_num w" "conn w3 ca = conn w ca"
    using re w2 by (simp_all add: w2_def set_ca_def w1_def)
  then have "\<exists>w'. count_response E (conn w3 ca) w3 = Some w' \<and> cons_inv N l H w'"
    using requests_bounded [OF inv tick] by (intro count_response_safe [OF w3(2) ca(1)]) (auto simp: ca(2))
  then have inv': "cons_inv N l H w'" using cnt same(4) by simp
  have "bit (fe_mask (entry w' ?fc)) 1 \<and> wfileProc (entry w' ?fc) = Some Write_to_consumer \<and> clientData (entry w' ?fc) = ca"
    unfolding frame(4) e3 by (simp add: registered_def bit_or_iff ae_masks)
  then show ?thesis
    using w' inv' frame(1-3) re w2 pend ca(3) by simp
qed

text \<open>The last step: the answer goes out, and once it is complete the provider's connection is back.\<close>

lemma response_step:
  fixes E :: "cnet env"
  assumes inv: "cons_inv N l H w" and ca: "ca \<in> H" and fd: "fdc w ca = fd"
  defines "out \<equiv> pending_out (cas (c_net w) ca)" and "r \<equiv> write_result E fd (pending_out (cas (c_net w) ca)) w"
  shows "\<exists>w'. write_to_consumer E fd ca w = Some w' \<and> forwarded fd (accepted r) out w w' \<and>
    pending_out (cas (c_net w') ca) = drop (accepted r) out \<and> pending_in (cas (c_net w') ca) = pending_in (cas (c_net w) ca) \<and>
    (if r = WrAgain \<or> r = WrErr then fdc w' ca < 0 \<and> cons_inv N l (H - {ca}) w'
     else fdc w' ca = fd \<and> cons_inv N l H w' \<and>
       (if r = WrSome (length out) then \<not> bit (fe_mask (entry w' fd)) 1 \<and> conn w' ca = NULL \<and>
           (conn w ca \<noteq> NULL \<longrightarrow> fe_mask (entry w' (fda w (conn w ca))) = AE_NONE \<and>
              (\<exists>k < c_num w'. epa w (conn w ca) = Some k \<and> conn w ca \<in> idle w' k))
        else conn w' ca = conn w ca))"
proof -
  let ?c = "cas (c_net w) ca"
  define w1 where "w1 = ticked ((sent (c_net w))(fd := sent (c_net w) fd @ take (accepted r) out)) w"
  have get: "get_ca ca w = Some ?c" "\<not> ca_fd ?c < 0" using holder_fd [OF inv ca] by (auto simp: get_ca_def)
  have buf: "buf_ok ?c" by (rule holder_fd(5) [OF inv ca])
  have range: "0 \<le> fd" "fd < N" "open_fds (c_net w) fd" using holder_fd [OF inv ca] fd by simp_all
  have sys: "c_sys (sys_write E fd out) w = (r, w1)" using sys_write_open [OF range(3)] by (simp add: r_def out_def w1_def)
  have inv1: "cons_inv N l H w1" unfolding w1_def by (rule cons_inv_ticked [OF inv])
  have body: "write_to_consumer E fd ca w = (case r of
         WrSome n \<Rightarrow> do {
           let c1 = ?c\<lparr>nwrite_out := nwrite_out ?c + int n\<rparr>;
           let w2 = set_ca ca c1 w1;
           if nwrite_out c1 = nread_out c1 then do {
             w3 \<leftarrow> c_unwatch fd AE_WRITABLE w2;
             if conn_apa c1 \<noteq> NULL then do {
               a \<leftarrow> get_apa (conn_apa c1) w3;
               w4 \<leftarrow> c_unwatch (apa_fd a) (AE_WRITABLE OR AE_READABLE) w3;
               k \<leftarrow> apa_endpoint a;
               w5 \<leftarrow> return_apa k (conn_apa c1) w4;
               c5 \<leftarrow> get_ca ca w5;
               Some (set_ca ca (c5\<lparr>conn_apa := NULL\<rparr>) w5)
             } else Some w3
           } else Some w2
         }
       | _ \<Rightarrow> abort_connection_ca ca w1)"
    using get sys by (simp add: write_to_consumer_def pending_out_def [symmetric] out_def [symmetric] split: wr.splits)
  show ?thesis
  proof (cases "r = WrAgain \<or> r = WrErr")
    case True
    obtain w' where "abort_connection_ca ca w1 = Some w'" "cons_inv N l (H - {ca}) w'" "sent (c_net w') = sent (c_net w1)"
      "cas (c_net w') = (cas (c_net w1))(ca := (cas (c_net w1) ca)\<lparr>ca_fd := - 1\<rparr>)"
      using abort_ok [OF inv1 ca] by blast
    then show ?thesis
      using body True by (auto simp: accepted_def forwarded_def out_def ticked_def pending_out_def pending_in_def w1_def)
  next
    case False
    then obtain n where WrSome: "r = WrSome n" by (cases r) auto
    define c1 where "c1 = ?c\<lparr>nwrite_out := nwrite_out ?c + int n\<rparr>"
    define w2 where "w2 = set_ca ca c1 w1"
    have n: "n \<le> length out" using WrSome by (auto simp: r_def out_def write_result_def split: wr.splits)
    note written = pending_out_written [OF buf n [unfolded out_def], folded c1_def out_def]
    have c1: "ca_fd c1 = fdc w1 ca" "conn_apa c1 = conn w1 ca" "buf_ok c1"
      using buf n by (auto simp: c1_def buf_ok_def out_def pending_out_def w1_def)
    have inv2: "cons_inv N l H w2" using cons_inv_set_ca [OF inv1 c1] by (simp add: w2_def)
    have w2: "cas (c_net w2) ca = c1" "sent (c_net w2) = sent (c_net w1)" "forwarded fd (accepted r) out w w2"
      "apas (c_net w2) = apas (c_net w)" "conn w2 ca = conn w ca" "fdc w2 ca = fd" "conn_apa c1 = conn w ca"
      using fd by (simp_all add: w2_def set_ca_def forwarded_def ticked_def w1_def c1_def)
    have in2: "pending_in c1 = pending_in ?c" by (simp add: c1_def pending_in_def)
    have acc: "accepted r = n" using WrSome by (simp add: accepted_def)
    have full: "n = length out \<longleftrightarrow> nwrite_out c1 = nread_out c1"
      using written n by (auto simp: c1_def)
    show ?thesis
    proof (cases "nwrite_out c1 = nread_out c1")
      case False
      then have "write_to_consumer E fd ca w = Some w2"
        using body WrSome by (simp add: c1_def [symmetric] w2_def [symmetric] Let_def)
      then show ?thesis using w2 in2 written(1) acc WrSome full False inv2 by auto
    next
      case True
      obtain w3 where w3: "c_unwatch fd AE_WRITABLE w2 = Some w3" "cons_inv N l H w3" "rewatched w2 w3"
        "entry w3 fd = cleared AE_WRITABLE (entry w2 fd)"
        by (rule unwatch_ok [OF inv2 range(1,2)])
      note re = rewatched_same [OF w3(3)]
      have off: "\<not> bit (fe_mask (entry w3 fd)) 1"
        unfolding w3(4) by (simp add: cleared_def bit_and_iff bit_or_iff bit_not_iff ae_masks)
      show ?thesis
      proof (cases "conn w ca = NULL")
        case idle: True
        then have "write_to_consumer E fd ca w = Some w3"
          using body WrSome True w3(1) w2 by (simp add: c1_def [symmetric] w2_def [symmetric] Let_def)
        then show ?thesis using w2 in2 re written(1) acc WrSome full True idle off w3(2) by (auto simp: forwarded_def)
      next
        case False
        let ?a = "conn w ca" let ?fa = "fda w ?a"
        have held: "conn w3 ca = ?a" "fda w3 ?a = ?fa" "conn w3 ca \<noteq> NULL" using re w2 False by simp_all
        obtain k where k: "k < c_num w3" "epa w3 ?a = Some k" using holder_partner(4) [OF w3(2) ca] held by metis
        have role: "has_role l H H w3 (Remote ca) ?fa" "0 \<le> ?fa" "?fa < N" using holder_partner [OF w3(2) ca held(3)] held by simp_all
        obtain w4 where w4: "c_unwatch ?fa (AE_WRITABLE OR AE_READABLE) w3 = Some w4" "cons_inv N l H w4" "rewatched w3 w4"
          "entry w4 ?fa = cleared (AE_WRITABLE OR AE_READABLE) (entry w3 ?fa)" "\<forall>g. g \<noteq> ?fa \<longrightarrow> entry w4 g = entry w3 g"
          using unwatch_ok [OF w3(2) role(2,3)] by blast
        note re4 = rewatched_same [OF w4(3)]
        have core3: "core N l H H w3" and core4: "core N l H H w4" and pool4: "pool_part H w4"
          using w3(2) w4(2) by (simp_all add: cons_inv_def)
        have quiet: "fe_mask (entry w4 ?fa) = AE_NONE"
          unfolding w4(4) by (intro all_cleared role_bits [OF core3 role(1)])
        obtain q where q: "return_apa k ?a w4 = Some (lent k q w4)" "core N l H H (partner ca NULL (lent k q w4))"
          "?a \<in> set (pool_items q)"
          using return_apa_ok [OF core4 ca, of k] False k(2) quiet re4 held by auto
        let ?w = "partner ca NULL (lent k q w4)"
        have "cons_inv N l H ?w" using q(2) pool4 by (simp add: cons_inv_def pool_part_def)
        moreover have "write_to_consumer E fd ca w = Some ?w"
          using body WrSome True False w3(1) w2 w4(1) k(2) q(1) held holder_fd(1) [OF inv ca]
          by (simp add: c1_def [symmetric] w2_def [symmetric] Let_def get_apa_def get_ca_def partner_def)
        moreover have "\<not> bit (fe_mask (entry ?w fd)) 1" using off w4(4,5) quiet by (cases "fd = ?fa") (auto simp: AE_NONE_def)
        moreover have "k < length (c_eps w4)" using core4 k re4 by (simp add: core_def eps_ok_def)
        then have "?a \<in> idle ?w k" using q(3) by (simp add: idle_lent)
        moreover have "forwarded fd (accepted r) out w ?w" "pending_out (cas (c_net ?w) ca) = pending_out c1"
          "pending_in (cas (c_net ?w) ca) = pending_in ?c" "fdc ?w ca = fd"
          using w2 re re4 in2 by (simp_all add: forwarded_def partner_def set_ca_def pending_out_def pending_in_def)
        moreover have "c_num ?w = c_num w3" "epa w ?a = Some k" using re4 re w2 k by simp_all
        ultimately show ?thesis using written(1) acc WrSome full True quiet k(1) by auto
      qed
    qed
  qed
qed

end
