(* ===== verification/Consumer_Exchange.thy ===== *)
theory Consumer_Exchange
  imports Consumer_Props
begin

text \<open>
  The properties of the consumer agent as a whole, and their witnesses on an agent with one
  consumer connected and one provider.
\<close>

section \<open>Safety\<close>

text \<open>
  C5: In an orderly environment the consumer agent never crashes: however many rounds of the event
  loop it runs, whatever the kernel reports and the providers answer, every handler returns and the
  invariant holds again.
\<close>

theorem consumer_agent_safe:
  assumes "orderly E" "cons_inv N l H w"
  shows "\<exists>w' H'. consumer_main E n w = Some w' \<and> cons_inv N l H' w'"
  by (rule consumer_main_inv [OF assms])

text \<open>
  A moment inside a run of the agent: after \<open>n\<close> rounds and the handlers of the first \<open>k\<close> descriptors the
  next poll reports.
\<close>

definition moment :: "cnet env \<Rightarrow> nat \<Rightarrow> nat \<Rightarrow> consumer \<Rightarrow> consumer option" where
  "moment E n k w = do {
     w0 \<leftarrow> consumer_main E n w;
     let (fs, w1) = consumer_poll w0;
     map_option snd (process_all c_loop (consumer_call E) (take k fs) 0 w1)
   }"

lemma moment_inv:
  assumes "orderly E" "cons_inv N l H w" "moment E n k w = Some w'"
  shows "\<exists>H'. cons_inv N l H' w'"
proof -
  obtain w0 fs w1 j where r: "consumer_main E n w = Some w0" "consumer_poll w0 = (fs, w1)"
    "process_all c_loop (consumer_call E) (take k fs) 0 w1 = Some (j, w')"
    using assms(3) by (auto simp: moment_def Let_def split: prod.splits Option.bind_splits)
  obtain H0 where "cons_inv N l H0 w0" using consumer_main_inv [OF assms(1,2), of n] r(1) by auto
  from consumer_poll_ok [OF this r(2)] have w1: "cons_inv N l H0 w1" "\<forall>(fd, m) \<in> set (take k fs). 0 \<le> fd \<and> fd < N"
    by (auto dest: in_set_takeD)
  then show ?thesis
    using agent.process_all_ok [of E N l w1 "take k fs" 0] assms(1) r(3) by auto
qed

text \<open>
  The event of \<open>fd\<close> calls the handler \<open>p\<close> with the object \<open>ca\<close>; the objects some handler of an exchange
  can be called with are the consumers that are served.
\<close>

definition registered_for :: "consumer \<Rightarrow> fd \<Rightarrow> cproc \<Rightarrow> addr \<Rightarrow> bool" where
  "registered_for w fd p ca \<longleftrightarrow> 0 \<le> fd \<and> fd < setsize (c_loop w) \<and> clientData (entry w fd) = ca \<and>
     (bit (fe_mask (entry w fd)) 0 \<and> rfileProc (entry w fd) = Some p \<or>
      bit (fe_mask (entry w fd)) 1 \<and> wfileProc (entry w fd) = Some p)"

definition on_consumer :: "consumer \<Rightarrow> fd \<Rightarrow> addr \<Rightarrow> bool" where
  "on_consumer w fd ca \<longleftrightarrow> registered_for w fd Read_from_consumer ca \<or> registered_for w fd Write_to_consumer ca"

definition on_remote :: "consumer \<Rightarrow> fd \<Rightarrow> addr \<Rightarrow> bool" where
  "on_remote w fd ca \<longleftrightarrow> registered_for w fd Read_from_remote_agent ca \<or> registered_for w fd Write_to_remote_agent ca"

definition served :: "consumer \<Rightarrow> addr \<Rightarrow> bool" where
  "served w ca \<longleftrightarrow> (\<exists>fd. on_consumer w fd ca \<or> on_remote w fd ca)"

lemma registered_role:
  assumes "cons_inv N l H w" "registered_for w fd p ca"
  obtains r where "has_role l H H w r fd" "entry_ok r (entry w fd)"
proof -
  have "0 \<le> fd" "fd < N" "fe_mask (entry w fd) \<noteq> AE_NONE"
    using assms bit_not_NONE by (auto simp: registered_for_def cons_inv_def core_def table_inv_def)
  then show thesis using entry_role [OF assms(1)] that by blast
qed

lemma on_remote_held:
  assumes "cons_inv N l H w" "on_remote w fd ca"
  shows "ca \<in> H" "conn w ca \<noteq> NULL" "fda w (conn w ca) = fd"
proof -
  obtain p where p: "registered_for w fd p ca" "p = Read_from_remote_agent \<or> p = Write_to_remote_agent"
    using assms(2) by (auto simp: on_remote_def)
  obtain r where "has_role l H H w r fd" "entry_ok r (entry w fd)" using registered_role [OF assms(1) p(1)] .
  then have "ca \<in> H \<and> conn w ca \<noteq> NULL \<and> fda w (conn w ca) = fd"
    using p by (cases r) (auto simp: registered_for_def)
  then show "ca \<in> H" "conn w ca \<noteq> NULL" "fda w (conn w ca) = fd" by simp_all
qed

lemma on_consumer_held:
  assumes "cons_inv N l H w" "on_consumer w fd ca"
  shows "ca \<in> H" "fdc w ca = fd"
proof -
  obtain p where p: "registered_for w fd p ca" "p = Read_from_consumer \<or> p = Write_to_consumer"
    using assms(2) by (auto simp: on_consumer_def)
  obtain r where "has_role l H H w r fd" "entry_ok r (entry w fd)" using registered_role [OF assms(1) p(1)] .
  then have "ca \<in> H \<and> fdc w ca = fd" using p by (cases r) (auto simp: registered_for_def)
  then show "ca \<in> H" "fdc w ca = fd" by simp_all
qed

lemma held_apart:
  assumes "cons_inv N l H w" "ca \<in> H" "ca' \<in> H" "ca \<noteq> ca'"
  shows "fdc w ca \<noteq> fdc w ca'" "conn w ca \<noteq> NULL \<Longrightarrow> conn w ca' \<noteq> NULL \<Longrightarrow> fda w (conn w ca) \<noteq> fda w (conn w ca')"
  using no_second_role [of N l H H w "Ca ca" "fdc w ca" "Ca ca'"]
    no_second_role [of N l H H w "Remote ca" "fda w (conn w ca)" "Remote ca'"] assms
  by (auto simp: cons_inv_def)

text \<open>
  C7: Whenever the loop has dispatched a descriptor, in the middle of a round or at its end, the exchanges
  are separate. Call a consumer
  served when some registered event calls a handler of an exchange with its connection object. No two
  served consumers have the same descriptor, nor hold the same provider's connection, nor two connections
  with one descriptor. What a served consumer holds is not idle in any pool, and its own object is not
  free. An event of a provider's connection calls its handler with the one consumer that holds that
  connection, and an event of a consumer's connection with the object of that consumer.
\<close>

theorem exchanges_separate:
  assumes "orderly E" "cons_inv N l H w" "moment E n k w = Some w'"
  shows "(\<forall>ca ca'. served w' ca \<and> served w' ca' \<and> ca \<noteq> ca' \<longrightarrow> fdc w' ca \<noteq> fdc w' ca' \<and>
       (conn w' ca \<noteq> NULL \<and> conn w' ca' \<noteq> NULL \<longrightarrow> conn w' ca \<noteq> conn w' ca' \<and> fda w' (conn w' ca) \<noteq> fda w' (conn w' ca'))) \<and>
     (\<forall>ca. served w' ca \<longrightarrow> (\<forall>p. c_pool w' = Some p \<longrightarrow> ca \<notin> set (pool_items p)) \<and>
       (conn w' ca \<noteq> NULL \<longrightarrow> (\<forall>i < c_num w'. conn w' ca \<notin> idle w' i))) \<and>
     (\<forall>fd ca. on_remote w' fd ca \<longrightarrow> conn w' ca \<noteq> NULL \<and> fda w' (conn w' ca) = fd) \<and>
     (\<forall>fd ca. on_consumer w' fd ca \<longrightarrow> fdc w' ca = fd)"
proof -
  obtain H' where inv: "cons_inv N l H' w'" using moment_inv [OF assms] by blast
  then have core: "core N l H' H' w'" and pool: "pool_part H' w'" by (simp_all add: cons_inv_def)
  have held: "ca \<in> H'" if "served w' ca" for ca
    using that on_consumer_held [OF inv] on_remote_held [OF inv] by (auto simp: served_def)
  have "served w' ca \<and> served w' ca' \<and> ca \<noteq> ca' \<longrightarrow> fdc w' ca \<noteq> fdc w' ca' \<and>
    (conn w' ca \<noteq> NULL \<and> conn w' ca' \<noteq> NULL \<longrightarrow> conn w' ca \<noteq> conn w' ca' \<and> fda w' (conn w' ca) \<noteq> fda w' (conn w' ca'))"
    for ca ca'
    using held_apart [OF inv held held] by metis
  moreover have "served w' ca \<longrightarrow> (\<forall>p. c_pool w' = Some p \<longrightarrow> ca \<notin> set (pool_items p)) \<and>
      (conn w' ca \<noteq> NULL \<longrightarrow> (\<forall>i < c_num w'. conn w' ca \<notin> idle w' i))" for ca
    using held [of ca] pool idle_not_held [OF core _ _ _ refl] by (auto simp: pool_part_def)
  ultimately show ?thesis using on_remote_held(2,3) [OF inv] on_consumer_held(2) [OF inv] by simp
qed

section \<open>An exchange\<close>

text \<open>
  A request is forwarded in order: \<^verbatim>\<open>write_to_remote_agent\<close> sends the first bytes that were read
  and not yet sent, exactly as many as the kernel accepts, keeps the rest, stops watching for
  writability once nothing is left, and closes the connection exactly on an error.
\<close>

theorem request_forwarded:
  assumes "cons_inv N l H w" "ca \<in> H" "conn w ca \<noteq> NULL" "fda w (conn w ca) = fd"
  shows "\<exists>w'. write_to_remote_agent E fd ca w = Some w' \<and>
    (let out = pending_in (cas (c_net w) ca); r = write_result E fd out w
     in forwarded fd (accepted r) out w w' \<and> pending_in (cas (c_net w') ca) = drop (accepted r) out \<and>
        (r = WrErr \<longleftrightarrow> fdc w' ca < 0) \<and> (r = WrSome (length out) \<longrightarrow> \<not> bit (fe_mask (entry w' fd)) 1))"
  using request_step [OF assms, of E] unfolding Let_def by blast

text \<open>
  C8: A whole exchange: when a request arrives in one piece, an idle provider's connection is found,
  the provider answers in one piece and the kernel takes what is written, then the provider
  received the request, the consumer received the answer, nothing is left in the buffers and the
  provider's connection is idle in the pool of its endpoint again.
\<close>

theorem exchange_relayed:
  assumes E: "orderly E" and inv: "cons_inv N l H w" and ca: "ca \<in> H" "conn w ca = NULL"
    and clean: "pending_in (cas (c_net w) ca) = []" "fdc w ca = fd"
    and read1: "env_read E fd (nat (int CONSUMER_HTTP_REQ_BUF_SIZE - nread_in (cas (c_net w) ca))) (c_net w) = RdData s"
      "s \<noteq> []" "length s < nat (int CONSUMER_HTTP_REQ_BUF_SIZE - nread_in (cas (c_net w) ca))"
    and step1: "read_from_consumer E fd ca w = Some w1" "0 \<le> fdc w1 ca" "fda w1 (conn w1 ca) = g"
    and step2: "env_write E g s (c_net w1) = WrSome (length s)" "write_to_remote_agent E g ca w1 = Some w2"
    and read2: "env_read E g (nat (int CONSUMER_HTTP_RESP_BUF_SIZE - nread_out (cas (c_net w2) ca))) (c_net w2) = RdData t"
      "t \<noteq> []" "length t \<le> nat (int CONSUMER_HTTP_RESP_BUF_SIZE - nread_out (cas (c_net w2) ca))"
    and step3: "read_from_remote_agent E g ca w2 = Some w3"
    and step4: "env_write E fd t (c_net w3) = WrSome (length t)" "write_to_consumer E fd ca w3 = Some w4"
  shows "sent (c_net w4) = (sent (c_net w))(g := sent (c_net w) g @ s, fd := sent (c_net w) fd @ t) \<and> g \<noteq> fd \<and>
    pending_in (cas (c_net w4) ca) = [] \<and> pending_out (cas (c_net w4) ca) = [] \<and> conn w4 ca = NULL \<and>
    (\<exists>k < c_num w4. epa w3 (conn w1 ca) = Some k \<and> conn w1 ca \<in> idle w4 k) \<and> cons_inv N l H w4"
proof -
  have w1: "sent (c_net w1) = sent (c_net w)" "pending_in (cas (c_net w1) ca) = s" "pending_out (cas (c_net w1) ca) = []"
    "cons_inv N l H w1" "fdc w1 ca = fd" "watching_remote ca w1"
    using request_read [OF inv ca(1) refl, of E s] read1 step1(1,2) clean by simp_all
  then have a: "conn w1 ca \<noteq> NULL" by (simp add: watching_remote_def)
  have core1: "core N l H H w1" using w1(4) by (simp add: cons_inv_def)
  have g: "g \<noteq> fd"
    using no_second_role [OF core1, of "Ca ca" fd "Remote ca"] holder_partner(1) [OF w1(4) ca(1) a] w1(5) step1(3) ca(1) by auto
  have wr2: "write_result E g (pending_in (cas (c_net w1) ca)) w1 = WrSome (length s)"
    using step2(1) w1(2) by (simp add: write_result_def)
  have w2: "sent (c_net w2) = (sent (c_net w1))(g := sent (c_net w1) g @ s)" "cons_inv N l H w2" "fdc w2 ca = fd"
    "conn w2 ca = conn w1 ca" "fda w2 (conn w1 ca) = g" "pending_out (cas (c_net w2) ca) = []"
    using request_step [OF w1(4) ca(1) a step1(3), of E] step2(2) w1 step1(3) unfolding wr2
    by (auto simp: forwarded_def accepted_def same_exchange_def)
  have w3: "sent (c_net w3) = sent (c_net w2)" "cons_inv N l H w3" "pending_out (cas (c_net w3) ca) = t"
    "pending_in (cas (c_net w3) ca) = []" "fdc w3 ca = fd" "conn w3 ca = conn w1 ca"
    using response_read [OF orderly_tick [OF E read2(1)] w2(2) ca(1) _ _ refl read2(1) read2(2,3)] step3 w2 a by auto
  have wr4: "write_result E fd (pending_out (cas (c_net w3) ca)) w3 = WrSome (length t)"
    using step4(1) w3(3) by (simp add: write_result_def)
  have "sent (c_net w4) = (sent (c_net w3))(fd := sent (c_net w3) fd @ t)" "pending_out (cas (c_net w4) ca) = []"
    "conn w4 ca = NULL" "cons_inv N l H w4" "\<exists>k < c_num w4. epa w3 (conn w1 ca) = Some k \<and> conn w1 ca \<in> idle w4 k"
    "pending_in (cas (c_net w4) ca) = []"
    using response_step [OF w3(2) ca(1) w3(5), of E] step4(2) w3 a unfolding wr4
    by (auto simp: forwarded_def accepted_def)
  then show ?thesis using w1(1) w2(1) w3(1) g by (simp add: fun_upd_twist)
qed


section \<open>A consumer that hangs up too early\<close>

lemma hang_up_core:
  assumes "cons_inv N l H w" "ca \<in> H"
  shows "\<exists>w2 q. (do {
     w2 \<leftarrow> c_unwatch (fdc w ca) (AE_WRITABLE OR AE_READABLE) w;
     w3 \<leftarrow> return_ca ca w2;
     c3 \<leftarrow> get_ca ca w3;
     Some (c_close (fdc w ca) (set_ca ca (c3\<lparr>ca_fd := - 1\<rparr>) w3))
   }) = Some (w2\<lparr>c_pool := Some q\<rparr>) \<and> core N l (H - {ca}) H w2 \<and>
     fixed_pool q \<and> (\<exists>xs. pool_items q = ca # xs) \<and> apas (c_net w2) = apas (c_net w) \<and>
     cas (c_net w2) = (cas (c_net w))(ca := (cas (c_net w) ca)\<lparr>ca_fd := - 1\<rparr>) \<and>
     (\<forall>g. g \<noteq> fdc w ca \<longrightarrow> entry w2 g = entry w g) \<and>
     open_fds (c_net w2) = (open_fds (c_net w))(fdc w ca := False)"
proof -
  let ?c = "(cas (c_net w) ca)\<lparr>ca_fd := - 1\<rparr>" let ?fd = "fdc w ca"
  have core: "core N l H H w" and pool: "pool_part H w" using assms(1) by (simp_all add: cons_inv_def)
  obtain w1 where w1: "c_unwatch ?fd (AE_WRITABLE OR AE_READABLE) w = Some w1" "rewatched w w1"
    "core N l (H - {ca}) H (set_ca ca ?c (c_close ?fd w1))"
    using drop_consumer_side [OF core assms(2), of ?c] by auto
  have others: "entry w1 g = entry w g" if "g \<noteq> ?fd" for g
    using unwatch_ok [OF assms(1) holder_fd(2,3) [OF assms], of "AE_WRITABLE OR AE_READABLE"] w1(1) that
    by (metis option.inject)
  note re = rewatched_same [OF w1(2)]
  let ?w = "set_ca ca ?c (c_close ?fd w1)"
  obtain p where p: "c_pool w = Some p" "fixed_pool p" "finite H" "card H = pool_used p"
    using pool by (auto simp: pool_part_def)
  have "0 < pool_used p" using p(3,4) assms(2) by (metis card_gt_0_iff empty_iff)
  then obtain q where q: "PoolReturn p ca (c_net w1) = (q, c_net w1)" "fixed_pool q" "pool_items q = ca # pool_items p"
    using pool_put [OF p(2) _ holder_fd(1) [OF assms], of "c_net w1"] by blast
  have "return_ca ca w1 = Some (w1\<lparr>c_pool := Some q\<rparr>)" using q(1) p(1) re by (simp add: return_ca_def)
  then have "(do {
     w2 \<leftarrow> c_unwatch ?fd (AE_WRITABLE OR AE_READABLE) w;
     w3 \<leftarrow> return_ca ca w2;
     c3 \<leftarrow> get_ca ca w3;
     Some (c_close ?fd (set_ca ca (c3\<lparr>ca_fd := - 1\<rparr>) w3))
   }) = Some (?w\<lparr>c_pool := Some q\<rparr>)"
    using w1(1) re holder_fd(1) [OF assms] by (simp add: get_ca_def set_ca_close close_pool)
  moreover have "cas (c_net ?w) = (cas (c_net w))(ca := ?c)" "apas (c_net ?w) = apas (c_net w)"
    "\<forall>g. g \<noteq> ?fd \<longrightarrow> entry ?w g = entry w g" "open_fds (c_net ?w) = (open_fds (c_net w))(?fd := False)"
    using re others by (simp_all add: set_ca_def c_close_def sys_close_def os_close_def)
  ultimately show ?thesis using w1(3) q(2,3) by blast
qed

definition watchable :: "int \<Rightarrow> fd \<Rightarrow> consumer \<Rightarrow> bool" where
  "watchable N fd w \<longleftrightarrow> loop_ok epoll_tracks (c_loop w) (c_net w) \<and> setsize (c_loop w) = N \<and> watch_faults (c_net w) = [] \<and>
     0 \<le> fd \<and> fd < N \<and> open_fds (c_net w) fd"

lemma watch_watchable:
  assumes "watchable N fd w" "m \<noteq> AE_NONE"
  shows "\<exists>el i. c_watch fd m p d w = Some (AE_OK, w\<lparr>c_loop := el, c_net := (c_net w)\<lparr>interest := i\<rparr>\<rparr>) \<and>
    watchable N fd (w\<lparr>c_loop := el, c_net := (c_net w)\<lparr>interest := i\<rparr>\<rparr>) \<and>
    events el = (events (c_loop w))(fd := registered m p d (entry w fd))"
proof -
  have t: "loop_ok epoll_tracks (c_loop w) (c_net w)" "watch_faults (c_net w) = []" "open_fds (c_net w) fd" "0 \<le> fd"
    "fd < setsize (c_loop w)" "setsize (c_loop w) = N"
    using assms(1) by (simp_all add: watchable_def)
  obtain el i where c: "aeCreateFileEvent epoll_api fd m p d (c_loop w) (c_net w) = Some (AE_OK, el, (c_net w)\<lparr>interest := i\<rparr>)"
    "loop_ok epoll_tracks el ((c_net w)\<lparr>interest := i\<rparr>)" "setsize el = setsize (c_loop w)"
    "events el = (events (c_loop w))(fd := registered m p d (entry w fd))"
    using create_event [OF t(1-5) assms(2), of p d] by blast
  then have "c_watch fd m p d w = Some (AE_OK, w\<lparr>c_loop := el, c_net := (c_net w)\<lparr>interest := i\<rparr>\<rparr>)"
    by (simp add: c_watch_def)
  moreover have "watchable N fd (w\<lparr>c_loop := el, c_net := (c_net w)\<lparr>interest := i\<rparr>\<rparr>)"
    using c(2,3) t by (simp add: watchable_def)
  ultimately show ?thesis using c(4) by blast
qed

lemma watchable_same:
  assumes "watchable N fd w" "c_loop w' = c_loop w" "interest (c_net w') = interest (c_net w)"
    and "open_fds (c_net w') = open_fds (c_net w)" "watch_faults (c_net w') = watch_faults (c_net w)"
  shows "watchable N fd w'"
  using assms by (simp add: watchable_def loop_ok_kernel [of "c_net w'" "c_net w"])

lemma readopted:
  assumes core: "core N l HC HR w" and pool: "c_pool w = Some q" "fixed_pool q" "pool_items q = ca # xs"
    and fd: "0 \<le> fd" "fd < N" "open_fds (c_net w) fd" "\<And>r. \<not> has_role l HC HR w r fd"
  shows "\<exists>w2. consumer_http_handler fd w = Some w2 \<and> cas (c_net w2) ca = zero_ca\<lparr>ca_fd := fd\<rparr> \<and>
    open_fds (c_net w2) = open_fds (c_net w) \<and> watchable N fd w2 \<and> (\<forall>g. g \<noteq> fd \<longrightarrow> entry w2 g = entry w g)"
proof -
  obtain p where get: "PoolGet q (c_net w) = (ca, p, c_net w)" "ca \<noteq> NULL"
    using fixed.get_item [OF pool(2), of ca xs "c_net w"] fixed.item_not_NULL [OF pool(2), of ca] pool(3) by auto
  define w2 where "w2 = set_ca ca (zero_ca\<lparr>ca_fd := fd\<rparr>) (w\<lparr>c_pool := Some p\<rparr>)"
  have "watchable N fd w" using core fd by (simp add: watchable_def core_def table_inv_def)
  then have "watchable N fd w2" by (rule watchable_same) (simp_all add: w2_def set_ca_def)
  then obtain el i where c: "c_watch fd AE_READABLE Read_from_consumer ca w2 =
      Some (AE_OK, w2\<lparr>c_loop := el, c_net := (c_net w2)\<lparr>interest := i\<rparr>\<rparr>)"
    "watchable N fd (w2\<lparr>c_loop := el, c_net := (c_net w2)\<lparr>interest := i\<rparr>\<rparr>)"
    "events el = (events (c_loop w2))(fd := registered AE_READABLE Read_from_consumer ca (entry w2 fd))"
    using watch_watchable [of N fd w2 AE_READABLE Read_from_consumer ca] by (auto simp: ae_masks)
  then have "consumer_http_handler fd w = Some (w2\<lparr>c_loop := el, c_net := (c_net w2)\<lparr>interest := i\<rparr>\<rparr>)"
    using pool(1) get by (simp add: consumer_http_handler_def w2_def [symmetric])
  then show ?thesis using c(2,3) by (simp add: w2_def set_ca_def)
qed

text \<open>
  C34: A consumer that closes its connection while its exchange is going on leaves the provider's
  connection registered with the object that is already back in the pool. The next consumer gets
  this object, and the late answer of the provider then crashes the agent.
\<close>

theorem early_close_crashes:
  assumes inv: "cons_inv N l H w" and ca: "ca \<in> H" "conn w ca \<noteq> NULL" "fda w (conn w ca) = g" "clientData (entry w g) = ca"
    and eof: "env_read E (fdc w ca) (nat (int CONSUMER_HTTP_REQ_BUF_SIZE - nread_in (cas (c_net w) ca))) (c_net w) = RdEof"
  shows "\<exists>w1. read_from_consumer E (fdc w ca) ca w = Some w1 \<and> entry w1 g = entry w g \<and>
    open_fds (c_net w1) = (open_fds (c_net w))(fdc w ca := False) \<and>
    (\<forall>E1 fd. env_accept E1 (c_net w1) = Some fd \<and> 0 \<le> fd \<and> fd < N \<and> \<not> open_fds (c_net w1) fd \<longrightarrow>
      (\<exists>w2. accept_tcp_handler E1 w1 = Some w2 \<and> entry w2 g = entry w g \<and> fdc w2 ca = fd \<and>
        (\<forall>E2 t. env_read E2 g CONSUMER_HTTP_RESP_BUF_SIZE (c_net w2) = RdData t \<and> t \<noteq> [] \<longrightarrow>
           consumer_call E2 Read_from_remote_agent g (clientData (entry w2 g)) AE_READABLE w2 = None)))"
proof -
  let ?c = "cas (c_net w) ca" let ?fd = "fdc w ca" let ?k = "nat (int CONSUMER_HTTP_REQ_BUF_SIZE - nread_in ?c)"
  have core: "core N l H H w" using inv by (simp add: cons_inv_def)
  have role: "has_role l H H w (Ca ca) ?fd" "has_role l H H w (Remote ca) g" using ca by simp_all
  have g: "g \<noteq> ?fd" using no_second_role [OF core role(1)] role(2) by blast
  have open_g: "open_fds (c_net w) g" "0 \<le> g" using role_range [OF core role(2)] by simp_all
  have get: "get_ca ca w = Some ?c" "\<not> ?fd < 0" using holder_fd [OF inv ca(1)] by (auto simp: get_ca_def)
  define w0 where "w0 = ticked (sent (c_net w)) w"
  have sys: "c_sys (sys_read E ?fd ?k) w = (RdEof, w0)"
    using holder_fd(4) [OF inv ca(1)] eof by (cases w) (simp add: c_sys_def sys_read_def tock_def ticked_def w0_def)
  have inv0: "cons_inv N l H w0" unfolding w0_def by (rule cons_inv_ticked [OF inv])
  have w0: "open_fds (c_net w0) = open_fds (c_net w)" "cas (c_net w0) = cas (c_net w)" "apas (c_net w0) = apas (c_net w)" "c_loop w0 = c_loop w"
    by (simp_all add: w0_def)
  obtain wa q xs where wa: "read_from_consumer E ?fd ca w = Some (wa\<lparr>c_pool := Some q\<rparr>)" "core N l (H - {ca}) H wa" "fixed_pool q"
    "pool_items q = ca # xs" "apas (c_net wa) = apas (c_net w)"
    "cas (c_net wa) = (cas (c_net w))(ca := ?c\<lparr>ca_fd := - 1\<rparr>)" "\<forall>h. h \<noteq> ?fd \<longrightarrow> entry wa h = entry w h"
    "open_fds (c_net wa) = (open_fds (c_net w))(?fd := False)"
    using hang_up_core [OF inv0 ca(1)] get sys by (auto simp: read_from_consumer_def w0)
  define w1 where "w1 = wa\<lparr>c_pool := Some q\<rparr>"
  have core1: "core N l (H - {ca}) H w1" using wa(2) by (simp add: w1_def core_c_pool)
  have "has_role l (H - {ca}) H w1 (Remote ca) g" using ca wa(5,6) by (simp add: w1_def)
  then have open1: "open_fds (c_net w1) g" by (rule role_range(3) [OF core1])
  have entry1: "entry w1 g = entry w g" using wa(7) g by (simp add: w1_def)
  have "\<exists>w2. accept_tcp_handler E1 w1 = Some w2 \<and> entry w2 g = entry w g \<and> fdc w2 ca = fd \<and>
        (\<forall>E2 t. env_read E2 g CONSUMER_HTTP_RESP_BUF_SIZE (c_net w2) = RdData t \<and> t \<noteq> [] \<longrightarrow>
           consumer_call E2 Read_from_remote_agent g (clientData (entry w2 g)) AE_READABLE w2 = None)"
    if acc: "env_accept E1 (c_net w1) = Some fd" "0 \<le> fd" "fd < N" "\<not> open_fds (c_net w1) fd" for E1 fd
  proof -
    let ?n = "(c_net w1)\<lparr>open_fds := (open_fds (c_net w1))(fd := True), sent := (sent (c_net w1))(fd := []), tick := Suc (tick (c_net w1))\<rparr>"
    let ?v = "w1\<lparr>c_net := ?n\<rparr>"
    have sysa: "c_sys (sys_accept E1) w1 = (Some fd, ?v)" using acc by (simp add: c_sys_def sys_accept_def tock_def)
    have corev: "core N l (H - {ca}) H ?v" by (rule core_open [OF core1 acc(4)])
    have "same_roles (H - {ca}) H w1 ?v" by (simp add: same_roles_def idle_def)
    then have none: "\<not> has_role l (H - {ca}) H ?v r fd" for r
      using no_role_closed [OF core1 acc(4)] by (simp add: has_role_same)
    have neq: "g \<noteq> fd" using open1 acc(4) by auto
    obtain w2 where w2: "consumer_http_handler fd ?v = Some w2" "cas (c_net w2) ca = zero_ca\<lparr>ca_fd := fd\<rparr>"
      "open_fds (c_net w2) = open_fds (c_net ?v)" "watchable N fd w2" "\<forall>h. h \<noteq> fd \<longrightarrow> entry w2 h = entry ?v h"
      using readopted [OF corev _ wa(3,4) acc(2,3) _ none] by (auto simp: w1_def)
    have entry2: "entry w2 g = entry w g" using w2(5) neq entry1 by simp
    have "consumer_call E2 Read_from_remote_agent g (clientData (entry w2 g)) AE_READABLE w2 = None"
      if t: "env_read E2 g CONSUMER_HTTP_RESP_BUF_SIZE (c_net w2) = RdData t" "t \<noteq> []" for E2 t
    proof -
      have nn: "ca \<noteq> NULL" by (rule holder_fd(1) [OF inv ca(1)])
      have "open_fds (c_net w2) g" using w2(3) open1 by simp
      moreover define s where "s = take CONSUMER_HTTP_RESP_BUF_SIZE t"
      ultimately have rd: "c_sys (sys_read E2 g CONSUMER_HTTP_RESP_BUF_SIZE) w2 = (RdData s, ticked (sent (c_net w2)) w2)"
        using t by (cases w2) (simp add: c_sys_def sys_read_def tock_def CONSUMER_HTTP_RESP_BUF_SIZE_def ticked_def)
      define c1 where "c1 = (zero_ca\<lparr>ca_fd := fd\<rparr>)\<lparr>buf_out := blit 0 s (buf_out zero_ca), nread_out := int (length s),
        nread_in := 0, nwrite_in := 0\<rparr>"
      define w3 where "w3 = set_ca ca c1 (ticked (sent (c_net w2)) w2)"
      have "watchable N fd w3" using w2(4) by (rule watchable_same) (simp_all add: w3_def set_ca_def ticked_def)
      then obtain el i where "c_watch fd AE_WRITABLE Write_to_consumer ca w3 =
          Some (AE_OK, w3\<lparr>c_loop := el, c_net := (c_net w3)\<lparr>interest := i\<rparr>\<rparr>)"
        using watch_watchable [of N fd w3 AE_WRITABLE Write_to_consumer ca] by (auto simp: ae_masks)
      then show ?thesis
        using rd w2(2) entry2 ca(4) acc(2) nn
        by (simp add: read_from_remote_agent_def get_ca_def zero_ca_def c1_def w3_def set_ca_def count_response_def get_apa_def)
    qed
    then show ?thesis using sysa w2(1,2) entry2 by (auto simp: accept_tcp_handler_def)
  qed
  then show ?thesis using wa(1,8) entry1 by (auto simp: w1_def)
qed

section \<open>Witnesses\<close>

text \<open>
  An agent that listens on descriptor 3, with one consumer connected on descriptor 5 and one idle
  connection to a provider on descriptor 4.
\<close>

definition demo_ca_pool :: "cnet Pool" where
  "demo_ca_pool = (new_Pool 10 2 2 16 None None 0 None None)
     \<lparr>allocated := 2, alloc_stack_size := 1, alloc_stack := 20, empty_stack := 30,
      empty_stack_size := 1, outstanding := 1, max_outstanding := 1,
      bmem := (\<lambda>_. zero_bucket)(20 := \<lparr>pb_data = 2000, pb_flags = 1, pb_next = 0\<rparr>)\<rparr>"

definition demo_apa_pool :: "cnet Pool" where
  "demo_apa_pool = (new_Pool 11 1 1 16 None None 0 None None)
     \<lparr>allocated := 1, alloc_stack_size := 1, alloc_stack := 40,
      bmem := (\<lambda>_. zero_bucket)(40 := \<lparr>pb_data = 500, pb_flags = 1, pb_next = 0\<rparr>)\<rparr>"

definition demo_net :: cnet where
  "demo_net = \<lparr>pending = [], blocks = [], bad_free = False, zeroed = [],
     open_fds = (\<lambda>fd. 3 \<le> fd \<and> fd \<le> 5), interest = (\<lambda>_. None)(3 := Some EPOLLIN, 5 := Some EPOLLIN),
     watch_faults = [], ready = [[(5, EPOLLIN)], [(4, EPOLLOUT)], [(4, EPOLLIN)], [(5, EPOLLOUT)]],
     sent = (\<lambda>_. []), tick = 0,
     cas = (\<lambda>_. zero_ca\<lparr>ca_fd := - 1\<rparr>)(1000 := zero_ca\<lparr>ca_fd := 5\<rparr>),
     apas = (\<lambda>_. zero_apa\<lparr>apa_fd := - 1\<rparr>)(500 := \<lparr>apa_fd = 4, apa_endpoint = Some 0, req_start = 0\<rparr>)\<rparr>"

definition demo_agent :: consumer where
  "demo_agent =
     \<lparr>c_loop = \<lparr>maxfd = 5, setsize = 16, events = (\<lambda>_. no_event)
        (3 := \<lparr>fe_mask = AE_READABLE, rfileProc = Some Accept_tcp_handler, wfileProc = None, clientData = 0\<rparr>,
         5 := \<lparr>fe_mask = AE_READABLE, rfileProc = Some Read_from_consumer, wfileProc = None, clientData = 1000\<rparr>),
        stop = False\<rparr>,
      c_net = demo_net, c_pool = Some demo_ca_pool,
      c_eps = [zero_endpoint\<lparr>total_ms := 1, num_reqs := 1, conn_pool := Some demo_apa_pool\<rparr>], c_num = 1\<rparr>"

lemma demo_pools:
  "fixed_pool demo_ca_pool" "pool_items demo_ca_pool = [2000]" "pool_used demo_ca_pool = 1"
  "fixed_pool demo_apa_pool" "pool_items demo_apa_pool = [500]" "pool_used demo_apa_pool = 0"
proof -
  have wf: "pool_wf demo_ca_pool [20] [30]" "pool_wf demo_apa_pool [40] []"
    by (simp_all add: pool_wf_def pool_shape_def demo_ca_pool_def demo_apa_pool_def new_Pool_def zero_bucket_def)
  then show "fixed_pool demo_ca_pool" "fixed_pool demo_apa_pool"
    by (auto simp: fixed_pool_def pool_inv_def demo_ca_pool_def demo_apa_pool_def new_Pool_def)
  show "pool_items demo_ca_pool = [2000]" "pool_used demo_ca_pool = 1"
    "pool_items demo_apa_pool = [500]" "pool_used demo_apa_pool = 0"
    unfolding pool_abs_wf [OF wf(1)] pool_abs_wf [OF wf(2)]
    by (simp_all add: demo_ca_pool_def demo_apa_pool_def new_Pool_def)
qed

lemma demo_at:
  "fdc demo_agent ca = (if ca = 1000 then 5 else - 1)" "conn demo_agent ca = NULL"
  "fda demo_agent a = (if a = 500 then 4 else - 1)" "epa demo_agent a = (if a = 500 then Some 0 else None)"
  "c_num demo_agent = 1" "open_fds (c_net demo_agent) fd \<longleftrightarrow> 3 \<le> fd \<and> fd \<le> 5" "tick (c_net demo_agent) = 0"
  "conn_pool (c_eps demo_agent ! 0) = Some demo_apa_pool" "num_reqs (c_eps demo_agent ! 0) = 1" "length (c_eps demo_agent) = 1"
  by (simp_all add: demo_agent_def demo_net_def zero_ca_def zero_apa_def)

lemma demo_inv: "cons_inv 16 3 {1000} demo_agent"
proof -
  have idle: "idle demo_agent 0 = {500}" by (simp add: idle_def demo_at demo_pools)
  have role: "has_role 3 {1000} {1000} demo_agent r fd \<longleftrightarrow> r = Listen \<and> fd = 3 \<or> r = Ca 1000 \<and> fd = 5 \<or> r = Idle 500 \<and> fd = 4" for r fd
    by (cases r) (auto simp: idle demo_at)
  have roles: "roles_ok 16 3 {1000} {1000} demo_agent"
    unfolding roles_ok_def role by (auto simp: demo_at)
  have bits: "\<not> bit (fe_mask (entry demo_agent fd)) (Suc (Suc n))" for fd n
    by (simp add: demo_agent_def no_event_def ae_masks)
  have "loop_ok epoll_tracks (c_loop demo_agent) (c_net demo_agent)"
    by (auto simp: loop_ok_def maxfd_ok_def procs_ok_def epoll_tracks_def demo_agent_def demo_net_def no_event_def ae_masks
        epoll_events_def EPOLLIN_def)
  moreover have "\<forall>n \<ge> 2. \<not> bit (fe_mask (entry demo_agent fd)) n" for fd
    using bits(1) by (metis Suc_le_D numeral_2_eq_2 Suc_le_mono)
  moreover have "\<exists>r. has_role 3 {1000} {1000} demo_agent r fd \<and> entry_ok r (entry demo_agent fd)"
    if "fe_mask (entry demo_agent fd) \<noteq> AE_NONE" for fd
    using that unfolding role by (auto simp: demo_agent_def no_event_def ae_masks split: if_splits)
  ultimately have tab: "table_inv 16 3 {1000} {1000} demo_agent"
    by (simp add: table_inv_def) (simp add: demo_agent_def demo_net_def)
  have eps: "eps_ok {1000} demo_agent"
    by (auto simp: eps_ok_def ep_ok_def holders_def demo_at demo_pools)
  have "buf_ok (cas (c_net demo_agent) 1000)"
    by (simp add: demo_agent_def demo_net_def buf_ok_def zero_ca_def CONSUMER_HTTP_REQ_BUF_SIZE_def)
  then have "core 16 3 {1000} {1000} demo_agent" using roles tab eps by (simp add: core_def)
  moreover have "pool_part {1000} demo_agent" by (simp add: pool_part_def demo_agent_def demo_pools)
  ultimately show ?thesis by (simp add: cons_inv_def)
qed

text \<open>Consumers send \<open>GET\<close>, providers answer \<open>OK\<close>, and the kernel accepts all that is written.\<close>

definition demo_env :: "cnet env" where
  "demo_env = \<lparr>
     env_read = (\<lambda>fd k n. let s = (if fd = 5 then ''GET'' else ''OK'')
        in if length s < k \<and> tick n < 2 ^ 31 - 2 then RdData s else RdAgain),
     env_write = (\<lambda>fd out n. WrSome (length out)),
     env_accept = (\<lambda>n. Some 6), env_connect = (\<lambda>n. (0, 7)), env_time = (\<lambda>n. int (tick n))\<rparr>"

lemma demo_orderly: "orderly demo_env"
  by (auto simp: orderly_def demo_env_def Let_def split: if_splits)

lemma consumer_agent_safe_witness:
  "\<exists>w' H'. consumer_main demo_env 10 demo_agent = Some w' \<and> cons_inv 16 3 H' w'"
  by (rule consumer_agent_safe [OF demo_orderly demo_inv])

lemma demo_borrowed:
  obtains w1 where "read_from_consumer demo_env 5 1000 demo_agent = Some w1" "cons_inv 16 3 {1000} w1"
    "conn w1 1000 \<noteq> NULL" "fda w1 (conn w1 1000) = 4" "fdc w1 1000 = 5" "pending_in (cas (c_net w1) 1000) = ''GET''"
    "sent (c_net w1) = (\<lambda>_. [])" "watching_remote 1000 w1" "nread_out (cas (c_net w1) 1000) = 0"
    "pending_out (cas (c_net w1) 1000) = []" "open_fds (c_net w1) = open_fds (c_net demo_agent)"
    "tick (c_net w1) = 1"
proof -
  have fd: "fdc demo_agent 1000 = 5" "sent (c_net demo_agent) = (\<lambda>_. [])" "pending_in (cas (c_net demo_agent) 1000) = []"
    by (simp_all add: demo_agent_def demo_net_def zero_ca_def pending_in_def)
  have idle: "idle demo_agent j = {500}" if "j < c_num demo_agent" for j
    using that by (simp add: idle_def demo_at demo_pools)
  let ?k = "nat (int CONSUMER_HTTP_REQ_BUF_SIZE - nread_in (cas (c_net demo_agent) 1000))"
  have k: "?k = 2048" by (simp add: demo_agent_def demo_net_def zero_ca_def CONSUMER_HTTP_REQ_BUF_SIZE_def)
  have "env_read demo_env (fdc demo_agent 1000) ?k (c_net demo_agent) = RdData ''GET''" "length ''GET'' < ?k"
    unfolding k by (simp_all add: demo_env_def demo_at)
  then obtain w1 where w1: "read_from_consumer demo_env 5 1000 demo_agent = Some w1" "sent (c_net w1) = (\<lambda>_. [])"
    "pending_in (cas (c_net w1) 1000) = ''GET''" "nread_out (cas (c_net w1) 1000) = 0" "pending_out (cas (c_net w1) 1000) = []"
    "if 0 \<le> fdc w1 1000 then cons_inv 16 3 {1000} w1 \<and> fdc w1 1000 = 5 \<and> watching_remote 1000 w1 \<and>
        apas (c_net w1) = apas (c_net demo_agent) \<and> open_fds (c_net w1) = open_fds (c_net demo_agent) \<and>
        tick (c_net w1) = 1 \<and>
        (\<exists>j < c_num demo_agent. conn w1 1000 \<in> idle demo_agent j)
     else \<exists>j < c_num demo_agent. idle demo_agent j = {}"
    using request_read [OF demo_inv _ refl, of 1000 demo_env "''GET''"] fd demo_at(2) [of 1000] demo_at(7)
    by (auto split: if_splits) blast+
  have alive: "0 \<le> fdc w1 1000" using w1(6) idle by (auto split: if_splits)
  note facts = w1(6) [unfolded if_P [OF alive]]
  have "conn w1 1000 = 500" using facts idle by auto
  then have "conn w1 1000 \<noteq> NULL" "fda w1 (conn w1 1000) = 4" using facts demo_at(3) [of 500] by simp_all
  then show thesis using that [of w1] w1(1-5) facts by blast
qed

text \<open>The consumer on descriptor 5 has borrowed the connection on descriptor 4.\<close>

lemma exchanges_separate_witness:
  "\<exists>w w'. moment demo_env 0 0 w = Some w' \<and> on_remote w' 4 1000 \<and> fda w' (conn w' 1000) = 4 \<and>
     conn w' 1000 \<notin> idle w' 0 \<and> (\<forall>ca. served w' ca \<and> ca \<noteq> 1000 \<and> conn w' ca \<noteq> NULL \<longrightarrow> conn w' ca \<noteq> conn w' 1000)"
proof (rule demo_borrowed)
  fix w
  assume w: "cons_inv 16 3 {1000} w" "fda w (conn w 1000) = 4" "watching_remote 1000 w"
  obtain fs w' where p: "consumer_poll (w\<lparr>c_loop := (c_loop w)\<lparr>stop := False\<rparr>\<rparr>) = (fs, w')" by fastforce
  have same: "c_loop w' = (c_loop w)\<lparr>stop := False\<rparr>" "cas (c_net w') = cas (c_net w)" "apas (c_net w') = apas (c_net w)"
    "c_num w' = c_num w"
    using p by (auto simp: consumer_poll_def c_sys_def epoll_aeApiPoll_def epoll_wait_def Let_def split: prod.splits list.splits)
  have m: "moment demo_env 0 0 w = Some w'" using p by (simp add: moment_def consumer_main_def aeMain_def)
  have num: "0 < c_num w" and size: "setsize (c_loop w) = 16"
    using w(1) by (simp_all add: cons_inv_def core_def eps_ok_def table_inv_def)
  have r: "on_remote w' 4 1000" using w(2,3) size by (simp add: on_remote_def registered_for_def watching_remote_def Let_def same)
  then have "served w' 1000" by (auto simp: served_def)
  then have "moment demo_env 0 0 w = Some w' \<and> on_remote w' 4 1000 \<and> fda w' (conn w' 1000) = 4 \<and> conn w' 1000 \<notin> idle w' 0 \<and>
      (\<forall>ca. served w' ca \<and> ca \<noteq> 1000 \<and> conn w' ca \<noteq> NULL \<longrightarrow> conn w' ca \<noteq> conn w' 1000)"
    using exchanges_separate [OF demo_orderly w(1) m] r m num unfolding same by blast
  then show ?thesis by blast
qed

lemma request_forwarded_witness:
  "\<exists>w1 w2. read_from_consumer demo_env 5 1000 demo_agent = Some w1 \<and>
     write_to_remote_agent demo_env 4 1000 w1 = Some w2 \<and> sent (c_net w2) 4 = ''GET''"
proof (rule demo_borrowed)
  fix w1
  assume w1: "read_from_consumer demo_env 5 1000 demo_agent = Some w1" "cons_inv 16 3 {1000} w1"
    "conn w1 1000 \<noteq> NULL" "fda w1 (conn w1 1000) = 4" "pending_in (cas (c_net w1) 1000) = ''GET''" "sent (c_net w1) = (\<lambda>_. [])"
  have "write_result demo_env 4 ''GET'' w1 = WrSome 3" by (simp add: write_result_def demo_env_def)
  then show ?thesis
    using request_forwarded [OF w1(2) _ w1(3,4), of demo_env] w1 by (auto simp: forwarded_def accepted_def Let_def)
qed

lemma exchange_relayed_witness:
  "\<exists>w1 w2 w3 w4. read_from_consumer demo_env 5 1000 demo_agent = Some w1 \<and> write_to_remote_agent demo_env 4 1000 w1 = Some w2 \<and>
     read_from_remote_agent demo_env 4 1000 w2 = Some w3 \<and> write_to_consumer demo_env 5 1000 w3 = Some w4 \<and>
     sent (c_net w4) 4 = ''GET'' \<and> sent (c_net w4) 5 = ''OK'' \<and> conn w4 1000 = NULL"
proof (rule demo_borrowed)
  fix w1
  assume w1: "read_from_consumer demo_env 5 1000 demo_agent = Some w1" "cons_inv 16 3 {1000} w1"
    "conn w1 1000 \<noteq> NULL" "fda w1 (conn w1 1000) = 4" "fdc w1 1000 = 5" "pending_in (cas (c_net w1) 1000) = ''GET''"
    "sent (c_net w1) = (\<lambda>_. [])" "nread_out (cas (c_net w1) 1000) = 0" "pending_out (cas (c_net w1) 1000) = []"
    "tick (c_net w1) = 1"
  have d: "fdc demo_agent 1000 = 5" "sent (c_net demo_agent) = (\<lambda>_. [])" "pending_in (cas (c_net demo_agent) 1000) = []"
    "nread_in (cas (c_net demo_agent) 1000) = 0"
    by (simp_all add: demo_agent_def demo_net_def zero_ca_def pending_in_def)
  have r2: "write_result demo_env 4 ''GET'' w1 = WrSome 3" by (simp add: write_result_def demo_env_def)
  obtain w2 where w2: "write_to_remote_agent demo_env 4 1000 w1 = Some w2" "cons_inv 16 3 {1000} w2" "conn w2 1000 = conn w1 1000"
    "fda w2 (conn w1 1000) = 4" "nread_out (cas (c_net w2) 1000) = 0" "tick (c_net w2) < 2 ^ 31 - 2"
    "fdc w2 1000 = 5" "pending_out (cas (c_net w2) 1000) = []"
    using request_step [OF w1(2) _ w1(3,4), of demo_env] w1 r2 by (auto simp: same_exchange_def)
  have k3: "nat (int CONSUMER_HTTP_RESP_BUF_SIZE - nread_out (cas (c_net w2) 1000)) = 256"
    using w2(5) by (simp add: CONSUMER_HTTP_RESP_BUF_SIZE_def)
  have rd3: "env_read demo_env 4 256 (c_net w2) = RdData ''OK''" using w2(6) by (simp add: demo_env_def)
  have "conn w2 1000 \<noteq> NULL" "fda w2 (conn w2 1000) = 4" using w1(3) w2(3,4) by simp_all
  then obtain w3 where w3: "read_from_remote_agent demo_env 4 1000 w2 = Some w3" "cons_inv 16 3 {1000} w3"
    "pending_out (cas (c_net w3) 1000) = ''OK''" "fdc w3 1000 = 5"
    using response_read [OF orderly_tick [OF demo_orderly rd3] w2(2) _ _ _ k3 [symmetric] rd3] w2(7,8) by auto
  obtain w4 where w4: "write_to_consumer demo_env 5 1000 w3 = Some w4"
    using response_step [OF w3(2) _ w3(4), of demo_env] by blast
  have k1: "nat (int CONSUMER_HTTP_REQ_BUF_SIZE - nread_in (cas (c_net demo_agent) 1000)) = 2048"
    unfolding d by (simp add: CONSUMER_HTTP_REQ_BUF_SIZE_def)
  show ?thesis
    using exchange_relayed [OF demo_orderly demo_inv _ demo_at(2) d(3,1) _ _ _ w1(1) _ w1(4) _ w2(1) _ _ _ w3(1) _ w4,
        of "''GET''" "''OK''"] w1 w2 w3 w4 d rd3
    unfolding k1 k3 by (auto simp: demo_env_def demo_at)
qed

definition eof_env :: "cnet env" where
  "eof_env = demo_env\<lparr>env_read := (\<lambda>fd k n. RdEof)\<rparr>"

definition ok_env :: "cnet env" where
  "ok_env = demo_env\<lparr>env_read := (\<lambda>fd k n. RdData ''OK'')\<rparr>"

lemma early_close_crashes_witness:
  "\<exists>w w1 w2. read_from_consumer demo_env 5 1000 demo_agent = Some w \<and> read_from_consumer eof_env 5 1000 w = Some w1 \<and>
     accept_tcp_handler demo_env w1 = Some w2 \<and> fdc w2 1000 = 6 \<and>
     consumer_call ok_env Read_from_remote_agent 4 (clientData (entry w2 4)) AE_READABLE w2 = None"
proof (rule demo_borrowed)
  fix w
  assume w: "read_from_consumer demo_env 5 1000 demo_agent = Some w" "cons_inv 16 3 {1000} w"
    "conn w 1000 \<noteq> NULL" "fda w (conn w 1000) = 4" "fdc w 1000 = 5" "watching_remote 1000 w"
    "open_fds (c_net w) = open_fds (c_net demo_agent)"
  have data: "clientData (entry w 4) = 1000" using w(4,6) by (simp add: watching_remote_def Let_def)
  have eof: "env_read eof_env (fdc w 1000) k n = RdEof" for k n by (simp add: eof_env_def)
  obtain w1 where w1: "read_from_consumer eof_env 5 1000 w = Some w1" "\<not> open_fds (c_net w1) 6"
    and crash: "\<And>E1 fd. env_accept E1 (c_net w1) = Some fd \<Longrightarrow> 0 \<le> fd \<and> fd < 16 \<and> \<not> open_fds (c_net w1) fd \<Longrightarrow>
      \<exists>w2. accept_tcp_handler E1 w1 = Some w2 \<and> entry w2 4 = entry w 4 \<and> fdc w2 1000 = fd \<and>
        (\<forall>E2 t. env_read E2 4 CONSUMER_HTTP_RESP_BUF_SIZE (c_net w2) = RdData t \<and> t \<noteq> [] \<longrightarrow>
           consumer_call E2 Read_from_remote_agent 4 (clientData (entry w2 4)) AE_READABLE w2 = None)"
    using early_close_crashes [OF w(2) _ w(3,4) data eof] w(5,7) demo_at(6) [of 6] by auto
  obtain w2 where w2: "accept_tcp_handler demo_env w1 = Some w2" "fdc w2 1000 = 6"
    "\<And>E2 t. env_read E2 4 CONSUMER_HTTP_RESP_BUF_SIZE (c_net w2) = RdData t \<Longrightarrow> t \<noteq> [] \<Longrightarrow>
           consumer_call E2 Read_from_remote_agent 4 (clientData (entry w2 4)) AE_READABLE w2 = None"
    using crash [of demo_env 6] w1(2) by (auto simp: demo_env_def)
  have "consumer_call ok_env Read_from_remote_agent 4 (clientData (entry w2 4)) AE_READABLE w2 = None"
    by (rule w2(3) [of _ "''OK''"]) (simp_all add: ok_env_def)
  then show ?thesis using w(1) w1(1) w2(1,2) by blast
qed

end
