(* ===== verification/Mesh.thy ===== *)
theory Mesh
  imports Consumer_Exchange Provider_Props
begin

text \<open>
  The two agents together: a connection between them carries what the one has sent to the other,
  in both directions. The theorem composes the exchange of the consumer agent, the parser on a whole
  request, and the exchange of the provider agent.
\<close>

section \<open>The connection between the agents\<close>

text \<open>A descriptor from which exactly \<open>s\<close> can be read.\<close>

definition piped :: "fd \<Rightarrow> string \<Rightarrow> 'k env \<Rightarrow> 'k env" where
  "piped fd s E = E\<lparr>env_read := (\<lambda>fd' k n. if fd' = fd then RdData s else env_read E fd' k n)\<rparr>"

lemma piped_simps [simp]:
  "env_read (piped fd s E) fd k n = RdData s" "fd' \<noteq> fd \<Longrightarrow> env_read (piped fd s E) fd' k n = env_read E fd' k n"
  "env_write (piped fd s E) = env_write E"
  by (simp_all add: piped_def)

text \<open>
  One exchange: the eight handlers in the order in which each is registered by one before it. The
  consumer's object is \<open>ca\<close> on \<open>fd\<close>; the provider agent's is \<open>pa\<close>, with the consumer agent on \<open>f\<close> and
  the provider on \<open>h\<close>.
\<close>

definition mesh_run ::
  "cnet env \<Rightarrow> pnet env \<Rightarrow> fd \<Rightarrow> addr \<Rightarrow> fd \<Rightarrow> addr \<Rightarrow> fd \<Rightarrow> consumer \<Rightarrow> provider \<Rightarrow> (consumer \<times> provider) option" where
  "mesh_run Ec Ep fd ca f pa h w v = do {
     w1 \<leftarrow> read_from_consumer Ec fd ca w;
     let g = fda w1 (conn w1 ca);
     w2 \<leftarrow> write_to_remote_agent Ec g ca w1;
     let Ep = piped f (drop (length (sent (c_net w) g)) (sent (c_net w2) g)) Ep;
     v1 \<leftarrow> read_from_consumer_agent Ep f pa v;
     v2 \<leftarrow> write_to_local_provider Ep h pa v1;
     v3 \<leftarrow> read_from_local_provider Ep h pa v2;
     v4 \<leftarrow> write_to_consumer_agent Ep f pa v3;
     let Ec = piped g (drop (length (sent (p_net v) f)) (sent (p_net v4) f)) Ec;
     w3 \<leftarrow> read_from_remote_agent Ec g ca w2;
     w4 \<leftarrow> write_to_consumer Ec fd ca w3;
     Some (w4, v4)
   }"

section \<open>The two halves of the consumer agent\<close>

definition unlinked :: "int \<Rightarrow> fd \<Rightarrow> addr set \<Rightarrow> addr \<Rightarrow> fd \<Rightarrow> consumer \<Rightarrow> bool" where
  "unlinked N l H ca fd w \<longleftrightarrow> cons_inv N l H w \<and> ca \<in> H \<and> conn w ca = NULL \<and> fdc w ca = fd \<and>
     pending_in (cas (c_net w) ca) = [] \<and> pending_out (cas (c_net w) ca) = []"

lemma consumer_sends:
  fixes E :: "cnet env"
  assumes w: "unlinked N l H ca fd w" and idle: "\<And>j. j < c_num w \<Longrightarrow> idle w j \<noteq> {}"
    and k: "k = nat (int CONSUMER_HTTP_REQ_BUF_SIZE - nread_in (cas (c_net w) ca))"
    and s: "env_read E fd k (c_net w) = RdData s" "s \<noteq> []" "length s < k"
    and writes: "\<And>fd s n. env_write E fd s n = WrSome (length s)"
  obtains w1 w2 g where "read_from_consumer E fd ca w = Some w1" "fda w1 (conn w1 ca) = g" "write_to_remote_agent E g ca w1 = Some w2"
    "sent (c_net w2) = (sent (c_net w))(g := sent (c_net w) g @ s)" "g \<noteq> fd" "cons_inv N l H w2" "fdc w2 ca = fd"
    "conn w2 ca \<noteq> NULL" "fda w2 (conn w2 ca) = g" "pending_out (cas (c_net w2) ca) = []" "nread_out (cas (c_net w2) ca) = 0"
    "tick (c_net w2) \<le> tick (c_net w) + 3"
proof -
  have inv: "cons_inv N l H w" and ca: "ca \<in> H" "conn w ca = NULL" "fdc w ca = fd" "pending_in (cas (c_net w) ca) = []"
    using w by (simp_all add: unlinked_def)
  obtain w1 where r: "read_from_consumer E fd ca w = Some w1" "sent (c_net w1) = sent (c_net w)"
    "pending_in (cas (c_net w1) ca) = s" "pending_out (cas (c_net w1) ca) = []" "nread_out (cas (c_net w1) ca) = 0"
    and alive: "if 0 \<le> fdc w1 ca then cons_inv N l H w1 \<and> fdc w1 ca = fdc w ca \<and> watching_remote ca w1 \<and>
        apas (c_net w1) = apas (c_net w) \<and> open_fds (c_net w1) = open_fds (c_net w) \<and> tick (c_net w1) = Suc (tick (c_net w)) \<and>
        (if conn w ca \<noteq> NULL then conn w1 ca = conn w ca
         else \<exists>j < c_num w. get_endpoint_min_latency (c_eps w) (c_num w) = Some j \<and> conn w1 ca \<in> idle w j)
     else conn w ca = NULL \<and> cons_inv N l (H - {ca}) w1 \<and>
        (\<exists>j < c_num w. get_endpoint_min_latency (c_eps w) (c_num w) = Some j \<and> idle w j = {})"
    using request_read [OF inv ca(1) k, of E s] s ca(3,4) by auto
  have "0 \<le> fdc w1 ca" using alive idle by (auto split: if_splits)
  note a = alive [unfolded if_P [OF this]]
  have w1: "cons_inv N l H w1" "fdc w1 ca = fd" "conn w1 ca \<noteq> NULL" "tick (c_net w1) = Suc (tick (c_net w))"
    using a ca(3) by (simp_all add: watching_remote_def)
  have core: "core N l H H w1" using w1(1) by (simp add: cons_inv_def)
  have g: "fda w1 (conn w1 ca) \<noteq> fd"
    using no_second_role [OF core, of "Ca ca" fd "Remote ca"] holder_partner(1) [OF w1(1) ca(1) w1(3)] w1(2) ca(1) by auto
  have wr: "write_result E (fda w1 (conn w1 ca)) (pending_in (cas (c_net w1) ca)) w1 = WrSome (length s)"
    using writes r(3) by (simp add: write_result_def)
  obtain w2 where "write_to_remote_agent E (fda w1 (conn w1 ca)) ca w1 = Some w2" "cons_inv N l H w2" "same_exchange ca w1 w2"
    "sent (c_net w2) = (sent (c_net w1))(fda w1 (conn w1 ca) := sent (c_net w1) (fda w1 (conn w1 ca)) @ s)"
    using request_step [OF w1(1) ca(1) w1(3) refl, of E] r(3) unfolding wr by (auto simp: forwarded_def accepted_def)
  then show thesis using that [OF r(1) refl] g r w1 by (auto simp: same_exchange_def)
qed

lemma consumer_answers:
  fixes E :: "cnet env"
  assumes inv: "cons_inv N l H w" and ca: "ca \<in> H" "conn w ca \<noteq> NULL" "fda w (conn w ca) = g" "fdc w ca = fd"
    and out: "pending_out (cas (c_net w) ca) = []" "nread_out (cas (c_net w) ca) = 0" and tick: "tick (c_net w) < 2 ^ 31 - 2"
    and t: "\<And>k n. env_read E g k n = RdData t" "t \<noteq> []" "length t \<le> CONSUMER_HTTP_RESP_BUF_SIZE"
    and writes: "\<And>fd s n. env_write E fd s n = WrSome (length s)"
  obtains w3 w4 where "read_from_remote_agent E g ca w = Some w3" "write_to_consumer E fd ca w3 = Some w4"
    "sent (c_net w4) = (sent (c_net w))(fd := sent (c_net w) fd @ t)" "unlinked N l H ca fd w4"
proof -
  have k: "length t \<le> nat (int CONSUMER_HTTP_RESP_BUF_SIZE - nread_out (cas (c_net w) ca))" using t(3) out(2) by simp
  obtain w3 where w3: "read_from_remote_agent E g ca w = Some w3" "cons_inv N l H w3" "sent (c_net w3) = sent (c_net w)"
    "pending_out (cas (c_net w3) ca) = t" "pending_in (cas (c_net w3) ca) = []" "fdc w3 ca = fd"
    using response_read [OF tick inv ca(1-3) refl t(1,2) k] out(1) ca(4) by auto
  have wr: "write_result E fd (pending_out (cas (c_net w3) ca)) w3 = WrSome (length t)"
    using writes w3(4) by (simp add: write_result_def)
  obtain w4 where "write_to_consumer E fd ca w3 = Some w4" "sent (c_net w4) = (sent (c_net w3))(fd := sent (c_net w3) fd @ t)"
    "pending_out (cas (c_net w4) ca) = []" "pending_in (cas (c_net w4) ca) = []" "fdc w4 ca = fd" "cons_inv N l H w4" "conn w4 ca = NULL"
    using response_step [OF w3(2) ca(1) w3(6), of E] w3(4,5) unfolding wr by (auto simp: forwarded_def accepted_def)
  then show thesis using that [OF w3(1)] w3(3) ca(1) by (simp add: unlinked_def)
qed

section \<open>The exchange\<close>

text \<open>A connection of the provider agent that waits for the first byte of a request.\<close>

definition fresh_pair :: "int \<Rightarrow> addr \<Rightarrow> fd \<Rightarrow> fd \<Rightarrow> provider \<Rightarrow> bool" where
  "fresh_pair N ca f g w \<longleftrightarrow> idle_pair N ca f g w \<and> parser (caa w ca) = http_parser_init HTTP_REQUEST \<and> caa_nread_in (caa w ca) = 0"

definition response_of :: "string \<Rightarrow> string" where
  "response_of v = resp_head @ dec (length v) @ [CHR 0x0D, CHR 0x0A, CHR 0x0D, CHR 0x0A] @ v"

lemma response_of_short: "length v \<le> 89 \<Longrightarrow> response_of v \<noteq> [] \<and> length (response_of v) \<le> CONSUMER_HTTP_RESP_BUF_SIZE"
  using dec_length [of "length v" 2] by (simp add: response_of_def resp_head_def CONSUMER_HTTP_RESP_BUF_SIZE_def)

text \<open>The environment of an orderly exchange: the provider answers and every write is taken as a whole.\<close>

definition answers :: "fd \<Rightarrow> string \<Rightarrow> pnet env \<Rightarrow> bool" where
  "answers h v E \<longleftrightarrow> NUL \<notin> set v \<and> length v \<le> 89 \<and>
     (\<exists>hdr st. length hdr = 12 \<and> length st = 2 \<and> (\<forall>k n. env_read E h k n = RdData (answer_frame hdr st v)))"

definition writes_all :: "'k env \<Rightarrow> bool" where
  "writes_all E \<longleftrightarrow> (\<forall>fd s n. env_write E fd s n = WrSome (length s))"

lemma answers_any_call: "answers h v E \<Longrightarrow> answers_call h c v w E"
  unfolding answers_def answers_call_def by metis

lemma provider_answers:
  fixes E :: "pnet env"
  assumes start: "fresh_pair N ca f g w" and x: "fields_ok x" and req: "good_request m cs hs l hs' (body_of x)"
    and s: "s = request_head m cs hs l hs' @ body_of x" "length s \<le> PROVIDER_HTTP_REQ_BUF_SIZE"
    and E: "\<And>k n. env_read E f k n = RdData s" "writes_all E"
    and a: "answers_call g (call_of (cur_request_id w) x) v w E"
  obtains w1 w2 w3 w4 frame where "read_from_consumer_agent E f ca w = Some w1" "write_to_local_provider E g ca w1 = Some w2"
    "read_from_local_provider E g ca w2 = Some w3" "write_to_consumer_agent E f ca w3 = Some w4"
    "sent (p_net w4) = (sent (p_net w))(g := sent (p_net w) g @ frame, f := sent (p_net w) f @ response_of v)"
    "decode_request frame = Some (call_of (cur_request_id w) x)" "cur_request_id w4 = cur_request_id w + 1" "fresh_pair N ca f g w4"
proof -
  have i: "idle_pair N ca f g w" "caa_nread_in (caa w ca) = 0" "parser (caa w ca) = http_parser_init HTTP_REQUEST"
    using start by (simp_all add: fresh_pair_def)
  have parse: "delivers (\<lambda>q. state q = s_start_req \<and> http_errno q = HPE_OK) (length (request_head m cs hs l hs')) (body_of x) s (parser (caa w ca))"
    using request_delivers [OF req] by (simp add: s(1) i(3))
  have room: "length s \<le> PROVIDER_HTTP_REQ_BUF_SIZE - caa_nread_in (caa w ca)" using s(2) i(2) by simp
  have wr: "env_write E fd t n = WrSome (length t)" for fd t n using E(2) by (simp add: writes_all_def)
  obtain w1 w2 w3 w4 frame where steps: "read_from_consumer_agent E f ca w = Some w1" "write_to_local_provider E g ca w1 = Some w2"
    "read_from_local_provider E g ca w2 = Some w3" "write_to_consumer_agent E f ca w3 = Some w4"
    and out: "sent (p_net w4) = (sent (p_net w))(g := sent (p_net w) g @ frame,
       f := sent (p_net w) f @ resp_head @ dec (length v) @ [CHR 0x0D, CHR 0x0A, CHR 0x0D, CHR 0x0A] @ v)"
      "decode_request frame = Some (call_of (cur_request_id w) x)" "cur_request_id w4 = cur_request_id w + 1"
    and fresh: "bound N ca f g w4" "\<not> processing (caa w4 ca)" "parser (caa w4 ca) = http_parser_init HTTP_REQUEST"
      "caa_nread_in (caa w4 ca) = 0" "nwrite_req (caa w4 ca) = 0" "nread_resp (caa w4 ca) = 0"
      "calls w4 f ca (Some Read_from_consumer_agent) None" "calls w4 g ca (Some Read_from_local_provider) None"
    using exchange_completed [OF i(1) x parse s(1) E(1) room a wr] by blast
  show thesis
    by (rule that [OF steps _ out(2,3)]) (use out(1) fresh in \<open>auto simp: response_of_def fresh_pair_def idle_pair_def\<close>)
qed

text \<open>
  C9: A whole exchange of the mesh: a consumer's HTTP request, read by the consumer agent, reaches the
  provider as one frame that decodes to the call of its form under the provider agent's next request
  number, and the value the provider answers reaches the consumer as the body of an HTTP response;
  no handler of the eight fails, nothing else is sent, and both ends are ready for the next exchange.
  It is shown for a request that arrives whole, on a connection between the agents that carries what
  each side writes.
\<close>

theorem mesh_exchange:
  assumes w: "unlinked N l H ca fd w" and idle: "\<And>j. j < c_num w \<Longrightarrow> idle w j \<noteq> {}" and tick: "tick (c_net w) < 2 ^ 31 - 5"
    and v: "fresh_pair M pa f h v" and x: "fields_ok x" and req: "good_request m cs hs ln hs' (body_of x)"
    and s: "s = request_head m cs hs ln hs' @ body_of x" "length s \<le> PROVIDER_HTTP_REQ_BUF_SIZE"
    and k: "k = nat (int CONSUMER_HTTP_REQ_BUF_SIZE - nread_in (cas (c_net w) ca))" "length s < k"
    and Ec: "env_read Ec fd k (c_net w) = RdData s" "writes_all Ec" and Ep: "answers h val Ep" "writes_all Ep"
  shows "\<exists>w' v' g frame. mesh_run Ec Ep fd ca f pa h w v = Some (w', v') \<and> g \<noteq> fd \<and>
    sent (c_net w') = (sent (c_net w))(g := sent (c_net w) g @ s, fd := sent (c_net w) fd @ response_of val) \<and>
    sent (p_net v') = (sent (p_net v))(h := sent (p_net v) h @ frame, f := sent (p_net v) f @ response_of val) \<and>
    decode_request frame = Some (call_of (cur_request_id v) x) \<and> cur_request_id v' = cur_request_id v + 1 \<and>
    unlinked N l H ca fd w' \<and> fresh_pair M pa f h v'"
proof -
  have ne: "s \<noteq> []" using body_not_Nil by (simp add: s(1))
  have wrc: "env_write Ec fd t n = WrSome (length t)" for fd t n using Ec(2) by (simp add: writes_all_def)
  obtain w1 w2 g where c: "read_from_consumer Ec fd ca w = Some w1" "fda w1 (conn w1 ca) = g" "write_to_remote_agent Ec g ca w1 = Some w2"
    "sent (c_net w2) = (sent (c_net w))(g := sent (c_net w) g @ s)" "g \<noteq> fd" "cons_inv N l H w2" "fdc w2 ca = fd"
    "conn w2 ca \<noteq> NULL" "fda w2 (conn w2 ca) = g" "pending_out (cas (c_net w2) ca) = []" "nread_out (cas (c_net w2) ca) = 0"
    "tick (c_net w2) \<le> tick (c_net w) + 3"
    by (rule consumer_sends [OF w idle k(1) Ec(1) ne k(2) wrc])
  define Ep' where "Ep' = piped f s Ep"
  have bound: "bound M pa f h v" using v by (simp add: fresh_pair_def idle_pair_def)
  then have fh: "f \<noteq> h" by (rule boundD(6))
  have ep: "\<And>k n. env_read Ep' f k n = RdData s" "answers h val Ep'" "writes_all Ep'"
    using Ep fh by (auto simp: Ep'_def answers_def writes_all_def)
  obtain v1 v2 v3 v4 frame where p: "read_from_consumer_agent Ep' f pa v = Some v1" "write_to_local_provider Ep' h pa v1 = Some v2"
    "read_from_local_provider Ep' h pa v2 = Some v3" "write_to_consumer_agent Ep' f pa v3 = Some v4"
    "sent (p_net v4) = (sent (p_net v))(h := sent (p_net v) h @ frame, f := sent (p_net v) f @ response_of val)"
    "decode_request frame = Some (call_of (cur_request_id v) x)" "cur_request_id v4 = cur_request_id v + 1" "fresh_pair M pa f h v4"
    by (rule provider_answers [OF v x req s ep(1,3) answers_any_call [OF ep(2)]])
  define Ec' where "Ec' = piped g (response_of val) Ec"
  have short: "response_of val \<noteq> []" "length (response_of val) \<le> CONSUMER_HTTP_RESP_BUF_SIZE"
    using response_of_short [of val] Ep(1) by (auto simp: answers_def)
  have ec: "\<And>k n. env_read Ec' g k n = RdData (response_of val)" "\<And>fd t n. env_write Ec' fd t n = WrSome (length t)"
    using wrc by (simp_all add: Ec'_def)
  have t: "tick (c_net w2) < 2 ^ 31 - 2" using c(12) tick by simp
  have ca: "ca \<in> H" using w by (simp add: unlinked_def)
  obtain w3 w4 where r: "read_from_remote_agent Ec' g ca w2 = Some w3" "write_to_consumer Ec' fd ca w3 = Some w4"
    "sent (c_net w4) = (sent (c_net w2))(fd := sent (c_net w2) fd @ response_of val)" "unlinked N l H ca fd w4"
    by (rule consumer_answers [OF c(6) ca c(8,9,7,10,11) t ec(1) short ec(2)])
  have "mesh_run Ec Ep fd ca f pa h w v = Some (w4, v4)"
    using c p r fh by (simp add: mesh_run_def Ep'_def Ec'_def Let_def)
  moreover have "sent (c_net w4) = (sent (c_net w))(g := sent (c_net w) g @ s, fd := sent (c_net w) fd @ response_of val)"
    using r(3) c(4,5) by simp
  ultimately show ?thesis using c(5) p(5-8) r(4) by blast
qed

section \<open>Witness\<close>

text \<open>A kernel that delivers the request of the demonstration on descriptor 5.\<close>

definition mesh_cenv :: "cnet env" where
  "mesh_cenv = demo_env\<lparr>env_read := (\<lambda>fd k n. RdData demo_request), env_write := (\<lambda>fd out n. WrSome (length out))\<rparr>"

lemma demo_fresh: "fresh_pair 16 1000 5 4 (demo_provider False demo_caa)"
proof -
  have "bound 16 1000 5 4 (demo_provider False demo_caa)" by (rule demo_bound [OF demo_caa_ok]) (simp_all add: demo_caa_def)
  moreover have "calls (demo_provider False demo_caa) 5 1000 (Some Read_from_consumer_agent) None"
    using demo_calls(1) [of False demo_caa] by simp
  ultimately show ?thesis
    using demo_calls(2) [of False demo_caa] by (auto simp: fresh_pair_def idle_pair_def demo_caa_def)
qed

lemma mesh_exchange_witness:
  "\<exists>w v. mesh_run mesh_cenv (demo_penv [] demo_answer) 5 1000 5 1000 4 demo_agent (demo_provider False demo_caa) = Some (w, v) \<and>
     sent (c_net w) 5 = response_of ''42'' \<and>
     decode_request (sent (p_net v) 4) = Some \<lparr>d_id = 1, d_service = ''S'', d_method = ''hash'', d_type = java_String, d_arg = ''abc''\<rparr>"
proof -
  have w: "unlinked 16 3 {1000} 1000 5 demo_agent"
    using demo_inv demo_at by (simp add: unlinked_def) (simp add: demo_agent_def demo_net_def zero_ca_def pending_in_def pending_out_def)
  have idle: "idle demo_agent j \<noteq> {}" if "j < c_num demo_agent" for j using that by (simp add: idle_def demo_at demo_pools)
  have tick: "tick (c_net demo_agent) < 2 ^ 31 - 5" by (simp add: demo_at)
  have call: "call_of 1 demo_fields = \<lparr>d_id = 1, d_service = ''S'', d_method = ''hash'', d_type = java_String, d_arg = ''abc''\<rparr>"
    by (simp add: call_of_def demo_fields_def java_type_def)
  have k: "nat (int CONSUMER_HTTP_REQ_BUF_SIZE - nread_in (cas (c_net demo_agent) 1000)) = 2048"
    by (simp add: demo_agent_def demo_net_def zero_ca_def CONSUMER_HTTP_REQ_BUF_SIZE_def)
  have s: "demo_request = request_head HTTP_POST [] demo_before (''Content-length'', ''68'') demo_behind @ body_of demo_fields"
    by (simp add: demo_request_def demo_head_def)
  have room: "length demo_request \<le> PROVIDER_HTTP_REQ_BUF_SIZE" "length demo_request < 2048"
    using demo_request_length by (simp_all add: PROVIDER_HTTP_REQ_BUF_SIZE_def)
  have Ec: "env_read mesh_cenv 5 2048 (c_net demo_agent) = RdData demo_request" "writes_all mesh_cenv"
    by (simp_all add: mesh_cenv_def writes_all_def)
  have "env_read (demo_penv [] demo_answer) 4 k n = RdData (answer_frame (replicate 12 NUL) [CHR ''1'', CHR 0x0A] ''42'')" for k n
    by (simp add: demo_penv_def demo_answer_def)
  moreover have "length (replicate 12 NUL) = 12" "length [CHR ''1'', CHR 0x0A] = 2" by simp_all
  ultimately have "\<exists>hdr st. length hdr = 12 \<and> length st = 2 \<and>
      (\<forall>k n. env_read (demo_penv [] demo_answer) 4 k n = RdData (answer_frame hdr st ''42''))"
    by blast
  then have Ep: "answers 4 ''42'' (demo_penv [] demo_answer)" "writes_all (demo_penv [] demo_answer)"
    by (simp_all add: answers_def) (simp add: writes_all_def demo_penv_def)
  obtain w' v' g frame where "mesh_run mesh_cenv (demo_penv [] demo_answer) 5 1000 5 1000 4 demo_agent (demo_provider False demo_caa) = Some (w', v')"
    "g \<noteq> 5" "sent (c_net w') = (sent (c_net demo_agent))(g := sent (c_net demo_agent) g @ demo_request,
        5 := sent (c_net demo_agent) 5 @ response_of ''42'')"
    "sent (p_net v') = (sent (p_net (demo_provider False demo_caa)))(4 := sent (p_net (demo_provider False demo_caa)) 4 @ frame,
        5 := sent (p_net (demo_provider False demo_caa)) 5 @ response_of ''42'')"
    "decode_request frame = Some (call_of (cur_request_id (demo_provider False demo_caa)) demo_fields)"
    using mesh_exchange [OF w idle tick demo_fresh demo_fields_ok demo_request_good s room(1) k [symmetric] room(2) Ec Ep] by blast
  moreover have "sent (c_net demo_agent) = (\<lambda>_. [])" by (simp add: demo_agent_def demo_net_def)
  ultimately show ?thesis using call by auto
qed

end
