(* ===== verification/Provider_Service.thy ===== *)
theory Provider_Service
  imports Mesh
begin

text \<open>
  What a provider agent is for the consumer agent at the other end of one of its connections: a server
  that answers each request with the value its provider computes for the call in the request. The
  specification knows neither bytes nor buffers nor events; the agent implements it over any number of
  exchanges.
\<close>

section \<open>The specification\<close>

text \<open>A request by its parts, its last part the form.\<close>

record http_request =
  rq_method :: http_method
  rq_url :: string
  rq_before :: "(string \<times> string) list"
  rq_length :: "string \<times> string"
  rq_behind :: "(string \<times> string) list"
  rq_form :: fields

text \<open>The calls of a list of requests, numbered from \<open>i\<close>, and the values of their answers.\<close>

fun calls_of :: "u32 \<Rightarrow> http_request list \<Rightarrow> dubbo_call list" where
  "calls_of i [] = []"
| "calls_of i (r # rs) = call_of i (rq_form r) # calls_of (i + 1) rs"

definition serve :: "(dubbo_call \<Rightarrow> string) \<Rightarrow> u32 \<Rightarrow> http_request list \<Rightarrow> string list" where
  "serve svc i rs = map svc (calls_of i rs)"

section \<open>The exchanges\<close>

definition request_text :: "http_request \<Rightarrow> string" where
  "request_text r = request_head (rq_method r) (rq_url r) (rq_before r) (rq_length r) (rq_behind r) @ body_of (rq_form r)"

definition well_formed :: "http_request \<Rightarrow> bool" where
  "well_formed r \<longleftrightarrow> fields_ok (rq_form r) \<and>
     good_request (rq_method r) (rq_url r) (rq_before r) (rq_length r) (rq_behind r) (body_of (rq_form r)) \<and>
     length (request_text r) \<le> PROVIDER_HTTP_REQ_BUF_SIZE"

text \<open>One exchange: the four handlers in the order in which each is registered by one before it.\<close>

definition exchange :: "pnet env \<Rightarrow> fd \<Rightarrow> addr \<Rightarrow> fd \<Rightarrow> provider \<Rightarrow> provider option" where
  "exchange E f pa h w = do {
     w1 \<leftarrow> read_from_consumer_agent E f pa w;
     w2 \<leftarrow> write_to_local_provider E h pa w1;
     w3 \<leftarrow> read_from_local_provider E h pa w2;
     write_to_consumer_agent E f pa w3
   }"

text \<open>Each exchange has an environment of its own, which may depend on the state it begins in.\<close>

fun session :: "fd \<Rightarrow> addr \<Rightarrow> fd \<Rightarrow> (provider \<Rightarrow> pnet env) list \<Rightarrow> provider \<Rightarrow> provider option" where
  "session f pa h [] w = Some w"
| "session f pa h (X # Xs) w = do { w1 \<leftarrow> exchange (X w) f pa h w; session f pa h Xs w1 }"

text \<open>
  The environment of one exchange: the consumer agent sends the request as a whole; the provider
  decodes the frame that was sent to it in this exchange and answers, as a whole, with the value it
  computes from the call; the kernel takes what is written.
\<close>

definition offers :: "(dubbo_call \<Rightarrow> string) \<Rightarrow> fd \<Rightarrow> fd \<Rightarrow> http_request \<Rightarrow> (provider \<Rightarrow> pnet env) \<Rightarrow> bool" where
  "offers svc f h r X \<longleftrightarrow> (\<forall>w. (\<forall>k n. env_read (X w) f k n = RdData (request_text r)) \<and> writes_all (X w) \<and>
     (\<forall>fr c k n. decode_request fr = Some c \<and> sent n h = sent (p_net w) h @ fr \<longrightarrow>
        (\<exists>hdr st. length hdr = 12 \<and> length st = 2 \<and> env_read (X w) h k n = RdData (answer_frame hdr st (svc c)))))"

text \<open>The values a provider can answer with: the rest overruns the agent's response buffer.\<close>

definition short_values :: "(dubbo_call \<Rightarrow> string) \<Rightarrow> bool" where
  "short_values svc \<longleftrightarrow> (\<forall>c. NUL \<notin> set (svc c) \<and> length (svc c) \<le> 89)"

lemma offers_answers: "offers svc f h r X \<Longrightarrow> short_values svc \<Longrightarrow> answers_call h c (svc c) w (X w)"
  unfolding offers_def short_values_def answers_call_def by blast

lemma exchange_serves:
  assumes "fresh_pair N pa f h w" "well_formed r" "offers svc f h r X" "short_values svc"
  obtains w' frame where "exchange (X w) f pa h w = Some w'" "fresh_pair N pa f h w'" "cur_request_id w' = cur_request_id w + 1"
    "decode_request frame = Some (call_of (cur_request_id w) (rq_form r))"
    "sent (p_net w') = (sent (p_net w))(h := sent (p_net w) h @ frame,
       f := sent (p_net w) f @ response_of (svc (call_of (cur_request_id w) (rq_form r))))"
proof -
  have r: "fields_ok (rq_form r)" "good_request (rq_method r) (rq_url r) (rq_before r) (rq_length r) (rq_behind r) (body_of (rq_form r))"
    "length (request_text r) \<le> PROVIDER_HTTP_REQ_BUF_SIZE"
    using assms(2) by (simp_all add: well_formed_def)
  have E: "\<And>k n. env_read (X w) f k n = RdData (request_text r)" "writes_all (X w)"
    using assms(3) by (simp_all add: offers_def)
  obtain w1 w2 w3 w4 frame where "read_from_consumer_agent (X w) f pa w = Some w1" "write_to_local_provider (X w) h pa w1 = Some w2"
    "read_from_local_provider (X w) h pa w2 = Some w3" "write_to_consumer_agent (X w) f pa w3 = Some w4"
    "sent (p_net w4) = (sent (p_net w))(h := sent (p_net w) h @ frame,
       f := sent (p_net w) f @ response_of (svc (call_of (cur_request_id w) (rq_form r))))"
    "decode_request frame = Some (call_of (cur_request_id w) (rq_form r))" "cur_request_id w4 = cur_request_id w + 1"
    "fresh_pair N pa f h w4"
    by (rule provider_answers [OF assms(1) r(1,2) request_text_def r(3) E offers_answers [OF assms(3,4)]])
  then show thesis using that by (simp add: exchange_def)
qed

text \<open>
  C10: A provider agent implements the specification: over any number of exchanges on a connection,
  with any well-formed requests and any provider that answers each call by the value of a function of
  what it was called with, no handler fails; the provider has received exactly one frame per request,
  in order, which decodes to the call of the request under consecutive numbers; the consumer agent
  has received exactly the responses with the values of the specification, in order; and the
  connection is ready for the next request.
\<close>

theorem provider_refines_service:
  assumes "fresh_pair N pa f h w" "\<forall>r \<in> set rs. well_formed r" "list_all2 (offers svc f h) rs Xs" "short_values svc"
  shows "\<exists>w' frames. session f pa h Xs w = Some w' \<and> fresh_pair N pa f h w' \<and>
    map decode_request frames = map Some (calls_of (cur_request_id w) rs) \<and>
    sent (p_net w') h = sent (p_net w) h @ concat frames \<and>
    sent (p_net w') f = sent (p_net w) f @ concat (map response_of (serve svc (cur_request_id w) rs)) \<and>
    (\<forall>g. g \<noteq> f \<and> g \<noteq> h \<longrightarrow> sent (p_net w') g = sent (p_net w) g)"
  using assms(3,1,2)
proof (induction rs Xs arbitrary: w rule: list_all2_induct)
  case Nil
  then show ?case by (auto simp: serve_def)
next
  case (Cons r rs X Xs)
  have fh: "f \<noteq> h" using Cons.prems(1) boundD(6) [of N pa f h w] by (simp add: fresh_pair_def idle_pair_def)
  have "well_formed r" using Cons.prems(2) by simp
  then obtain w1 fr where w1: "exchange (X w) f pa h w = Some w1" "fresh_pair N pa f h w1" "cur_request_id w1 = cur_request_id w + 1"
    "decode_request fr = Some (call_of (cur_request_id w) (rq_form r))"
    "sent (p_net w1) = (sent (p_net w))(h := sent (p_net w) h @ fr,
       f := sent (p_net w) f @ response_of (svc (call_of (cur_request_id w) (rq_form r))))"
    using exchange_serves [OF Cons.prems(1) _ Cons.hyps(1) assms(4)] by metis
  obtain w' frames where ih: "session f pa h Xs w1 = Some w'" "fresh_pair N pa f h w'"
    "map decode_request frames = map Some (calls_of (cur_request_id w1) rs)" "sent (p_net w') h = sent (p_net w1) h @ concat frames"
    "sent (p_net w') f = sent (p_net w1) f @ concat (map response_of (serve svc (cur_request_id w1) rs))"
    "\<forall>g. g \<noteq> f \<and> g \<noteq> h \<longrightarrow> sent (p_net w') g = sent (p_net w1) g"
    using Cons.IH [OF w1(2)] Cons.prems(2) by auto
  have "map decode_request (fr # frames) = map Some (calls_of (cur_request_id w) (r # rs))"
    "sent (p_net w') h = sent (p_net w) h @ concat (fr # frames)"
    "sent (p_net w') f = sent (p_net w) f @ concat (map response_of (serve svc (cur_request_id w) (r # rs)))"
    "\<forall>g. g \<noteq> f \<and> g \<noteq> h \<longrightarrow> sent (p_net w') g = sent (p_net w) g"
    using ih(3-6) w1(3-5) fh by (simp_all add: serve_def)
  then show ?case using w1(1) ih(1,2) by (intro exI [of _ w'] exI [of _ "fr # frames"]) simp
qed

section \<open>Witness\<close>

text \<open>Two requests in a row, to a provider that looks at the argument it was called with.\<close>

definition demo_svc :: "dubbo_call \<Rightarrow> string" where
  "demo_svc c = (if d_arg c = ''abc'' then ''42'' else ''0'')"

definition demo_http_request :: http_request where
  "demo_http_request = \<lparr>rq_method = HTTP_POST, rq_url = [], rq_before = demo_before, rq_length = (''Content-length'', ''68''),
     rq_behind = demo_behind, rq_form = demo_fields\<rparr>"

definition demo_client :: "provider \<Rightarrow> pnet env" where
  "demo_client w = (demo_penv [] [])\<lparr>env_read := (\<lambda>fd k n. RdData (if fd = 5 then request_text demo_http_request
     else answer_frame (replicate 12 NUL) [CHR ''1'', CHR 0x0A]
       (demo_svc (the (decode_request (drop (length (sent (p_net w) 4)) (sent n 4)))))))\<rparr>"

lemma provider_refines_service_witness:
  "\<exists>w' a b. session 5 1000 4 [demo_client, demo_client] (demo_provider False demo_caa) = Some w' \<and>
     sent (p_net w') 5 = response_of ''42'' @ response_of ''42'' \<and> sent (p_net w') 4 = a @ b \<and>
     map_option d_id (decode_request a) = Some 1 \<and> map_option d_id (decode_request b) = Some 2"
proof -
  have req: "request_text demo_http_request = demo_request"
    by (simp add: request_text_def demo_http_request_def demo_request_def demo_head_def)
  have "well_formed demo_http_request"
    using demo_fields_ok demo_request_good demo_request_length
    by (simp add: well_formed_def req) (simp add: demo_http_request_def PROVIDER_HTTP_REQ_BUF_SIZE_def)
  then have wf: "\<forall>r \<in> set [demo_http_request, demo_http_request]. well_formed r" by simp
  have "\<exists>hdr st. length hdr = 12 \<and> length st = 2 \<and> env_read (demo_client w) 4 k n = RdData (answer_frame hdr st (demo_svc c))"
    if "decode_request fr = Some c" "sent n 4 = sent (p_net w) 4 @ fr" for w fr c k n
    by (rule exI [of _ "replicate 12 NUL"], rule exI [of _ "[CHR ''1'', CHR 0x0A]"]) (simp add: demo_client_def that)
  moreover have "env_read (demo_client w) 5 k n = RdData (request_text demo_http_request)" "writes_all (demo_client w)" for w k n
    by (simp_all add: demo_client_def writes_all_def demo_penv_def)
  ultimately have "offers demo_svc 5 4 demo_http_request demo_client" unfolding offers_def by blast
  then have off: "list_all2 (offers demo_svc 5 4) [demo_http_request, demo_http_request] [demo_client, demo_client]" by simp
  have short: "short_values demo_svc" by (simp add: short_values_def demo_svc_def)
  obtain w' frames where s: "session 5 1000 4 [demo_client, demo_client] (demo_provider False demo_caa) = Some w'"
    "map decode_request frames = map Some (calls_of 1 [demo_http_request, demo_http_request])"
    "sent (p_net w') 4 = concat frames"
    "sent (p_net w') 5 = concat (map response_of (serve demo_svc 1 [demo_http_request, demo_http_request]))"
    using provider_refines_service [OF demo_fresh wf off short] unfolding demo_provider_at append_Nil by blast
  obtain a b where fr: "frames = [a, b]" using s(2) by (auto simp: map_eq_Cons_conv)
  have "demo_svc (call_of i demo_fields) = ''42''" for i by (simp add: demo_svc_def call_of_def demo_fields_def)
  then have out: "sent (p_net w') 5 = response_of ''42'' @ response_of ''42''"
    using s(4) by (simp add: serve_def demo_http_request_def)
  have "map_option d_id (decode_request a) = Some 1" "map_option d_id (decode_request b) = Some 2" "sent (p_net w') 4 = a @ b"
    using s(2,3) by (simp_all add: fr call_of_def)
  then show ?thesis using s(1) out by blast
qed

end
