(* ===== verification/Boot.thy ===== *)
theory Boot
  imports Startup_Props Consumer_Props
begin

text \<open>
  The start of a consumer agent: from the listening socket and the answer of the registry to a watched
  socket, connected pools and the invariant under which its handlers are safe.
\<close>

section \<open>The elements of a new pool\<close>

lemma prealloc_loop_world:
  assumes "max_buckets p \<noteq> 0" "prealloc_loop n i p w = (True, q, w')"
  shows "w' = fold (\<lambda>k w. snd (Init p (data_buffer p + uint ((i + of_nat k) * elt_size p)) (InitData p) w)) [0..<n] w"
  using assms
proof (induction n arbitrary: i p w)
  case (Suc n)
  obtain ok1 p1 w1 where r: "prealloc_bounded i p w = (ok1, p1, w1)" by (metis prod_cases3)
  then have ok1 using Suc.prems by (cases ok1) auto
  then have w1: "w1 = snd (Init p (data_buffer p + uint (i * elt_size p)) (InitData p) w)"
    and p1: "max_buckets p1 = max_buckets p" "Init p1 = Init p" "InitData p1 = InitData p"
      "data_buffer p1 = data_buffer p" "elt_size p1 = elt_size p"
    using r by (auto simp: prealloc_bounded_def Let_def split: prod.splits if_splits)
  have "w' = fold (\<lambda>k w. snd (Init p (data_buffer p + uint ((i + 1 + of_nat k) * elt_size p)) (InitData p) w)) [0..<n] w1"
    using Suc.IH [of p1 "i + 1" w1] Suc.prems r p1 \<open>ok1\<close> by simp
  moreover have "[0..<Suc n] = 0 # map Suc [0..<n]" by (metis map_Suc_upt upt_conv_Cons zero_less_Suc)
  ultimately show ?case by (simp add: w1 fold_map comp_def add.assoc)
qed simp

lemma fill_empty_fields:
  "Init (fill_empty n pb p) = Init p \<and> InitData (fill_empty n pb p) = InitData p \<and>
   elt_size (fill_empty n pb p) = elt_size p \<and> max_buckets (fill_empty n pb p) = max_buckets p"
  by (induction n arbitrary: pb p) simp_all

section \<open>Descriptors\<close>

text \<open>
  The kernel gives a new connection the lowest free descriptor; \<open>used\<close> counts the descriptors in use
  below the size of the table of events.
\<close>

definition lowest_free :: "cnet env \<Rightarrow> bool" where
  "lowest_free E \<longleftrightarrow> (\<forall>n fd. 0 \<le> fd \<and> \<not> open_fds n fd \<longrightarrow>
     0 \<le> snd (env_connect E n) \<and> snd (env_connect E n) \<le> fd \<and> \<not> open_fds n (snd (env_connect E n)))"

definition used :: "int \<Rightarrow> (fd \<Rightarrow> bool) \<Rightarrow> nat" where
  "used N opened = card {fd. 0 \<le> fd \<and> fd < N \<and> opened fd}"

lemma free_fd:
  assumes "used N opened < nat N"
  shows "\<exists>fd. 0 \<le> fd \<and> fd < N \<and> \<not> opened fd"
proof (rule ccontr)
  assume "\<not> ?thesis"
  then have "{fd. 0 \<le> fd \<and> fd < N \<and> opened fd} = {0..<N}" by auto
  then show False using assms by (simp add: used_def)
qed

lemma used_insert:
  assumes "0 \<le> fd" "fd < N" "\<not> opened fd"
  shows "used N (opened(fd := True)) = Suc (used N opened)"
proof -
  have "{x. 0 \<le> x \<and> x < N \<and> (opened(fd := True)) x} = insert fd {x. 0 \<le> x \<and> x < N \<and> opened x}"
    using assms by auto
  moreover have "finite {x. 0 \<le> x \<and> x < N \<and> opened x}" by (rule finite_subset [of _ "{0..<N}"]) auto
  ultimately show ?thesis using assms(3) by (simp add: used_def)
qed

lemma connect_retry_eq:
  "connect_retry m fd w =
     (fd, w\<lparr>open_fds := (open_fds w)(fd := True), sent := (sent w)(fd := []), tick := tick w + m + 1\<rparr>)"
  by (induction m arbitrary: w) (simp_all add: tock_def)

lemma initial_items_range: "x \<in> set (initial_items db n e) \<Longrightarrow> 0 < e \<Longrightarrow> db \<le> x \<and> x < db + int (n * e)"
  by (auto simp: initial_items_def)

abbreviation fresh_apa :: "nat \<Rightarrow> fd \<Rightarrow> connection_apa" where
  "fresh_apa k fd \<equiv> \<lparr>apa_fd = fd, apa_endpoint = Some k, req_start = 0\<rparr>"

lemma init_connection_apa_step:
  assumes "lowest_free E" "used N (open_fds n) < nat N"
  obtains fd s t where "init_connection_apa E a (int k) n = (1, n\<lparr>open_fds := (open_fds n)(fd := True), sent := s,
      tick := t, apas := (apas n)(a := fresh_apa k fd)\<rparr>)"
    "0 \<le> fd" "fd < N" "\<not> open_fds n fd" "tick n \<le> t"
proof -
  have z: "zero_apa\<lparr>apa_endpoint := Some k\<rparr> = fresh_apa k 0" by (simp add: zero_apa_def)
  let ?n = "n\<lparr>apas := (apas n)(a := fresh_apa k 0)\<rparr>"
  obtain m fd where e: "env_connect E ?n = (m, fd)" by (cases "env_connect E ?n")
  obtain g where "0 \<le> g" "g < N" "\<not> open_fds ?n g" using free_fd [OF assms(2)] by auto
  then have "0 \<le> fd \<and> fd \<le> g \<and> \<not> open_fds ?n fd" using assms(1) e unfolding lowest_free_def by (metis snd_conv)
  then have "0 \<le> fd" "fd < N" "\<not> open_fds n fd" using \<open>g < N\<close> by simp_all
  moreover have "init_connection_apa E a (int k) n = (1, n\<lparr>open_fds := (open_fds n)(fd := True),
      sent := (sent n)(fd := []), tick := tick n + m + 1, apas := (apas n)(a := fresh_apa k fd)\<rparr>)"
    by (simp add: init_connection_apa_def connect_loop_def z e connect_retry_eq Let_def)
  moreover have "tick n \<le> tick n + m + 1" by simp
  ultimately show thesis by (intro that)
qed

text \<open>The connections of one pool, made one after the other.\<close>

definition connect_all :: "cnet env \<Rightarrow> nat \<Rightarrow> addr list \<Rightarrow> cnet \<Rightarrow> cnet" where
  "connect_all E k as n = fold (\<lambda>a n. snd (init_connection_apa E a (int k) n)) as n"

definition connected :: "int \<Rightarrow> nat \<Rightarrow> addr list \<Rightarrow> (addr \<Rightarrow> fd) \<Rightarrow> cnet \<Rightarrow> cnet \<Rightarrow> bool" where
  "connected N k as f n n' \<longleftrightarrow>
     (\<exists>s t. tick n \<le> t \<and> n' = n\<lparr>open_fds := (\<lambda>g. open_fds n g \<or> g \<in> f ` set as), sent := s, tick := t,
        apas := (\<lambda>a. if a \<in> set as then fresh_apa k (f a) else apas n a)\<rparr>) \<and>
     inj_on f (set as) \<and> (\<forall>a \<in> set as. 0 \<le> f a \<and> f a < N \<and> \<not> open_fds n (f a)) \<and>
     used N (open_fds n') = used N (open_fds n) + length as"

lemma connect_all_connected:
  assumes "lowest_free E" "used N (open_fds n) + length as \<le> nat N" "distinct as"
  shows "\<exists>f. connected N k as f n (connect_all E k as n)"
  using assms(2,3)
proof (induction as arbitrary: n)
  case Nil
  show ?case
    unfolding connected_def connect_all_def by simp (intro exI [of _ "sent n"] exI [of _ "tick n"], simp)
next
  case (Cons a as)
  have room: "used N (open_fds n) < nat N" using Cons.prems(1) by simp
  obtain fd s t where 1: "init_connection_apa E a (int k) n = (1, n\<lparr>open_fds := (open_fds n)(fd := True), sent := s,
      tick := t, apas := (apas n)(a := fresh_apa k fd)\<rparr>)" "0 \<le> fd" "fd < N" "\<not> open_fds n fd" "tick n \<le> t"
    by (rule init_connection_apa_step [OF assms(1) room])
  define n1 where "n1 = n\<lparr>open_fds := (open_fds n)(fd := True), sent := s, tick := t, apas := (apas n)(a := fresh_apa k fd)\<rparr>"
  have u1: "used N (open_fds n1) = Suc (used N (open_fds n))" using used_insert [of fd N "open_fds n"] 1(2-4) by (simp add: n1_def)
  then obtain f where f: "connected N k as f n1 (connect_all E k as n1)"
    using Cons.IH [of n1] Cons.prems by auto
  have step: "connect_all E k (a # as) n = connect_all E k as n1" by (simp add: connect_all_def 1(1) n1_def)
  define g where "g = f(a := fd)"
  have ga: "g a = fd" and gas: "x \<in> set as \<Longrightarrow> g x = f x" for x using Cons.prems(2) by (auto simp: g_def)
  obtain s1 t1 where w: "tick n1 \<le> t1" "connect_all E k as n1 = n1\<lparr>open_fds := (\<lambda>g. open_fds n1 g \<or> g \<in> f ` set as),
      sent := s1, tick := t1, apas := (\<lambda>a. if a \<in> set as then fresh_apa k (f a) else apas n1 a)\<rparr>"
    using f unfolding connected_def by blast
  have open1: "open_fds n1 x \<longleftrightarrow> x = fd \<or> open_fds n x" for x by (simp add: n1_def)
  have im: "g ` set (a # as) = insert fd (f ` set as)" using ga gas by auto
  have "connect_all E k as n1 = n\<lparr>open_fds := (\<lambda>x. open_fds n x \<or> x \<in> g ` set (a # as)), sent := s1, tick := t1,
      apas := (\<lambda>x. if x \<in> set (a # as) then fresh_apa k (g x) else apas n x)\<rparr>"
  proof -
    have "(\<lambda>x. open_fds n1 x \<or> x \<in> f ` set as) = (\<lambda>x. open_fds n x \<or> x \<in> g ` set (a # as))"
      using im open1 by auto
    moreover have "(\<lambda>x. if x \<in> set as then fresh_apa k (f x) else apas n1 x) =
        (\<lambda>x. if x \<in> set (a # as) then fresh_apa k (g x) else apas n x)"
      using ga gas Cons.prems(2) by (auto simp: n1_def fun_eq_iff)
    ultimately show ?thesis unfolding w(2) by (simp add: n1_def)
  qed
  moreover have "tick n \<le> t1" using w(1) 1(5) by (simp add: n1_def)
  moreover have "inj_on g (set (a # as))"
    using f Cons.prems(2) ga gas open1 unfolding connected_def by (auto simp: inj_on_def)
  moreover have "0 \<le> g x \<and> g x < N \<and> \<not> open_fds n (g x)" if "x \<in> set (a # as)" for x
    using f that ga gas open1 1(2-4) unfolding connected_def by (cases "x \<in> set as") auto
  moreover have "used N (open_fds (connect_all E k as n1)) = used N (open_fds n) + length (a # as)"
    using f u1 unfolding connected_def by simp
  ultimately show ?case unfolding step connected_def by (intro exI [of _ g]) blast
qed

section \<open>The pool of one endpoint\<close>

lemma map_slots:
  assumes "k < 512"
  shows "uint ((0 + of_nat k) * sizeof_connection_apa) = int (k * 24)"
  using uint_offset [of k 512 24] assms by (simp add: sizeof_connection_apa_def)

lemma endpoint_pool:
  assumes E: "lowest_free E" and room: "used N (open_fds n) + 512 \<le> nat N" and blk: "three_blocks n"
  obtains p n' f a pb db rest where
    "PoolInit NUM_CONN_PER_PROVIDER NUM_CONN_PER_PROVIDER sizeof_connection_apa None (Some (init_connection_apa E)) (int k)
       (Some cleanup_connection_apa) None n = Some (Some p, n')"
    "fixed_pool p" "pool_used p = 0" "pool_items p = initial_items db 512 24"
    "pending n = a # pb # db # rest" "0 < db"
    "connected N k (pool_items p) f (n\<lparr>pending := rest, blocks := db # pb # a # blocks n\<rparr>) n'"
proof -
  let ?q = "\<lambda>a. new_Pool a NUM_CONN_PER_PROVIDER NUM_CONN_PER_PROVIDER sizeof_connection_apa None
    (Some (init_connection_apa E)) (int k) (Some cleanup_connection_apa) None"
  have args: "pool_args_ok NUM_CONN_PER_PROVIDER NUM_CONN_PER_PROVIDER sizeof_connection_apa"
    by (simp add: pool_args_ok_def NUM_CONN_PER_PROVIDER_def sizeof_connection_apa_def)
  have "init_succeeds (?q a)" for a
    by (simp add: init_succeeds_def new_Pool_def init_connection_apa_def Let_def split: prod.splits)
  then obtain p n' a pb db rest where p: "PoolInit NUM_CONN_PER_PROVIDER NUM_CONN_PER_PROVIDER sizeof_connection_apa None
       (Some (init_connection_apa E)) (int k) (Some cleanup_connection_apa) None n = Some (Some p, n')"
    "built (?q a) db p" "pending n = a # pb # db # rest" "0 < db"
    "prealloc_loop (unat NUM_CONN_PER_PROVIDER) 0
       ((fill_empty (unat NUM_CONN_PER_PROVIDER) pb ((?q a)\<lparr>pb_buffer := pb\<rparr>))\<lparr>data_buffer := db\<rparr>)
       (n\<lparr>pending := rest, blocks := db # pb # a # blocks n\<rparr>) = (True, p, n')"
    using PoolInit_builds [OF args blk] by metis
  have fixed: "fixed_pool p" "pool_used p = 0" "pool_items p = initial_items db 512 24"
    using p(2) by (auto simp: built_def new_Pool_def fixed_pool_def pool_inv_def Let_def NUM_CONN_PER_PROVIDER_def sizeof_connection_apa_def)
  define p2 where "p2 = (fill_empty (unat NUM_CONN_PER_PROVIDER) pb ((?q a)\<lparr>pb_buffer := pb\<rparr>))\<lparr>data_buffer := db\<rparr>"
  define n2 where "n2 = n\<lparr>pending := rest, blocks := db # pb # a # blocks n\<rparr>"
  have p2: "Init p2 = init_connection_apa E" "InitData p2 = int k" "data_buffer p2 = db" "elt_size p2 = sizeof_connection_apa"
    "max_buckets p2 \<noteq> 0"
    using fill_empty_fields [of "unat NUM_CONN_PER_PROVIDER" pb "(?q a)\<lparr>pb_buffer := pb\<rparr>"]
    by (simp_all add: p2_def new_Pool_def NUM_CONN_PER_PROVIDER_def)
  have len: "unat NUM_CONN_PER_PROVIDER = 512" by (simp add: NUM_CONN_PER_PROVIDER_def)
  have "n' = fold (\<lambda>i n. snd (init_connection_apa E (db + uint ((0 + of_nat i) * sizeof_connection_apa)) (int k) n)) [0..<512] n2"
    using prealloc_loop_world [OF p2(5) p(5) [folded p2_def n2_def]] unfolding p2 len .
  also have "\<dots> = fold (\<lambda>i n. snd (init_connection_apa E (db + int (i * 24)) (int k) n)) [0..<512] n2"
    by (rule fold_cong) (auto simp only: map_slots set_upt atLeastLessThan_iff)
  also have "\<dots> = connect_all E k (rev (pool_items p)) n2"
    unfolding fixed(3) initial_items_def connect_all_def by (simp add: fold_map comp_def rev_map)
  finally have n': "n' = connect_all E k (rev (pool_items p)) n2" .
  have "used N (open_fds n2) + length (rev (pool_items p)) \<le> nat N" "distinct (rev (pool_items p))"
    using room initial_items_distinct [of 24 db 512] by (simp_all add: n2_def fixed(3))
  then obtain f where "connected N k (rev (pool_items p)) f n2 n'" using connect_all_connected [OF E] n' by metis
  then have "connected N k (pool_items p) f n2 n'" by (simp add: connected_def)
  then show thesis using that p(1) fixed p(3,4) unfolding n2_def by blast
qed

section \<open>The invariant during the start\<close>

text \<open>
  Blocks of the allocator do not overlap: each has room for the largest block the start asks for.
\<close>

definition block_room :: int where "block_room = 2 ^ 22"

definition memory_for :: "nat \<Rightarrow> 'a libc_scheme \<Rightarrow> bool" where
  "memory_for j n \<longleftrightarrow> good_alloc n \<and> 3 * j \<le> length (pending n) \<and> NULL \<notin> set (take (3 * j) (pending n)) \<and>
     (\<forall>a \<in> set (pending n) \<union> set (blocks n). \<forall>b \<in> set (pending n) \<union> set (blocks n). a \<noteq> b \<longrightarrow> block_room \<le> \<bar>a - b\<bar>)"

lemma memory_three_blocks: "memory_for (Suc j) n \<Longrightarrow> three_blocks n"
  using set_take_subset_set_take [of 3 "3 * Suc j" "pending n"] by (auto simp: memory_for_def three_blocks_def)

lemma memory_taken:
  assumes "memory_for (Suc j) n" "pending n = a # pb # db # rest"
  shows "memory_for j (n\<lparr>pending := rest, blocks := db # pb # a # blocks n\<rparr>)" "db \<notin> set (blocks n)"
proof -
  have mem: "good_alloc n" "3 * Suc j \<le> length (pending n)" "NULL \<notin> set (take (3 * Suc j) (pending n))"
    "\<forall>x \<in> set (pending n) \<union> set (blocks n). \<forall>y \<in> set (pending n) \<union> set (blocks n). x \<noteq> y \<longrightarrow> block_room \<le> \<bar>x - y\<bar>"
    using assms(1) by (simp_all add: memory_for_def)
  have ok: "0 \<noteq> a" "0 \<noteq> pb" "0 \<noteq> db" "NULL \<notin> set (take (3 * j) rest)" "3 * j \<le> length rest"
    using mem(2,3) by (simp_all add: assms(2) numeral_3_eq_3)
  have "good_alloc (n\<lparr>pending := rest, blocks := db # pb # a # blocks n\<rparr>)"
    using mem(1) ok by (auto simp: good_alloc_def assms(2))
  then show "memory_for j (n\<lparr>pending := rest, blocks := db # pb # a # blocks n\<rparr>)"
    using ok mem(4) by (auto simp: memory_for_def assms(2))
  show "db \<notin> set (blocks n)" using mem(1) ok by (auto simp: good_alloc_def assms(2))
qed

definition in_blocks :: "consumer \<Rightarrow> bool" where
  "in_blocks w \<longleftrightarrow> (\<forall>k < c_num w. \<forall>a \<in> idle w k. \<exists>b \<in> set (blocks (c_net w)). b \<le> a \<and> a < b + block_room)"

text \<open>The listening socket is watched, by the loop and by the kernel; every endpoint has 512 connections, none in use.\<close>

definition listens :: "fd \<Rightarrow> consumer \<Rightarrow> bool" where
  "listens l w \<longleftrightarrow> entry w l = registered AE_READABLE Accept_tcp_handler NULL no_event \<and> interest (c_net w) l = Some EPOLLIN"

definition pools_full :: "consumer \<Rightarrow> bool" where
  "pools_full w \<longleftrightarrow> (\<forall>k < c_num w. \<exists>p. conn_pool (c_eps w ! k) = Some p \<and> pool_used p = 0 \<and> length (pool_items p) = 512)"

definition booted :: "int \<Rightarrow> fd \<Rightarrow> consumer \<Rightarrow> bool" where
  "booted N l w \<longleftrightarrow> roles_ok N l {} {} w \<and> table_inv N l {} {} w \<and> c_num w \<le> length (c_eps w) \<and>
     (\<forall>k < c_num w. ep_ok {} w k) \<and> in_blocks w \<and> listens l w \<and> pools_full w"

lemma booted_core: "booted N l w \<Longrightarrow> 0 < c_num w \<Longrightarrow> core N l {} {} w"
  by (simp add: booted_def core_def eps_ok_def)

definition new_endpoint :: "string \<Rightarrow> int \<Rightarrow> cnet Pool \<Rightarrow> cnet endpoint" where
  "new_endpoint ip pt p = \<lparr>ep_ip = ip, ep_port = pt, total_ms = 1, num_reqs = 1, score = 0, conn_pool = Some p\<rparr>"

lemma new_endpoint_filled:
  "e\<lparr>ep_ip := ip, ep_port := pt, total_ms := 1, num_reqs := 1, score := 0, conn_pool := Some p\<rparr> = new_endpoint ip pt p"
  by (cases e) (simp add: new_endpoint_def)

definition with_endpoint :: "string \<Rightarrow> int \<Rightarrow> cnet Pool \<Rightarrow> cnet \<Rightarrow> consumer \<Rightarrow> consumer" where
  "with_endpoint ip pt p n w =
     w\<lparr>c_eps := (c_eps w)[c_num w := new_endpoint ip pt p], c_net := n, c_num := c_num w + 1\<rparr>"

text \<open>One more endpoint, with the connections of its pool.\<close>

lemma endpoint_added:
  assumes B: "booted N l w" and room: "c_num w < length (c_eps w)" and p: "fixed_pool p" "pool_used p = 0"
    and items: "distinct (pool_items p)" "length (pool_items p) = 512" "\<forall>a \<in> set (pool_items p). db \<le> a \<and> a < db + block_room"
    and db: "db \<in> set bs" "set (blocks (c_net w)) \<subseteq> set bs" "\<forall>b \<in> set (blocks (c_net w)). block_room \<le> \<bar>db - b\<bar>"
    and conn: "connected N (c_num w) (pool_items p) f ((c_net w)\<lparr>pending := rest, blocks := bs\<rparr>) n"
  shows "booted N l (with_endpoint ip pt p n w)"
proof -
  let ?w = "with_endpoint ip pt p n w" and ?D = "set (pool_items p)"
  define n0 where "n0 = (c_net w)\<lparr>pending := rest, blocks := bs\<rparr>"
  have n0: "tick n0 = tick (c_net w)" "open_fds n0 = open_fds (c_net w)" "apas n0 = apas (c_net w)" by (simp_all add: n0_def)
  obtain s t where t: "tick n0 \<le> t" and n1: "n = n0\<lparr>open_fds := (\<lambda>g. open_fds n0 g \<or> g \<in> f ` ?D), sent := s,
      tick := t, apas := (\<lambda>a. if a \<in> ?D then fresh_apa (c_num w) (f a) else apas n0 a)\<rparr>"
    using conn [folded n0_def] unfolding connected_def by blast
  have inj: "inj_on f ?D" and f: "\<forall>a \<in> ?D. 0 \<le> f a \<and> f a < N \<and> \<not> open_fds (c_net w) (f a)"
    using conn [folded n0_def] n0 unfolding connected_def by simp_all
  have n: "tick (c_net w) \<le> t" "n = (c_net w)\<lparr>pending := rest, blocks := bs,
      open_fds := (\<lambda>g. open_fds (c_net w) g \<or> g \<in> f ` ?D), sent := s,
      tick := t, apas := (\<lambda>a. if a \<in> ?D then fresh_apa (c_num w) (f a) else apas (c_net w) a)\<rparr>"
    using t n1 unfolding n0 by (simp_all add: n0_def)
  have roles: "roles_ok N l {} {} w" and table: "table_inv N l {} {} w" and eps: "\<And>k. k < c_num w \<Longrightarrow> ep_ok {} w k"
    and blk: "in_blocks w" using B by (simp_all add: booted_def)
  have at: "c_eps ?w ! k = c_eps w ! k" if "k < c_num w" for k using that by (simp add: with_endpoint_def)
  have at': "c_eps ?w ! c_num w = new_endpoint ip pt p" using room by (simp add: with_endpoint_def)
  have idle: "idle ?w k = idle w k" if "k < c_num w" for k using at [OF that] by (simp add: idle_def)
  have idle': "idle ?w (c_num w) = ?D" by (simp add: idle_def at' new_endpoint_def)
  have num: "c_num ?w = Suc (c_num w)" by (simp add: with_endpoint_def)
  have apart: "a \<notin> ?D" if "k < c_num w" "a \<in> idle w k" for k a
  proof -
    obtain b where "b \<in> set (blocks (c_net w))" "b \<le> a" "a < b + block_room"
      using blk \<open>k < c_num w\<close> \<open>a \<in> idle w k\<close> unfolding in_blocks_def by blast
    then show ?thesis using items(3) db(3) by force
  qed
  have old: "fda ?w a = fda w a" "epa ?w a = epa w a" if "k < c_num w" "a \<in> idle w k" for k a
    using apart [OF that] by (simp_all add: with_endpoint_def n(2))
  have fresh: "fda ?w a = f a" "epa ?w a = Some (c_num w)" if "a \<in> ?D" for a
    using that by (simp_all add: with_endpoint_def n(2))
  have up: "has_role l {} {} ?w r fd" if "has_role l {} {} w r fd" for r fd
    using that idle old num by (cases r) (auto simp: less_Suc_eq)
  have down: "has_role l {} {} w r fd \<or> (\<exists>a \<in> ?D. r = Idle a \<and> fd = f a)" if "has_role l {} {} ?w r fd" for r fd
    using that idle idle' old fresh num by (cases r) (auto simp: less_Suc_eq)
  have range: "0 \<le> fd \<and> fd < N \<and> open_fds (c_net w) fd" if "has_role l {} {} w r fd" for r fd
    using roles that unfolding roles_ok_def by blast
  have open': "open_fds (c_net ?w) = (\<lambda>g. open_fds (c_net w) g \<or> g \<in> f ` ?D)" by (simp add: with_endpoint_def n(2))
  have "roles_ok N l {} {} ?w"
    unfolding roles_ok_def
  proof (intro conjI allI impI)
    fix r r' fd
    assume a: "has_role l {} {} ?w r fd"
    show "0 \<le> fd" "fd < N" "open_fds (c_net ?w) fd" using down [OF a] range f open' by auto
    assume b: "has_role l {} {} ?w r' fd"
    show "r = r'"
    proof (cases "open_fds (c_net w) fd")
      case True
      then have "has_role l {} {} w r fd" "has_role l {} {} w r' fd" using down [OF a] down [OF b] f by auto
      then show ?thesis using roles unfolding roles_ok_def by blast
    next
      case False
      then have "\<not> has_role l {} {} w r fd" "\<not> has_role l {} {} w r' fd" using range by blast+
      then obtain x y where "r = Idle x" "r' = Idle y" "x \<in> ?D" "y \<in> ?D" "f x = fd" "f y = fd"
        using down [OF a] down [OF b] by metis
      then show ?thesis using inj by (auto simp: inj_on_def)
    qed
  qed
  moreover have "table_inv N l {} {} ?w"
  proof -
    have kernel: "interest (c_net ?w) = interest (c_net w)" "watch_faults (c_net ?w) = watch_faults (c_net w)"
      "c_loop ?w = c_loop w" by (simp_all add: with_endpoint_def n(2))
    have T: "loop_ok epoll_tracks (c_loop w) (c_net w)" "setsize (c_loop w) = N" "watch_faults (c_net w) = []"
      "\<forall>fd. interest (c_net w) fd \<noteq> None \<longrightarrow> 0 \<le> fd \<and> fd < N"
      "\<forall>fd. 0 \<le> fd \<and> fd < N \<longrightarrow> (\<forall>n \<ge> 2. \<not> bit (fe_mask (entry w fd)) n) \<and>
        (fe_mask (entry w fd) \<noteq> AE_NONE \<longrightarrow> (\<exists>r. has_role l {} {} w r fd \<and> entry_ok r (entry w fd)))"
      using table unfolding table_inv_def by blast+
    have "loop_ok epoll_tracks (c_loop w) (c_net ?w)"
      using T(1) open' kernel(1) unfolding loop_ok_def epoll_tracks_def by (auto split: if_splits)
    moreover have "\<forall>fd. 0 \<le> fd \<and> fd < N \<longrightarrow> (\<forall>n \<ge> 2. \<not> bit (fe_mask (entry w fd)) n) \<and>
        (fe_mask (entry w fd) \<noteq> AE_NONE \<longrightarrow> (\<exists>r. has_role l {} {} ?w r fd \<and> entry_ok r (entry w fd)))"
      using T(5) up by metis
    ultimately show ?thesis using T(2-4) unfolding table_inv_def kernel by simp
  qed
  moreover have "ep_ok {} ?w k" if "k < c_num ?w" for k
  proof (cases "k = c_num w")
    case True
    then show ?thesis using p items(1) fresh by (simp add: ep_ok_def at' new_endpoint_def holders_def)
  next
    case False
    then have k: "k < c_num w" using that num by simp
    have "tick (c_net ?w) = t" by (simp add: with_endpoint_def n(2))
    then show ?thesis
      using eps [OF k] n(1) old(2) [OF k] by (auto simp: ep_ok_def at [OF k] holders_def idle_def)
  qed
  moreover have "in_blocks ?w"
    unfolding in_blocks_def
  proof (intro allI impI ballI)
    fix k a
    assume k: "k < c_num ?w" and a: "a \<in> idle ?w k"
    have bs: "blocks (c_net ?w) = bs" by (simp add: with_endpoint_def n(2))
    show "\<exists>b \<in> set (blocks (c_net ?w)). b \<le> a \<and> a < b + block_room"
    proof (cases "k = c_num w")
      case True
      then show ?thesis using a items(3) db(1) idle' bs by auto
    next
      case False
      then have "k < c_num w" using k num by simp
      then show ?thesis using a blk db(2) idle bs unfolding in_blocks_def by blast
    qed
  qed
  moreover have "listens l ?w" using B by (simp add: booted_def listens_def with_endpoint_def n(2))
  moreover have "pools_full ?w"
    using B p(2) items(2) room by (auto simp: booted_def pools_full_def with_endpoint_def nth_list_update new_endpoint_def less_Suc_eq)
  moreover have "c_num ?w \<le> length (c_eps ?w)" using room by (simp add: with_endpoint_def)
  ultimately show ?thesis by (simp add: booted_def)
qed

section \<open>All endpoints\<close>

lemma endpoint_booted:
  assumes E: "lowest_free E" and B: "booted N l w" and key: "key_endpoint key = Some (ip, pt)"
    and room: "c_num w < length (c_eps w)" and mem: "memory_for (Suc j) (c_net w)"
    and fds: "used N (open_fds (c_net w)) + 512 \<le> nat N"
  obtains p n where "on_etcd_service_endpoint E (Some key) v w = Some (with_endpoint ip pt p n w)"
    "booted N l (with_endpoint ip pt p n w)" "memory_for j n" "used N (open_fds n) = used N (open_fds (c_net w)) + 512"
proof -
  obtain p n f a pb db rest where p: "PoolInit NUM_CONN_PER_PROVIDER NUM_CONN_PER_PROVIDER sizeof_connection_apa None
       (Some (init_connection_apa E)) (int (c_num w)) (Some cleanup_connection_apa) None (c_net w) = Some (Some p, n)"
    "fixed_pool p" "pool_used p = 0" "pool_items p = initial_items db 512 24"
    "pending (c_net w) = a # pb # db # rest" "0 < db"
    "connected N (c_num w) (pool_items p) f ((c_net w)\<lparr>pending := rest, blocks := db # pb # a # blocks (c_net w)\<rparr>) n"
    by (rule endpoint_pool [OF E fds memory_three_blocks [OF mem]])
  let ?n = "(c_net w)\<lparr>pending := rest, blocks := db # pb # a # blocks (c_net w)\<rparr>"
  have taken: "memory_for j ?n" "db \<notin> set (blocks (c_net w))" by (rule memory_taken [OF mem p(5)])+
  have "block_room \<le> \<bar>db - b\<bar>" if "b \<in> set (blocks (c_net w))" for b
  proof -
    have "db \<in> set (pending (c_net w)) \<union> set (blocks (c_net w))" "b \<in> set (pending (c_net w)) \<union> set (blocks (c_net w))" "db \<noteq> b"
      using that taken(2) p(5) by auto
    then show ?thesis using mem unfolding memory_for_def by blast
  qed
  moreover have "db \<le> x \<and> x < db + block_room" if "x \<in> set (pool_items p)" for x
    using initial_items_range [of x db 512 24] that unfolding p(4) block_room_def by simp
  moreover have "distinct (pool_items p)" unfolding p(4) by (rule initial_items_distinct) simp
  moreover have "length (pool_items p) = 512" by (simp add: p(4) initial_items_def)
  ultimately have "booted N l (with_endpoint ip pt p n w)"
    using p(7) by (intro endpoint_added [OF B room p(2,3), of db "db # pb # a # blocks (c_net w)"]) auto
  moreover have "pending n = pending ?n" "blocks n = blocks ?n" "bad_free n = bad_free ?n"
    using p(7) unfolding connected_def by auto
  then have "memory_for j n" using taken(1) by (simp add: memory_for_def good_alloc_def)
  moreover have "used N (open_fds n) = used N (open_fds (c_net w)) + 512"
    using p(7) unfolding connected_def by (simp add: p(4))
  moreover have "on_etcd_service_endpoint E (Some key) v w = Some (with_endpoint ip pt p n w)"
    using key room p(1) by (simp add: on_etcd_service_endpoint_def ep_at_def with_endpoint_def new_endpoint_filled)
  ultimately show thesis by (intro that)
qed

abbreviation service_entries :: "(string \<times> int) list \<Rightarrow> (string \<times> string) list" where
  "service_entries as \<equiv> map (\<lambda>a. (service_key (fst a) (snd a), [])) as"

definition addresses_ok :: "(string \<times> int) list \<Rightarrow> bool" where
  "addresses_ok as \<longleftrightarrow> (\<forall>(ip, pt) \<in> set as. dotted ip \<and> 0 \<le> pt)"

lemma endpoints_booted:
  assumes "lowest_free E" "addresses_ok as" "booted N l w" "c_num w + length as \<le> length (c_eps w)"
    and "memory_for (length as + j) (c_net w)" "used N (open_fds (c_net w)) + 512 * length as \<le> nat N"
  shows "\<exists>w'. call_entries (on_etcd_service_endpoint E) (service_entries as) w = Some w' \<and> booted N l w' \<and>
    memory_for j (c_net w') \<and> c_num w' = c_num w + length as \<and> c_pool w' = c_pool w \<and>
    (\<forall>i < c_num w. c_eps w' ! i = c_eps w ! i) \<and>
    (\<forall>i < length as. ep_ip (c_eps w' ! (c_num w + i)) = fst (as ! i) \<and> ep_port (c_eps w' ! (c_num w + i)) = snd (as ! i))"
  using assms(2-6)
proof (induction as arbitrary: w)
  case (Cons a as)
  have a: "key_endpoint (service_key (fst a) (snd a)) = Some (fst a, snd a)"
    using Cons.prems(1) by (intro key_endpoint_service_key) (auto simp: addresses_ok_def)
  have room: "c_num w < length (c_eps w)" and mem: "memory_for (Suc (length as + j)) (c_net w)"
    and fds: "used N (open_fds (c_net w)) + 512 \<le> nat N" using Cons.prems by simp_all
  obtain p n where p: "on_etcd_service_endpoint E (Some (service_key (fst a) (snd a))) (Some []) w = Some (with_endpoint (fst a) (snd a) p n w)"
    "booted N l (with_endpoint (fst a) (snd a) p n w)" "memory_for (length as + j) n"
    "used N (open_fds n) = used N (open_fds (c_net w)) + 512"
    by (rule endpoint_booted [OF assms(1) Cons.prems(2) a room mem fds])
  let ?w = "with_endpoint (fst a) (snd a) p n w"
  have w: "c_num ?w = Suc (c_num w)" "length (c_eps ?w) = length (c_eps w)" "c_net ?w = n" "c_pool ?w = c_pool w"
    "c_eps ?w ! c_num w = new_endpoint (fst a) (snd a) p" "\<And>i. i < c_num w \<Longrightarrow> c_eps ?w ! i = c_eps w ! i"
    using room by (simp_all add: with_endpoint_def)
  have "addresses_ok as" using Cons.prems(1) by (simp add: addresses_ok_def)
  then obtain w' where w': "call_entries (on_etcd_service_endpoint E) (service_entries as) ?w = Some w'" "booted N l w'"
    "memory_for j (c_net w')" "c_num w' = Suc (c_num w) + length as" "c_pool w' = c_pool w"
    "\<forall>i < Suc (c_num w). c_eps w' ! i = c_eps ?w ! i"
    "\<forall>i < length as. ep_ip (c_eps w' ! (Suc (c_num w) + i)) = fst (as ! i) \<and> ep_port (c_eps w' ! (Suc (c_num w) + i)) = snd (as ! i)"
    using Cons.IH [OF _ p(2)] Cons.prems p(3,4) unfolding w by auto
  have "ep_ip (c_eps w' ! (c_num w + i)) = fst ((a # as) ! i) \<and> ep_port (c_eps w' ! (c_num w + i)) = snd ((a # as) ! i)"
    if "i < length (a # as)" for i
    using that w'(6,7) w(5) by (cases i) (auto simp: new_endpoint_def)
  moreover have "\<forall>i < c_num w. c_eps w' ! i = c_eps w ! i" using w'(6) w(6) by simp
  ultimately show ?case using p(1) w'(1-5) by (intro exI [of _ w']) simp
qed (simp add: assms)

section \<open>The pool of consumer connections\<close>

lemma memset_all: "fold (\<lambda>k w. snd (PoolMemset e (g k) i w)) ks n = n\<lparr>zeroed := rev (map (\<lambda>k. (g k, unat e)) ks) @ zeroed n\<rparr>"
  by (induction ks arbitrary: n) (simp_all add: PoolMemset_def c_memset0_def)

lemma consumer_pool:
  fixes n :: "'a libc_scheme"
  assumes blk: "three_blocks n"
  obtains p n' z pe bl where
    "PoolInit NUM_CONN_FOR_CONSUMER NUM_CONN_FOR_CONSUMER sizeof_connection_ca None None NULL None None n = Some (Some p, n')"
    "fixed_pool p" "pool_used p = 0" "distinct (pool_items p)" "length (pool_items p) = 1024"
    "n' = n\<lparr>pending := pe, blocks := bl, zeroed := z\<rparr>"
proof -
  let ?q = "\<lambda>a. new_Pool a NUM_CONN_FOR_CONSUMER NUM_CONN_FOR_CONSUMER sizeof_connection_ca None None NULL None None
    :: ('a libc_scheme) Pool"
  have args: "pool_args_ok NUM_CONN_FOR_CONSUMER NUM_CONN_FOR_CONSUMER sizeof_connection_ca"
    by (simp add: pool_args_ok_def NUM_CONN_FOR_CONSUMER_def sizeof_connection_ca_def)
  have "init_succeeds (?q a)" for a by (simp add: init_succeeds_def new_Pool_def PoolMemset_def)
  then obtain p n' a pb db rest where p: "PoolInit NUM_CONN_FOR_CONSUMER NUM_CONN_FOR_CONSUMER sizeof_connection_ca None None NULL None None n =
      Some (Some p, n')"
    "built (?q a) db p"
    "prealloc_loop (unat NUM_CONN_FOR_CONSUMER) 0
       ((fill_empty (unat NUM_CONN_FOR_CONSUMER) pb ((?q a)\<lparr>pb_buffer := pb\<rparr>))\<lparr>data_buffer := db\<rparr>)
       (n\<lparr>pending := rest, blocks := db # pb # a # blocks n\<rparr>) = (True, p, n')"
    using PoolInit_builds [OF args blk] by metis
  have fixed: "fixed_pool p" "pool_used p = 0" "pool_items p = initial_items db 1024 2352"
    using p(2) by (auto simp: built_def new_Pool_def fixed_pool_def pool_inv_def Let_def NUM_CONN_FOR_CONSUMER_def sizeof_connection_ca_def)
  define p2 where "p2 = (fill_empty (unat NUM_CONN_FOR_CONSUMER) pb ((?q a)\<lparr>pb_buffer := pb\<rparr>))\<lparr>data_buffer := db\<rparr>"
  have p2: "Init p2 = PoolMemset sizeof_connection_ca" "max_buckets p2 \<noteq> 0"
    using fill_empty_fields [of "unat NUM_CONN_FOR_CONSUMER" pb "(?q a)\<lparr>pb_buffer := pb\<rparr>"]
    by (simp_all add: p2_def new_Pool_def NUM_CONN_FOR_CONSUMER_def)
  have "distinct (pool_items p)" unfolding fixed(3) by (rule initial_items_distinct) simp
  moreover have "\<exists>z. n' = (n\<lparr>pending := rest, blocks := db # pb # a # blocks n\<rparr>)\<lparr>zeroed := z\<rparr>"
    using prealloc_loop_world [OF p2(2) p(3) [folded p2_def]] unfolding p2(1) memset_all by blast
  moreover have "length (pool_items p) = 1024" by (simp add: fixed(3) initial_items_def)
  ultimately show thesis using that p(1) fixed by (auto)
qed

section \<open>The start\<close>

text \<open>The answer of the registry when exactly the given addresses are registered.\<close>

definition registered_at :: "('j, 'w) etcd_lib \<Rightarrow> (string \<times> int) list \<Rightarrow> bool" where
  "registered_at X as \<longleftrightarrow> (\<forall>w. \<exists>mem root node ts i.
     performRequest X (key_url X service_dir @ ''?recursive=true'') GET None (malloc_reply X) w = (True, mem, w) \<and>
     load_reply X mem = Some (Some root) \<and> json_object_get X root ''node'' = Some node \<and>
     shows_node X (Branch ts i) node \<and> entries_of (Branch ts i) = service_entries as \<and>
     fold (\<lambda>t m. newest m t) ts 0 > 0)"

lemma registered_calls:
  assumes "registered_at X as" "call_entries cb (service_entries as) w = Some w'"
  obtains m where "etcd_get_directory X service_dir cb k w = Some (0, m, w')"
proof -
  obtain mem root node ts i where X: "performRequest X (key_url X service_dir @ ''?recursive=true'') GET None (malloc_reply X) w = (True, mem, w)"
    "load_reply X mem = Some (Some root)" "json_object_get X root ''node'' = Some node"
    "shows_node X (Branch ts i) node" "entries_of (Branch ts i) = service_entries as" "fold (\<lambda>t m. newest m t) ts 0 > 0"
    using assms(1) unfolding registered_at_def by blast
  show thesis using that directory_calls [OF X(1-4), of cb k] assms(2) X(5,6) by simp
qed

lemma loop_created:
  assumes l: "0 \<le> l" "l < EV_MAX_SET_SIZE" "open_fds (c_net w) l" and faults: "watch_faults (c_net w) = []" and num: "c_num w = 0"
  obtains el i where "monitor_accepts l w = Some (Running (w\<lparr>c_loop := el, c_net := (c_net w)\<lparr>interest := i\<rparr>\<rparr>))"
    "booted EV_MAX_SET_SIZE l (w\<lparr>c_loop := el, c_net := (c_net w)\<lparr>interest := i\<rparr>\<rparr>)"
proof -
  define k0 where "k0 = (c_net w)\<lparr>interest := (\<lambda>_. None)\<rparr>"
  define el0 :: "cproc aeEventLoop" where
    "el0 = \<lparr>maxfd = - 1, setsize = EV_MAX_SET_SIZE, events = (\<lambda>_. no_event), stop = False\<rparr>"
  have new: "aeCreateEventLoop epoll_api EV_MAX_SET_SIZE (c_net w) = (Some el0, k0)"
    using faults by (simp add: aeCreateEventLoop_def epoll_api_def epoll_aeApiCreate_def epoll_create_def next_fault_def k0_def el0_def)
  have "loop_ok epoll_tracks el0 k0"
    by (simp add: loop_ok_def maxfd_ok_def procs_ok_def epoll_tracks_def el0_def k0_def no_event_def AE_NONE_def)
  moreover have "watch_faults k0 = []" "open_fds k0 l" "l < setsize el0" "AE_READABLE \<noteq> AE_NONE"
    using faults l by (simp_all add: k0_def el0_def ae_masks)
  ultimately obtain el i where el: "aeCreateFileEvent epoll_api l AE_READABLE Accept_tcp_handler NULL el0 k0 = Some (AE_OK, el, k0\<lparr>interest := i\<rparr>)"
    "loop_ok epoll_tracks el (k0\<lparr>interest := i\<rparr>)" "setsize el = EV_MAX_SET_SIZE" "\<forall>g. g \<noteq> l \<longrightarrow> i g = None"
    "events el = (\<lambda>_. no_event)(l := registered AE_READABLE Accept_tcp_handler NULL no_event)"
    using create_event [of el0 k0 l AE_READABLE Accept_tcp_handler NULL] l(1) by (auto simp: el0_def k0_def)
  let ?w = "w\<lparr>c_loop := el, c_net := (c_net w)\<lparr>interest := i\<rparr>\<rparr>"
  have "monitor_accepts l w = Some (Running ?w)"
    using el(1) new by (simp add: monitor_accepts_def c_watch_def k0_def)
  moreover have role: "has_role l {} {} ?w r fd \<longleftrightarrow> r = Listen \<and> fd = l" for r fd using num by (cases r) auto
  have "roles_ok EV_MAX_SET_SIZE l {} {} ?w" unfolding roles_ok_def role using l by simp
  moreover have "table_inv EV_MAX_SET_SIZE l {} {} ?w"
    unfolding table_inv_def role using el(2-5) l faults
    by (auto simp: k0_def registered_def no_event_def ae_masks mask_bits bit_1_iff)
  moreover have "epoll_tracks (k0\<lparr>interest := i\<rparr>) l AE_READABLE"
    using el(2,3,5) l by (auto simp: loop_ok_def registered_def no_event_def ae_masks)
  then have "listens l ?w"
    by (simp add: listens_def el(5) epoll_tracks_def epoll_events_def ae_masks Let_def)
  ultimately show thesis
    using that num by (simp add: booted_def in_blocks_def pools_full_def)
qed

lemma consumer_boot:
  assumes E: "lowest_free E" and as: "addresses_ok as" "as \<noteq> []" "length as \<le> MAX_ENDPOINTS" and X: "registered_at X as"
    and w: "c_num w = 0" "length (c_eps w) = MAX_ENDPOINTS" "memory_for (length as + 1) (c_net w)" "watch_faults (c_net w) = []"
    and l: "0 \<le> l" "l < EV_MAX_SET_SIZE" "open_fds (c_net w) l"
    and fds: "used EV_MAX_SET_SIZE (open_fds (c_net w)) + 512 * length as \<le> nat EV_MAX_SET_SIZE"
  shows "\<exists>w'. consumer_start X E l w = Some (Running w') \<and> cons_inv EV_MAX_SET_SIZE l {} w' \<and> c_num w' = length as \<and>
    (\<forall>i < length as. ep_ip (c_eps w' ! i) = fst (as ! i) \<and> ep_port (c_eps w' ! i) = snd (as ! i)) \<and>
    listens l w' \<and> pools_full w' \<and> (\<exists>p. c_pool w' = Some p \<and> distinct (pool_items p) \<and> length (pool_items p) = 1024 \<and> pool_used p = 0)"
proof -
  obtain el i where start: "monitor_accepts l w = Some (Running (w\<lparr>c_loop := el, c_net := (c_net w)\<lparr>interest := i\<rparr>\<rparr>))"
    and B: "booted EV_MAX_SET_SIZE l (w\<lparr>c_loop := el, c_net := (c_net w)\<lparr>interest := i\<rparr>\<rparr>)"
    by (rule loop_created [OF l w(4,1)])
  define w1 where "w1 = w\<lparr>c_loop := el, c_net := (c_net w)\<lparr>interest := i\<rparr>\<rparr>"
  have w1: "c_num w1 + length as \<le> length (c_eps w1)" "memory_for (length as + 1) (c_net w1)"
    "used EV_MAX_SET_SIZE (open_fds (c_net w1)) + 512 * length as \<le> nat EV_MAX_SET_SIZE" "c_num w1 = 0"
    using w as(3) fds by (simp_all add: w1_def memory_for_def good_alloc_def)
  obtain w2 where w2: "call_entries (on_etcd_service_endpoint E) (service_entries as) w1 = Some w2" "booted EV_MAX_SET_SIZE l w2"
    "memory_for 1 (c_net w2)" "c_num w2 = length as"
    "\<forall>i < length as. ep_ip (c_eps w2 ! i) = fst (as ! i) \<and> ep_port (c_eps w2 ! i) = snd (as ! i)"
    using endpoints_booted [OF E as(1) B [folded w1_def] w1(1-3)] w1(4) by auto
  obtain m where dir: "etcd_get_directory X service_dir (on_etcd_service_endpoint E) 0 w1 = Some (0, m, w2)"
    by (rule registered_calls [OF X w2(1)])
  have "three_blocks (c_net w2)" using w2(3) memory_three_blocks [of 0 "c_net w2"] by simp
  then obtain p n z pe bl where p: "PoolInit NUM_CONN_FOR_CONSUMER NUM_CONN_FOR_CONSUMER sizeof_connection_ca None None NULL None None (c_net w2) =
      Some (Some p, n)" "fixed_pool p" "pool_used p = 0" "distinct (pool_items p)" "length (pool_items p) = 1024"
    "n = (c_net w2)\<lparr>pending := pe, blocks := bl, zeroed := z\<rparr>"
    by (rule consumer_pool)
  define w3 where "w3 = w2\<lparr>c_pool := Some p, c_net := n\<rparr>"
  have "consumer_start X E l w = Some (Running w3)"
    using start [folded w1_def] dir p(1) by (simp add: consumer_start_def consumer_init_def discover_etcd_services_def w3_def)
  moreover have "cons_inv EV_MAX_SET_SIZE l {} w3"
  proof -
    have core: "core EV_MAX_SET_SIZE l {} {} w2" using booted_core [OF w2(2)] w2(4) as(2) by simp
    then have eps: "eps_ok {} w2" by (simp add: core_def)
    have "eps_ok {} w3" by (rule eps_ok_same [of w3 w2]) (use eps in \<open>simp_all add: w3_def p(6) ep_ok_def\<close>)
    then have "core EV_MAX_SET_SIZE l {} {} w3"
      by (intro core_same [OF core]) (simp_all add: w3_def p(6) same_roles_def idle_def)
    moreover have "pool_part {} w3" using p(2-4) by (simp add: pool_part_def w3_def)
    ultimately show ?thesis by (simp add: cons_inv_def)
  qed
  moreover have "listens l w3" "pools_full w3"
    using w2(2) by (simp_all add: booted_def listens_def pools_full_def w3_def p(6))
  ultimately show ?thesis using w2(4,5) p(3-5) by (intro exI [of _ w3]) (simp add: w3_def)
qed

text \<open>What full pools mean for the connections in them.\<close>

lemma idle_pool:
  assumes inv: "cons_inv N l {} w" and full: "pools_full w" and i: "i < c_num w"
  shows "(\<exists>p. conn_pool (c_eps w ! i) = Some p \<and> pool_used p = 0) \<and> card (idle w i) = 512 \<and>
    (\<forall>a \<in> idle w i. epa w a = Some i \<and> 0 \<le> fda w a \<and> open_fds (c_net w) (fda w a) \<and>
       (\<forall>j < c_num w. \<forall>b \<in> idle w j. a \<noteq> b \<longrightarrow> fda w a \<noteq> fda w b))"
proof -
  obtain p where p: "conn_pool (c_eps w ! i) = Some p" "pool_used p = 0" "length (pool_items p) = 512"
    using full i by (auto simp: pools_full_def)
  have roles: "roles_ok N l {} {} w" and ep: "ep_ok {} w i"
    using inv i by (simp_all add: cons_inv_def core_def eps_ok_def)
  then have "distinct (pool_items p)" "\<forall>a \<in> idle w i. epa w a = Some i"
    using p(1) by (auto simp: ep_ok_def idle_def)
  then have "card (idle w i) = 512" using p(1,3) distinct_card [of "pool_items p"] by (simp add: idle_def)
  moreover have "0 \<le> fda w a" "open_fds (c_net w) (fda w a)" "\<forall>j < c_num w. \<forall>b \<in> idle w j. a \<noteq> b \<longrightarrow> fda w a \<noteq> fda w b"
    if "a \<in> idle w i" for a
  proof -
    have a: "has_role l {} {} w (Idle a) (fda w a)" using that i by auto
    then show "0 \<le> fda w a" "open_fds (c_net w) (fda w a)" using roles unfolding roles_ok_def by blast+
    show "\<forall>j < c_num w. \<forall>b \<in> idle w j. a \<noteq> b \<longrightarrow> fda w a \<noteq> fda w b"
    proof (intro allI impI ballI notI)
      fix j b
      assume b: "j < c_num w" "b \<in> idle w j" "a \<noteq> b" "fda w a = fda w b"
      then have "has_role l {} {} w (Idle b) (fda w a)" by auto
      then have "Idle a = Idle b" using a roles unfolding roles_ok_def by blast
      then show False using b(3) by simp
    qed
  qed
  ultimately show ?thesis using p(1,2) \<open>\<forall>a \<in> idle w i. epa w a = Some i\<close> by blast
qed

section \<open>Properties\<close>

text \<open>
  C6: A consumer agent that starts while one to three providers are registered comes up: it watches
  its listening socket for connections, in the table of events with the handler that accepts them and in
  the kernel; it has one endpoint for every registered address, in order; each endpoint has its own 512
  connections, all connected on open descriptors, none of them in use, and no two with one descriptor;
  1024 objects for consumers are free; and it is in the invariant. From there, in an orderly environment,
  it runs without a crash however many rounds of the event loop follow.
\<close>

theorem consumer_starts_and_runs:
  assumes "lowest_free E" "orderly E" "addresses_ok as" "as \<noteq> []" "length as \<le> MAX_ENDPOINTS" "registered_at X as"
    and "c_num w = 0" "length (c_eps w) = MAX_ENDPOINTS" "memory_for (length as + 1) (c_net w)" "watch_faults (c_net w) = []"
    and "0 \<le> l" "l < EV_MAX_SET_SIZE" "open_fds (c_net w) l"
    and "used EV_MAX_SET_SIZE (open_fds (c_net w)) + 512 * length as \<le> nat EV_MAX_SET_SIZE"
  shows "\<exists>w'. consumer_start X E l w = Some (Running w') \<and> cons_inv EV_MAX_SET_SIZE l {} w' \<and>
    fe_mask (entry w' l) = AE_READABLE \<and> rfileProc (entry w' l) = Some Accept_tcp_handler \<and> interest (c_net w') l = Some EPOLLIN \<and>
    c_num w' = length as \<and>
    (\<forall>i < length as. ep_ip (c_eps w' ! i) = fst (as ! i) \<and> ep_port (c_eps w' ! i) = snd (as ! i) \<and>
       (\<exists>p. conn_pool (c_eps w' ! i) = Some p \<and> pool_used p = 0) \<and> card (idle w' i) = 512 \<and>
       (\<forall>a \<in> idle w' i. epa w' a = Some i \<and> 0 \<le> fda w' a \<and> open_fds (c_net w') (fda w' a) \<and>
          (\<forall>j < length as. \<forall>b \<in> idle w' j. a \<noteq> b \<longrightarrow> fda w' a \<noteq> fda w' b))) \<and>
    (\<exists>p. c_pool w' = Some p \<and> card (set (pool_items p)) = 1024 \<and> pool_used p = 0) \<and>
    (\<forall>n. \<exists>w'' H. consumer_main E n w' = Some w'' \<and> cons_inv EV_MAX_SET_SIZE l H w'')"
proof -
  obtain w' where w': "consumer_start X E l w = Some (Running w')" "cons_inv EV_MAX_SET_SIZE l {} w'" "c_num w' = length as"
    "\<forall>i < length as. ep_ip (c_eps w' ! i) = fst (as ! i) \<and> ep_port (c_eps w' ! i) = snd (as ! i)" "listens l w'" "pools_full w'"
    "\<exists>p. c_pool w' = Some p \<and> distinct (pool_items p) \<and> length (pool_items p) = 1024 \<and> pool_used p = 0"
    using consumer_boot [OF assms(1,3-14)] by blast
  have "fe_mask (entry w' l) = AE_READABLE \<and> rfileProc (entry w' l) = Some Accept_tcp_handler \<and> interest (c_net w') l = Some EPOLLIN"
    using w'(5) by (simp add: listens_def registered_def no_event_def ae_masks)
  moreover have "(\<exists>p. conn_pool (c_eps w' ! i) = Some p \<and> pool_used p = 0) \<and> card (idle w' i) = 512 \<and>
       (\<forall>a \<in> idle w' i. epa w' a = Some i \<and> 0 \<le> fda w' a \<and> open_fds (c_net w') (fda w' a) \<and>
          (\<forall>j < length as. \<forall>b \<in> idle w' j. a \<noteq> b \<longrightarrow> fda w' a \<noteq> fda w' b))" if "i < length as" for i
    using idle_pool [OF w'(2,6)] w'(3) that by simp
  moreover have "\<exists>p. c_pool w' = Some p \<and> card (set (pool_items p)) = 1024 \<and> pool_used p = 0"
    using w'(7) distinct_card by metis
  ultimately show ?thesis using w'(1-4) consumer_main_inv [OF assms(2) w'(2)] by (intro exI [of _ w']) blast
qed

text \<open>Two providers, an allocator with room, and the three standard descriptors and the listening socket open.\<close>

definition boot_env :: "cnet env" where
  "boot_env = \<lparr>env_read = (\<lambda>fd k n. RdAgain), env_write = (\<lambda>fd out n. WrSome (length out)), env_accept = (\<lambda>n. None),
     env_connect = (\<lambda>n. (1, int (LEAST k. \<not> open_fds n (int k)))), env_time = (\<lambda>n. int (tick n))\<rparr>"

lemma boot_env_ok: "lowest_free boot_env" "orderly boot_env"
proof -
  have least: "int (LEAST k. \<not> open_fds n (int k)) \<le> fd \<and> \<not> open_fds n (int (LEAST k. \<not> open_fds n (int k)))"
    if "0 \<le> fd" "\<not> open_fds n fd" for n :: cnet and fd
  proof -
    have "\<not> open_fds n (int (nat fd))" using that by simp
    then have "(LEAST k. \<not> open_fds n (int k)) \<le> nat fd" "\<not> open_fds n (int (LEAST k. \<not> open_fds n (int k)))"
      by (rule Least_le, rule LeastI)
    then show ?thesis using that(1) by simp
  qed
  have env: "snd (env_connect boot_env n) = int (LEAST k. \<not> open_fds n (int k))" for n by (simp add: boot_env_def)
  show "lowest_free boot_env"
    unfolding lowest_free_def env
  proof (intro allI impI)
    fix n :: cnet and fd :: fd
    assume "0 \<le> fd \<and> \<not> open_fds n fd"
    then show "0 \<le> int (LEAST k. \<not> open_fds n (int k)) \<and> int (LEAST k. \<not> open_fds n (int k)) \<le> fd \<and>
        \<not> open_fds n (int (LEAST k. \<not> open_fds n (int k)))"
      using least [of fd n] by simp
  qed
  show "orderly boot_env" by (simp add: orderly_def boot_env_def)
qed

definition boot_net :: cnet where
  "boot_net = \<lparr>pending = map (\<lambda>k. int k * block_room) [1..<10], blocks = [], bad_free = False, zeroed = [],
     open_fds = (\<lambda>fd. 0 \<le> fd \<and> fd < 4), interest = (\<lambda>_. None), watch_faults = [], ready = [], sent = (\<lambda>_. []), tick = 0,
     cas = (\<lambda>_. zero_ca), apas = (\<lambda>_. zero_apa)\<rparr>"

definition boot_state :: consumer where
  "boot_state = \<lparr>c_loop = \<lparr>maxfd = - 1, setsize = 0, events = (\<lambda>_. no_event), stop = False\<rparr>, c_net = boot_net,
     c_pool = None, c_eps = replicate MAX_ENDPOINTS zero_endpoint, c_num = 0\<rparr>"

lemma boot_memory: "memory_for 3 boot_net"
proof -
  have pos: "0 < block_room" by (simp add: block_room_def)
  have "block_room \<le> \<bar>int i * block_room - int j * block_room\<bar>" if "i \<noteq> j" for i j
  proof -
    have "int i * block_room - int j * block_room = (int i - int j) * block_room" by (simp only: left_diff_distrib)
    then have "\<bar>int i * block_room - int j * block_room\<bar> = \<bar>int i - int j\<bar> * block_room"
      using pos by (simp only: abs_mult abs_of_pos)
    moreover have "1 \<le> \<bar>int i - int j\<bar>" using that by linarith
    ultimately show ?thesis using mult_right_mono [of 1 "\<bar>int i - int j\<bar>" block_room] pos by simp
  qed
  moreover have "pending boot_net = map (\<lambda>k. int k * block_room) [1..<10]" "blocks boot_net = []"
    by (simp_all add: boot_net_def)
  moreover have "distinct (map (\<lambda>k. int k * block_room) [1..<10])"
    using pos by (simp add: distinct_map inj_on_def)
  moreover have "0 < int k * block_room" if "k \<in> set [1..<10]" for k using that pos by simp
  ultimately have "good_alloc boot_net" "NULL \<notin> set (pending boot_net)"
    "\<forall>a \<in> set (pending boot_net). \<forall>b \<in> set (pending boot_net). a \<noteq> b \<longrightarrow> block_room \<le> \<bar>a - b\<bar>"
    by (fastforce simp: good_alloc_def)+
  moreover have "length (pending boot_net) = 9" "blocks boot_net = []" by (simp_all add: boot_net_def)
  ultimately show ?thesis by (simp add: memory_for_def)
qed

lemma registry_registered:
  fixes X :: "(json, 'w) etcd_lib"
  assumes X: "X = registry as" and as: "as \<noteq> []"
  shows "registered_at X as"
proof -
  obtain node where node: "json_object_get X (directory_json as) ''node'' = Some node"
    "shows_node X (Branch (map entry_tree as) 5) node"
    by (rule registry_shows [OF X])
  have replies: "\<exists>mem. performRequest X url req d (malloc_reply X) w = (True, mem, w) \<and> load_reply X mem = Some (Some (directory_json as))"
    for url req d w
    unfolding X by (intro exI conjI, rule registry_replies(1), rule registry_replies(2))
  have "entries_of (Branch (map entry_tree as) 5) = service_entries as"
    by (induction as) (simp_all add: entry_tree_def)
  moreover have "fold (\<lambda>t m. newest m t) (map entry_tree as) m = (if as = [] then m else max m 7)" for m
    by (induction as arbitrary: m) (simp_all add: entry_tree_def)
  then have "fold (\<lambda>t m. newest m t) (map entry_tree as) 0 > 0" using as by simp
  ultimately show ?thesis
    using replies node unfolding registered_at_def by blast
qed

lemma consumer_starts_and_runs_witness:
  "\<exists>w'. consumer_start (registry [(''10.0.0.1'', 30000), (''10.0.0.2'', 30001)]) boot_env 3 boot_state = Some (Running w') \<and>
     c_num w' = 2 \<and> interest (c_net w') 3 = Some EPOLLIN \<and> ep_ip (c_eps w' ! 1) = ''10.0.0.2'' \<and> card (idle w' 1) = 512 \<and>
     (\<exists>w'' H. consumer_main boot_env 5 w' = Some w'' \<and> cons_inv 2048 3 H w'')"
proof -
  let ?as = "[(''10.0.0.1'', 30000), (''10.0.0.2'', 30001)] :: (string \<times> int) list"
  have "{fd. 0 \<le> fd \<and> fd < EV_MAX_SET_SIZE \<and> open_fds boot_net fd} = {0..<4}" by (auto simp: boot_net_def EV_MAX_SET_SIZE_def)
  then have fds: "used EV_MAX_SET_SIZE (open_fds boot_net) + 512 * length ?as \<le> nat EV_MAX_SET_SIZE"
    by (simp add: used_def EV_MAX_SET_SIZE_def)
  have "addresses_ok ?as" by (simp add: addresses_ok_def dotted_def is_digit_def)
  moreover have "registered_at (registry ?as :: (json, consumer) etcd_lib) ?as" by (rule registry_registered [OF refl]) simp
  moreover have "memory_for (length ?as + 1) (c_net boot_state)" using boot_memory by (simp add: boot_state_def numeral_3_eq_3)
  moreover have "length ?as \<le> MAX_ENDPOINTS" "length (c_eps boot_state) = MAX_ENDPOINTS" "c_num boot_state = 0" "c_net boot_state = boot_net"
    by (simp_all add: boot_state_def MAX_ENDPOINTS_def)
  moreover have "watch_faults boot_net = []" "open_fds boot_net 3" "(3 :: int) < EV_MAX_SET_SIZE"
    by (simp_all add: boot_net_def EV_MAX_SET_SIZE_def)
  ultimately obtain w' where "consumer_start (registry ?as) boot_env 3 boot_state = Some (Running w')" "c_num w' = length ?as"
    "interest (c_net w') 3 = Some EPOLLIN"
    "\<forall>i < length ?as. ep_ip (c_eps w' ! i) = fst (?as ! i) \<and> card (idle w' i) = 512"
    "\<forall>n. \<exists>w'' H. consumer_main boot_env n w' = Some w'' \<and> cons_inv EV_MAX_SET_SIZE 3 H w''"
    using consumer_starts_and_runs [OF boot_env_ok, of ?as "registry ?as" boot_state 3] fds by auto
  then show ?thesis unfolding EV_MAX_SET_SIZE_def by auto
qed

text \<open>
  C39: A registry that cannot be reached goes unnoticed at the start: the transfer fails, the lookup
  still reports success, and the agent comes up with no endpoint. It crashes on the first request,
  because the pool of the first endpoint is NULL.
\<close>

theorem unreachable_registry_crashes_later:
  assumes "\<forall>w. \<exists>mem. performRequest X (key_url X service_dir @ ''?recursive=true'') GET None (malloc_reply X) w = (False, mem, w)"
    and "c_num w = 0" "c_eps w = replicate MAX_ENDPOINTS zero_endpoint" "memory_for 1 (c_net w)" "watch_faults (c_net w) = []"
    and "0 \<le> l" "l < EV_MAX_SET_SIZE" "open_fds (c_net w) l"
  shows "\<exists>w'. consumer_start X E l w = Some (Running w') \<and> c_num w' = 0 \<and>
    (\<forall>E1 w1 ca s w2. c_eps w1 = c_eps w' \<and> c_num w1 = c_num w' \<and> ca \<noteq> NULL \<and> 0 \<le> fdc w1 ca \<and> conn w1 ca = NULL \<and>
       c_sys (sys_read E1 (fdc w1 ca) (nat (int CONSUMER_HTTP_REQ_BUF_SIZE - nread_in (cas (c_net w1) ca)))) w1 = (RdData s, w2) \<longrightarrow>
       read_from_consumer E1 (fdc w1 ca) ca w1 = None)"
proof -
  obtain el i where start: "monitor_accepts l w = Some (Running (w\<lparr>c_loop := el, c_net := (c_net w)\<lparr>interest := i\<rparr>\<rparr>))"
    by (rule loop_created [OF assms(6-8,5,2)])
  define w1 where "w1 = w\<lparr>c_loop := el, c_net := (c_net w)\<lparr>interest := i\<rparr>\<rparr>"
  have w1: "memory_for 1 (c_net w1)" "c_num w1 = 0" "c_eps w1 = replicate MAX_ENDPOINTS zero_endpoint"
    using assms(2-4) by (simp_all add: w1_def memory_for_def good_alloc_def)
  obtain mem where "performRequest X (key_url X service_dir @ ''?recursive=true'') GET None (malloc_reply X) w1 = (False, mem, w1)"
    using assms(1) by blast
  then have dir: "etcd_get_directory X service_dir (on_etcd_service_endpoint E) 0 w1 = Some (0, 0, w1)"
    by (simp add: etcd_get_directory_def)
  have "three_blocks (c_net w1)" using w1(1) memory_three_blocks [of 0 "c_net w1"] by simp
  then obtain p n z pe bl where p: "PoolInit NUM_CONN_FOR_CONSUMER NUM_CONN_FOR_CONSUMER sizeof_connection_ca None None NULL None None (c_net w1) =
      Some (Some p, n)"
    by (rule consumer_pool)
  define w' where "w' = w1\<lparr>c_pool := Some p, c_net := n\<rparr>"
  have run: "consumer_start X E l w = Some (Running w')"
    using start [folded w1_def] dir p by (simp add: consumer_start_def consumer_init_def discover_etcd_services_def w'_def)
  have w': "c_num w' = 0" "c_eps w' = replicate MAX_ENDPOINTS zero_endpoint" using w1 by (simp_all add: w'_def)
  have crash: "read_from_consumer E1 (fdc v ca) ca v = None"
    if "c_eps v = c_eps w'" "ca \<noteq> NULL" "0 \<le> fdc v ca" "conn v ca = NULL"
      "c_sys (sys_read E1 (fdc v ca) (nat (int CONSUMER_HTTP_REQ_BUF_SIZE - nread_in (cas (c_net v) ca)))) v = (RdData s, v2)"
    for E1 v ca s v2
  proof -
    have eps: "c_eps v2 = replicate MAX_ENDPOINTS zero_endpoint"
      using that(1,5) w'(2) by (auto simp: c_sys_def split: prod.splits)
    have "get_endpoint_min_latency (replicate MAX_ENDPOINTS zero_endpoint :: cnet endpoint list) m = None" for m
      by (simp add: get_endpoint_min_latency_def ep_at_def MAX_ENDPOINTS_def zero_endpoint_def LOAD_BALANCE_THRESHOLD_def
          get_endpoint_least_loaded_def outstanding_of_def)
    then show ?thesis
      using that(2-5) eps by (simp add: read_from_consumer_def get_ca_def set_ca_def Let_def)
  qed
  show ?thesis using run w'(1) crash by (intro exI [of _ w']) blast
qed

definition no_registry :: "(json, 'w) etcd_lib" where
  "no_registry = (registry [])\<lparr>curl_easy_perform := (\<lambda>req url d cb mem w. (False, mem, w))\<rparr>"

lemma unreachable_registry_crashes_later_witness:
  "\<exists>w'. consumer_start no_registry boot_env 3 boot_state = Some (Running w') \<and> c_num w' = 0"
proof -
  let ?X = "no_registry :: (json, consumer) etcd_lib"
  have "\<forall>w. \<exists>mem. performRequest ?X (key_url ?X service_dir @ ''?recursive=true'') GET None (malloc_reply ?X) w = (False, mem, w)"
    by (simp add: performRequest_def no_registry_def)
  moreover have "memory_for 1 (c_net boot_state)"
    using boot_memory set_take_subset_set_take [of 3 9 "pending boot_net"]
    by (auto simp: boot_state_def memory_for_def)
  moreover have "c_eps boot_state = replicate MAX_ENDPOINTS zero_endpoint" "c_num boot_state = 0" "watch_faults (c_net boot_state) = []"
    "open_fds (c_net boot_state) 3" "(3 :: int) < EV_MAX_SET_SIZE"
    by (simp_all add: boot_state_def boot_net_def EV_MAX_SET_SIZE_def)
  ultimately show ?thesis using unreachable_registry_crashes_later [of ?X boot_state 3 boot_env] by auto
qed

end
