(* ===== verification/Zmalloc.thy ===== *)
theory Zmalloc
  imports C_Strings
begin

text \<open>
  The allocation functions that count what they give out (\<^verbatim>\<open>src/src/zmalloc.c\<close>), as they are compiled
  over the C library: without \<^verbatim>\<open>HAVE_MALLOC_SIZE\<close> every block has its size in a header of eight bytes
  before the pointer that is handed out. The counter is changed by the macros of \<^verbatim>\<open>atomicvar.h\<close>. A
  value None is the end of the process: out of memory, or a header that does not fit its block.
\<close>

section \<open>The allocator\<close>

text \<open>
  \<open>room\<close> is the number of bytes of a block, \<open>head\<close> its header and \<open>data_of\<close> what is behind the header.
  The allocator gives only addresses that are positive and not live; \<open>moves\<close> says whether a \<^verbatim>\<open>realloc\<close> finds a new place.
\<close>

record zmem = libc +
  used_memory :: u64
  room :: "addr \<Rightarrow> nat"
  head :: "addr \<Rightarrow> u64"
  data_of :: "addr \<Rightarrow> string"
  moves :: "bool list"

definition z_malloc :: "nat \<Rightarrow> zmem \<Rightarrow> addr \<times> zmem" where
  "z_malloc n w =
     (case pending w of
        [] \<Rightarrow> (NULL, w)
      | a # as \<Rightarrow>
          if a \<le> NULL \<or> a \<in> set (blocks w) then (NULL, w\<lparr>pending := as\<rparr>)
          else (a, w\<lparr>pending := as, blocks := a # blocks w, room := (room w)(a := n), data_of := (data_of w)(a := [])\<rparr>))"

definition z_calloc :: "nat \<Rightarrow> zmem \<Rightarrow> addr \<times> zmem" where
  "z_calloc n w =
     (let (a, w1) = z_malloc n w
      in if a = NULL then (a, w1) else (a, w1\<lparr>data_of := (data_of w1)(a := replicate (n - 8) NUL)\<rparr>))"

definition z_realloc :: "addr \<Rightarrow> nat \<Rightarrow> zmem \<Rightarrow> addr \<times> zmem" where
  "z_realloc a n w =
     (let w0 = w\<lparr>moves := drop 1 (moves w)\<rparr>; kept = take (n - 8) (data_of w a)
      in if a \<notin> set (blocks w) then (NULL, w0\<lparr>bad_free := True\<rparr>)
         else if moves w \<noteq> [] \<and> moves w ! 0 then
           let (b, w1) = z_malloc n w0
           in if b = NULL then (NULL, w1)
              else (b, c_free a (w1\<lparr>head := (head w1)(b := head w1 a), data_of := (data_of w1)(b := kept)\<rparr>))
         else (a, w0\<lparr>room := (room w0)(a := n), data_of := (data_of w0)(a := kept)\<rparr>))"

section \<open>The counter\<close>

definition PREFIX_SIZE :: u64 where "PREFIX_SIZE = 8"

definition atomicIncr :: "u64 \<Rightarrow> zmem \<Rightarrow> zmem" where
  "atomicIncr n w = w\<lparr>used_memory := used_memory w + n\<rparr>"

definition atomicDecr :: "u64 \<Rightarrow> zmem \<Rightarrow> zmem" where
  "atomicDecr n w = w\<lparr>used_memory := used_memory w - n\<rparr>"

definition atomicGet :: "zmem \<Rightarrow> u64" where
  "atomicGet w = used_memory w"

definition padded :: "u64 \<Rightarrow> u64" where
  "padded n = (if n AND 7 \<noteq> 0 then n + (8 - (n AND 7)) else n)"

text \<open>The macros compute the padded size but count the size they are given.\<close>

definition update_zmalloc_stat_alloc :: "u64 \<Rightarrow> zmem \<Rightarrow> zmem" where
  "update_zmalloc_stat_alloc n w = (let m = padded n in atomicIncr n w)"

definition update_zmalloc_stat_free :: "u64 \<Rightarrow> zmem \<Rightarrow> zmem" where
  "update_zmalloc_stat_free n w = (let m = padded n in atomicDecr n w)"

section \<open>Operations\<close>

text \<open>The header is written at the start of a block; None if it does not fit.\<close>

definition put_head :: "addr \<Rightarrow> u64 \<Rightarrow> zmem \<Rightarrow> zmem option" where
  "put_head a sz w = (if room w a < 8 then None else Some (w\<lparr>head := (head w)(a := sz)\<rparr>))"

definition zmalloc :: "u64 \<Rightarrow> zmem \<Rightarrow> (addr \<times> zmem) option" where
  "zmalloc sz w =
     (let (ptr, w1) = z_malloc (unat (sz + PREFIX_SIZE)) w
      in if ptr = NULL then None
         else map_option (\<lambda>w2. (ptr + 8, update_zmalloc_stat_alloc (sz + PREFIX_SIZE) w2)) (put_head ptr sz w1))"

definition zcalloc :: "u64 \<Rightarrow> zmem \<Rightarrow> (addr \<times> zmem) option" where
  "zcalloc sz w =
     (let (ptr, w1) = z_calloc (unat (sz + PREFIX_SIZE)) w
      in if ptr = NULL then None
         else map_option (\<lambda>w2. (ptr + 8, update_zmalloc_stat_alloc (sz + PREFIX_SIZE) w2)) (put_head ptr sz w1))"

definition zrealloc :: "addr \<Rightarrow> u64 \<Rightarrow> zmem \<Rightarrow> (addr \<times> zmem) option" where
  "zrealloc ptr sz w =
     (if ptr = NULL then zmalloc sz w
      else
        let realptr = ptr - 8;
            oldsize = head w realptr;
            (newptr, w1) = z_realloc realptr (unat (sz + PREFIX_SIZE)) w
        in if newptr = NULL then None
           else map_option (\<lambda>w2. (newptr + 8, update_zmalloc_stat_alloc sz (update_zmalloc_stat_free oldsize w2)))
             (put_head newptr sz w1))"

definition zmalloc_size :: "addr \<Rightarrow> zmem \<Rightarrow> u64" where
  "zmalloc_size ptr w = padded (head w (ptr - 8)) + PREFIX_SIZE"

definition zfree :: "addr \<Rightarrow> zmem \<Rightarrow> zmem" where
  "zfree ptr w =
     (if ptr = NULL then w
      else let realptr = ptr - 8; oldsize = head w realptr
           in c_free realptr (update_zmalloc_stat_free (oldsize + PREFIX_SIZE) w))"

definition zlibc_free :: "addr \<Rightarrow> zmem \<Rightarrow> zmem" where
  "zlibc_free ptr w = c_free ptr w"

text \<open>The bytes of a string with its terminator.\<close>

definition zstrdup :: "string \<Rightarrow> zmem \<Rightarrow> (addr \<times> zmem) option" where
  "zstrdup s w =
     map_option (\<lambda>(p, w1). (p, w1\<lparr>data_of := (data_of w1)(p - 8 := s @ [NUL])\<rparr>)) (zmalloc (of_nat (length s + 1)) w)"

section \<open>Reports\<close>

definition zmalloc_used_memory :: "zmem \<Rightarrow> u64" where
  "zmalloc_used_memory w = atomicGet w"

text \<open>\<^verbatim>\<open>config.h\<close> defines neither \<^verbatim>\<open>HAVE_PROC_STAT\<close> nor \<^verbatim>\<open>HAVE_PROC_SMAPS\<close>.\<close>

definition zmalloc_get_rss :: "zmem \<Rightarrow> u64" where
  "zmalloc_get_rss w = zmalloc_used_memory w"

definition zmalloc_get_allocator_info :: "int \<times> u64 \<times> u64 \<times> u64" where
  "zmalloc_get_allocator_info = (1, 0, 0, 0)"

definition zmalloc_get_smap_bytes_by_field :: "string \<Rightarrow> int \<Rightarrow> u64" where
  "zmalloc_get_smap_bytes_by_field field pid = 0"

definition zmalloc_get_private_dirty :: "int \<Rightarrow> u64" where
  "zmalloc_get_private_dirty pid = zmalloc_get_smap_bytes_by_field ''Private_Dirty:'' pid"

text \<open>The arguments are what \<^verbatim>\<open>sysconf\<close> answers for the number of pages and their size.\<close>

definition zmalloc_get_memory_size :: "u64 \<Rightarrow> u64 \<Rightarrow> u64" where
  "zmalloc_get_memory_size phys_pages pagesize = phys_pages * pagesize"

section \<open>Clients\<close>

text \<open>
  A client holds pointers with the sizes it asked for. It names a held pointer by its index; an index
  outside the list stands for NULL.
\<close>

datatype zop = Zmalloc u64 | Zcalloc u64 | Zrealloc nat u64 | Zfree nat | Zstrdup string

type_synonym zclient = "(addr \<times> u64) list"

definition keep :: "u64 \<Rightarrow> zclient \<Rightarrow> (addr \<times> zmem) option \<Rightarrow> (zclient \<times> zmem) option" where
  "keep sz h r = map_option (\<lambda>(p, w). (h @ [(p, sz)], w)) r"

fun zstep :: "zop \<Rightarrow> zclient \<times> zmem \<Rightarrow> (zclient \<times> zmem) option" where
  "zstep (Zmalloc sz) (h, w) = keep sz h (zmalloc sz w)"
| "zstep (Zcalloc sz) (h, w) = keep sz h (zcalloc sz w)"
| "zstep (Zstrdup s) (h, w) = keep (of_nat (length s + 1)) h (zstrdup s w)"
| "zstep (Zrealloc i sz) (h, w) =
     (if i < length h then map_option (\<lambda>(p, w1). (h[i := (p, sz)], w1)) (zrealloc (fst (h ! i)) sz w)
      else keep sz h (zrealloc NULL sz w))"
| "zstep (Zfree i) (h, w) =
     (if i < length h then Some (take i h @ drop (Suc i) h, zfree (fst (h ! i)) w) else Some (h, zfree NULL w))"

primrec zrun :: "zop list \<Rightarrow> zclient \<times> zmem \<Rightarrow> (zclient \<times> zmem) option" where
  "zrun [] c = Some c"
| "zrun (x # xs) c = Option.bind (zstep x c) (zrun xs)"

end
