(* ===== verification/Zmalloc_Props.thy ===== *)
theory Zmalloc_Props
  imports Zmalloc "HOL-Library.Multiset"
begin

text \<open>
  The counter of the allocation functions is exact, and they neither leak a block nor free one twice.
\<close>

section \<open>The invariant\<close>

text \<open>The blocks of a client, and what it accounts for.\<close>

definition blocks_of :: "zclient \<Rightarrow> addr list" where
  "blocks_of h = map (\<lambda>(p, s). p - 8) h"

definition counted :: "zclient \<Rightarrow> u64" where
  "counted h = (\<Sum>(p, s)\<leftarrow>h. s + PREFIX_SIZE)"

definition described :: "zmem \<Rightarrow> addr \<times> u64 \<Rightarrow> bool" where
  "described w = (\<lambda>(p, s). 8 < p \<and> head w (p - 8) = s \<and> room w (p - 8) = unat s + 8)"

definition z_inv :: "addr multiset \<Rightarrow> zclient \<times> zmem \<Rightarrow> bool" where
  "z_inv B = (\<lambda>(h, w). mset (blocks w) = B + mset (blocks_of h) \<and> distinct (blocks w) \<and> \<not> bad_free w \<and>
     used_memory w = counted h \<and> (\<forall>x \<in> set h. described w x))"

lemma counted_simps [simp]:
  "counted [] = 0" "counted ((p, s) # h) = s + PREFIX_SIZE + counted h" "counted (h @ h') = counted h + counted h'"
  by (simp_all add: counted_def)

lemma blocks_of_simps [simp]:
  "blocks_of [] = []" "blocks_of ((p, s) # h) = (p - 8) # blocks_of h" "blocks_of (h @ h') = blocks_of h @ blocks_of h'"
  by (simp_all add: blocks_of_def)

lemma z_inv_distinct:
  assumes "z_inv B (h, w)"
  shows "distinct (blocks_of h)" "set (blocks_of h) \<subseteq> set (blocks w)"
proof -
  obtain zs where zs: "mset zs = B" using ex_mset by blast
  then have m: "mset (blocks w) = mset (zs @ blocks_of h)" using assms by (simp add: z_inv_def)
  moreover have "distinct (blocks w)" using assms by (simp add: z_inv_def)
  ultimately have "distinct (zs @ blocks_of h)" using mset_eq_imp_distinct_iff by blast
  then show "distinct (blocks_of h)" by simp
  show "set (blocks_of h) \<subseteq> set (blocks w)" using mset_eq_setD [OF m] by auto
qed

text \<open>The order of a client's pointers does not matter.\<close>

lemma z_inv_perm: "mset h = mset h' \<Longrightarrow> z_inv B (h, w) = z_inv B (h', w)"
proof -
  assume m: "mset h = mset h'"
  then have "mset (blocks_of h) = mset (blocks_of h')" by (simp add: blocks_of_def)
  moreover have "counted h = counted h'" using m by (simp add: counted_def flip: sum_mset_sum_list)
  moreover have "set h = set h'" using m by (metis set_mset_mset)
  ultimately show ?thesis by (simp add: z_inv_def)
qed

lemma no_wrap: "8 \<le> unat (s + 8 :: u64) \<Longrightarrow> unat (s + 8) = unat s + 8"
proof -
  assume ge: "8 \<le> unat (s + 8)"
  have lt: "unat s < 2 ^ 64" using unsigned_less [of s, where 'a = nat] by simp
  have eq: "unat (s + 8) = (unat s + 8) mod 2 ^ 64" by (simp add: unat_word_ariths)
  show ?thesis
  proof (cases "unat s + 8 < 2 ^ 64")
    case False
    then have "(unat s + 8) mod 2 ^ 64 = unat s + 8 - 2 ^ 64" using lt by (simp add: mod_if)
    then show ?thesis using ge eq lt by simp
  qed (simp add: eq)
qed

section \<open>The operations\<close>

lemma z_malloc_facts:
  "z_malloc n w = (a, w1) \<Longrightarrow> a \<noteq> NULL \<Longrightarrow> 0 < a \<and> a \<notin> set (blocks w) \<and> blocks w1 = a # blocks w \<and>
     bad_free w1 = bad_free w \<and> used_memory w1 = used_memory w \<and> head w1 = head w \<and> room w1 = (room w)(a := n)"
  by (auto simp: z_malloc_def split: list.splits if_splits)

lemma z_calloc_facts:
  "z_calloc n w = (a, w1) \<Longrightarrow> a \<noteq> NULL \<Longrightarrow> 0 < a \<and> a \<notin> set (blocks w) \<and> blocks w1 = a # blocks w \<and>
     bad_free w1 = bad_free w \<and> used_memory w1 = used_memory w \<and> head w1 = head w \<and> room w1 = (room w)(a := n)"
  using z_malloc_facts [of n w] by (auto simp: z_calloc_def split: prod.splits if_splits)

lemma described_other: "a \<notin> set (blocks_of h) \<Longrightarrow> x \<in> set h \<Longrightarrow> head w2 = (head w)(a := i) \<Longrightarrow> room w2 = (room w)(a := n) \<Longrightarrow>
    described w2 x = described w x"
  by (auto simp: described_def blocks_of_def)

text \<open>A new block with its header, counted.\<close>

lemma new_block:
  assumes inv: "z_inv B (h, w)" and a: "0 < a" "a \<notin> set (blocks w)"
    and w2: "blocks w2 = a # blocks w" "bad_free w2 = bad_free w" "head w2 = (head w)(a := sz)"
      "room w2 = (room w)(a := unat (sz + PREFIX_SIZE))" "used_memory w2 = used_memory w + (sz + PREFIX_SIZE)"
    and fits: "8 \<le> unat (sz + PREFIX_SIZE)"
  shows "z_inv B (h @ [(a + 8, sz)], w2)"
proof -
  have "a \<notin> set (blocks_of h)" using z_inv_distinct(2) [OF inv] a(2) by blast
  then have "\<forall>x \<in> set h. described w2 x" using described_other w2(3,4) inv by (simp add: z_inv_def)
  moreover have "unat (sz + PREFIX_SIZE) = unat sz + 8" using no_wrap fits by (simp add: PREFIX_SIZE_def)
  then have "described w2 (a + 8, sz)" using w2 a(1) by (simp add: described_def)
  ultimately show ?thesis using inv a w2 by (simp add: z_inv_def)
qed

lemma zmalloc_inv: "z_inv B (h, w) \<Longrightarrow> zmalloc sz w = Some (p, w') \<Longrightarrow> z_inv B (h @ [(p, sz)], w')"
  by (auto simp: zmalloc_def put_head_def update_zmalloc_stat_alloc_def atomicIncr_def dest!: z_malloc_facts
      intro!: new_block split: prod.splits if_splits)

lemma zcalloc_inv: "z_inv B (h, w) \<Longrightarrow> zcalloc sz w = Some (p, w') \<Longrightarrow> z_inv B (h @ [(p, sz)], w')"
  by (auto simp: zcalloc_def put_head_def update_zmalloc_stat_alloc_def atomicIncr_def dest!: z_calloc_facts
      intro!: new_block split: prod.splits if_splits)

lemma z_inv_data: "z_inv B (h, w\<lparr>data_of := d\<rparr>) = z_inv B (h, w)"
  by (simp add: z_inv_def described_def)

lemma zstrdup_inv: "z_inv B (h, w) \<Longrightarrow> zstrdup s w = Some (p, w') \<Longrightarrow> z_inv B (h @ [(p, of_nat (Suc (length s)))], w')"
  by (auto simp: zstrdup_def z_inv_data dest: zmalloc_inv)

text \<open>The first pointer of a client is freed or gets another size.\<close>

lemma z_inv_Cons:
  "z_inv B ((p, s) # h, w) \<longleftrightarrow> mset (blocks w) = add_mset (p - 8) (B + mset (blocks_of h)) \<and> distinct (blocks w) \<and> \<not> bad_free w \<and>
     used_memory w = s + PREFIX_SIZE + counted h \<and> 8 < p \<and> head w (p - 8) = s \<and> room w (p - 8) = unat s + 8 \<and>
     (\<forall>x \<in> set h. described w x)"
  by (auto simp: z_inv_def described_def)

lemma zfree_inv_first: "z_inv B ((p, s) # h, w) \<Longrightarrow> z_inv B (h, zfree p w)"
proof -
  assume inv: "z_inv B ((p, s) # h, w)"
  have mem: "p - 8 \<in> set (blocks w)" using z_inv_distinct(2) [OF inv] by simp
  have "blocks (zfree p w) = remove1 (p - 8) (blocks w)" "bad_free (zfree p w) = bad_free w"
    "used_memory (zfree p w) = used_memory w - (s + PREFIX_SIZE)" "described (zfree p w) = described w"
    using inv mem by (auto simp: zfree_def z_inv_Cons c_free_def update_zmalloc_stat_free_def atomicDecr_def described_def Let_def)
  then show ?thesis using inv by (simp add: z_inv_Cons) (simp add: z_inv_def)
qed

lemma z_realloc_facts:
  assumes "z_realloc a n w = (b, w1)" "b \<noteq> NULL" "a \<in> set (blocks w)" "0 < a"
  shows "bad_free w1 = bad_free w \<and> used_memory w1 = used_memory w \<and> 
    (if b = a then blocks w1 = blocks w \<and> head w1 = head w \<and> room w1 = (room w)(a := n)
     else 0 < b \<and> b \<notin> set (blocks w) \<and> blocks w1 = b # remove1 a (blocks w) \<and> head w1 = (head w)(b := head w a) \<and> room w1 = (room w)(b := n))"
proof (cases "moves w \<noteq> [] \<and> moves w ! 0")
  case True
  define w0 where "w0 = w\<lparr>moves := drop 1 (moves w)\<rparr>"
  obtain w2 where m: "z_malloc n w0 = (b, w2)"
    and w1: "w1 = c_free a (w2\<lparr>head := (head w2)(b := head w2 a), data_of := (data_of w2)(b := take (n - 8) (data_of w a))\<rparr>)"
    using assms True by (auto simp: z_realloc_def w0_def Let_def split: prod.splits if_splits)
  have f: "0 < b" "b \<notin> set (blocks w)" "blocks w2 = b # blocks w" "bad_free w2 = bad_free w" "used_memory w2 = used_memory w"
    "head w2 = head w" "room w2 = (room w)(b := n)"
    using z_malloc_facts [OF m assms(2)] by (simp_all add: w0_def)
  then have "b \<noteq> a" using assms(3) by auto
  then show ?thesis using f assms(3,4) w1 by (simp add: c_free_def)
next
  case False
  then show ?thesis using assms by (auto simp: z_realloc_def Let_def split: prod.splits)
qed

lemma zrealloc_inv_first:
  assumes inv: "z_inv B ((p, s) # h, w)" and run: "zrealloc p sz w = Some (q, w')"
  shows "z_inv B ((q, sz) # h, w')"
proof -
  have p: "8 < p" "head w (p - 8) = s" and dist: "p - 8 \<notin> set (blocks_of h)" and mem: "p - 8 \<in> set (blocks w)"
    using z_inv_distinct [OF inv] inv by (simp_all add: z_inv_Cons)
  obtain b w1 where r: "z_realloc (p - 8) (unat (sz + PREFIX_SIZE)) w = (b, w1)" "b \<noteq> NULL" "8 \<le> room w1 b" "q = b + 8"
    and w': "w' = update_zmalloc_stat_alloc sz (update_zmalloc_stat_free s (w1\<lparr>head := (head w1)(b := sz)\<rparr>))"
    using run p by (auto simp: zrealloc_def put_head_def Let_def split: prod.splits if_splits)
  have "0 < p - 8" using p(1) by simp
  note f = z_realloc_facts [OF r(1,2) mem this]
  have n: "unat (sz + PREFIX_SIZE) = unat sz + 8"
    using f r(3) no_wrap [of sz] by (auto simp: PREFIX_SIZE_def split: if_splits)
  have w'_simps: "blocks w' = blocks w1" "bad_free w' = bad_free w" "head w' = (head w1)(b := sz)" "room w' = room w1"
    "used_memory w' = used_memory w - s + sz"
    using f by (simp_all add: w' update_zmalloc_stat_alloc_def update_zmalloc_stat_free_def atomicIncr_def atomicDecr_def)
  show ?thesis
  proof (cases "b = p - 8")
    case True
    then have "\<forall>x \<in> set h. described w' x"
      using described_other [OF dist, of _ w' w sz "unat sz + 8"] f w'_simps n inv by (simp add: z_inv_Cons)
    then show ?thesis using True f w'_simps n inv r(2,4) p by (simp add: z_inv_Cons)
  next
    case False
    have nb: "b \<notin> set (blocks_of h)" using False f z_inv_distinct(2) [OF inv] by auto
    have "\<forall>x \<in> set h. described w' x"
      using described_other [OF nb, of _ w' w sz "unat sz + 8"] False f w'_simps n inv by (simp add: z_inv_Cons)
    then show ?thesis using False f w'_simps n inv r(2,4) p by (simp add: z_inv_Cons)
  qed
qed

section \<open>Runs of a client\<close>

lemma pointer_first: "i < length h \<Longrightarrow> mset (h ! i # take i h @ drop (Suc i) h) = mset h"
  by (metis id_take_nth_drop mset.simps(2) mset_append union_mset_add_mset_right)

lemma pointer_update: "i < length h \<Longrightarrow> mset (h[i := x]) = mset (x # take i h @ drop (Suc i) h)"
  by (simp add: upd_conv_take_nth_drop)

lemma zstep_inv: "z_inv B (h, w) \<Longrightarrow> zstep x (h, w) = Some c \<Longrightarrow> z_inv B c"
proof (induction x "(h, w)" rule: zstep.induct)
  case (4 i sz)
  show ?case
  proof (cases "i < length h")
    case True
    obtain p s where ps: "h ! i = (p, s)" by fastforce
    define r where "r = take i h @ drop (Suc i) h"
    have "z_inv B ((p, s) # r, w)" using 4 z_inv_perm [OF pointer_first [OF True]] ps r_def by simp
    moreover obtain q w1 where "zrealloc p sz w = Some (q, w1)" "c = (h[i := (q, sz)], w1)" using 4 True ps by auto
    ultimately show ?thesis using zrealloc_inv_first z_inv_perm [OF pointer_update [OF True]] r_def by simp
  next
    case False
    then show ?thesis using 4 by (auto simp: keep_def zrealloc_def intro: zmalloc_inv)
  qed
next
  case (5 i)
  show ?case
  proof (cases "i < length h")
    case True
    obtain p s where ps: "h ! i = (p, s)" by fastforce
    have "z_inv B ((p, s) # take i h @ drop (Suc i) h, w)" using 5 z_inv_perm [OF pointer_first [OF True]] ps by simp
    then show ?thesis using zfree_inv_first 5 True ps by auto
  next
    case False
    then show ?thesis using 5 by (simp add: zfree_def)
  qed
qed (auto simp: keep_def simp del: of_nat_add of_nat_Suc intro: zmalloc_inv zcalloc_inv zstrdup_inv)

lemma zrun_inv: "z_inv B c \<Longrightarrow> zrun xs c = Some c' \<Longrightarrow> z_inv B c'"
proof (induction xs arbitrary: c)
  case (Cons x xs)
  then show ?case by (cases c) (auto simp: bind_eq_Some_conv dest: zstep_inv)
qed simp

text \<open>
  C40: Whatever a client allocates, resizes, duplicates and frees, \<^verbatim>\<open>zmalloc_used_memory\<close> is exactly the sum
  of the sizes it holds with their headers; the live blocks are those from before and the ones behind
  its pointers, each with room for its header and the size asked for; and nothing is freed twice.
\<close>

theorem used_memory_exact:
  assumes "used_memory w = 0" "distinct (blocks w)" "\<not> bad_free w" "zrun xs ([], w) = Some (h, w')"
  shows "zmalloc_used_memory w' = (\<Sum>(p, s)\<leftarrow>h. s + PREFIX_SIZE) \<and>
    mset (blocks w') = mset (blocks w) + mset (map (\<lambda>(p, s). p - 8) h) \<and> distinct (blocks w') \<and> \<not> bad_free w' \<and>
    (\<forall>(p, s) \<in> set h. room w' (p - 8) = unat s + 8 \<and> zmalloc_size p w' = padded s + PREFIX_SIZE)"
proof -
  have inv: "z_inv (mset (blocks w)) (h, w')" by (rule zrun_inv [OF _ assms(4)]) (simp add: z_inv_def assms(1-3))
  show ?thesis using inv by (auto simp: z_inv_def counted_def blocks_of_def described_def zmalloc_size_def zmalloc_used_memory_def atomicGet_def)
qed

definition demo_zmem :: zmem where
  "demo_zmem = \<lparr>pending = [1000, 2000, 3000], blocks = [500], bad_free = False, zeroed = [], used_memory = 0, room = (\<lambda>_. 0),
     head = (\<lambda>_. 0), data_of = (\<lambda>_. []), moves = [True]\<rparr>"

definition demo_run :: "zop list" where
  "demo_run = [Zmalloc 100, Zstrdup ''ab'', Zrealloc 0 5, Zfree 1]"

lemma demo_run_result:
  "\<exists>w'. zrun demo_run ([], demo_zmem) = Some ([(3008, 5)], w') \<and> blocks w' = [3000, 500]"
  by (simp add: demo_run_def demo_zmem_def keep_def zmalloc_def zstrdup_def zrealloc_def zfree_def z_malloc_def z_realloc_def
      put_head_def c_free_def update_zmalloc_stat_alloc_def update_zmalloc_stat_free_def atomicIncr_def atomicDecr_def PREFIX_SIZE_def)

lemma used_memory_exact_witness:
  "\<exists>w'. zrun demo_run ([], demo_zmem) = Some ([(3008, 5)], w') \<and> zmalloc_used_memory w' = 13 \<and> distinct (blocks w')"
proof -
  obtain w' where "zrun demo_run ([], demo_zmem) = Some ([(3008, 5)], w')" using demo_run_result by blast
  then show ?thesis
    using used_memory_exact [of demo_zmem demo_run "[(3008, 5)]" w'] by (simp add: demo_zmem_def PREFIX_SIZE_def)
qed

text \<open>The counter is not the sum of \<^verbatim>\<open>zmalloc_size\<close>, which pads what the counter does not.\<close>

lemma counter_not_padded:
  "padded 1 + PREFIX_SIZE = 16" "(1 :: u64) + PREFIX_SIZE = 9"
  by (simp_all add: padded_def PREFIX_SIZE_def)

end
