(* ===== verification/Log.thy ===== *)
theory Log
  imports C_Strings "HOL-Library.Monad_Syntax"
begin

text \<open>
  The log (\<^verbatim>\<open>src/src/log.c\<close>, \<^verbatim>\<open>log.h\<close>) and the size of core dumps (\<^verbatim>\<open>src/src/debug.c\<close>). The state of the
  log is what the three streams hold; locking and flushing a stream do not change it. The text of the
  time and of the formatted message are parameters. None is a crash, by a stream that is not open or by
  a buffer that is too small.
\<close>

section \<open>Levels and streams\<close>

definition LOG_TO_STDOUT :: nat where "LOG_TO_STDOUT = 0"
definition LOG_TO_STDERR :: nat where "LOG_TO_STDERR = 1"
definition LOG_TO_LOGFILE :: nat where "LOG_TO_LOGFILE = 2"

definition LOG_OPT_TIME :: u16 where "LOG_OPT_TIME = 1"
definition LOG_OPT_POS :: u16 where "LOG_OPT_POS = 2"
definition LOG_OPT_BAR :: u16 where "LOG_OPT_BAR = 4"

definition FATAL :: nat where "FATAL = 0"
definition ERR :: nat where "ERR = 1"
definition INFO :: nat where "INFO = 2"
definition DEBUG :: nat where "DEBUG = 3"
definition WARN :: nat where "WARN = 4"
definition LOG_LEVEL_MAX :: nat where "LOG_LEVEL_MAX = 5"

record log_config =
  log_flag :: u16
  log_opt :: u16

definition log_type_str :: "string list" where
  "log_type_str = [''FATAL'', ''ERROR'', ''INFO'', ''DEBUG'', ''WARN'']"

definition log_conf :: "log_config list list" where
  "log_conf =
     (let off = \<lparr>log_flag = 0, log_opt = 0\<rparr>; on = \<lparr>log_flag = 1, log_opt = LOG_OPT_TIME OR LOG_OPT_BAR\<rparr>
      in [[off, on, on], [off, on, on], [on, off, on], [on, off, on], [off, on, on]])"

text \<open>What has been written to each stream; None is a stream that is not open yet.\<close>

type_synonym logs = "nat \<Rightarrow> string option"

definition fprintf :: "nat \<Rightarrow> string \<Rightarrow> logs \<Rightarrow> logs option" where
  "fprintf fpno s w = map_option (\<lambda>t. w(fpno \<mapsto> t @ s)) (w fpno)"

definition NL :: string where "NL = [CHR 0x0A]"

text \<open>The first argument says whether the log file could be opened; if not, the process exits.\<close>

definition init_log :: "bool \<Rightarrow> logs \<Rightarrow> logs option" where
  "init_log opened w =
     (if \<not> opened then None
      else
        let w1 = w(LOG_TO_STDOUT \<mapsto> [], LOG_TO_STDERR \<mapsto> [], LOG_TO_LOGFILE \<mapsto> [])
        in do {
          w2 \<leftarrow> fprintf LOG_TO_LOGFILE (NL @ replicate 40 CHR ''*'') w1;
          fprintf LOG_TO_LOGFILE (replicate 40 CHR ''*'' @ NL @ NL) w2
        })"

section \<open>A message\<close>

definition log_with_option :: "nat \<Rightarrow> nat \<Rightarrow> string \<Rightarrow> string \<Rightarrow> string \<Rightarrow> logs \<Rightarrow> logs option" where
  "log_with_option level fpno tm loc msg w =
     (let opt = log_opt (log_conf ! level ! fpno)
      in do {
        w1 \<leftarrow> (if opt AND LOG_OPT_TIME \<noteq> 0 then fprintf fpno (tm @ ''  '') w else Some w);
        w2 \<leftarrow> (if opt AND LOG_OPT_BAR \<noteq> 0 then fprintf fpno (''['' @ log_type_str ! level @ ''] '') w1 else Some w1);
        w3 \<leftarrow> fprintf fpno (msg @ '' '') w2;
        w4 \<leftarrow> (if opt AND LOG_OPT_POS \<noteq> 0 then fprintf fpno (''('' @ loc @ '')'') w3 else Some w3);
        fprintf fpno NL w4
      })"

definition log_to_file :: "nat \<Rightarrow> string \<Rightarrow> string \<Rightarrow> string \<Rightarrow> logs \<Rightarrow> logs option" where
  "log_to_file level tm loc msg w = do {
     w1 \<leftarrow> (if log_flag (log_conf ! level ! LOG_TO_STDOUT) \<noteq> 0 then log_with_option level LOG_TO_STDOUT tm loc msg w else Some w);
     w2 \<leftarrow> (if log_flag (log_conf ! level ! LOG_TO_STDERR) \<noteq> 0 then log_with_option level LOG_TO_STDERR tm loc msg w1 else Some w1);
     if log_flag (log_conf ! level ! LOG_TO_LOGFILE) \<noteq> 0 then log_with_option level LOG_TO_LOGFILE tm loc msg w2 else Some w2
   }"

text \<open>
  The position: the end of the file's name and the line, in a buffer of 32 bytes. The line goes into
  one of 16 bytes.
\<close>

definition position :: "int \<Rightarrow> string \<Rightarrow> int \<Rightarrow> string option" where
  "position pos_max_size file line =
     (let line_str = show_int line;
          diff = int (length file) + int (length line_str) + 1 - pos_max_size;
          s = (if diff > 0 then drop (nat diff) file else file) @ '':'' @ show_int line
      in if length line_str \<ge> 16 \<or> diff > int (length file) \<or> length s \<ge> 32 then None else Some s)"

text \<open>The Boolean is False when the process exits, which it does behind a message of level FATAL.\<close>

definition log_msg_impl :: "nat \<Rightarrow> string \<Rightarrow> int \<Rightarrow> string \<Rightarrow> string \<Rightarrow> logs \<Rightarrow> (bool \<times> logs) option" where
  "log_msg_impl level file line tm msg w = do {
     loc \<leftarrow> position 30 file line;
     w1 \<leftarrow> log_to_file level tm loc (take 1023 msg) w;
     Some (level \<noteq> FATAL, w1)
   }"

definition log_msg :: "nat \<Rightarrow> string \<Rightarrow> int \<Rightarrow> string \<Rightarrow> string \<Rightarrow> logs \<Rightarrow> (bool \<times> logs) option" where
  "log_msg level file line tm msg w = (if level \<noteq> DEBUG then log_msg_impl level file line tm msg w else Some (True, w))"

subsection \<open>The version for signal handlers\<close>

definition log_with_option_r :: "nat \<Rightarrow> nat \<Rightarrow> string \<Rightarrow> string \<Rightarrow> string \<Rightarrow> logs \<Rightarrow> logs option" where
  "log_with_option_r level fpno tm loc msg w =
     (let opt = log_opt (log_conf ! level ! fpno)
      in do {
        w1 \<leftarrow> (if opt AND LOG_OPT_TIME \<noteq> 0 then fprintf fpno (tm @ ''  '') w else Some w);
        w2 \<leftarrow> (if opt AND LOG_OPT_BAR \<noteq> 0 then fprintf fpno (''['' @ log_type_str ! level @ ''] '') w1 else Some w1);
        w3 \<leftarrow> fprintf fpno (msg @ '' '') w2;
        w4 \<leftarrow> (if opt AND LOG_OPT_POS \<noteq> 0 then fprintf fpno (''('' @ loc @ '')'') w3 else Some w3);
        fprintf fpno NL w4
      })"

definition log_to_file_r :: "nat \<Rightarrow> string \<Rightarrow> string \<Rightarrow> string \<Rightarrow> logs \<Rightarrow> logs option" where
  "log_to_file_r level tm loc msg w = do {
     w1 \<leftarrow> (if log_flag (log_conf ! level ! LOG_TO_STDOUT) \<noteq> 0 then log_with_option_r level LOG_TO_STDOUT tm loc msg w else Some w);
     w2 \<leftarrow> (if log_flag (log_conf ! level ! LOG_TO_STDERR) \<noteq> 0 then log_with_option_r level LOG_TO_STDERR tm loc msg w1 else Some w1);
     if log_flag (log_conf ! level ! LOG_TO_LOGFILE) \<noteq> 0 then log_with_option_r level LOG_TO_LOGFILE tm loc msg w2 else Some w2
   }"

definition log_msg_r_impl :: "nat \<Rightarrow> string \<Rightarrow> int \<Rightarrow> string \<Rightarrow> string \<Rightarrow> logs \<Rightarrow> (bool \<times> logs) option" where
  "log_msg_r_impl level file line tm msg w = do {
     loc \<leftarrow> position 16 file line;
     w1 \<leftarrow> log_to_file_r level tm loc (take 1023 msg) w;
     Some (level \<noteq> FATAL, w1)
   }"

definition log_msg_r :: "nat \<Rightarrow> string \<Rightarrow> int \<Rightarrow> string \<Rightarrow> string \<Rightarrow> logs \<Rightarrow> (bool \<times> logs) option" where
  "log_msg_r level file line tm msg w = (if level \<noteq> DEBUG then log_msg_r_impl level file line tm msg w else Some (True, w))"

section \<open>What a message leaves\<close>

lemma show_int_length: "\<bar>n\<bar> < 10 ^ 10 \<Longrightarrow> length (show_int n) \<le> 11"
proof -
  assume n: "\<bar>n\<bar> < 10 ^ 10"
  then have "nat \<bar>n\<bar> < 10 ^ 10" by (simp add: nat_less_iff)
  then have "length (dec (nat \<bar>n\<bar>)) \<le> 10" by (rule dec_length) simp
  then show ?thesis by (auto simp: show_int_def abs_if split: if_splits)
qed

lemma position_fits:
  assumes "\<bar>line\<bar> < 2 ^ 31" "k = 16 \<or> k = 30"
  shows "\<exists>loc. position k file line = Some loc \<and> int (length loc) \<le> k"
proof -
  have "length (show_int line) \<le> 11" using assms(1) by (intro show_int_length) simp
  then show ?thesis using assms(2) by (auto simp: position_def Let_def)
qed

text \<open>The line a stream gets.\<close>

definition log_line :: "nat \<Rightarrow> string \<Rightarrow> string \<Rightarrow> string" where
  "log_line level tm msg = tm @ ''  ['' @ log_type_str ! level @ ''] '' @ take 1023 msg @ '' '' @ NL"

definition to_stderr :: "nat \<Rightarrow> bool" where
  "to_stderr level \<longleftrightarrow> level \<in> {FATAL, ERR, WARN}"

lemma level_cases: "level < LOG_LEVEL_MAX \<Longrightarrow> level \<in> {FATAL, ERR, INFO, DEBUG, WARN}"
  by (auto simp: LOG_LEVEL_MAX_def FATAL_def ERR_def INFO_def DEBUG_def WARN_def)

lemmas level_defs = FATAL_def ERR_def INFO_def DEBUG_def WARN_def log_type_str_def log_conf_def LOG_TO_STDOUT_def LOG_TO_STDERR_def
  LOG_TO_LOGFILE_def LOG_OPT_TIME_def LOG_OPT_POS_def LOG_OPT_BAR_def

lemma log_flags:
  assumes "level < LOG_LEVEL_MAX"
  shows "log_flag (log_conf ! level ! LOG_TO_STDOUT) \<noteq> 0 \<longleftrightarrow> \<not> to_stderr level"
    "log_flag (log_conf ! level ! LOG_TO_STDERR) \<noteq> 0 \<longleftrightarrow> to_stderr level"
    "log_flag (log_conf ! level ! LOG_TO_LOGFILE) \<noteq> 0"
  using level_cases [OF assms] by (auto simp: level_defs to_stderr_def Let_def)

lemma log_opts:
  assumes "level < LOG_LEVEL_MAX" "fpno < 3" "log_flag (log_conf ! level ! fpno) \<noteq> 0"
  shows "log_opt (log_conf ! level ! fpno) = 5"
proof -
  have "fpno = 0 \<or> fpno = 1 \<or> fpno = 2" using assms(2) by auto
  then show ?thesis using level_cases [OF assms(1)] assms(3) by (auto simp: level_defs Let_def)
qed

lemma log_with_option_line:
  assumes "level < LOG_LEVEL_MAX" "fpno < 3" "log_flag (log_conf ! level ! fpno) \<noteq> 0"
  shows "log_with_option level fpno tm loc (take 1023 msg) w = map_option (\<lambda>t. w(fpno \<mapsto> t @ log_line level tm msg)) (w fpno)"
  using log_opts [OF assms]
  by (cases "w fpno") (simp_all add: log_with_option_def fprintf_def log_line_def LOG_OPT_TIME_def LOG_OPT_POS_def LOG_OPT_BAR_def)

lemma streams_distinct [simp]:
  "LOG_TO_STDOUT < 3" "LOG_TO_STDERR < 3" "LOG_TO_LOGFILE < 3" "LOG_TO_STDOUT \<noteq> LOG_TO_LOGFILE" "LOG_TO_STDERR \<noteq> LOG_TO_LOGFILE"
  "LOG_TO_LOGFILE \<noteq> LOG_TO_STDOUT" "LOG_TO_LOGFILE \<noteq> LOG_TO_STDERR" "LOG_TO_STDOUT \<noteq> LOG_TO_STDERR" "LOG_TO_STDERR \<noteq> LOG_TO_STDOUT"
  by (simp_all add: LOG_TO_STDOUT_def LOG_TO_STDERR_def LOG_TO_LOGFILE_def)

lemma log_to_file_lines:
  assumes "level < LOG_LEVEL_MAX" "w LOG_TO_STDOUT = Some out" "w LOG_TO_STDERR = Some err" "w LOG_TO_LOGFILE = Some f"
  shows "\<exists>w'. log_to_file level tm loc (take 1023 msg) w = Some w' \<and> w' LOG_TO_LOGFILE = Some (f @ log_line level tm msg) \<and>
    w' LOG_TO_STDERR = Some (if to_stderr level then err @ log_line level tm msg else err) \<and>
    w' LOG_TO_STDOUT = Some (if to_stderr level then out else out @ log_line level tm msg)"
  using log_flags [OF assms(1)] assms(2-4)
  by (cases "to_stderr level") (simp_all add: log_to_file_def log_with_option_line assms(1))

lemma log_to_file_loc: "level < LOG_LEVEL_MAX \<Longrightarrow> log_to_file level tm loc (take 1023 msg) = log_to_file level tm loc' (take 1023 msg)"
  using log_flags [of level] by (simp add: fun_eq_iff log_to_file_def log_with_option_line)

lemma log_to_file_r_eq: "log_to_file_r = log_to_file"
  by (simp add: fun_eq_iff log_to_file_r_def log_to_file_def log_with_option_r_def log_with_option_def)

text \<open>
  A message of any level but DEBUG, from any line of any file and of any length, is written as one
  whole line, cut to 1023 bytes of text, to the log file and to exactly one of the two terminals,
  stderr for FATAL, ERR and WARN and stdout for INFO, behind what they hold; no buffer overflows; the
  process goes on unless the level is FATAL; and the version for signal handlers does the same.
\<close>

theorem log_message_complete:
  assumes "level < LOG_LEVEL_MAX" "level \<noteq> DEBUG" "\<bar>line\<bar> < 2 ^ 31"
    and "w LOG_TO_STDOUT = Some out" "w LOG_TO_STDERR = Some err" "w LOG_TO_LOGFILE = Some f"
  shows "\<exists>w'. log_msg level file line tm msg w = Some (level \<noteq> FATAL, w') \<and>
    log_msg_r level file line tm msg w = Some (level \<noteq> FATAL, w') \<and>
    w' LOG_TO_LOGFILE = Some (f @ log_line level tm msg) \<and>
    w' LOG_TO_STDERR = Some (if to_stderr level then err @ log_line level tm msg else err) \<and>
    w' LOG_TO_STDOUT = Some (if to_stderr level then out else out @ log_line level tm msg)"
proof -
  obtain p q where pos: "position 30 file line = Some p" "position 16 file line = Some q"
    using position_fits [OF assms(3)] by metis
  obtain w' where "log_to_file level tm p (take 1023 msg) w = Some w'" "w' LOG_TO_LOGFILE = Some (f @ log_line level tm msg)"
    "w' LOG_TO_STDERR = Some (if to_stderr level then err @ log_line level tm msg else err)"
    "w' LOG_TO_STDOUT = Some (if to_stderr level then out else out @ log_line level tm msg)"
    using log_to_file_lines [OF assms(1,4-6)] by blast
  then show ?thesis
    using assms(2) pos log_to_file_loc [OF assms(1), of tm q msg p]
    by (simp add: log_msg_def log_msg_r_def log_msg_impl_def log_msg_r_impl_def log_to_file_r_eq)
qed

lemma log_message_complete_witness:
  "\<exists>w'. log_msg WARN ''main.c'' 154 ''12:00'' ''Program hanged up.'' (\<lambda>i. Some []) = Some (True, w') \<and>
     w' LOG_TO_STDERR = Some (''12:00  [WARN] Program hanged up. '' @ NL) \<and> w' LOG_TO_STDOUT = Some []"
  using log_message_complete [of WARN 154 "\<lambda>i. Some []" "[]" "[]" "[]" "''main.c''" "''12:00''" "''Program hanged up.''"]
  by (auto simp: LOG_LEVEL_MAX_def to_stderr_def log_line_def log_type_str_def FATAL_def ERR_def WARN_def DEBUG_def)

text \<open>Before \<^verbatim>\<open>init_log\<close> every message is written to a stream that is not open.\<close>

lemma log_before_init: "level < LOG_LEVEL_MAX \<Longrightarrow> level \<noteq> DEBUG \<Longrightarrow> log_msg level file line tm msg (\<lambda>_. None) = None"
  using log_flags [of level]
  by (cases "position 30 file line") (simp_all add: log_msg_def log_msg_impl_def log_to_file_def log_with_option_line)

section \<open>Core dumps\<close>

text \<open>
  \<^verbatim>\<open>core_dump_config\<close>: the limit of the process (None is no limit), what \<^verbatim>\<open>prctl\<close> and \<^verbatim>\<open>getrlimit\<close>
  answer, and whether the process may raise its hard limit. \<^verbatim>\<open>setrlimit\<close> refuses a soft limit above
  the hard one, and with EPERM a higher hard limit without the privilege.
\<close>

record core_limit =
  rlim_cur :: "nat option"
  rlim_max :: "nat option"

definition limit_le :: "nat option \<Rightarrow> nat option \<Rightarrow> bool" where
  "limit_le x y = (case y of None \<Rightarrow> True | Some m \<Rightarrow> (case x of None \<Rightarrow> False | Some n \<Rightarrow> n \<le> m))"

definition setrlimit :: "bool \<Rightarrow> core_limit \<Rightarrow> core_limit \<Rightarrow> bool \<times> core_limit" where
  "setrlimit privileged new lim =
     (if limit_le (rlim_cur new) (rlim_max new) \<and> (privileged \<or> limit_le (rlim_max new) (rlim_max lim))
      then (True, new) else (False, lim))"

definition core_dump_config :: "int \<Rightarrow> bool \<Rightarrow> bool \<Rightarrow> bool \<Rightarrow> core_limit \<Rightarrow> core_limit" where
  "core_dump_config dumpable set_dumpable_ok getrlimit_ok privileged lim =
     (if dumpable \<noteq> - 1 \<and> \<not> set_dumpable_ok then lim
      else if \<not> getrlimit_ok then lim
      else if rlim_max lim = None \<and> rlim_cur lim = None then lim
      else
        let new_lim = \<lparr>rlim_cur = None, rlim_max = None\<rparr>;
            (ok, lim1) = setrlimit privileged new_lim lim
        in if ok then lim1
           else if \<not> limit_le (rlim_max lim) (rlim_cur lim) then lim1
           else snd (setrlimit privileged (new_lim\<lparr>rlim_cur := rlim_max lim\<rparr>) lim1))"

text \<open>
  Without the privilege the soft limit is never raised to the hard one: where there is something to
  raise, the function returns, and the second attempt asks for no hard limit again.
\<close>

lemma core_limit_not_raised:
  "rlim_max lim \<noteq> None \<Longrightarrow> core_dump_config d s g False lim = lim"
  by (auto simp: core_dump_config_def setrlimit_def limit_le_def split: option.splits)

section \<open>The stack trace\<close>

text \<open>
  \<^verbatim>\<open>dump_stack\<close>: \<open>symbols\<close> is what \<^verbatim>\<open>backtrace_symbols\<close> gives for at most 100 return addresses, \<open>tm\<close> the
  times of the messages. The Boolean is False when the process exits.
\<close>

fun log_frames :: "(nat \<Rightarrow> string) \<Rightarrow> nat \<Rightarrow> string list \<Rightarrow> logs \<Rightarrow> logs option" where
  "log_frames tm i [] w = Some w"
| "log_frames tm i (s # ss) w = do {
     (go, w1) \<leftarrow> log_msg INFO ''debug.c'' 27 (tm i) (''  '' @ s) w;
     log_frames tm (i + 1) ss w1
   }"

definition dump_stack :: "string list option \<Rightarrow> (nat \<Rightarrow> string) \<Rightarrow> logs \<Rightarrow> (bool \<times> logs) option" where
  "dump_stack symbols tm w =
     (case symbols of
        None \<Rightarrow> do {
          (go, w1) \<leftarrow> log_msg ERR ''debug.c'' 20 (tm 0) ''backtrace_symbols error'' w;
          Some (False, w1)
        }
      | Some strings \<Rightarrow> do {
          (go, w1) \<leftarrow> log_msg INFO ''debug.c'' 24 (tm 0) ''Backtrace for process'' w;
          w2 \<leftarrow> log_frames tm 1 (take 100 strings) w1;
          Some (True, w2)
        })"

lemma info_logged:
  assumes "w LOG_TO_STDOUT = Some out" "w LOG_TO_STDERR = Some err" "w LOG_TO_LOGFILE = Some f" "\<bar>line\<bar> < 2 ^ 31"
  obtains w' where "log_msg INFO fl line tm msg w = Some (True, w')" "w' LOG_TO_STDOUT = Some (out @ log_line INFO tm msg)"
    "w' LOG_TO_STDERR = Some err" "w' LOG_TO_LOGFILE = Some (f @ log_line INFO tm msg)"
proof -
  have level: "INFO < LOG_LEVEL_MAX" "INFO \<noteq> DEBUG" "INFO \<noteq> FATAL" "\<not> to_stderr INFO"
    by (simp_all add: level_defs LOG_LEVEL_MAX_def to_stderr_def)
  obtain loc where "position 30 fl line = Some loc" using position_fits [OF assms(4)] by metis
  then show thesis
    using that log_to_file_lines [OF level(1) assms(1-3), of tm loc msg] level by (auto simp: log_msg_def log_msg_impl_def)
qed

text \<open>The trace goes to the log file frame by frame, in order, and the process goes on.\<close>

lemma log_frames_written:
  assumes "w LOG_TO_STDOUT = Some out" "w LOG_TO_STDERR = Some err" "w LOG_TO_LOGFILE = Some f"
  shows "\<exists>w' out'. log_frames tm i ss w = Some w' \<and> w' LOG_TO_STDOUT = Some out' \<and> w' LOG_TO_STDERR = Some err \<and>
    w' LOG_TO_LOGFILE = Some (f @ concat (map (\<lambda>k. log_line INFO (tm (i + k)) (''  '' @ ss ! k)) [0..<length ss]))"
  using assms
proof (induction ss arbitrary: i w out f)
  case (Cons s ss)
  obtain w1 where w1: "log_msg INFO ''debug.c'' 27 (tm i) (''  '' @ s) w = Some (True, w1)"
    "w1 LOG_TO_STDOUT = Some (out @ log_line INFO (tm i) (''  '' @ s))" "w1 LOG_TO_STDERR = Some err"
    "w1 LOG_TO_LOGFILE = Some (f @ log_line INFO (tm i) (''  '' @ s))"
    by (rule info_logged [OF Cons.prems, where line = 27 and fl = "''debug.c''" and tm = "tm i" and msg = "''  '' @ s"]) simp_all
  have "[0..<length (s # ss)] = 0 # map Suc [0..<length ss]" by (metis length_Cons map_Suc_upt upt_conv_Cons zero_less_Suc)
  then show ?case using w1(1) Cons.IH [OF w1(2-4), of "i + 1"] by (simp add: comp_def)
qed simp

lemma dump_stack_written:
  assumes "w LOG_TO_STDOUT = Some out" "w LOG_TO_STDERR = Some err" "w LOG_TO_LOGFILE = Some f"
  shows "\<exists>w'. dump_stack (Some ss) tm w = Some (True, w') \<and> w' LOG_TO_LOGFILE = Some (f @ log_line INFO (tm 0) ''Backtrace for process'' @
    concat (map (\<lambda>k. log_line INFO (tm (1 + k)) (''  '' @ take 100 ss ! k)) [0..<min 100 (length ss)]))"
proof -
  obtain w1 where w1: "log_msg INFO ''debug.c'' 24 (tm 0) ''Backtrace for process'' w = Some (True, w1)"
    "w1 LOG_TO_STDOUT = Some (out @ log_line INFO (tm 0) ''Backtrace for process'')" "w1 LOG_TO_STDERR = Some err"
    "w1 LOG_TO_LOGFILE = Some (f @ log_line INFO (tm 0) ''Backtrace for process'')"
    by (rule info_logged [OF assms, where line = 24 and fl = "''debug.c''" and tm = "tm 0" and msg = "''Backtrace for process''"]) simp_all
  show ?thesis
    using log_frames_written [OF w1(2-4), of tm 1 "take 100 ss"] w1(1) by (auto simp: dump_stack_def min.commute)
qed

end
