(* ===== verification/Spec2Isabelle.thy ===== *)
theory Spec2Isabelle
  imports Pool_Blocks Http_Props Http_Chunk Http_Url_Props Http_Names Balance_Props Ae_Props Ae_Time_Props Ae_Ports Ae_Life Anet_Props Agent_Main
    Consumer_Exchange Provider_Props Provider_Start Provider_Service Startup_Props Boot Zmalloc_Props Log
begin

text \<open>
  A model of the Dubbo service mesh agent (C sources in \<^verbatim>\<open>src/src\<close>).

  \<^bold>\<open>The program.\<close> One executable is a consumer agent or a provider agent. A provider agent registers its
  address in etcd. A consumer agent reads the registered addresses when it starts and opens a pool of
  connections to each of them. It accepts the HTTP connections of consumers, picks a provider agent by
  load or latency, and relays the bytes of a request and of its answer without looking into them. The
  provider agent parses the HTTP request, turns the form in its body into the frame of a Dubbo call for
  the local provider, and the frame of the answer into an HTTP response. Both agents are single
  threaded: an event loop over non-blocking sockets calls one handler at a time, and a handler may
  register and remove events. Connection objects come from resource pools.

  \<^bold>\<open>Theories\<close>, with the code they model; a definition has the name of the function, type or constant it
  translates, or the name of the part of a function it stands for.

  \<^item> \<^verbatim>\<open>Mesh_Prelude\<close>: addresses, the allocator of the C library, null-terminated lists in a store, words.
    \<^verbatim>\<open>C_Strings\<close>: \<^verbatim>\<open>strchr\<close>, \<^verbatim>\<open>strncmp\<close>, \<^verbatim>\<open>printf("%.*s")\<close>, decimal numbers, byte order.
  \<^item> \<^verbatim>\<open>pool.c\<close>: \<^verbatim>\<open>Pool\<close> (two linked stacks of buckets, 32-bit counters, callbacks); \<^verbatim>\<open>Pool_Inv\<close> (the
    structural invariant), \<^verbatim>\<open>Pool_Spec\<close> (the abstract pool, the locale \<^verbatim>\<open>resource_pool\<close> and its
    interpretation), \<^verbatim>\<open>Pool_Life\<close> (what PoolInit builds and PoolFree releases), \<^verbatim>\<open>Pool_Props\<close>, \<^verbatim>\<open>Pool_Blocks\<close> (the blocks of
    the allocator that a pool holds, preallocated in full or in part), \<^verbatim>\<open>Pool_Frame\<close> (the locale
    \<^verbatim>\<open>pool_frame\<close>: what the callbacks keep, the pool keeps).
  \<^item> \<^verbatim>\<open>http_parser.c\<close>, \<^verbatim>\<open>http_parser.h\<close>, strict mode: \<^verbatim>\<open>Http_Types\<close> (data, tables), \<^verbatim>\<open>Http_Url\<close> (characters and
    URLs), \<^verbatim>\<open>Http_Exec\<close> (the macros and callbacks), \<^verbatim>\<open>Http_Start\<close>, \<^verbatim>\<open>Http_Header\<close>, \<^verbatim>\<open>Http_Body\<close> (the cases of
    the switch), \<^verbatim>\<open>Http_Switch\<close>, \<^verbatim>\<open>Http_Loop\<close> (the loop and the function itself); \<^verbatim>\<open>Http_Rules\<close> and
    \<^verbatim>\<open>Http_Safe\<close> (the invariant \<^verbatim>\<open>parser_wf\<close>, case by case), \<^verbatim>\<open>Http_Props\<close>, \<^verbatim>\<open>Http_Url_Props\<close>; \<^verbatim>\<open>Http_Request\<close> and
    \<^verbatim>\<open>Http_Message\<close> (a request as a sequence of pieces, each with what the parser is before and behind it), \<^verbatim>\<open>Http_Chunk\<close>
    (the size line of a chunk in the same way),
    \<^verbatim>\<open>Http_Frame\<close> (the locale \<^verbatim>\<open>keeping\<close>: what the callbacks keep, a call of the parser keeps), \<^verbatim>\<open>Http_Names\<close> (the
    names of the errors and status codes).
  \<^item> \<^verbatim>\<open>ae.c\<close> and \<^verbatim>\<open>opt/\<close>: \<^verbatim>\<open>Ae\<close> (the table of file events and the dispatch), \<^verbatim>\<open>Ae_Backend\<close> (epoll and select over
    a kernel state), \<^verbatim>\<open>Ae_Ports\<close> (kqueue and event ports), \<^verbatim>\<open>Ae_Time\<close> (time events, \<^verbatim>\<open>aeWait\<close>); \<^verbatim>\<open>Ae_Props\<close>
    (the locale \<^verbatim>\<open>multiplexer\<close> with an interpretation for epoll, select and, there, kqueue; the locale
    \<^verbatim>\<open>loop_program\<close> for the invariants of a program that runs on the loop), \<^verbatim>\<open>Ae_Watch\<close>, \<^verbatim>\<open>Ae_Time_Props\<close>;
    \<^verbatim>\<open>Ae_Life\<close> (the memory and the descriptor of a loop, the locale \<^verbatim>\<open>layer_memory\<close> with an interpretation for
    each of the four layers).
  \<^item> \<^verbatim>\<open>anet.c\<close>: \<^verbatim>\<open>Anet\<close> in a state monad over the descriptors of the process, \<^verbatim>\<open>Anet_Props\<close>.
    \<^verbatim>\<open>Sockets\<close>: the system calls of the handlers with an environment that answers them.
  \<^item> \<^verbatim>\<open>consumer.c\<close>: \<^verbatim>\<open>Balance\<close> and \<^verbatim>\<open>Balance_Props\<close> (the choice of a provider, the locale \<^verbatim>\<open>endpoint_choice\<close>),
    \<^verbatim>\<open>Consumer\<close> (the handlers), \<^verbatim>\<open>Consumer_Inv\<close> (who uses which descriptor and object), \<^verbatim>\<open>Consumer_Steps\<close>,
    \<^verbatim>\<open>Consumer_Handlers\<close>, \<^verbatim>\<open>Consumer_Props\<close>, \<^verbatim>\<open>Consumer_Exchange\<close>.
  \<^item> \<^verbatim>\<open>provider.c\<close>: \<^verbatim>\<open>Dubbo\<close> and \<^verbatim>\<open>Dubbo_Props\<close> (the frames), \<^verbatim>\<open>Provider\<close> (the handlers), \<^verbatim>\<open>Provider_Steps\<close> (a
    connection object and its partner through one handler), \<^verbatim>\<open>Provider_Props\<close>, \<^verbatim>\<open>Provider_Types\<close> (the shape of
    the connection objects, the locale \<^verbatim>\<open>loop_invariant\<close>), \<^verbatim>\<open>Provider_Start\<close> (the shape holds at the start).
  \<^item> \<^verbatim>\<open>Mesh\<close>: the two agents and the connection between them. \<^verbatim>\<open>Provider_Service\<close>: the specification of a provider
    agent as a server of calls, and its refinement.
  \<^item> \<^verbatim>\<open>etcd.c\<close>: \<^verbatim>\<open>Etcd\<close>. The registration and discovery on top of it, and the start of both agents:
    \<^verbatim>\<open>Startup\<close>, \<^verbatim>\<open>Startup_Props\<close>, \<^verbatim>\<open>Boot\<close> (from the start of a consumer agent to its invariant).
  \<^item> \<^verbatim>\<open>main.c\<close>: \<^verbatim>\<open>Agent_Main\<close> (options, listening socket, signals, \<^verbatim>\<open>main\<close>); the accept handler is in \<^verbatim>\<open>Consumer\<close> and
    \<^verbatim>\<open>Provider\<close>. \<^verbatim>\<open>zmalloc.c\<close>, \<^verbatim>\<open>atomicvar.h\<close>: \<^verbatim>\<open>Zmalloc\<close>, \<^verbatim>\<open>Zmalloc_Props\<close>. \<^verbatim>\<open>log.c\<close>, \<^verbatim>\<open>debug.c\<close>: \<^verbatim>\<open>Log\<close>.
    \<^verbatim>\<open>util.c\<close>: \<^verbatim>\<open>Util\<close>.

  \<^bold>\<open>States.\<close> A structure is a record and lives in a store from addresses to records, because handlers,
  pools and the event table share it by address. The kernel is part of the state: open descriptors,
  the interest list of epoll, the bytes sent on each descriptor (\<^verbatim>\<open>sent\<close>). What the outside world
  answers is an environment, a function of the whole state, so a theorem about any environment is one
  about every sequence of answers. A result None is a crash (NULL, an index outside an array, a failed
  assertion), Exited an orderly end. Counters and lengths keep their width where they can wrap.

  \<^bold>\<open>What is shown.\<close> The pool: no element has two holders; a pool preallocated in full leaks nothing, one
  preallocated in part exactly the elements PoolGet allocated and nobody gave back. The parser: no assertion
  fails and no byte outside the buffer is read for any input cut in any way; bodies, lengths, chunk
  sizes, methods and URLs are read exactly. The event loop: table and kernel agree after every sequence of
  operations, and epoll and select wait for the same events; a pass over the time events calls what is due, in order; a loop gives back its memory and its queue. The socket helpers: no descriptor or address list is
  leaked. The consumer agent: started on a registry with up to three providers it watches its listening
  socket, has its pools connected and is in its invariant, and then runs for ever without a crash in an orderly environment (\<^verbatim>\<open>orderly\<close>: no failed
  registration, full buffer or hangup during an exchange); exchanges never mix, at no moment of a round. The provider agent: its
  buffers and cursors keep their shape whatever its peers do, failed registrations and aborted
  connections included; over any number of exchanges on a
  connection it implements a server that answers each call with the provider's value. Both together: a consumer's HTTP request
  becomes the call of its form at the provider, and the provider's value the HTTP response. The registry: the directory is walked
  completely, a key is read back as its address. Where the code does not keep what it means to keep,
  the theorem states what it does (the error properties).

  \<^bold>\<open>Termination.\<close> Loops are recursive functions with a measure; loops over linked lists and over the
  JSON tree are partial functions into option, for which a result is proved from the shape of the data.
  \<^verbatim>\<open>aeMain\<close> takes the number of rounds as a bound, since the program itself runs for ever; the theorems
  hold for every number.

  \<^bold>\<open>Not modelled.\<close> The two printing functions of the pool; the branches of \<^verbatim>\<open>zmalloc.c\<close> for other
  allocators and systems, \<^verbatim>\<open>set_cpu_affinity\<close> and the commented-out handlers, none of which is compiled.
  The sockets of \<^verbatim>\<open>anet.c\<close> and those of the handlers are two models of the kernel, which keep different
  things of it; \<^verbatim>\<open>main\<close> hands over the listening descriptor from the one to the other. libcurl, jansson, the kernel and the resolver are parameters.
\<close>

end
